(* ===== verification/Prelude.thy ===== *)
theory Prelude
  imports Complex_Main "HOL-Library.Word"
begin

text \<open>
  What the component theories share: how Python values that may be absent are read
  (\<^verbatim>\<open>x or default\<close>, \<^verbatim>\<open>isinstance\<close> guards), how integers are written and parsed, the time
  type, counting over a finite map (the census lemmas), and the interfaces of the
  development: a locale for what every step of a machine keeps, for records that are
  frozen once terminal, for counters that only grow, and for ownership epochs that fence a
  stale owner. The component theories interpret these locales on their own step
  relations.
\<close>

named_theorems txn_defs \<open>defining equations of the transactional operations\<close>
named_theorems doc_simps \<open>what an update writes to and keeps of a stored document\<close>

section \<open>Python values\<close>

text \<open>
  Instants and durations are integers counting microseconds (the resolution of Python's
  \<^verbatim>\<open>datetime\<close> and \<^verbatim>\<open>timedelta\<close>). A document field is \<open>None\<close> when the key is absent or
  holds null.
\<close>

type_synonym timestamp = int
type_synonym duration = int
type_synonym environ = "string \<Rightarrow> string option"

definition seconds :: "int \<Rightarrow> duration" where
  "seconds n = n * 1000000"

text \<open>\<^verbatim>\<open>int(d.get(k) or n)\<close>, \<^verbatim>\<open>str(d.get(k) or s)\<close>, \<^verbatim>\<open>bool(d.get(k))\<close> and
  \<^verbatim>\<open>isinstance(x, str) and x\<close>: zero, the empty string and null all count as absent.\<close>

definition int_or :: "int option \<Rightarrow> int \<Rightarrow> int" where
  "int_or x d = (case x of None \<Rightarrow> d | Some n \<Rightarrow> if n = 0 then d else n)"

definition str_or :: "string option \<Rightarrow> string \<Rightarrow> string" where
  "str_or x d = (case x of None \<Rightarrow> d | Some s \<Rightarrow> if s = '''' then d else s)"

definition truthy :: "bool option \<Rightarrow> bool" where
  "truthy x \<longleftrightarrow> x = Some True"

definition nonempty_str :: "string option \<Rightarrow> string option" where
  "nonempty_str x = (case x of None \<Rightarrow> None | Some s \<Rightarrow> if s = '''' then None else Some s)"

lemma int_or_simps [simp]:
  "int_or None d = d" "int_or (Some 0) d = d" "n \<noteq> 0 \<Longrightarrow> int_or (Some n) d = n"
  by (simp_all add: int_or_def)

lemma int_or_0: "int_or (Some n) 0 = n"
  by (simp add: int_or_def)

lemma str_or_simps [simp]:
  "str_or None d = d" "str_or (Some '''') d = d" "str_or (Some (c # s)) d = c # s"
  by (simp_all add: str_or_def)

lemma str_or_Nil_eq [simp]: "str_or (Some s) '''' = s"
  by (simp add: str_or_def)

lemma truthy_simps [simp]:
  "\<not> truthy None" "truthy (Some b) = b"
  by (auto simp: truthy_def)

lemma nonempty_str_simps [simp]:
  "nonempty_str None = None" "nonempty_str (Some '''') = None"
  "nonempty_str (Some (c # s)) = Some (c # s)"
  by (simp_all add: nonempty_str_def)

lemma nonempty_str_SomeD: "nonempty_str x = Some s \<Longrightarrow> x = Some s \<and> s \<noteq> ''''"
  by (auto simp: nonempty_str_def split: option.splits if_splits)

section \<open>Integers as text\<close>

text \<open>\<^verbatim>\<open>str(n)\<close>, the two-digit format \<^verbatim>\<open>{n:02d}\<close>, and \<^verbatim>\<open>int(s)\<close>: surrounding blanks, one
  sign and single underscores between digits are accepted, anything else is a
  \<^verbatim>\<open>ValueError\<close> (\<open>None\<close>).\<close>

fun show_nat :: "nat \<Rightarrow> string" where
  "show_nat n = (if n < 10 then [char_of (48 + n)] else show_nat (n div 10) @ [char_of (48 + n mod 10)])"

declare show_nat.simps [simp del]

definition show_int :: "int \<Rightarrow> string" where
  "show_int i = (if i < 0 then CHR ''-'' # show_nat (nat (- i)) else show_nat (nat i))"

definition show_02d :: "int \<Rightarrow> string" where
  "show_02d i = (let s = show_int i in if length s < 2 then CHR ''0'' # s else s)"

definition digit_of :: "char \<Rightarrow> nat option" where
  "digit_of c = (let k = of_char c :: nat in if 48 \<le> k \<and> k \<le> 57 then Some (k - 48) else None)"

definition is_space :: "char \<Rightarrow> bool" where
  "is_space c \<longleftrightarrow> (let k = of_char c :: nat in 9 \<le> k \<and> k \<le> 13 \<or> 28 \<le> k \<and> k \<le> 32)"

definition strip :: "string \<Rightarrow> string" where
  "strip s = rev (dropWhile is_space (rev (dropWhile is_space s)))"

text \<open>\<^verbatim>\<open>s.lower()\<close> acts on each letter.\<close>

definition lower_char :: "char \<Rightarrow> char" where
  "lower_char c = (let k = of_char c :: nat in if 65 \<le> k \<and> k \<le> 90 then char_of (k + 32) else c)"

text \<open>\<^verbatim>\<open>s.split(sep)\<close> for a single character.\<close>

fun split_on :: "char \<Rightarrow> string \<Rightarrow> string list" where
  "split_on sep [] = [[]]"
| "split_on sep (c # s) =
     (if c = sep then [] # split_on sep s
      else (case split_on sep s of p # ps \<Rightarrow> (c # p) # ps | [] \<Rightarrow> [[c]]))"

lemma split_on_not_Nil [simp]: "split_on sep s \<noteq> []"
  by (induction s) (auto split: list.splits)

lemma split_on_plain: "sep \<notin> set s \<Longrightarrow> split_on sep s = [s]"
  by (induction s) auto

lemma split_on_append: "sep \<notin> set s \<Longrightarrow> split_on sep (s @ sep # t) = s # split_on sep t"
  by (induction s) auto

text \<open>\<open>read_digits acc after_digit s\<close>: an underscore needs a digit on both sides.\<close>

fun read_digits :: "nat \<Rightarrow> bool \<Rightarrow> string \<Rightarrow> nat option" where
  "read_digits acc after_digit [] = (if after_digit then Some acc else None)"
| "read_digits acc after_digit (c # s) =
     (case digit_of c of
        Some d \<Rightarrow> read_digits (acc * 10 + d) True s
      | None \<Rightarrow> if c = CHR ''_'' \<and> after_digit then read_digits acc False s else None)"

definition py_int :: "string \<Rightarrow> int option" where
  "py_int s =
     (case strip s of
        [] \<Rightarrow> None
      | c # cs \<Rightarrow>
          if c = CHR ''-'' then map_option (\<lambda>n. - int n) (read_digits 0 False cs)
          else if c = CHR ''+'' then map_option int (read_digits 0 False cs)
          else map_option int (read_digits 0 False (c # cs)))"

lemma of_char_of_digit: "d < 10 \<Longrightarrow> of_char (char_of (48 + d) :: char) = (48 + d :: nat)"
  by simp

lemma digit_of_char: "d < 10 \<Longrightarrow> digit_of (char_of (48 + d)) = Some d"
  by (simp add: digit_of_def Let_def of_char_of_digit)

lemma read_digits_append_digit:
  "read_digits acc b (s @ [char_of (48 + d)]) =
     (case read_digits acc b s of Some n \<Rightarrow> Some (n * 10 + d) | None \<Rightarrow> None)"
  if "d < 10" "s \<noteq> []" "\<forall>c \<in> set s. digit_of c \<noteq> None"
  using that(2,3)
proof (induction s arbitrary: acc b)
  case Nil
  then show ?case by simp
next
  case (Cons c s)
  show ?case
  proof (cases "s = []")
    case True
    then show ?thesis using Cons.prems that(1) by (auto simp: digit_of_char)
  next
    case False
    then show ?thesis using Cons by auto
  qed
qed

lemma show_nat_digits: "show_nat n \<noteq> [] \<and> (\<forall>c \<in> set (show_nat n). digit_of c \<noteq> None)"
proof (induction n rule: show_nat.induct)
  case (1 n)
  then show ?case
    by (subst (1 2) show_nat.simps) (auto simp: digit_of_char)
qed

lemma read_show_nat: "read_digits 0 False (show_nat n) = Some n"
proof (induction n rule: show_nat.induct)
  case (1 n)
  show ?case
  proof (cases "n < 10")
    case True
    then show ?thesis by (subst show_nat.simps) (simp add: digit_of_char)
  next
    case False
    then show ?thesis
      using 1 show_nat_digits [of "n div 10"]
      by (subst show_nat.simps) (simp add: read_digits_append_digit)
  qed
qed

lemma digit_not_blank_or_sign:
  "digit_of c \<noteq> None \<Longrightarrow> \<not> is_space c \<and> c \<noteq> CHR ''-'' \<and> c \<noteq> CHR ''+''"
  by (auto simp: digit_of_def is_space_def Let_def split: if_splits)

lemma strip_id:
  assumes "s \<noteq> []" "\<not> is_space (hd s)" "\<not> is_space (last s)"
  shows "strip s = s"
proof -
  have "dropWhile is_space s = s" "dropWhile is_space (rev s) = rev s"
    using assms by (simp_all only: dropWhile_eq_self_iff) (simp_all add: hd_rev)
  then show ?thesis by (simp add: strip_def)
qed

text \<open>Parsing what was printed gives the number back.\<close>

lemma py_int_show_int: "py_int (show_int i) = Some i"
proof -
  obtain c cs where s: "show_nat (nat \<bar>i\<bar>) = c # cs"
    using show_nat_digits by (metis neq_Nil_conv)
  have digits: "\<forall>x \<in> set (c # cs). digit_of x \<noteq> None"
    using show_nat_digits [of "nat \<bar>i\<bar>"] s by simp
  have blanks: "\<not> is_space c" "\<not> is_space (last (c # cs))" "c \<noteq> CHR ''-''" "c \<noteq> CHR ''+''"
    using digits digit_not_blank_or_sign last_in_set [of "c # cs"] by auto
  have read: "read_digits 0 False (c # cs) = Some (nat \<bar>i\<bar>)"
    using read_show_nat [of "nat \<bar>i\<bar>"] s by simp
  show ?thesis
  proof (cases "i < 0")
    case True
    then have "show_int i = CHR ''-'' # c # cs"
      using s by (simp add: show_int_def)
    moreover have "strip (CHR ''-'' # c # cs) = CHR ''-'' # c # cs"
      using blanks by (intro strip_id) (auto simp: is_space_def)
    ultimately show ?thesis
      using True read by (simp add: py_int_def)
  next
    case False
    then have "show_int i = c # cs"
      using s by (simp add: show_int_def)
    moreover have "strip (c # cs) = c # cs"
      using blanks by (intro strip_id) auto
    ultimately show ?thesis
      using False read blanks by (simp add: py_int_def)
  qed
qed

lemma show_int_inject [simp]: "show_int i = show_int j \<longleftrightarrow> i = j"
  using py_int_show_int by (metis option.inject)

section \<open>Chunks of a list\<close>

text \<open>Reading \<open>n\<close> elements at a time until nothing is left.\<close>

fun read_chunks :: "nat \<Rightarrow> 'a list \<Rightarrow> 'a list list" where
  "read_chunks n bs = (if bs = [] \<or> n = 0 then [] else take n bs # read_chunks n (drop n bs))"

declare read_chunks.simps [simp del]

lemma concat_read_chunks: "0 < n \<Longrightarrow> concat (read_chunks n bs) = bs"
  by (induction n bs rule: read_chunks.induct) (subst read_chunks.simps, auto)

section \<open>Counting over a finite map\<close>

definition census :: "('v \<Rightarrow> bool) \<Rightarrow> ('k \<rightharpoonup> 'v) \<Rightarrow> int" where
  "census P m = int (card {k. \<exists>v. m k = Some v \<and> P v})"

lemma census_set_finite: "finite (dom m) \<Longrightarrow> finite {k. \<exists>v. m k = Some v \<and> P v}"
  by (rule finite_subset [of _ "dom m"]) auto

lemma census_empty [simp]: "census P Map.empty = 0"
  by (simp add: census_def)

lemma census_nonneg [simp]: "0 \<le> census P m"
  by (simp add: census_def)

lemma census_insert:
  assumes "finite (dom m)" "m k = None"
  shows "census P (m(k \<mapsto> v)) = census P m + of_bool (P v)"
proof -
  let ?S = "{k. \<exists>v. m k = Some v \<and> P v}"
  have "{j. \<exists>w. (m(k \<mapsto> v)) j = Some w \<and> P w} = (if P v then insert k ?S else ?S)"
    using assms(2) by auto
  moreover have "k \<notin> ?S" using assms(2) by simp
  ultimately show ?thesis
    using census_set_finite [OF assms(1), of P] by (auto simp: census_def)
qed

lemma census_update:
  assumes "finite (dom m)" "m k = Some u"
  shows "census P (m(k \<mapsto> v)) = census P m - of_bool (P u) + of_bool (P v)"
proof -
  have "census P ((m(k := None))(k \<mapsto> v)) = census P (m(k := None)) + of_bool (P v)"
    by (rule census_insert) (use assms(1) in auto)
  moreover have "census P ((m(k := None))(k \<mapsto> u)) = census P (m(k := None)) + of_bool (P u)"
    by (rule census_insert) (use assms(1) in auto)
  moreover have "(m(k := None))(k \<mapsto> u) = m"
    using assms(2) by auto
  ultimately show ?thesis by simp
qed

lemma census_disjoint_sum:
  assumes "finite (dom m)" "\<And>v. P v \<Longrightarrow> \<not> Q v"
  shows "census (\<lambda>v. P v \<or> Q v) m = census P m + census Q m"
proof -
  have "{k. \<exists>v. m k = Some v \<and> (P v \<or> Q v)} =
        {k. \<exists>v. m k = Some v \<and> P v} \<union> {k. \<exists>v. m k = Some v \<and> Q v}"
    by auto
  moreover have "{k. \<exists>v. m k = Some v \<and> P v} \<inter> {k. \<exists>v. m k = Some v \<and> Q v} = {}"
    using assms(2) by auto
  ultimately show ?thesis
    using census_set_finite [OF assms(1)] by (simp add: census_def card_Un_disjoint)
qed

lemma census_cong: "(\<And>k v. m k = Some v \<Longrightarrow> P v = Q v) \<Longrightarrow> census P m = census Q m"
  unfolding census_def by (rule arg_cong [where f = "\<lambda>S. int (card S)"]) auto

lemma census_map: "census P (\<lambda>k. map_option f (m k)) = census (\<lambda>v. P (f v)) m"
  unfolding census_def by (rule arg_cong [where f = "\<lambda>S. int (card S)"]) auto

lemma census_sum_list:
  assumes "finite (dom m)" "distinct ks"
  shows "(\<Sum>k \<leftarrow> ks. census (\<lambda>v. f v = Some k \<and> Q v) m) = census (\<lambda>v. f v \<in> Some ` set ks \<and> Q v) m"
  using assms(2)
proof (induction ks)
  case (Cons k ks)
  have "census (\<lambda>v. f v \<in> Some ` set (k # ks) \<and> Q v) m =
        census (\<lambda>v. f v = Some k \<and> Q v \<or> f v \<in> Some ` set ks \<and> Q v) m"
    by (rule census_cong) auto
  also have "\<dots> = census (\<lambda>v. f v = Some k \<and> Q v) m + census (\<lambda>v. f v \<in> Some ` set ks \<and> Q v) m"
    using Cons.prems by (intro census_disjoint_sum [OF assms(1)]) auto
  finally show ?case using Cons by simp
qed (simp add: census_def)

lemma census_three:
  assumes "finite (dom m)" "\<And>v. P v \<Longrightarrow> \<not> Q v \<and> \<not> R v" "\<And>v. Q v \<Longrightarrow> \<not> R v"
  shows "census (\<lambda>v. P v \<or> Q v \<or> R v) m = census P m + census Q m + census R m"
  using census_disjoint_sum [OF assms(1), of P "\<lambda>v. Q v \<or> R v"] census_disjoint_sum [OF assms(1), of Q R] assms(2,3)
  by simp

section \<open>Interfaces of the state machines\<close>

text \<open>
  A machine is a step relation. Four contracts recur in this program, each stated once
  with what follows for whole executions.
\<close>

locale kept_invariant =
  fixes step :: "'s \<Rightarrow> 's \<Rightarrow> bool" and inv :: "'s \<Rightarrow> bool"
  assumes step_inv: "step s t \<Longrightarrow> inv s \<Longrightarrow> inv t"
begin

lemma steps_inv: "step\<^sup>*\<^sup>* s t \<Longrightarrow> inv s \<Longrightarrow> inv t"
  by (induction rule: rtranclp_induct) (auto intro: step_inv)

end

text \<open>What an observer sees of a record never changes again once the record is terminal.\<close>

locale frozen_when_terminal =
  fixes step :: "'s \<Rightarrow> 's \<Rightarrow> bool"
    and view :: "'s \<Rightarrow> 'k \<Rightarrow> 'o option"
    and terminal :: "'o \<Rightarrow> bool"
  assumes step_frozen: "step s t \<Longrightarrow> view s k = Some x \<Longrightarrow> terminal x \<Longrightarrow> view t k = Some x"
begin

lemma steps_frozen: "step\<^sup>*\<^sup>* s t \<Longrightarrow> view s k = Some x \<Longrightarrow> terminal x \<Longrightarrow> view t k = Some x"
  by (induction rule: rtranclp_induct) (auto intro: step_frozen)

lemma terminal_unique:
  "step\<^sup>*\<^sup>* s t \<Longrightarrow> view s k = Some x \<Longrightarrow> view t k = Some y \<Longrightarrow> terminal x \<Longrightarrow> y = x"
  using steps_frozen by fastforce

end

locale growing_counter =
  fixes step :: "'s \<Rightarrow> 's \<Rightarrow> bool" and counter :: "'s \<Rightarrow> 'k \<Rightarrow> int"
  assumes step_grows: "step s t \<Longrightarrow> counter s k \<le> counter t k"
begin

lemma steps_grow: "step\<^sup>*\<^sup>* s t \<Longrightarrow> counter s k \<le> counter t k"
  by (induction rule: rtranclp_induct) (auto dest: step_grows [where k = k])

end

text \<open>
  Ownership by epoch. A claim takes the next epoch; a write by an owner succeeds only
  while its epoch is the current one.
\<close>

locale epoch_fence = growing_counter step epoch
  for step :: "'s \<Rightarrow> 's \<Rightarrow> bool" and epoch :: "'s \<Rightarrow> 'k \<Rightarrow> int" +
  fixes claims :: "'s \<Rightarrow> 'k \<Rightarrow> int \<Rightarrow> 's \<Rightarrow> bool"
    and writes :: "'s \<Rightarrow> 'k \<Rightarrow> int \<Rightarrow> bool"
  assumes claim_next: "claims s k e t \<Longrightarrow> epoch s k < e \<and> epoch t k = e"
    and write_current: "writes s k e \<Longrightarrow> epoch s k = e"
begin

text \<open>After someone else claimed, no write with the old epoch can succeed any more.\<close>

lemma stale_owner_fenced:
  assumes "claims s k e t" "step\<^sup>*\<^sup>* t u" "claims u k e' v" "step\<^sup>*\<^sup>* v w"
  shows "e < e' \<and> \<not> writes w k e"
proof -
  have "e \<le> epoch u k"
    using claim_next [OF assms(1)] steps_grow [OF assms(2), of k] by simp
  then have "e < e'"
    using claim_next [OF assms(3)] by simp
  moreover have "e' \<le> epoch w k"
    using claim_next [OF assms(3)] steps_grow [OF assms(4), of k] by simp
  ultimately show ?thesis
    using write_current by fastforce
qed

end

text \<open>Compare-and-swap on a generation: of two writers holding one generation, one wins.\<close>

locale generation_cas =
  fixes generation :: "'s \<Rightarrow> int"
    and advance :: "'s \<Rightarrow> int \<Rightarrow> 'v \<Rightarrow> bool \<times> 's"
  assumes advance_wins: "generation s = g \<Longrightarrow> \<exists>t. advance s g v = (True, t) \<and> generation t = g + 1"
    and advance_loses: "generation s \<noteq> g \<Longrightarrow> advance s g v = (False, s)"
begin

lemma one_winner:
  assumes "advance s g v = (True, t)"
  shows "advance t g v' = (False, t)"
proof -
  have "generation s = g"
    using assms advance_loses by (metis Pair_inject)
  then have "generation t = g + 1"
    using advance_wins [of s g v] assms by auto
  then show ?thesis by (simp add: advance_loses)
qed

end

end
