(* ===== verification/Hashing.thy ===== *)
theory Hashing
  imports Prelude
begin

text \<open>
  The digests the program derives identifiers from. \<open>sha256\<close> is the standard library's
  \<^verbatim>\<open>hashlib.sha256(...).digest()\<close> on a byte string, written out from FIPS 180-4;
  \<open>document_id_from_seed\<close> models \<^verbatim>\<open>backend/database/document_ids.py\<close>. A Python string is
  represented by its UTF-8 bytes.
\<close>

unbundle bit_operations_syntax

type_synonym byte = "8 word"
type_synonym w32 = "32 word"

section \<open>SHA-256\<close>

text \<open>The constants by their origin: the first 32 bits of the fractional parts of the square
  roots of the first eight primes and of the cube roots of the first 64 primes.
  \<open>root_bits k n b r\<close> extends \<open>r\<close> by \<open>b\<close> bits to the greatest number whose \<open>k\<close>-th power is at most
  \<open>n\<close>; the roots of the primes below 312 are below 8, so 36 bits hold them with 32 fraction bits.\<close>

fun root_bits :: "nat \<Rightarrow> nat \<Rightarrow> nat \<Rightarrow> nat \<Rightarrow> nat" where
  "root_bits k n 0 r = r"
| "root_bits k n (Suc b) r = root_bits k n b (if (r + 2 ^ b) ^ k \<le> n then r + 2 ^ b else r)"

definition root_fraction :: "nat \<Rightarrow> nat \<Rightarrow> w32" where
  "root_fraction k p = of_nat (root_bits k (p * 2 ^ (32 * k)) 36 0)"

definition sha_init :: "w32 list" where
  "sha_init = map (root_fraction 2) [2, 3, 5, 7, 11, 13, 17, 19]"

definition sha_k :: "w32 list" where
  "sha_k = map (root_fraction 3) (filter (\<lambda>p. \<forall>d \<in> set [2..<p]. \<not> d dvd p) [2..<312])"

definition sha_ch :: "w32 \<Rightarrow> w32 \<Rightarrow> w32 \<Rightarrow> w32" where
  "sha_ch x y z = ((x AND y) XOR ((NOT x) AND z))"

definition sha_maj :: "w32 \<Rightarrow> w32 \<Rightarrow> w32 \<Rightarrow> w32" where
  "sha_maj x y z = ((x AND y) XOR (x AND z) XOR (y AND z))"

definition big_sigma0 :: "w32 \<Rightarrow> w32" where
  "big_sigma0 x = (word_rotr 2 x XOR word_rotr 13 x XOR word_rotr 22 x)"

definition big_sigma1 :: "w32 \<Rightarrow> w32" where
  "big_sigma1 x = (word_rotr 6 x XOR word_rotr 11 x XOR word_rotr 25 x)"

definition small_sigma0 :: "w32 \<Rightarrow> w32" where
  "small_sigma0 x = (word_rotr 7 x XOR word_rotr 18 x XOR drop_bit 3 x)"

definition small_sigma1 :: "w32 \<Rightarrow> w32" where
  "small_sigma1 x = (word_rotr 17 x XOR word_rotr 19 x XOR drop_bit 10 x)"

text \<open>Big-endian packing of four bytes, and its inverse.\<close>

fun pack_words :: "byte list \<Rightarrow> w32 list" where
  "pack_words (a # b # c # d # bs) =
     (push_bit 24 (ucast a) OR push_bit 16 (ucast b) OR push_bit 8 (ucast c) OR ucast d) # pack_words bs"
| "pack_words _ = []"

definition unpack_word :: "w32 \<Rightarrow> byte list" where
  "unpack_word w = [ucast (drop_bit 24 w), ucast (drop_bit 16 w), ucast (drop_bit 8 w), ucast w]"

definition length_bytes :: "nat \<Rightarrow> byte list" where
  "length_bytes n = map (\<lambda>i. of_nat (n div 256 ^ i)) [7, 6, 5, 4, 3, 2, 1, 0]"

definition sha_pad :: "byte list \<Rightarrow> byte list" where
  "sha_pad bs = bs @ [0x80] @ replicate ((119 - length bs mod 64) mod 64) 0 @ length_bytes (8 * length bs)"

text \<open>The message schedule: sixteen words extended one at a time.\<close>

fun extend_schedule :: "nat \<Rightarrow> w32 list \<Rightarrow> w32 list" where
  "extend_schedule 0 w = w"
| "extend_schedule (Suc n) w =
     (let t = length w in
      extend_schedule n
        (w @ [small_sigma1 (w ! (t - 2)) + w ! (t - 7) + small_sigma0 (w ! (t - 15)) + w ! (t - 16)]))"

fun sha_round :: "w32 \<times> w32 \<Rightarrow> w32 list \<Rightarrow> w32 list" where
  "sha_round (k, w) [a, b, c, d, e, f, g, h] =
     (let t1 = h + big_sigma1 e + sha_ch e f g + k + w;
          t2 = big_sigma0 a + sha_maj a b c
      in [t1 + t2, a, b, c, d + t1, e, f, g])"
| "sha_round _ s = s"

definition sha_block :: "w32 list \<Rightarrow> w32 list \<Rightarrow> w32 list" where
  "sha_block h ws = map2 (+) h (fold sha_round (zip sha_k (extend_schedule 48 ws)) h)"

fun sha_blocks :: "w32 list \<Rightarrow> w32 list \<Rightarrow> w32 list" where
  "sha_blocks h ws = (if length ws < 16 then h else sha_blocks (sha_block h (take 16 ws)) (drop 16 ws))"

declare sha_blocks.simps [simp del]

definition sha256 :: "byte list \<Rightarrow> byte list" where
  "sha256 bs = concat (map unpack_word (sha_blocks sha_init (pack_words (sha_pad bs))))"

definition utf8_bytes :: "string \<Rightarrow> byte list" where
  "utf8_bytes s = map (\<lambda>c. of_nat (of_char c)) s"

section \<open>Identifiers derived from digests\<close>

definition hex_digit :: "nat \<Rightarrow> char" where
  "hex_digit n = char_of (if n < 10 then 48 + n else 87 + n)"

definition hex_of :: "byte list \<Rightarrow> string" where
  "hex_of bs = concat (map (\<lambda>b. [hex_digit (unat b div 16), hex_digit (unat b mod 16)]) bs)"

text \<open>\<^verbatim>\<open>str(uuid.UUID(bytes=b, version=4))\<close>: the version and variant bits are overwritten.\<close>

definition uuid4_of_bytes :: "byte list \<Rightarrow> string" where
  "uuid4_of_bytes bs =
     (let b = bs[6 := (bs ! 6 AND 0x0F) OR 0x40, 8 := (bs ! 8 AND 0x3F) OR 0x80]
      in hex_of (take 4 b) @ ''-'' @ hex_of (take 2 (drop 4 b)) @ ''-'' @ hex_of (take 2 (drop 6 b)) @ ''-'' @
         hex_of (take 2 (drop 8 b)) @ ''-'' @ hex_of (drop 10 b))"

definition document_id_from_seed :: "string \<Rightarrow> string" where
  "document_id_from_seed seed = uuid4_of_bytes (take 16 (sha256 (utf8_bytes seed)))"

text \<open>\<^verbatim>\<open>int.from_bytes(b, 'big')\<close>.\<close>

definition int_from_bytes_big :: "byte list \<Rightarrow> int" where
  "int_from_bytes_big bs = foldl (\<lambda>n b. n * 256 + uint b) 0 bs"

text \<open>Shape of the digest: thirty-two bytes, whatever the input.\<close>

lemma length_sha_round: "length s = 8 \<Longrightarrow> length (sha_round kw s) = 8"
  by (induction kw s rule: sha_round.induct) (simp_all add: Let_def)

lemma length_fold_sha_round: "length s = 8 \<Longrightarrow> length (fold sha_round kws s) = 8"
  by (induction kws arbitrary: s) (auto simp: length_sha_round)

lemma length_sha_block: "length h = 8 \<Longrightarrow> length (sha_block h ws) = 8"
  by (simp add: sha_block_def length_fold_sha_round)

lemma length_sha_blocks: "length h = 8 \<Longrightarrow> length (sha_blocks h ws) = 8"
  by (induction h ws rule: sha_blocks.induct) (subst sha_blocks.simps, simp add: length_sha_block)

lemma length_sha256: "length (sha256 bs) = 32"
proof -
  have "length (concat (map unpack_word ws)) = 4 * length ws" for ws
    by (induction ws) (simp_all add: unpack_word_def)
  moreover have "length (sha_blocks sha_init ws) = 8" for ws
    by (rule length_sha_blocks) (simp add: sha_init_def)
  ultimately show ?thesis by (simp add: sha256_def)
qed

lemma length_hex_of: "length (hex_of bs) = 2 * length bs"
  by (induction bs) (simp_all add: hex_of_def)

lemma length_document_id: "length (document_id_from_seed seed) = 36"
  by (simp add: document_id_from_seed_def uuid4_of_bytes_def Let_def length_hex_of length_sha256)

lemma document_id_nonempty [simp]: "document_id_from_seed seed \<noteq> ''''"
  using length_document_id [of seed] by auto

end
