(* ===== verification/Documents.thy ===== *)
theory Documents
  imports Hashing
begin

text \<open>
  The Firestore documents the finalization, recording-session and lifecycle components
  share, and the database that holds them. A document is a record whose fields are all
  optional (\<open>None\<close>: the key is absent or null), with the field names of the source under
  the prefix of the collection. A transaction body is a function of the database: Firestore
  commits it atomically or re-runs it on a fresh snapshot.
\<close>

section \<open>Documents\<close>

text \<open>The receipt fields of a job. The intent id distinguishes an absent key from a stored
  null, because the repair query selects on null.\<close>

record meeting_receipt =
  mr_schema_version :: "int option"
  mr_eligible :: "bool option"
  mr_reason :: "string option"
  mr_duration_s :: "rat option"
  mr_dedup_speech_s :: "rat option"
  mr_created_at :: "timestamp option"
  mr_updated_at :: "timestamp option"
  mr_reconcile_after_at :: "timestamp option"
  mr_intent_id :: "string option option"
  mr_intent_persisted_at :: "timestamp option"
  mr_materialized_at :: "timestamp option"

definition no_receipt :: meeting_receipt where
  "no_receipt = \<lparr>mr_schema_version = None, mr_eligible = None, mr_reason = None, mr_duration_s = None,
     mr_dedup_speech_s = None, mr_created_at = None, mr_updated_at = None, mr_reconcile_after_at = None,
     mr_intent_id = None, mr_intent_persisted_at = None, mr_materialized_at = None\<rparr>"

record job =
  j_schema_version :: "int option"
  j_uid :: "string option"
  j_conversation_id :: "string option"
  j_finalization_revision :: "int option"
  j_status :: "string option"
  j_requires_byok :: "bool option"
  j_client_platform :: "string option"
  j_force_process :: "bool option"
  j_fanout_key :: "string option"
  j_fanout_status :: "string option"
  j_dispatch_generation :: "int option"
  j_attempt_count :: "int option"
  j_task_retry_count :: "int option"
  j_projection_generation :: "string option"
  j_projection_shard :: "int option"
  j_created_at :: "timestamp option"
  j_updated_at :: "timestamp option"
  j_dispatch_requested_at :: "timestamp option"
  j_reconcile_after_at :: "timestamp option"
  j_last_byok_resume_at :: "timestamp option"
  j_leased_at :: "timestamp option"
  j_lease_expires_at :: "timestamp option"
  j_lease_epoch :: "int option"
  j_completed_at :: "timestamp option"
  j_terminal_at :: "timestamp option"
  j_terminal_outcome :: "string option"
  j_finalization_outcome :: "string option"
  j_last_failure_code :: "string option"
  j_fanout_lease_epoch :: "int option"
  j_fanout_started_at :: "timestamp option"
  j_fanout_completed_at :: "timestamp option"
  j_fanout_fenced_at :: "timestamp option"
  j_receipt :: meeting_receipt

definition empty_job :: job where
  "empty_job = \<lparr>j_schema_version = None, j_uid = None, j_conversation_id = None,
     j_finalization_revision = None, j_status = None, j_requires_byok = None, j_client_platform = None,
     j_force_process = None, j_fanout_key = None, j_fanout_status = None, j_dispatch_generation = None,
     j_attempt_count = None, j_task_retry_count = None, j_projection_generation = None,
     j_projection_shard = None, j_created_at = None, j_updated_at = None, j_dispatch_requested_at = None,
     j_reconcile_after_at = None, j_last_byok_resume_at = None, j_leased_at = None,
     j_lease_expires_at = None, j_lease_epoch = None, j_completed_at = None, j_terminal_at = None,
     j_terminal_outcome = None, j_finalization_outcome = None, j_last_failure_code = None,
     j_fanout_lease_epoch = None, j_fanout_started_at = None, j_fanout_completed_at = None,
     j_fanout_fenced_at = None, j_receipt = no_receipt\<rparr>"

text \<open>A stored transcript: a plain list (its length), an encrypted text or a compressed blob.\<close>

datatype stored_segments = Segments nat | Cipher string | Blob "byte list"

record conversation =
  c_status :: "string option"
  c_discarded :: "bool option"
  c_deferred :: "bool option"
  c_has_content :: "bool option"
  c_photos :: "bool option"
  c_transcript_segments :: "stored_segments option"
  c_transcript_segments_compressed :: "bool option"
  c_client_platform :: "string option"
  c_source :: "string option"
  c_conversation_role :: "string option"
  c_finalization_job_id :: "string option"
  c_finalization_revision :: "int option"
  c_finalization_status :: "string option"
  c_processing_admitted_at :: "timestamp option"
  c_meeting_treatment_eligible :: "bool option"
  c_meeting_treatment_reason :: "string option"
  c_meeting_duration_s :: "rat option"
  c_meeting_dedup_speech_s :: "rat option"
  c_imported :: "bool option"
  c_audio_files :: "bool option"

definition empty_conversation :: conversation where
  "empty_conversation = \<lparr>c_status = None, c_discarded = None, c_deferred = None, c_has_content = None,
     c_photos = None, c_transcript_segments = None, c_transcript_segments_compressed = None,
     c_client_platform = None, c_source = None, c_conversation_role = None, c_finalization_job_id = None,
     c_finalization_revision = None, c_finalization_status = None, c_processing_admitted_at = None,
     c_meeting_treatment_eligible = None, c_meeting_treatment_reason = None, c_meeting_duration_s = None,
     c_meeting_dedup_speech_s = None, c_imported = None, c_audio_files = None\<rparr>"

text \<open>A projection shard, a sweep cursor and a recording session.\<close>

record shard_doc =
  sd_generation :: "string option"
  sd_shard :: "int option"
  sd_counts :: "string \<Rightarrow> int option"

record cursor_doc =
  cu_resume_after_path :: "string option"
  cu_generation :: int
  cu_updated_at :: timestamp

record session =
  s_schema_version :: "int option"
  s_uid :: "string option"
  s_recording_session_id :: "string option"
  s_conversation_id :: "string option"
  s_lifecycle_version :: "int option"
  s_lifecycle_phase :: "string option"
  s_lifecycle_sequence :: "int option"
  s_created_at :: "timestamp option"
  s_updated_at :: "timestamp option"

section \<open>The database\<close>

text \<open>Conversations and sessions are keyed by user and id. \<open>fs_photo_docs\<close> is the number of
  documents in a conversation's photos subcollection and \<open>fs_update_time\<close> the instant the
  server last wrote the conversation, neither of which is a field of the document.\<close>

record fstore =
  fs_jobs :: "string \<Rightarrow> job option"
  fs_conversations :: "string \<times> string \<Rightarrow> conversation option"
  fs_photo_docs :: "string \<times> string \<Rightarrow> nat"
  fs_update_time :: "string \<times> string \<Rightarrow> timestamp option"
  fs_shards :: "string \<Rightarrow> shard_doc option"
  fs_cursors :: "string \<Rightarrow> cursor_doc option"
  fs_sessions :: "string \<times> string \<Rightarrow> session option"

definition empty_store :: fstore where
  "empty_store = \<lparr>fs_jobs = Map.empty, fs_conversations = Map.empty, fs_photo_docs = (\<lambda>_. 0),
     fs_update_time = Map.empty, fs_shards = Map.empty, fs_cursors = Map.empty, fs_sessions = Map.empty\<rparr>"

definition set_job :: "fstore \<Rightarrow> string \<Rightarrow> job \<Rightarrow> fstore" where
  "set_job st jid j = st\<lparr>fs_jobs := (fs_jobs st)(jid \<mapsto> j)\<rparr>"

definition set_conversation :: "fstore \<Rightarrow> string \<Rightarrow> string \<Rightarrow> conversation \<Rightarrow> fstore" where
  "set_conversation st uid cid c = st\<lparr>fs_conversations := (fs_conversations st)((uid, cid) \<mapsto> c)\<rparr>"

lemma set_job_simps [simp]:
  "fs_jobs (set_job st jid j) = (fs_jobs st)(jid \<mapsto> j)"
  "fs_conversations (set_job st jid j) = fs_conversations st"
  "fs_shards (set_job st jid j) = fs_shards st"
  "fs_cursors (set_job st jid j) = fs_cursors st"
  "fs_sessions (set_job st jid j) = fs_sessions st"
  "fs_photo_docs (set_job st jid j) = fs_photo_docs st"
  "fs_update_time (set_job st jid j) = fs_update_time st"
  by (simp_all add: set_job_def)

lemma set_conversation_simps [simp]:
  "fs_jobs (set_conversation st u k c) = fs_jobs st"
  "fs_conversations (set_conversation st u k c) = (fs_conversations st)((u, k) \<mapsto> c)"
  "fs_shards (set_conversation st u k c) = fs_shards st"
  "fs_cursors (set_conversation st u k c) = fs_cursors st"
  "fs_sessions (set_conversation st u k c) = fs_sessions st"
  "fs_photo_docs (set_conversation st u k c) = fs_photo_docs st"
  "fs_update_time (set_conversation st u k c) = fs_update_time st"
  by (simp_all add: set_conversation_def)

lemma empty_store_simps [simp]:
  "fs_jobs empty_store = Map.empty" "fs_conversations empty_store = Map.empty"
  "fs_shards empty_store = Map.empty" "fs_cursors empty_store = Map.empty"
  "fs_sessions empty_store = Map.empty"
  by (simp_all add: empty_store_def)

section \<open>Content of a stored conversation\<close>

text \<open>
  Decrypting (\<^verbatim>\<open>utils.encryption\<close>, a third-party cipher), inflating (\<^verbatim>\<open>zlib\<close>) and parsing the
  stored transcript are parameters: each gives the number of decoded segments, or \<open>None\<close> where
  the call raises.
\<close>

record segment_codec =
  decrypted_count :: "string \<Rightarrow> string \<Rightarrow> bool \<Rightarrow> nat option"
  inflated_count :: "byte list \<Rightarrow> nat option"

definition decode_transcript_segments_strict ::
    "segment_codec \<Rightarrow> string \<Rightarrow> stored_segments \<Rightarrow> bool \<Rightarrow> nat option" where
  "decode_transcript_segments_strict codec uid raw compressed =
     (case raw of
        Segments n \<Rightarrow> Some n
      | Cipher s \<Rightarrow> decrypted_count codec uid s compressed
      | Blob b \<Rightarrow> if compressed then inflated_count codec b else None)"

fun stored_falsy :: "stored_segments \<Rightarrow> bool" where
  "stored_falsy (Segments n) \<longleftrightarrow> n = 0"
| "stored_falsy (Cipher s) \<longleftrightarrow> s = ''''"
| "stored_falsy (Blob b) \<longleftrightarrow> b = []"

definition raw_conversation_has_content :: "segment_codec \<Rightarrow> string \<Rightarrow> conversation \<Rightarrow> bool" where
  "raw_conversation_has_content codec uid conv =
     (if truthy (c_has_content conv) \<or> truthy (c_photos conv) then True
      else (case c_transcript_segments conv of
              None \<Rightarrow> False
            | Some raw \<Rightarrow>
                if stored_falsy raw then False
                else (case decode_transcript_segments_strict codec uid raw
                             (truthy (c_transcript_segments_compressed conv)) of
                        None \<Rightarrow> True
                      | Some n \<Rightarrow> n \<noteq> 0)))"

end
