(* ===== verification/Recording_Sessions.thy ===== *)
theory Recording_Sessions
  imports Documents
begin

text \<open>
  The durable recording-session bindings of \<^verbatim>\<open>backend/database/recording_sessions.py\<close>: one
  session maps to one conversation for good, its lifecycle envelope moves forward under a
  sequence number, and a terminal phase is final. The step relation at the end interleaves the
  operations with any writes that leave the sessions alone.
\<close>

section \<open>Bindings and events\<close>

definition LIFECYCLE_ENVELOPE_VERSION :: int where
  "LIFECYCLE_ENVELOPE_VERSION = 1"

definition RECORDING_SESSION_SCHEMA_VERSION :: int where
  "RECORDING_SESSION_SCHEMA_VERSION = 1"

definition PHASE_ORDER :: "string \<Rightarrow> int option" where
  "PHASE_ORDER = [''in_progress'' \<mapsto> 0, ''processing'' \<mapsto> 1, ''completed'' \<mapsto> 2, ''failed'' \<mapsto> 2, ''discarded'' \<mapsto> 2]"

definition TERMINAL_RECORDING_PHASES :: "string set" where
  "TERMINAL_RECORDING_PHASES = {''completed'', ''failed'', ''discarded''}"

datatype session_error = Missing_Arguments | Identity_Mismatch | Unbound_Document | Unsupported_Phase

record session_binding =
  sb_recording_session_id :: string
  sb_conversation_id :: string
  sb_lifecycle_version :: int
  sb_lifecycle_phase :: string
  sb_lifecycle_sequence :: int
  sb_mapping_conflict :: bool

record session_event =
  se_recording_session_id :: string
  se_conversation_id :: string
  se_lifecycle_version :: int
  se_lifecycle_phase :: string
  se_lifecycle_sequence :: int
  se_accepted :: bool
  se_discard_reason :: "string option"

abbreviation session_phase :: "session \<Rightarrow> string" where
  "session_phase s \<equiv> str_or (s_lifecycle_phase s) ''in_progress''"

abbreviation session_sequence :: "session \<Rightarrow> int" where
  "session_sequence s \<equiv> int_or (s_lifecycle_sequence s) 0"

definition binding_of :: "session \<Rightarrow> string \<Rightarrow> bool \<Rightarrow> session_error + session_binding" where
  "binding_of s recording_session_id mapping_conflict =
     (case s_conversation_id s of
        None \<Rightarrow> Inl Unbound_Document
      | Some cid \<Rightarrow>
          Inr \<lparr>sb_recording_session_id = recording_session_id, sb_conversation_id = cid,
               sb_lifecycle_version = int_or (s_lifecycle_version s) LIFECYCLE_ENVELOPE_VERSION,
               sb_lifecycle_phase = session_phase s, sb_lifecycle_sequence = session_sequence s,
               sb_mapping_conflict = mapping_conflict\<rparr>)"

definition set_session :: "fstore \<Rightarrow> string \<Rightarrow> string \<Rightarrow> session \<Rightarrow> fstore" where
  "set_session st uid sid s = st\<lparr>fs_sessions := (fs_sessions st)((uid, sid) \<mapsto> s)\<rparr>"

lemma set_session_simps [simp]:
  "fs_sessions (set_session st u k s) = (fs_sessions st)((u, k) \<mapsto> s)"
  "fs_conversations (set_session st u k s) = fs_conversations st"
  "fs_jobs (set_session st u k s) = fs_jobs st"
  "fs_shards (set_session st u k s) = fs_shards st"
  by (simp_all add: set_session_def)

definition identity_matches :: "session \<Rightarrow> string \<Rightarrow> string \<Rightarrow> bool" where
  "identity_matches s uid sid \<longleftrightarrow> s_uid s = Some uid \<and> s_recording_session_id s = Some sid"

definition new_session :: "string \<Rightarrow> string \<Rightarrow> string \<Rightarrow> timestamp \<Rightarrow> session" where
  "new_session uid sid proposed now =
     \<lparr>s_schema_version = Some RECORDING_SESSION_SCHEMA_VERSION, s_uid = Some uid, s_recording_session_id = Some sid,
      s_conversation_id = Some proposed, s_lifecycle_version = Some LIFECYCLE_ENVELOPE_VERSION,
      s_lifecycle_phase = Some ''in_progress'', s_lifecycle_sequence = Some 0, s_created_at = Some now,
      s_updated_at = Some now\<rparr>"

section \<open>Operations\<close>

definition create_or_get_recording_session ::
    "string \<Rightarrow> string \<Rightarrow> string \<Rightarrow> timestamp \<Rightarrow> fstore \<Rightarrow> (session_error + session_binding) \<times> fstore" where
  "create_or_get_recording_session uid sid proposed now st =
     (if uid = '''' \<or> sid = '''' \<or> proposed = '''' then (Inl Missing_Arguments, st)
      else
        (case fs_sessions st (uid, sid) of
           Some current \<Rightarrow>
             if \<not> identity_matches current uid sid then (Inl Identity_Mismatch, st)
             else (binding_of current sid (s_conversation_id current \<noteq> Some proposed), st)
         | None \<Rightarrow>
             let s = new_session uid sid proposed now in (binding_of s sid False, set_session st uid sid s)))"

definition get_recording_session ::
    "string \<Rightarrow> string \<Rightarrow> fstore \<Rightarrow> session_error + session_binding option" where
  "get_recording_session uid sid st =
     (if uid = '''' \<or> sid = '''' then Inl Missing_Arguments
      else
        (case fs_sessions st (uid, sid) of
           None \<Rightarrow> Inr None
         | Some s \<Rightarrow>
             if \<not> identity_matches s uid sid then Inl Identity_Mismatch
             else (case binding_of s sid False of Inl e \<Rightarrow> Inl e | Inr b \<Rightarrow> Inr (Some b))))"

text \<open>Deleting an empty live conversation and closing its session, in one transaction; the result
  is the deleted snapshot.\<close>

definition tombstone_and_delete_empty_conversation ::
    "segment_codec \<Rightarrow> string \<Rightarrow> string \<Rightarrow> string option \<Rightarrow> timestamp \<Rightarrow> fstore \<Rightarrow> conversation option \<times> fstore" where
  "tombstone_and_delete_empty_conversation codec uid cid sid now st =
     (case fs_conversations st (uid, cid) of
        None \<Rightarrow> (None, st)
      | Some conv \<Rightarrow>
          if c_status conv \<noteq> Some ''in_progress'' \<or> truthy (c_discarded conv)
             \<or> raw_conversation_has_content codec uid conv then (None, st)
          else
            let st1 =
              (case nonempty_str sid of
                 None \<Rightarrow> st
               | Some k \<Rightarrow>
                   (case fs_sessions st (uid, k) of
                      None \<Rightarrow> st
                    | Some s \<Rightarrow>
                        if identity_matches s uid k \<and> s_conversation_id s = Some cid
                           \<and> session_phase s \<notin> TERMINAL_RECORDING_PHASES
                        then set_session st uid k
                               (s\<lparr>s_lifecycle_phase := Some ''discarded'',
                                  s_lifecycle_sequence := Some (session_sequence s + 1),
                                  s_updated_at := Some now\<rparr>)
                        else st))
            in (Some conv, st1\<lparr>fs_conversations := (fs_conversations st1)((uid, cid) := None)\<rparr>))"

definition event_of :: "session \<Rightarrow> string \<Rightarrow> bool \<Rightarrow> string option \<Rightarrow> session_event" where
  "event_of s sid accepted reason =
     \<lparr>se_recording_session_id = sid, se_conversation_id = str_or (s_conversation_id s) '''',
      se_lifecycle_version = int_or (s_lifecycle_version s) LIFECYCLE_ENVELOPE_VERSION,
      se_lifecycle_phase = session_phase s, se_lifecycle_sequence = session_sequence s,
      se_accepted = accepted, se_discard_reason = reason\<rparr>"

definition advance_session :: "session \<Rightarrow> string \<Rightarrow> timestamp \<Rightarrow> session" where
  "advance_session s phase now =
     s\<lparr>s_lifecycle_phase := Some phase, s_lifecycle_sequence := Some (session_sequence s + 1),
       s_updated_at := Some now\<rparr>"

definition record_lifecycle_event ::
    "string \<Rightarrow> string \<Rightarrow> string \<Rightarrow> string \<Rightarrow> timestamp \<Rightarrow> fstore \<Rightarrow> (session_error + session_event) \<times> fstore" where
  "record_lifecycle_event uid sid cid phase now st =
     (case PHASE_ORDER phase of
        None \<Rightarrow> (Inl Unsupported_Phase, st)
      | Some order \<Rightarrow>
          (case fs_sessions st (uid, sid) of
             None \<Rightarrow>
               (Inr \<lparr>se_recording_session_id = sid, se_conversation_id = cid,
                     se_lifecycle_version = LIFECYCLE_ENVELOPE_VERSION, se_lifecycle_phase = phase,
                     se_lifecycle_sequence = 0, se_accepted = False,
                     se_discard_reason = Some ''missing_session''\<rparr>, st)
           | Some s \<Rightarrow>
               if str_or (s_conversation_id s) '''' \<noteq> cid then
                 (Inr (event_of s sid False (Some ''mapping_conflict'')), st)
               else if session_phase s \<in> TERMINAL_RECORDING_PHASES \<and> phase \<noteq> session_phase s then
                 (Inr (event_of s sid False (Some ''terminal_immutable'')), st)
               else if order < (case PHASE_ORDER (session_phase s) of None \<Rightarrow> - 1 | Some k \<Rightarrow> k) then
                 (Inr (event_of s sid False (Some ''stale_event'')), st)
               else if phase = session_phase s then (Inr (event_of s sid True None), st)
               else let s' = advance_session s phase now
                    in (Inr (event_of s' sid True None), set_session st uid sid s')))"

section \<open>Sessions over time\<close>

record session_view =
  sv_conversation :: "string option"
  sv_phase :: string
  sv_sequence :: int

definition session_view_of :: "session \<Rightarrow> session_view" where
  "session_view_of s =
     \<lparr>sv_conversation = s_conversation_id s, sv_phase = session_phase s, sv_sequence = session_sequence s\<rparr>"

definition phase_rank :: "string \<Rightarrow> int" where
  "phase_rank p = (case PHASE_ORDER p of None \<Rightarrow> - 1 | Some k \<Rightarrow> k)"

inductive session_step :: "fstore \<Rightarrow> fstore \<Rightarrow> bool" where
  open_session: "session_step st (snd (create_or_get_recording_session uid sid proposed now st))"
| event: "session_step st (snd (record_lifecycle_event uid sid cid phase now st))"
| tombstone: "session_step st (snd (tombstone_and_delete_empty_conversation codec uid cid k now st))"
| elsewhere: "fs_sessions st' = fs_sessions st \<Longrightarrow> session_step st st'"

text \<open>What a step does to one session: nothing, or an advance from a live phase to a phase of at
  least its rank with the next sequence number.\<close>

definition session_moves :: "session \<Rightarrow> session \<Rightarrow> bool" where
  "session_moves s s' \<longleftrightarrow>
     s' = s \<or>
     s_conversation_id s' = s_conversation_id s \<and> session_phase s \<notin> TERMINAL_RECORDING_PHASES \<and>
     session_sequence s' = session_sequence s + 1 \<and> phase_rank (session_phase s) \<le> phase_rank (session_phase s') \<and>
     session_phase s' \<noteq> session_phase s"

lemma PHASE_ORDER_cases:
  "PHASE_ORDER p = Some k \<Longrightarrow>
     p = ''in_progress'' \<and> k = 0 \<or> p = ''processing'' \<and> k = 1 \<or> p \<in> TERMINAL_RECORDING_PHASES \<and> k = 2"
  by (auto simp: PHASE_ORDER_def TERMINAL_RECORDING_PHASES_def split: if_splits)

lemma phase_rank_le_2: "phase_rank p \<le> 2"
  using PHASE_ORDER_cases [of p] by (cases "PHASE_ORDER p") (auto simp: phase_rank_def)

lemma phase_rank_terminal: "p \<in> TERMINAL_RECORDING_PHASES \<Longrightarrow> phase_rank p = 2"
  by (auto simp: TERMINAL_RECORDING_PHASES_def phase_rank_def PHASE_ORDER_def)

lemma advance_moves:
  assumes "PHASE_ORDER phase = Some k" "session_phase s \<notin> TERMINAL_RECORDING_PHASES" "phase_rank (session_phase s) \<le> k"
    and "phase \<noteq> session_phase s"
  shows "session_moves s (advance_session s phase now)"
proof -
  have "phase \<noteq> ''''"
    using assms(1) by (auto simp: PHASE_ORDER_def)
  then have "session_phase (advance_session s phase now) = phase"
    by (cases phase) (simp_all add: advance_session_def)
  then show ?thesis
    using assms by (simp add: session_moves_def phase_rank_def) (simp add: advance_session_def int_or_0)
qed

lemma session_step_moves:
  assumes "session_step st st'" "fs_sessions st key = Some s"
  shows "\<exists>s'. fs_sessions st' key = Some s' \<and> session_moves s s'"
proof -
  have same: "session_moves s s" for s by (simp add: session_moves_def)
  show ?thesis
    using assms
  proof (cases rule: session_step.cases)
    case (open_session uid sid proposed now)
    then show ?thesis
      using assms(2) same
      by (auto simp: create_or_get_recording_session_def Let_def split: option.splits)
  next
    case (event uid sid cid phase now)
    show ?thesis
    proof (cases "key = (uid, sid) \<and> st' \<noteq> st")
      case True
      then obtain k where k: "PHASE_ORDER phase = Some k" "session_phase s \<notin> TERMINAL_RECORDING_PHASES"
        "phase_rank (session_phase s) \<le> k" "phase \<noteq> session_phase s"
        "st' = set_session st uid sid (advance_session s phase now)"
        using event assms(2)
        by (auto simp: record_lifecycle_event_def phase_rank_def Let_def split: option.splits if_splits)
      then show ?thesis
        using advance_moves [OF k(1-4)] True by auto
    next
      case False
      have "fs_sessions st' key = fs_sessions st key" if "key \<noteq> (uid, sid)"
        using event that by (auto simp: record_lifecycle_event_def Let_def split: option.splits)
      then show ?thesis
        using False assms(2) same by auto
    qed
  next
    case (tombstone codec uid cid k now)
    have adv: "session_moves s (s\<lparr>s_lifecycle_phase := Some ''discarded'', s_lifecycle_sequence := Some (session_sequence s + 1),
        s_updated_at := Some now\<rparr>)" if "session_phase s \<notin> TERMINAL_RECORDING_PHASES" for s
      using that advance_moves [of "''discarded''" 2 s now] phase_rank_le_2 [of "session_phase s"]
      by (simp add: advance_session_def PHASE_ORDER_def) (auto simp: TERMINAL_RECORDING_PHASES_def)
    show ?thesis
      using tombstone assms(2) same adv
      by (auto simp: tombstone_and_delete_empty_conversation_def Let_def split: option.splits if_splits)
  next
    case elsewhere
    then show ?thesis using assms(2) same by auto
  qed
qed

definition session_views :: "fstore \<Rightarrow> string \<times> string \<Rightarrow> session_view option" where
  "session_views st key = map_option session_view_of (fs_sessions st key)"

definition sequence_of :: "fstore \<Rightarrow> string \<times> string \<Rightarrow> int" where
  "sequence_of st key = (case fs_sessions st key of None \<Rightarrow> 0 | Some s \<Rightarrow> session_sequence s)"

definition bound_to :: "string \<times> string \<Rightarrow> string \<Rightarrow> fstore \<Rightarrow> bool" where
  "bound_to key cid st \<longleftrightarrow> (\<exists>s. fs_sessions st key = Some s \<and> s_conversation_id s = Some cid)"

interpretation sessions_frozen: frozen_when_terminal session_step session_views
  "\<lambda>v. sv_phase v \<in> TERMINAL_RECORDING_PHASES"
proof unfold_locales
  fix st st' key v
  assume "session_step st st'" "session_views st key = Some v" "sv_phase v \<in> TERMINAL_RECORDING_PHASES"
  then show "session_views st' key = Some v"
    using session_step_moves [of st st' key]
    by (auto simp: session_views_def session_view_of_def session_moves_def)
qed

interpretation session_binding: kept_invariant session_step "bound_to key cid" for key cid
proof unfold_locales
  fix st st'
  assume "session_step st st'" "bound_to key cid st"
  then show "bound_to key cid st'"
    using session_step_moves [of st st' key] by (auto simp: bound_to_def session_moves_def)
qed

interpretation session_sequences: growing_counter session_step sequence_of
proof unfold_locales
  fix st st' key
  assume step: "session_step st st'"
  show "sequence_of st key \<le> sequence_of st' key"
  proof (cases "fs_sessions st key")
    case (Some s)
    then show ?thesis
      using session_step_moves [of st st' key s] step by (auto simp: sequence_of_def session_moves_def)
  next
    case None
    have "sequence_of st' key = 0 \<or> fs_sessions st' key = None"
      using step None
      by (auto elim!: session_step.cases
          simp: sequence_of_def create_or_get_recording_session_def new_session_def record_lifecycle_event_def
            tombstone_and_delete_empty_conversation_def Let_def split: option.splits if_splits)
    then show ?thesis using None by (auto simp: sequence_of_def)
  qed
qed

section \<open>Theorems\<close>

text \<open>C14: A recording session stays bound to the conversation it was first opened with. After the
  first open, whatever events, cleanups and other writes follow, every later open of the session
  with any proposal returns the first conversation, flags a conflict exactly when the proposal
  differs, and changes nothing.\<close>

theorem session_binding_is_permanent:
  assumes "uid \<noteq> ''''" "sid \<noteq> ''''" "first \<noteq> ''''" "proposal \<noteq> ''''" "fs_sessions st (uid, sid) = None"
    and "session_step\<^sup>*\<^sup>* (snd (create_or_get_recording_session uid sid first now st)) st'"
    and "create_or_get_recording_session uid sid proposal now' st' = (Inr b, st'')"
  shows "sb_conversation_id b = first \<and> sb_mapping_conflict b = (proposal \<noteq> first) \<and> st'' = st'"
proof -
  have "bound_to (uid, sid) first (snd (create_or_get_recording_session uid sid first now st))"
    using assms(1-3,5) by (simp add: create_or_get_recording_session_def bound_to_def new_session_def Let_def)
  then have "bound_to (uid, sid) first st'"
    by (rule session_binding.steps_inv [OF assms(6)])
  then show ?thesis
    using assms(1,2,4,7)
    by (auto simp: bound_to_def create_or_get_recording_session_def binding_of_def split: if_splits)
qed

theorem session_binding_is_permanent_witness:
  "sb_conversation_id (projr (fst (create_or_get_recording_session ''u'' ''s'' ''other'' 2
     (snd (create_or_get_recording_session ''u'' ''s'' ''c'' 1 empty_store))))) = ''c''"
proof -
  let ?st = "snd (create_or_get_recording_session ''u'' ''s'' ''c'' 1 empty_store)"
  have "\<exists>b. create_or_get_recording_session ''u'' ''s'' ''other'' 2 ?st = (Inr b, ?st)"
    by (simp add: create_or_get_recording_session_def new_session_def identity_matches_def binding_of_def Let_def)
  then show ?thesis
    using session_binding_is_permanent [of "''u''" "''s''" "''c''" "''other''" empty_store 1 ?st 2] by auto
qed

text \<open>A terminal session phase is final: once a session is completed, failed or discarded, its
  phase, sequence number and conversation never change again, and every event for another phase
  is refused.\<close>

theorem terminal_session_is_final:
  assumes "fs_sessions st (uid, sid) = Some s" "session_phase s \<in> TERMINAL_RECORDING_PHASES"
    and "session_step\<^sup>*\<^sup>* st st'" "PHASE_ORDER phase \<noteq> None" "phase \<noteq> session_phase s"
  shows "(\<exists>s'. fs_sessions st' (uid, sid) = Some s' \<and> session_phase s' = session_phase s \<and>
      session_sequence s' = session_sequence s \<and> s_conversation_id s' = s_conversation_id s) \<and>
    (\<exists>e. record_lifecycle_event uid sid cid phase now st' = (Inr e, st') \<and> \<not> se_accepted e)"
proof -
  have "session_views st' (uid, sid) = Some (session_view_of s)"
    using sessions_frozen.steps_frozen [OF assms(3), of "(uid, sid)" "session_view_of s"] assms(1,2)
    by (simp add: session_views_def session_view_of_def)
  then obtain s' where s': "fs_sessions st' (uid, sid) = Some s'" "session_phase s' = session_phase s"
    "session_sequence s' = session_sequence s" "s_conversation_id s' = s_conversation_id s"
    by (auto simp: session_views_def session_view_of_def)
  moreover have "\<exists>e. record_lifecycle_event uid sid cid phase now st' = (Inr e, st') \<and> \<not> se_accepted e"
    using s' assms(2,4,5) by (auto simp: record_lifecycle_event_def event_of_def)
  ultimately show ?thesis by blast
qed

theorem terminal_session_is_final_witness:
  "\<exists>e. record_lifecycle_event ''u'' ''s'' ''c'' ''processing'' 9
     (set_session empty_store ''u'' ''s'' ((new_session ''u'' ''s'' ''c'' 0)\<lparr>s_lifecycle_phase := Some ''discarded''\<rparr>)) =
     (Inr e, set_session empty_store ''u'' ''s'' ((new_session ''u'' ''s'' ''c'' 0)\<lparr>s_lifecycle_phase := Some ''discarded''\<rparr>)) \<and>
     \<not> se_accepted e"
  using terminal_session_is_final
    [of "set_session empty_store ''u'' ''s'' ((new_session ''u'' ''s'' ''c'' 0)\<lparr>s_lifecycle_phase := Some ''discarded''\<rparr>)"
      "''u''" "''s''" _ _ "''processing''" "''c''" 9]
  by (simp add: TERMINAL_RECORDING_PHASES_def PHASE_ORDER_def)

text \<open>An accepted event reports what is stored, and moves it forward: after the call the session
  is in the requested phase with the reported sequence number, which is the old one (a repeated
  event) or the next, and the phase's rank has not gone down; a refused event changes nothing.\<close>

theorem accepted_event_reports_the_session:
  assumes "record_lifecycle_event uid sid cid phase now st = (Inr e, st')"
  shows "(se_accepted e \<longrightarrow> (\<exists>s s'. fs_sessions st (uid, sid) = Some s \<and> fs_sessions st' (uid, sid) = Some s' \<and>
      session_phase s' = phase \<and> se_lifecycle_phase e = phase \<and> se_lifecycle_sequence e = session_sequence s' \<and>
      se_conversation_id e = cid \<and> phase_rank (session_phase s) \<le> phase_rank phase \<and>
      session_sequence s' = session_sequence s + (if phase = session_phase s then 0 else 1))) \<and>
    (\<not> se_accepted e \<longrightarrow> st' = st \<and> se_discard_reason e \<noteq> None)"
proof (cases "PHASE_ORDER phase")
  case None
  then show ?thesis using assms by (simp add: record_lifecycle_event_def)
next
  case (Some k)
  then have "phase \<noteq> ''''" by (auto simp: PHASE_ORDER_def)
  then have "str_or (Some phase) d = phase" for d by (cases phase) simp_all
  then show ?thesis
    using assms Some
    by (cases "fs_sessions st (uid, sid)")
      (auto simp: record_lifecycle_event_def event_of_def advance_session_def phase_rank_def int_or_0 Let_def
        split: if_splits option.splits)
qed

theorem accepted_event_reports_the_session_witness:
  "\<exists>e st'. record_lifecycle_event ''u'' ''s'' ''c'' ''processing'' 9
     (set_session empty_store ''u'' ''s'' (new_session ''u'' ''s'' ''c'' 0)) = (Inr e, st') \<and> se_lifecycle_sequence e = 1"
proof -
  let ?st = "set_session empty_store ''u'' ''s'' (new_session ''u'' ''s'' ''c'' 0)"
  obtain e st' where run: "record_lifecycle_event ''u'' ''s'' ''c'' ''processing'' 9 ?st = (Inr e, st')" "se_accepted e"
    by (simp add: record_lifecycle_event_def new_session_def PHASE_ORDER_def TERMINAL_RECORDING_PHASES_def event_of_def Let_def)
  then show ?thesis
    using accepted_event_reports_the_session [OF run(1)] by (auto simp: new_session_def)
qed

text \<open>Cleanup never deletes content. The transaction deletes a conversation only while it is in
  progress, not discarded and without content, returns exactly the snapshot it deleted, leaves
  every other conversation and every job as it was, and closes only the session bound to it.\<close>

theorem cleanup_deletes_only_empty_conversations:
  assumes "tombstone_and_delete_empty_conversation codec uid cid sid now st = (r, st')"
  shows "(case r of
      None \<Rightarrow> st' = st
    | Some conv \<Rightarrow> fs_conversations st (uid, cid) = Some conv \<and> c_status conv = Some ''in_progress'' \<and>
        \<not> truthy (c_discarded conv) \<and> \<not> raw_conversation_has_content codec uid conv \<and>
        fs_conversations st' = (fs_conversations st)((uid, cid) := None) \<and> fs_jobs st' = fs_jobs st \<and>
        (\<forall>key. fs_sessions st' key \<noteq> fs_sessions st key \<longrightarrow>
           bound_to key cid st \<and> key = (uid, the sid) \<and> map_option session_phase (fs_sessions st' key) = Some ''discarded''))"
  using assms
  by (auto simp: tombstone_and_delete_empty_conversation_def bound_to_def Let_def nonempty_str_def
      split: option.splits if_splits)

theorem cleanup_deletes_only_empty_conversations_witness:
  "fs_conversations (snd (tombstone_and_delete_empty_conversation
     \<lparr>decrypted_count = \<lambda>_ _ _. None, inflated_count = \<lambda>_. None\<rparr> ''u'' ''c'' None 1
     (set_conversation empty_store ''u'' ''c'' (empty_conversation\<lparr>c_status := Some ''in_progress''\<rparr>)))) (''u'', ''c'') = None"
  using cleanup_deletes_only_empty_conversations [OF surjective_pairing,
      of "\<lparr>decrypted_count = \<lambda>_ _ _. None, inflated_count = \<lambda>_. None\<rparr>" "''u''" "''c''" None 1
        "set_conversation empty_store ''u'' ''c'' (empty_conversation\<lparr>c_status := Some ''in_progress''\<rparr>)"]
  by (simp add: tombstone_and_delete_empty_conversation_def empty_conversation_def raw_conversation_has_content_def)

end
