(* ===== verification/Finalization_Jobs.thy ===== *)
theory Finalization_Jobs
  imports Documents
begin

text \<open>
  The durable outbox of \<^verbatim>\<open>backend/database/conversation_finalization_jobs.py\<close>: admission of a
  finalization generation, leases, fanout, retries, dead letters, replay, receipts and the
  disposition of stranded jobs. Each operation is the transaction body of the source
  together with the wrapper that supplies its clock (\<open>now\<close>) and, where the body reads one,
  the environment (\<open>env\<close>).
\<close>

section \<open>Constants and bounded configuration\<close>

definition FINALIZATION_PROJECTION_GENERATION :: string where
  "FINALIZATION_PROJECTION_GENERATION = ''terminal-outcomes-v1''"

definition FINALIZATION_PROJECTION_SHARD_COUNT :: int where
  "FINALIZATION_PROJECTION_SHARD_COUNT = 16"

definition TERMINAL_JOB_STATUSES :: "string set" where
  "TERMINAL_JOB_STATUSES = {''completed'', ''dead_letter''}"

definition NONTERMINAL_JOB_STATUSES :: "string set" where
  "NONTERMINAL_JOB_STATUSES = {''queued'', ''leased'', ''blocked_byok''}"

definition DEFAULT_LEASE_SECONDS :: int where
  "DEFAULT_LEASE_SECONDS = 1500"

definition DEFAULT_RECONCILE_STALE_SECONDS :: int where
  "DEFAULT_RECONCILE_STALE_SECONDS = 300"

definition DEFAULT_ORPHAN_RECONCILE_STALE_SECONDS :: int where
  "DEFAULT_ORPHAN_RECONCILE_STALE_SECONDS = 900"

definition DEFAULT_BYOK_ABANDONED_AFTER_SECONDS :: int where
  "DEFAULT_BYOK_ABANDONED_AFTER_SECONDS = 14 * 86400"

definition BYOK_ABANDONED_FAILURE_CODE :: string where
  "BYOK_ABANDONED_FAILURE_CODE = ''byok_session_abandoned''"

definition MEETING_RECEIPT_SCHEMA_VERSION :: int where
  "MEETING_RECEIPT_SCHEMA_VERSION = 1"

definition MEETING_RECEIPT_RECONCILE_AFTER :: duration where
  "MEETING_RECEIPT_RECONCILE_AFTER = seconds 600"

text \<open>\<^verbatim>\<open>int(os.getenv(name, str(default)))\<close> with a \<^verbatim>\<open>ValueError\<close> falling back to the default.\<close>

definition env_int :: "environ \<Rightarrow> string \<Rightarrow> int \<Rightarrow> int" where
  "env_int env name dflt =
     (case env name of None \<Rightarrow> dflt
      | Some s \<Rightarrow> (case py_int s of None \<Rightarrow> dflt | Some n \<Rightarrow> n))"

definition get_finalization_reconcile_stale_after :: "environ \<Rightarrow> duration" where
  "get_finalization_reconcile_stale_after env =
     seconds (max 30 (env_int env ''LISTEN_FINALIZATION_RECONCILE_STALE_SECONDS''
       DEFAULT_RECONCILE_STALE_SECONDS))"

definition get_stale_processing_orphan_after :: "environ \<Rightarrow> duration" where
  "get_stale_processing_orphan_after env =
     seconds (min 86400 (max 300 (env_int env ''LISTEN_FINALIZATION_ORPHAN_STALE_SECONDS''
       DEFAULT_ORPHAN_RECONCILE_STALE_SECONDS)))"

definition get_byok_abandoned_after :: "environ \<Rightarrow> duration" where
  "get_byok_abandoned_after env =
     seconds (min (90 * 86400) (max 86400 (env_int env ''LISTEN_FINALIZATION_BYOK_ABANDONED_SECONDS''
       DEFAULT_BYOK_ABANDONED_AFTER_SECONDS)))"

section \<open>Results\<close>

record finalization_intent =
  fi_job_id :: "string option"
  fi_status :: string
  fi_dispatch_generation :: "int option"
  fi_requires_byok :: bool
  fi_fanout_key :: "string option"
  fi_created :: bool

record finalization_admission =
  fa_accepted :: bool
  fa_terminal :: bool
  fa_reason :: string
  fa_fanout_key :: "string option"

record finalization_claim =
  fc_status :: string
  fc_lease_epoch :: "int option"
  fc_attempt_count :: int
  fc_created_at :: "timestamp option"

record fanout_claim =
  fo_status :: string
  fo_fanout_key :: "string option"

record byok_abandonment =
  ba_status :: string
  ba_conversation_outcome :: string

definition claim_result :: "string \<Rightarrow> finalization_claim" where
  "claim_result status = \<lparr>fc_status = status, fc_lease_epoch = None, fc_attempt_count = 0, fc_created_at = None\<rparr>"

section \<open>Reading a job\<close>

abbreviation job_status :: "job \<Rightarrow> string" where
  "job_status j \<equiv> str_or (j_status j) ''''"

abbreviation job_generation :: "job \<Rightarrow> int" where
  "job_generation j \<equiv> int_or (j_dispatch_generation j) 1"

abbreviation job_epoch :: "job \<Rightarrow> int" where
  "job_epoch j \<equiv> int_or (j_lease_epoch j) 0"

definition is_current_lease :: "job \<Rightarrow> int \<Rightarrow> int \<Rightarrow> bool" where
  "is_current_lease j dispatch_generation lease_epoch \<longleftrightarrow>
     j_status j = Some ''leased'' \<and> job_generation j = dispatch_generation \<and> job_epoch j = lease_epoch"

definition lease_unexpired :: "job \<Rightarrow> timestamp \<Rightarrow> bool" where
  "lease_unexpired j now \<longleftrightarrow> (case j_lease_expires_at j of None \<Rightarrow> False | Some t \<Rightarrow> t > now)"

definition intent_from_job :: "string \<Rightarrow> job \<Rightarrow> bool \<Rightarrow> finalization_intent" where
  "intent_from_job jid j created =
     \<lparr>fi_job_id = Some jid, fi_status = str_or (j_status j) ''queued'',
      fi_dispatch_generation = Some (job_generation j), fi_requires_byok = truthy (j_requires_byok j),
      fi_fanout_key = j_fanout_key j, fi_created = created\<rparr>"

definition no_finalization_intent :: "string \<Rightarrow> finalization_intent" where
  "no_finalization_intent status =
     \<lparr>fi_job_id = None, fi_status = status, fi_dispatch_generation = None, fi_requires_byok = False,
      fi_fanout_key = None, fi_created = False\<rparr>"

definition job_id_of :: "string \<Rightarrow> string \<Rightarrow> int \<Rightarrow> string" where
  "job_id_of uid conversation_id revision =
     document_id_from_seed
       (''listen-finalization:'' @ uid @ '':'' @ conversation_id @ '':'' @ show_int revision)"

section \<open>The sharded projection\<close>

definition projection_shard :: "string \<Rightarrow> int" where
  "projection_shard jid =
     int_from_bytes_big (take 4 (sha256 (utf8_bytes jid))) mod FINALIZATION_PROJECTION_SHARD_COUNT"

definition projection_shard_id :: "string \<Rightarrow> int \<Rightarrow> string" where
  "projection_shard_id generation shard = generation @ ''-'' @ show_02d shard"

text \<open>The shard a job counts in, where the job was admitted under the current generation.\<close>

definition projection_ref_for_job :: "job \<Rightarrow> (int \<times> string) option" where
  "projection_ref_for_job j =
     (case (j_projection_generation j, j_projection_shard j) of
        (Some generation, Some shard) \<Rightarrow>
          if generation \<noteq> FINALIZATION_PROJECTION_GENERATION
             \<or> \<not> (0 \<le> shard \<and> shard < FINALIZATION_PROJECTION_SHARD_COUNT) then None
          else Some (shard, projection_shard_id generation shard)
      | _ \<Rightarrow> None)"

definition increment :: "string \<times> int \<Rightarrow> (string \<Rightarrow> int option) \<Rightarrow> (string \<Rightarrow> int option)" where
  "increment nd counts =
     counts(fst nd \<mapsto> (case counts (fst nd) of None \<Rightarrow> snd nd | Some n \<Rightarrow> n + snd nd))"

definition merge_increments :: "shard_doc option \<Rightarrow> int \<Rightarrow> (string \<times> int) list \<Rightarrow> shard_doc" where
  "merge_increments doc shard deltas =
     \<lparr>sd_generation = Some FINALIZATION_PROJECTION_GENERATION, sd_shard = Some shard,
      sd_counts = fold increment deltas (case doc of None \<Rightarrow> Map.empty | Some d \<Rightarrow> sd_counts d)\<rparr>"

definition record_projection_delta :: "job \<Rightarrow> (string \<times> int) list \<Rightarrow> fstore \<Rightarrow> fstore" where
  "record_projection_delta j deltas st =
     (case projection_ref_for_job j of
        None \<Rightarrow> st
      | Some (shard, sid) \<Rightarrow>
          let ds = filter (\<lambda>nd. snd nd \<noteq> 0) deltas in
          if ds = [] then st
          else st\<lparr>fs_shards := (fs_shards st)(sid \<mapsto> merge_increments (fs_shards st sid) shard ds)\<rparr>)"

section \<open>Admission\<close>

definition conversation_has_finalization_content ::
    "segment_codec \<Rightarrow> string \<Rightarrow> string \<Rightarrow> conversation \<Rightarrow> fstore \<Rightarrow> bool" where
  "conversation_has_finalization_content codec uid conversation_id conv st \<longleftrightarrow>
     raw_conversation_has_content codec uid conv \<or> fs_photo_docs st (uid, conversation_id) \<noteq> 0"

definition new_job ::
    "environ \<Rightarrow> string \<Rightarrow> string \<Rightarrow> int \<Rightarrow> bool \<Rightarrow> conversation \<Rightarrow> bool \<Rightarrow> string option \<Rightarrow> timestamp \<Rightarrow> job" where
  "new_job env uid conversation_id revision requires_byok conv force_process fanout_key now =
     empty_job\<lparr>
       j_schema_version := Some 1,
       j_uid := Some uid,
       j_conversation_id := Some conversation_id,
       j_finalization_revision := Some revision,
       j_status := Some (if requires_byok then ''blocked_byok'' else ''queued''),
       j_requires_byok := Some requires_byok,
       j_client_platform := c_client_platform conv,
       j_force_process := Some force_process,
       j_fanout_key := fanout_key,
       j_fanout_status := Some ''pending'',
       j_dispatch_generation := Some 1,
       j_attempt_count := Some 0,
       j_task_retry_count := Some 0,
       j_projection_generation := Some FINALIZATION_PROJECTION_GENERATION,
       j_projection_shard := Some (projection_shard (job_id_of uid conversation_id revision)),
       j_created_at := Some now,
       j_updated_at := Some now,
       j_dispatch_requested_at := Some now,
       j_reconcile_after_at :=
         (if requires_byok then None else Some (now + get_finalization_reconcile_stale_after env))\<rparr>"

definition create_or_get_finalization_intent ::
    "environ \<Rightarrow> segment_codec \<Rightarrow> string \<Rightarrow> string \<Rightarrow> bool \<Rightarrow> (conversation \<Rightarrow> finalization_admission) \<Rightarrow>
     bool \<Rightarrow> (conversation \<Rightarrow> conversation) \<Rightarrow> timestamp \<Rightarrow> fstore \<Rightarrow> finalization_intent \<times> fstore" where
  "create_or_get_finalization_intent env codec uid conversation_id requires_byok admit force_process
       extra_updates now st =
     (case fs_conversations st (uid, conversation_id) of
        None \<Rightarrow> (no_finalization_intent ''missing'', st)
      | Some conv \<Rightarrow>
          if truthy (c_deferred conv) then (no_finalization_intent ''deferred'', st)
          else if \<not> conversation_has_finalization_content codec uid conversation_id conv st then
            (no_finalization_intent ''no_content'', st)
          else
            let admission = admit conv in
            if fa_terminal admission then (no_finalization_intent (fa_reason admission), st)
            else
              (case Option.bind (nonempty_str (c_finalization_job_id conv))
                      (\<lambda>jid. map_option (\<lambda>j. (jid, j)) (fs_jobs st jid)) of
                 Some (jid, j) \<Rightarrow> (intent_from_job jid j False, st)
               | None \<Rightarrow>
                   if \<not> fa_accepted admission \<or> nonempty_str (fa_fanout_key admission) = None then
                     (no_finalization_intent (fa_reason admission), st)
                   else
                     let revision = int_or (c_finalization_revision conv) 0 + 1;
                         jid = job_id_of uid conversation_id revision in
                     (case fs_jobs st jid of
                        Some j \<Rightarrow>
                          (intent_from_job jid j False,
                           set_conversation st uid conversation_id
                             (conv\<lparr>c_status := Some ''processing'', c_finalization_job_id := Some jid,
                                   c_finalization_revision := Some revision,
                                   c_finalization_status :=
                                     (case j_status j of None \<Rightarrow> Some ''queued'' | Some s \<Rightarrow> Some s)\<rparr>))
                      | None \<Rightarrow>
                          let j = new_job env uid conversation_id revision requires_byok conv force_process
                                    (fa_fanout_key admission) now;
                              st1 = record_projection_delta j
                                      [(''accepted'', 1), (if requires_byok then ''blocked_byok'' else ''queued'', 1)]
                                      (set_job st jid j)
                          in (intent_from_job jid j True,
                              set_conversation st1 uid conversation_id
                                ((extra_updates conv)\<lparr>c_status := Some ''processing'',
                                   c_finalization_job_id := Some jid,
                                   c_finalization_revision := Some revision,
                                   c_finalization_status := j_status j\<rparr>)))))"

definition resume_blocked_byok_job_for_live_session ::
    "string \<Rightarrow> timestamp \<Rightarrow> fstore \<Rightarrow> finalization_intent \<times> fstore" where
  "resume_blocked_byok_job_for_live_session jid now st =
     (case fs_jobs st jid of
        None \<Rightarrow> (no_finalization_intent ''missing'', st)
      | Some j \<Rightarrow>
          if j_status j = Some ''blocked_byok'' \<and> truthy (j_requires_byok j) then
            let j' = j\<lparr>j_status := Some ''queued'', j_updated_at := Some now,
                       j_last_byok_resume_at := Some now, j_reconcile_after_at := None\<rparr>
            in (intent_from_job jid (j\<lparr>j_status := Some ''queued''\<rparr>) False,
                record_projection_delta j [(''blocked_byok'', - 1), (''queued'', 1)] (set_job st jid j'))
          else (intent_from_job jid j False, st))"

section \<open>Leases\<close>

definition claim_finalization_job ::
    "string \<Rightarrow> int \<Rightarrow> bool \<Rightarrow> int \<Rightarrow> string option \<Rightarrow> string option \<Rightarrow> timestamp \<Rightarrow> fstore \<Rightarrow>
     finalization_claim \<times> fstore" where
  "claim_finalization_job jid dispatch_generation allow_byok lease_seconds expected_uid
       expected_conversation_id now st =
     (case fs_jobs st jid of
        None \<Rightarrow> (claim_result ''missing'', st)
      | Some j \<Rightarrow>
          let status = job_status j in
          if expected_uid \<noteq> None \<and> j_uid j \<noteq> expected_uid then (claim_result ''identity_mismatch'', st)
          else if expected_conversation_id \<noteq> None \<and> j_conversation_id j \<noteq> expected_conversation_id then
            (claim_result ''identity_mismatch'', st)
          else if status = ''completed'' \<and> j_finalization_outcome j = Some ''fenced'' then
            (claim_result ''fenced'', st)
          else if status \<in> TERMINAL_JOB_STATUSES then (claim_result status, st)
          else if truthy (j_requires_byok j) \<and> \<not> allow_byok then (claim_result ''blocked_byok'', st)
          else if status = ''blocked_byok'' then (claim_result ''blocked_byok'', st)
          else if job_generation j \<noteq> dispatch_generation then (claim_result ''stale_generation'', st)
          else if status = ''leased'' \<and> lease_unexpired j now then (claim_result ''leased'', st)
          else if status \<notin> {''queued'', ''leased''} then (claim_result ''not_actionable'', st)
          else
            let lease_epoch = job_epoch j + 1;
                lease_expires_at = now + seconds lease_seconds;
                attempt_count = int_or (j_attempt_count j) 0 + 1;
                j' = j\<lparr>j_status := Some ''leased'', j_leased_at := Some now,
                       j_lease_expires_at := Some lease_expires_at, j_lease_epoch := Some lease_epoch,
                       j_reconcile_after_at :=
                         (if truthy (j_requires_byok j) then None else Some lease_expires_at),
                       j_updated_at := Some now, j_attempt_count := Some attempt_count\<rparr>;
                st1 = set_job st jid j';
                st2 = (if status = ''queued''
                       then record_projection_delta j [(''queued'', - 1), (''leased'', 1)] st1 else st1)
            in (\<lparr>fc_status = ''claimed'', fc_lease_epoch = Some lease_epoch, fc_attempt_count = attempt_count,
                 fc_created_at = j_created_at j\<rparr>, st2))"

definition mark_finalization_completed :: "string \<Rightarrow> int \<Rightarrow> int \<Rightarrow> timestamp \<Rightarrow> fstore \<Rightarrow> bool \<times> fstore" where
  "mark_finalization_completed jid dispatch_generation lease_epoch now st =
     (case fs_jobs st jid of
        None \<Rightarrow> (False, st)
      | Some j \<Rightarrow>
          if j_status j = Some ''completed'' then (job_epoch j = lease_epoch, st)
          else if \<not> is_current_lease j dispatch_generation lease_epoch then (False, st)
          else if j_fanout_status j \<noteq> Some ''completed'' then (False, st)
          else
            (True,
             record_projection_delta j [(''leased'', - 1), (''completed'', 1), (''success'', 1)]
               (set_job st jid
                 (j\<lparr>j_status := Some ''completed'', j_completed_at := Some now,
                    j_terminal_outcome := Some ''success'', j_updated_at := Some now,
                    j_lease_expires_at := Some now, j_reconcile_after_at := None,
                    j_last_failure_code := None\<rparr>))))"

text \<open>The terminal state shared by every boundary that fences a job out of its fanout.\<close>

definition fenced_finalization_update :: "timestamp \<Rightarrow> job \<Rightarrow> job" where
  "fenced_finalization_update now j =
     j\<lparr>j_status := Some ''completed'', j_completed_at := Some now, j_updated_at := Some now,
       j_lease_expires_at := Some now, j_reconcile_after_at := None, j_last_failure_code := None,
       j_finalization_outcome := Some ''fenced'', j_terminal_outcome := Some ''stale'',
       j_fanout_status := Some ''fenced'', j_fanout_fenced_at := Some now\<rparr>"

definition fence_job :: "string \<Rightarrow> job \<Rightarrow> timestamp \<Rightarrow> fstore \<Rightarrow> fstore" where
  "fence_job jid j now st =
     record_projection_delta j [(''leased'', - 1), (''completed'', 1), (''stale'', 1)]
       (set_job st jid (fenced_finalization_update now j))"

definition mark_finalization_fenced :: "string \<Rightarrow> int \<Rightarrow> int \<Rightarrow> timestamp \<Rightarrow> fstore \<Rightarrow> bool \<times> fstore" where
  "mark_finalization_fenced jid dispatch_generation lease_epoch now st =
     (case fs_jobs st jid of
        None \<Rightarrow> (False, st)
      | Some j \<Rightarrow>
          if j_status j = Some ''completed'' then
            (j_finalization_outcome j = Some ''fenced'' \<and> job_epoch j = lease_epoch, st)
          else if \<not> is_current_lease j dispatch_generation lease_epoch then (False, st)
          else if j_fanout_status j \<notin> {None, Some ''pending''} then (False, st)
          else (True, fence_job jid j now st))"

section \<open>Fanout\<close>

definition fanout_key_of :: "job \<Rightarrow> string" where
  "fanout_key_of j =
     (case nonempty_str (j_fanout_key j) of
        Some key \<Rightarrow> key
      | None \<Rightarrow> ''conversation:'' @ (case j_conversation_id j of None \<Rightarrow> '''' | Some c \<Rightarrow> c) @
                '':finalization:'' @ show_int (int_or (j_finalization_revision j) 1))"

definition conversation_admits_fanout :: "conversation \<Rightarrow> job \<Rightarrow> string \<Rightarrow> bool" where
  "conversation_admits_fanout conv j jid =
     (if truthy (c_discarded conv) \<or> c_status conv \<noteq> Some ''completed'' then False
      else if c_finalization_job_id conv \<noteq> Some jid then False
      else int_or (c_finalization_revision conv) 0 = int_or (j_finalization_revision j) 0)"

text \<open>The conversation a job is bound to, where both identifiers are non-empty strings.\<close>

definition bound_key :: "job \<Rightarrow> (string \<times> string) option" where
  "bound_key j =
     (case (nonempty_str (j_uid j), nonempty_str (j_conversation_id j)) of
        (Some u, Some c) \<Rightarrow> Some (u, c) | _ \<Rightarrow> None)"

definition claim_finalization_fanout ::
    "string \<Rightarrow> int \<Rightarrow> int \<Rightarrow> timestamp \<Rightarrow> fstore \<Rightarrow> fanout_claim \<times> fstore" where
  "claim_finalization_fanout jid dispatch_generation lease_epoch now st =
     (case fs_jobs st jid of
        None \<Rightarrow> (\<lparr>fo_status = ''missing'', fo_fanout_key = None\<rparr>, st)
      | Some j \<Rightarrow>
          let key = fanout_key_of j in
          if j_fanout_status j = Some ''completed'' then
            (\<lparr>fo_status = ''completed'', fo_fanout_key = Some key\<rparr>, st)
          else if \<not> is_current_lease j dispatch_generation lease_epoch then
            (\<lparr>fo_status = ''lease_conflict'', fo_fanout_key = Some key\<rparr>, st)
          else
            (case bound_key j of
               None \<Rightarrow> (\<lparr>fo_status = ''fenced'', fo_fanout_key = Some key\<rparr>, fence_job jid j now st)
             | Some uc \<Rightarrow>
                 (case fs_conversations st uc of
                    None \<Rightarrow> (\<lparr>fo_status = ''fenced'', fo_fanout_key = Some key\<rparr>, fence_job jid j now st)
                  | Some conv \<Rightarrow>
                      if \<not> conversation_admits_fanout conv j jid then
                        (\<lparr>fo_status = ''fenced'', fo_fanout_key = Some key\<rparr>, fence_job jid j now st)
                      else
                        (\<lparr>fo_status = ''claimed'', fo_fanout_key = Some key\<rparr>,
                         set_job st jid
                           (j\<lparr>j_fanout_key := Some key, j_fanout_status := Some ''leased'',
                              j_fanout_lease_epoch := Some lease_epoch, j_fanout_started_at := Some now,
                              j_updated_at := Some now\<rparr>)))))"

definition mark_finalization_fanout_completed ::
    "string \<Rightarrow> int \<Rightarrow> int \<Rightarrow> timestamp \<Rightarrow> fstore \<Rightarrow> bool \<times> fstore" where
  "mark_finalization_fanout_completed jid dispatch_generation lease_epoch now st =
     (case fs_jobs st jid of
        None \<Rightarrow> (False, st)
      | Some j \<Rightarrow>
          if j_fanout_status j = Some ''completed'' then
            (int_or (j_fanout_lease_epoch j) 0 = lease_epoch, st)
          else if \<not> is_current_lease j dispatch_generation lease_epoch then (False, st)
          else
            (True,
             set_job st jid
               (j\<lparr>j_fanout_status := Some ''completed'', j_fanout_completed_at := Some now,
                  j_updated_at := Some now\<rparr>)))"

section \<open>Failure: retry and dead letter\<close>

definition mark_finalization_retryable ::
    "environ \<Rightarrow> string \<Rightarrow> int \<Rightarrow> int \<Rightarrow> string \<Rightarrow> timestamp \<Rightarrow> fstore \<Rightarrow> bool \<times> fstore" where
  "mark_finalization_retryable env jid dispatch_generation lease_epoch failure_code now st =
     (case fs_jobs st jid of
        None \<Rightarrow> (False, st)
      | Some j \<Rightarrow>
          if \<not> is_current_lease j dispatch_generation lease_epoch then (False, st)
          else
            (True,
             record_projection_delta j [(''leased'', - 1), (''queued'', 1)]
               (set_job st jid
                 (j\<lparr>j_status := Some ''queued'', j_updated_at := Some now, j_lease_expires_at := Some now,
                    j_reconcile_after_at :=
                      (if truthy (j_requires_byok j) then None
                       else Some (now + get_finalization_reconcile_stale_after env)),
                    j_last_failure_code := Some failure_code\<rparr>))))"

text \<open>Whether a job still owns the processing generation of its conversation.\<close>

definition owns_generation :: "string \<Rightarrow> job \<Rightarrow> conversation \<Rightarrow> bool" where
  "owns_generation jid j conv \<longleftrightarrow>
     c_finalization_job_id conv = Some jid \<and> c_finalization_revision conv = j_finalization_revision j"

definition mark_finalization_dead_letter ::
    "string \<Rightarrow> int \<Rightarrow> int \<Rightarrow> int \<Rightarrow> timestamp \<Rightarrow> fstore \<Rightarrow> bool \<times> fstore" where
  "mark_finalization_dead_letter jid dispatch_generation lease_epoch retry_count now st =
     (case fs_jobs st jid of
        None \<Rightarrow> (False, st)
      | Some j \<Rightarrow>
          if \<not> is_current_lease j dispatch_generation lease_epoch then (False, st)
          else
            let st1 = record_projection_delta j [(''leased'', - 1), (''dead_letter'', 1), (''failure'', 1)]
                        (set_job st jid
                          (j\<lparr>j_status := Some ''dead_letter'', j_updated_at := Some now,
                             j_terminal_at := Some now, j_terminal_outcome := Some ''failure'',
                             j_lease_expires_at := Some now, j_reconcile_after_at := None,
                             j_task_retry_count := Some retry_count,
                             j_last_failure_code := Some ''final_attempt_failed''\<rparr>))
            in (True,
                (case bound_key j of
                   None \<Rightarrow> st1
                 | Some (uid, conversation_id) \<Rightarrow>
                     (case fs_conversations st (uid, conversation_id) of
                        None \<Rightarrow> st1
                      | Some conv \<Rightarrow>
                          if c_status conv = Some ''processing'' \<and> \<not> truthy (c_discarded conv)
                             \<and> owns_generation jid j conv then
                            set_conversation st1 uid conversation_id
                              (conv\<lparr>c_status := Some ''failed'', c_discarded := Some True,
                                    c_finalization_status := Some ''dead_letter''\<rparr>)
                          else st1))))"

definition get_finalization_job :: "string \<Rightarrow> fstore \<Rightarrow> job option" where
  "get_finalization_job jid st = fs_jobs st jid"

section \<open>Meeting receipts\<close>

definition fresh_receipt :: "bool \<Rightarrow> string \<Rightarrow> rat \<Rightarrow> rat \<Rightarrow> timestamp \<Rightarrow> meeting_receipt" where
  "fresh_receipt eligible reason duration_s dedup_speech_s now =
     \<lparr>mr_schema_version = Some MEETING_RECEIPT_SCHEMA_VERSION, mr_eligible = Some eligible,
      mr_reason = Some reason, mr_duration_s = Some duration_s, mr_dedup_speech_s = Some dedup_speech_s,
      mr_created_at = Some now, mr_updated_at = Some now,
      mr_reconcile_after_at = Some (now + MEETING_RECEIPT_RECONCILE_AFTER), mr_intent_id = Some None,
      mr_intent_persisted_at = None, mr_materialized_at = None\<rparr>"

definition receipt_only_job :: "string \<Rightarrow> string \<Rightarrow> int \<Rightarrow> meeting_receipt \<Rightarrow> timestamp \<Rightarrow> job" where
  "receipt_only_job uid conversation_id revision receipt now =
     empty_job\<lparr>j_schema_version := Some 1, j_uid := Some uid, j_conversation_id := Some conversation_id,
       j_finalization_revision := Some revision, j_status := Some ''completed'',
       j_requires_byok := Some False, j_force_process := Some False,
       j_fanout_key := Some (''conversation:'' @ conversation_id @ '':finalization''),
       j_fanout_status := Some ''completed'', j_fanout_completed_at := Some now,
       j_finalization_outcome := Some ''success'', j_terminal_outcome := Some ''success'',
       j_terminal_at := Some now, j_dispatch_generation := Some 1, j_attempt_count := Some 1,
       j_task_retry_count := Some 0, j_created_at := Some now, j_updated_at := Some now,
       j_receipt := receipt\<rparr>"

datatype receipt_result = Receipt_Missing | Receipt_Identity_Mismatch | Receipt_Recorded string meeting_receipt

definition record_meeting_receipt ::
    "string \<Rightarrow> string \<Rightarrow> string option \<Rightarrow> bool \<Rightarrow> string \<Rightarrow> rat \<Rightarrow> rat \<Rightarrow> timestamp \<Rightarrow> fstore \<Rightarrow>
     receipt_result \<times> fstore" where
  "record_meeting_receipt uid conversation_id finalization_job_id eligible reason duration_s
       dedup_speech_s now st =
     (case fs_conversations st (uid, conversation_id) of
        None \<Rightarrow> (Receipt_Missing, st)
      | Some conv \<Rightarrow>
          let revision = int_or (c_finalization_revision conv) 0 + 1;
              jid = (case nonempty_str finalization_job_id of
                       Some x \<Rightarrow> x
                     | None \<Rightarrow> (case nonempty_str (c_finalization_job_id conv) of
                                  Some x \<Rightarrow> x
                                | None \<Rightarrow> job_id_of uid conversation_id revision));
              j = (case fs_jobs st jid of None \<Rightarrow> empty_job | Some x \<Rightarrow> x)
          in
          if j \<noteq> empty_job \<and> (j_uid j \<noteq> Some uid \<or> j_conversation_id j \<noteq> Some conversation_id) then
            (Receipt_Identity_Mismatch, st)
          else
            let kept = (mr_schema_version (j_receipt j) = Some MEETING_RECEIPT_SCHEMA_VERSION);
                receipt = (if kept then j_receipt j
                           else fresh_receipt eligible reason duration_s dedup_speech_s now);
                st1 = (if kept then st
                       else if j \<noteq> empty_job then set_job st jid (j\<lparr>j_receipt := receipt\<rparr>)
                       else set_job st jid (receipt_only_job uid conversation_id revision receipt now));
                conv1 = conv\<lparr>c_finalization_job_id := Some jid,
                             c_meeting_treatment_eligible := Some (truthy (mr_eligible receipt)),
                             c_meeting_treatment_reason := mr_reason receipt,
                             c_meeting_duration_s := mr_duration_s receipt,
                             c_meeting_dedup_speech_s := mr_dedup_speech_s receipt\<rparr>;
                conv2 = (if nonempty_str (c_finalization_job_id conv) = None
                         then conv1\<lparr>c_finalization_revision := Some revision,
                                    c_finalization_status := Some ''completed''\<rparr>
                         else conv1)
            in (Receipt_Recorded jid receipt, set_conversation st1 uid conversation_id conv2))"

definition mark_meeting_receipt_intent_persisted ::
    "string \<Rightarrow> string \<Rightarrow> timestamp \<Rightarrow> fstore \<Rightarrow> bool \<times> fstore" where
  "mark_meeting_receipt_intent_persisted jid intent_id now st =
     (case fs_jobs st jid of
        None \<Rightarrow> (False, st)
      | Some j \<Rightarrow>
          (case mr_intent_id (j_receipt j) of
             Some (Some existing) \<Rightarrow> (existing = intent_id, st)
           | _ \<Rightarrow>
               (True,
                set_job st jid
                  (j\<lparr>j_receipt := (j_receipt j)\<lparr>mr_intent_id := Some (Some intent_id),
                       mr_intent_persisted_at := Some now, mr_updated_at := Some now\<rparr>\<rparr>))))"

definition mark_meeting_receipt_materialized ::
    "string \<Rightarrow> string \<Rightarrow> string \<Rightarrow> timestamp \<Rightarrow> fstore \<Rightarrow> bool \<times> fstore" where
  "mark_meeting_receipt_materialized uid conversation_id intent_id materialized_at st =
     (case Option.bind (fs_conversations st (uid, conversation_id))
             (\<lambda>conv. nonempty_str (c_finalization_job_id conv)) of
        None \<Rightarrow> (False, st)
      | Some jid \<Rightarrow>
          (case fs_jobs st jid of
             None \<Rightarrow> (False, st)
           | Some j \<Rightarrow>
               if mr_intent_id (j_receipt j) \<noteq> Some (Some intent_id) then (False, st)
               else if mr_materialized_at (j_receipt j) = None then
                 (True,
                  set_job st jid
                    (j\<lparr>j_receipt := (j_receipt j)\<lparr>mr_materialized_at := Some materialized_at,
                         mr_updated_at := Some materialized_at\<rparr>\<rparr>))
               else (True, st)))"

section \<open>Replay\<close>

definition dispatch_fresh :: "job \<Rightarrow> duration \<Rightarrow> timestamp \<Rightarrow> bool" where
  "dispatch_fresh j stale_after now \<longleftrightarrow>
     (case j_dispatch_requested_at j of None \<Rightarrow> False | Some t \<Rightarrow> t > now - stale_after)"

definition claim_finalization_replay ::
    "string \<Rightarrow> duration \<Rightarrow> timestamp \<Rightarrow> fstore \<Rightarrow> finalization_intent \<times> fstore" where
  "claim_finalization_replay jid stale_after now st =
     (case fs_jobs st jid of
        None \<Rightarrow> (no_finalization_intent ''missing'', st)
      | Some j \<Rightarrow>
          let status = job_status j in
          if status = ''blocked_byok'' \<or> status \<in> TERMINAL_JOB_STATUSES then (intent_from_job jid j False, st)
          else if status = ''leased'' \<and> lease_unexpired j now then (intent_from_job jid j False, st)
          else if status = ''queued'' \<and> dispatch_fresh j stale_after now then (intent_from_job jid j False, st)
          else if status \<notin> {''queued'', ''leased''} then (intent_from_job jid j False, st)
          else
            let generation = job_generation j + 1;
                j' = j\<lparr>j_status := Some ''queued'', j_dispatch_generation := Some generation,
                       j_dispatch_requested_at := Some now, j_updated_at := Some now,
                       j_lease_expires_at := Some now, j_reconcile_after_at := Some (now + stale_after)\<rparr>;
                st1 = set_job st jid j';
                st2 = (if status = ''leased''
                       then record_projection_delta j [(''leased'', - 1), (''queued'', 1)] st1 else st1)
            in (intent_from_job jid
                  (j\<lparr>j_status := Some ''queued'', j_dispatch_generation := Some generation\<rparr>) False, st2))"

text \<open>A query is run over \<open>rows\<close>, the collection in the order the server's index returns it.\<close>

definition get_finalization_replay_candidates ::
    "(string \<times> job) list \<Rightarrow> int \<Rightarrow> timestamp \<Rightarrow> (string \<times> job) list" where
  "get_finalization_replay_candidates rows limit now =
     filter (\<lambda>(jid, j). j_status j \<in> {Some ''queued'', Some ''leased''})
       (take (nat (max 1 (min limit 100)))
          (filter (\<lambda>(jid, j). case j_reconcile_after_at j of None \<Rightarrow> False | Some t \<Rightarrow> t \<le> now) rows))"

section \<open>Disposition of stranded BYOK jobs\<close>

definition job_last_activity_at :: "job \<Rightarrow> timestamp option" where
  "job_last_activity_at j = (case j_updated_at j of Some t \<Rightarrow> Some t | None \<Rightarrow> j_created_at j)"

definition activity_after :: "job \<Rightarrow> timestamp \<Rightarrow> bool" where
  "activity_after j cutoff \<longleftrightarrow> (case job_last_activity_at j of None \<Rightarrow> True | Some t \<Rightarrow> t > cutoff)"

definition abandon_byok_finalization_job ::
    "string \<Rightarrow> string \<Rightarrow> int \<Rightarrow> int \<Rightarrow> duration \<Rightarrow> timestamp \<Rightarrow> fstore \<Rightarrow> byok_abandonment \<times> fstore" where
  "abandon_byok_finalization_job jid expected_status expected_dispatch_generation expected_lease_epoch
       abandoned_after now st =
     (let fenced = \<lparr>ba_status = ''fenced'', ba_conversation_outcome = ''none''\<rparr>;
          cutoff = now - abandoned_after in
      case fs_jobs st jid of
        None \<Rightarrow> (\<lparr>ba_status = ''missing'', ba_conversation_outcome = ''none''\<rparr>, st)
      | Some j \<Rightarrow>
          let status = job_status j in
          if \<not> truthy (j_requires_byok j) then (fenced, st)
          else if status \<notin> {''queued'', ''leased''} \<or> status \<noteq> expected_status then (fenced, st)
          else if job_generation j \<noteq> expected_dispatch_generation then (fenced, st)
          else if job_epoch j \<noteq> expected_lease_epoch then (fenced, st)
          else if status = ''leased'' \<and> lease_unexpired j now then (fenced, st)
          else if activity_after j cutoff then (fenced, st)
          else
            let st1 = record_projection_delta j
                        [(''queued'', if status = ''queued'' then - 1 else 0),
                         (''leased'', if status = ''leased'' then - 1 else 0),
                         (''dead_letter'', 1), (''failure'', 1)]
                        (set_job st jid
                          (j\<lparr>j_status := Some ''dead_letter'', j_updated_at := Some now,
                             j_terminal_at := Some now, j_terminal_outcome := Some ''failure'',
                             j_finalization_outcome := Some BYOK_ABANDONED_FAILURE_CODE,
                             j_lease_expires_at := Some now, j_reconcile_after_at := None,
                             j_fanout_status := Some ''fenced'', j_fanout_fenced_at := Some now,
                             j_last_failure_code := Some BYOK_ABANDONED_FAILURE_CODE\<rparr>));
                abandoned = (\<lambda>outcome. \<lparr>ba_status = ''abandoned'', ba_conversation_outcome = outcome\<rparr>)
            in (case bound_key j of
                  None \<Rightarrow> (abandoned ''missing'', st1)
                | Some (uid, conversation_id) \<Rightarrow>
                    (case fs_conversations st (uid, conversation_id) of
                       None \<Rightarrow> (abandoned ''missing'', st1)
                     | Some conv \<Rightarrow>
                         if \<not> owns_generation jid j conv then (abandoned ''unbound'', st1)
                         else if c_status conv \<noteq> Some ''processing'' \<or> truthy (c_discarded conv) then
                           (abandoned ''already_terminal'', st1)
                         else if truthy (c_deferred conv) then (abandoned ''deferred'', st1)
                         else (abandoned ''closed'',
                               set_conversation st1 uid conversation_id
                                 (conv\<lparr>c_status := Some ''completed'',
                                       c_finalization_status := Some ''dead_letter''\<rparr>)))))"

section \<open>The summary read from the projection\<close>

definition SUMMARY_COUNTERS :: "string list" where
  "SUMMARY_COUNTERS = [''accepted'', ''queued'', ''leased'', ''blocked_byok'', ''completed'', ''dead_letter'',
     ''success'', ''failure'', ''stale'']"

definition shard_value :: "fstore \<Rightarrow> int \<Rightarrow> string \<Rightarrow> int" where
  "shard_value st shard name =
     (case fs_shards st (projection_shard_id FINALIZATION_PROJECTION_GENERATION shard) of
        None \<Rightarrow> 0
      | Some d \<Rightarrow>
          if sd_generation d \<noteq> Some FINALIZATION_PROJECTION_GENERATION \<or> sd_shard d \<noteq> Some shard then 0
          else (case sd_counts d name of None \<Rightarrow> 0 | Some n \<Rightarrow> n))"

definition projection_total :: "fstore \<Rightarrow> string \<Rightarrow> int" where
  "projection_total st name =
     (\<Sum>shard \<leftarrow> [0 .. FINALIZATION_PROJECTION_SHARD_COUNT - 1]. shard_value st shard name)"

text \<open>The age of the oldest unfinished job, in microseconds: per status the row with the
  least creation instant.\<close>

definition oldest_age :: "(string \<times> job) list \<Rightarrow> timestamp \<Rightarrow> duration" where
  "oldest_age rows now =
     fold (\<lambda>status age.
        (case sort (List.map_filter (\<lambda>(jid, j). if j_status j = Some status then j_created_at j else None) rows) of
           [] \<Rightarrow> age
         | created_at # _ \<Rightarrow> max age (max 0 (now - created_at))))
       [''blocked_byok'', ''leased'', ''queued''] 0"

record job_summary =
  sm_accepted :: int
  sm_success :: int
  sm_failure :: int
  sm_stale :: int
  sm_nonterminal :: int
  sm_queued :: int
  sm_leased :: int
  sm_blocked_byok :: int
  sm_completed :: int
  sm_dead_letter :: int
  sm_terminal_unknown :: int
  sm_oldest_nonterminal_age :: duration

definition get_finalization_job_summary :: "(string \<times> job) list \<Rightarrow> timestamp \<Rightarrow> fstore \<Rightarrow> job_summary" where
  "get_finalization_job_summary rows now st =
     \<lparr>sm_accepted = projection_total st ''accepted'', sm_success = projection_total st ''success'',
      sm_failure = projection_total st ''failure'', sm_stale = projection_total st ''stale'',
      sm_nonterminal = projection_total st ''queued'' + projection_total st ''leased'',
      sm_queued = projection_total st ''queued'', sm_leased = projection_total st ''leased'',
      sm_blocked_byok = projection_total st ''blocked_byok'', sm_completed = projection_total st ''completed'',
      sm_dead_letter = projection_total st ''dead_letter'', sm_terminal_unknown = 0,
      sm_oldest_nonterminal_age = oldest_age rows now\<rparr>"

end
