(* ===== verification/Finalization_Machine.thy ===== *)
theory Finalization_Machine
  imports Finalization_Jobs
begin

text \<open>
  The abstract contract of the finalization outbox: one job seen as status, generation,
  epoch, fanout state and outcome, the moves it may make with the counters each move
  shifts, and a database of such views beside the sharded counters. What the program
  promises of a job (terminal states are final, epochs and generations only grow, the
  counters are the census of the jobs) is proved here, on this machine; the refinement
  theory shows that every transaction of the source is one of its steps.
\<close>

section \<open>Views and moves\<close>

record job_view =
  v_status :: string
  v_generation :: int
  v_epoch :: int
  v_byok :: bool
  v_fanout :: "string option"
  v_outcome :: "string option"
  v_shard :: "int option"
  v_armed :: bool

definition view_of :: "job \<Rightarrow> job_view" where
  "view_of j =
     \<lparr>v_status = job_status j, v_generation = job_generation j, v_epoch = job_epoch j,
      v_byok = truthy (j_requires_byok j), v_fanout = j_fanout_status j,
      v_outcome = j_terminal_outcome j, v_shard = map_option fst (projection_ref_for_job j),
      v_armed = (j_reconcile_after_at j \<noteq> None)\<rparr>"

type_synonym deltas = "(string \<times> int) list"

inductive view_step :: "job_view \<Rightarrow> deltas \<Rightarrow> job_view \<Rightarrow> bool" where
  resume: "v_status v = ''blocked_byok'' \<Longrightarrow> v_byok v \<Longrightarrow>
     view_step v [(''blocked_byok'', - 1), (''queued'', 1)] (v\<lparr>v_status := ''queued'', v_armed := False\<rparr>)"
| claim: "v_status v = ''queued'' \<Longrightarrow>
     view_step v [(''queued'', - 1), (''leased'', 1)]
       (v\<lparr>v_status := ''leased'', v_epoch := v_epoch v + 1, v_armed := \<not> v_byok v\<rparr>)"
| reclaim: "v_status v = ''leased'' \<Longrightarrow>
     view_step v [] (v\<lparr>v_epoch := v_epoch v + 1, v_armed := \<not> v_byok v\<rparr>)"
| complete: "v_status v = ''leased'' \<Longrightarrow> v_fanout v = Some ''completed'' \<Longrightarrow>
     view_step v [(''leased'', - 1), (''completed'', 1), (''success'', 1)]
       (v\<lparr>v_status := ''completed'', v_outcome := Some ''success'', v_armed := False\<rparr>)"
| fence: "v_status v = ''leased'' \<Longrightarrow> v_fanout v \<noteq> Some ''completed'' \<Longrightarrow>
     view_step v [(''leased'', - 1), (''completed'', 1), (''stale'', 1)]
       (v\<lparr>v_status := ''completed'', v_outcome := Some ''stale'', v_fanout := Some ''fenced'',
          v_armed := False\<rparr>)"
| fanout_claim: "v_status v = ''leased'' \<Longrightarrow> v_fanout v \<noteq> Some ''completed'' \<Longrightarrow>
     view_step v [] (v\<lparr>v_fanout := Some ''leased''\<rparr>)"
| fanout_done: "v_status v = ''leased'' \<Longrightarrow> v_fanout v \<noteq> Some ''completed'' \<Longrightarrow>
     view_step v [] (v\<lparr>v_fanout := Some ''completed''\<rparr>)"
| retry: "v_status v = ''leased'' \<Longrightarrow>
     view_step v [(''leased'', - 1), (''queued'', 1)]
       (v\<lparr>v_status := ''queued'', v_armed := \<not> v_byok v\<rparr>)"
| dead_letter: "v_status v = ''leased'' \<Longrightarrow>
     view_step v [(''leased'', - 1), (''dead_letter'', 1), (''failure'', 1)]
       (v\<lparr>v_status := ''dead_letter'', v_outcome := Some ''failure'', v_armed := False\<rparr>)"
| replay_leased: "v_status v = ''leased'' \<Longrightarrow> \<not> v_byok v \<Longrightarrow>
     view_step v [(''leased'', - 1), (''queued'', 1)]
       (v\<lparr>v_status := ''queued'', v_generation := int_or (Some (v_generation v + 1)) 1, v_armed := True\<rparr>)"
| replay_queued: "v_status v = ''queued'' \<Longrightarrow> \<not> v_byok v \<Longrightarrow>
     view_step v [] (v\<lparr>v_generation := int_or (Some (v_generation v + 1)) 1, v_armed := True\<rparr>)"
| abandon: "v_status v \<in> {''queued'', ''leased''} \<Longrightarrow> v_byok v \<Longrightarrow>
     view_step v [(v_status v, - 1), (''dead_letter'', 1), (''failure'', 1)]
       (v\<lparr>v_status := ''dead_letter'', v_outcome := Some ''failure'', v_fanout := Some ''fenced'',
          v_armed := False\<rparr>)"

inductive_cases view_stepE [elim]: "view_step v ds v'"

text \<open>Every move starts from a live status and keeps the identity of the job.\<close>

lemma view_step_live: "view_step v ds v' \<Longrightarrow> v_status v \<in> NONTERMINAL_JOB_STATUSES"
  by (auto simp: NONTERMINAL_JOB_STATUSES_def)

lemma view_step_not_terminal: "view_step v ds v' \<Longrightarrow> v_status v \<notin> TERMINAL_JOB_STATUSES"
  by (auto simp: TERMINAL_JOB_STATUSES_def)

lemma view_step_keeps: "view_step v ds v' \<Longrightarrow> v_shard v' = v_shard v \<and> v_byok v' = v_byok v"
  by auto

lemma view_step_epoch: "view_step v ds v' \<Longrightarrow> v_epoch v \<le> v_epoch v'"
  by auto

lemma view_step_generation: "view_step v ds v' \<Longrightarrow> v_generation v \<le> v_generation v'"
  by (auto simp: int_or_def)

lemma view_step_byok_unarmed: "view_step v ds v' \<Longrightarrow> (v_byok v \<longrightarrow> \<not> v_armed v) \<Longrightarrow> v_byok v' \<longrightarrow> \<not> v_armed v'"
  by auto

section \<open>What the counters count\<close>

definition counted :: "string \<Rightarrow> job_view \<Rightarrow> bool" where
  "counted name v \<longleftrightarrow>
     name = ''accepted''
     \<or> name \<in> {''queued'', ''leased'', ''blocked_byok'', ''completed'', ''dead_letter''} \<and> v_status v = name
     \<or> name \<in> {''success'', ''failure'', ''stale''} \<and> v_status v \<in> TERMINAL_JOB_STATUSES
        \<and> v_outcome v = Some name"

definition delta_of :: "deltas \<Rightarrow> string \<Rightarrow> int" where
  "delta_of ds name = (\<Sum>nd \<leftarrow> ds. if fst nd = name then snd nd else 0)"

lemma delta_of_simps [simp]:
  "delta_of [] name = 0"
  "delta_of (nd # ds) name = (if fst nd = name then snd nd else 0) + delta_of ds name"
  by (simp_all add: delta_of_def)

lemma delta_of_filter [simp]: "delta_of (filter (\<lambda>nd. snd nd \<noteq> 0) ds) name = delta_of ds name"
  by (induction ds) auto

lemma summary_counters_set:
  "set SUMMARY_COUNTERS = {''accepted'', ''queued'', ''leased'', ''blocked_byok'', ''completed'',
     ''dead_letter'', ''success'', ''failure'', ''stale''}"
  by (simp add: SUMMARY_COUNTERS_def)

text \<open>Each move shifts every counter by exactly the change in what it counts.\<close>

lemma view_step_delta_all:
  "view_step v ds v' \<Longrightarrow>
     \<forall>name \<in> set SUMMARY_COUNTERS. delta_of ds name = of_bool (counted name v') - of_bool (counted name v)"
proof (induction rule: view_step.induct)
  case (abandon v)
  then show ?case
    by (elim insertE emptyE) (simp_all add: SUMMARY_COUNTERS_def counted_def TERMINAL_JOB_STATUSES_def)
qed (simp_all add: SUMMARY_COUNTERS_def counted_def TERMINAL_JOB_STATUSES_def)

lemmas view_step_delta = view_step_delta_all [THEN bspec]

section \<open>The abstract database\<close>

type_synonym abs_db = "(string \<Rightarrow> job_view option) \<times> (int \<Rightarrow> string \<Rightarrow> int)"

definition bump :: "(int \<Rightarrow> string \<Rightarrow> int) \<Rightarrow> int option \<Rightarrow> deltas \<Rightarrow> (int \<Rightarrow> string \<Rightarrow> int)" where
  "bump c shard ds = (\<lambda>k name. c k name + (if shard = Some k then delta_of ds name else 0))"

lemma bump_Nil [simp]: "bump c s [] = c"
  by (simp add: bump_def fun_eq_iff)

lemma bump_None [simp]: "bump c None ds = c"
  by (simp add: bump_def)

text \<open>A job enters either admitted (queued, or blocked until keys are presented) or, for a
  receipt without a job, already completed and outside the projection.\<close>

definition admitted_view :: "job_view \<Rightarrow> bool" where
  "admitted_view v \<longleftrightarrow>
     v_status v = (if v_byok v then ''blocked_byok'' else ''queued'') \<and> v_epoch v = 0
     \<and> v_outcome v = None \<and> v_shard v \<noteq> None \<and> v_armed v = (\<not> v_byok v)"

definition receipt_view :: "job_view \<Rightarrow> bool" where
  "receipt_view v \<longleftrightarrow>
     v_status v = ''completed'' \<and> v_epoch v = 0 \<and> \<not> v_byok v \<and> v_outcome v = Some ''success''
     \<and> v_shard v = None \<and> \<not> v_armed v \<and> v_generation v = 1 \<and> v_fanout v = Some ''completed''"

inductive abs_step :: "abs_db \<Rightarrow> abs_db \<Rightarrow> bool" where
  stutter: "abs_step s s"
| admit: "m jid = None \<Longrightarrow> admitted_view v \<Longrightarrow> v_generation v = 1 \<Longrightarrow>
     abs_step (m, c) (m(jid \<mapsto> v), bump c (v_shard v) [(''accepted'', 1), (v_status v, 1)])"
| receipt: "m jid \<in> {None, Some (view_of empty_job)} \<Longrightarrow> receipt_view v \<Longrightarrow> abs_step (m, c) (m(jid \<mapsto> v), c)"
| move: "m jid = Some v \<Longrightarrow> view_step v ds v' \<Longrightarrow> abs_step (m, c) (m(jid \<mapsto> v'), bump c (v_shard v) ds)"

inductive_cases abs_stepE: "abs_step s t"

lemma empty_job_view:
  "view_of empty_job =
     \<lparr>v_status = '''', v_generation = 1, v_epoch = 0, v_byok = False, v_fanout = None, v_outcome = None,
      v_shard = None, v_armed = False\<rparr>"
  by (simp add: view_of_def empty_job_def projection_ref_for_job_def)

section \<open>The census invariant\<close>

definition view_ok :: "job_view \<Rightarrow> bool" where
  "view_ok v \<longleftrightarrow>
     (v_shard v \<noteq> None \<longrightarrow>
        v_status v \<in> NONTERMINAL_JOB_STATUSES
        \<or> v_status v \<in> TERMINAL_JOB_STATUSES \<and> v_outcome v \<in> {Some ''success'', Some ''failure'', Some ''stale''})"

definition census_inv :: "abs_db \<Rightarrow> bool" where
  "census_inv s \<longleftrightarrow>
     finite (dom (fst s)) \<and> (\<forall>jid v. fst s jid = Some v \<longrightarrow> view_ok v)
     \<and> (\<forall>k. \<forall>name \<in> set SUMMARY_COUNTERS.
          snd s k name = census (\<lambda>v. v_shard v = Some k \<and> counted name v) (fst s))"

lemma view_step_ok: "view_step v ds v' \<Longrightarrow> view_ok v'"
  by (erule view_step.cases)
    (auto simp: view_ok_def NONTERMINAL_JOB_STATUSES_def TERMINAL_JOB_STATUSES_def)

lemma admitted_ok: "admitted_view v \<Longrightarrow> view_ok v"
  by (auto simp: admitted_view_def view_ok_def NONTERMINAL_JOB_STATUSES_def)

lemma admitted_delta_all:
  assumes "admitted_view v"
  shows "\<forall>name \<in> set SUMMARY_COUNTERS.
           delta_of [(''accepted'', 1), (v_status v, 1)] name = of_bool (counted name v)"
proof (cases "v_byok v")
  case True
  then have "v_status v = ''blocked_byok''" using assms by (simp add: admitted_view_def)
  then show ?thesis by (simp add: SUMMARY_COUNTERS_def counted_def TERMINAL_JOB_STATUSES_def)
next
  case False
  then have "v_status v = ''queued''" using assms by (simp add: admitted_view_def)
  then show ?thesis by (simp add: SUMMARY_COUNTERS_def counted_def TERMINAL_JOB_STATUSES_def)
qed

lemmas admitted_delta = admitted_delta_all [THEN bspec]

lemma census_inv_move:
  assumes inv: "census_inv (m, c)" and m: "m jid = Some v" and st: "view_step v ds v'"
  shows "census_inv (m(jid \<mapsto> v'), bump c (v_shard v) ds)"
proof -
  have "bump c (v_shard v) ds k name = census (\<lambda>v. v_shard v = Some k \<and> counted name v) (m(jid \<mapsto> v'))"
    if "name \<in> set SUMMARY_COUNTERS" for k name
    using inv m that view_step_keeps [OF st] view_step_delta [OF st that]
    by (auto simp: census_inv_def bump_def census_update [where u = v])
  then show ?thesis
    using inv view_step_ok [OF st] by (auto simp: census_inv_def)
qed

lemma census_inv_admit:
  assumes "census_inv (m, c)" "m jid = None" "admitted_view v"
  shows "census_inv (m(jid \<mapsto> v), bump c (v_shard v) [(''accepted'', 1), (v_status v, 1)])"
proof -
  have "bump c (v_shard v) [(''accepted'', 1), (v_status v, 1)] k name =
        census (\<lambda>v. v_shard v = Some k \<and> counted name v) (m(jid \<mapsto> v))"
    if "name \<in> set SUMMARY_COUNTERS" for k name
    using assms(1,2) that admitted_delta [OF assms(3) that]
    by (auto simp: census_inv_def bump_def census_insert)
  then show ?thesis
    using assms admitted_ok by (auto simp: census_inv_def)
qed

lemma census_inv_receipt:
  assumes "census_inv (m, c)" "m jid \<in> {None, Some (view_of empty_job)}" "receipt_view v"
  shows "census_inv (m(jid \<mapsto> v), c)"
proof -
  have sh: "v_shard v = None" "v_shard (view_of empty_job) = None"
    using assms(3) by (simp_all add: receipt_view_def empty_job_view)
  have "census (\<lambda>v. v_shard v = Some k \<and> counted name v) (m(jid \<mapsto> v)) =
        census (\<lambda>v. v_shard v = Some k \<and> counted name v) m" for k name
    using assms(1,2) sh
    by (auto simp: census_inv_def census_insert census_update [where u = "view_of empty_job"])
  then show ?thesis
    using assms(1) sh by (auto simp: census_inv_def view_ok_def)
qed

lemma census_inv_step: "abs_step s t \<Longrightarrow> census_inv s \<Longrightarrow> census_inv t"
  by (erule abs_step.cases)
    (auto intro: census_inv_move census_inv_admit census_inv_receipt)

interpretation abs_census: kept_invariant abs_step census_inv
  by unfold_locales (rule census_inv_step)

lemma census_inv_init: "census_inv (Map.empty, \<lambda>_ _. 0)"
  by (simp add: census_inv_def)

section \<open>Terminal views, epochs and generations\<close>

interpretation abs_frozen: frozen_when_terminal abs_step "\<lambda>s. fst s" "\<lambda>v. v_status v \<in> TERMINAL_JOB_STATUSES"
proof unfold_locales
  fix s t k x
  assume "abs_step s t" "fst s k = Some x" "v_status x \<in> TERMINAL_JOB_STATUSES"
  then show "fst t k = Some x"
    by (cases rule: abs_step.cases)
      (auto simp: empty_job_view TERMINAL_JOB_STATUSES_def dest: view_step_not_terminal)
qed

definition abs_epoch :: "abs_db \<Rightarrow> string \<Rightarrow> int" where
  "abs_epoch s jid = (case fst s jid of None \<Rightarrow> 0 | Some v \<Rightarrow> v_epoch v)"

definition abs_generation :: "abs_db \<Rightarrow> string \<Rightarrow> int" where
  "abs_generation s jid = (case fst s jid of None \<Rightarrow> 1 | Some v \<Rightarrow> v_generation v)"

interpretation abs_epochs: growing_counter abs_step abs_epoch
proof unfold_locales
  fix s t k
  assume "abs_step s t"
  then show "abs_epoch s k \<le> abs_epoch t k"
    by (cases rule: abs_step.cases)
      (auto simp: abs_epoch_def admitted_view_def receipt_view_def empty_job_view
         dest: view_step_epoch split: option.splits)
qed

interpretation abs_generations: growing_counter abs_step abs_generation
proof unfold_locales
  fix s t k
  assume "abs_step s t"
  then show "abs_generation s k \<le> abs_generation t k"
    by (cases rule: abs_step.cases)
      (auto simp: abs_generation_def receipt_view_def empty_job_view
         dest: view_step_generation split: option.splits)
qed

section \<open>Bring-your-own-key jobs and delivered fanout\<close>

text \<open>A job that needs the user's own keys is never armed for the reconciler.\<close>

definition byok_unarmed :: "abs_db \<Rightarrow> bool" where
  "byok_unarmed s \<longleftrightarrow> (\<forall>jid v. fst s jid = Some v \<longrightarrow> v_byok v \<longrightarrow> \<not> v_armed v)"

interpretation abs_byok: kept_invariant abs_step byok_unarmed
proof unfold_locales
  fix s t
  assume "abs_step s t" "byok_unarmed s"
  then show "byok_unarmed t"
    by (cases rule: abs_step.cases)
      (auto simp: byok_unarmed_def admitted_view_def receipt_view_def dest: view_step_byok_unarmed)
qed

lemma abs_step_non_byok:
  assumes "abs_step s t" "fst s jid = Some v" "\<not> v_byok v"
  shows "\<exists>v'. fst t jid = Some v' \<and> \<not> v_byok v'"
  using assms by (cases rule: abs_step.cases) (auto simp: receipt_view_def dest: view_step_keeps)

text \<open>Success is recorded only over a completed fanout, staleness only over a fenced one.\<close>

definition outcome_matches_fanout :: "abs_db \<Rightarrow> bool" where
  "outcome_matches_fanout s \<longleftrightarrow>
     (\<forall>jid v. fst s jid = Some v \<longrightarrow>
        (v_outcome v = Some ''success'' \<longrightarrow> v_status v = ''completed'' \<and> v_fanout v = Some ''completed'') \<and>
        (v_outcome v = Some ''stale'' \<longrightarrow> v_status v = ''completed'' \<and> v_fanout v = Some ''fenced'') \<and>
        (v_outcome v = Some ''failure'' \<longrightarrow> v_status v = ''dead_letter''))"

lemma view_step_outcome:
  assumes "view_step v ds v'"
    and "v_outcome v = Some ''success'' \<longrightarrow> v_status v = ''completed''"
    and "v_outcome v = Some ''stale'' \<longrightarrow> v_status v = ''completed''"
    and "v_outcome v = Some ''failure'' \<longrightarrow> v_status v = ''dead_letter''"
  shows "(v_outcome v' = Some ''success'' \<longrightarrow> v_status v' = ''completed'' \<and> v_fanout v' = Some ''completed'') \<and>
    (v_outcome v' = Some ''stale'' \<longrightarrow> v_status v' = ''completed'' \<and> v_fanout v' = Some ''fenced'') \<and>
    (v_outcome v' = Some ''failure'' \<longrightarrow> v_status v' = ''dead_letter'')"
  using assms by (cases rule: view_step.cases) auto

interpretation abs_outcomes: kept_invariant abs_step outcome_matches_fanout
proof unfold_locales
  fix s t
  assume "abs_step s t" and inv: "outcome_matches_fanout s"
  then show "outcome_matches_fanout t"
  proof (cases rule: abs_step.cases)
    case (move m jid v ds v' c)
    then have "m jid = Some v" "view_step v ds v'" by simp_all
    then show ?thesis
      using inv move view_step_outcome [of v ds v'] by (simp add: outcome_matches_fanout_def)
  qed (auto simp: outcome_matches_fanout_def admitted_view_def receipt_view_def)
qed

text \<open>A delivered fanout is never opened again.\<close>

definition fanout_closed :: "job_view \<Rightarrow> bool" where
  "fanout_closed v \<longleftrightarrow> v_fanout v = Some ''completed'' \<or> v_status v \<in> TERMINAL_JOB_STATUSES"

lemma view_step_fanout_closed: "view_step v ds v' \<Longrightarrow> fanout_closed v \<Longrightarrow> fanout_closed v'"
  by (cases rule: view_step.cases) (auto simp: fanout_closed_def TERMINAL_JOB_STATUSES_def)

lemma receipt_fanout_closed: "receipt_view v \<Longrightarrow> fanout_closed v"
  by (simp add: receipt_view_def fanout_closed_def)

definition fanout_closed_at :: "string \<Rightarrow> abs_db \<Rightarrow> bool" where
  "fanout_closed_at jid s \<longleftrightarrow> (\<exists>v. fst s jid = Some v \<and> fanout_closed v)"

interpretation abs_fanout: kept_invariant abs_step "fanout_closed_at jid" for jid
proof unfold_locales
  fix s t
  assume "abs_step s t" "fanout_closed_at jid s"
  then show "fanout_closed_at jid t"
    by (cases rule: abs_step.cases)
      (auto simp: fanout_closed_at_def dest: view_step_fanout_closed receipt_fanout_closed)
qed

end
