(* ===== verification/Finalization_Refinement.thy ===== *)
theory Finalization_Refinement
  imports Finalization_Machine
begin

text \<open>
  Every transaction of the outbox is a step of the abstract machine. The world is the
  database together with the job ids a reconciler has read from its replay query and not
  yet replayed, so that a replay may act on a row that has changed since it was selected.
  Writes of the other components, which touch neither jobs nor shards, are steps too.
\<close>

section \<open>Shard documents as counters\<close>

definition count_or_zero :: "int option \<Rightarrow> int" where
  "count_or_zero x = (case x of None \<Rightarrow> 0 | Some n \<Rightarrow> n)"

lemma count_or_zero_None [simp]: "count_or_zero None = 0"
  by (simp add: count_or_zero_def)

lemma count_fold_increment:
  "count_or_zero (fold increment ds counts name) = count_or_zero (counts name) + delta_of ds name"
  by (induction ds arbitrary: counts) (auto simp: increment_def count_or_zero_def split: option.splits)

lemma py_int_show_02d: "py_int (show_02d i) = Some i"
proof (cases "length (show_int i) < 2")
  case False
  then show ?thesis by (simp add: show_02d_def Let_def py_int_show_int)
next
  case True
  then have pos: "\<not> i < 0"
    using show_nat_digits [of "nat (- i)"] by (cases "show_nat (nat (- i))") (auto simp: show_int_def)
  obtain c cs where s: "show_nat (nat i) = c # cs"
    using show_nat_digits by (metis neq_Nil_conv)
  have digits: "\<forall>x \<in> set (c # cs). digit_of x \<noteq> None"
    using show_nat_digits [of "nat i"] s by simp
  have zero: "digit_of CHR ''0'' = Some 0" by (simp add: digit_of_def)
  have "strip (CHR ''0'' # c # cs) = CHR ''0'' # c # cs"
  proof (rule strip_id)
    show "\<not> is_space (last (CHR ''0'' # c # cs))"
      using digits digit_not_blank_or_sign last_in_set [of "c # cs"] by auto
  qed (simp_all add: is_space_def)
  moreover have "read_digits 0 False (CHR ''0'' # c # cs) = Some (nat i)"
    using read_show_nat [of "nat i"] s digits zero by (auto split: option.splits)
  moreover have "show_02d i = CHR ''0'' # c # cs"
    using True pos s by (simp add: show_02d_def show_int_def)
  ultimately show ?thesis
    using pos by (simp only: py_int_def) simp
qed

lemma projection_shard_id_inject [simp]: "projection_shard_id g k = projection_shard_id g l \<longleftrightarrow> k = l"
  using py_int_show_02d by (auto simp: projection_shard_id_def) (metis option.inject)

text \<open>The writer is the only producer of shard documents: they carry their own name.\<close>

definition shards_wf :: "fstore \<Rightarrow> bool" where
  "shards_wf st \<longleftrightarrow>
     (\<forall>k d. fs_shards st (projection_shard_id FINALIZATION_PROJECTION_GENERATION k) = Some d \<longrightarrow>
        sd_generation d = Some FINALIZATION_PROJECTION_GENERATION \<and> sd_shard d = Some k)"

lemma shard_value_eq:
  "shards_wf st \<Longrightarrow>
     shard_value st k name =
       count_or_zero (Option.bind (fs_shards st (projection_shard_id FINALIZATION_PROJECTION_GENERATION k))
         (\<lambda>d. sd_counts d name))"
  by (auto simp: shard_value_def shards_wf_def count_or_zero_def split: option.splits)

lemma projection_ref_SomeD:
  "projection_ref_for_job j = Some (k, sid) \<Longrightarrow>
     sid = projection_shard_id FINALIZATION_PROJECTION_GENERATION k \<and> 0 \<le> k \<and> k < 16"
  by (auto simp: projection_ref_for_job_def FINALIZATION_PROJECTION_SHARD_COUNT_def
      split: option.splits if_splits)

lemma delta_frame [simp]:
  "fs_jobs (record_projection_delta j ds st) = fs_jobs st"
  "fs_conversations (record_projection_delta j ds st) = fs_conversations st"
  "fs_sessions (record_projection_delta j ds st) = fs_sessions st"
  "fs_cursors (record_projection_delta j ds st) = fs_cursors st"
  by (auto simp: record_projection_delta_def Let_def split: option.splits)

lemma delta_Nil [simp]: "record_projection_delta j [] st = st"
  by (auto simp: record_projection_delta_def split: option.splits)

lemma delta_shards_set_job:
  "fs_shards (record_projection_delta j ds (set_job st jid j')) = fs_shards (record_projection_delta j ds st)"
  by (auto simp: record_projection_delta_def Let_def split: option.splits)

lemma delta_shards_wf: "shards_wf st \<Longrightarrow> shards_wf (record_projection_delta j ds st)"
  by (auto simp: shards_wf_def record_projection_delta_def merge_increments_def Let_def
      dest!: projection_ref_SomeD split: option.splits)

lemma shard_value_delta:
  assumes wf: "shards_wf st"
  shows "shard_value (record_projection_delta j ds st) =
           bump (shard_value st) (map_option fst (projection_ref_for_job j)) ds"
proof (cases "projection_ref_for_job j")
  case None
  then show ?thesis by (simp add: record_projection_delta_def)
next
  case (Some ksid)
  obtain k sid where ks: "ksid = (k, sid)" by (cases ksid)
  then have sid: "sid = projection_shard_id FINALIZATION_PROJECTION_GENERATION k"
    using Some projection_ref_SomeD by simp
  let ?ds = "filter (\<lambda>nd. snd nd \<noteq> 0) ds"
  show ?thesis
  proof (cases "?ds = []")
    case True
    then have "delta_of ds name = 0" for name
      using delta_of_filter [of ds name] by simp
    then show ?thesis
      using True Some ks by (simp add: record_projection_delta_def bump_def fun_eq_iff)
  next
    case False
    then have sh: "fs_shards (record_projection_delta j ds st) =
                     (fs_shards st)(sid \<mapsto> merge_increments (fs_shards st sid) k ?ds)"
      using Some ks by (simp add: record_projection_delta_def Let_def)
    show ?thesis
    proof (intro ext)
      fix l name
      have "count_or_zero (sd_counts (merge_increments (fs_shards st sid) k ?ds) name) =
              count_or_zero (Option.bind (fs_shards st sid) (\<lambda>d. sd_counts d name)) + delta_of ds name"
        by (cases "fs_shards st sid")
          (simp_all add: merge_increments_def count_fold_increment)
      then show "shard_value (record_projection_delta j ds st) l name =
              bump (shard_value st) (map_option fst (projection_ref_for_job j)) ds l name"
        using Some ks sid
        by (cases "k = l")
          (simp_all add: shard_value_eq [OF wf] shard_value_eq [OF delta_shards_wf [OF wf]] bump_def sh)
    qed
  qed
qed

section \<open>Abstraction and the shape of a simulated step\<close>

definition abs_of :: "fstore \<Rightarrow> abs_db" where
  "abs_of st = (\<lambda>jid. map_option view_of (fs_jobs st jid), shard_value st)"

text \<open>\<open>sim st st'\<close>: from well-formed shards, the change is a step of the abstract machine.\<close>

definition sim :: "fstore \<Rightarrow> fstore \<Rightarrow> bool" where
  "sim st st' \<longleftrightarrow> (shards_wf st \<longrightarrow> shards_wf st' \<and> abs_step (abs_of st) (abs_of st'))"

lemma shard_value_cong: "fs_shards st = fs_shards st' \<Longrightarrow> shard_value st = shard_value st'"
  by (simp add: shard_value_def fun_eq_iff)

lemma shards_wf_cong: "fs_shards st = fs_shards st' \<Longrightarrow> shards_wf st = shards_wf st'"
  by (simp add: shards_wf_def)

lemma abs_of_upd:
  "fs_jobs st' = (fs_jobs st)(jid \<mapsto> j') \<Longrightarrow>
     abs_of st' = ((fst (abs_of st))(jid \<mapsto> view_of j'), shard_value st')"
  by (auto simp: abs_of_def fun_eq_iff)

lemma sim_stutter:
  assumes "\<And>jid. map_option view_of (fs_jobs st' jid) = map_option view_of (fs_jobs st jid)"
    and "fs_shards st' = fs_shards st"
  shows "sim st st'"
proof -
  have "abs_of st' = abs_of st"
    using assms shard_value_cong [OF assms(2)] by (auto simp: abs_of_def fun_eq_iff)
  then show ?thesis
    using shards_wf_cong [OF assms(2)] by (simp add: sim_def abs_step.stutter)
qed

lemma sim_refl [simp, intro]: "sim st st"
  by (rule sim_stutter) simp_all

lemma sim_move:
  assumes "fs_jobs st jid = Some j" "view_step (view_of j) ds (view_of j')"
    and "fs_jobs st' = (fs_jobs st)(jid \<mapsto> j')" "fs_shards st' = fs_shards (record_projection_delta j ds st)"
  shows "sim st st'"
  unfolding sim_def
proof
  assume wf: "shards_wf st"
  have sv: "shard_value st' = bump (shard_value st) (v_shard (view_of j)) ds"
    using shard_value_cong [OF assms(4)] shard_value_delta [OF wf] by (simp add: view_of_def)
  have "abs_step (fst (abs_of st), shard_value st)
          ((fst (abs_of st))(jid \<mapsto> view_of j'), bump (shard_value st) (v_shard (view_of j)) ds)"
    by (rule abs_step.move [OF _ assms(2)]) (simp add: abs_of_def assms(1))
  then show "shards_wf st' \<and> abs_step (abs_of st) (abs_of st')"
    using shards_wf_cong [OF assms(4)] delta_shards_wf [OF wf] sv
    by (simp add: abs_of_upd [OF assms(3)]) (simp add: abs_of_def)
qed

lemma sim_admit:
  assumes "fs_jobs st jid = None" "admitted_view (view_of j)" "v_generation (view_of j) = 1"
    and "fs_jobs st' = (fs_jobs st)(jid \<mapsto> j)"
    and "fs_shards st' =
           fs_shards (record_projection_delta j [(''accepted'', 1), (v_status (view_of j), 1)] st)"
  shows "sim st st'"
  unfolding sim_def
proof
  assume wf: "shards_wf st"
  let ?ds = "[(''accepted'', 1), (v_status (view_of j), 1)]"
  have sv: "shard_value st' = bump (shard_value st) (v_shard (view_of j)) ?ds"
    using shard_value_cong [OF assms(5)] shard_value_delta [OF wf, of j ?ds] by (simp add: view_of_def)
  have "abs_step (fst (abs_of st), shard_value st)
          ((fst (abs_of st))(jid \<mapsto> view_of j), bump (shard_value st) (v_shard (view_of j)) ?ds)"
    by (rule abs_step.admit) (use assms(1-3) in \<open>simp_all add: abs_of_def\<close>)
  then show "shards_wf st' \<and> abs_step (abs_of st) (abs_of st')"
    using shards_wf_cong [OF assms(5)] delta_shards_wf [OF wf] sv
    by (simp add: abs_of_upd [OF assms(4)]) (simp add: abs_of_def)
qed

lemma sim_receipt:
  assumes "fs_jobs st jid \<in> {None, Some empty_job}" "receipt_view (view_of j)"
    and "fs_jobs st' = (fs_jobs st)(jid \<mapsto> j)" "fs_shards st' = fs_shards st"
  shows "sim st st'"
proof -
  have "abs_step (fst (abs_of st), shard_value st) ((fst (abs_of st))(jid \<mapsto> view_of j), shard_value st)"
    by (rule abs_step.receipt) (use assms(1,2) in \<open>auto simp: abs_of_def\<close>)
  then show ?thesis
    using shards_wf_cong [OF assms(4)] shard_value_cong [OF assms(4)]
    by (simp add: sim_def abs_of_upd [OF assms(3)]) (simp add: abs_of_def)
qed

section \<open>Each transaction is a step\<close>

text \<open>The view of an updated job, field by field.\<close>

lemmas view_unfold = view_of_def projection_ref_for_job_def

lemma lease_status: "is_current_lease j g e \<Longrightarrow> v_status (view_of j) = ''leased'' \<and> v_epoch (view_of j) = e"
  by (simp add: is_current_lease_def view_of_def)

lemma new_job_view:
  fixes env uid cid rv byok conv force key now
  defines "v \<equiv> view_of (new_job env uid cid rv byok conv force key now)"
  shows "admitted_view v \<and> v_generation v = 1 \<and> v_status v = (if byok then ''blocked_byok'' else ''queued'')"
  by (simp add: v_def admitted_view_def view_unfold new_job_def empty_job_def projection_shard_def
      FINALIZATION_PROJECTION_SHARD_COUNT_def)

lemma admit_sim:
  assumes "fs_jobs st jid = None" "j = new_job env uid cid rv byok conv force key now"
    and "status = (if byok then ''blocked_byok'' else ''queued'')"
  shows "sim st (set_conversation
           (record_projection_delta j [(''accepted'', 1), (status, 1)] (set_job st jid j)) u k c)"
  using assms new_job_view [of env uid cid rv byok conv force key now]
  by (intro sim_admit [of _ jid j]) (simp_all add: delta_shards_set_job)

lemma create_sim:
  "sim st (snd (create_or_get_finalization_intent env codec uid cid byok admit force extra now st))"
proof -
  have sc: "sim st (set_conversation st u k c)" for u k c
    by (rule sim_stutter) simp_all
  show ?thesis
    by (simp add: create_or_get_finalization_intent_def Let_def split: option.split)
      (auto intro: admit_sim sc)
qed

lemma resume_sim: "sim st (snd (resume_blocked_byok_job_for_live_session jid now st))"
proof (cases "fs_jobs st jid")
  case (Some j)
  let ?j' = "j\<lparr>j_status := Some ''queued'', j_updated_at := Some now, j_last_byok_resume_at := Some now,
               j_reconcile_after_at := None\<rparr>"
  have "view_of ?j' = (view_of j)\<lparr>v_status := ''queued'', v_armed := False\<rparr>"
    by (simp add: view_unfold)
  moreover have "view_step (view_of j) [(''blocked_byok'', - 1), (''queued'', 1)]
                   ((view_of j)\<lparr>v_status := ''queued'', v_armed := False\<rparr>)"
    if "j_status j = Some ''blocked_byok''" "truthy (j_requires_byok j)"
    using that by (intro view_step.resume) (simp_all add: view_of_def)
  ultimately show ?thesis
    using Some
    by (auto simp: resume_blocked_byok_job_for_live_session_def Let_def delta_shards_set_job
        intro!: sim_move [where j = j and j' = ?j'])
qed (simp add: resume_blocked_byok_job_for_live_session_def)

lemma claim_sim: "sim st (snd (claim_finalization_job jid g allow ls eu ec now st))"
proof (cases "fs_jobs st jid")
  case (Some j)
  let ?j' = "j\<lparr>j_status := Some ''leased'', j_leased_at := Some now,
               j_lease_expires_at := Some (now + seconds ls), j_lease_epoch := Some (job_epoch j + 1),
               j_reconcile_after_at := (if truthy (j_requires_byok j) then None else Some (now + seconds ls)),
               j_updated_at := Some now, j_attempt_count := Some (int_or (j_attempt_count j) 0 + 1)\<rparr>"
  have view: "view_of ?j' = (view_of j)\<lparr>v_status := ''leased'', v_epoch := v_epoch (view_of j) + 1,
                 v_armed := \<not> v_byok (view_of j)\<rparr>"
    by (simp add: view_unfold int_or_0)
  have q: "sim st (record_projection_delta j [(''queued'', - 1), (''leased'', 1)] (set_job st jid ?j'))"
    if "job_status j = ''queued''"
    using that view_step.claim [of "view_of j"] Some view
    by (intro sim_move [where j = j and j' = ?j']) (simp_all add: delta_shards_set_job view_of_def)
  have l: "sim st (set_job st jid ?j')" if "job_status j = ''leased''"
  proof (rule sim_move [where j = j and j' = ?j' and ds = "[]"])
    have "(view_of j)\<lparr>v_status := ''leased''\<rparr> = view_of j"
      using that by (simp add: view_of_def)
    then have "view_of ?j' = (view_of j)\<lparr>v_epoch := v_epoch (view_of j) + 1, v_armed := \<not> v_byok (view_of j)\<rparr>"
      using view by (cases "view_of j") simp
    then show "view_step (view_of j) [] (view_of ?j')"
      using that view_step.reclaim [of "view_of j"] by (simp add: view_of_def)
  qed (use Some in simp_all)
  show ?thesis
    using Some q l by (simp add: claim_finalization_job_def Let_def split del: if_split cong: if_cong) auto
qed (simp add: claim_finalization_job_def)

lemma completed_sim: "sim st (snd (mark_finalization_completed jid g e now st))"
proof (cases "fs_jobs st jid")
  case (Some j)
  let ?j' = "j\<lparr>j_status := Some ''completed'', j_completed_at := Some now, j_terminal_outcome := Some ''success'',
               j_updated_at := Some now, j_lease_expires_at := Some now, j_reconcile_after_at := None,
               j_last_failure_code := None\<rparr>"
  have "view_of ?j' = (view_of j)\<lparr>v_status := ''completed'', v_outcome := Some ''success'', v_armed := False\<rparr>"
    by (simp add: view_unfold)
  then have "sim st (record_projection_delta j [(''leased'', - 1), (''completed'', 1), (''success'', 1)]
                      (set_job st jid ?j'))"
    if "is_current_lease j g e" "j_fanout_status j = Some ''completed''"
    using that Some lease_status [OF that(1)] view_step.complete [of "view_of j"]
    by (intro sim_move [where j = j and j' = ?j']) (simp_all add: delta_shards_set_job view_of_def)
  then show ?thesis
    using Some by (simp add: mark_finalization_completed_def)
qed (simp add: mark_finalization_completed_def)

lemma fence_sim:
  assumes "fs_jobs st jid = Some j" "is_current_lease j g e" "j_fanout_status j \<noteq> Some ''completed''"
  shows "sim st (fence_job jid j now st)"
proof -
  have "view_of (fenced_finalization_update now j) =
          (view_of j)\<lparr>v_status := ''completed'', v_outcome := Some ''stale'', v_fanout := Some ''fenced'',
            v_armed := False\<rparr>"
    by (simp add: view_unfold fenced_finalization_update_def)
  then show ?thesis
    using assms lease_status [OF assms(2)] view_step.fence [of "view_of j"]
    by (intro sim_move [where j = j and j' = "fenced_finalization_update now j"])
      (simp_all add: fence_job_def delta_shards_set_job view_of_def)
qed

lemma fenced_sim: "sim st (snd (mark_finalization_fenced jid g e now st))"
  by (auto simp: mark_finalization_fenced_def intro!: fence_sim split: option.splits)

lemma fanout_claim_sim: "sim st (snd (claim_finalization_fanout jid g e now st))"
proof (cases "fs_jobs st jid")
  case (Some j)
  let ?j' = "j\<lparr>j_fanout_key := Some (fanout_key_of j), j_fanout_status := Some ''leased'',
               j_fanout_lease_epoch := Some e, j_fanout_started_at := Some now, j_updated_at := Some now\<rparr>"
  have "view_of ?j' = (view_of j)\<lparr>v_fanout := Some ''leased''\<rparr>"
    by (simp add: view_unfold)
  then have "sim st (set_job st jid ?j')"
    if "is_current_lease j g e" "j_fanout_status j \<noteq> Some ''completed''"
    using that Some lease_status [OF that(1)] view_step.fanout_claim [of "view_of j"]
    by (intro sim_move [where j = j and j' = ?j' and ds = "[]"]) (simp_all add: view_of_def)
  then show ?thesis
    using Some fence_sim [OF Some, of g e]
    by (auto simp: claim_finalization_fanout_def Let_def split: option.splits)
qed (simp add: claim_finalization_fanout_def)

lemma fanout_completed_sim: "sim st (snd (mark_finalization_fanout_completed jid g e now st))"
proof (cases "fs_jobs st jid")
  case (Some j)
  let ?j' = "j\<lparr>j_fanout_status := Some ''completed'', j_fanout_completed_at := Some now, j_updated_at := Some now\<rparr>"
  have "view_of ?j' = (view_of j)\<lparr>v_fanout := Some ''completed''\<rparr>"
    by (simp add: view_unfold)
  then have "sim st (set_job st jid ?j')"
    if "is_current_lease j g e" "j_fanout_status j \<noteq> Some ''completed''"
    using that Some lease_status [OF that(1)] view_step.fanout_done [of "view_of j"]
    by (intro sim_move [where j = j and j' = ?j' and ds = "[]"]) (simp_all add: view_of_def)
  then show ?thesis
    using Some by (simp add: mark_finalization_fanout_completed_def)
qed (simp add: mark_finalization_fanout_completed_def)

lemma retryable_sim: "sim st (snd (mark_finalization_retryable env jid g e code now st))"
proof (cases "fs_jobs st jid")
  case (Some j)
  let ?j' = "j\<lparr>j_status := Some ''queued'', j_updated_at := Some now, j_lease_expires_at := Some now,
               j_reconcile_after_at := (if truthy (j_requires_byok j) then None
                                        else Some (now + get_finalization_reconcile_stale_after env)),
               j_last_failure_code := Some code\<rparr>"
  have "view_of ?j' = (view_of j)\<lparr>v_status := ''queued'', v_armed := \<not> v_byok (view_of j)\<rparr>"
    by (simp add: view_unfold)
  then have "sim st (record_projection_delta j [(''leased'', - 1), (''queued'', 1)] (set_job st jid ?j'))"
    if "is_current_lease j g e"
    using that Some lease_status [OF that(1)] view_step.retry [of "view_of j"]
    by (intro sim_move [where j = j and j' = ?j']) (simp_all add: delta_shards_set_job view_of_def)
  then show ?thesis
    using Some by (simp add: mark_finalization_retryable_def)
qed (simp add: mark_finalization_retryable_def)

lemma sim_set_conversation: "sim st st' \<Longrightarrow> sim st (set_conversation st' u k c)"
  using shards_wf_cong [of "set_conversation st' u k c" st'] shard_value_cong [of "set_conversation st' u k c" st']
  by (simp add: sim_def abs_of_def)

lemma dead_letter_sim: "sim st (snd (mark_finalization_dead_letter jid g e retries now st))"
proof (cases "fs_jobs st jid")
  case (Some j)
  let ?j' = "j\<lparr>j_status := Some ''dead_letter'', j_updated_at := Some now, j_terminal_at := Some now,
               j_terminal_outcome := Some ''failure'', j_lease_expires_at := Some now,
               j_reconcile_after_at := None, j_task_retry_count := Some retries,
               j_last_failure_code := Some ''final_attempt_failed''\<rparr>"
  have "view_of ?j' = (view_of j)\<lparr>v_status := ''dead_letter'', v_outcome := Some ''failure'', v_armed := False\<rparr>"
    by (simp add: view_unfold)
  then have "sim st (record_projection_delta j [(''leased'', - 1), (''dead_letter'', 1), (''failure'', 1)]
                      (set_job st jid ?j'))"
    if "is_current_lease j g e"
    using that Some lease_status [OF that(1)] view_step.dead_letter [of "view_of j"]
    by (intro sim_move [where j = j and j' = ?j']) (simp_all add: delta_shards_set_job view_of_def)
  then show ?thesis
    using Some
    by (auto simp: mark_finalization_dead_letter_def Let_def intro: sim_set_conversation
        split: option.splits prod.splits)
qed (simp add: mark_finalization_dead_letter_def)

lemma view_of_receipt [simp]: "view_of (j\<lparr>j_receipt := r\<rparr>) = view_of j"
  by (simp add: view_unfold)

lemma sim_same_view: "fs_jobs st jid = Some j \<Longrightarrow> view_of j' = view_of j \<Longrightarrow> sim st (set_job st jid j')"
  by (rule sim_stutter) auto

lemma receipt_only_view: "receipt_view (view_of (receipt_only_job uid cid rv r now))"
  by (simp add: receipt_view_def receipt_only_job_def empty_job_def view_unfold)

lemma receipt_sim: "sim st (snd (record_meeting_receipt uid cid fid eligible reason d s now st))"
proof -
  have new: "sim st (set_job st jid (receipt_only_job uid cid rv r now))"
    if "fs_jobs st jid \<in> {None, Some empty_job}" for jid rv r
    using that receipt_only_view by (intro sim_receipt [where jid = jid]) auto
  show ?thesis
    by (auto simp: record_meeting_receipt_def Let_def intro!: sim_set_conversation intro: new sim_same_view
        split: option.split)
qed

lemma intent_persisted_sim: "sim st (snd (mark_meeting_receipt_intent_persisted jid iid now st))"
  by (auto simp: mark_meeting_receipt_intent_persisted_def intro!: sim_same_view split: option.splits)

lemma materialized_sim: "sim st (snd (mark_meeting_receipt_materialized uid cid iid t st))"
  by (auto simp: mark_meeting_receipt_materialized_def intro!: sim_same_view split: option.splits)

lemma replay_sim:
  assumes byok: "\<And>j. fs_jobs st jid = Some j \<Longrightarrow> \<not> truthy (j_requires_byok j)"
  shows "sim st (snd (claim_finalization_replay jid stale now st))"
proof (cases "fs_jobs st jid")
  case (Some j)
  let ?j' = "j\<lparr>j_status := Some ''queued'', j_dispatch_generation := Some (job_generation j + 1),
               j_dispatch_requested_at := Some now, j_updated_at := Some now,
               j_lease_expires_at := Some now, j_reconcile_after_at := Some (now + stale)\<rparr>"
  have view: "view_of ?j' = (view_of j)\<lparr>v_status := ''queued'',
                 v_generation := int_or (Some (v_generation (view_of j) + 1)) 1, v_armed := True\<rparr>"
    by (simp add: view_unfold)
  have l: "sim st (record_projection_delta j [(''leased'', - 1), (''queued'', 1)] (set_job st jid ?j'))"
    if "job_status j = ''leased''"
    using that view_step.replay_leased [of "view_of j"] Some view byok
    by (intro sim_move [where j = j and j' = ?j']) (simp_all add: delta_shards_set_job view_of_def)
  have q: "sim st (set_job st jid ?j')" if "job_status j = ''queued''"
  proof (rule sim_move [where j = j and j' = ?j' and ds = "[]"])
    have "(view_of j)\<lparr>v_status := ''queued''\<rparr> = view_of j"
      using that by (simp add: view_of_def)
    then have "view_of ?j' = (view_of j)\<lparr>v_generation := int_or (Some (v_generation (view_of j) + 1)) 1, v_armed := True\<rparr>"
      using view by (cases "view_of j") simp
    then show "view_step (view_of j) [] (view_of ?j')"
      using that byok [OF Some] view_step.replay_queued [of "view_of j"] by (simp add: view_of_def)
  qed (use Some in simp_all)
  show ?thesis
    using Some q l by (simp add: claim_finalization_replay_def Let_def split del: if_split cong: if_cong) auto
qed (simp add: claim_finalization_replay_def)

lemma abandon_sim: "sim st (snd (abandon_byok_finalization_job jid es eg ee after now st))"
proof (cases "fs_jobs st jid")
  case (Some j)
  let ?j' = "j\<lparr>j_status := Some ''dead_letter'', j_updated_at := Some now, j_terminal_at := Some now,
               j_terminal_outcome := Some ''failure'', j_finalization_outcome := Some BYOK_ABANDONED_FAILURE_CODE,
               j_lease_expires_at := Some now, j_reconcile_after_at := None, j_fanout_status := Some ''fenced'',
               j_fanout_fenced_at := Some now, j_last_failure_code := Some BYOK_ABANDONED_FAILURE_CODE\<rparr>"
  let ?ds = "[(''queued'', if job_status j = ''queued'' then - 1 else 0),
              (''leased'', if job_status j = ''leased'' then - 1 else 0), (''dead_letter'', 1), (''failure'', 1)]"
  have "view_of ?j' = (view_of j)\<lparr>v_status := ''dead_letter'', v_outcome := Some ''failure'',
          v_fanout := Some ''fenced'', v_armed := False\<rparr>"
    by (simp add: view_unfold)
  moreover have "record_projection_delta j ?ds st =
      record_projection_delta j [(job_status j, - 1), (''dead_letter'', 1), (''failure'', 1)] st"
    if "job_status j \<in> {''queued'', ''leased''}"
    using that by (auto simp: record_projection_delta_def split: option.splits)
  ultimately have "sim st (record_projection_delta j ?ds (set_job st jid ?j'))"
    if "job_status j \<in> {''queued'', ''leased''}" "truthy (j_requires_byok j)"
    using that Some view_step.abandon [of "view_of j"]
    by (intro sim_move [where j = j and j' = ?j' and ds = "[(job_status j, - 1), (''dead_letter'', 1), (''failure'', 1)]"])
      (simp_all add: delta_shards_set_job view_of_def)
  then show ?thesis
    using Some
    by (simp add: abandon_byok_finalization_job_def Let_def split del: if_split cong: if_cong
        split: option.split prod.split)
      (auto intro: sim_set_conversation)
qed (simp add: abandon_byok_finalization_job_def)

section \<open>Executions\<close>

record world =
  w_db :: fstore
  w_candidates :: "string set"

definition init_world :: "world \<Rightarrow> bool" where
  "init_world w \<longleftrightarrow> fs_jobs (w_db w) = Map.empty \<and> fs_shards (w_db w) = Map.empty \<and> w_candidates w = {}"

text \<open>One rule per transaction. \<open>query\<close> is the reconciler reading its candidates, \<open>replay\<close> its
  later transaction on one of them; \<open>other\<close> is any write that leaves the outbox alone.\<close>

inductive fin_step :: "world \<Rightarrow> world \<Rightarrow> bool" where
  create: "fin_step w (w\<lparr>w_db := snd (create_or_get_finalization_intent env codec uid cid byok admit force extra now (w_db w))\<rparr>)"
| resume: "fin_step w (w\<lparr>w_db := snd (resume_blocked_byok_job_for_live_session jid now (w_db w))\<rparr>)"
| claim: "fin_step w (w\<lparr>w_db := snd (claim_finalization_job jid g allow ls eu ec now (w_db w))\<rparr>)"
| completed: "fin_step w (w\<lparr>w_db := snd (mark_finalization_completed jid g e now (w_db w))\<rparr>)"
| fenced: "fin_step w (w\<lparr>w_db := snd (mark_finalization_fenced jid g e now (w_db w))\<rparr>)"
| fanout_claim: "fin_step w (w\<lparr>w_db := snd (claim_finalization_fanout jid g e now (w_db w))\<rparr>)"
| fanout_completed: "fin_step w (w\<lparr>w_db := snd (mark_finalization_fanout_completed jid g e now (w_db w))\<rparr>)"
| retryable: "fin_step w (w\<lparr>w_db := snd (mark_finalization_retryable env jid g e code now (w_db w))\<rparr>)"
| dead_letter: "fin_step w (w\<lparr>w_db := snd (mark_finalization_dead_letter jid g e retries now (w_db w))\<rparr>)"
| receipt: "fin_step w (w\<lparr>w_db := snd (record_meeting_receipt uid cid fid eligible reason d s now (w_db w))\<rparr>)"
| intent_persisted: "fin_step w (w\<lparr>w_db := snd (mark_meeting_receipt_intent_persisted jid iid now (w_db w))\<rparr>)"
| materialized: "fin_step w (w\<lparr>w_db := snd (mark_meeting_receipt_materialized uid cid iid t (w_db w))\<rparr>)"
| abandon: "fin_step w (w\<lparr>w_db := snd (abandon_byok_finalization_job jid es eg ee after now (w_db w))\<rparr>)"
| query: "\<forall>r \<in> set rows. fs_jobs (w_db w) (fst r) = Some (snd r) \<Longrightarrow>
     fin_step w (w\<lparr>w_candidates := w_candidates w \<union> fst ` set (get_finalization_replay_candidates rows limit now)\<rparr>)"
| replay: "jid \<in> w_candidates w \<Longrightarrow>
     fin_step w (w\<lparr>w_db := snd (claim_finalization_replay jid stale now (w_db w))\<rparr>)"
| other: "fs_jobs st' = fs_jobs (w_db w) \<Longrightarrow> fs_shards st' = fs_shards (w_db w) \<Longrightarrow> fin_step w (w\<lparr>w_db := st'\<rparr>)"

text \<open>Between its query and its transaction the reconciler holds ids of jobs that exist and do
  not need the user's keys.\<close>

definition candidate_ok :: "fstore \<Rightarrow> string \<Rightarrow> bool" where
  "candidate_ok st jid \<longleftrightarrow> (\<exists>j. fs_jobs st jid = Some j \<and> \<not> truthy (j_requires_byok j))"

definition world_inv :: "world \<Rightarrow> bool" where
  "world_inv w \<longleftrightarrow>
     shards_wf (w_db w) \<and> byok_unarmed (abs_of (w_db w)) \<and> (\<forall>jid \<in> w_candidates w. candidate_ok (w_db w) jid)"

lemma candidate_ok_abs: "candidate_ok st jid \<longleftrightarrow> (\<exists>v. fst (abs_of st) jid = Some v \<and> \<not> v_byok v)"
  by (auto simp: candidate_ok_def abs_of_def view_of_def)

lemma query_candidates_ok:
  assumes "\<forall>r \<in> set rows. fs_jobs st (fst r) = Some (snd r)" "byok_unarmed (abs_of st)"
    and "jid \<in> fst ` set (get_finalization_replay_candidates rows limit now)"
  shows "candidate_ok st jid"
proof -
  obtain j where "(jid, j) \<in> set rows" "j_reconcile_after_at j \<noteq> None"
    using assms(3) by (auto simp: get_finalization_replay_candidates_def dest!: in_set_takeD split: option.splits)
  then show ?thesis
    using assms(1,2) by (force simp: candidate_ok_def byok_unarmed_def abs_of_def view_of_def)
qed

lemma world_inv_db:
  assumes "world_inv w" "sim (w_db w) st'"
  shows "world_inv (w\<lparr>w_db := st'\<rparr>) \<and> abs_step (abs_of (w_db w)) (abs_of st')"
proof -
  have step: "shards_wf st'" "abs_step (abs_of (w_db w)) (abs_of st')"
    using assms by (simp_all add: sim_def world_inv_def)
  then show ?thesis
    using assms(1) abs_byok.step_inv [OF step(2)] abs_step_non_byok [OF step(2)]
    by (auto simp: world_inv_def candidate_ok_abs)
qed

lemmas op_sims = create_sim resume_sim claim_sim completed_sim fenced_sim fanout_claim_sim fanout_completed_sim
  retryable_sim dead_letter_sim receipt_sim intent_persisted_sim materialized_sim abandon_sim

text \<open>Forward simulation: each step of an execution is a step of the abstract machine.\<close>

lemma fin_step_simulated:
  assumes "fin_step w w'" "world_inv w"
  shows "world_inv w' \<and> abs_step (abs_of (w_db w)) (abs_of (w_db w'))"
  using assms
proof (cases rule: fin_step.cases)
  case (query rows limit now)
  have "candidate_ok (w_db w) jid" if "jid \<in> fst ` set (get_finalization_replay_candidates rows limit now)" for jid
    using query_candidates_ok [OF query(2) _ that] assms(2) by (simp add: world_inv_def)
  then show ?thesis
    using query(1) assms(2) by (auto simp del: image_iff simp: world_inv_def abs_step.stutter)
next
  case (replay jid stale now)
  then have "candidate_ok (w_db w) jid"
    using assms(2) by (simp add: world_inv_def)
  then have "sim (w_db w) (snd (claim_finalization_replay jid stale now (w_db w)))"
    by (intro replay_sim) (auto simp: candidate_ok_def)
  then show ?thesis
    using replay(1) world_inv_db [OF assms(2)] by simp
next
  case (other st')
  then show ?thesis
    using world_inv_db [OF assms(2) sim_stutter] by simp
qed (simp_all add: world_inv_db [OF assms(2)] op_sims)

lemma fin_steps_simulated:
  "fin_step\<^sup>*\<^sup>* w w' \<Longrightarrow> world_inv w \<Longrightarrow> world_inv w' \<and> abs_step\<^sup>*\<^sup>* (abs_of (w_db w)) (abs_of (w_db w'))"
  by (induction rule: rtranclp_induct)
    (auto dest: fin_step_simulated intro: rtranclp.rtrancl_into_rtrancl)

lemma init_abs: "init_world w \<Longrightarrow> abs_of (w_db w) = (Map.empty, \<lambda>_ _. 0)"
  by (auto simp: init_world_def abs_of_def shard_value_def fun_eq_iff)

lemma init_world_inv: "init_world w \<Longrightarrow> world_inv w"
  by (auto simp: world_inv_def init_abs byok_unarmed_def) (auto simp: init_world_def shards_wf_def)

definition reachable :: "world \<Rightarrow> bool" where
  "reachable w \<longleftrightarrow> (\<exists>w0. init_world w0 \<and> fin_step\<^sup>*\<^sup>* w0 w)"

lemma reachable_inv: "reachable w \<Longrightarrow> world_inv w"
  using fin_steps_simulated init_world_inv by (auto simp: reachable_def)

lemma reachable_steps: "reachable w \<Longrightarrow> fin_step\<^sup>*\<^sup>* w w' \<Longrightarrow> reachable w'"
  by (auto simp: reachable_def)

lemma reachable_abs: "reachable w \<Longrightarrow> abs_step\<^sup>*\<^sup>* (Map.empty, \<lambda>_ _. 0) (abs_of (w_db w))"
  using fin_steps_simulated init_world_inv init_abs unfolding reachable_def by metis

lemma reachable_census: "reachable w \<Longrightarrow> census_inv (abs_of (w_db w))"
  using abs_census.steps_inv [OF reachable_abs census_inv_init] .

lemma reachable_outcomes: "reachable w \<Longrightarrow> outcome_matches_fanout (abs_of (w_db w))"
  using abs_outcomes.steps_inv [OF reachable_abs] by (simp add: outcome_matches_fanout_def)

end
