(* ===== verification/Sweeps.thy ===== *)
theory Sweeps
  imports Finalization_Refinement
begin

text \<open>
  The bounded, resumable sweeps of \<^verbatim>\<open>backend/database/conversation_finalization_jobs.py\<close>: the
  paging loop the three sweeps share, their eligibility tests, the persisted cursor with its
  compare-and-swap generation, and the transactions on bare \<^verbatim>\<open>processing\<close> conversations.
  The server side of a paged query is a parameter (\<open>fetch\<close>: cursor path and page size to
  rows); \<open>serves\<close> states what Firestore documents of it.
\<close>

section \<open>Paths\<close>

definition uid_from_conversation_path :: "string \<Rightarrow> string option" where
  "uid_from_conversation_path path =
     (case split_on (CHR ''/'') path of
        [a, uid, b, cid] \<Rightarrow> if a = ''users'' \<and> b = ''conversations'' then Some uid else None
      | _ \<Rightarrow> None)"

definition snapshot_id :: "string \<Rightarrow> string" where
  "snapshot_id path = last (split_on (CHR ''/'') path)"

definition conversation_path :: "string \<Rightarrow> string \<Rightarrow> string" where
  "conversation_path uid cid = ''users/'' @ uid @ ''/conversations/'' @ cid"

text \<open>The path of a conversation gives its owner and id back.\<close>

lemma conversation_path_parts:
  assumes "CHR ''/'' \<notin> set uid" "CHR ''/'' \<notin> set cid"
  shows "uid_from_conversation_path (conversation_path uid cid) = Some uid"
    and "snapshot_id (conversation_path uid cid) = cid"
proof -
  have "conversation_path uid cid = ''users'' @ CHR ''/'' # uid @ CHR ''/'' # ''conversations'' @ CHR ''/'' # cid"
    by (simp add: conversation_path_def)
  then have "split_on (CHR ''/'') (conversation_path uid cid) = [''users'', uid, ''conversations'', cid]"
    by (simp only:) (simp add: split_on_append split_on_plain assms)
  then show "uid_from_conversation_path (conversation_path uid cid) = Some uid"
    and "snapshot_id (conversation_path uid cid) = cid"
    by (simp_all add: uid_from_conversation_path_def snapshot_id_def)
qed

section \<open>The paging loop\<close>

text \<open>The three sweeps run the same loop over \<open>pick\<close>, which gives what a row contributes.
  \<open>sweep_rows\<close> is the inner loop over one page with its two breaks.\<close>

type_synonym 'd row = "string \<times> 'd"
type_synonym 'd fetch = "string option \<Rightarrow> nat \<Rightarrow> 'd row list"

fun sweep_rows ::
    "('d row \<Rightarrow> 'c option) \<Rightarrow> int \<Rightarrow> int \<Rightarrow> 'd row list \<Rightarrow> 'c list \<Rightarrow> int \<Rightarrow> string option \<Rightarrow>
     'c list \<times> int \<times> string option" where
  "sweep_rows pick limit max_scan [] collected scanned last_path = (collected, scanned, last_path)"
| "sweep_rows pick limit max_scan (r # rs) collected scanned last_path =
     (if scanned + 1 > max_scan then (collected, scanned + 1, last_path)
      else
        (case pick r of
           None \<Rightarrow> sweep_rows pick limit max_scan rs collected (scanned + 1) (Some (fst r))
         | Some c \<Rightarrow>
             if int (length (collected @ [c])) \<ge> limit then (collected @ [c], scanned + 1, Some (fst r))
             else sweep_rows pick limit max_scan rs (collected @ [c]) (scanned + 1) (Some (fst r))))"

lemma sweep_rows_scans_ge: "sweep_rows p l m rs c n q = (c', n', q') \<Longrightarrow> n \<le> n'"
  by (induction rs arbitrary: c n q) (force split: if_splits option.splits)+

lemma sweep_rows_scans: "sweep_rows p l m rs c n q = (c', n', q') \<Longrightarrow> rs \<noteq> [] \<Longrightarrow> n < n'"
  by (cases rs) (auto split: if_splits option.splits dest: sweep_rows_scans_ge)

record 'c sweep_result =
  sw_candidates :: "'c list"
  sw_resume_after_path :: "string option"
  sw_exhausted :: bool

definition sweep_return :: "'c list \<Rightarrow> string option \<Rightarrow> bool \<Rightarrow> 'c sweep_result" where
  "sweep_return collected last_path exhausted =
     \<lparr>sw_candidates = collected, sw_resume_after_path = (if exhausted then None else last_path),
      sw_exhausted = exhausted\<rparr>"

function sweep_loop ::
    "'d fetch \<Rightarrow> ('d row \<Rightarrow> 'c option) \<Rightarrow> int \<Rightarrow> int \<Rightarrow> nat \<Rightarrow> string option \<Rightarrow> 'c list \<Rightarrow> int \<Rightarrow> string option \<Rightarrow>
     'c sweep_result" where
  "sweep_loop fetch pick limit max_scan page_size cursor collected scanned last_path =
     (if int (length collected) < limit \<and> scanned < max_scan then
        let page = fetch cursor page_size in
        if page = [] then sweep_return collected last_path True
        else
          (case sweep_rows pick limit max_scan page collected scanned last_path of
             (collected', scanned', last_path') \<Rightarrow>
               if scanned' > max_scan then sweep_return collected' last_path' False
               else if length page < page_size then sweep_return collected' last_path' True
               else sweep_loop fetch pick limit max_scan page_size (Some (fst (last page))) collected' scanned'
                      last_path')
      else sweep_return collected last_path False)"
  by pat_completeness auto
termination
  by (relation "measure (\<lambda>(_, _, _, m, _, _, _, n, _). nat (m - n))") (auto split: prod.splits dest: sweep_rows_scans)

declare sweep_loop.simps [simp del]

text \<open>The cursor document: a vanished one wraps the sweep to the top.\<close>

definition start_cursor :: "(string \<Rightarrow> bool) \<Rightarrow> string option \<Rightarrow> string option" where
  "start_cursor exists resume_after_path =
     (case nonempty_str resume_after_path of Some p \<Rightarrow> if exists p then Some p else None | None \<Rightarrow> None)"

definition sweep ::
    "(string \<Rightarrow> bool) \<Rightarrow> 'd fetch \<Rightarrow> ('d row \<Rightarrow> 'c option) \<Rightarrow> int \<Rightarrow> int \<Rightarrow> string option \<Rightarrow> 'c sweep_result" where
  "sweep exists fetch pick limit max_scan resume_after_path =
     sweep_loop fetch pick limit max_scan (nat (max 1 (min limit 100))) (start_cursor exists resume_after_path)
       [] 0 None"

section \<open>The three sweeps\<close>

record orphan_candidate =
  oc_uid :: string
  oc_conversation_id :: string
  oc_processing_admitted_at :: "timestamp option"
  oc_legacy :: bool

definition orphan_pick :: "timestamp \<Rightarrow> conversation row \<Rightarrow> orphan_candidate option" where
  "orphan_pick cutoff r =
     (case uid_from_conversation_path (fst r) of
        None \<Rightarrow> None
      | Some uid \<Rightarrow>
          if truthy (c_deferred (snd r)) \<or> nonempty_str (c_finalization_job_id (snd r)) \<noteq> None then None
          else (case c_processing_admitted_at (snd r) of
                  Some admitted_at \<Rightarrow>
                    if admitted_at > cutoff then None
                    else Some \<lparr>oc_uid = uid, oc_conversation_id = snapshot_id (fst r),
                               oc_processing_admitted_at = Some admitted_at, oc_legacy = False\<rparr>
                | None \<Rightarrow>
                    Some \<lparr>oc_uid = uid, oc_conversation_id = snapshot_id (fst r),
                          oc_processing_admitted_at = None, oc_legacy = True\<rparr>))"

definition get_stale_processing_orphan_candidates ::
    "(string \<Rightarrow> bool) \<Rightarrow> conversation fetch \<Rightarrow> duration \<Rightarrow> int \<Rightarrow> int \<Rightarrow> string option \<Rightarrow> timestamp \<Rightarrow>
     orphan_candidate sweep_result" where
  "get_stale_processing_orphan_candidates exists fetch stale_after limit max_scan resume_after_path now =
     sweep exists fetch (orphan_pick (now - stale_after)) limit max_scan resume_after_path"

definition backfill_pick :: "conversation row \<Rightarrow> (string \<times> string \<times> conversation) option" where
  "backfill_pick r =
     (case uid_from_conversation_path (fst r) of
        None \<Rightarrow> None
      | Some uid \<Rightarrow>
          if c_source (snd r) \<noteq> Some ''desktop'' \<or> c_conversation_role (snd r) \<noteq> Some ''meeting''
             \<or> nonempty_str (c_meeting_treatment_reason (snd r)) \<noteq> None then None
          else Some (uid, snapshot_id (fst r), snd r))"

definition get_meeting_receipt_backfill_candidates ::
    "(string \<Rightarrow> bool) \<Rightarrow> conversation fetch \<Rightarrow> int \<Rightarrow> int \<Rightarrow> string option \<Rightarrow>
     (string \<times> string \<times> conversation) sweep_result" where
  "get_meeting_receipt_backfill_candidates exists fetch limit max_scan resume_after_path =
     sweep exists fetch backfill_pick limit max_scan resume_after_path"

definition abandoned_pick :: "timestamp \<Rightarrow> duration \<Rightarrow> job row \<Rightarrow> (string \<times> job) option" where
  "abandoned_pick now abandoned_after r =
     (let status = job_status (snd r) in
      if status \<notin> {''queued'', ''leased''} then None
      else if status = ''leased'' \<and> lease_unexpired (snd r) now then None
      else if activity_after (snd r) (now - abandoned_after) then None
      else Some (snapshot_id (fst r), snd r))"

definition get_abandoned_byok_job_candidates ::
    "(string \<Rightarrow> bool) \<Rightarrow> job fetch \<Rightarrow> duration \<Rightarrow> int \<Rightarrow> int \<Rightarrow> string option \<Rightarrow> timestamp \<Rightarrow>
     (string \<times> job) sweep_result" where
  "get_abandoned_byok_job_candidates exists fetch abandoned_after limit max_scan resume_after_path now =
     sweep exists fetch (abandoned_pick now abandoned_after) limit max_scan resume_after_path"

text \<open>The due-receipt query: eligible, still carrying the null intent id, and past its delay.\<close>

definition get_meeting_receipt_reconcile_candidates ::
    "(string \<times> job) list \<Rightarrow> int \<Rightarrow> timestamp \<Rightarrow> (string \<times> job) list" where
  "get_meeting_receipt_reconcile_candidates rows limit cutoff =
     take (nat (max 1 (min limit 100)))
       (filter (\<lambda>(jid, j). mr_eligible (j_receipt j) = Some True \<and> mr_intent_id (j_receipt j) = Some None \<and>
            (case mr_reconcile_after_at (j_receipt j) of None \<Rightarrow> False | Some t \<Rightarrow> t \<le> cutoff)) rows)"

section \<open>What a sweep examines\<close>

text \<open>A position in the collection: before the first row, or just after the row a cursor names.
  \<open>serves\<close>: a page is the next rows from the cursor's position, as Firestore documents
  \<^verbatim>\<open>start_after\<close> and \<^verbatim>\<open>limit\<close>.\<close>

definition at_row :: "'d row list \<Rightarrow> string option \<Rightarrow> nat \<Rightarrow> bool" where
  "at_row rows cursor i \<longleftrightarrow>
     i \<le> length rows \<and> cursor = (if i = 0 then None else Some (fst (rows ! (i - 1))))"

definition serves :: "'d row list \<Rightarrow> 'd fetch \<Rightarrow> bool" where
  "serves rows fetch \<longleftrightarrow> (\<forall>cursor i n. at_row rows cursor i \<longrightarrow> fetch cursor n = take n (drop i rows))"

definition picked :: "('d row \<Rightarrow> 'c option) \<Rightarrow> 'd row list \<Rightarrow> 'c list" where
  "picked pick rows = List.map_filter pick rows"

lemma picked_simps [simp]:
  "picked p [] = []"
  "picked p (r # rs) = (case p r of None \<Rightarrow> picked p rs | Some c \<Rightarrow> c # picked p rs)"
  "picked p (rs @ ts) = picked p rs @ picked p ts"
  by (simp_all add: picked_def List.map_filter_def split: option.split)

lemma sweep_rows_prefix:
  assumes "sweep_rows pick l m rs c n q = (c', n', q')" "n \<le> m" "int (length c) < l"
  shows "\<exists>k \<le> length rs. c' = c @ picked pick (take k rs) \<and>
    q' = (if k = 0 then q else Some (fst (rs ! (k - 1)))) \<and> n + int k \<le> m \<and> int (length c') \<le> l \<and>
    (if m < n' then n + int k = m \<and> k < length rs
     else n' = n + int k \<and> (k = length rs \<or> 0 < k \<and> int (length c') = l))"
  using assms
proof (induction rs arbitrary: c n q)
  case (Cons r rs)
  show ?case
  proof (cases "n + 1 > m")
    case True
    then show ?thesis using Cons.prems by (intro exI [of _ 0]) auto
  next
    case small: False
    show ?thesis
    proof (cases "pick r")
      case None
      then obtain k where "k \<le> length rs" "c' = c @ picked pick (take k rs)"
        "q' = (if k = 0 then Some (fst r) else Some (fst (rs ! (k - 1))))" "n + 1 + int k \<le> m" "int (length c') \<le> l"
        "if m < n' then n + 1 + int k = m \<and> k < length rs
         else n' = n + 1 + int k \<and> (k = length rs \<or> 0 < k \<and> int (length c') = l)"
        using Cons.IH [of c "n + 1" "Some (fst r)"] Cons.prems small by auto
      then show ?thesis
        using None by (intro exI [of _ "Suc k"]) (auto split: if_splits)
    next
      case (Some x)
      show ?thesis
      proof (cases "int (length (c @ [x])) \<ge> l")
        case True
        then show ?thesis using Cons.prems small Some by (intro exI [of _ 1]) auto
      next
        case False
        then obtain k where "k \<le> length rs" "c' = c @ x # picked pick (take k rs)"
          "q' = (if k = 0 then Some (fst r) else Some (fst (rs ! (k - 1))))" "n + 1 + int k \<le> m" "int (length c') \<le> l"
          "if m < n' then n + 1 + int k = m \<and> k < length rs
           else n' = n + 1 + int k \<and> (k = length rs \<or> 0 < k \<and> int (length c') = l)"
          using Cons.IH [of "c @ [x]" "n + 1" "Some (fst r)"] Cons.prems small Some by auto
        then show ?thesis
          using Some by (intro exI [of _ "Suc k"]) (auto split: if_splits)
      qed
    qed
  qed
qed simp

text \<open>A window of \<open>k\<close> rows from position \<open>i\<close>: what a run of the loop collected and where it stopped.\<close>

definition window ::
    "('d row \<Rightarrow> 'c option) \<Rightarrow> int \<Rightarrow> int \<Rightarrow> 'd row list \<Rightarrow> nat \<Rightarrow> 'c list \<Rightarrow> int \<Rightarrow> string option \<Rightarrow> nat \<Rightarrow> 'c sweep_result \<Rightarrow> bool" where
  "window pick l m rows i c n q k r \<longleftrightarrow>
     sw_candidates r = c @ picked pick (take k (drop i rows)) \<and> i + k \<le> length rows \<and> n + int k \<le> m \<and>
     int (length (sw_candidates r)) \<le> max l (int (length c)) \<and>
     (if sw_exhausted r then sw_resume_after_path r = None \<and> (i + k = length rows \<or> int (length (sw_candidates r)) = l)
      else sw_resume_after_path r = (if k = 0 then q else Some (fst (rows ! (i + k - 1)))) \<and>
           (n + int k = m \<or> l \<le> int (length (sw_candidates r))))"

lemma window_shift:
  assumes "window pick l m rows (i + p) (c @ picked pick (take p (drop i rows))) (n + int p) (Some (fst (rows ! (i + p - 1)))) k r"
    and "0 < p" "int (length (c @ picked pick (take p (drop i rows)))) \<le> l"
  shows "window pick l m rows i c n q (p + k) r"
proof -
  have "take (p + k) (drop i rows) = take p (drop i rows) @ take k (drop (i + p) rows)"
    by (simp only: take_add drop_drop) (simp add: add.commute)
  then show ?thesis
    using assms by (auto simp: window_def add.assoc split: if_splits)
qed

lemma sweep_loop_window:
  assumes "serves rows fetch" "at_row rows cursor i" "0 < ps" "n \<le> m"
  shows "\<exists>k. window pick l m rows i c n q k (sweep_loop fetch pick l m ps cursor c n q)"
  using assms
proof (induction fetch pick l m ps cursor c n q arbitrary: i rule: sweep_loop.induct)
  case (1 fetch pick l m ps cursor c n q)
  let ?page = "take ps (drop i rows)"
  have page: "fetch cursor ps = ?page"
    using 1(2,3) by (auto simp: serves_def)
  have i: "i \<le> length rows"
    using 1(3) by (simp add: at_row_def)
  consider (stop) "\<not> (int (length c) < l \<and> n < m)" | (tail) "int (length c) < l" "n < m" "?page = []"
    | (rows) "int (length c) < l" "n < m" "?page \<noteq> []" by blast
  then show ?case
  proof cases
    case stop
    then show ?thesis
      using 1(5) i by (subst sweep_loop.simps) (auto simp: sweep_return_def window_def intro!: exI [of _ 0])
  next
    case tail
    then show ?thesis
      using page i 1(4) by (subst sweep_loop.simps) (auto simp: sweep_return_def window_def intro!: exI [of _ 0])
  next
    case rows
    obtain c' n' q' where run: "sweep_rows pick l m ?page c n q = (c', n', q')"
      using prod_cases3 by blast
    obtain k where k: "k \<le> length ?page" "c' = c @ picked pick (take k ?page)"
      "q' = (if k = 0 then q else Some (fst (?page ! (k - 1))))" "n + int k \<le> m" "int (length c') \<le> l"
      "if m < n' then n + int k = m \<and> k < length ?page
       else n' = n + int k \<and> (k = length ?page \<or> 0 < k \<and> int (length c') = l)"
      using sweep_rows_prefix [OF run] rows by auto
    have k': "i + k \<le> length rows" "take k ?page = take k (drop i rows)"
      "0 < k \<Longrightarrow> fst (?page ! (k - 1)) = fst (rows ! (i + k - 1))"
      using k(1) i by (auto simp: min_absorb1)
    have unfold: "sweep_loop fetch pick l m ps cursor c n q =
        (if n' > m then sweep_return c' q' False
         else if length ?page < ps then sweep_return c' q' True
         else sweep_loop fetch pick l m ps (Some (fst (last ?page))) c' n' q')"
      using rows run page by (subst sweep_loop.simps) simp
    have here: "window pick l m rows i c n q k (sweep_return c' q' b)"
      if "b \<longrightarrow> i + k = length rows \<or> int (length c') = l" "\<not> b \<longrightarrow> n + int k = m \<or> l \<le> int (length c')" for b
      using that k k' by (auto simp: window_def sweep_return_def)
    consider (scan) "m < n'" | (partial) "\<not> m < n'" "length ?page < ps"
      | (full) "\<not> m < n'" "length ?page = ps" "int (length c') = l"
      | (more) "\<not> m < n'" "length ?page = ps" "int (length c') \<noteq> l"
      by fastforce
    then show ?thesis
    proof cases
      case scan
      then show ?thesis using unfold here [of False] k(6) by auto
    next
      case partial
      then have "k = length ?page \<longrightarrow> i + k = length rows" using i by auto
      then show ?thesis using partial unfold here [of True] k(6) by auto
    next
      case full
      then have "sweep_loop fetch pick l m ps cursor c n q = sweep_return c' q' False"
        using unfold by (simp add: sweep_loop.simps)
      then show ?thesis using here [of False] full by auto
    next
      case more
      then have all: "k = ps" "n' = n + int ps" using k(6) by auto
      have last: "last ?page = ?page ! (ps - 1)"
        using more rows(3) by (simp add: last_conv_nth)
      have at: "at_row rows (Some (fst (last ?page))) (i + ps)"
        using k' all 1(4) last by (simp add: at_row_def)
      have "\<exists>k'. window pick l m rows (i + ps) c' n' q' k' (sweep_loop fetch pick l m ps (Some (fst (last ?page))) c' n' q')"
        using 1(1) [OF _ page [symmetric] rows(3) run [symmetric] refl _ _ 1(2) at 1(4)] rows more all k(4)
        by (auto simp: page)
      then obtain k2 where "window pick l m rows (i + ps) c' n' q' k2 (sweep_loop fetch pick l m ps (Some (fst (last ?page))) c' n' q')"
        by blast
      then have "window pick l m rows i c n q (ps + k2) (sweep_loop fetch pick l m ps (Some (fst (last ?page))) c' n' q')"
        using window_shift [of pick l m rows i ps c n k2] k k' all 1(4) by simp
      then show ?thesis using unfold more by auto
    qed
  qed
qed

lemma sweep_window:
  assumes "serves rows fetch" "at_row rows (start_cursor exists resume) i" "0 \<le> m"
  shows "\<exists>k. window pick l m rows i [] 0 None k (sweep exists fetch pick l m resume)"
  unfolding sweep_def using assms by (intro sweep_loop_window) auto

text \<open>A server that serves a list of rows with distinct paths.\<close>

definition served_by :: "'d row list \<Rightarrow> 'd fetch" where
  "served_by rows cursor n =
     take n (case cursor of None \<Rightarrow> rows | Some p \<Rightarrow> drop 1 (dropWhile (\<lambda>r. fst r \<noteq> p) rows))"

lemma dropWhile_at:
  "distinct (map fst rows) \<Longrightarrow> i < length rows \<Longrightarrow> dropWhile (\<lambda>r. fst r \<noteq> fst (rows ! i)) rows = drop i rows"
proof (induction rows arbitrary: i)
  case (Cons r rs)
  then show ?case by (cases i) auto
qed simp

lemma served_by_serves: "distinct (map fst rows) \<Longrightarrow> serves rows (served_by rows)"
  by (auto simp: serves_def at_row_def served_by_def dropWhile_at split: if_splits)

text \<open>Repeated sweeps, each resuming where the previous one stopped, until one reports the end.\<close>

fun run_sweeps ::
    "nat \<Rightarrow> (string \<Rightarrow> bool) \<Rightarrow> 'd fetch \<Rightarrow> ('d row \<Rightarrow> 'c option) \<Rightarrow> int \<Rightarrow> int \<Rightarrow> string option \<Rightarrow> 'c list \<times> bool" where
  "run_sweeps 0 exists fetch pick limit max_scan resume = ([], False)"
| "run_sweeps (Suc k) exists fetch pick limit max_scan resume =
     (let r = sweep exists fetch pick limit max_scan resume in
      if sw_exhausted r then (sw_candidates r, True)
      else (case run_sweeps k exists fetch pick limit max_scan (sw_resume_after_path r) of
              (later, b) \<Rightarrow> (sw_candidates r @ later, b)))"

lemma picked_take_le: "length (picked pick (take k (drop i rows))) \<le> length (picked pick rows)"
proof -
  have "picked pick rows = picked pick (take i rows) @ picked pick (take k (drop i rows)) @ picked pick (drop k (drop i rows))"
    by (metis append_take_drop_id picked_simps(3))
  then show ?thesis by simp
qed

lemma run_sweeps_cover:
  assumes serves: "serves rows fetch" and stays: "\<forall>r \<in> set rows. exists (fst r) \<and> fst r \<noteq> ''''"
    and scan: "0 < m" and few: "int (length (picked pick rows)) < l"
    and i: "at_row rows resume i" "length rows < i + k"
  shows "run_sweeps k exists fetch pick l m resume = (picked pick (drop i rows), True)"
  using i
proof (induction k arbitrary: i resume)
  case 0
  then show ?case by (simp add: at_row_def)
next
  case (Suc k)
  have "start_cursor exists resume = resume"
    using Suc.prems stays
    by (auto simp: start_cursor_def at_row_def nonempty_str_def split: if_splits option.splits)
  then obtain j where w: "window pick l m rows i [] 0 None j (sweep exists fetch pick l m resume)"
    using sweep_window [OF serves, of exists resume i m pick l] Suc.prems(1) scan by auto
  let ?r = "sweep exists fetch pick l m resume"
  have "int (length (sw_candidates ?r)) < l"
    using w few picked_take_le [of pick j i rows] by (simp add: window_def)
  then consider (finished) "sw_exhausted ?r" "i + j = length rows"
    | (more) "\<not> sw_exhausted ?r" "int j = m" "at_row rows (sw_resume_after_path ?r) (i + j)"
    using w scan by (auto simp: window_def at_row_def split: if_splits)
  then show ?case
  proof cases
    case finished
    then show ?thesis using w by (simp add: window_def)
  next
    case more
    then have "run_sweeps k exists fetch pick l m (sw_resume_after_path ?r) = (picked pick (drop (i + j) rows), True)"
      using Suc.IH [of "sw_resume_after_path ?r" "i + j"] Suc.prems(2) scan by simp
    moreover have "picked pick (drop i rows) = picked pick (take j (drop i rows)) @ picked pick (drop (i + j) rows)"
      by (metis append_take_drop_id drop_drop add.commute picked_simps(3))
    ultimately show ?thesis
      using more w by (simp add: window_def Let_def)
  qed
qed

section \<open>The persisted cursor\<close>

definition read_cursor :: "string \<Rightarrow> fstore \<Rightarrow> string option \<times> int" where
  "read_cursor doc st =
     (case fs_cursors st doc of None \<Rightarrow> (None, 0) | Some d \<Rightarrow> (cu_resume_after_path d, cu_generation d))"

definition STALE_PROCESSING_SWEEP_STATE_DOC :: string where
  "STALE_PROCESSING_SWEEP_STATE_DOC = ''stale_processing_sweep''"

definition MEETING_RECEIPT_SWEEP_STATE_DOC :: string where
  "MEETING_RECEIPT_SWEEP_STATE_DOC = ''meeting_receipt_backfill_sweep''"

definition BYOK_ABANDONMENT_SWEEP_STATE_DOC :: string where
  "BYOK_ABANDONMENT_SWEEP_STATE_DOC = ''byok_abandonment_sweep''"

definition get_stale_processing_sweep_cursor :: "fstore \<Rightarrow> string option \<times> int" where
  "get_stale_processing_sweep_cursor st = read_cursor STALE_PROCESSING_SWEEP_STATE_DOC st"

definition get_meeting_receipt_backfill_cursor :: "fstore \<Rightarrow> string option \<times> int" where
  "get_meeting_receipt_backfill_cursor st = read_cursor MEETING_RECEIPT_SWEEP_STATE_DOC st"

definition get_byok_abandonment_sweep_cursor :: "fstore \<Rightarrow> string option \<times> int" where
  "get_byok_abandonment_sweep_cursor st = read_cursor BYOK_ABANDONMENT_SWEEP_STATE_DOC st"

definition advance_cursor :: "string \<Rightarrow> int \<Rightarrow> string option \<Rightarrow> timestamp \<Rightarrow> fstore \<Rightarrow> bool \<times> fstore" where
  "advance_cursor doc expected_generation new_path now st =
     (let current = (case fs_cursors st doc of None \<Rightarrow> 0 | Some d \<Rightarrow> cu_generation d) in
      if current \<noteq> expected_generation then (False, st)
      else (True, st\<lparr>fs_cursors := (fs_cursors st)(doc \<mapsto>
              \<lparr>cu_resume_after_path = new_path, cu_generation = current + 1, cu_updated_at = now\<rparr>)\<rparr>))"

definition advance_stale_processing_sweep_cursor ::
    "int \<Rightarrow> string option \<Rightarrow> timestamp \<Rightarrow> fstore \<Rightarrow> bool \<times> fstore" where
  "advance_stale_processing_sweep_cursor g path now st =
     advance_cursor STALE_PROCESSING_SWEEP_STATE_DOC g path now st"

definition advance_meeting_receipt_backfill_cursor ::
    "int \<Rightarrow> string option \<Rightarrow> timestamp \<Rightarrow> fstore \<Rightarrow> bool \<times> fstore" where
  "advance_meeting_receipt_backfill_cursor g path now st =
     advance_cursor MEETING_RECEIPT_SWEEP_STATE_DOC g path now st"

definition advance_byok_abandonment_sweep_cursor ::
    "int \<Rightarrow> string option \<Rightarrow> timestamp \<Rightarrow> fstore \<Rightarrow> bool \<times> fstore" where
  "advance_byok_abandonment_sweep_cursor g path now st =
     advance_cursor BYOK_ABANDONMENT_SWEEP_STATE_DOC g path now st"

text \<open>The cursor is a compare-and-swap register on its generation.\<close>

interpretation cursor: generation_cas "\<lambda>st. snd (read_cursor doc st)"
  "\<lambda>st g pt. advance_cursor doc g (fst pt) (snd pt) st" for doc
  by unfold_locales (auto simp: read_cursor_def advance_cursor_def Let_def split: option.splits)

section \<open>Bare processing conversations\<close>

definition stamp_processing_admission_if_absent ::
    "string \<Rightarrow> string \<Rightarrow> timestamp \<Rightarrow> fstore \<Rightarrow> bool \<times> fstore" where
  "stamp_processing_admission_if_absent uid conversation_id now st =
     (case fs_conversations st (uid, conversation_id) of
        None \<Rightarrow> (False, st)
      | Some conv \<Rightarrow>
          if c_status conv \<noteq> Some ''processing'' then (False, st)
          else if c_processing_admitted_at conv \<noteq> None then (False, st)
          else (True, set_conversation st uid conversation_id (conv\<lparr>c_processing_admitted_at := Some now\<rparr>)))"

definition has_owner :: "conversation \<Rightarrow> bool" where
  "has_owner conv \<longleftrightarrow>
     truthy (c_discarded conv) \<or> truthy (c_deferred conv) \<or> nonempty_str (c_finalization_job_id conv) \<noteq> None"

definition complete_unstampable_orphan_conversation ::
    "string \<Rightarrow> string \<Rightarrow> duration \<Rightarrow> timestamp \<Rightarrow> fstore \<Rightarrow> bool \<times> fstore" where
  "complete_unstampable_orphan_conversation uid conversation_id stale_after now st =
     (case fs_conversations st (uid, conversation_id) of
        None \<Rightarrow> (False, st)
      | Some conv \<Rightarrow>
          if c_status conv \<noteq> Some ''processing'' then (False, st)
          else if has_owner conv then (False, st)
          else if c_processing_admitted_at conv \<noteq> None then (False, st)
          else (case fs_update_time st (uid, conversation_id) of
                  None \<Rightarrow> (False, st)
                | Some last_written \<Rightarrow>
                    if last_written > now - stale_after then (False, st)
                    else (True, set_conversation st uid conversation_id (conv\<lparr>c_status := Some ''completed''\<rparr>))))"

definition complete_orphan_conversation ::
    "string \<Rightarrow> string \<Rightarrow> timestamp option \<Rightarrow> fstore \<Rightarrow> bool \<times> fstore" where
  "complete_orphan_conversation uid conversation_id expected_admitted_at st =
     (case fs_conversations st (uid, conversation_id) of
        None \<Rightarrow> (False, st)
      | Some conv \<Rightarrow>
          if c_status conv \<noteq> Some ''processing'' then (False, st)
          else if has_owner conv then (False, st)
          else if c_processing_admitted_at conv = None \<or> c_processing_admitted_at conv \<noteq> expected_admitted_at then
            (False, st)
          else (True, set_conversation st uid conversation_id (conv\<lparr>c_status := Some ''completed''\<rparr>)))"

definition renew_processing_lease :: "string \<Rightarrow> string \<Rightarrow> timestamp \<Rightarrow> fstore \<Rightarrow> bool \<times> fstore" where
  "renew_processing_lease uid conversation_id now st =
     (case fs_conversations st (uid, conversation_id) of
        None \<Rightarrow> (False, st)
      | Some conv \<Rightarrow>
          if c_status conv \<noteq> Some ''processing'' \<or> truthy (c_discarded conv) then (False, st)
          else (True, set_conversation st uid conversation_id (conv\<lparr>c_processing_admitted_at := Some now\<rparr>)))"

definition reacquire_deferred_processing :: "string \<Rightarrow> string \<Rightarrow> timestamp \<Rightarrow> fstore \<Rightarrow> bool \<times> fstore" where
  "reacquire_deferred_processing uid conversation_id now st =
     (case fs_conversations st (uid, conversation_id) of
        None \<Rightarrow> (False, st)
      | Some conv \<Rightarrow>
          if c_status conv \<notin> {Some ''processing'', Some ''completed''} \<or> truthy (c_discarded conv)
             \<or> c_deferred conv \<noteq> Some True then (False, st)
          else (True, set_conversation st uid conversation_id
                  (conv\<lparr>c_status := Some ''processing'', c_deferred := Some False,
                        c_processing_admitted_at := Some now\<rparr>)))"

definition recover_deferred_processing_failure :: "string \<Rightarrow> string \<Rightarrow> fstore \<Rightarrow> bool \<times> fstore" where
  "recover_deferred_processing_failure uid conversation_id st =
     (case fs_conversations st (uid, conversation_id) of
        None \<Rightarrow> (False, st)
      | Some conv \<Rightarrow>
          if c_status conv \<notin> {Some ''processing'', Some ''completed''} \<or> truthy (c_discarded conv)
             \<or> c_deferred conv \<noteq> Some False then (False, st)
          else (True, set_conversation st uid conversation_id
                  (conv\<lparr>c_status := Some ''completed'', c_deferred := Some True\<rparr>)))"

lemmas orphan_defs = stamp_processing_admission_if_absent_def complete_unstampable_orphan_conversation_def
  complete_orphan_conversation_def renew_processing_lease_def reacquire_deferred_processing_def
  recover_deferred_processing_failure_def

text \<open>None of these transactions touches the outbox: each is an \<open>other\<close> step of an execution.\<close>

lemma orphan_ops_frame:
  "fs_jobs (snd (stamp_processing_admission_if_absent u c now st)) = fs_jobs st"
  "fs_jobs (snd (complete_unstampable_orphan_conversation u c d now st)) = fs_jobs st"
  "fs_jobs (snd (complete_orphan_conversation u c t st)) = fs_jobs st"
  "fs_jobs (snd (advance_cursor doc g p now st)) = fs_jobs st"
  "fs_shards (snd (stamp_processing_admission_if_absent u c now st)) = fs_shards st"
  "fs_shards (snd (complete_unstampable_orphan_conversation u c d now st)) = fs_shards st"
  "fs_shards (snd (complete_orphan_conversation u c t st)) = fs_shards st"
  "fs_shards (snd (advance_cursor doc g p now st)) = fs_shards st"
  by (auto simp: orphan_defs advance_cursor_def Let_def split: option.splits)

section \<open>What the sweeps guarantee\<close>

text \<open>One sweep examines a window of the collection and reports it truthfully. From the
  cursor's position it examines at most max_scan rows in order, collects exactly the eligible
  ones among them, at most limit of them, and, unless it reports the end of the collection,
  returns the path of the last row it examined, having stopped only at a bound.\<close>

theorem sweep_reports_its_window:
  fixes stale_after now
  assumes "serves rows fetch" "at_row rows (start_cursor exists resume) i" "0 \<le> max_scan" "0 \<le> limit"
  defines "r \<equiv> get_stale_processing_orphan_candidates exists fetch stale_after limit max_scan resume now"
  shows "\<exists>k. sw_candidates r = picked (orphan_pick (now - stale_after)) (take k (drop i rows)) \<and>
    i + k \<le> length rows \<and> int k \<le> max_scan \<and> int (length (sw_candidates r)) \<le> limit \<and>
    (\<not> sw_exhausted r \<longrightarrow> (int k = max_scan \<or> int (length (sw_candidates r)) = limit) \<and>
       (0 < k \<longrightarrow> sw_resume_after_path r = Some (fst (rows ! (i + k - 1)))))"
proof -
  obtain k where "window (orphan_pick (now - stale_after)) limit max_scan rows i [] 0 None k r"
    using sweep_window [OF assms(1-3)] by (auto simp: r_def get_stale_processing_orphan_candidates_def)
  then show ?thesis
    using assms(4) by (intro exI [of _ k]) (auto simp: window_def split: if_splits)
qed

definition stranded :: conversation where
  "stranded = empty_conversation\<lparr>c_status := Some ''processing'', c_processing_admitted_at := Some 0\<rparr>"

definition sample_rows :: "conversation row list" where
  "sample_rows = map (\<lambda>cid. (conversation_path ''u'' cid, stranded)) [''a'', ''b'', ''c'', ''d'', ''e'']"

lemma sample_rows_served: "serves sample_rows (served_by sample_rows)"
  by (rule served_by_serves) (simp add: sample_rows_def conversation_path_def)

lemma sample_pick:
  "cid \<in> {''a'', ''b'', ''c'', ''d'', ''e''} \<Longrightarrow> 0 \<le> cutoff \<Longrightarrow>
     orphan_pick cutoff (conversation_path ''u'' cid, stranded) =
       Some \<lparr>oc_uid = ''u'', oc_conversation_id = cid, oc_processing_admitted_at = Some 0, oc_legacy = False\<rparr>"
  by (auto simp: orphan_pick_def conversation_path_parts stranded_def empty_conversation_def)

theorem sweep_reports_its_window_witness:
  "\<exists>k. sw_candidates (get_stale_processing_orphan_candidates (\<lambda>_. True) (served_by sample_rows) 1 4 2000 None 9) =
     picked (orphan_pick 8) (take k sample_rows) \<and> int k \<le> 2000"
  using sweep_reports_its_window [OF sample_rows_served, of "\<lambda>_. True" None 0 2000 4 1 9]
  by (auto simp: at_row_def start_cursor_def)

text \<open>C10: Repeated bounded sweeps find everything: when the eligible rows number fewer than the
  limit, resuming from the persisted path reaches the end of the collection after at most one
  sweep more than it has rows, and the sweeps together collect exactly the eligible rows, each
  once and in order, however long a prefix of ineligible rows comes first.\<close>

theorem sweeps_cover_the_collection:
  assumes "serves rows fetch" "\<forall>r \<in> set rows. exists (fst r) \<and> fst r \<noteq> ''''"
    and "0 < max_scan" "int (length (picked pick rows)) < limit"
  shows "run_sweeps (Suc (length rows)) exists fetch pick limit max_scan None = (picked pick rows, True)"
  using run_sweeps_cover [OF assms, of None 0 "Suc (length rows)"] by (simp add: at_row_def)

lemma conversation_path_nonempty: "conversation_path u c \<noteq> []"
  by (simp add: conversation_path_def)

lemma sample_rows_facts:
  "\<forall>r \<in> set sample_rows. True \<and> fst r \<noteq> []" "length (picked (orphan_pick 8) sample_rows) = 5"
  by (simp_all add: sample_rows_def sample_pick conversation_path_nonempty)

theorem sweeps_cover_the_collection_witness:
  "run_sweeps (Suc (length sample_rows)) (\<lambda>_. True) (served_by sample_rows) (orphan_pick 8) 10 2 None =
     (picked (orphan_pick 8) sample_rows, True)"
  by (rule sweeps_cover_the_collection [OF sample_rows_served]) (use sample_rows_facts in simp_all)

definition hidden_rows :: "conversation row list" where
  "hidden_rows = [(conversation_path ''u'' ''a'', stranded), (conversation_path ''u'' ''b'', stranded),
     (conversation_path ''u'' ''c'', stranded\<lparr>c_deferred := Some True\<rparr>), (conversation_path ''u'' ''d'', stranded),
     (conversation_path ''u'' ''e'', stranded)]"

lemma hidden_pick: "orphan_pick cutoff (p, stranded\<lparr>c_deferred := Some True\<rparr>) = None"
  by (simp add: orphan_pick_def split: option.split)

lemma conversation_path_neq: "conversation_path u c = conversation_path u c' \<longleftrightarrow> c = c'"
  by (simp add: conversation_path_def)

abbreviation found :: "string \<Rightarrow> orphan_candidate" where
  "found cid \<equiv> \<lparr>oc_uid = ''u'', oc_conversation_id = cid, oc_processing_admitted_at = Some 0, oc_legacy = False\<rparr>"

lemma hidden_first_page:
  "sweep_loop (served_by hidden_rows) (orphan_pick 8) 3 2000 3 None [] 0 None =
     sweep_loop (served_by hidden_rows) (orphan_pick 8) 3 2000 3 (Some (conversation_path ''u'' ''c''))
       [found ''a'', found ''b''] 3 (Some (conversation_path ''u'' ''c''))"
  by (subst sweep_loop.simps) (simp add: hidden_rows_def served_by_def sample_pick hidden_pick)

lemma hidden_last_page:
  "sweep_loop (served_by hidden_rows) (orphan_pick 8) 3 2000 3 (Some (conversation_path ''u'' ''c''))
       [found ''a'', found ''b''] 3 (Some (conversation_path ''u'' ''c'')) =
     sweep_return [found ''a'', found ''b'', found ''d''] (Some (conversation_path ''u'' ''d'')) True"
  by (subst sweep_loop.simps) (simp add: hidden_rows_def served_by_def sample_pick conversation_path_neq)

text \<open>The limit can hide the tail: a sweep that reaches its limit inside a partial last page
  reports the collection as exhausted and rotates its cursor to the top although an eligible
  row behind the limit was not examined.\<close>

theorem limit_inside_partial_page_hides_the_tail:
  "serves hidden_rows (served_by hidden_rows) \<and>
   (conversation_path ''u'' ''e'', stranded) \<in> set hidden_rows \<and>
   orphan_pick 8 (conversation_path ''u'' ''e'', stranded) \<noteq> None \<and>
   sw_exhausted (get_stale_processing_orphan_candidates (\<lambda>_. True) (served_by hidden_rows) 1 3 2000 None 9) \<and>
   sw_resume_after_path (get_stale_processing_orphan_candidates (\<lambda>_. True) (served_by hidden_rows) 1 3 2000 None 9) = None \<and>
   ''e'' \<notin> oc_conversation_id ` set (sw_candidates
      (get_stale_processing_orphan_candidates (\<lambda>_. True) (served_by hidden_rows) 1 3 2000 None 9))"
proof -
  have "get_stale_processing_orphan_candidates (\<lambda>_. True) (served_by hidden_rows) 1 3 2000 None 9 =
    \<lparr>sw_candidates = map (\<lambda>cid. \<lparr>oc_uid = ''u'', oc_conversation_id = cid, oc_processing_admitted_at = Some 0,
        oc_legacy = False\<rparr>) [''a'', ''b'', ''d''], sw_resume_after_path = None, sw_exhausted = True\<rparr>"
    by (simp add: get_stale_processing_orphan_candidates_def sweep_def start_cursor_def hidden_first_page
        hidden_last_page sweep_return_def)
  moreover have "serves hidden_rows (served_by hidden_rows)"
    by (rule served_by_serves) (simp add: hidden_rows_def conversation_path_neq)
  ultimately show ?thesis
    by (simp add: hidden_rows_def sample_pick)
qed

text \<open>Of two pods that read the sweep cursor at the same generation, only one advances it;
  the other's write is refused and cannot rewind the progress of the first.\<close>

theorem cursor_advance_has_one_winner:
  assumes "advance_stale_processing_sweep_cursor g path now st = (True, st1)"
  shows "advance_stale_processing_sweep_cursor g path' now' st1 = (False, st1) \<and>
    get_stale_processing_sweep_cursor st1 = (path, g + 1)"
proof -
  have "advance_cursor STALE_PROCESSING_SWEEP_STATE_DOC g (fst (path', now')) (snd (path', now')) st1 = (False, st1)"
    by (rule cursor.one_winner [where s = st and v = "(path, now)"])
      (use assms in \<open>simp add: advance_stale_processing_sweep_cursor_def\<close>)
  then show ?thesis
    using assms
    by (auto simp: advance_stale_processing_sweep_cursor_def get_stale_processing_sweep_cursor_def
        read_cursor_def advance_cursor_def Let_def split: if_splits)
qed

theorem cursor_advance_has_one_winner_witness:
  "advance_stale_processing_sweep_cursor 0 (Some ''q'') 2
     (snd (advance_stale_processing_sweep_cursor 0 (Some ''p'') 1 empty_store)) =
   (False, snd (advance_stale_processing_sweep_cursor 0 (Some ''p'') 1 empty_store))"
  using cursor_advance_has_one_winner [of 0 "Some ''p''" 1 empty_store]
  by (simp add: advance_stale_processing_sweep_cursor_def advance_cursor_def)

lemma complete_orphan_stale:
  "fs_conversations st (u, c) = Some conv \<Longrightarrow> c_processing_admitted_at conv \<noteq> old \<Longrightarrow>
     complete_orphan_conversation u c old st = (False, st)"
  by (simp add: complete_orphan_conversation_def)

lemma complete_orphan_fenced: "\<not> fst (complete_orphan_conversation u c old st) \<Longrightarrow> snd (complete_orphan_conversation u c old st) = st"
  by (cases "fs_conversations st (u, c)") (auto simp: complete_orphan_conversation_def split: if_split_asm)

lemma complete_orphan_done:
  assumes "fst (complete_orphan_conversation u c old st)"
  shows "\<exists>conv. fs_conversations st (u, c) = Some conv \<and> c_status conv = Some ''processing'' \<and> \<not> has_owner conv \<and>
     c_processing_admitted_at conv = old \<and> old \<noteq> None \<and>
     snd (complete_orphan_conversation u c old st) = set_conversation st u c (conv\<lparr>c_status := Some ''completed''\<rparr>)"
  using assms
  by (cases "fs_conversations st (u, c)") (auto simp: complete_orphan_conversation_def split: if_split_asm)

lemma renewed_admission:
  "fst (renew_processing_lease u c now st) \<Longrightarrow>
     \<exists>conv. fs_conversations (snd (renew_processing_lease u c now st)) (u, c) = Some conv \<and> c_processing_admitted_at conv = Some now"
  "fst (reacquire_deferred_processing u c now st) \<Longrightarrow>
     \<exists>conv. fs_conversations (snd (reacquire_deferred_processing u c now st)) (u, c) = Some conv \<and> c_processing_admitted_at conv = Some now"
  by (cases "fs_conversations st (u, c)";
      auto simp: renew_processing_lease_def reacquire_deferred_processing_def split: if_split_asm)+

text \<open>C11: Recovery never terminates live work: once a processor has renewed its admission lease,
  or a first open has taken over a deferred conversation, completing the orphan with the
  admission instant a sweep saw before is refused and changes nothing; and completing an orphan
  changes only the status of that one conversation.\<close>

theorem orphan_recovery_spares_live_work:
  "(fst (renew_processing_lease u c now st) \<and> old \<noteq> Some now \<longrightarrow>
      complete_orphan_conversation u c old (snd (renew_processing_lease u c now st)) =
        (False, snd (renew_processing_lease u c now st))) \<and>
   (fst (reacquire_deferred_processing u c now st) \<and> old \<noteq> Some now \<longrightarrow>
      complete_orphan_conversation u c old (snd (reacquire_deferred_processing u c now st)) =
        (False, snd (reacquire_deferred_processing u c now st))) \<and>
   (fst (complete_orphan_conversation u c old st) \<longrightarrow>
      (\<exists>conv. fs_conversations st (u, c) = Some conv \<and> c_status conv = Some ''processing'' \<and> \<not> has_owner conv \<and>
         c_processing_admitted_at conv = old \<and> old \<noteq> None \<and>
         snd (complete_orphan_conversation u c old st) = set_conversation st u c (conv\<lparr>c_status := Some ''completed''\<rparr>))) \<and>
   (\<not> fst (complete_orphan_conversation u c old st) \<longrightarrow> snd (complete_orphan_conversation u c old st) = st)"
proof (intro conjI impI)
  show "complete_orphan_conversation u c old (snd (renew_processing_lease u c now st)) =
      (False, snd (renew_processing_lease u c now st))" if "fst (renew_processing_lease u c now st) \<and> old \<noteq> Some now"
    using renewed_admission(1) [of u c now st] that complete_orphan_stale by metis
  show "complete_orphan_conversation u c old (snd (reacquire_deferred_processing u c now st)) =
      (False, snd (reacquire_deferred_processing u c now st))" if "fst (reacquire_deferred_processing u c now st) \<and> old \<noteq> Some now"
    using renewed_admission(2) [of u c now st] that complete_orphan_stale by metis
qed (rule complete_orphan_done, assumption, rule complete_orphan_fenced)

theorem orphan_recovery_spares_live_work_witness:
  "complete_orphan_conversation ''u'' ''a'' (Some 0)
     (snd (renew_processing_lease ''u'' ''a'' 7 (set_conversation empty_store ''u'' ''a'' stranded))) =
   (False, snd (renew_processing_lease ''u'' ''a'' 7 (set_conversation empty_store ''u'' ''a'' stranded)))"
proof -
  have "fst (renew_processing_lease ''u'' ''a'' 7 (set_conversation empty_store ''u'' ''a'' stranded))"
    by (simp add: renew_processing_lease_def stranded_def empty_conversation_def)
  then show ?thesis
    using orphan_recovery_spares_live_work
      [of "''u''" "''a''" 7 "set_conversation empty_store ''u'' ''a'' stranded" "Some 0"] by simp
qed

text \<open>Deferred enrichment has one owner: of two first opens of a deferred conversation only
  one takes it, until a failed enrichment re-arms it for an explicit retry.\<close>

theorem deferred_conversation_has_one_owner:
  assumes "reacquire_deferred_processing u c now st = (True, st1)"
  shows "reacquire_deferred_processing u c now' st1 = (False, st1) \<and>
    (\<exists>st2. recover_deferred_processing_failure u c st1 = (True, st2) \<and>
       fst (reacquire_deferred_processing u c now' st2))"
  using assms
  by (auto simp: reacquire_deferred_processing_def recover_deferred_processing_failure_def
      split: option.splits if_splits)

theorem deferred_conversation_has_one_owner_witness:
  "reacquire_deferred_processing ''u'' ''c'' 2 (snd (reacquire_deferred_processing ''u'' ''c'' 1
     (set_conversation empty_store ''u'' ''c'' (stranded\<lparr>c_deferred := Some True\<rparr>)))) =
   (False, snd (reacquire_deferred_processing ''u'' ''c'' 1
     (set_conversation empty_store ''u'' ''c'' (stranded\<lparr>c_deferred := Some True\<rparr>))))"
  using deferred_conversation_has_one_owner
    [of "''u''" "''c''" 1 "set_conversation empty_store ''u'' ''c'' (stranded\<lparr>c_deferred := Some True\<rparr>)"]
  by (simp add: reacquire_deferred_processing_def stranded_def empty_conversation_def)

end
