(* ===== verification/Finalization_Theorems.thy ===== *)
theory Finalization_Theorems
  imports Finalization_Refinement
begin

text \<open>
  What the outbox promises, as theorems about the transactions of the source and about
  whole executions of them: the counters are the census of the jobs, terminal jobs stay
  as they are, a worker whose lease was taken over can no longer write, a replay
  invalidates the task it replaces, admission happens once, a delivered fanout is not
  delivered again.
\<close>

section \<open>Sums over shards\<close>

definition projected :: "job \<Rightarrow> bool" where
  "projected j \<longleftrightarrow> projection_ref_for_job j \<noteq> None"

lemma view_shard_range: "v_shard (view_of j) \<in> Some ` set [0 .. 15] \<longleftrightarrow> projected j"
proof (cases "projection_ref_for_job j")
  case None
  then show ?thesis by (simp add: view_of_def projected_def)
next
  case (Some p)
  then have "0 \<le> fst p \<and> fst p < 16"
    using projection_ref_SomeD by (metis prod.collapse)
  then show ?thesis using Some by (simp add: view_of_def projected_def)
qed

lemma projection_total_census:
  assumes "reachable w" "name \<in> set SUMMARY_COUNTERS"
  shows "projection_total (w_db w) name =
           census (\<lambda>j. projected j \<and> counted name (view_of j)) (fs_jobs (w_db w))"
proof -
  let ?m = "fst (abs_of (w_db w))"
  have inv: "finite (dom ?m)"
    "\<And>k. shard_value (w_db w) k name = census (\<lambda>v. v_shard v = Some k \<and> counted name v) ?m"
    using reachable_census [OF assms(1)] assms(2) by (auto simp: census_inv_def abs_of_def)
  have "projection_total (w_db w) name = (\<Sum>k \<leftarrow> [0 .. 15]. census (\<lambda>v. v_shard v = Some k \<and> counted name v) ?m)"
    by (simp add: projection_total_def FINALIZATION_PROJECTION_SHARD_COUNT_def inv(2))
  also have "\<dots> = census (\<lambda>v. v_shard v \<in> Some ` set [0 .. 15] \<and> counted name v) ?m"
    by (rule census_sum_list [OF inv(1)]) simp
  also have "\<dots> = census (\<lambda>j. projected j \<and> counted name (view_of j)) (fs_jobs (w_db w))"
    by (simp only: abs_of_def fst_conv census_map view_shard_range)
  finally show ?thesis .
qed

lemma reachable_projected_ok:
  assumes "reachable w" "fs_jobs (w_db w) jid = Some j" "projected j"
  shows "job_status j \<in> NONTERMINAL_JOB_STATUSES
    \<or> job_status j \<in> TERMINAL_JOB_STATUSES \<and> j_terminal_outcome j \<in> {Some ''success'', Some ''failure'', Some ''stale''}"
proof -
  have "view_ok (view_of j)"
    using reachable_census [OF assms(1)] assms(2) by (auto simp: census_inv_def abs_of_def)
  then show ?thesis using assms(3) by (auto simp: view_ok_def view_of_def projected_def)
qed

lemma reachable_terminal_outcome:
  assumes "reachable w" "fs_jobs (w_db w) jid = Some j" "projected j" "job_status j \<in> TERMINAL_JOB_STATUSES"
  shows "j_terminal_outcome j \<in> {Some ''success'', Some ''failure'', Some ''stale''}"
  using reachable_projected_ok [OF assms(1-3)] assms(4)
  by (auto simp: TERMINAL_JOB_STATUSES_def NONTERMINAL_JOB_STATUSES_def)

lemma reachable_finite: "reachable w \<Longrightarrow> finite (dom (fs_jobs (w_db w)))"
proof -
  assume "reachable w"
  moreover have "dom (fst (abs_of (w_db w))) = dom (fs_jobs (w_db w))"
    by (auto simp: abs_of_def dom_def)
  ultimately show ?thesis
    using reachable_census [of w] by (auto simp: census_inv_def)
qed

lemma abs_of_Some: "fs_jobs st jid = Some j \<Longrightarrow> fst (abs_of st) jid = Some (view_of j)"
  by (simp add: abs_of_def)

lemma view_sels:
  "v_status (view_of j) = job_status j" "v_generation (view_of j) = job_generation j"
  "v_epoch (view_of j) = job_epoch j" "v_byok (view_of j) = truthy (j_requires_byok j)"
  "v_fanout (view_of j) = j_fanout_status j" "v_outcome (view_of j) = j_terminal_outcome j"
  "v_armed (view_of j) \<longleftrightarrow> j_reconcile_after_at j \<noteq> None"
  by (simp_all add: view_of_def)

lemma view_eqD:
  "view_of j' = view_of j \<Longrightarrow>
     job_status j' = job_status j \<and> j_terminal_outcome j' = j_terminal_outcome j \<and>
     j_fanout_status j' = j_fanout_status j \<and> job_epoch j' = job_epoch j \<and> job_generation j' = job_generation j"
  by (simp add: view_of_def)

section \<open>A sample execution\<close>

text \<open>One conversation with content, admitted under an accepting decision.\<close>

definition sample_codec :: segment_codec where
  "sample_codec = \<lparr>decrypted_count = \<lambda>_ _ _. Some 0, inflated_count = \<lambda>_. Some 0\<rparr>"

definition sample_admit :: "conversation \<Rightarrow> finalization_admission" where
  "sample_admit conv = \<lparr>fa_accepted = True, fa_terminal = False, fa_reason = ''accepted'', fa_fanout_key = Some ''k''\<rparr>"

definition sample_conversation :: conversation where
  "sample_conversation = empty_conversation\<lparr>c_status := Some ''in_progress'', c_transcript_segments := Some (Segments 2)\<rparr>"

definition sample_w0 :: world where
  "sample_w0 = \<lparr>w_db = set_conversation empty_store ''u'' ''c'' sample_conversation, w_candidates = {}\<rparr>"

definition sample_id :: string where
  "sample_id = job_id_of ''u'' ''c'' 1"

definition sample_job :: job where
  "sample_job = new_job Map.empty ''u'' ''c'' 1 False sample_conversation False (Some ''k'') 0"

definition sample_w1 :: world where
  "sample_w1 = sample_w0\<lparr>w_db := snd (create_or_get_finalization_intent Map.empty sample_codec ''u'' ''c'' False
     sample_admit False (\<lambda>c. c) 0 (w_db sample_w0))\<rparr>"

lemma sample_reachable: "reachable sample_w0" "fin_step\<^sup>*\<^sup>* sample_w0 sample_w1" "reachable sample_w1"
proof -
  have "init_world sample_w0"
    by (simp add: init_world_def sample_w0_def)
  moreover show "fin_step\<^sup>*\<^sup>* sample_w0 sample_w1"
    using fin_step.create by (auto simp: sample_w1_def)
  ultimately show "reachable sample_w0" "reachable sample_w1"
    by (auto simp: reachable_def)
qed

lemma sample_w1_job: "fs_jobs (w_db sample_w1) = [sample_id \<mapsto> sample_job]"
  by (simp add: sample_w1_def sample_w0_def create_or_get_finalization_intent_def sample_conversation_def
      empty_conversation_def conversation_has_finalization_content_def raw_conversation_has_content_def
      decode_transcript_segments_strict_def sample_admit_def sample_id_def sample_job_def Let_def)

section \<open>The counters\<close>

text \<open>C1: In every reachable state each counter of the summary, added up over the sixteen
  shards, is the number of admitted jobs it names: all of them for accepted, those in the
  status for the status counters, those terminal with the outcome for the outcome counters.
  No increment is lost, doubled or written to another job's shard.\<close>

theorem projection_is_the_census_of_jobs:
  assumes "reachable w" "name \<in> set SUMMARY_COUNTERS"
  shows "projection_total (w_db w) name =
           census (\<lambda>j. projected j \<and> counted name (view_of j)) (fs_jobs (w_db w))"
  using assms by (rule projection_total_census)

theorem projection_is_the_census_of_jobs_witness:
  "reachable sample_w1 \<and>
   projection_total (w_db sample_w1) ''queued'' =
     census (\<lambda>j. projected j \<and> counted ''queued'' (view_of j)) [sample_id \<mapsto> sample_job]"
  using projection_is_the_census_of_jobs [of sample_w1 "''queued''"] sample_reachable
  by (simp add: sample_w1_job summary_counters_set)

text \<open>How many admitted jobs a counter names.\<close>

definition jobs_counted :: "world \<Rightarrow> string \<Rightarrow> int" where
  "jobs_counted w name = census (\<lambda>j. projected j \<and> counted name (view_of j)) (fs_jobs (w_db w))"

lemma jobs_counted_status:
  "name \<in> {''queued'', ''leased'', ''blocked_byok'', ''completed'', ''dead_letter''} \<Longrightarrow>
     jobs_counted w name = census (\<lambda>j. projected j \<and> job_status j = name) (fs_jobs (w_db w))"
  unfolding jobs_counted_def by (intro census_cong) (auto simp: counted_def view_of_def)

lemma jobs_counted_outcome:
  "name \<in> {''success'', ''failure'', ''stale''} \<Longrightarrow>
     jobs_counted w name =
       census (\<lambda>j. projected j \<and> job_status j \<in> TERMINAL_JOB_STATUSES \<and> j_terminal_outcome j = Some name)
         (fs_jobs (w_db w))"
  unfolding jobs_counted_def by (intro census_cong) (auto simp: counted_def view_of_def)

lemma jobs_terminal_split:
  assumes "reachable w"
  shows "jobs_counted w ''completed'' + jobs_counted w ''dead_letter'' =
           census (\<lambda>j. projected j \<and> job_status j \<in> TERMINAL_JOB_STATUSES) (fs_jobs (w_db w))"
    and "jobs_counted w ''success'' + jobs_counted w ''failure'' + jobs_counted w ''stale'' =
           census (\<lambda>j. projected j \<and> job_status j \<in> TERMINAL_JOB_STATUSES) (fs_jobs (w_db w))"
proof -
  note fin = reachable_finite [OF assms]
  show "jobs_counted w ''completed'' + jobs_counted w ''dead_letter'' =
           census (\<lambda>j. projected j \<and> job_status j \<in> TERMINAL_JOB_STATUSES) (fs_jobs (w_db w))"
    by (simp add: jobs_counted_status, subst census_disjoint_sum [OF fin, symmetric])
      (auto simp: TERMINAL_JOB_STATUSES_def intro!: census_cong)
  show "jobs_counted w ''success'' + jobs_counted w ''failure'' + jobs_counted w ''stale'' =
           census (\<lambda>j. projected j \<and> job_status j \<in> TERMINAL_JOB_STATUSES) (fs_jobs (w_db w))"
    by (simp add: jobs_counted_outcome, subst census_three [OF fin, symmetric])
      (auto dest: reachable_terminal_outcome [OF assms] intro!: census_cong)
qed

lemma jobs_accepted_split:
  assumes "reachable w"
  shows "jobs_counted w ''accepted'' =
           jobs_counted w ''queued'' + jobs_counted w ''leased'' + jobs_counted w ''blocked_byok'' +
           census (\<lambda>j. projected j \<and> job_status j \<in> TERMINAL_JOB_STATUSES) (fs_jobs (w_db w))"
proof -
  note fin = reachable_finite [OF assms]
  let ?P = "\<lambda>s j. projected j \<and> job_status j = s" and ?T = "\<lambda>j. projected j \<and> job_status j \<in> TERMINAL_JOB_STATUSES"
  have "jobs_counted w ''accepted'' =
      census (\<lambda>j. (?P ''queued'' j \<or> ?P ''leased'' j \<or> ?P ''blocked_byok'' j) \<or> ?T j) (fs_jobs (w_db w))"
    unfolding jobs_counted_def using reachable_projected_ok [OF assms]
    by (intro census_cong) (auto simp: counted_def NONTERMINAL_JOB_STATUSES_def)
  also have "\<dots> = census (\<lambda>j. ?P ''queued'' j \<or> ?P ''leased'' j \<or> ?P ''blocked_byok'' j) (fs_jobs (w_db w)) +
      census ?T (fs_jobs (w_db w))"
    by (rule census_disjoint_sum [OF fin]) (auto simp: TERMINAL_JOB_STATUSES_def)
  also have "census (\<lambda>j. ?P ''queued'' j \<or> ?P ''leased'' j \<or> ?P ''blocked_byok'' j) (fs_jobs (w_db w)) =
      jobs_counted w ''queued'' + jobs_counted w ''leased'' + jobs_counted w ''blocked_byok''"
    by (subst census_three [OF fin]) (auto simp: jobs_counted_status)
  finally show ?thesis .
qed

text \<open>The summary balances in every reachable state: accepted jobs are exactly the
  nonterminal, blocked, completed and dead-lettered ones, and every terminal job carries one
  of the three outcomes, so the terminal-unknown figure the summary reports as zero is zero.\<close>

theorem summary_balances:
  fixes rows now
  assumes "reachable w"
  defines "s \<equiv> get_finalization_job_summary rows now (w_db w)"
  shows "sm_accepted s = sm_nonterminal s + sm_blocked_byok s + sm_completed s + sm_dead_letter s \<and>
    sm_completed s + sm_dead_letter s = sm_success s + sm_failure s + sm_stale s + sm_terminal_unknown s"
  using jobs_terminal_split [OF assms(1)] jobs_accepted_split [OF assms(1)] projection_total_census [OF assms(1)]
  by (simp add: s_def get_finalization_job_summary_def summary_counters_set jobs_counted_def)

theorem summary_balances_witness:
  "sm_accepted (get_finalization_job_summary [] 0 (w_db sample_w1)) =
     sm_nonterminal (get_finalization_job_summary [] 0 (w_db sample_w1)) +
     sm_blocked_byok (get_finalization_job_summary [] 0 (w_db sample_w1)) +
     sm_completed (get_finalization_job_summary [] 0 (w_db sample_w1)) +
     sm_dead_letter (get_finalization_job_summary [] 0 (w_db sample_w1))"
  using summary_balances [of sample_w1 "[]" 0] sample_reachable by blast

section \<open>Terminal jobs\<close>

text \<open>C2: A job that has reached a terminal status keeps its status, outcome, fanout state,
  lease epoch and dispatch generation in every later state of every execution, whatever the
  workers, reconcilers, sessions and sweeps do.\<close>

theorem terminal_jobs_are_final:
  assumes "reachable w" "fs_jobs (w_db w) jid = Some j" "job_status j \<in> TERMINAL_JOB_STATUSES"
    and "fin_step\<^sup>*\<^sup>* w w'"
  shows "\<exists>j'. fs_jobs (w_db w') jid = Some j' \<and> job_status j' = job_status j \<and>
    j_terminal_outcome j' = j_terminal_outcome j \<and> j_fanout_status j' = j_fanout_status j \<and>
    job_epoch j' = job_epoch j \<and> job_generation j' = job_generation j"
proof -
  have "fst (abs_of (w_db w')) jid = Some (view_of j)"
    using abs_frozen.steps_frozen [OF conjunct2 [OF fin_steps_simulated [OF assms(4) reachable_inv [OF assms(1)]]]
      abs_of_Some [OF assms(2)]] assms(3)
    by (simp add: view_sels)
  then obtain j' where "fs_jobs (w_db w') jid = Some j'" "view_of j' = view_of j"
    by (auto simp: abs_of_def)
  then show ?thesis using view_eqD by blast
qed

definition sample_w2 :: world where
  "sample_w2 = sample_w0\<lparr>w_db := snd (record_meeting_receipt ''u'' ''c'' None True ''ok'' 60 30 5 (w_db sample_w0))\<rparr>"

lemma sample_w2_facts:
  "reachable sample_w2"
  "fs_jobs (w_db sample_w2) = [sample_id \<mapsto> receipt_only_job ''u'' ''c'' 1 (fresh_receipt True ''ok'' 60 30 5) 5]"
proof -
  have "fin_step\<^sup>*\<^sup>* sample_w0 sample_w2"
    using fin_step.receipt by (auto simp: sample_w2_def)
  then show "reachable sample_w2"
    using reachable_steps sample_reachable by blast
  show "fs_jobs (w_db sample_w2) = [sample_id \<mapsto> receipt_only_job ''u'' ''c'' 1 (fresh_receipt True ''ok'' 60 30 5) 5]"
    by (simp add: sample_w2_def sample_w0_def record_meeting_receipt_def sample_conversation_def
        empty_conversation_def empty_job_def no_receipt_def sample_id_def Let_def)
qed

theorem terminal_jobs_are_final_witness:
  "\<exists>j'. fs_jobs (w_db (sample_w2\<lparr>w_db := snd (claim_finalization_job sample_id 1 True 60 None None 9 (w_db sample_w2))\<rparr>)) sample_id = Some j'
     \<and> job_status j' = ''completed'' \<and> j_terminal_outcome j' = Some ''success''"
  using terminal_jobs_are_final [of sample_w2 sample_id _ _, OF _ _ _ r_into_rtranclp, OF _ _ _ fin_step.claim,
      of "receipt_only_job ''u'' ''c'' 1 (fresh_receipt True ''ok'' 60 30 5) 5" sample_id 1 True 60 None None 9]
    sample_w2_facts
  by (auto simp: receipt_only_job_def empty_job_def TERMINAL_JOB_STATUSES_def)

text \<open>C3: The recorded outcome says what happened: success only on a completed job whose
  fanout completed, stale only on a completed job whose fanout was fenced, failure only on a
  dead letter.\<close>

theorem outcomes_tell_the_truth:
  assumes "reachable w" "fs_jobs (w_db w) jid = Some j"
  shows "(j_terminal_outcome j = Some ''success'' \<longrightarrow> job_status j = ''completed'' \<and> j_fanout_status j = Some ''completed'') \<and>
    (j_terminal_outcome j = Some ''stale'' \<longrightarrow> job_status j = ''completed'' \<and> j_fanout_status j = Some ''fenced'') \<and>
    (j_terminal_outcome j = Some ''failure'' \<longrightarrow> job_status j = ''dead_letter'')"
  using reachable_outcomes [OF assms(1), unfolded outcome_matches_fanout_def, rule_format, OF abs_of_Some [OF assms(2)]]
  by (simp add: view_sels)

theorem outcomes_tell_the_truth_witness:
  "j_terminal_outcome (receipt_only_job ''u'' ''c'' 1 (fresh_receipt True ''ok'' 60 30 5) 5) = Some ''success'' \<and>
   j_fanout_status (receipt_only_job ''u'' ''c'' 1 (fresh_receipt True ''ok'' 60 30 5) 5) = Some ''completed''"
  using outcomes_tell_the_truth [of sample_w2 sample_id] sample_w2_facts
  by (simp add: receipt_only_job_def)

section \<open>Leases\<close>

text \<open>The outbox as a provider of epoch ownership: steps taken from states that satisfy the
  invariant, claims that return an epoch, and holders whose writes pass the lease check.\<close>

definition sound_step :: "world \<Rightarrow> world \<Rightarrow> bool" where
  "sound_step w w' \<longleftrightarrow> world_inv w \<and> fin_step w w'"

definition epoch_of :: "world \<Rightarrow> string \<Rightarrow> int" where
  "epoch_of w jid = (case fs_jobs (w_db w) jid of None \<Rightarrow> 0 | Some j \<Rightarrow> job_epoch j)"

definition generation_of :: "world \<Rightarrow> string \<Rightarrow> int" where
  "generation_of w jid = (case fs_jobs (w_db w) jid of None \<Rightarrow> 1 | Some j \<Rightarrow> job_generation j)"

definition takes_lease :: "world \<Rightarrow> string \<Rightarrow> int \<Rightarrow> world \<Rightarrow> bool" where
  "takes_lease w jid e w' \<longleftrightarrow>
     (\<exists>g allow ls eu ec now r. claim_finalization_job jid g allow ls eu ec now (w_db w) = (r, w_db w')
        \<and> fc_status r = ''claimed'' \<and> fc_lease_epoch r = Some e)"

lemma takes_leaseI:
  "claim_finalization_job jid g allow ls eu ec now (w_db w) = (r, w_db w') \<Longrightarrow> fc_status r = ''claimed'' \<Longrightarrow>
     fc_lease_epoch r = Some e \<Longrightarrow> takes_lease w jid e w'"
  unfolding takes_lease_def by blast

definition holds_lease :: "world \<Rightarrow> string \<Rightarrow> int \<Rightarrow> bool" where
  "holds_lease w jid e \<longleftrightarrow> (\<exists>j g. fs_jobs (w_db w) jid = Some j \<and> is_current_lease j g e)"

lemma sound_steps: "fin_step\<^sup>*\<^sup>* w w' \<Longrightarrow> world_inv w \<Longrightarrow> sound_step\<^sup>*\<^sup>* w w' \<and> world_inv w'"
  by (induction rule: rtranclp_induct)
    (auto simp: sound_step_def dest: fin_step_simulated intro: rtranclp.rtrancl_into_rtrancl)

lemma epoch_of_abs: "epoch_of w jid = abs_epoch (abs_of (w_db w)) jid"
  by (auto simp: epoch_of_def abs_epoch_def abs_of_def view_sels split: option.splits)

lemma generation_of_abs: "generation_of w jid = abs_generation (abs_of (w_db w)) jid"
  by (auto simp: generation_of_def abs_generation_def abs_of_def view_sels split: option.splits)

lemma claim_taken:
  assumes "claim_finalization_job jid g allow ls eu ec now st = (r, st')" "fc_status r = ''claimed''"
  obtains j j' where "fs_jobs st jid = Some j" "fs_jobs st' = (fs_jobs st)(jid \<mapsto> j')"
    "job_status j = ''queued'' \<or> job_status j = ''leased'' \<and> \<not> lease_unexpired j now" "job_generation j = g"
    "truthy (j_requires_byok j) \<longrightarrow> allow" "fc_lease_epoch r = Some (job_epoch j + 1)"
    "j_status j' = Some ''leased''" "j_lease_epoch j' = Some (job_epoch j + 1)"
    "j_lease_expires_at j' = Some (now + seconds ls)" "j_dispatch_generation j' = j_dispatch_generation j"
proof (cases "fs_jobs st jid")
  case None
  then show ?thesis using assms by (auto simp: claim_finalization_job_def claim_result_def)
next
  case (Some j)
  then show ?thesis
    using assms that [OF Some]
    by (simp add: claim_finalization_job_def claim_result_def Let_def TERMINAL_JOB_STATUSES_def
        split: if_split_asm) (elim conjE, force)+
qed

lemma claim_refused:
  assumes "claim_finalization_job jid g allow ls eu ec now st = (r, st')" "fc_status r \<noteq> ''claimed''"
  shows "st' = st"
proof (cases "fs_jobs st jid")
  case (Some j)
  then show ?thesis
    using assms by (simp add: claim_finalization_job_def Let_def split: if_split_asm) (elim conjE, force)+
qed (use assms in \<open>simp add: claim_finalization_job_def\<close>)

interpretation leases: epoch_fence sound_step epoch_of takes_lease holds_lease
proof unfold_locales
  show "epoch_of s k \<le> epoch_of t k" if "sound_step s t" for s t k
    using that fin_step_simulated [of s t] abs_epochs.step_grows by (simp add: sound_step_def epoch_of_abs)
  show "epoch_of s k < e \<and> epoch_of t k = e" if "takes_lease s k e t" for s k e t
    using that by (auto simp: takes_lease_def epoch_of_def int_or_0 elim!: claim_taken)
  show "epoch_of s k = e" if "holds_lease s k e" for s k e
    using that by (auto simp: holds_lease_def is_current_lease_def epoch_of_def)
qed

lemma no_lease_no_write:
  assumes "\<not> holds_lease w jid e"
  shows "snd (mark_finalization_completed jid g e now (w_db w)) = w_db w"
    and "snd (mark_finalization_fenced jid g e now (w_db w)) = w_db w"
    and "snd (claim_finalization_fanout jid g e now (w_db w)) = w_db w"
    and "snd (mark_finalization_fanout_completed jid g e now (w_db w)) = w_db w"
    and "snd (mark_finalization_retryable env jid g e code now (w_db w)) = w_db w"
    and "snd (mark_finalization_dead_letter jid g e retries now (w_db w)) = w_db w"
  using assms
  by (auto simp: holds_lease_def mark_finalization_completed_def mark_finalization_fenced_def
      claim_finalization_fanout_def mark_finalization_fanout_completed_def mark_finalization_retryable_def
      mark_finalization_dead_letter_def Let_def split: option.splits)

lemma claim_step: "fin_step w (w\<lparr>w_db := snd (claim_finalization_job jid g allow ls eu ec now (w_db w))\<rparr>)"
  by (rule fin_step.claim)

text \<open>C4: A worker whose lease was taken over is fenced for good: after a second worker has
  claimed the job, whatever happens in between and afterwards, none of the six lease-bound
  writes with the first worker's epoch changes the database.\<close>

theorem stale_worker_is_fenced:
  assumes "reachable w"
    and "claim_finalization_job jid g allow ls eu ec now (w_db w) = (r, st1)"
    and "fc_status r = ''claimed''" "fc_lease_epoch r = Some e"
    and "fin_step\<^sup>*\<^sup>* (w\<lparr>w_db := st1\<rparr>) u"
    and "claim_finalization_job jid g' allow' ls' eu' ec' now' (w_db u) = (r', st2)"
    and "fc_status r' = ''claimed''" "fc_lease_epoch r' = Some e'"
    and "fin_step\<^sup>*\<^sup>* (u\<lparr>w_db := st2\<rparr>) v"
  shows "e < e' \<and>
    snd (mark_finalization_completed jid d e t (w_db v)) = w_db v \<and>
    snd (mark_finalization_fenced jid d e t (w_db v)) = w_db v \<and>
    snd (claim_finalization_fanout jid d e t (w_db v)) = w_db v \<and>
    snd (mark_finalization_fanout_completed jid d e t (w_db v)) = w_db v \<and>
    snd (mark_finalization_retryable env jid d e code t (w_db v)) = w_db v \<and>
    snd (mark_finalization_dead_letter jid d e retries t (w_db v)) = w_db v"
proof -
  have t1: "takes_lease w jid e (w\<lparr>w_db := st1\<rparr>)" and t2: "takes_lease u jid e' (u\<lparr>w_db := st2\<rparr>)"
    using assms(2-4,6-8) by (simp_all add: takes_leaseI)
  have "world_inv (w\<lparr>w_db := st1\<rparr>)"
    using fin_step_simulated [OF claim_step reachable_inv [OF assms(1)], of jid g allow ls eu ec now] assms(2) by simp
  then have s1: "sound_step\<^sup>*\<^sup>* (w\<lparr>w_db := st1\<rparr>) u" "world_inv u"
    using sound_steps [OF assms(5)] by auto
  have "world_inv (u\<lparr>w_db := st2\<rparr>)"
    using fin_step_simulated [OF claim_step s1(2), of jid g' allow' ls' eu' ec' now'] assms(6) by simp
  then have "sound_step\<^sup>*\<^sup>* (u\<lparr>w_db := st2\<rparr>) v"
    using sound_steps [OF assms(9)] by auto
  then have "e < e' \<and> \<not> holds_lease v jid e"
    using leases.stale_owner_fenced [OF t1 s1(1) t2] by simp
  then show ?thesis by (simp add: no_lease_no_write)
qed

text \<open>Two claims of the sample job, the second after the first lease expired.\<close>

definition sample_st1 :: fstore where
  "sample_st1 = snd (claim_finalization_job sample_id 1 False 60 None None 10 (w_db sample_w1))"

definition sample_st2 :: fstore where
  "sample_st2 = snd (claim_finalization_job sample_id 1 False 60 None None (seconds 100) sample_st1)"

lemmas sample_eval = claim_finalization_job_def sample_w1_job sample_job_def new_job_def empty_job_def Let_def
  TERMINAL_JOB_STATUSES_def lease_unexpired_def seconds_def int_or_0

lemma sample_claims:
  "claim_finalization_job sample_id 1 False 60 None None 10 (w_db sample_w1) =
     (\<lparr>fc_status = ''claimed'', fc_lease_epoch = Some 1, fc_attempt_count = 1, fc_created_at = Some 0\<rparr>, sample_st1)"
  "claim_finalization_job sample_id 1 False 60 None None (seconds 100) sample_st1 =
     (\<lparr>fc_status = ''claimed'', fc_lease_epoch = Some 2, fc_attempt_count = 2, fc_created_at = Some 0\<rparr>, sample_st2)"
  by (rule prod_eqI; simp add: sample_st1_def sample_st2_def sample_eval)+

theorem stale_worker_is_fenced_witness:
  "(1::int) < 2 \<and>
   snd (mark_finalization_completed sample_id 1 1 (seconds 101) sample_st2) = sample_st2 \<and>
   snd (mark_finalization_dead_letter sample_id 1 1 3 (seconds 101) sample_st2) = sample_st2"
  using stale_worker_is_fenced [where w = sample_w1 and u = "sample_w1\<lparr>w_db := sample_st1\<rparr>"
      and v = "sample_w1\<lparr>w_db := sample_st2\<rparr>" and d = 1 and t = "seconds 101" and retries = 3,
      OF _ sample_claims(1)] sample_claims(2) sample_reachable
  by fastforce

text \<open>While a lease runs, no other claim of the job succeeds, whatever its generation,
  key permission, duration or expected identity, and the refused claim changes nothing.\<close>

theorem running_lease_excludes_claims:
  assumes "claim_finalization_job jid g allow ls eu ec now st = (r, st1)" "fc_status r = ''claimed''"
    and "now' < now + seconds ls"
    and "claim_finalization_job jid g' allow' ls' eu' ec' now' st1 = (r', st2)"
  shows "fc_status r' \<noteq> ''claimed'' \<and> st2 = st1"
proof -
  obtain j' where j': "fs_jobs st1 jid = Some j'" "j_status j' = Some ''leased''"
    "j_lease_expires_at j' = Some (now + seconds ls)"
    using assms(1,2) by (rule claim_taken) auto
  have "fc_status r' \<noteq> ''claimed''"
  proof
    assume "fc_status r' = ''claimed''"
    with assms(4) show False
      using j' assms(3) by (auto simp: lease_unexpired_def elim!: claim_taken)
  qed
  then show ?thesis using claim_refused [OF assms(4)] by simp
qed

theorem running_lease_excludes_claims_witness:
  "fc_status (fst (claim_finalization_job sample_id 1 True 60 None None 11 sample_st1)) \<noteq> ''claimed''"
  using running_lease_excludes_claims [OF sample_claims(1), of 11] by (simp add: seconds_def) (metis prod.collapse)

lemma reachable_generation_pos:
  assumes "reachable w" "fs_jobs (w_db w) jid = Some j"
  shows "1 \<le> job_generation j"
  using abs_generations.steps_grow [OF reachable_abs [OF assms(1)], of jid] abs_of_Some [OF assms(2)]
  by (simp add: abs_generation_def view_sels)

text \<open>A replay invalidates the task it replaces: once the reconciler has given a job a new
  dispatch generation, no task carrying the old generation, or any earlier one, can claim the
  job again in any later state.\<close>

theorem replayed_task_cannot_claim:
  assumes "reachable w" "jid \<in> w_candidates w" "fs_jobs (w_db w) jid = Some j"
    and "claim_finalization_replay jid stale now (w_db w) = (i, st1)"
    and "fi_dispatch_generation i = Some (job_generation j + 1)"
    and "fin_step\<^sup>*\<^sup>* (w\<lparr>w_db := st1\<rparr>) u" "g \<le> job_generation j"
    and "claim_finalization_job jid g allow ls eu ec now' (w_db u) = (r, st2)"
  shows "fc_status r \<noteq> ''claimed'' \<and> st2 = w_db u"
proof -
  have gen: "generation_of (w\<lparr>w_db := st1\<rparr>) jid = job_generation j + 1"
    using assms(3-5) reachable_generation_pos [OF assms(1,3)]
    by (auto simp: generation_of_def claim_finalization_replay_def intent_from_job_def Let_def split: if_splits)
  have "fin_step w (w\<lparr>w_db := st1\<rparr>)"
    using fin_step.replay [OF assms(2), of stale now] assms(4) by simp
  then have "world_inv (w\<lparr>w_db := st1\<rparr>)"
    using fin_step_simulated reachable_inv [OF assms(1)] by blast
  then have "generation_of (w\<lparr>w_db := st1\<rparr>) jid \<le> generation_of u jid"
    unfolding generation_of_abs
    by (intro abs_generations.steps_grow conjunct2 [OF fin_steps_simulated [OF assms(6)]])
  then have "fc_status r \<noteq> ''claimed''"
    using gen assms(7,8) by (auto simp: generation_of_def elim!: claim_taken)
  then show ?thesis using claim_refused [OF assms(8)] by simp
qed

definition sample_w4 :: world where
  "sample_w4 = sample_w1\<lparr>w_candidates := w_candidates sample_w1 \<union>
     fst ` set (get_finalization_replay_candidates [(sample_id, sample_job)] 10 (seconds 400))\<rparr>"

lemma sample_w4_facts:
  "reachable sample_w4" "w_db sample_w4 = w_db sample_w1" "sample_id \<in> w_candidates sample_w4"
proof -
  have "fin_step sample_w1 sample_w4"
    unfolding sample_w4_def by (rule fin_step.query) (simp add: sample_w1_job)
  then show "reachable sample_w4"
    using reachable_steps sample_reachable(3) by blast
  show "w_db sample_w4 = w_db sample_w1"
    by (simp add: sample_w4_def)
  show "sample_id \<in> w_candidates sample_w4"
    by (simp add: sample_w4_def get_finalization_replay_candidates_def sample_eval
        get_finalization_reconcile_stale_after_def env_int_def DEFAULT_RECONCILE_STALE_SECONDS_def)
qed

lemma sample_replay:
  "fi_dispatch_generation (fst (claim_finalization_replay sample_id (seconds 300) (seconds 400) (w_db sample_w1))) = Some 2"
  by (simp add: sample_eval claim_finalization_replay_def dispatch_fresh_def intent_from_job_def)

theorem replayed_task_cannot_claim_witness:
  "fc_status (fst (claim_finalization_job sample_id 1 False 60 None None (seconds 401)
     (snd (claim_finalization_replay sample_id (seconds 300) (seconds 400) (w_db sample_w1))))) \<noteq> ''claimed''"
  using replayed_task_cannot_claim [where w = sample_w4 and jid = sample_id and j = sample_job and g = 1
      and stale = "seconds 300" and now = "seconds 400" and u = "sample_w4\<lparr>w_db :=
        snd (claim_finalization_replay sample_id (seconds 300) (seconds 400) (w_db sample_w1))\<rparr>"
      and allow = False and ls = 60 and eu = None and ec = None and now' = "seconds 401"]
    sample_w4_facts sample_w1_job sample_replay
  by (simp add: prod_eq_iff sample_job_def new_job_def empty_job_def)

section \<open>Recovery\<close>

text \<open>C5: A stranded job is recovered: when the reconciler replays a candidate whose lease has
  run out, or whose queued task is overdue, the job gets the next dispatch generation and the
  task sent for that generation can claim it, taking the next lease epoch.\<close>

theorem stranded_job_is_recovered:
  assumes "reachable w" "jid \<in> w_candidates w" "fs_jobs (w_db w) jid = Some j"
    and "job_status j = ''leased'' \<and> \<not> lease_unexpired j now \<or> job_status j = ''queued'' \<and> \<not> dispatch_fresh j stale now"
  defines "st1 \<equiv> snd (claim_finalization_replay jid stale now (w_db w))"
  shows "fi_dispatch_generation (fst (claim_finalization_replay jid stale now (w_db w))) = Some (job_generation j + 1) \<and>
    fc_status (fst (claim_finalization_job jid (job_generation j + 1) False ls None None now' st1)) = ''claimed'' \<and>
    fc_lease_epoch (fst (claim_finalization_job jid (job_generation j + 1) False ls None None now' st1)) = Some (job_epoch j + 1)"
proof -
  have byok: "\<not> truthy (j_requires_byok j)"
    using reachable_inv [OF assms(1)] assms(2,3) by (auto simp: world_inv_def candidate_ok_def)
  have pos: "job_generation j + 1 \<noteq> 0"
    using reachable_generation_pos [OF assms(1,3)] by simp
  obtain j' where j': "fs_jobs st1 jid = Some j'" "j_status j' = Some ''queued''"
    "j_dispatch_generation j' = Some (job_generation j + 1)" "j_requires_byok j' = j_requires_byok j"
    "j_lease_epoch j' = j_lease_epoch j"
    using assms(3,4) by (auto simp: st1_def claim_finalization_replay_def TERMINAL_JOB_STATUSES_def Let_def)
  have "fi_dispatch_generation (fst (claim_finalization_replay jid stale now (w_db w))) = Some (job_generation j + 1)"
    using assms(3,4) pos
    by (auto simp: claim_finalization_replay_def intent_from_job_def TERMINAL_JOB_STATUSES_def Let_def)
  moreover have "fst (claim_finalization_job jid (job_generation j + 1) False ls None None now' st1) =
      \<lparr>fc_status = ''claimed'', fc_lease_epoch = Some (job_epoch j + 1),
       fc_attempt_count = int_or (j_attempt_count j') 0 + 1, fc_created_at = j_created_at j'\<rparr>"
    using j' byok pos by (simp add: claim_finalization_job_def TERMINAL_JOB_STATUSES_def Let_def)
  ultimately show ?thesis by simp
qed

theorem stranded_job_is_recovered_witness:
  "fc_status (fst (claim_finalization_job sample_id 2 False 60 None None (seconds 401)
     (snd (claim_finalization_replay sample_id (seconds 300) (seconds 400) (w_db sample_w1))))) = ''claimed''"
  using stranded_job_is_recovered [where w = sample_w4 and jid = sample_id and j = sample_job and ls = 60
      and stale = "seconds 300" and now = "seconds 400" and now' = "seconds 401"]
    sample_w4_facts sample_w1_job
  by (simp add: sample_job_def new_job_def empty_job_def dispatch_fresh_def seconds_def)

text \<open>C6: A job that needs the user's own keys is never among the replay candidates, in no
  reachable state, so the reconciler (which has no keys) never sends a task for it.\<close>

theorem byok_jobs_are_not_replayed:
  assumes "reachable w" "fs_jobs (w_db w) jid = Some j" "truthy (j_requires_byok j)"
    and "\<forall>r \<in> set rows. fs_jobs (w_db w) (fst r) = Some (snd r)"
  shows "jid \<notin> w_candidates w \<and> jid \<notin> fst ` set (get_finalization_replay_candidates rows limit now)"
proof -
  have "\<not> candidate_ok (w_db w) jid"
    using assms(2,3) by (simp add: candidate_ok_def)
  then show ?thesis
    using reachable_inv [OF assms(1)] query_candidates_ok [OF assms(4)] by (auto simp: world_inv_def)
qed

definition sample_w5 :: world where
  "sample_w5 = sample_w0\<lparr>w_db := snd (create_or_get_finalization_intent Map.empty sample_codec ''u'' ''c'' True
     sample_admit False (\<lambda>c. c) 0 (w_db sample_w0))\<rparr>"

lemma sample_w5_facts:
  "reachable sample_w5"
  "fs_jobs (w_db sample_w5) = [sample_id \<mapsto> new_job Map.empty ''u'' ''c'' 1 True sample_conversation False (Some ''k'') 0]"
proof -
  have "fin_step sample_w0 sample_w5"
    unfolding sample_w5_def by (rule fin_step.create)
  then show "reachable sample_w5"
    using reachable_steps sample_reachable(1) by blast
  show "fs_jobs (w_db sample_w5) = [sample_id \<mapsto> new_job Map.empty ''u'' ''c'' 1 True sample_conversation False (Some ''k'') 0]"
    by (simp add: sample_w5_def sample_w0_def create_or_get_finalization_intent_def sample_conversation_def
      empty_conversation_def conversation_has_finalization_content_def raw_conversation_has_content_def
      decode_transcript_segments_strict_def sample_admit_def sample_id_def Let_def)
qed

theorem byok_jobs_are_not_replayed_witness:
  "sample_id \<notin> w_candidates sample_w5"
  using byok_jobs_are_not_replayed [of sample_w5 sample_id _ "[]"] sample_w5_facts
  by (simp add: new_job_def)

section \<open>Admission and fanout happen once\<close>

text \<open>C7: A conversation generation is admitted once. After an admission created a job, every
  further admission of the conversation, by any caller with any decision, force flag, key mode
  or clock, returns that same job (or no job, where its guards refuse), creates nothing and
  leaves the database as it is.\<close>

theorem admission_is_idempotent:
  assumes "create_or_get_finalization_intent env codec uid cid byok admit force extra now st = (i, st1)" "fi_created i"
    and "create_or_get_finalization_intent env' codec' uid cid byok' admit' force' extra' now' st1 = (i', st2)"
  shows "st2 = st1 \<and> \<not> fi_created i' \<and> (fi_job_id i' = None \<or> fi_job_id i' = fi_job_id i)"
proof -
  obtain jid conv j where created: "fi_job_id i = Some jid" "jid \<noteq> ''''" "fs_jobs st1 jid = Some j"
    "fs_conversations st1 (uid, cid) = Some conv" "c_finalization_job_id conv = Some jid"
    using assms(1,2)
    by (auto simp: create_or_get_finalization_intent_def no_finalization_intent_def intent_from_job_def
        job_id_of_def Let_def split: option.splits if_splits)
  then have "nonempty_str (c_finalization_job_id conv) = Some jid"
    by (simp add: nonempty_str_def)
  then show ?thesis
    using created assms(3)
    by (auto simp: create_or_get_finalization_intent_def no_finalization_intent_def intent_from_job_def
        Let_def split: if_splits)
qed

lemma sample_created:
  "fi_created (fst (create_or_get_finalization_intent Map.empty sample_codec ''u'' ''c'' False
     sample_admit False (\<lambda>c. c) 0 (w_db sample_w0)))"
  by (simp add: sample_w0_def create_or_get_finalization_intent_def sample_conversation_def intent_from_job_def
      empty_conversation_def conversation_has_finalization_content_def raw_conversation_has_content_def
      decode_transcript_segments_strict_def sample_admit_def Let_def)

theorem admission_is_idempotent_witness:
  "snd (create_or_get_finalization_intent Map.empty sample_codec ''u'' ''c'' True sample_admit True (\<lambda>c. c) 7
     (w_db sample_w1)) = w_db sample_w1"
  using admission_is_idempotent [OF surjective_pairing sample_created surjective_pairing]
  by (simp add: sample_w1_def)

text \<open>A delivered fanout is not delivered again: once a job's fanout is marked completed, no
  worker with any generation or epoch obtains the fanout claim in any later state.\<close>

theorem completed_fanout_is_not_reopened:
  assumes "reachable w" "fs_jobs (w_db w) jid = Some j" "j_fanout_status j = Some ''completed''"
    and "fin_step\<^sup>*\<^sup>* w w'"
  shows "fo_status (fst (claim_finalization_fanout jid g e now (w_db w'))) \<noteq> ''claimed''"
proof -
  have "fanout_closed_at jid (abs_of (w_db w'))"
    using abs_fanout.steps_inv [OF conjunct2 [OF fin_steps_simulated [OF assms(4) reachable_inv [OF assms(1)]]], of jid]
      abs_of_Some [OF assms(2)] assms(3)
    by (simp add: fanout_closed_at_def fanout_closed_def view_sels)
  then obtain j' where "fs_jobs (w_db w') jid = Some j'"
    "j_fanout_status j' = Some ''completed'' \<or> job_status j' \<in> TERMINAL_JOB_STATUSES"
    by (auto simp: fanout_closed_at_def fanout_closed_def abs_of_def view_sels)
  then show ?thesis
    by (auto simp: claim_finalization_fanout_def is_current_lease_def TERMINAL_JOB_STATUSES_def Let_def)
qed

theorem completed_fanout_is_not_reopened_witness:
  "fo_status (fst (claim_finalization_fanout sample_id 1 0 9 (w_db sample_w2))) \<noteq> ''claimed''"
  using completed_fanout_is_not_reopened [of sample_w2 sample_id _ sample_w2 1 0 9] sample_w2_facts
  by (simp add: receipt_only_job_def)

text \<open>C8: The fanout claim is granted exactly to the current lease holder of a leased job whose fanout is
  not completed and whose conversation is completed, not discarded, and still bound to this job
  and revision; the grant records the holder's epoch and changes no other job. A holder whose
  conversation has moved on is fenced: the job becomes completed with outcome stale. Whoever
  else asks, a holder of an earlier generation or epoch included, is refused and changes
  nothing.\<close>

theorem fanout_granted_exactly_to_bound_holder:
  fixes jid g e now st
  defines "claim \<equiv> claim_finalization_fanout jid g e now st"
    and "holder j \<equiv> fs_jobs st jid = Some j \<and> j_status j = Some ''leased'' \<and> job_generation j = g \<and> job_epoch j = e \<and>
      j_fanout_status j \<noteq> Some ''completed''"
    and "current j \<equiv> \<exists>u c conv. j_uid j = Some u \<and> u \<noteq> '''' \<and> j_conversation_id j = Some c \<and> c \<noteq> '''' \<and>
      fs_conversations st (u, c) = Some conv \<and> c_status conv = Some ''completed'' \<and> \<not> truthy (c_discarded conv) \<and>
      c_finalization_job_id conv = Some jid \<and>
      int_or (c_finalization_revision conv) 0 = int_or (j_finalization_revision j) 0"
  shows "(fo_status (fst claim) = ''claimed'' \<longleftrightarrow> (\<exists>j. holder j \<and> current j)) \<and>
    (fo_status (fst claim) = ''claimed'' \<longrightarrow>
      (\<exists>j'. fs_jobs (snd claim) = (fs_jobs st)(jid \<mapsto> j') \<and> j_fanout_lease_epoch j' = Some e \<and> j_fanout_status j' = Some ''leased'')) \<and>
    ((\<exists>j. holder j \<and> \<not> current j) \<longrightarrow>
      (\<exists>j'. fs_jobs (snd claim) = (fs_jobs st)(jid \<mapsto> j') \<and> j_status j' = Some ''completed'' \<and>
         j_terminal_outcome j' = Some ''stale'' \<and> j_fanout_status j' = Some ''fenced'')) \<and>
    ((\<nexists>j. holder j) \<longrightarrow> fo_status (fst claim) \<in> {''missing'', ''completed'', ''lease_conflict''} \<and> snd claim = st)"
proof (cases "\<exists>j. holder j")
  case False
  then have none: "holder j \<longleftrightarrow> False" for j by blast
  moreover have "fo_status (fst claim) \<in> {''missing'', ''completed'', ''lease_conflict''} \<and> snd claim = st"
    using False by (auto simp: claim_def holder_def claim_finalization_fanout_def is_current_lease_def Let_def split: option.splits)
  ultimately show ?thesis by auto
next
  case True
  then obtain j where j: "holder j" by blast
  then have only: "holder j' \<longleftrightarrow> j' = j" for j' by (auto simp: holder_def)
  have bound: "current j \<longleftrightarrow> (\<exists>uc conv. bound_key j = Some uc \<and> fs_conversations st uc = Some conv \<and> conversation_admits_fanout conv j jid)"
    by (auto simp: current_def bound_key_def nonempty_str_def conversation_admits_fanout_def split: option.splits if_splits)
  have job: "fs_jobs st jid = Some j" "is_current_lease j g e" "j_fanout_status j \<noteq> Some ''completed''"
    using j by (simp_all add: holder_def is_current_lease_def)
  have "(fo_status (fst claim) = ''claimed'' \<longleftrightarrow> current j) \<and>
    (current j \<longrightarrow> (\<exists>j'. fs_jobs (snd claim) = (fs_jobs st)(jid \<mapsto> j') \<and> j_fanout_lease_epoch j' = Some e \<and>
       j_fanout_status j' = Some ''leased'')) \<and>
    (\<not> current j \<longrightarrow> (\<exists>j'. fs_jobs (snd claim) = (fs_jobs st)(jid \<mapsto> j') \<and> j_status j' = Some ''completed'' \<and>
       j_terminal_outcome j' = Some ''stale'' \<and> j_fanout_status j' = Some ''fenced''))"
    using job unfolding bound
    by (auto simp: claim_def claim_finalization_fanout_def fence_job_def fenced_finalization_update_def Let_def split: option.splits)
  then show ?thesis unfolding only by auto
qed

text \<open>The sample holder: its conversation is completed and bound; the next epoch is refused.\<close>

definition fanout_holder :: job where
  "fanout_holder = empty_job\<lparr>j_status := Some ''leased'', j_lease_epoch := Some 2, j_uid := Some ''u'', j_conversation_id := Some ''c''\<rparr>"

definition fanout_store :: fstore where
  "fanout_store = (set_job empty_store ''j'' fanout_holder)\<lparr>fs_conversations := [(''u'', ''c'') \<mapsto>
     empty_conversation\<lparr>c_status := Some ''completed'', c_finalization_job_id := Some ''j''\<rparr>]\<rparr>"

theorem fanout_granted_exactly_to_bound_holder_witness:
  "fo_status (fst (claim_finalization_fanout ''j'' 1 2 0 fanout_store)) = ''claimed'' \<and>
   fo_status (fst (claim_finalization_fanout ''j'' 1 1 0 fanout_store)) \<noteq> ''claimed'' \<and>
   snd (claim_finalization_fanout ''j'' 1 1 0 fanout_store) = fanout_store"
proof -
  have job: "fs_jobs fanout_store ''j'' = Some fanout_holder"
    by (simp add: fanout_store_def)
  have fields: "j_status fanout_holder = Some ''leased''" "job_generation fanout_holder = 1" "job_epoch fanout_holder = 2"
    "j_fanout_status fanout_holder = None" "j_uid fanout_holder = Some ''u''" "j_conversation_id fanout_holder = Some ''c''"
    "j_finalization_revision fanout_holder = None"
    by (simp_all add: fanout_holder_def empty_job_def)
  obtain conv where conv: "fs_conversations fanout_store (''u'', ''c'') = Some conv" "c_status conv = Some ''completed''"
    "\<not> truthy (c_discarded conv)" "c_finalization_job_id conv = Some ''j''" "c_finalization_revision conv = None"
    by (simp add: fanout_store_def empty_conversation_def)
  have "fo_status (fst (claim_finalization_fanout ''j'' 1 2 0 fanout_store)) = ''claimed''"
    using fanout_granted_exactly_to_bound_holder [of "''j''" 1 2 0 fanout_store] job fields conv by simp
  moreover have "fo_status (fst (claim_finalization_fanout ''j'' 1 1 0 fanout_store)) \<in> {''missing'', ''completed'', ''lease_conflict''} \<and>
      snd (claim_finalization_fanout ''j'' 1 1 0 fanout_store) = fanout_store"
    using fanout_granted_exactly_to_bound_holder [of "''j''" 1 1 0 fanout_store] job fields by simp
  ultimately show ?thesis by auto
qed

section \<open>Closing what cannot be finished\<close>

text \<open>A dead letter fails exactly the conversation the job still owns. The final failure of
  the lease holder turns the owned, still processing conversation into a failed, discarded one
  in the same transaction; every other conversation, and an owned one that already left
  processing, keeps its document, and no other job changes.\<close>

theorem dead_letter_fails_only_its_own_conversation:
  fixes retries now
  assumes "fs_jobs st jid = Some j" "is_current_lease j g e"
  defines "st' \<equiv> snd (mark_finalization_dead_letter jid g e retries now st)"
  shows "fs_conversations st' (u, c) =
      (case fs_conversations st (u, c) of
         Some conv \<Rightarrow>
           if bound_key j = Some (u, c) \<and> owns_generation jid j conv \<and> c_status conv = Some ''processing''
              \<and> \<not> truthy (c_discarded conv)
           then Some (conv\<lparr>c_status := Some ''failed'', c_discarded := Some True,
                           c_finalization_status := Some ''dead_letter''\<rparr>)
           else Some conv
       | None \<Rightarrow> None) \<and>
    (\<exists>j'. fs_jobs st' = (fs_jobs st)(jid \<mapsto> j') \<and> j_status j' = Some ''dead_letter'' \<and>
       j_terminal_outcome j' = Some ''failure'' \<and> j_reconcile_after_at j' = None)"
  using assms(1,2)
  by (auto simp: st'_def mark_finalization_dead_letter_def Let_def split: option.splits prod.splits)

theorem dead_letter_fails_only_its_own_conversation_witness:
  "fs_conversations (snd (mark_finalization_dead_letter ''j'' 1 1 5 9
     (set_conversation (set_job empty_store ''j'' (empty_job\<lparr>j_status := Some ''leased'', j_lease_epoch := Some 1,
          j_uid := Some ''u'', j_conversation_id := Some ''c'', j_finalization_revision := Some 1\<rparr>))
        ''u'' ''c'' (empty_conversation\<lparr>c_status := Some ''processing'', c_finalization_job_id := Some ''j'',
          c_finalization_revision := Some 1\<rparr>)))) (''u'', ''c'') =
   Some (empty_conversation\<lparr>c_status := Some ''failed'', c_discarded := Some True, c_finalization_job_id := Some ''j'',
          c_finalization_revision := Some 1, c_finalization_status := Some ''dead_letter''\<rparr>)"
  using dead_letter_fails_only_its_own_conversation [where jid = "''j''" and g = 1 and e = 1 and retries = 5 and now = 9
      and j = "empty_job\<lparr>j_status := Some ''leased'', j_lease_epoch := Some 1, j_uid := Some ''u'',
        j_conversation_id := Some ''c'', j_finalization_revision := Some 1\<rparr>"
      and st = "set_conversation (set_job empty_store ''j'' (empty_job\<lparr>j_status := Some ''leased'', j_lease_epoch := Some 1,
          j_uid := Some ''u'', j_conversation_id := Some ''c'', j_finalization_revision := Some 1\<rparr>))
        ''u'' ''c'' (empty_conversation\<lparr>c_status := Some ''processing'', c_finalization_job_id := Some ''j'',
          c_finalization_revision := Some 1\<rparr>)" and u = "''u''" and c = "''c''"]
  by (simp add: is_current_lease_def empty_job_def empty_conversation_def bound_key_def owns_generation_def)

text \<open>The sweep abandons only what nobody can be working on. It changes the database only for
  a key-bound job in the status, generation and epoch it was selected in, without a running
  lease, and idle for the whole cutoff; then the job is a dead letter, and its conversation is
  completed only when the job still owns it and it was processing and not deferred.\<close>

theorem abandonment_is_conservative:
  assumes "abandon_byok_finalization_job jid es eg ee after now st = (r, st')" "st' \<noteq> st"
  shows "\<exists>j j' t. fs_jobs st jid = Some j \<and> fs_jobs st' = (fs_jobs st)(jid \<mapsto> j') \<and>
    truthy (j_requires_byok j) \<and> job_status j = es \<and> job_status j \<in> {''queued'', ''leased''} \<and>
    job_generation j = eg \<and> job_epoch j = ee \<and> \<not> (job_status j = ''leased'' \<and> lease_unexpired j now) \<and>
    job_last_activity_at j = Some t \<and> t \<le> now - after \<and> j_status j' = Some ''dead_letter'' \<and>
    j_terminal_outcome j' = Some ''failure'' \<and> ba_status r = ''abandoned'' \<and>
    (\<forall>k conv. fs_conversations st k = Some conv \<longrightarrow>
       fs_conversations st' k = Some conv \<or>
       bound_key j = Some k \<and> owns_generation jid j conv \<and> c_status conv = Some ''processing'' \<and>
       \<not> truthy (c_discarded conv) \<and> \<not> truthy (c_deferred conv) \<and>
       fs_conversations st' k = Some (conv\<lparr>c_status := Some ''completed'', c_finalization_status := Some ''dead_letter''\<rparr>))"
proof (cases "fs_jobs st jid")
  case None
  then show ?thesis using assms by (simp add: abandon_byok_finalization_job_def Let_def)
next
  case (Some j)
  have guards: "truthy (j_requires_byok j)" "job_status j = es" "job_status j \<in> {''queued'', ''leased''}"
    "job_generation j = eg" "job_epoch j = ee" "\<not> (job_status j = ''leased'' \<and> lease_unexpired j now)"
    "\<not> activity_after j (now - after)"
    using assms Some by (auto simp: abandon_byok_finalization_job_def Let_def split: if_split_asm)
  then obtain t where t: "job_last_activity_at j = Some t" "t \<le> now - after"
    by (auto simp: activity_after_def split: option.splits)
  let ?j' = "j\<lparr>j_status := Some ''dead_letter'', j_updated_at := Some now, j_terminal_at := Some now,
               j_terminal_outcome := Some ''failure'', j_finalization_outcome := Some BYOK_ABANDONED_FAILURE_CODE,
               j_lease_expires_at := Some now, j_reconcile_after_at := None, j_fanout_status := Some ''fenced'',
               j_fanout_fenced_at := Some now, j_last_failure_code := Some BYOK_ABANDONED_FAILURE_CODE\<rparr>"
  have jobs: "fs_jobs st' = (fs_jobs st)(jid \<mapsto> ?j')" "ba_status r = ''abandoned''"
    using assms(1) Some guards
    by (auto simp: abandon_byok_finalization_job_def Let_def split: option.splits prod.splits if_split_asm)
  have convs: "fs_conversations st' k = Some conv \<or>
       bound_key j = Some k \<and> owns_generation jid j conv \<and> c_status conv = Some ''processing'' \<and>
       \<not> truthy (c_discarded conv) \<and> \<not> truthy (c_deferred conv) \<and>
       fs_conversations st' k = Some (conv\<lparr>c_status := Some ''completed'', c_finalization_status := Some ''dead_letter''\<rparr>)"
    if "fs_conversations st k = Some conv" for k conv
    using assms(1) Some guards that
    by (auto simp: abandon_byok_finalization_job_def Let_def split: option.splits prod.splits if_split_asm)
  show ?thesis
    using Some guards t jobs convs by (intro exI [of _ j] exI [of _ ?j'] exI [of _ t]) simp
qed

theorem abandonment_is_conservative_witness:
  "\<exists>j'. fs_jobs (snd (abandon_byok_finalization_job ''j'' ''queued'' 1 0 5 9
     (set_job empty_store ''j'' (empty_job\<lparr>j_status := Some ''queued'', j_requires_byok := Some True, j_updated_at := Some 2\<rparr>))))
     ''j'' = Some j' \<and> j_status j' = Some ''dead_letter''"
proof -
  let ?st = "set_job empty_store ''j'' (empty_job\<lparr>j_status := Some ''queued'', j_requires_byok := Some True, j_updated_at := Some 2\<rparr>)"
  let ?r = "abandon_byok_finalization_job ''j'' ''queued'' 1 0 5 9 ?st"
  have "fs_jobs (snd ?r) ''j'' \<noteq> fs_jobs ?st ''j''"
    by (simp add: abandon_byok_finalization_job_def empty_job_def activity_after_def job_last_activity_at_def Let_def
        bound_key_def)
  then have "snd ?r \<noteq> ?st" by metis
  then show ?thesis
    using abandonment_is_conservative [of "''j''" "''queued''" 1 0 5 9 ?st "fst ?r" "snd ?r"] by auto
qed

end
