(* ===== verification/Reconciliation.thy ===== *)
theory Reconciliation
  imports Sweeps Finalization_Theorems
begin

text \<open>
  The periodic reconcilers of \<^verbatim>\<open>backend/services/conversation_finalization.py\<close> over the outbox
  and its sweeps. A call that leaves the process (Firestore, Cloud Tasks) may raise: which calls
  do is a parameter, and a raised transaction has written nothing. Metrics and logs are left
  out. Also the bounded outer retry of \<^verbatim>\<open>backend/database/firestore_transaction_retry.py\<close>.
\<close>

section \<open>Bounded retry of contended transactions\<close>

text \<open>An exception with its chain of causes lives in a heap of (is it \<^verbatim>\<open>Aborted\<close>, cause) cells, so
  that a cyclic chain can be expressed.\<close>

type_synonym exception_heap = "(bool \<times> nat option) list"

function is_transaction_contention :: "exception_heap \<Rightarrow> nat option \<Rightarrow> nat list \<Rightarrow> bool" where
  "is_transaction_contention heap current seen =
     (case current of
        None \<Rightarrow> False
      | Some i \<Rightarrow>
          if i \<in> set seen \<or> length heap \<le> i then False
          else if fst (heap ! i) then True
          else is_transaction_contention heap (snd (heap ! i)) (i # seen))"
  by pat_completeness auto
termination
proof (relation "measure (\<lambda>(heap, _, seen). card ({..<length heap} - set seen))", goal_cases)
  case (2 heap current seen i)
  then have "i \<in> {..<length heap} - set seen" by simp
  then have "{..<length heap} - set (i # seen) \<subset> {..<length heap} - set seen" by fastforce
  then have "card ({..<length heap} - set (i # seen)) < card ({..<length heap} - set seen)"
    by (intro psubset_card_mono) simp_all
  then show ?case by simp
qed simp

declare is_transaction_contention.simps [simp del]

text \<open>What one attempt of a transaction does: commit with a result, or raise an exception.\<close>

datatype 'a attempt = Committed 'a | Raised exception_heap nat

datatype 'a retry_result = Result 'a | Propagated exception_heap nat | Contention_Exhausted | Bad_Max_Attempts

definition retry_delay :: "nat \<Rightarrow> rat \<Rightarrow> rat" where
  "retry_delay attempt random =
     (let high_delay = min (1 / 5 * 2 ^ (attempt - 1)) 1;
          low_delay = high_delay / 2;
          jitter = min (max random 0) 1
      in low_delay + (high_delay - low_delay) * jitter)"

text \<open>\<open>operation k\<close> is the outcome of the \<open>k\<close>-th attempt; the second component of the result is the
  list of delays slept.\<close>

function retry_from ::
    "(nat \<Rightarrow> 'a attempt) \<Rightarrow> (nat \<Rightarrow> rat) \<Rightarrow> nat \<Rightarrow> nat \<Rightarrow> 'a retry_result \<times> rat list" where
  "retry_from operation random_value max_attempts attempt =
     (case operation attempt of
        Committed x \<Rightarrow> (Result x, [])
      | Raised heap e \<Rightarrow>
          if \<not> is_transaction_contention heap (Some e) [] then (Propagated heap e, [])
          else if attempt \<ge> max_attempts then (Contention_Exhausted, [])
          else (case retry_from operation random_value max_attempts (attempt + 1) of
                  (r, delays) \<Rightarrow> (r, retry_delay attempt (random_value attempt) # delays)))"
  by pat_completeness auto
termination
  by (relation "measure (\<lambda>(_, _, m, a). m - a)") auto

declare retry_from.simps [simp del]

definition run_with_transaction_contention_retry ::
    "(nat \<Rightarrow> 'a attempt) \<Rightarrow> (nat \<Rightarrow> rat) \<Rightarrow> int \<Rightarrow> 'a retry_result \<times> rat list" where
  "run_with_transaction_contention_retry operation random_value max_attempts =
     (if max_attempts < 1 then (Bad_Max_Attempts, [])
      else retry_from operation random_value (nat max_attempts) 1)"

section \<open>Replaying stale jobs\<close>

definition is_listen_finalization_dispatch_enabled :: "environ \<Rightarrow> bool" where
  "is_listen_finalization_dispatch_enabled env \<longleftrightarrow>
     (case env ''LISTEN_FINALIZATION_DISPATCH_MODE'' of None \<Rightarrow> ''inline'' | Some s \<Rightarrow> s) = ''cloud_tasks''"

record replay_pass =
  rp_requeued :: nat
  rp_skipped :: nat
  rp_enqueue_failed :: nat
  rp_error :: nat
  rp_tasks :: "(string \<times> int) list"
  rp_db :: fstore

text \<open>The calls of one pass: which replay transactions and enqueues raise, and the clock each
  transaction reads.\<close>

record replay_io =
  claim_raises :: "string \<Rightarrow> bool"
  enqueue_raises :: "string \<Rightarrow> int \<Rightarrow> bool"
  claim_clock :: "string \<Rightarrow> timestamp"

definition replay_one :: "replay_io \<Rightarrow> duration \<Rightarrow> string \<Rightarrow> replay_pass \<Rightarrow> replay_pass" where
  "replay_one io stale_after jid p =
     (if jid = '''' then p\<lparr>rp_skipped := rp_skipped p + 1\<rparr>
      else if claim_raises io jid then p\<lparr>rp_skipped := rp_skipped p + 1\<rparr>
      else
        (case claim_finalization_replay jid stale_after (claim_clock io jid) (rp_db p) of
           (claimed, st) \<Rightarrow>
             (case fi_dispatch_generation claimed of
                None \<Rightarrow> p\<lparr>rp_skipped := rp_skipped p + 1, rp_db := st\<rparr>
              | Some generation \<Rightarrow>
                  if fi_status claimed \<noteq> ''queued'' then p\<lparr>rp_skipped := rp_skipped p + 1, rp_db := st\<rparr>
                  else if enqueue_raises io jid generation then
                    p\<lparr>rp_enqueue_failed := rp_enqueue_failed p + 1, rp_db := st\<rparr>
                  else p\<lparr>rp_requeued := rp_requeued p + 1, rp_tasks := rp_tasks p @ [(jid, generation)],
                         rp_db := st\<rparr>)))"

definition reconcile_listen_finalization_jobs ::
    "environ \<Rightarrow> replay_io \<Rightarrow> (string \<times> job) list option \<Rightarrow> int \<Rightarrow> timestamp \<Rightarrow> fstore \<Rightarrow> replay_pass" where
  "reconcile_listen_finalization_jobs env io rows limit now st =
     (let p0 = \<lparr>rp_requeued = 0, rp_skipped = 0, rp_enqueue_failed = 0, rp_error = 0, rp_tasks = [], rp_db = st\<rparr> in
      if \<not> is_listen_finalization_dispatch_enabled env then p0
      else (case rows of
              None \<Rightarrow> p0\<lparr>rp_error := 1\<rparr>
            | Some rs \<Rightarrow>
                fold (replay_one io (get_finalization_reconcile_stale_after env))
                  (map fst (get_finalization_replay_candidates rs limit now)) p0))"

section \<open>Closing stranded conversations\<close>

datatype stamp_outcome = Stamp_Runs | Stamp_Too_Large | Stamp_Raises

text \<open>The calls of one pass: the cursor read and advance, the query, and per row the stamp and the
  terminal write, with the clocks they read.\<close>

record sweep_io =
  cursor_raises :: bool
  query_raises :: bool
  advance_raises :: bool
  advance_clock :: timestamp
  row_stamp :: "string \<Rightarrow> string \<Rightarrow> stamp_outcome"
  row_raises :: "string \<Rightarrow> string \<Rightarrow> bool"
  row_clock :: "string \<Rightarrow> string \<Rightarrow> timestamp"

record orphan_pass =
  op_completed :: nat
  op_migrated :: nat
  op_skipped :: nat
  op_error :: nat
  op_db :: fstore

definition orphan_count :: "(bool \<times> fstore) \<Rightarrow> (orphan_pass \<Rightarrow> orphan_pass) \<Rightarrow> orphan_pass \<Rightarrow> orphan_pass" where
  "orphan_count outcome done p =
     (let p1 = p\<lparr>op_db := snd outcome\<rparr> in if fst outcome then done p1 else p1\<lparr>op_skipped := op_skipped p1 + 1\<rparr>)"

definition reconcile_orphan :: "sweep_io \<Rightarrow> duration \<Rightarrow> orphan_candidate \<Rightarrow> orphan_pass \<Rightarrow> orphan_pass" where
  "reconcile_orphan io stale_after cand p =
     (let uid = oc_uid cand; cid = oc_conversation_id cand; now = row_clock io uid cid;
          failed = p\<lparr>op_error := op_error p + 1\<rparr> in
      if oc_legacy cand then
        (case row_stamp io uid cid of
           Stamp_Runs \<Rightarrow>
             orphan_count (stamp_processing_admission_if_absent uid cid now (op_db p))
               (\<lambda>q. q\<lparr>op_migrated := op_migrated q + 1\<rparr>) p
         | Stamp_Raises \<Rightarrow> failed
         | Stamp_Too_Large \<Rightarrow>
             if row_raises io uid cid then failed
             else orphan_count (complete_unstampable_orphan_conversation uid cid stale_after now (op_db p))
                    (\<lambda>q. q\<lparr>op_completed := op_completed q + 1\<rparr>) p)
      else if row_raises io uid cid then failed
      else orphan_count (complete_orphan_conversation uid cid (oc_processing_admitted_at cand) (op_db p))
             (\<lambda>q. q\<lparr>op_completed := op_completed q + 1\<rparr>) p)"

definition orphan_sweep ::
    "environ \<Rightarrow> sweep_io \<Rightarrow> (string \<Rightarrow> bool) \<Rightarrow> conversation fetch \<Rightarrow> int \<Rightarrow> timestamp \<Rightarrow> fstore \<Rightarrow>
     orphan_candidate sweep_result" where
  "orphan_sweep env io exists fetch limit now st =
     (let cursor = (if cursor_raises io then (None, 0) else get_stale_processing_sweep_cursor st) in
      get_stale_processing_orphan_candidates exists fetch (get_stale_processing_orphan_after env) limit 2000
        (fst cursor) now)"

definition reconcile_stale_processing_conversations ::
    "environ \<Rightarrow> sweep_io \<Rightarrow> (string \<Rightarrow> bool) \<Rightarrow> conversation fetch \<Rightarrow> int \<Rightarrow> timestamp \<Rightarrow> fstore \<Rightarrow> orphan_pass" where
  "reconcile_stale_processing_conversations env io exists fetch limit now st =
     (let stale_after = get_stale_processing_orphan_after env;
          cursor = (if cursor_raises io then (None, 0) else get_stale_processing_sweep_cursor st);
          p0 = \<lparr>op_completed = 0, op_migrated = 0, op_skipped = 0, op_error = 0, op_db = st\<rparr> in
      if query_raises io then p0\<lparr>op_error := 1\<rparr>
      else
        let sweep = orphan_sweep env io exists fetch limit now st;
            next_cursor = (if sw_exhausted sweep then None else sw_resume_after_path sweep);
            st1 = (if advance_raises io then st
                   else snd (advance_stale_processing_sweep_cursor (snd cursor) next_cursor (advance_clock io) st))
        in fold (reconcile_orphan io stale_after) (sw_candidates sweep) (p0\<lparr>op_db := st1\<rparr>))"

section \<open>Disposing of abandoned jobs\<close>

definition TRUE_WORDS :: "string list" where
  "TRUE_WORDS = [''1'', ''true'', ''yes'', ''on'']"

definition env_flag :: "environ \<Rightarrow> string \<Rightarrow> string \<Rightarrow> bool" where
  "env_flag env name dflt \<longleftrightarrow>
     map lower_char (strip (case env name of None \<Rightarrow> dflt | Some s \<Rightarrow> s)) \<in> set TRUE_WORDS"

definition is_byok_abandonment_sweep_enabled :: "environ \<Rightarrow> bool" where
  "is_byok_abandonment_sweep_enabled env \<longleftrightarrow>
     env_flag env ''LISTEN_FINALIZATION_BYOK_ABANDONMENT_ENABLED'' ''true''"

record byok_pass =
  bp_abandoned :: nat
  bp_conversations_closed :: nat
  bp_skipped :: nat
  bp_error :: nat
  bp_db :: fstore

record byok_io =
  bio_cursor_raises :: bool
  bio_query_raises :: bool
  bio_advance_raises :: bool
  bio_advance_clock :: timestamp
  bio_row_raises :: "string \<Rightarrow> bool"
  bio_row_clock :: "string \<Rightarrow> timestamp"

definition dispose_job :: "byok_io \<Rightarrow> duration \<Rightarrow> string \<times> job \<Rightarrow> byok_pass \<Rightarrow> byok_pass" where
  "dispose_job io abandoned_after cand p =
     (let jid = fst cand; j = snd cand in
      if jid = '''' then p\<lparr>bp_skipped := bp_skipped p + 1\<rparr>
      else if bio_row_raises io jid then p\<lparr>bp_error := bp_error p + 1\<rparr>
      else
        (case abandon_byok_finalization_job jid (job_status j) (job_generation j) (job_epoch j) abandoned_after
                (bio_row_clock io jid) (bp_db p) of
           (disposition, st) \<Rightarrow>
             if ba_status disposition \<noteq> ''abandoned'' then p\<lparr>bp_skipped := bp_skipped p + 1, bp_db := st\<rparr>
             else p\<lparr>bp_abandoned := bp_abandoned p + 1, bp_db := st,
                    bp_conversations_closed :=
                      bp_conversations_closed p + (if ba_conversation_outcome disposition = ''closed'' then 1 else 0)\<rparr>))"

definition byok_sweep ::
    "environ \<Rightarrow> byok_io \<Rightarrow> (string \<Rightarrow> bool) \<Rightarrow> job fetch \<Rightarrow> int \<Rightarrow> timestamp \<Rightarrow> fstore \<Rightarrow> (string \<times> job) sweep_result" where
  "byok_sweep env io exists fetch limit now st =
     (let cursor = (if bio_cursor_raises io then (None, 0) else get_byok_abandonment_sweep_cursor st) in
      get_abandoned_byok_job_candidates exists fetch (get_byok_abandoned_after env) limit 2000 (fst cursor) now)"

definition reconcile_abandoned_byok_finalization_jobs ::
    "environ \<Rightarrow> byok_io \<Rightarrow> (string \<Rightarrow> bool) \<Rightarrow> job fetch \<Rightarrow> int \<Rightarrow> timestamp \<Rightarrow> fstore \<Rightarrow> byok_pass" where
  "reconcile_abandoned_byok_finalization_jobs env io exists fetch limit now st =
     (let p0 = \<lparr>bp_abandoned = 0, bp_conversations_closed = 0, bp_skipped = 0, bp_error = 0, bp_db = st\<rparr> in
      if \<not> is_byok_abandonment_sweep_enabled env then p0
      else if bio_query_raises io then p0\<lparr>bp_error := 1\<rparr>
      else
        let cursor = (if bio_cursor_raises io then (None, 0) else get_byok_abandonment_sweep_cursor st);
            sweep = byok_sweep env io exists fetch limit now st;
            next_cursor = (if sw_exhausted sweep then None else sw_resume_after_path sweep);
            st1 = (if bio_advance_raises io then st
                   else snd (advance_byok_abandonment_sweep_cursor (snd cursor) next_cursor (bio_advance_clock io) st))
        in fold (dispose_job io (get_byok_abandoned_after env)) (sw_candidates sweep) (p0\<lparr>bp_db := st1\<rparr>))"

text \<open>The worker's last attempt; the metrics it also records do not change the outcome.\<close>

definition final_attempt_failed :: "string \<Rightarrow> int \<Rightarrow> int \<Rightarrow> int \<Rightarrow> timestamp \<Rightarrow> fstore \<Rightarrow> bool \<times> fstore" where
  "final_attempt_failed job_id dispatch_generation lease_epoch retry_count now st =
     mark_finalization_dead_letter job_id dispatch_generation lease_epoch retry_count now st"

section \<open>Retry\<close>

definition contended :: "'a attempt \<Rightarrow> bool" where
  "contended a \<longleftrightarrow> (case a of Committed x \<Rightarrow> False | Raised heap e \<Rightarrow> is_transaction_contention heap (Some e) [])"

lemma retry_delay_bounds: "1 \<le> attempt \<Longrightarrow> 1 / 10 \<le> retry_delay attempt random \<and> retry_delay attempt random \<le> 1"
proof -
  define high where "high = min (1 / 5 * 2 ^ (attempt - 1)) (1 :: rat)"
  define jitter where "jitter = min (max random 0) 1"
  have h: "1 / 5 \<le> high" "high \<le> 1"
    using one_le_power [of "2 :: rat" "attempt - 1"] by (simp_all add: high_def)
  have j: "0 \<le> jitter" "jitter \<le> 1" by (simp_all add: jitter_def)
  have "retry_delay attempt random = high / 2 + (high * jitter) / 2"
    by (simp add: retry_delay_def high_def jitter_def Let_def field_simps)
  moreover have "0 \<le> high * jitter" "high * jitter \<le> high"
    using h j mult_left_le [of jitter high] by (auto intro: mult_nonneg_nonneg)
  ultimately show ?thesis using h by linarith
qed

lemma retry_from_delays:
  "1 \<le> a \<Longrightarrow> a \<le> m \<Longrightarrow> length (snd (retry_from f rnd m a)) \<le> m - a \<and>
     (\<forall>d \<in> set (snd (retry_from f rnd m a)). 1 / 10 \<le> d \<and> d \<le> 1)"
proof (induction f rnd m a rule: retry_from.induct)
  case (1 f rnd m a)
  show ?case
  proof (cases "contended (f a) \<and> a < m")
    case True
    then obtain heap e where f: "f a = Raised heap e" "is_transaction_contention heap (Some e) []" "\<not> m \<le> a"
      by (auto simp: contended_def split: attempt.splits)
    then show ?thesis
      using 1(1) [OF f(1)] 1(2) retry_delay_bounds [of a "rnd a"]
      by (subst (1 2) retry_from.simps) (auto split: prod.splits)
  next
    case False
    then show ?thesis
      by (subst (1 2) retry_from.simps) (auto simp: contended_def split: attempt.splits)
  qed
qed

lemma retry_from_result:
  "a \<le> k \<Longrightarrow> k \<le> m \<Longrightarrow> \<not> contended (f k) \<Longrightarrow> (\<forall>i. a \<le> i \<and> i < k \<longrightarrow> contended (f i)) \<Longrightarrow>
     fst (retry_from f rnd m a) = (case f k of Committed x \<Rightarrow> Result x | Raised heap e \<Rightarrow> Propagated heap e)"
proof (induction f rnd m a rule: retry_from.induct)
  case (1 f rnd m a)
  show ?case
  proof (cases "a = k")
    case True
    then show ?thesis
      using 1(4) by (subst retry_from.simps) (auto simp: contended_def split: attempt.splits)
  next
    case False
    then have "contended (f a)" "a < k" using 1(2,5) by auto
    then obtain heap e where f: "f a = Raised heap e" "is_transaction_contention heap (Some e) []" "\<not> m \<le> a"
      using 1(3) by (auto simp: contended_def split: attempt.splits)
    then show ?thesis
      using 1(1) [OF f(1)] 1(3-5) \<open>a < k\<close> by (subst retry_from.simps) (auto split: prod.splits)
  qed
qed

lemma retry_from_exhausted:
  "a \<le> m \<Longrightarrow> (\<forall>i. a \<le> i \<and> i \<le> m \<longrightarrow> contended (f i)) \<Longrightarrow> fst (retry_from f rnd m a) = Contention_Exhausted"
proof (induction f rnd m a rule: retry_from.induct)
  case (1 f rnd m a)
  then have "contended (f a)" by simp
  then obtain heap e where f: "f a = Raised heap e" "is_transaction_contention heap (Some e) []"
    by (auto simp: contended_def split: attempt.splits)
  show ?case
  proof (cases "m \<le> a")
    case True
    then show ?thesis using f by (subst retry_from.simps) simp
  next
    case False
    then show ?thesis
      using 1(1) [OF f(1)] 1(3) f by (subst retry_from.simps) (auto split: prod.splits)
  qed
qed

text \<open>C12: The contention retry is bounded and transparent: it returns the first outcome that is
  not contention if one comes within the allowed attempts (a result as a result, any other
  exception as itself), gives up as exhausted exactly when all of them contend, and sleeps at
  most one time fewer than it attempts, each time between a tenth of a second and one second.\<close>

theorem contention_retry_is_bounded:
  assumes "1 \<le> max_attempts"
  shows "length (snd (run_with_transaction_contention_retry f rnd max_attempts)) < nat max_attempts \<and>
    (\<forall>d \<in> set (snd (run_with_transaction_contention_retry f rnd max_attempts)). 1 / 10 \<le> d \<and> d \<le> 1) \<and>
    (\<forall>k. 1 \<le> k \<and> k \<le> nat max_attempts \<and> \<not> contended (f k) \<and> (\<forall>i. 1 \<le> i \<and> i < k \<longrightarrow> contended (f i)) \<longrightarrow>
       fst (run_with_transaction_contention_retry f rnd max_attempts) =
         (case f k of Committed x \<Rightarrow> Result x | Raised heap e \<Rightarrow> Propagated heap e)) \<and>
    ((\<forall>i. 1 \<le> i \<and> i \<le> nat max_attempts \<longrightarrow> contended (f i)) \<longrightarrow>
       fst (run_with_transaction_contention_retry f rnd max_attempts) = Contention_Exhausted)"
proof -
  have run: "run_with_transaction_contention_retry f rnd max_attempts = retry_from f rnd (nat max_attempts) 1"
    using assms by (simp add: run_with_transaction_contention_retry_def)
  have n: "1 \<le> nat max_attempts" using assms by simp
  have "length (snd (retry_from f rnd (nat max_attempts) 1)) < nat max_attempts"
    using retry_from_delays [OF _ n, of f rnd] n by linarith
  then show ?thesis
    unfolding run using retry_from_delays [OF _ n, of f rnd] retry_from_exhausted [OF n, of f rnd]
    by (auto intro: retry_from_result)
qed

theorem contention_retry_is_bounded_witness:
  "fst (run_with_transaction_contention_retry (\<lambda>k. if k < 3 then Raised [(False, Some 1), (True, Some 0)] 0 else Committed True)
     (\<lambda>_. 0) 5) = Result True"
proof -
  have "is_transaction_contention [(False, Some 1), (True, Some 0)] (Some 0) []"
    by (simp add: is_transaction_contention.simps)
  then show ?thesis
    using contention_retry_is_bounded [of 5 "\<lambda>k. if k < 3 then Raised [(False, Some 1), (True, Some 0)] 0 else Committed True" "\<lambda>_. 0"]
    by (auto simp: contended_def dest!: spec [of _ 3])
qed

section \<open>Passes as executions of the outbox\<close>

lemma replay_frame: "k \<noteq> jid \<Longrightarrow> fs_jobs (snd (claim_finalization_replay jid d now st)) k = fs_jobs st k"
  by (auto simp: claim_finalization_replay_def Let_def split: option.split)

lemma replay_task:
  assumes "claim_finalization_replay jid d now st = (i, st')" "fi_dispatch_generation i = Some g" "fi_status i = ''queued''"
  shows "\<exists>j. fs_jobs st' jid = Some j \<and> job_generation j = g \<and> str_or (j_status j) ''queued'' = ''queued''"
  using assms
  by (cases "fs_jobs st jid")
    (auto simp: claim_finalization_replay_def intent_from_job_def no_finalization_intent_def Let_def split: if_split_asm)

lemma replay_one_db:
  "rp_db (replay_one io d jid p) \<in> {rp_db p, snd (claim_finalization_replay jid d (claim_clock io jid) (rp_db p))}"
  by (auto simp: replay_one_def split: prod.splits option.splits)

lemma replay_one_counts:
  "rp_requeued (replay_one io d jid p) + rp_skipped (replay_one io d jid p) + rp_enqueue_failed (replay_one io d jid p) =
     Suc (rp_requeued p + rp_skipped p + rp_enqueue_failed p) \<and> rp_error (replay_one io d jid p) = rp_error p"
  by (auto simp: replay_one_def split: prod.splits option.splits)

definition task_current :: "replay_pass \<Rightarrow> string \<times> int \<Rightarrow> bool" where
  "task_current p t \<longleftrightarrow>
     (\<exists>j. fs_jobs (rp_db p) (fst t) = Some j \<and> job_generation j = snd t \<and> str_or (j_status j) ''queued'' = ''queued'')"

lemma replay_one_tasks:
  assumes "\<forall>t \<in> set (rp_tasks p). fst t \<noteq> jid \<and> task_current p t"
  shows "\<forall>t \<in> set (rp_tasks (replay_one io d jid p)). (fst t = jid \<or> t \<in> set (rp_tasks p)) \<and> task_current (replay_one io d jid p) t"
proof -
  have old: "task_current (replay_one io d jid p) t" if "t \<in> set (rp_tasks p)" for t
    using assms that replay_one_db [of io d jid p] replay_frame [of "fst t" jid] by (auto simp: task_current_def)
  have new: "task_current (replay_one io d jid p) t" "fst t = jid"
    if "t \<in> set (rp_tasks (replay_one io d jid p))" "t \<notin> set (rp_tasks p)" for t
    using that replay_task [of jid d "claim_clock io jid" "rp_db p"]
    by (auto simp: replay_one_def task_current_def split: prod.splits option.splits if_splits)
  show ?thesis using old new by blast
qed

lemma replay_fold:
  fixes io d
  assumes "distinct jids" "\<forall>t \<in> set (rp_tasks p). fst t \<notin> set jids \<and> task_current p t"
  defines "q \<equiv> fold (replay_one io d) jids p"
  shows "rp_requeued q + rp_skipped q + rp_enqueue_failed q =
      rp_requeued p + rp_skipped p + rp_enqueue_failed p + length jids \<and>
    (\<forall>t \<in> set (rp_tasks q). task_current q t)"
  using assms(1,2) unfolding q_def
proof (induction jids arbitrary: p)
  case (Cons jid jids)
  have "\<forall>t \<in> set (rp_tasks (replay_one io d jid p)). fst t \<notin> set jids \<and> task_current (replay_one io d jid p) t"
    using replay_one_tasks [of p jid io d] Cons.prems by fastforce
  then show ?case
    using Cons.IH [of "replay_one io d jid p"] Cons.prems(1) replay_one_counts [of io d jid p] by simp
qed simp

lemma replay_fold_steps:
  "\<forall>jid \<in> set jids. jid \<in> w_candidates w \<Longrightarrow>
     fin_step\<^sup>*\<^sup>* (w\<lparr>w_db := rp_db p\<rparr>) (w\<lparr>w_db := rp_db (fold (replay_one io d) jids p)\<rparr>)"
proof (induction jids arbitrary: p)
  case (Cons jid jids)
  have "fin_step\<^sup>*\<^sup>* (w\<lparr>w_db := rp_db p\<rparr>) (w\<lparr>w_db := rp_db (replay_one io d jid p)\<rparr>)"
    using fin_step.replay [of jid "w\<lparr>w_db := rp_db p\<rparr>" d "claim_clock io jid"] Cons.prems replay_one_db [of io d jid p]
    by auto
  also have "fin_step\<^sup>*\<^sup>* \<dots> (w\<lparr>w_db := rp_db (fold (replay_one io d) jids (replay_one io d jid p))\<rparr>)"
    using Cons by simp
  finally show ?case by simp
qed simp

text \<open>C13: A reconciliation pass is an execution of the outbox, so every guarantee about executions
  holds through it; it accounts for every candidate exactly once (requeued, skipped or enqueue
  failed), and each task it sent carries the dispatch generation the job has when the pass
  ends, so the task can claim the job.\<close>

theorem replay_pass_is_sound:
  fixes io limit now
  assumes "\<forall>r \<in> set rs. fs_jobs (w_db w) (fst r) = Some (snd r)" "distinct (map fst rs)"
    and "is_listen_finalization_dispatch_enabled env"
  defines "cands \<equiv> get_finalization_replay_candidates rs limit now"
    and "p \<equiv> reconcile_listen_finalization_jobs env io (Some rs) limit now (w_db w)"
  shows "fin_step\<^sup>*\<^sup>* w (w\<lparr>w_candidates := w_candidates w \<union> fst ` set cands, w_db := rp_db p\<rparr>) \<and>
    rp_requeued p + rp_skipped p + rp_enqueue_failed p = length cands \<and>
    (\<forall>(jid, g) \<in> set (rp_tasks p). \<exists>j. fs_jobs (rp_db p) jid = Some j \<and> job_generation j = g)"
proof -
  let ?p0 = "\<lparr>rp_requeued = 0, rp_skipped = 0, rp_enqueue_failed = 0, rp_error = 0, rp_tasks = [], rp_db = w_db w\<rparr>"
  let ?w1 = "w\<lparr>w_candidates := w_candidates w \<union> fst ` set cands\<rparr>"
  have p: "p = fold (replay_one io (get_finalization_reconcile_stale_after env)) (map fst cands) ?p0"
    using assms(3) by (simp add: p_def cands_def reconcile_listen_finalization_jobs_def)
  have "distinct (map fst cands)"
    unfolding cands_def get_finalization_replay_candidates_def using assms(2)
    by (intro distinct_map_filter) (simp add: take_map [symmetric] distinct_map_filter)
  then have counts: "rp_requeued p + rp_skipped p + rp_enqueue_failed p = length cands \<and> (\<forall>t \<in> set (rp_tasks p). task_current p t)"
    unfolding p using replay_fold [of "map fst cands" ?p0 io] by simp
  have "fin_step w ?w1"
    unfolding cands_def using assms(1) by (rule fin_step.query)
  moreover have "fin_step\<^sup>*\<^sup>* ?w1 (?w1\<lparr>w_db := rp_db p\<rparr>)"
    unfolding p using replay_fold_steps [of "map fst cands" ?w1 ?p0 io] by simp
  ultimately have "fin_step\<^sup>*\<^sup>* w (?w1\<lparr>w_db := rp_db p\<rparr>)"
    by (rule converse_rtranclp_into_rtranclp)
  then show ?thesis
    using counts by (auto simp: task_current_def)
qed

definition cloud_env :: environ where
  "cloud_env = [''LISTEN_FINALIZATION_DISPATCH_MODE'' \<mapsto> ''cloud_tasks'']"

definition calm_io :: replay_io where
  "calm_io = \<lparr>claim_raises = \<lambda>_. False, enqueue_raises = \<lambda>_ _. False, claim_clock = \<lambda>_. seconds 400\<rparr>"

theorem replay_pass_is_sound_witness:
  "rp_requeued (reconcile_listen_finalization_jobs cloud_env calm_io (Some [(sample_id, sample_job)]) 10 (seconds 400) (w_db sample_w1)) +
   rp_skipped (reconcile_listen_finalization_jobs cloud_env calm_io (Some [(sample_id, sample_job)]) 10 (seconds 400) (w_db sample_w1)) +
   rp_enqueue_failed (reconcile_listen_finalization_jobs cloud_env calm_io (Some [(sample_id, sample_job)]) 10 (seconds 400) (w_db sample_w1)) =
   length (get_finalization_replay_candidates [(sample_id, sample_job)] 10 (seconds 400))"
proof -
  have "is_listen_finalization_dispatch_enabled cloud_env"
    by (simp add: is_listen_finalization_dispatch_enabled_def cloud_env_def)
  then show ?thesis
    using replay_pass_is_sound [where w = sample_w1 and rs = "[(sample_id, sample_job)]" and env = cloud_env
        and io = calm_io and limit = 10 and now = "seconds 400"]
    by (simp add: sample_w1_job)
qed

section \<open>Stranded conversations\<close>

text \<open>What a recovery pass may do to a conversation: nothing, stamp the admission of a processing
  row, or complete a processing row that has no owner.\<close>

definition recovered :: "conversation \<Rightarrow> conversation \<Rightarrow> bool" where
  "recovered conv conv' \<longleftrightarrow>
     conv' = conv \<or>
     c_status conv = Some ''processing'' \<and>
       (\<exists>t. conv' = conv\<lparr>c_processing_admitted_at := t\<rparr> \<or>
            \<not> has_owner conv \<and> conv' = conv\<lparr>c_status := Some ''completed'', c_processing_admitted_at := t\<rparr>)"

lemma has_owner_upd [simp]:
  "has_owner (conv\<lparr>c_processing_admitted_at := t\<rparr>) = has_owner conv"
  "has_owner (conv\<lparr>c_status := s\<rparr>) = has_owner conv"
  by (simp_all add: has_owner_def)

lemma recovered_trans:
  assumes "recovered a b" "recovered b c"
  shows "recovered a c"
proof -
  consider (same) "b = a" | (stamp) t where "c_status a = Some ''processing''" "b = a\<lparr>c_processing_admitted_at := t\<rparr>"
    | (finish) t where "b = a\<lparr>c_status := Some ''completed'', c_processing_admitted_at := t\<rparr>"
    using assms(1) unfolding recovered_def by blast
  then show ?thesis
  proof cases
    case stamp
    show ?thesis
      using assms(2) stamp(1) unfolding stamp(2) recovered_def by auto
  next
    case finish
    then have "c = b" using assms(2) by (auto simp: recovered_def)
    then show ?thesis using assms(1) by simp
  qed (use assms in simp)
qed

lemma recovered_status: "recovered conv (conv\<lparr>c_status := Some ''completed''\<rparr>)"
  if "c_status conv = Some ''processing''" "\<not> has_owner conv"
proof -
  have "conv\<lparr>c_status := Some ''completed''\<rparr> =
      conv\<lparr>c_status := Some ''completed'', c_processing_admitted_at := c_processing_admitted_at conv\<rparr>"
    by simp
  then show ?thesis using that unfolding recovered_def by blast
qed

lemma recovered_stamp: "c_status conv = Some ''processing'' \<Longrightarrow> recovered conv (conv\<lparr>c_processing_admitted_at := t\<rparr>)"
  unfolding recovered_def by blast

definition keeps_outbox_recovers :: "fstore \<Rightarrow> fstore \<Rightarrow> bool" where
  "keeps_outbox_recovers st st' \<longleftrightarrow>
     fs_jobs st' = fs_jobs st \<and> fs_shards st' = fs_shards st \<and>
     (\<forall>k. rel_option recovered (fs_conversations st k) (fs_conversations st' k))"

lemma recovers_refl: "keeps_outbox_recovers st st"
  by (auto simp: keeps_outbox_recovers_def recovered_def intro: option.rel_refl)

lemma rel_option_recovered_trans:
  "rel_option recovered x y \<Longrightarrow> rel_option recovered y z \<Longrightarrow> rel_option recovered x z"
  by (cases x; cases y; cases z) (auto intro: recovered_trans)

lemma recovers_trans: "keeps_outbox_recovers a b \<Longrightarrow> keeps_outbox_recovers b c \<Longrightarrow> keeps_outbox_recovers a c"
  unfolding keeps_outbox_recovers_def using rel_option_recovered_trans by metis

lemma recovers_set:
  assumes "fs_conversations st (u, c) = Some conv" "recovered conv conv'"
  shows "keeps_outbox_recovers st (set_conversation st u c conv')"
proof -
  have "rel_option recovered (fs_conversations st k) (fs_conversations (set_conversation st u c conv') k)" for k
    using assms by (cases "fs_conversations st k") (auto simp: recovered_def)
  then show ?thesis by (simp add: keeps_outbox_recovers_def)
qed

lemma orphan_ops_recover:
  "keeps_outbox_recovers st (snd (stamp_processing_admission_if_absent u c now st))"
  "keeps_outbox_recovers st (snd (complete_unstampable_orphan_conversation u c d now st))"
  "keeps_outbox_recovers st (snd (complete_orphan_conversation u c t st))"
  by (cases "fs_conversations st (u, c)";
      auto simp: orphan_defs recovers_refl intro!: recovers_set recovered_status recovered_stamp split: option.split)+

lemma advance_recovers: "keeps_outbox_recovers st (snd (advance_cursor doc g p now st))"
  by (auto simp: advance_cursor_def keeps_outbox_recovers_def recovered_def Let_def intro: option.rel_refl)

lemma orphan_count_facts:
  assumes "\<And>q. op_db (done q) = op_db q"
    and "\<And>q. op_completed (done q) + op_migrated (done q) + op_skipped (done q) + op_error (done q) =
      Suc (op_completed q + op_migrated q + op_skipped q + op_error q)"
  shows "op_db (orphan_count out done p) = snd out"
    and "op_completed (orphan_count out done p) + op_migrated (orphan_count out done p) +
      op_skipped (orphan_count out done p) + op_error (orphan_count out done p) =
      Suc (op_completed p + op_migrated p + op_skipped p + op_error p)"
  using assms by (simp_all add: orphan_count_def Let_def)

lemma reconcile_orphan_facts:
  "keeps_outbox_recovers (op_db p) (op_db (reconcile_orphan io d cand p))"
  "op_completed (reconcile_orphan io d cand p) + op_migrated (reconcile_orphan io d cand p) +
     op_skipped (reconcile_orphan io d cand p) + op_error (reconcile_orphan io d cand p) =
     Suc (op_completed p + op_migrated p + op_skipped p + op_error p)"
  by (simp_all add: reconcile_orphan_def Let_def orphan_count_facts orphan_ops_recover recovers_refl split: stamp_outcome.split)

lemma orphan_fold_facts:
  "keeps_outbox_recovers (op_db p) (op_db (fold (reconcile_orphan io d) cs p)) \<and>
   op_completed (fold (reconcile_orphan io d) cs p) + op_migrated (fold (reconcile_orphan io d) cs p) +
     op_skipped (fold (reconcile_orphan io d) cs p) + op_error (fold (reconcile_orphan io d) cs p) =
   op_completed p + op_migrated p + op_skipped p + op_error p + length cs"
proof (induction cs arbitrary: p)
  case (Cons c cs)
  then show ?case
    using reconcile_orphan_facts(1) [of p io d c] reconcile_orphan_facts(2) [of io d c p]
      recovers_trans [of "op_db p" "op_db (reconcile_orphan io d c p)"]
    by simp
qed (simp add: recovers_refl)

text \<open>A recovery pass over stranded conversations accounts for every candidate exactly once
  (completed, migrated, skipped or error), leaves the outbox alone, and changes a conversation
  only by stamping the admission of a processing row or by completing a processing row that is
  not discarded, not deferred and not bound to a job, whatever the store did since the scan and
  whichever of its calls fail.\<close>

theorem orphan_pass_is_safe:
  fixes env exists fetch limit now st
  assumes "\<not> query_raises io"
  defines "p \<equiv> reconcile_stale_processing_conversations env io exists fetch limit now st"
  shows "op_completed p + op_migrated p + op_skipped p + op_error p =
      length (sw_candidates (orphan_sweep env io exists fetch limit now st)) \<and>
    fs_jobs (op_db p) = fs_jobs st \<and> fs_shards (op_db p) = fs_shards st \<and>
    (\<forall>k. rel_option recovered (fs_conversations st k) (fs_conversations (op_db p) k))"
proof -
  define sw where "sw = orphan_sweep env io exists fetch limit now st"
  define st1 where "st1 = (if advance_raises io then st
      else snd (advance_stale_processing_sweep_cursor
        (snd (if cursor_raises io then (None, 0) else get_stale_processing_sweep_cursor st))
        (if sw_exhausted sw then None else sw_resume_after_path sw) (advance_clock io) st))"
  let ?p0 = "\<lparr>op_completed = 0, op_migrated = 0, op_skipped = 0, op_error = 0, op_db = st1\<rparr>"
  have p: "p = fold (reconcile_orphan io (get_stale_processing_orphan_after env)) (sw_candidates sw) ?p0"
    using assms(1) by (simp add: p_def reconcile_stale_processing_conversations_def sw_def st1_def Let_def)
  have "keeps_outbox_recovers st st1"
    by (simp add: st1_def recovers_refl advance_stale_processing_sweep_cursor_def advance_recovers)
  then have "keeps_outbox_recovers st (op_db p)"
    unfolding p using orphan_fold_facts [of ?p0 io] recovers_trans by fastforce
  then show ?thesis
    using orphan_fold_facts [of ?p0 io "get_stale_processing_orphan_after env" "sw_candidates sw"]
    by (simp add: keeps_outbox_recovers_def p sw_def)
qed

definition calm_sweep_io :: sweep_io where
  "calm_sweep_io = \<lparr>cursor_raises = False, query_raises = False, advance_raises = False, advance_clock = 0,
     row_stamp = \<lambda>_ _. Stamp_Runs, row_raises = \<lambda>_ _. False, row_clock = \<lambda>_ _. 0\<rparr>"

theorem orphan_pass_is_safe_witness:
  "\<forall>k. rel_option recovered (fs_conversations (set_conversation empty_store ''u'' ''a'' stranded) k)
     (fs_conversations (op_db (reconcile_stale_processing_conversations Map.empty calm_sweep_io (\<lambda>_. True)
        (served_by sample_rows) 4 (seconds 9999) (set_conversation empty_store ''u'' ''a'' stranded))) k)"
  using orphan_pass_is_safe [of calm_sweep_io Map.empty "\<lambda>_. True" "served_by sample_rows" 4 "seconds 9999"
      "set_conversation empty_store ''u'' ''a'' stranded"]
  by (simp add: calm_sweep_io_def)

section \<open>Abandoned jobs\<close>

lemma dispose_job_db:
  "bp_db (dispose_job io d cand p) \<in>
     {bp_db p, snd (abandon_byok_finalization_job (fst cand) (job_status (snd cand)) (job_generation (snd cand))
        (job_epoch (snd cand)) d (bio_row_clock io (fst cand)) (bp_db p))}"
  by (auto simp: dispose_job_def Let_def split: prod.splits)

lemma dispose_job_counts:
  "bp_abandoned (dispose_job io d cand p) + bp_skipped (dispose_job io d cand p) + bp_error (dispose_job io d cand p) =
     Suc (bp_abandoned p + bp_skipped p + bp_error p) \<and>
   (bp_conversations_closed p \<le> bp_abandoned p \<longrightarrow>
      bp_conversations_closed (dispose_job io d cand p) \<le> bp_abandoned (dispose_job io d cand p))"
  by (auto simp: dispose_job_def Let_def split: prod.splits)

lemma dispose_fold:
  "fin_step\<^sup>*\<^sup>* (w\<lparr>w_db := bp_db p\<rparr>) (w\<lparr>w_db := bp_db (fold (dispose_job io d) cs p)\<rparr>) \<and>
   bp_abandoned (fold (dispose_job io d) cs p) + bp_skipped (fold (dispose_job io d) cs p) +
     bp_error (fold (dispose_job io d) cs p) = bp_abandoned p + bp_skipped p + bp_error p + length cs \<and>
   (bp_conversations_closed p \<le> bp_abandoned p \<longrightarrow>
      bp_conversations_closed (fold (dispose_job io d) cs p) \<le> bp_abandoned (fold (dispose_job io d) cs p))"
proof (induction cs arbitrary: p)
  case (Cons c cs)
  have "fin_step\<^sup>*\<^sup>* (w\<lparr>w_db := bp_db p\<rparr>) (w\<lparr>w_db := bp_db (dispose_job io d c p)\<rparr>)"
    using fin_step.abandon [of "w\<lparr>w_db := bp_db p\<rparr>"] dispose_job_db [of io d c p] by (auto intro: r_into_rtranclp)
  then show ?case
    using Cons.IH [of "dispose_job io d c p"] dispose_job_counts [of io d c p]
    by (auto intro: rtranclp_trans)
qed simp

lemma advance_cursor_step: "fin_step w (w\<lparr>w_db := snd (advance_cursor doc g p now (w_db w))\<rparr>)"
  by (rule fin_step.other) (simp_all add: orphan_ops_frame)

text \<open>The abandonment pass is an execution of the outbox, accounts for every candidate exactly
  once (abandoned, skipped or error), closes no more conversations than it abandoned jobs, and
  does nothing at all when the switch is off.\<close>

theorem abandonment_pass_is_sound:
  fixes env io exists fetch limit now w
  defines "p \<equiv> reconcile_abandoned_byok_finalization_jobs env io exists fetch limit now (w_db w)"
  shows "fin_step\<^sup>*\<^sup>* w (w\<lparr>w_db := bp_db p\<rparr>) \<and> bp_conversations_closed p \<le> bp_abandoned p \<and>
    (is_byok_abandonment_sweep_enabled env \<and> \<not> bio_query_raises io \<longrightarrow>
       bp_abandoned p + bp_skipped p + bp_error p = length (sw_candidates (byok_sweep env io exists fetch limit now (w_db w)))) \<and>
    (\<not> is_byok_abandonment_sweep_enabled env \<longrightarrow> bp_db p = w_db w)"
proof (cases "is_byok_abandonment_sweep_enabled env \<and> \<not> bio_query_raises io")
  case False
  then show ?thesis
    by (cases "is_byok_abandonment_sweep_enabled env")
      (simp_all add: p_def reconcile_abandoned_byok_finalization_jobs_def)
next
  case True
  define sw where "sw = byok_sweep env io exists fetch limit now (w_db w)"
  define st1 where "st1 = (if bio_advance_raises io then w_db w
      else snd (advance_byok_abandonment_sweep_cursor
        (snd (if bio_cursor_raises io then (None, 0) else get_byok_abandonment_sweep_cursor (w_db w)))
        (if sw_exhausted sw then None else sw_resume_after_path sw) (bio_advance_clock io) (w_db w)))"
  let ?p0 = "\<lparr>bp_abandoned = 0, bp_conversations_closed = 0, bp_skipped = 0, bp_error = 0, bp_db = st1\<rparr>"
  have p: "p = fold (dispose_job io (get_byok_abandoned_after env)) (sw_candidates sw) ?p0"
    using True by (simp add: p_def reconcile_abandoned_byok_finalization_jobs_def sw_def st1_def Let_def)
  have "fin_step\<^sup>*\<^sup>* w (w\<lparr>w_db := st1\<rparr>)"
    using advance_cursor_step [of w BYOK_ABANDONMENT_SWEEP_STATE_DOC]
    by (auto simp: st1_def advance_byok_abandonment_sweep_cursor_def)
  then show ?thesis
    using dispose_fold [where w = w and p = ?p0 and io = io and d = "get_byok_abandoned_after env" and cs = "sw_candidates sw"] True
    unfolding p sw_def by (auto intro: rtranclp_trans)
qed

theorem abandonment_pass_is_sound_witness:
  "bp_db (reconcile_abandoned_byok_finalization_jobs
      [''LISTEN_FINALIZATION_BYOK_ABANDONMENT_ENABLED'' \<mapsto> ''off'']
      \<lparr>bio_cursor_raises = False, bio_query_raises = False, bio_advance_raises = False, bio_advance_clock = 0,
       bio_row_raises = \<lambda>_. False, bio_row_clock = \<lambda>_. 0\<rparr> (\<lambda>_. True) (\<lambda>_ _. []) 10 0 (w_db sample_w1)) = w_db sample_w1"
proof -
  have "\<not> is_byok_abandonment_sweep_enabled [''LISTEN_FINALIZATION_BYOK_ABANDONMENT_ENABLED'' \<mapsto> ''off'']"
    by (simp add: is_byok_abandonment_sweep_enabled_def env_flag_def strip_def is_space_def lower_char_def TRUE_WORDS_def)
  then show ?thesis
    using abandonment_pass_is_sound by blast
qed

end
