(* ===== verification/Finalization_Decision.thy ===== *)
theory Finalization_Decision
  imports Prelude
begin

text \<open>
  The pure reducer of \<^verbatim>\<open>backend/utils/conversations/finalization_decision.py\<close>: the phases of
  one lifecycle generation, the events that reach it, and the one transition each event is
  allowed. The lemmas say that a terminal phase absorbs every event and that a whole
  history of events emits at most one fanout key.
\<close>

section \<open>Phases, events and decisions\<close>

datatype lifecycle_phase = IN_PROGRESS | PROCESSING | MERGING | COMPLETED | FAILED | DISCARDED

datatype finalization_event =
  DISCONNECT | FINALIZE | REPROCESS | MERGE | MERGE_COMPLETED | PROCESSING_COMPLETED | DISCARD | RESTART

definition TERMINAL_PHASES :: "lifecycle_phase set" where
  "TERMINAL_PHASES = {COMPLETED, FAILED, DISCARDED}"

record decision_state =
  phase :: lifecycle_phase
  terminal_outcome :: "lifecycle_phase option"
  emitted_fanout_keys :: "string set"

definition initial_state :: decision_state where
  "initial_state = \<lparr>phase = IN_PROGRESS, terminal_outcome = None, emitted_fanout_keys = {}\<rparr>"

definition is_terminal :: "decision_state \<Rightarrow> bool" where
  "is_terminal s \<longleftrightarrow> phase s \<in> TERMINAL_PHASES"

record decision =
  d_state :: decision_state
  d_fanout_key :: "string option"
  d_reason :: string

definition keep :: "decision_state \<Rightarrow> string \<Rightarrow> decision" where
  "keep s reason = \<lparr>d_state = s, d_fanout_key = None, d_reason = reason\<rparr>"

definition enter_terminal :: "decision_state \<Rightarrow> lifecycle_phase \<Rightarrow> decision_state" where
  "enter_terminal s p =
     (if terminal_outcome s \<noteq> None then s
      else \<lparr>phase = p, terminal_outcome = Some p, emitted_fanout_keys = emitted_fanout_keys s\<rparr>)"

definition admit_finalization :: "decision_state \<Rightarrow> string \<Rightarrow> string option \<Rightarrow> decision" where
  "admit_finalization s conversation_id fanout_key =
     (let key = str_or fanout_key (''conversation:'' @ conversation_id @ '':finalization'')
      in if key \<in> emitted_fanout_keys s then keep s ''duplicate_finalization''
         else \<lparr>d_state = \<lparr>phase = PROCESSING, terminal_outcome = None,
                           emitted_fanout_keys = insert key (emitted_fanout_keys s)\<rparr>,
               d_fanout_key = Some key, d_reason = ''accepted''\<rparr>)"

definition decide_finalization ::
    "decision_state \<Rightarrow> finalization_event \<Rightarrow> string \<Rightarrow> string option \<Rightarrow> decision" where
  "decide_finalization s event conversation_id fanout_key =
     (if is_terminal s then keep s ''terminal''
      else if event \<in> {DISCONNECT, FINALIZE} then
        (if phase s = IN_PROGRESS then admit_finalization s conversation_id fanout_key
         else keep s ''already_finalizing'')
      else if event = PROCESSING_COMPLETED \<and> phase s = PROCESSING then
        keep (enter_terminal s COMPLETED) ''accepted''
      else if event = DISCARD \<and> phase s \<in> {IN_PROGRESS, PROCESSING, MERGING} then
        keep (enter_terminal s DISCARDED) ''accepted''
      else if event = MERGE \<and> phase s = IN_PROGRESS then
        keep \<lparr>phase = MERGING, terminal_outcome = None, emitted_fanout_keys = emitted_fanout_keys s\<rparr> ''accepted''
      else if event = MERGE_COMPLETED \<and> phase s = MERGING then
        keep (enter_terminal s COMPLETED) ''accepted''
      else if event = RESTART then keep s ''restart_replays_state''
      else if event = REPROCESS then keep s ''reprocess_requires_new_generation''
      else keep s ''invalid_transition'')"

section \<open>Histories of one generation\<close>

text \<open>A history is a list of events, each with the identifiers its caller supplies; the run
  collects the fanout keys the decisions emit.\<close>

type_synonym submission = "finalization_event \<times> string \<times> string option"

fun run_generation :: "decision_state \<Rightarrow> submission list \<Rightarrow> decision_state \<times> string list" where
  "run_generation s [] = (s, [])"
| "run_generation s ((event, conversation_id, key) # es) =
     (let d = decide_finalization s event conversation_id key;
          (t, keys) = run_generation (d_state d) es
      in (t, (case d_fanout_key d of None \<Rightarrow> keys | Some k \<Rightarrow> k # keys)))"

lemmas decision_defs =
  decide_finalization_def admit_finalization_def enter_terminal_def keep_def is_terminal_def
  TERMINAL_PHASES_def Let_def

text \<open>The outcome is recorded exactly for terminal phases.\<close>

definition outcome_recorded :: "decision_state \<Rightarrow> bool" where
  "outcome_recorded s \<longleftrightarrow>
     (case terminal_outcome s of None \<Rightarrow> \<not> is_terminal s | Some p \<Rightarrow> phase s = p \<and> is_terminal s)"

lemma decide_outcome_recorded:
  "outcome_recorded s \<Longrightarrow> outcome_recorded (d_state (decide_finalization s e c k))"
  by (auto simp: decision_defs outcome_recorded_def split: option.splits if_splits)

lemma decide_terminal:
  "is_terminal s \<Longrightarrow> decide_finalization s e c k = keep s ''terminal''"
  by (simp add: decide_finalization_def)

lemma decide_leaves_progress:
  "phase s \<noteq> IN_PROGRESS \<Longrightarrow>
     d_fanout_key (decide_finalization s e c k) = None \<and>
     phase (d_state (decide_finalization s e c k)) \<noteq> IN_PROGRESS"
  by (auto simp: decision_defs)

lemma decide_emits:
  "d_fanout_key (decide_finalization s e c k) = Some key \<Longrightarrow>
     phase s = IN_PROGRESS \<and> phase (d_state (decide_finalization s e c k)) = PROCESSING \<and>
     e \<in> {DISCONNECT, FINALIZE} \<and> key \<notin> emitted_fanout_keys s"
  by (auto simp: decision_defs split: if_splits)

lemma run_without_progress: "phase s \<noteq> IN_PROGRESS \<Longrightarrow> snd (run_generation s es) = []"
proof (induction s es rule: run_generation.induct)
  case (2 s e c k es)
  then show ?case
    using decide_leaves_progress [of s e c k] by (auto simp: Let_def split: prod.splits)
qed simp

lemma run_outcome_recorded: "outcome_recorded s \<Longrightarrow> outcome_recorded (fst (run_generation s es))"
proof (induction s es rule: run_generation.induct)
  case (2 s e c k es)
  then show ?case
    using decide_outcome_recorded [of s e c k] by (auto simp: Let_def split: prod.splits)
qed simp

lemma run_at_most_one_key: "length (snd (run_generation s es)) \<le> 1"
proof (induction s es rule: run_generation.induct)
  case (2 s e c k es)
  show ?case
  proof (cases "d_fanout_key (decide_finalization s e c k)")
    case None
    then show ?thesis using 2 by (auto simp: Let_def split: prod.splits)
  next
    case (Some key)
    then have "phase (d_state (decide_finalization s e c k)) \<noteq> IN_PROGRESS"
      using decide_emits by fastforce
    then have "snd (run_generation (d_state (decide_finalization s e c k)) es) = []"
      by (rule run_without_progress)
    then show ?thesis using Some by (auto simp: Let_def split: prod.splits)
  qed
qed simp

lemma run_terminal: "is_terminal s \<Longrightarrow> run_generation s es = (s, [])"
  by (induction s es rule: run_generation.induct)
    (auto simp: decide_terminal keep_def Let_def)

text \<open>C9: One generation emits at most one fanout key, however its events (disconnects, explicit
  finalizations, merges, discards, restarts, reprocess requests) are ordered, repeated or
  keyed; its terminal outcome is recorded exactly when it is terminal; and once it is terminal
  the rest of the history changes nothing and emits nothing.\<close>

theorem generation_finalizes_once:
  "length (snd (run_generation initial_state es)) \<le> 1 \<and>
   outcome_recorded (fst (run_generation initial_state es)) \<and>
   (is_terminal (fst (run_generation initial_state es)) \<longrightarrow>
      run_generation (fst (run_generation initial_state es)) es' = (fst (run_generation initial_state es), []))"
  using run_at_most_one_key run_terminal run_outcome_recorded [of initial_state]
  by (simp add: outcome_recorded_def initial_state_def is_terminal_def TERMINAL_PHASES_def)

theorem generation_finalizes_once_witness:
  "is_terminal (fst (run_generation initial_state [(FINALIZE, ''c'', None), (PROCESSING_COMPLETED, ''c'', None)])) \<and>
   run_generation (fst (run_generation initial_state [(FINALIZE, ''c'', None), (PROCESSING_COMPLETED, ''c'', None)]))
     [(DISCARD, ''c'', None), (FINALIZE, ''c'', Some ''k'')] =
     (fst (run_generation initial_state [(FINALIZE, ''c'', None), (PROCESSING_COMPLETED, ''c'', None)]), [])"
proof -
  have "is_terminal (fst (run_generation initial_state [(FINALIZE, ''c'', None), (PROCESSING_COMPLETED, ''c'', None)]))"
    by (simp add: decision_defs initial_state_def)
  then show ?thesis
    using generation_finalizes_once [of "[(FINALIZE, ''c'', None), (PROCESSING_COMPLETED, ''c'', None)]"] by blast
qed

end
