(* ===== verification/Lifecycle.thy ===== *)
theory Lifecycle
  imports Recording_Sessions Reconciliation Finalization_Decision
begin

text \<open>
  The lifecycle owner of \<^verbatim>\<open>backend/utils/conversations/lifecycle.py\<close>, with the status writes of
  \<^verbatim>\<open>backend/database/conversations.py\<close> it calls. An operation that reads first and writes in a
  later transaction takes a function \<open>between\<close>: what other clients commit in the meantime. Logs
  and metrics are left out; calls that may raise are flags of the environment.
\<close>

section \<open>Errors, modes and statuses\<close>

datatype lifecycle_error =
  Does_Not_Exist | Invalid_Transition string string | Status_Required | Not_Found
| Dispatch_Unavailable | Session_Failed session_error | Persistence_Failed

definition status_transitions :: "string \<Rightarrow> string set" where
  "status_transitions status =
     (if status = ''in_progress'' then {''processing'', ''merging'', ''failed''}
      else if status = ''processing'' then {''completed'', ''failed''}
      else if status = ''merging'' then {''completed'', ''failed''}
      else if status = ''completed'' then {''merging''}
      else {})"

definition recording_session_mode :: "environ \<Rightarrow> string" where
  "recording_session_mode env =
     (let configured = map lower_char (strip (case env ''RECORDING_SESSION_MODE'' of None \<Rightarrow> ''dual_write'' | Some s \<Rightarrow> s))
      in if configured \<in> {''shadow'', ''dual_write'', ''enforce''} then configured else ''dual_write'')"

type_synonym 'a outcome = "(lifecycle_error + 'a) \<times> fstore"

section \<open>Status writes of the conversation store\<close>

definition transition_conversation_status :: "string \<Rightarrow> string \<Rightarrow> string \<Rightarrow> fstore \<Rightarrow> unit outcome" where
  "transition_conversation_status uid cid status st =
     (case fs_conversations st (uid, cid) of
        None \<Rightarrow> (Inl Not_Found, st)
      | Some conv \<Rightarrow> (Inr (), set_conversation st uid cid (conv\<lparr>c_status := Some status\<rparr>)))"

definition claim_conversation_status ::
    "string \<Rightarrow> string \<Rightarrow> string \<Rightarrow> string \<Rightarrow> (conversation \<Rightarrow> conversation) \<Rightarrow> fstore \<Rightarrow> bool outcome" where
  "claim_conversation_status uid cid expected claimed extra_updates st =
     (case fs_conversations st (uid, cid) of
        None \<Rightarrow> (Inl Not_Found, st)
      | Some conv \<Rightarrow>
          if truthy (c_discarded conv) \<or> c_status conv \<noteq> Some expected then (Inr False, st)
          else (Inr True, set_conversation st uid cid (extra_updates (conv\<lparr>c_status := Some claimed\<rparr>))))"

definition set_conversation_as_discarded :: "string \<Rightarrow> string \<Rightarrow> bool \<Rightarrow> fstore \<Rightarrow> unit outcome" where
  "set_conversation_as_discarded uid cid flag st =
     (case fs_conversations st (uid, cid) of
        None \<Rightarrow> (Inl Not_Found, st)
      | Some conv \<Rightarrow> (Inr (), set_conversation st uid cid (conv\<lparr>c_discarded := Some flag\<rparr>)))"

section \<open>Transitions\<close>

definition transition ::
    "(fstore \<Rightarrow> fstore) \<Rightarrow> string \<Rightarrow> string \<Rightarrow> string \<Rightarrow> string option \<Rightarrow> (conversation \<Rightarrow> conversation) \<Rightarrow>
     fstore \<Rightarrow> bool outcome" where
  "transition between uid cid target expected extra_updates st =
     (case fs_conversations st (uid, cid) of
        None \<Rightarrow> (Inl Does_Not_Exist, st)
      | Some conv \<Rightarrow>
          (case c_status conv of
             None \<Rightarrow> (Inl Status_Required, st)
           | Some current \<Rightarrow>
               if expected \<noteq> None \<and> Some current \<noteq> expected then (Inr False, st)
               else if target \<notin> status_transitions current then (Inl (Invalid_Transition current target), st)
               else (case expected of
                       Some e \<Rightarrow> claim_conversation_status uid cid e target extra_updates (between st)
                     | None \<Rightarrow>
                         (case transition_conversation_status uid cid target (between st) of
                            (Inl err, st') \<Rightarrow> (Inl err, st')
                          | (Inr _, st') \<Rightarrow> (Inr True, st')))))"

text \<open>\<open>given\<close> is the admission instant the caller supplies among its extra updates, if any.\<close>

definition admit_processing ::
    "(fstore \<Rightarrow> fstore) \<Rightarrow> string \<Rightarrow> string \<Rightarrow> (conversation \<Rightarrow> conversation) \<Rightarrow> timestamp option \<Rightarrow> timestamp \<Rightarrow>
     fstore \<Rightarrow> bool outcome" where
  "admit_processing between uid cid extra_updates given now st =
     transition between uid cid ''processing'' (Some ''in_progress'')
       (\<lambda>conv. (extra_updates conv)\<lparr>c_processing_admitted_at := Some (case given of None \<Rightarrow> now | Some t \<Rightarrow> t)\<rparr>) st"

definition ensure_processing ::
    "(fstore \<Rightarrow> fstore) \<Rightarrow> (fstore \<Rightarrow> fstore) \<Rightarrow> string \<Rightarrow> string \<Rightarrow> timestamp \<Rightarrow> fstore \<Rightarrow> bool outcome" where
  "ensure_processing before between uid cid now st =
     (case fs_conversations st (uid, cid) of
        None \<Rightarrow> (Inl Does_Not_Exist, st)
      | Some conv \<Rightarrow>
          (case c_status conv of
             None \<Rightarrow> (Inl Status_Required, st)
           | Some status \<Rightarrow>
               if status = ''processing'' then (Inr True, st)
               else if status \<in> {''completed'', ''failed''} then (Inr False, st)
               else admit_processing between uid cid (\<lambda>c. c) None now (before st)))"

definition complete :: "(fstore \<Rightarrow> fstore) \<Rightarrow> string \<Rightarrow> string \<Rightarrow> fstore \<Rightarrow> bool outcome" where
  "complete between uid cid st =
     (case claim_conversation_status uid cid ''processing'' ''completed'' (\<lambda>c. c) st of
        (Inl err, st1) \<Rightarrow> (Inl err, st1)
      | (Inr True, st1) \<Rightarrow> (Inr True, st1)
      | (Inr False, st1) \<Rightarrow> claim_conversation_status uid cid ''merging'' ''completed'' (\<lambda>c. c) (between st1))"

definition rollback_processing_admission :: "string \<Rightarrow> string \<Rightarrow> fstore \<Rightarrow> bool outcome" where
  "rollback_processing_admission uid cid st =
     claim_conversation_status uid cid ''processing'' ''in_progress'' (\<lambda>c. c) st"

definition fail_and_discard_processing :: "string \<Rightarrow> string \<Rightarrow> fstore \<Rightarrow> bool outcome" where
  "fail_and_discard_processing uid cid st =
     claim_conversation_status uid cid ''processing'' ''failed'' (\<lambda>c. c\<lparr>c_discarded := Some True\<rparr>) st"

definition begin_merge :: "(fstore \<Rightarrow> fstore) \<Rightarrow> string \<Rightarrow> string \<Rightarrow> fstore \<Rightarrow> bool outcome" where
  "begin_merge between uid cid st = transition between uid cid ''merging'' None (\<lambda>c. c) st"

definition discard :: "string \<Rightarrow> string \<Rightarrow> fstore \<Rightarrow> unit outcome" where
  "discard uid cid st = set_conversation_as_discarded uid cid True st"

definition restore_discarded :: "string \<Rightarrow> string \<Rightarrow> fstore \<Rightarrow> unit outcome" where
  "restore_discarded uid cid st = set_conversation_as_discarded uid cid False st"

section \<open>The lease heartbeat of a synchronous processor\<close>

definition processing_lease_renewal_interval :: "environ \<Rightarrow> duration" where
  "processing_lease_renewal_interval env =
     max (seconds 60) (get_stale_processing_orphan_after env div 4)"

text \<open>One round of the loop as its environment plays out: whether the stop event is set at the
  guard, whether the wait is cut short by it, whether the renewal raises, the clock of the
  renewal, and what others commit before it.\<close>

record heartbeat_round =
  hb_stopped :: bool
  hb_woken :: bool
  hb_raises :: bool
  hb_clock :: timestamp
  hb_between :: "fstore \<Rightarrow> fstore"

fun run_processing_lease_heartbeat :: "string \<Rightarrow> string \<Rightarrow> heartbeat_round list \<Rightarrow> fstore \<Rightarrow> timestamp list \<times> fstore" where
  "run_processing_lease_heartbeat uid cid [] st = ([], st)"
| "run_processing_lease_heartbeat uid cid (r # rs) st =
     (if hb_stopped r \<or> hb_woken r then ([], st)
      else if hb_raises r then ([], hb_between r st)
      else
        let (renewed, st1) = renew_processing_lease uid cid (hb_clock r) (hb_between r st);
            (later, st2) = run_processing_lease_heartbeat uid cid rs st1
        in (if renewed then hb_clock r # later else later, st2))"

section \<open>Recording sessions\<close>

text \<open>The route a client receives: an envelope with its three lifecycle fields, or the legacy route
  where they are null.\<close>

record session_route =
  ro_recording_session_id :: string
  ro_conversation_id :: string
  ro_version :: "int option"
  ro_phase :: "string option"
  ro_sequence :: "int option"
  ro_conflict :: bool

definition legacy_route :: "string \<Rightarrow> string \<Rightarrow> bool \<Rightarrow> session_route" where
  "legacy_route sid cid conflict =
     \<lparr>ro_recording_session_id = sid, ro_conversation_id = cid, ro_version = None, ro_phase = None,
      ro_sequence = None, ro_conflict = conflict\<rparr>"

definition route_of_binding :: "session_binding \<Rightarrow> session_route" where
  "route_of_binding b =
     \<lparr>ro_recording_session_id = sb_recording_session_id b, ro_conversation_id = sb_conversation_id b,
      ro_version = Some (sb_lifecycle_version b), ro_phase = Some (sb_lifecycle_phase b),
      ro_sequence = Some (sb_lifecycle_sequence b), ro_conflict = sb_mapping_conflict b\<rparr>"

definition open_recording_session ::
    "environ \<Rightarrow> bool \<Rightarrow> string \<Rightarrow> string \<Rightarrow> string \<Rightarrow> timestamp \<Rightarrow> fstore \<Rightarrow> session_route outcome" where
  "open_recording_session env persist_raises uid sid proposed now st =
     (let enforce = (recording_session_mode env = ''enforce'') in
      case (if persist_raises then (Inl Persistence_Failed, st)
            else (case create_or_get_recording_session uid sid proposed now st of
                    (Inl e, st1) \<Rightarrow> (Inl (Session_Failed e), st1)
                  | (Inr b, st1) \<Rightarrow> (Inr b, st1))) of
        (Inl e, st1) \<Rightarrow> if enforce then (Inl e, st1) else (Inr (legacy_route sid proposed False), st1)
      | (Inr b, st1) \<Rightarrow>
          if sb_mapping_conflict b \<and> \<not> enforce
          then (Inr (legacy_route sid proposed True), st1)
          else (Inr (route_of_binding b), st1))"

definition route_of_event :: "session_event \<Rightarrow> session_route" where
  "route_of_event e =
     \<lparr>ro_recording_session_id = se_recording_session_id e, ro_conversation_id = se_conversation_id e,
      ro_version = Some (se_lifecycle_version e), ro_phase = Some (se_lifecycle_phase e),
      ro_sequence = Some (se_lifecycle_sequence e), ro_conflict = False\<rparr>"

definition record_recording_session_event ::
    "environ \<Rightarrow> bool \<Rightarrow> string \<Rightarrow> string \<Rightarrow> string \<Rightarrow> string \<Rightarrow> timestamp \<Rightarrow> fstore \<Rightarrow> session_route option outcome" where
  "record_recording_session_event env persist_raises uid sid cid ph now st =
     (let enforce = (recording_session_mode env = ''enforce'') in
      case (if persist_raises then (Inl Persistence_Failed, st)
            else (case record_lifecycle_event uid sid cid ph now st of
                    (Inl e, st1) \<Rightarrow> (Inl (Session_Failed e), st1)
                  | (Inr ev, st1) \<Rightarrow> (Inr ev, st1))) of
        (Inl e, st1) \<Rightarrow> if enforce then (Inl e, st1) else (Inr (Some (legacy_route sid cid False)), st1)
      | (Inr ev, st1) \<Rightarrow>
          if se_accepted ev then (Inr (Some (route_of_event ev)), st1)
          else if \<not> enforce then (Inr (Some (legacy_route sid cid False)), st1)
          else (Inr None, st1))"

definition tombstone_recording_session ::
    "environ \<Rightarrow> bool \<Rightarrow> string \<Rightarrow> string \<Rightarrow> string \<Rightarrow> timestamp \<Rightarrow> fstore \<Rightarrow> session_route option outcome" where
  "tombstone_recording_session env persist_raises uid sid cid now st =
     record_recording_session_event env persist_raises uid sid cid ''discarded'' now st"

text \<open>After the transaction the photo subcollection is dropped, and the audio only where the deleted
  row registered none (the second component).\<close>

definition delete_empty_recording_conversation ::
    "segment_codec \<Rightarrow> string \<Rightarrow> string \<Rightarrow> string option \<Rightarrow> timestamp \<Rightarrow> fstore \<Rightarrow> bool \<times> bool \<times> fstore" where
  "delete_empty_recording_conversation codec uid cid sid now st =
     (case tombstone_and_delete_empty_conversation codec uid cid sid now st of
        (None, st1) \<Rightarrow> (False, False, st1)
      | (Some conv, st1) \<Rightarrow>
          (True, \<not> truthy (c_audio_files conv), st1\<lparr>fs_photo_docs := (fs_photo_docs st1)((uid, cid) := 0)\<rparr>))"

record live_route =
  lr_route :: session_route
  lr_requires_rollover :: bool
  lr_snapshot :: "conversation option"

text \<open>The flags are whether the persistence of the binding and of the tombstone raises.\<close>

definition open_live_recording_session ::
    "environ \<Rightarrow> bool \<Rightarrow> bool \<Rightarrow> string \<Rightarrow> string \<Rightarrow> string \<Rightarrow> timestamp \<Rightarrow> fstore \<Rightarrow> live_route outcome" where
  "open_live_recording_session env open_raises tombstone_raises uid sid proposed now st =
     (case get_recording_session uid sid st of
        Inl e \<Rightarrow> (Inl (Session_Failed e), st)
      | Inr existing \<Rightarrow>
          (case open_recording_session env open_raises uid sid proposed now st of
             (Inl e, st1) \<Rightarrow> (Inl e, st1)
           | (Inr route, st1) \<Rightarrow>
               (case existing of
                  None \<Rightarrow> (Inr \<lparr>lr_route = route, lr_requires_rollover = False, lr_snapshot = None\<rparr>, st1)
                | Some b \<Rightarrow>
                    (case fs_conversations st1 (uid, sb_conversation_id b) of
                       Some conv \<Rightarrow>
                         (Inr \<lparr>lr_route = route, lr_requires_rollover = False, lr_snapshot = Some conv\<rparr>, st1)
                     | None \<Rightarrow>
                         if sb_lifecycle_phase b \<in> TERMINAL_RECORDING_PHASES then
                           (Inr \<lparr>lr_route = route, lr_requires_rollover = True, lr_snapshot = None\<rparr>, st1)
                         else
                           (case tombstone_recording_session env tombstone_raises uid sid (sb_conversation_id b) now st1 of
                              (Inl e, st2) \<Rightarrow> (Inl e, st2)
                            | (Inr _, st2) \<Rightarrow>
                                (Inr \<lparr>lr_route = route, lr_requires_rollover = True, lr_snapshot = None\<rparr>, st2))))))"

section \<open>Requesting finalization\<close>

definition generation_key :: "conversation \<Rightarrow> string \<Rightarrow> string" where
  "generation_key conv cid =
     ''conversation:'' @ cid @ '':finalization:'' @ show_int (int_or (c_finalization_revision conv) 0 + 1)"

definition finalization_decision_state :: "conversation \<Rightarrow> string \<Rightarrow> decision_state" where
  "finalization_decision_state conv cid =
     (if truthy (c_discarded conv) then
        \<lparr>phase = DISCARDED, terminal_outcome = Some DISCARDED, emitted_fanout_keys = {}\<rparr>
      else
        let status = str_or (c_status conv) ''in_progress'' in
        if status = ''completed'' then
          \<lparr>phase = COMPLETED, terminal_outcome = Some COMPLETED, emitted_fanout_keys = {}\<rparr>
        else if status = ''failed'' then
          \<lparr>phase = FAILED, terminal_outcome = Some FAILED, emitted_fanout_keys = {}\<rparr>
        else if status = ''processing'' then
          \<lparr>phase = PROCESSING, terminal_outcome = None, emitted_fanout_keys = {generation_key conv cid}\<rparr>
        else initial_state)"

definition finalization_admission_of :: "string \<Rightarrow> conversation \<Rightarrow> finalization_admission" where
  "finalization_admission_of cid conv =
     (let d = decide_finalization (finalization_decision_state conv cid) FINALIZE cid (Some (generation_key conv cid))
      in \<lparr>fa_accepted = (d_fanout_key d \<noteq> None), fa_terminal = (d_reason d = ''terminal''), fa_reason = d_reason d,
          fa_fanout_key = d_fanout_key d\<rparr>)"

definition env_or :: "environ \<Rightarrow> string \<Rightarrow> string" where
  "env_or env name = (case env name of None \<Rightarrow> '''' | Some s \<Rightarrow> s)"

definition listen_invoker_sa :: "environ \<Rightarrow> string" where
  "listen_invoker_sa env =
     (if env_or env ''LISTEN_FINALIZATION_TASKS_INVOKER_SA'' \<noteq> '''' then env_or env ''LISTEN_FINALIZATION_TASKS_INVOKER_SA''
      else env_or env ''SYNC_TASKS_INVOKER_SA'')"

definition is_listen_finalization_dispatch_configured :: "environ \<Rightarrow> bool" where
  "is_listen_finalization_dispatch_configured env \<longleftrightarrow>
     is_listen_finalization_dispatch_enabled env \<and> env_or env ''SYNC_TASKS_PROJECT'' \<noteq> '''' \<and>
     env_or env ''SYNC_TASKS_LOCATION'' \<noteq> '''' \<and> env_or env ''LISTEN_FINALIZATION_TASKS_QUEUE'' \<noteq> '''' \<and>
     env_or env ''LISTEN_FINALIZATION_TASKS_HANDLER_URL'' \<noteq> '''' \<and> listen_invoker_sa env \<noteq> ''''"

text \<open>The environment of one request: whether the admission transaction exhausts its contention
  budget, whether the enqueue raises, and the two clocks.\<close>

record request_io =
  ri_contended :: bool
  ri_enqueue_raises :: bool
  ri_admit_clock :: timestamp
  ri_resume_clock :: timestamp

definition request_finalization ::
    "environ \<Rightarrow> segment_codec \<Rightarrow> request_io \<Rightarrow> string \<Rightarrow> string \<Rightarrow> bool \<Rightarrow> bool \<Rightarrow> (conversation \<Rightarrow> conversation) \<Rightarrow>
     bool \<Rightarrow> fstore \<Rightarrow> (finalization_intent \<times> string) outcome" where
  "request_finalization env codec io uid cid has_byok_keys force_process extra_updates require_cloud_tasks st =
     (if require_cloud_tasks \<and> \<not> is_listen_finalization_dispatch_configured env then (Inl Dispatch_Unavailable, st)
      else if ri_contended io then (Inl Dispatch_Unavailable, st)
      else
        (case create_or_get_finalization_intent env codec uid cid has_byok_keys (finalization_admission_of cid)
                force_process extra_updates (ri_admit_clock io) st of
           (intent, st1) \<Rightarrow>
             (case fi_job_id intent of
                None \<Rightarrow> (Inr (intent, ''noop''), st1)
              | Some jid \<Rightarrow>
                  if fi_status intent \<in> {''missing'', ''no_content'', ''deferred'', ''completed'', ''dead_letter''} then
                    (Inr (intent, ''noop''), st1)
                  else if fi_requires_byok intent then
                    (if \<not> has_byok_keys then (Inr (intent, ''blocked_byok''), st1)
                     else (case resume_blocked_byok_job_for_live_session jid (ri_resume_clock io) st1 of
                             (resumed, st2) \<Rightarrow> (Inr (resumed, ''pusher''), st2)))
                  else if \<not> is_listen_finalization_dispatch_enabled env then (Inr (intent, ''pusher''), st1)
                  else if ri_enqueue_raises io then (Inr (intent, ''queued''), st1)
                  else (Inr (intent, ''cloud_tasks''), st1))))"

record finalization_status =
  fs_job_id :: string
  fs_status :: string
  fs_terminal :: bool
  fs_retryable :: bool
  fs_attempt_count :: int
  fs_task_retry_count :: int
  fs_eligible :: bool
  fs_outcome :: string
  fs_fanout :: string

definition bounded_word :: "string set \<Rightarrow> string option \<Rightarrow> string" where
  "bounded_word allowed x = (let s = str_or x ''unknown'' in if s \<in> allowed then s else ''unknown'')"

definition get_finalization_status :: "string \<Rightarrow> string \<Rightarrow> fstore \<Rightarrow> finalization_status option" where
  "get_finalization_status uid cid st =
     (case Option.bind (fs_conversations st (uid, cid)) (\<lambda>conv. nonempty_str (c_finalization_job_id conv)) of
        None \<Rightarrow> None
      | Some jid \<Rightarrow>
          (case get_finalization_job jid st of
             None \<Rightarrow> None
           | Some j \<Rightarrow>
               if j_uid j \<noteq> Some uid \<or> j_conversation_id j \<noteq> Some cid then None
               else
                 let status = str_or (j_status j) ''unknown'' in
                 Some \<lparr>fs_job_id = jid, fs_status = status, fs_terminal = (status \<in> TERMINAL_JOB_STATUSES),
                       fs_retryable = (status = ''queued''), fs_attempt_count = int_or (j_attempt_count j) 0,
                       fs_task_retry_count = int_or (j_task_retry_count j) 0,
                       fs_eligible = truthy (mr_eligible (j_receipt j)),
                       fs_outcome = bounded_word {''success'', ''failure'', ''stale''} (j_terminal_outcome j),
                       fs_fanout = bounded_word {''pending'', ''leased'', ''completed'', ''fenced''} (j_fanout_status j)\<rparr>))"

section \<open>What the reducer decides for a stored conversation\<close>

lemma admission_terminal:
  "fa_terminal (finalization_admission_of cid conv) \<longleftrightarrow>
     truthy (c_discarded conv) \<or> str_or (c_status conv) ''in_progress'' \<in> {''completed'', ''failed''}"
  by (simp add: finalization_admission_of_def finalization_decision_state_def decision_defs initial_state_def)

lemma generation_key_nonempty [simp]: "generation_key conv cid \<noteq> ''''"
  by (simp add: generation_key_def)

lemma admission_accepted:
  "fa_accepted (finalization_admission_of cid conv) \<longleftrightarrow>
     \<not> truthy (c_discarded conv) \<and> str_or (c_status conv) ''in_progress'' \<notin> {''completed'', ''failed'', ''processing''}"
  "fa_accepted (finalization_admission_of cid conv) \<Longrightarrow>
     fa_fanout_key (finalization_admission_of cid conv) = Some (generation_key conv cid)"
  by (auto simp: finalization_admission_of_def finalization_decision_state_def decision_defs initial_state_def
      generation_key_def str_or_def [of "Some (_ # _)"] split: if_splits)

lemma request_steps:
  "fin_step\<^sup>*\<^sup>* w (w\<lparr>w_db := snd (request_finalization env codec io uid cid keys force extra cloud (w_db w))\<rparr>)"
proof -
  let ?c = "create_or_get_finalization_intent env codec uid cid keys (finalization_admission_of cid) force extra
    (ri_admit_clock io) (w_db w)"
  have c: "fin_step\<^sup>*\<^sup>* w (w\<lparr>w_db := snd ?c\<rparr>)"
    using fin_step.create by blast
  have r: "fin_step\<^sup>*\<^sup>* w (w\<lparr>w_db := snd (resume_blocked_byok_job_for_live_session jid now (snd ?c))\<rparr>)" for jid now
    using c fin_step.resume [of "w\<lparr>w_db := snd ?c\<rparr>" jid now] by (auto intro: rtranclp.rtrancl_into_rtrancl)
  have "snd (request_finalization env codec io uid cid keys force extra cloud (w_db w)) \<in>
      {w_db w, snd ?c} \<union> {snd (resume_blocked_byok_job_for_live_session jid (ri_resume_clock io) (snd ?c)) | jid. True}"
    by (auto simp: request_finalization_def case_prod_beta split: option.splits)
  then show ?thesis
    using c r by auto
qed

lemma resume_keeps_dom: "dom (fs_jobs (snd (resume_blocked_byok_job_for_live_session jid now st))) = dom (fs_jobs st)"
  by (auto simp: resume_blocked_byok_job_for_live_session_def Let_def split: option.splits)

lemma resume_keeps_conversations [simp]:
  "fs_conversations (snd (resume_blocked_byok_job_for_live_session jid now st)) = fs_conversations st"
  by (auto simp: resume_blocked_byok_job_for_live_session_def Let_def split: option.splits)

lemma resume_job_id: "fs_jobs st jid \<noteq> None \<Longrightarrow> fi_job_id (fst (resume_blocked_byok_job_for_live_session jid now st)) = Some jid"
  by (auto simp: resume_blocked_byok_job_for_live_session_def intent_from_job_def Let_def)

text \<open>A conversation that already has its job only gets that job back.\<close>

lemma create_bound:
  assumes "fs_conversations st (uid, cid) = Some conv" "c_finalization_job_id conv = Some jid" "jid \<noteq> ''''"
    and "fs_jobs st jid = Some j"
    and "create_or_get_finalization_intent env codec uid cid byok admit force extra now st = (i, st')"
  shows "st' = st \<and> \<not> fi_created i \<and> (fi_job_id i = None \<or> fi_job_id i = Some jid)"
proof -
  have "nonempty_str (c_finalization_job_id conv) = Some jid"
    using assms(2,3) by (simp add: nonempty_str_def)
  then show ?thesis
    using assms(1,4,5)
    by (auto simp: create_or_get_finalization_intent_def no_finalization_intent_def intent_from_job_def
        Let_def split: if_splits)
qed

lemma request_bound:
  assumes "fs_conversations st (uid, cid) = Some conv" "c_finalization_job_id conv = Some jid" "jid \<noteq> ''''"
    and "fs_jobs st jid = Some j"
    and "request_finalization env codec io uid cid keys force extra cloud st = (Inr (i, route), st')"
  shows "dom (fs_jobs st') = dom (fs_jobs st) \<and> \<not> fi_created i \<and> (fi_job_id i = None \<or> fi_job_id i = Some jid) \<and>
    fs_conversations st' = fs_conversations st"
proof -
  obtain i0 st0 where c: "create_or_get_finalization_intent env codec uid cid keys (finalization_admission_of cid) force extra
      (ri_admit_clock io) st = (i0, st0)"
    by (cases "create_or_get_finalization_intent env codec uid cid keys (finalization_admission_of cid) force extra
      (ri_admit_clock io) st")
  have b: "st0 = st" "\<not> fi_created i0" "fi_job_id i0 = None \<or> fi_job_id i0 = Some jid"
    using create_bound [OF assms(1-4) c] by auto
  have "st' = st \<and> i = i0 \<or> fi_job_id i0 = Some jid \<and>
      (i, st') = resume_blocked_byok_job_for_live_session jid (ri_resume_clock io) st"
    using assms(5) c b by (auto simp: request_finalization_def split: if_splits option.splits prod.splits)
  then show ?thesis
  proof
    assume r: "fi_job_id i0 = Some jid \<and> (i, st') = resume_blocked_byok_job_for_live_session jid (ri_resume_clock io) st"
    then have "\<not> fi_created i" "fi_job_id i = Some jid" "dom (fs_jobs st') = dom (fs_jobs st)" "fs_conversations st' = fs_conversations st"
      using assms(4) resume_keeps_dom [of jid "ri_resume_clock io" st] resume_keeps_conversations [of jid "ri_resume_clock io" st]
      by (auto simp: resume_blocked_byok_job_for_live_session_def intent_from_job_def Let_def split: if_splits)
    then show ?thesis by simp
  qed (use b in simp)
qed

lemma create_fresh:
  fixes env byok force extra now
  assumes "fs_conversations st (uid, cid) = Some conv" "\<not> truthy (c_deferred conv)"
    and "conversation_has_finalization_content codec uid cid conv st"
    and "fa_accepted (admit conv)" "\<not> fa_terminal (admit conv)" "nonempty_str (fa_fanout_key (admit conv)) \<noteq> None"
    and "c_finalization_job_id conv = None"
    and "fs_jobs st (job_id_of uid cid (int_or (c_finalization_revision conv) 0 + 1)) = None"
  defines "jid \<equiv> job_id_of uid cid (int_or (c_finalization_revision conv) 0 + 1)"
    and "r \<equiv> create_or_get_finalization_intent env codec uid cid byok admit force extra now st"
  shows "fi_created (fst r) \<and> fi_job_id (fst r) = Some jid \<and>
    fi_requires_byok (fst r) = byok \<and> fi_status (fst r) = (if byok then ''blocked_byok'' else ''queued'') \<and>
    dom (fs_jobs (snd r)) = insert jid (dom (fs_jobs st)) \<and>
    (\<exists>j. fs_jobs (snd r) jid = Some j \<and> j_fanout_key j = fa_fanout_key (admit conv)) \<and>
    (\<exists>conv'. fs_conversations (snd r) (uid, cid) = Some conv' \<and> c_status conv' = Some ''processing'' \<and>
       c_finalization_job_id conv' = Some jid)"
  using assms
  by (auto simp: create_or_get_finalization_intent_def Let_def intent_from_job_def new_job_def)

lemma resume_fanout_key:
  "fs_jobs st jid = Some j \<Longrightarrow>
     \<exists>j'. fs_jobs (snd (resume_blocked_byok_job_for_live_session jid now st)) jid = Some j' \<and> j_fanout_key j' = j_fanout_key j"
  by (auto simp: resume_blocked_byok_job_for_live_session_def Let_def)

section \<open>Theorems\<close>

text \<open>No step of an execution deletes a job.\<close>

lemma if_keeps_job:
  "fs_jobs (snd a) jid \<noteq> None \<Longrightarrow> fs_jobs (snd b) jid \<noteq> None \<Longrightarrow> fs_jobs (snd (if c then a else b)) jid \<noteq> None"
  by simp

lemma claim_keeps_jobs:
  assumes "fs_jobs st jid \<noteq> None"
  shows "fs_jobs (snd (claim_finalization_job k g allow ls eu ec now st)) jid \<noteq> None"
proof (cases "fs_jobs st k")
  case None
  then show ?thesis using assms by (simp add: claim_finalization_job_def)
next
  case (Some j)
  show ?thesis
    unfolding claim_finalization_job_def Let_def Some option.case
    by (intro if_keeps_job) (use assms in simp_all)
qed

lemma abandon_keeps_jobs:
  assumes "fs_jobs st jid \<noteq> None"
  shows "fs_jobs (snd (abandon_byok_finalization_job k es eg ee after now st)) jid \<noteq> None"
proof (cases "fs_jobs st k")
  case None
  then show ?thesis using assms by (simp add: abandon_byok_finalization_job_def)
next
  case (Some j)
  show ?thesis
    unfolding abandon_byok_finalization_job_def Let_def Some option.case
    by (intro if_keeps_job) (use assms in \<open>simp_all split: option.split prod.split\<close>)
qed

lemma fin_step_keeps_jobs:
  assumes "fin_step w w'" "fs_jobs (w_db w) jid \<noteq> None"
  shows "fs_jobs (w_db w') jid \<noteq> None"
  using assms
proof (cases rule: fin_step.cases)
  case create
  then show ?thesis using assms(2)
    by (simp add: create_or_get_finalization_intent_def Let_def split: option.split)
next
  case resume
  then show ?thesis using assms(2) resume_keeps_dom by (simp add: domIff [symmetric] del: not_None_eq)
next
  case claim
  then show ?thesis using assms(2) claim_keeps_jobs by simp
next
  case completed
  then show ?thesis using assms(2)
    by (simp add: mark_finalization_completed_def Let_def split: option.split)
next
  case fenced
  then show ?thesis using assms(2)
    by (simp add: mark_finalization_fenced_def fence_job_def Let_def split: option.split)
next
  case fanout_claim
  then show ?thesis using assms(2)
    by (simp add: claim_finalization_fanout_def fence_job_def Let_def split: option.split)
next
  case fanout_completed
  then show ?thesis using assms(2)
    by (simp add: mark_finalization_fanout_completed_def Let_def split: option.split)
next
  case retryable
  then show ?thesis using assms(2)
    by (simp add: mark_finalization_retryable_def Let_def split: option.split)
next
  case dead_letter
  then show ?thesis using assms(2)
    by (simp add: mark_finalization_dead_letter_def Let_def split: option.split)
next
  case receipt
  then show ?thesis using assms(2)
    by (simp add: record_meeting_receipt_def Let_def split: option.split)
next
  case intent_persisted
  then show ?thesis using assms(2)
    by (simp add: mark_meeting_receipt_intent_persisted_def Let_def split: option.split)
next
  case materialized
  then show ?thesis using assms(2)
    by (simp add: mark_meeting_receipt_materialized_def Let_def split: option.split)
next
  case abandon
  then show ?thesis using assms(2) abandon_keeps_jobs by simp
next
  case replay
  then show ?thesis using assms(2)
    by (simp add: claim_finalization_replay_def Let_def split: option.split)
qed simp_all

lemma execution_keeps_jobs: "fin_step\<^sup>*\<^sup>* w w' \<Longrightarrow> fs_jobs (w_db w) jid \<noteq> None \<Longrightarrow> fs_jobs (w_db w') jid \<noteq> None"
  by (induction rule: rtranclp_induct) (auto dest: fin_step_keeps_jobs)

definition finalizes_with :: "string \<Rightarrow> string \<Rightarrow> string \<Rightarrow> fstore \<Rightarrow> bool" where
  "finalizes_with jid uid cid st \<longleftrightarrow> (\<exists>conv. fs_conversations st (uid, cid) = Some conv \<and> c_finalization_job_id conv = Some jid)"

text \<open>C15: Requesting finalization admits one generation. For an undiscarded in-progress conversation
  with content and no job, the first request creates the job of the next revision under that
  generation's fanout key and puts the conversation in processing bound to it. Whatever happens
  after that (the outbox transactions and writes of any clients, other requests included, in
  any number and order), as long as the conversation is bound to that job every further request, with or
  without keys, forced or not, creates no job, answers with that job or none, and leaves the
  conversation bound. Each request is an execution of the outbox.\<close>

theorem finalization_request_admits_one_generation:
  assumes "fs_conversations (w_db w) (uid, cid) = Some conv" "\<not> truthy (c_deferred conv)" "\<not> truthy (c_discarded conv)"
    and "c_status conv = Some ''in_progress''" "conversation_has_finalization_content codec uid cid conv (w_db w)"
    and "c_finalization_job_id conv = None"
    and "fs_jobs (w_db w) (job_id_of uid cid (int_or (c_finalization_revision conv) 0 + 1)) = None"
    and "request_finalization env codec io uid cid keys force extra cloud (w_db w) = (Inr (i, route), st1)"
  defines "jid \<equiv> job_id_of uid cid (int_or (c_finalization_revision conv) 0 + 1)"
  shows "fi_job_id i = Some jid \<and> dom (fs_jobs st1) = insert jid (dom (fs_jobs (w_db w))) \<and>
    (\<exists>j. fs_jobs st1 jid = Some j \<and> j_fanout_key j = Some (generation_key conv cid)) \<and>
    (\<exists>conv'. fs_conversations st1 (uid, cid) = Some conv' \<and> c_status conv' = Some ''processing'') \<and>
    finalizes_with jid uid cid st1 \<and> fin_step\<^sup>*\<^sup>* w (w\<lparr>w_db := st1\<rparr>) \<and>
    (\<forall>w2 env' codec' io' keys' force' extra' cloud' i' route' st2.
       fin_step\<^sup>*\<^sup>* (w\<lparr>w_db := st1\<rparr>) w2 \<and> finalizes_with jid uid cid (w_db w2) \<and>
       request_finalization env' codec' io' uid cid keys' force' extra' cloud' (w_db w2) = (Inr (i', route'), st2) \<longrightarrow>
       dom (fs_jobs st2) = dom (fs_jobs (w_db w2)) \<and> \<not> fi_created i' \<and> (fi_job_id i' = None \<or> fi_job_id i' = Some jid) \<and>
       finalizes_with jid uid cid st2)"
proof -
  let ?c = "create_or_get_finalization_intent env codec uid cid keys (finalization_admission_of cid) force extra
    (ri_admit_clock io) (w_db w)"
  have adm: "fa_accepted (finalization_admission_of cid conv)" "\<not> fa_terminal (finalization_admission_of cid conv)"
    using assms(3,4) by (simp_all add: admission_accepted(1) admission_terminal)
  have key: "fa_fanout_key (finalization_admission_of cid conv) = Some (generation_key conv cid)"
    using admission_accepted(2) [OF adm(1)] .
  note fresh = create_fresh [where admit = "finalization_admission_of cid" and byok = keys and now = "ri_admit_clock io"
      and env = env and force = force and extra = extra, OF assms(1,2,5) adm _ assms(6,7)]
  have c: "fi_job_id (fst ?c) = Some jid" "fi_requires_byok (fst ?c) = keys" "dom (fs_jobs (snd ?c)) = insert jid (dom (fs_jobs (w_db w)))"
    "\<exists>j. fs_jobs (snd ?c) jid = Some j \<and> j_fanout_key j = Some (generation_key conv cid)"
    "\<exists>conv'. fs_conversations (snd ?c) (uid, cid) = Some conv' \<and> c_status conv' = Some ''processing'' \<and>
       c_finalization_job_id conv' = Some jid"
    using fresh key by (simp_all add: jid_def nonempty_str_def)
  have st1: "st1 = snd ?c \<and> i = fst ?c \<or> (i, st1) = resume_blocked_byok_job_for_live_session jid (ri_resume_clock io) (snd ?c)"
    using assms(8) c(1,2) by (auto simp: request_finalization_def split: if_splits option.splits prod.splits)
  have s1: "fi_job_id i = Some jid" "dom (fs_jobs st1) = insert jid (dom (fs_jobs (w_db w)))"
    "\<exists>j. fs_jobs st1 jid = Some j \<and> j_fanout_key j = Some (generation_key conv cid)"
    "fs_conversations st1 = fs_conversations (snd ?c)"
    using st1 c resume_keeps_dom [of jid "ri_resume_clock io" "snd ?c"]
      resume_keeps_conversations [of jid "ri_resume_clock io" "snd ?c"] resume_job_id [of "snd ?c" jid "ri_resume_clock io"]
      resume_fanout_key [of "snd ?c" jid _ "ri_resume_clock io"]
    by (auto simp: prod_eq_iff)
  have later: "dom (fs_jobs st2) = dom (fs_jobs (w_db w2)) \<and> \<not> fi_created i' \<and> (fi_job_id i' = None \<or> fi_job_id i' = Some jid) \<and>
      finalizes_with jid uid cid st2"
    if steps: "fin_step\<^sup>*\<^sup>* (w\<lparr>w_db := st1\<rparr>) w2" "finalizes_with jid uid cid (w_db w2)"
      "request_finalization env' codec' io' uid cid keys' force' extra' cloud' (w_db w2) = (Inr (i', route'), st2)"
    for w2 env' codec' io' keys' force' extra' cloud' i' route' st2
  proof -
    obtain conv2 where conv2: "fs_conversations (w_db w2) (uid, cid) = Some conv2" "c_finalization_job_id conv2 = Some jid"
      using steps(2) by (auto simp: finalizes_with_def)
    obtain j where "fs_jobs (w_db w2) jid = Some j"
      using execution_keeps_jobs [OF steps(1), of jid] s1(3) by auto
    moreover have "jid \<noteq> ''''" by (simp add: jid_def job_id_of_def)
    ultimately show ?thesis using request_bound [OF conv2 _ _ steps(3)] conv2 by (simp add: finalizes_with_def)
  qed
  have later': "\<forall>w2 env' codec' io' keys' force' extra' cloud' i' route' st2.
       fin_step\<^sup>*\<^sup>* (w\<lparr>w_db := st1\<rparr>) w2 \<and> finalizes_with jid uid cid (w_db w2) \<and>
       request_finalization env' codec' io' uid cid keys' force' extra' cloud' (w_db w2) = (Inr (i', route'), st2) \<longrightarrow>
       dom (fs_jobs st2) = dom (fs_jobs (w_db w2)) \<and> \<not> fi_created i' \<and> (fi_job_id i' = None \<or> fi_job_id i' = Some jid) \<and>
       finalizes_with jid uid cid st2"
    using later by blast
  have "fin_step\<^sup>*\<^sup>* w (w\<lparr>w_db := st1\<rparr>)"
    using request_steps [of w env codec io uid cid keys force extra cloud] assms(8) by simp
  moreover have "finalizes_with jid uid cid st1" using s1(4) c(5) by (auto simp: finalizes_with_def)
  moreover have "\<exists>conv'. fs_conversations st1 (uid, cid) = Some conv' \<and> c_status conv' = Some ''processing''"
    using s1(4) c(5) by auto
  ultimately show ?thesis
    using s1(1-3) later' by (intro conjI) assumption+
qed

definition calm_request :: request_io where
  "calm_request = \<lparr>ri_contended = False, ri_enqueue_raises = False, ri_admit_clock = 0, ri_resume_clock = 0\<rparr>"

lemma sample_w0_conversation: "fs_conversations (w_db sample_w0) (''u'', ''c'') = Some sample_conversation" "fs_jobs (w_db sample_w0) = Map.empty"
  by (simp_all add: sample_w0_def)

lemma sample_fields:
  "\<not> truthy (c_deferred sample_conversation)" "\<not> truthy (c_discarded sample_conversation)"
  "c_status sample_conversation = Some ''in_progress''" "c_finalization_job_id sample_conversation = None"
  "c_finalization_revision sample_conversation = None"
  by (simp_all add: sample_conversation_def empty_conversation_def)

lemma sample_content: "conversation_has_finalization_content sample_codec ''u'' ''c'' sample_conversation st"
  by (simp add: conversation_has_finalization_content_def raw_conversation_has_content_def sample_conversation_def
      empty_conversation_def decode_transcript_segments_strict_def)

text \<open>An uncontended request that does not insist on the worker always answers.\<close>

lemma request_answers:
  assumes "\<not> ri_contended io"
  shows "\<exists>i route st'. request_finalization env codec io uid cid keys force extra False st = (Inr (i, route), st')"
proof -
  let ?c = "create_or_get_finalization_intent env codec uid cid keys (finalization_admission_of cid) force extra
    (ri_admit_clock io) st"
  show ?thesis
    using assms by (cases "fi_job_id (fst ?c)") (simp_all add: request_finalization_def case_prod_beta)
qed

theorem finalization_request_admits_one_generation_witness:
  "\<exists>i route st1 i' route' st2.
     request_finalization Map.empty sample_codec calm_request ''u'' ''c'' False False (\<lambda>c. c) False (w_db sample_w0) = (Inr (i, route), st1) \<and>
     request_finalization Map.empty sample_codec calm_request ''u'' ''c'' True True (\<lambda>c. c) False st1 = (Inr (i', route'), st2) \<and>
     fi_job_id i = Some sample_id \<and> dom (fs_jobs st2) = {sample_id}"
proof -
  have calm: "\<not> ri_contended calm_request" by (simp add: calm_request_def)
  obtain i route st1 where r1: "request_finalization Map.empty sample_codec calm_request ''u'' ''c'' False False (\<lambda>c. c) False
      (w_db sample_w0) = (Inr (i, route), st1)"
    using request_answers [OF calm] by blast
  obtain i' route' st2 where r2: "request_finalization Map.empty sample_codec calm_request ''u'' ''c'' True True (\<lambda>c. c) False st1 =
      (Inr (i', route'), st2)"
    using request_answers [OF calm] by blast
  have id: "job_id_of ''u'' ''c'' (int_or (c_finalization_revision sample_conversation) 0 + 1) = sample_id"
    by (simp only: sample_fields(5) int_or_simps sample_id_def) simp
  have none: "fs_jobs (w_db sample_w0) (job_id_of ''u'' ''c'' (int_or (c_finalization_revision sample_conversation) 0 + 1)) = None"
    by (simp only: sample_w0_conversation(2))
  have first: "fi_job_id i = Some sample_id" "dom (fs_jobs st1) = {sample_id}" "finalizes_with sample_id ''u'' ''c'' st1"
    and later: "\<And>w2 env' codec' io' keys' force' extra' cloud' i' route' st2. fin_step\<^sup>*\<^sup>* (sample_w0\<lparr>w_db := st1\<rparr>) w2 \<and> finalizes_with sample_id ''u'' ''c'' (w_db w2) \<and>
       request_finalization env' codec' io' ''u'' ''c'' keys' force' extra' cloud' (w_db w2) = (Inr (i', route'), st2) \<Longrightarrow>
       dom (fs_jobs st2) = dom (fs_jobs (w_db w2))"
    using finalization_request_admits_one_generation
      [OF sample_w0_conversation(1) sample_fields(1-3) sample_content sample_fields(4) none r1]
    unfolding id sample_w0_conversation(2) by simp_all
  have "dom (fs_jobs st2) = {sample_id}"
    using later [of "sample_w0\<lparr>w_db := st1\<rparr>"] first r2 by simp
  with first(1) have "fi_job_id i = Some sample_id \<and> dom (fs_jobs st2) = {sample_id}" by simp
  then show ?thesis
    using r1 r2
    by (intro exI [of _ i] exI [of _ route] exI [of _ st1] exI [of _ i'] exI [of _ route'] exI [of _ st2]) simp
qed

text \<open>A terminal conversation is not finalized again: for a discarded, completed or failed one a
  request answers noop without a job and leaves the database as it is.\<close>

theorem terminal_conversation_is_not_refinalized:
  assumes "fs_conversations st (uid, cid) = Some conv"
    and "truthy (c_discarded conv) \<or> str_or (c_status conv) ''in_progress'' \<in> {''completed'', ''failed''}"
    and "request_finalization env codec io uid cid keys force extra cloud st = (r, st')"
  shows "st' = st \<and> (\<forall>i route. r = Inr (i, route) \<longrightarrow> route = ''noop'' \<and> fi_job_id i = None)"
proof -
  have "fa_terminal (finalization_admission_of cid conv)"
    using assms(2) by (simp add: admission_terminal)
  then have "snd (create_or_get_finalization_intent env codec uid cid keys (finalization_admission_of cid) force extra now st) = st"
    "fi_job_id (fst (create_or_get_finalization_intent env codec uid cid keys (finalization_admission_of cid) force extra now st)) = None" for now
    using assms(1) by (simp_all add: create_or_get_finalization_intent_def no_finalization_intent_def)
  then show ?thesis
    using assms(3) by (auto simp: request_finalization_def case_prod_beta split: if_splits)
qed

theorem terminal_conversation_is_not_refinalized_witness:
  "snd (request_finalization Map.empty sample_codec calm_request ''u'' ''c'' False True (\<lambda>c. c) False
     (set_conversation empty_store ''u'' ''c'' (sample_conversation\<lparr>c_status := Some ''failed''\<rparr>))) =
   set_conversation empty_store ''u'' ''c'' (sample_conversation\<lparr>c_status := Some ''failed''\<rparr>)"
  using terminal_conversation_is_not_refinalized [OF _ _ surjective_pairing,
      of "set_conversation empty_store ''u'' ''c'' (sample_conversation\<lparr>c_status := Some ''failed''\<rparr>)" "''u''" "''c''"]
  by simp

text \<open>A merging conversation is admitted as if it were in progress. The snapshot of a
  conversation whose status is merging is handed to the reducer in the initial phase, so a
  request creates a job and moves it to processing, a move neither the reducer (from its merging
  phase) nor the transition table allows.\<close>

theorem merging_conversation_is_admitted:
  "d_reason (decide_finalization (initial_state\<lparr>phase := MERGING\<rparr>) FINALIZE ''c'' None) = ''already_finalizing'' \<and>
   ''processing'' \<notin> status_transitions ''merging'' \<and>
   (\<exists>i route st'. request_finalization Map.empty sample_codec calm_request ''u'' ''c'' False False (\<lambda>c. c) False
      (set_conversation empty_store ''u'' ''c'' (sample_conversation\<lparr>c_status := Some ''merging''\<rparr>)) = (Inr (i, route), st') \<and>
      fi_created i \<and> map_option c_status (fs_conversations st' (''u'', ''c'')) = Some (Some ''processing''))"
proof -
  let ?st = "set_conversation empty_store ''u'' ''c'' (sample_conversation\<lparr>c_status := Some ''merging''\<rparr>)"
  let ?conv = "sample_conversation\<lparr>c_status := Some ''merging''\<rparr>"
  have adm: "fa_accepted (finalization_admission_of ''c'' ?conv)" "\<not> fa_terminal (finalization_admission_of ''c'' ?conv)"
    by (simp_all add: admission_accepted(1) admission_terminal sample_conversation_def empty_conversation_def)
  have content: "conversation_has_finalization_content sample_codec ''u'' ''c'' ?conv ?st"
    by (simp add: conversation_has_finalization_content_def raw_conversation_has_content_def sample_conversation_def
        empty_conversation_def decode_transcript_segments_strict_def)
  have "request_finalization Map.empty sample_codec calm_request ''u'' ''c'' False False (\<lambda>c. c) False ?st =
     (let c = create_or_get_finalization_intent Map.empty sample_codec ''u'' ''c'' False (finalization_admission_of ''c'') False
        (\<lambda>c. c) 0 ?st in (Inr (fst c, ''pusher''), snd c))"
    using create_fresh [where admit = "finalization_admission_of ''c''" and conv = ?conv and byok = False and now = 0
        and env = Map.empty and force = False and extra = "\<lambda>c. c" and st = ?st, OF _ _ content adm] admission_accepted(2) [OF adm(1)]
    by (auto simp: request_finalization_def calm_request_def is_listen_finalization_dispatch_enabled_def Let_def
        case_prod_beta nonempty_str_def sample_conversation_def empty_conversation_def)
  then show ?thesis
    using create_fresh [where admit = "finalization_admission_of ''c''" and conv = ?conv and byok = False and now = 0
        and env = Map.empty and force = False and extra = "\<lambda>c. c" and st = ?st, OF _ _ content adm] admission_accepted(2) [OF adm(1)]
    by (auto simp: Let_def nonempty_str_def sample_conversation_def empty_conversation_def status_transitions_def
        decision_defs initial_state_def)
qed

section \<open>Status changes under interference\<close>

lemma claim_status_True:
  "claim_conversation_status uid cid e target extra st = (Inr True, st') \<Longrightarrow>
     \<exists>conv. fs_conversations st (uid, cid) = Some conv \<and> c_status conv = Some e \<and> \<not> truthy (c_discarded conv) \<and>
       st' = set_conversation st uid cid (extra (conv\<lparr>c_status := Some target\<rparr>))"
  by (auto simp: claim_conversation_status_def split: option.splits if_splits)

text \<open>A compare-and-swap transition is checked against the state it overwrites. Whatever other
  clients commit between the caller's read and its write, a transition with an expected status
  (and with it every admission to processing) that succeeds found, at the moment of the write,
  an undiscarded conversation in the expected status, and its move is in the transition table.\<close>

theorem expected_transition_is_atomic:
  assumes "transition between uid cid target (Some e) extra st = (Inr True, st')"
  shows "target \<in> status_transitions e \<and>
    (\<exists>conv. fs_conversations (between st) (uid, cid) = Some conv \<and> c_status conv = Some e \<and>
       \<not> truthy (c_discarded conv) \<and>
       st' = set_conversation (between st) uid cid (extra (conv\<lparr>c_status := Some target\<rparr>)))"
  using assms
  by (auto simp: transition_def dest!: claim_status_True split: option.splits if_splits)

theorem expected_transition_is_atomic_witness:
  "''processing'' \<in> status_transitions ''in_progress'' \<and>
   fst (transition (\<lambda>st. st) ''u'' ''c'' ''processing'' (Some ''in_progress'') (\<lambda>c. c) (w_db sample_w0)) = Inr True"
proof -
  have "fst (transition (\<lambda>st. st) ''u'' ''c'' ''processing'' (Some ''in_progress'') (\<lambda>c. c) (w_db sample_w0)) = Inr True"
    using sample_fields sample_w0_conversation(1)
    by (simp add: transition_def claim_conversation_status_def status_transitions_def)
  then show ?thesis
    using expected_transition_is_atomic [of "\<lambda>st. st" "''u''" "''c''" "''processing''" "''in_progress''" "\<lambda>c. c" "w_db sample_w0"]
    by (metis prod.collapse)
qed

text \<open>Beginning a merge is not atomic: it checks the status it read and then writes blindly. Two
  concurrent merges of a completed conversation both succeed, and a conversation that failed
  between the read and the write is put back to merging, which the table does not allow.\<close>

theorem begin_merge_can_overwrite:
  assumes "fs_conversations st (uid, cid) = Some conv" "c_status conv = Some ''completed''"
  shows "fst (begin_merge (\<lambda>s. s) uid cid st) = Inr True \<and>
    fst (begin_merge (\<lambda>s. snd (begin_merge (\<lambda>s. s) uid cid s)) uid cid st) = Inr True \<and>
    begin_merge (\<lambda>s. set_conversation s uid cid (conv\<lparr>c_status := Some ''failed''\<rparr>)) uid cid st =
      (Inr True, set_conversation (set_conversation st uid cid (conv\<lparr>c_status := Some ''failed''\<rparr>)) uid cid
         (conv\<lparr>c_status := Some ''merging''\<rparr>)) \<and>
    ''merging'' \<notin> status_transitions ''failed''"
  using assms by (simp add: begin_merge_def transition_def transition_conversation_status_def status_transitions_def)

theorem begin_merge_can_overwrite_witness:
  "fst (begin_merge (\<lambda>s. snd (begin_merge (\<lambda>s. s) ''u'' ''c'' s)) ''u'' ''c''
     (set_conversation empty_store ''u'' ''c'' (empty_conversation\<lparr>c_status := Some ''completed''\<rparr>))) = Inr True"
  using begin_merge_can_overwrite [of "set_conversation empty_store ''u'' ''c'' (empty_conversation\<lparr>c_status := Some ''completed''\<rparr>)"
      "''u''" "''c''"] by simp

section \<open>The heartbeat against the sweep\<close>

lemma stale_after_bounds:
  "seconds 300 \<le> get_stale_processing_orphan_after env \<and> get_stale_processing_orphan_after env \<le> seconds 86400"
  by (simp add: get_stale_processing_orphan_after_def seconds_def)

lemma renewal_interval_bound: "3 * processing_lease_renewal_interval env < get_stale_processing_orphan_after env"
  using stale_after_bounds [of env] by (auto simp: processing_lease_renewal_interval_def seconds_def max_def)

text \<open>A heartbeating processor is invisible to the sweep: whatever the configured threshold, a
  row renewed within the last three heartbeat intervals is not a candidate, so two renewals in a
  row may be lost before recovery can touch live work.\<close>

theorem heartbeat_outpaces_the_sweep:
  assumes "c_processing_admitted_at conv = Some renewed" "now \<le> renewed + 3 * processing_lease_renewal_interval env"
  shows "orphan_pick (now - get_stale_processing_orphan_after env) (path, conv) = None"
  using assms renewal_interval_bound [of env] by (auto simp: orphan_pick_def split: option.split)

theorem heartbeat_outpaces_the_sweep_witness:
  "orphan_pick (seconds 100 - get_stale_processing_orphan_after Map.empty)
     (conversation_path ''u'' ''a'', stranded) = None"
  by (rule heartbeat_outpaces_the_sweep [of _ 0])
    (simp_all add: stranded_def processing_lease_renewal_interval_def seconds_def)

section \<open>Session routes\<close>

text \<open>A client never receives another conversation's envelope. A route that carries lifecycle
  fields names the conversation the session is bound to in the store and the phase and sequence
  stored there; when the binding conflicts or persistence fails outside enforce mode the client
  gets the proposed conversation with no envelope, and in enforce mode never the proposal.\<close>

theorem envelope_is_never_borrowed:
  assumes "open_recording_session env raises uid sid proposed now st = (Inr route, st')"
  shows "(ro_phase route \<noteq> None \<longrightarrow>
      (\<exists>s. fs_sessions st' (uid, sid) = Some s \<and> s_conversation_id s = Some (ro_conversation_id route) \<and>
         ro_phase route = Some (session_phase s) \<and> ro_sequence route = Some (session_sequence s))) \<and>
    (ro_phase route = None \<longrightarrow> recording_session_mode env \<noteq> ''enforce'' \<and> ro_conversation_id route = proposed \<and>
       ro_version route = None \<and> ro_sequence route = None)"
  using assms
  by (auto simp: open_recording_session_def legacy_route_def route_of_binding_def binding_of_def
      create_or_get_recording_session_def new_session_def Let_def
      split: if_splits option.splits)

theorem envelope_is_never_borrowed_witness:
  "\<exists>route st'. open_recording_session Map.empty False ''u'' ''s'' ''other'' 2
     (set_session empty_store ''u'' ''s'' (new_session ''u'' ''s'' ''c'' 1)) = (Inr route, st') \<and>
     ro_conversation_id route = ''other'' \<and> ro_sequence route = None"
proof -
  let ?st = "set_session empty_store ''u'' ''s'' (new_session ''u'' ''s'' ''c'' 1)"
  have mode: "recording_session_mode Map.empty = ''dual_write''"
    by (simp add: recording_session_mode_def strip_def is_space_def lower_char_def)
  obtain route st' where run: "open_recording_session Map.empty False ''u'' ''s'' ''other'' 2 ?st = (Inr route, st')"
    "ro_phase route = None"
    by (simp add: open_recording_session_def mode create_or_get_recording_session_def new_session_def identity_matches_def
        binding_of_def legacy_route_def)
  then show ?thesis
    using envelope_is_never_borrowed [OF run(1)] by auto
qed

lemma open_session_frame:
  "fs_conversations (snd (open_recording_session env raises uid sid proposed now st)) = fs_conversations st"
  "fs_sessions st (uid, sid) = Some s \<Longrightarrow> snd (open_recording_session env raises uid sid proposed now st) = st"
  by (auto simp: open_recording_session_def create_or_get_recording_session_def Let_def
      split: option.splits sum.splits prod.splits if_splits)

lemma get_session_Some:
  "get_recording_session uid sid st = Inr (Some b) \<Longrightarrow>
     \<exists>s. fs_sessions st (uid, sid) = Some s \<and> s_conversation_id s = Some (sb_conversation_id b) \<and>
       session_phase s = sb_lifecycle_phase b"
  by (auto simp: get_recording_session_def binding_of_def split: option.splits sum.splits if_splits)

lemma get_session_None: "get_recording_session uid sid st = Inr None \<Longrightarrow> fs_sessions st (uid, sid) = None"
  by (auto simp: get_recording_session_def split: option.splits sum.splits if_splits)

lemma tombstone_closes:
  assumes "fs_sessions st (uid, sid) = Some s" "s_conversation_id s = Some cid" "session_phase s \<notin> TERMINAL_RECORDING_PHASES"
  shows "\<exists>s'. fs_sessions (snd (tombstone_recording_session env False uid sid cid now st)) (uid, sid) = Some s' \<and>
    session_phase s' \<in> TERMINAL_RECORDING_PHASES"
proof -
  have "\<not> 2 < (case PHASE_ORDER (session_phase s) of None \<Rightarrow> - 1 | Some k \<Rightarrow> k)"
    using phase_rank_le_2 [of "session_phase s"] by (simp add: phase_rank_def)
  moreover have "''discarded'' \<noteq> session_phase s"
    using assms(3) by (auto simp: TERMINAL_RECORDING_PHASES_def)
  moreover have "PHASE_ORDER ''discarded'' = Some 2"
    by (simp add: PHASE_ORDER_def)
  ultimately have "record_lifecycle_event uid sid cid ''discarded'' now st =
      (Inr (event_of (advance_session s ''discarded'' now) sid True None),
       set_session st uid sid (advance_session s ''discarded'' now))"
    using assms by (simp add: record_lifecycle_event_def Let_def)
  then show ?thesis
    by (simp add: tombstone_recording_session_def record_recording_session_event_def event_of_def)
      (simp add: advance_session_def TERMINAL_RECORDING_PHASES_def)
qed

lemma tombstone_frame: "fs_conversations (snd (tombstone_recording_session env raises uid sid cid now st)) = fs_conversations st"
proof -
  have "fs_conversations (snd (record_lifecycle_event uid sid cid ph now st)) = fs_conversations st" for ph
    by (auto simp: record_lifecycle_event_def Let_def split: option.splits)
  from this [of "''discarded''"] show ?thesis
    by (auto simp: tombstone_recording_session_def record_recording_session_event_def Let_def
        split: sum.splits prod.splits if_splits)
qed

text \<open>A binding whose conversation is gone is a tombstone. Opening a live session asks for a
  fresh generation exactly when the session existed before and its conversation does not exist,
  never recreates that conversation, and, where the tombstone could be persisted, leaves the
  session in a terminal phase.\<close>

theorem missing_conversation_requires_rollover:
  assumes "open_live_recording_session env open_raises tombstone_raises uid sid proposed now st = (Inr r, st')"
  shows "(lr_requires_rollover r \<longleftrightarrow>
      (\<exists>s cid. fs_sessions st (uid, sid) = Some s \<and> s_conversation_id s = Some cid \<and> fs_conversations st (uid, cid) = None)) \<and>
    fs_conversations st' = fs_conversations st \<and>
    (lr_requires_rollover r \<and> \<not> tombstone_raises \<longrightarrow>
       (\<exists>s. fs_sessions st' (uid, sid) = Some s \<and> session_phase s \<in> TERMINAL_RECORDING_PHASES))"
proof -
  obtain existing where g: "get_recording_session uid sid st = Inr existing"
    using assms by (auto simp: open_live_recording_session_def split: sum.splits)
  obtain route st1 where o: "open_recording_session env open_raises uid sid proposed now st = (Inr route, st1)"
    using assms g by (auto simp: open_live_recording_session_def split: sum.splits prod.splits)
  have c1: "fs_conversations st1 = fs_conversations st"
    using open_session_frame(1) [of env open_raises uid sid proposed now st] o by simp
  show ?thesis
  proof (cases existing)
    case None
    then show ?thesis
      using assms g o c1 get_session_None [of uid sid st] by (auto simp: open_live_recording_session_def)
  next
    case (Some b)
    then obtain s where s: "fs_sessions st (uid, sid) = Some s" "s_conversation_id s = Some (sb_conversation_id b)"
      "session_phase s = sb_lifecycle_phase b"
      using get_session_Some g by blast
    then have st1: "st1 = st"
      using open_session_frame(2) [OF s(1), of env open_raises proposed now] o by simp
    let ?t = "tombstone_recording_session env tombstone_raises uid sid (sb_conversation_id b) now st"
    have "fs_conversations (snd ?t) = fs_conversations st" by (rule tombstone_frame)
    moreover have "\<not> tombstone_raises \<Longrightarrow> sb_lifecycle_phase b \<notin> TERMINAL_RECORDING_PHASES \<Longrightarrow>
        \<exists>s'. fs_sessions (snd ?t) (uid, sid) = Some s' \<and> session_phase s' \<in> TERMINAL_RECORDING_PHASES"
      using tombstone_closes [OF s(1,2)] s(3) by auto
    ultimately show ?thesis
      using assms g o Some st1 s
      by (auto simp: open_live_recording_session_def split: option.splits sum.splits prod.splits if_splits)
  qed
qed

theorem missing_conversation_requires_rollover_witness:
  "\<exists>r st'. open_live_recording_session Map.empty False False ''u'' ''s'' ''c'' 2
     (set_session empty_store ''u'' ''s'' (new_session ''u'' ''s'' ''c'' 1)) = (Inr r, st') \<and> lr_requires_rollover r"
proof -
  let ?st = "set_session empty_store ''u'' ''s'' (new_session ''u'' ''s'' ''c'' 1)"
  have mode: "recording_session_mode Map.empty = ''dual_write''"
    by (simp add: recording_session_mode_def strip_def is_space_def lower_char_def)
  obtain r st' where run: "open_live_recording_session Map.empty False False ''u'' ''s'' ''c'' 2 ?st = (Inr r, st')"
    by (simp add: open_live_recording_session_def get_recording_session_def open_recording_session_def mode
        create_or_get_recording_session_def new_session_def identity_matches_def binding_of_def route_of_binding_def
        tombstone_recording_session_def record_recording_session_event_def record_lifecycle_event_def PHASE_ORDER_def
        TERMINAL_RECORDING_PHASES_def event_of_def Let_def)
  then show ?thesis
    using missing_conversation_requires_rollover [OF run] by (auto simp: new_session_def)
qed

end
