(* ===== verification/Json_Values.thy ===== *)
theory Json_Values
  imports Prelude "HOL-Library.AList"
begin

text \<open>
  The JSON values and Python dictionaries the sync components keep in Redis and Firestore. A
  dictionary is an association list in insertion order, as in Python: assigning a present key
  replaces its value in place, assigning a new one appends it. A stored JSON text is
  represented by the value and the separators it was written with, so that two texts are
  equal exactly when the values (with their key order) and the separators are; text that is
  not JSON is kept as it is. A float is its rational value.
\<close>

section \<open>Values\<close>

datatype json =
    JNull
  | JBool bool
  | JInt int
  | JFloat rat
  | JStr string
  | JList "json list"
  | JObj "(string \<times> json) list"

type_synonym jdict = "(string \<times> json) list"

text \<open>\<^verbatim>\<open>d.get(k)\<close>: an absent key reads as null.\<close>

definition dict_get :: "jdict \<Rightarrow> string \<Rightarrow> json" where
  "dict_get d k = (case map_of d k of None \<Rightarrow> JNull | Some v \<Rightarrow> v)"

text \<open>\<^verbatim>\<open>d.get(k, dflt)\<close>: only an absent key reads as the default.\<close>

definition dict_get_or :: "jdict \<Rightarrow> string \<Rightarrow> json \<Rightarrow> json" where
  "dict_get_or d k dflt = (case map_of d k of None \<Rightarrow> dflt | Some v \<Rightarrow> v)"

text \<open>\<^verbatim>\<open>d.update(e)\<close> on a copy of \<open>d\<close>.\<close>

definition dict_update :: "jdict \<Rightarrow> jdict \<Rightarrow> jdict" where
  "dict_update d e = fold (\<lambda>(k, v). AList.update k v) e d"

text \<open>The truth value of a JSON value in a Python condition, and \<^verbatim>\<open>x or y\<close>.\<close>

fun json_truthy :: "json \<Rightarrow> bool" where
  "json_truthy JNull = False"
| "json_truthy (JBool b) = b"
| "json_truthy (JInt i) = (i \<noteq> 0)"
| "json_truthy (JFloat f) = (f \<noteq> 0)"
| "json_truthy (JStr s) = (s \<noteq> '''')"
| "json_truthy (JList xs) = (xs \<noteq> [])"
| "json_truthy (JObj d) = (d \<noteq> [])"

definition json_or :: "json \<Rightarrow> json \<Rightarrow> json" where
  "json_or a b = (if json_truthy a then a else b)"

text \<open>\<^verbatim>\<open>isinstance(x, (int, float))\<close>, which a boolean satisfies as 0 or 1.\<close>

fun json_number :: "json \<Rightarrow> rat option" where
  "json_number (JInt i) = Some (of_int i)"
| "json_number (JFloat f) = Some f"
| "json_number (JBool b) = Some (of_bool b)"
| "json_number _ = None"

section \<open>Stored text\<close>

datatype raw = Json_Text bool json | Other_Text string

fun json_loads :: "raw \<Rightarrow> json option" where
  "json_loads (Json_Text _ v) = Some v"
| "json_loads (Other_Text _) = None"

text \<open>\<^verbatim>\<open>json.loads\<close> followed by \<^verbatim>\<open>isinstance(_, dict)\<close>.\<close>

definition load_object :: "raw \<Rightarrow> jdict option" where
  "load_object r = (case json_loads r of Some (JObj d) \<Rightarrow> Some d | _ \<Rightarrow> None)"

abbreviation dumps :: "jdict \<Rightarrow> raw" where
  "dumps d \<equiv> Json_Text False (JObj d)"

abbreviation dumps_compact :: "jdict \<Rightarrow> raw" where
  "dumps_compact d \<equiv> Json_Text True (JObj d)"

lemma load_object_dumps [simp]: "load_object (Json_Text c (JObj d)) = Some d"
  by (simp add: load_object_def)

section \<open>Reading after an update\<close>

lemma dict_get_Nil [simp]: "dict_get [] k = JNull"
  by (simp add: dict_get_def)

lemma dict_get_update [simp]:
  "dict_get (AList.update k v d) j = (if j = k then v else dict_get d j)"
  by (simp add: dict_get_def update_conv')

lemma dict_update_Nil [simp]: "dict_update d [] = d"
  by (simp add: dict_update_def)

lemma dict_update_Cons [simp]:
  "dict_update d ((k, v) # e) = dict_update (AList.update k v d) e"
  by (simp add: dict_update_def)

lemma dict_get_dict_update:
  "dict_get (dict_update d e) j = (case map_of (rev e) j of None \<Rightarrow> dict_get d j | Some v \<Rightarrow> v)"
proof (induction e arbitrary: d)
  case (Cons p e)
  obtain k v where p: "p = (k, v)" by force
  show ?case
    using Cons by (simp add: p map_add_def split: option.split)
qed simp

lemma distinct_dict_update:
  "distinct (map fst d) \<Longrightarrow> distinct (map fst (dict_update d e))"
  by (induction e arbitrary: d) (auto simp: distinct_update)

end
