(* ===== verification/Sync_Jobs.thy ===== *)
theory Sync_Jobs
  imports Json_Values
begin

text \<open>
  The Redis side of the upload pipeline, \<^verbatim>\<open>backend/database/sync_jobs.py\<close>: the job document and
  its compare-and-set writes, the run lock with its epoch counter, the processed-segment set
  and the once-only markers. A Redis command or script runs atomically; between two of them
  anything may happen, which the multi-command functions take as an argument \<open>between\<close> (the
  interference before each script they run). A value with a time to live keeps the number of
  seconds it was last set with, and may disappear at any moment; the epoch counter has none.
  The wall clock is an argument, in seconds. A Redis error of a best-effort helper is a flag.
\<close>

section \<open>Constants and modes\<close>

definition JOB_TTL_SECONDS :: int where
  "JOB_TTL_SECONDS = 86400"

definition STALE_THRESHOLD_SECONDS :: rat where
  "STALE_THRESHOLD_SECONDS = 600"

definition QUEUED_DISPATCH_STALE_SECONDS :: rat where
  "QUEUED_DISPATCH_STALE_SECONDS = 1800"

definition TERMINAL_STATUSES :: "string set" where
  "TERMINAL_STATUSES = {''completed'', ''partial_failure'', ''failed''}"

definition SYNC_DISPATCH_MODES :: "string set" where
  "SYNC_DISPATCH_MODES = {''inline'', ''cloud_tasks''}"

definition RUN_LOCK_TTL_SECONDS :: int where
  "RUN_LOCK_TTL_SECONDS = 1800"

datatype fence_mode = LEGACY | STANDBY | ACTIVE

definition get_sync_ledger_fence_mode :: "environ \<Rightarrow> fence_mode" where
  "get_sync_ledger_fence_mode env =
     (let raw = map lower_char (strip (case env ''SYNC_LEDGER_FENCE_MODE'' of None \<Rightarrow> ''legacy'' | Some s \<Rightarrow> s))
      in if raw = ''legacy'' then LEGACY else if raw = ''active'' then ACTIVE else STANDBY)"

definition sync_job_uses_ledger_fence :: "jdict \<Rightarrow> bool" where
  "sync_job_uses_ledger_fence job \<longleftrightarrow> dict_get job ''ledger_fence_mode'' = JStr ''active''"

section \<open>The store\<close>

record redis =
  rd_job :: "string \<Rightarrow> (raw \<times> int) option"
  rd_lock :: "string \<Rightarrow> (string \<times> int) option"
  rd_epoch :: "string \<Rightarrow> int option"
  rd_segments :: "string \<Rightarrow> (string set \<times> int) option"
  rd_once :: "string \<Rightarrow> int option"

definition empty_redis :: redis where
  "empty_redis = \<lparr>rd_job = Map.empty, rd_lock = Map.empty, rd_epoch = Map.empty, rd_segments = Map.empty,
     rd_once = Map.empty\<rparr>"

definition set_raw_job :: "string \<Rightarrow> raw \<Rightarrow> redis \<Rightarrow> redis" where
  "set_raw_job jid r st = st\<lparr>rd_job := (rd_job st)(jid \<mapsto> (r, JOB_TTL_SECONDS))\<rparr>"

abbreviation stored_job :: "redis \<Rightarrow> string \<Rightarrow> raw option" where
  "stored_job st jid \<equiv> map_option fst (rd_job st jid)"

abbreviation lock_owner :: "redis \<Rightarrow> string \<Rightarrow> string option" where
  "lock_owner st jid \<equiv> map_option fst (rd_lock st jid)"

text \<open>The interference before the \<open>n\<close>-th script of a call.\<close>

type_synonym interference = "nat \<Rightarrow> redis \<Rightarrow> redis"

section \<open>Creating, reading and deleting a job\<close>

definition new_sync_job ::
    "string \<Rightarrow> string \<Rightarrow> int \<Rightarrow> int \<Rightarrow> string \<Rightarrow> string \<Rightarrow> json \<Rightarrow> json \<Rightarrow> string \<Rightarrow> string \<Rightarrow> rat \<Rightarrow> jdict" where
  "new_sync_job job_id uid total_files total_segments lane capture_time_trust recording_age content_id
       dispatch_mode ledger_fence_mode now =
     [(''job_id'', JStr job_id), (''uid'', JStr uid), (''status'', JStr ''queued''),
      (''created_at'', JFloat now), (''started_at'', JNull), (''updated_at'', JFloat now),
      (''completed_at'', JNull), (''total_files'', JInt total_files),
      (''total_segments'', JInt total_segments), (''processed_segments'', JInt 0),
      (''successful_segments'', JInt 0), (''failed_segments'', JInt 0), (''result'', JNull),
      (''error'', JNull), (''reason_code'', JNull), (''retry_after'', JNull), (''lane'', JStr lane),
      (''capture_time_trust'', JStr capture_time_trust), (''recording_age_seconds'', recording_age),
      (''content_id'', content_id),
      (''dispatch_mode'', JStr (if dispatch_mode \<in> SYNC_DISPATCH_MODES then dispatch_mode else ''inline'')),
      (''ledger_fence_mode'', JStr (if ledger_fence_mode = ''active'' then ''active'' else ''legacy''))]"

definition create_sync_job ::
    "string \<Rightarrow> string \<Rightarrow> int \<Rightarrow> int \<Rightarrow> string \<Rightarrow> string \<Rightarrow> json \<Rightarrow> json \<Rightarrow> string \<Rightarrow> string \<Rightarrow> rat \<Rightarrow> redis \<Rightarrow>
     jdict \<times> redis" where
  "create_sync_job job_id uid total_files total_segments lane trust age content_id dispatch_mode fence now st =
     (let job = new_sync_job job_id uid total_files total_segments lane trust age content_id dispatch_mode fence now
      in (job, set_raw_job job_id (dumps job) st))"

definition delete_sync_job :: "string \<Rightarrow> redis \<Rightarrow> redis" where
  "delete_sync_job jid st = st\<lparr>rd_job := (rd_job st)(jid := None)\<rparr>"

definition status_in :: "jdict \<Rightarrow> string set \<Rightarrow> bool" where
  "status_in job S = (case dict_get job ''status'' of JStr s \<Rightarrow> s \<in> S | _ \<Rightarrow> False)"

definition stale_threshold :: "jdict \<Rightarrow> rat option" where
  "stale_threshold job =
     (if dict_get job ''status'' = JStr ''processing'' then Some STALE_THRESHOLD_SECONDS
      else if dict_get job ''status'' = JStr ''queued'' \<and> dict_get job ''dispatch_mode'' = JStr ''cloud_tasks''
        \<and> dict_get job ''started_at'' = JNull \<and> dict_get job ''attempt'' = JNull
      then Some QUEUED_DISPATCH_STALE_SECONDS
      else None)"

definition is_sync_job_stale :: "jdict \<Rightarrow> rat \<Rightarrow> bool" where
  "is_sync_job_stale job now =
     (case stale_threshold job of
        None \<Rightarrow> False
      | Some threshold \<Rightarrow>
          (case json_number (json_or (dict_get job ''updated_at'') (dict_get job ''created_at'')) of
             None \<Rightarrow> False
           | Some updated_at \<Rightarrow> now - updated_at > threshold))"

text \<open>The read publishes a stale job as failed with an unconditional write.\<close>

definition mark_stale :: "rat \<Rightarrow> jdict \<Rightarrow> jdict" where
  "mark_stale now job =
     dict_update job [(''status'', JStr ''failed''),
       (''error'', JStr ''Job timed out (background worker likely died)''), (''completed_at'', JFloat now)]"

definition get_sync_job :: "(redis \<Rightarrow> redis) \<Rightarrow> string \<Rightarrow> rat \<Rightarrow> redis \<Rightarrow> jdict option \<times> redis" where
  "get_sync_job between jid now st =
     (case stored_job st jid of
        None \<Rightarrow> (None, st)
      | Some r \<Rightarrow>
          if r = Other_Text '''' then (None, st)
          else (case json_loads r of
                  None \<Rightarrow> (None, st)
                | Some v \<Rightarrow>
                    let job = (case v of JObj d \<Rightarrow> d | _ \<Rightarrow> []) in
                    if is_sync_job_stale job now then
                      (Some (mark_stale now job), set_raw_job jid (dumps (mark_stale now job)) (between st))
                    else (Some job, st)))"

section \<open>Compare-and-set writes\<close>

datatype mutation_outcome =
    APPLIED | CONFLICT | MISSING_OWNER | STALE_OWNER | MISSING_JOB | INVALID_JOB | INVALID_STATE

record fenced_mutation =
  fm_outcome :: mutation_outcome
  fm_job :: "jdict option"
  fm_raw :: "raw option"

definition mutation :: "mutation_outcome \<Rightarrow> fenced_mutation" where
  "mutation outcome = \<lparr>fm_outcome = outcome, fm_job = None, fm_raw = None\<rparr>"

datatype script_reply =
    Reply_Missing_Owner | Reply_Stale_Owner | Reply_Missing_Job | Reply_Conflict raw | Reply_Applied raw

definition decode_text :: "mutation_outcome \<Rightarrow> raw \<Rightarrow> fenced_mutation" where
  "decode_text outcome r =
     (case load_object r of
        None \<Rightarrow> mutation INVALID_JOB
      | Some job \<Rightarrow> \<lparr>fm_outcome = outcome, fm_job = Some job, fm_raw = Some r\<rparr>)"

fun decode_mutation :: "script_reply \<Rightarrow> fenced_mutation" where
  "decode_mutation Reply_Missing_Owner = mutation MISSING_OWNER"
| "decode_mutation Reply_Stale_Owner = mutation STALE_OWNER"
| "decode_mutation Reply_Missing_Job = mutation MISSING_JOB"
| "decode_mutation (Reply_Conflict r) = decode_text CONFLICT r"
| "decode_mutation (Reply_Applied r) = decode_text APPLIED r"

definition legacy_job_mutation_script :: "string \<Rightarrow> raw \<Rightarrow> raw \<Rightarrow> redis \<Rightarrow> script_reply \<times> redis" where
  "legacy_job_mutation_script jid old new st =
     (case stored_job st jid of
        None \<Rightarrow> (Reply_Missing_Job, st)
      | Some r \<Rightarrow> if r \<noteq> old then (Reply_Conflict r, st) else (Reply_Applied new, set_raw_job jid new st))"

definition fenced_job_mutation_script ::
    "string \<Rightarrow> string \<Rightarrow> raw \<Rightarrow> raw \<Rightarrow> redis \<Rightarrow> script_reply \<times> redis" where
  "fenced_job_mutation_script jid token old new st =
     (case lock_owner st jid of
        None \<Rightarrow> (Reply_Missing_Owner, st)
      | Some owner \<Rightarrow> if owner \<noteq> token then (Reply_Stale_Owner, st) else legacy_job_mutation_script jid old new st)"

definition MUTATION_MAX_RETRIES :: nat where
  "MUTATION_MAX_RETRIES = 3"

fun legacy_loop ::
    "nat \<Rightarrow> interference \<Rightarrow> string \<Rightarrow> raw \<Rightarrow> jdict \<Rightarrow> jdict \<Rightarrow> redis \<Rightarrow> jdict option \<times> redis" where
  "legacy_loop 0 between jid current_raw current_job payload st = (None, st)"
| "legacy_loop (Suc n) between jid current_raw current_job payload st =
     (if status_in current_job TERMINAL_STATUSES then (None, st)
      else
        let (reply, st1) = legacy_job_mutation_script jid current_raw (dumps_compact (dict_update current_job payload))
                             (between n st);
            m = decode_mutation reply
        in if fm_outcome m = APPLIED then (fm_job m, st1)
           else if fm_outcome m \<noteq> CONFLICT then (None, st1)
           else (case (fm_raw m, fm_job m) of
                   (Some r, Some job) \<Rightarrow> legacy_loop n between jid r job payload st1
                 | _ \<Rightarrow> (None, st1)))"

definition stamped :: "jdict \<Rightarrow> rat \<Rightarrow> jdict" where
  "stamped updates now = dict_update updates [(''updated_at'', JFloat now)]"

definition update_sync_job ::
    "interference \<Rightarrow> string \<Rightarrow> jdict \<Rightarrow> rat \<Rightarrow> redis \<Rightarrow> jdict option \<times> redis" where
  "update_sync_job between jid updates now st =
     (case stored_job st jid of
        None \<Rightarrow> (None, st)
      | Some r \<Rightarrow>
          (case load_object r of
             None \<Rightarrow> (None, st)
           | Some job \<Rightarrow> legacy_loop MUTATION_MAX_RETRIES between jid r job (stamped updates now) st))"

definition state_allowed :: "string set option \<Rightarrow> jdict \<Rightarrow> bool" where
  "state_allowed allowed job \<longleftrightarrow>
     \<not> status_in job TERMINAL_STATUSES \<and> (case allowed of None \<Rightarrow> True | Some S \<Rightarrow> status_in job S)"

fun fenced_loop ::
    "nat \<Rightarrow> interference \<Rightarrow> string \<Rightarrow> string \<Rightarrow> string set option \<Rightarrow> raw \<Rightarrow> jdict \<Rightarrow> jdict \<Rightarrow> fenced_mutation \<Rightarrow>
     redis \<Rightarrow> fenced_mutation \<times> redis" where
  "fenced_loop 0 between jid token allowed current_raw current_job payload m st = (m, st)"
| "fenced_loop (Suc n) between jid token allowed current_raw current_job payload _ st =
     (if \<not> state_allowed allowed current_job then
        (\<lparr>fm_outcome = INVALID_STATE, fm_job = Some current_job, fm_raw = Some current_raw\<rparr>, st)
      else
        let (reply, st1) = fenced_job_mutation_script jid token current_raw
                             (dumps_compact (dict_update current_job payload)) (between n st);
            m = decode_mutation reply
        in if fm_outcome m \<noteq> CONFLICT then (m, st1)
           else (case (fm_raw m, fm_job m) of
                   (Some r, Some job) \<Rightarrow> fenced_loop n between jid token allowed r job payload m st1
                 | _ \<Rightarrow> (mutation INVALID_JOB, st1)))"

definition fenced_update_sync_job ::
    "interference \<Rightarrow> string \<Rightarrow> string \<Rightarrow> jdict \<Rightarrow> string set option \<Rightarrow> rat \<Rightarrow> redis \<Rightarrow> fenced_mutation \<times> redis" where
  "fenced_update_sync_job between jid token updates allowed now st =
     (let loop = (\<lambda>r job st. fenced_loop MUTATION_MAX_RETRIES between jid token allowed r job
                    (stamped updates now) (mutation CONFLICT) st)
      in case stored_job st jid of
           None \<Rightarrow>
             let (reply, st1) = fenced_job_mutation_script jid token (Other_Text '''') (Other_Text '''')
                                  (between MUTATION_MAX_RETRIES st);
                 initial = decode_mutation reply
             in if fm_outcome initial \<noteq> CONFLICT then (initial, st1)
                else (case (fm_raw initial, fm_job initial) of
                        (Some r, Some job) \<Rightarrow> loop r job st1
                      | _ \<Rightarrow> (mutation INVALID_JOB, st1))
         | Some r \<Rightarrow>
             (case load_object r of
                None \<Rightarrow> (mutation INVALID_JOB, st)
              | Some job \<Rightarrow> loop r job st))"

section \<open>Transitions of a job\<close>

definition mark_job_processing :: "interference \<Rightarrow> string \<Rightarrow> rat \<Rightarrow> redis \<Rightarrow> jdict option \<times> redis" where
  "mark_job_processing between jid now st =
     update_sync_job between jid [(''status'', JStr ''processing''), (''started_at'', JFloat now)] now st"

definition fenced_mark_job_processing ::
    "interference \<Rightarrow> string \<Rightarrow> string \<Rightarrow> rat \<Rightarrow> redis \<Rightarrow> fenced_mutation \<times> redis" where
  "fenced_mark_job_processing between jid token now st =
     fenced_update_sync_job between jid token [(''status'', JStr ''processing''), (''started_at'', JFloat now)]
       (Some {''queued'', ''processing''}) now st"

text \<open>The terminal patch of a result. Where a count is not an integer or the error list is not a list
  of texts, which no caller passes, the comparison or the formatting raises or prints something
  else: that is \<open>Unsupported_Result\<close>, and nothing is written.\<close>

datatype result_error = Unsupported_Result

definition first_error :: "jdict \<Rightarrow> int \<Rightarrow> json option" where
  "first_error result segments =
     (case dict_get_or result ''errors'' (JList []) of
        JList (JStr e # _) \<Rightarrow>
          Some (JStr (''All '' @ show_int segments @ '' segments failed. First error: '' @ e))
      | v \<Rightarrow> if json_truthy v then None
             else Some (JStr (''All '' @ show_int segments @ '' segments failed processing'')))"

definition finalization_status_of :: "int \<Rightarrow> int \<Rightarrow> string" where
  "finalization_status_of segments failed =
     (if segments > 0 \<and> failed \<ge> segments then ''failed''
      else if failed > 0 then ''partial_failure'' else ''completed'')"

definition sync_job_finalization_updates :: "jdict \<Rightarrow> rat \<Rightarrow> jdict option" where
  "sync_job_finalization_updates result completed_at =
     (case (dict_get_or result ''failed_segments'' (JInt 0), dict_get_or result ''total_segments'' (JInt 0)) of
        (JInt failed, JInt segments) \<Rightarrow>
          let status = finalization_status_of segments failed in
          (case (if status = ''failed'' then first_error result segments else Some JNull) of
             None \<Rightarrow> None
           | Some error \<Rightarrow>
               Some [(''status'', JStr status), (''completed_at'', JFloat completed_at), (''result'', JObj result),
                     (''successful_segments'', JInt (max 0 (segments - failed))),
                     (''failed_segments'', JInt failed), (''processed_segments'', JInt segments),
                     (''error'', error)])
      | _ \<Rightarrow> None)"

definition finalize_sync_job ::
    "interference \<Rightarrow> string \<Rightarrow> jdict \<Rightarrow> rat \<Rightarrow> redis \<Rightarrow> (result_error + jdict option) \<times> redis" where
  "finalize_sync_job between jid result now st =
     (case sync_job_finalization_updates result now of
        None \<Rightarrow> (Inl Unsupported_Result, st)
      | Some updates \<Rightarrow> apfst Inr (update_sync_job between jid updates now st))"

definition fenced_finalize_with ::
    "interference \<Rightarrow> string \<Rightarrow> string \<Rightarrow> jdict \<Rightarrow> string set \<Rightarrow> rat \<Rightarrow> redis \<Rightarrow>
     (result_error + fenced_mutation) \<times> redis" where
  "fenced_finalize_with between jid token result allowed now st =
     (case sync_job_finalization_updates result now of
        None \<Rightarrow> (Inl Unsupported_Result, st)
      | Some updates \<Rightarrow> apfst Inr (fenced_update_sync_job between jid token updates (Some allowed) now st))"

definition fenced_finalize_sync_job ::
    "interference \<Rightarrow> string \<Rightarrow> string \<Rightarrow> jdict \<Rightarrow> rat \<Rightarrow> redis \<Rightarrow> (result_error + fenced_mutation) \<times> redis" where
  "fenced_finalize_sync_job between jid token result now st =
     fenced_finalize_with between jid token result {''processing''} now st"

definition fenced_finalize_sync_job_from_durable_ledger ::
    "interference \<Rightarrow> string \<Rightarrow> string \<Rightarrow> jdict \<Rightarrow> rat \<Rightarrow> redis \<Rightarrow> (result_error + fenced_mutation) \<times> redis" where
  "fenced_finalize_sync_job_from_durable_ledger between jid token result now st =
     fenced_finalize_with between jid token result {''queued'', ''processing''} now st"

definition failure_updates :: "string \<Rightarrow> json \<Rightarrow> json \<Rightarrow> rat \<Rightarrow> jdict" where
  "failure_updates error reason_code retry_after now =
     [(''status'', JStr ''failed''), (''completed_at'', JFloat now), (''error'', JStr error),
      (''reason_code'', reason_code), (''retry_after'', retry_after)]"

definition mark_job_failed ::
    "interference \<Rightarrow> string \<Rightarrow> string \<Rightarrow> json \<Rightarrow> json \<Rightarrow> rat \<Rightarrow> redis \<Rightarrow> jdict option \<times> redis" where
  "mark_job_failed between jid error reason_code retry_after now st =
     update_sync_job between jid (failure_updates error reason_code retry_after now) now st"

definition fenced_mark_job_failed ::
    "interference \<Rightarrow> string \<Rightarrow> string \<Rightarrow> string \<Rightarrow> json \<Rightarrow> json \<Rightarrow> rat \<Rightarrow> redis \<Rightarrow> fenced_mutation \<times> redis" where
  "fenced_mark_job_failed between jid token error reason_code retry_after now st =
     fenced_update_sync_job between jid token (failure_updates error reason_code retry_after now)
       (Some {''queued'', ''processing''}) now st"

definition retry_updates :: "int \<Rightarrow> string \<Rightarrow> jdict" where
  "retry_updates attempt error =
     [(''status'', JStr ''queued''), (''attempt'', JInt attempt), (''last_error'', JStr error)]"

definition mark_job_queued_for_retry ::
    "interference \<Rightarrow> string \<Rightarrow> int \<Rightarrow> string \<Rightarrow> rat \<Rightarrow> redis \<Rightarrow> jdict option \<times> redis" where
  "mark_job_queued_for_retry between jid attempt error now st =
     update_sync_job between jid (retry_updates attempt error) now st"

definition fenced_mark_job_queued_for_retry ::
    "interference \<Rightarrow> string \<Rightarrow> string \<Rightarrow> int \<Rightarrow> string \<Rightarrow> rat \<Rightarrow> redis \<Rightarrow> fenced_mutation \<times> redis" where
  "fenced_mark_job_queued_for_retry between jid token attempt error now st =
     fenced_update_sync_job between jid token (retry_updates attempt error) (Some {''queued'', ''processing''}) now st"

section \<open>The run lock\<close>

text \<open>\<^verbatim>\<open>token.partition(':')\<close>, and the number before the colon where there is one. The counter stays
  far below the size at which Lua stops printing it as an integer.\<close>

definition get_sync_job_run_lock_epoch :: "string \<Rightarrow> int" where
  "get_sync_job_run_lock_epoch token =
     (if CHR '':'' \<notin> set token then 0
      else (case py_int (takeWhile (\<lambda>c. c \<noteq> CHR '':'') token) of
              None \<Rightarrow> 0
            | Some epoch \<Rightarrow> if epoch > 0 then epoch else 0))"

definition epoch_token :: "int \<Rightarrow> string \<Rightarrow> string" where
  "epoch_token epoch uuid = show_int epoch @ '':'' @ uuid"

definition try_acquire_job_run_lock :: "string \<Rightarrow> string \<Rightarrow> redis \<Rightarrow> string option \<times> redis" where
  "try_acquire_job_run_lock jid uuid st =
     (if rd_lock st jid \<noteq> None then (None, st)
      else (Some uuid, st\<lparr>rd_lock := (rd_lock st)(jid \<mapsto> (uuid, RUN_LOCK_TTL_SECONDS))\<rparr>))"

datatype lock_error = Invalid_Epoch_Token

definition try_acquire_sync_job_run_lock ::
    "string \<Rightarrow> string \<Rightarrow> redis \<Rightarrow> (lock_error + string option) \<times> redis" where
  "try_acquire_sync_job_run_lock jid uuid st =
     (if rd_lock st jid \<noteq> None then (Inr None, st)
      else
        let epoch = (case rd_epoch st jid of None \<Rightarrow> 1 | Some n \<Rightarrow> n + 1);
            token = epoch_token epoch uuid;
            st1 = st\<lparr>rd_epoch := (rd_epoch st)(jid \<mapsto> epoch),
                     rd_lock := (rd_lock st)(jid \<mapsto> (token, RUN_LOCK_TTL_SECONDS))\<rparr>
        in if get_sync_job_run_lock_epoch token \<le> 0 then (Inl Invalid_Epoch_Token, st1)
           else (Inr (Some token), st1))"

definition delete_sync_job_run_lock_epoch :: "bool \<Rightarrow> string \<Rightarrow> redis \<Rightarrow> redis" where
  "delete_sync_job_run_lock_epoch raises jid st =
     (if raises then st else st\<lparr>rd_epoch := (rd_epoch st)(jid := None)\<rparr>)"

definition renew_job_run_lock :: "string \<Rightarrow> string \<Rightarrow> redis \<Rightarrow> bool \<times> redis" where
  "renew_job_run_lock jid token st =
     (if lock_owner st jid = Some token
      then (True, st\<lparr>rd_lock := (rd_lock st)(jid \<mapsto> (token, RUN_LOCK_TTL_SECONDS))\<rparr>) else (False, st))"

definition release_job_run_lock :: "bool \<Rightarrow> string \<Rightarrow> string \<Rightarrow> redis \<Rightarrow> redis" where
  "release_job_run_lock raises jid token st =
     (if \<not> raises \<and> lock_owner st jid = Some token then st\<lparr>rd_lock := (rd_lock st)(jid := None)\<rparr> else st)"

section \<open>Processed segments and once-only markers\<close>

definition add_segment :: "string \<Rightarrow> string \<Rightarrow> redis \<Rightarrow> redis" where
  "add_segment jid path st =
     st\<lparr>rd_segments := (rd_segments st)(jid \<mapsto>
        (insert path (case rd_segments st jid of None \<Rightarrow> {} | Some (S, _) \<Rightarrow> S), JOB_TTL_SECONDS))\<rparr>"

definition add_processed_segment :: "bool \<Rightarrow> string \<Rightarrow> string \<Rightarrow> redis \<Rightarrow> redis" where
  "add_processed_segment raises jid path st = (if raises then st else add_segment jid path st)"

definition add_processed_segment_if_run_owner ::
    "string \<Rightarrow> string \<Rightarrow> string \<Rightarrow> redis \<Rightarrow> fenced_mutation \<times> redis" where
  "add_processed_segment_if_run_owner jid token path st =
     (case lock_owner st jid of
        None \<Rightarrow> (mutation MISSING_OWNER, st)
      | Some owner \<Rightarrow>
          if owner \<noteq> token then (mutation STALE_OWNER, st) else (mutation APPLIED, add_segment jid path st))"

definition get_processed_segments :: "bool \<Rightarrow> string \<Rightarrow> redis \<Rightarrow> string set" where
  "get_processed_segments raises jid st =
     (if raises then {} else case rd_segments st jid of None \<Rightarrow> {} | Some (S, _) \<Rightarrow> S)"

definition try_mark_once :: "bool \<Rightarrow> string \<Rightarrow> string \<Rightarrow> redis \<Rightarrow> bool \<times> redis" where
  "try_mark_once raises jid tag st =
     (if raises then (True, st)
      else let key = jid @ '':'' @ tag in
        if rd_once st key \<noteq> None then (False, st)
        else (True, st\<lparr>rd_once := (rd_once st)(key \<mapsto> JOB_TTL_SECONDS)\<rparr>))"

lemmas cas_defs = legacy_job_mutation_script_def fenced_job_mutation_script_def decode_text_def mutation_def

section \<open>A published result is not overwritten\<close>

definition terminal_text :: "raw \<Rightarrow> bool" where
  "terminal_text r = (case load_object r of None \<Rightarrow> False | Some job \<Rightarrow> status_in job TERMINAL_STATUSES)"

text \<open>What happens to one job between two moments: a job that is gone stays gone, and a terminal
  document stays as it is until it expires.\<close>

definition keeps_result :: "string \<Rightarrow> redis \<Rightarrow> redis \<Rightarrow> bool" where
  "keeps_result jid st st' \<longleftrightarrow>
     (stored_job st jid = None \<longrightarrow> stored_job st' jid = None) \<and>
     (\<forall>r. stored_job st jid = Some r \<and> terminal_text r \<longrightarrow> stored_job st' jid \<in> {None, Some r})"

lemma keeps_result_refl [simp]: "keeps_result jid st st"
  by (simp add: keeps_result_def)

lemma keeps_result_trans: "keeps_result jid st st' \<Longrightarrow> keeps_result jid st' st'' \<Longrightarrow> keeps_result jid st st''"
  unfolding keeps_result_def by (cases "stored_job st jid"; cases "stored_job st' jid") auto

lemma keeps_result_same: "stored_job st' jid = stored_job st jid \<Longrightarrow> keeps_result jid st st'"
  by (simp add: keeps_result_def)

text \<open>What a read publishes for a job it finds stale is terminal too.\<close>

definition stale_failure :: "raw \<Rightarrow> bool" where
  "stale_failure r \<longleftrightarrow> (\<exists>job now. is_sync_job_stale job now \<and> r = dumps (mark_stale now job))"

lemma stale_failure_terminal: "stale_failure r \<Longrightarrow> terminal_text r"
  by (auto simp: stale_failure_def terminal_text_def status_in_def mark_stale_def TERMINAL_STATUSES_def)

text \<open>With such reads under way: a job that is over (gone or terminal) stays over, and only what such a
  read publishes can take the place of what was there.\<close>

definition stays_over :: "string \<Rightarrow> redis \<Rightarrow> redis \<Rightarrow> bool" where
  "stays_over jid st st' \<longleftrightarrow>
     ((case stored_job st jid of None \<Rightarrow> True | Some r \<Rightarrow> terminal_text r) \<longrightarrow>
      stored_job st' jid = None \<or> stored_job st' jid = stored_job st jid \<or> (\<exists>r. stored_job st' jid = Some r \<and> stale_failure r))"

lemma stays_over_trans: "stays_over jid st st' \<Longrightarrow> stays_over jid st' st'' \<Longrightarrow> stays_over jid st st''"
  using stale_failure_terminal unfolding stays_over_def by (auto split: option.splits)

lemma stays_over_same: "stored_job st' jid = stored_job st jid \<Longrightarrow> stays_over jid st st'"
  by (simp add: stays_over_def)

lemma conflict_reply:
  "fm_outcome (decode_mutation reply) = CONFLICT \<Longrightarrow>
     \<exists>r job. reply = Reply_Conflict r \<and> load_object r = Some job \<and>
       fm_raw (decode_mutation reply) = Some r \<and> fm_job (decode_mutation reply) = Some job"
  by (cases reply) (auto simp: decode_text_def mutation_def split: option.splits)

text \<open>A guarantee between two moments that every compare-and-set of a document that is not terminal
  gives, and that composes, is given by every writer of the module.\<close>

locale writer_guarantee =
  fixes K :: "redis \<Rightarrow> redis \<Rightarrow> bool"
  assumes K_refl: "K st st"
    and K_trans: "K st st' \<Longrightarrow> K st' st'' \<Longrightarrow> K st st''"
    and K_script: "\<not> terminal_text old \<Longrightarrow> K st (snd (legacy_job_mutation_script j old new st))"
begin

lemma fenced_script_keeps: "\<not> terminal_text old \<Longrightarrow> K st (snd (fenced_job_mutation_script j token old new st))"
  using K_script by (simp add: fenced_job_mutation_script_def K_refl split: option.split)

lemma open_text: "load_object r = Some job \<Longrightarrow> \<not> status_in job TERMINAL_STATUSES \<Longrightarrow> \<not> terminal_text r"
  by (simp add: terminal_text_def)

lemma empty_text: "\<not> terminal_text (Other_Text '''')"
  by (simp add: terminal_text_def load_object_def)

lemma legacy_loop_keeps:
  assumes "\<And>k s. K s (between k s)" "load_object r = Some job"
  shows "K st (snd (legacy_loop n between j r job payload st))"
  using assms(2)
proof (induction n arbitrary: r job st)
  case (Suc n)
  show ?case
  proof (cases "status_in job TERMINAL_STATUSES")
    case False
    define st1 where "st1 = snd (legacy_job_mutation_script j r (dumps_compact (dict_update job payload)) (between n st))"
    define m where "m = decode_mutation
      (fst (legacy_job_mutation_script j r (dumps_compact (dict_update job payload)) (between n st)))"
    have one: "K st st1"
      using K_trans [OF assms(1) K_script [OF open_text [OF Suc.prems False]]] by (simp add: st1_def)
    show ?thesis
    proof (cases "fm_outcome m = CONFLICT")
      case True
      then obtain r' job' where next_one: "load_object r' = Some job'" "fm_raw m = Some r'" "fm_job m = Some job'"
        using conflict_reply unfolding m_def by blast
      have "K st1 (snd (legacy_loop n between j r' job' payload st1))"
        by (rule Suc.IH [OF next_one(1)])
      then have "K st (snd (legacy_loop n between j r' job' payload st1))"
        using K_trans one by blast
      then show ?thesis
        using False True next_one(2,3) by (simp add: case_prod_beta Let_def m_def st1_def)
    next
      case other: False
      then show ?thesis
        using False one by (simp add: case_prod_beta Let_def m_def st1_def)
    qed
  qed (simp add: K_refl)
qed (simp add: K_refl)

lemma fenced_loop_keeps:
  assumes "\<And>k s. K s (between k s)" "load_object r = Some job"
  shows "K st (snd (fenced_loop n between j token allowed r job payload m0 st))"
  using assms(2)
proof (induction n arbitrary: r job st m0)
  case (Suc n)
  show ?case
  proof (cases "state_allowed allowed job")
    case True
    then have live: "\<not> status_in job TERMINAL_STATUSES" by (simp add: state_allowed_def)
    define st1 where "st1 = snd (fenced_job_mutation_script j token r (dumps_compact (dict_update job payload)) (between n st))"
    define m where "m = decode_mutation
      (fst (fenced_job_mutation_script j token r (dumps_compact (dict_update job payload)) (between n st)))"
    have one: "K st st1"
      using K_trans [OF assms(1) fenced_script_keeps [OF open_text [OF Suc.prems live]]] by (simp add: st1_def)
    show ?thesis
    proof (cases "fm_outcome m = CONFLICT")
      case conflict: True
      then obtain r' job' where next_one: "load_object r' = Some job'" "fm_raw m = Some r'" "fm_job m = Some job'"
        using conflict_reply unfolding m_def by blast
      have "K st1 (snd (fenced_loop n between j token allowed r' job' payload m st1))"
        by (rule Suc.IH [OF next_one(1)])
      then have "K st (snd (fenced_loop n between j token allowed r' job' payload m st1))"
        using K_trans one by blast
      then show ?thesis
        using True conflict next_one(2,3) by (simp add: case_prod_beta Let_def m_def st1_def)
    next
      case False
      then show ?thesis
        using True one by (simp add: case_prod_beta Let_def m_def st1_def)
    qed
  qed (simp add: K_refl)
qed (simp add: K_refl)

lemma update_sync_job_keeps:
  assumes "\<And>k s. K s (between k s)"
  shows "K st (snd (update_sync_job between j updates now st))"
  using legacy_loop_keeps [OF assms] by (auto simp: update_sync_job_def K_refl split: option.split)

lemma fenced_update_sync_job_keeps:
  assumes "\<And>k s. K s (between k s)"
  shows "K st (snd (fenced_update_sync_job between j token updates allowed now st))"
proof (cases "stored_job st j")
  case None
  define st1 where "st1 = snd (fenced_job_mutation_script j token (Other_Text '''') (Other_Text '''')
    (between MUTATION_MAX_RETRIES st))"
  define m where "m = decode_mutation (fst (fenced_job_mutation_script j token (Other_Text '''') (Other_Text '''')
    (between MUTATION_MAX_RETRIES st)))"
  have one: "K st st1"
    using K_trans [OF assms fenced_script_keeps [OF empty_text]] by (simp add: st1_def)
  show ?thesis
  proof (cases "fm_outcome m = CONFLICT")
    case True
    then obtain r job where next_one: "load_object r = Some job" "fm_raw m = Some r" "fm_job m = Some job"
      using conflict_reply unfolding m_def by blast
    then show ?thesis
      using None True K_trans [OF one fenced_loop_keeps [OF assms next_one(1)]]
      by (simp add: fenced_update_sync_job_def case_prod_beta Let_def m_def st1_def)
  next
    case False
    then show ?thesis
      using None one by (simp add: fenced_update_sync_job_def case_prod_beta Let_def m_def st1_def)
  qed
next
  case (Some r)
  then show ?thesis
    using fenced_loop_keeps [OF assms] by (auto simp: fenced_update_sync_job_def K_refl Let_def split: option.split)
qed

end

interpretation kept: writer_guarantee "keeps_result jid" for jid
proof
  show "keeps_result jid st st" for st by (simp add: keeps_result_refl)
  show "keeps_result jid st st' \<Longrightarrow> keeps_result jid st' st'' \<Longrightarrow> keeps_result jid st st''" for st st' st'' by (rule keeps_result_trans)
  show "\<not> terminal_text old \<Longrightarrow> keeps_result jid st (snd (legacy_job_mutation_script j old new st))" for old st j new
    by (auto simp: keeps_result_def legacy_job_mutation_script_def set_raw_job_def split: option.splits)
qed

interpretation over: writer_guarantee "stays_over jid" for jid
proof
  show "stays_over jid st st" for st by (simp add: stays_over_same)
  show "stays_over jid st st' \<Longrightarrow> stays_over jid st' st'' \<Longrightarrow> stays_over jid st st''" for st st' st'' by (rule stays_over_trans)
  show "\<not> terminal_text old \<Longrightarrow> stays_over jid st (snd (legacy_job_mutation_script j old new st))" for old st j new
    by (auto simp: stays_over_def legacy_job_mutation_script_def set_raw_job_def split: option.splits)
qed

text \<open>Executions by any clients, seen from one job: the job writers of this module (whose interference
  is again an execution), the compare-and-set of a call that began earlier and read a document
  that was not terminal, writes that leave the job alone, and its expiry or deletion; and, when
  \<open>reads\<close> says so, the write of a status read whose own reading, at whatever earlier moment, found
  the job stale. Only the job's creation is not a step.\<close>

inductive sync_run :: "bool \<Rightarrow> string \<Rightarrow> redis \<Rightarrow> redis \<Rightarrow> bool" for reads jid where
  run_refl: "sync_run reads jid st st"
| run_trans: "sync_run reads jid st st' \<Longrightarrow> sync_run reads jid st' st'' \<Longrightarrow> sync_run reads jid st st''"
| run_update: "(\<And>k s. sync_run reads jid s (between k s)) \<Longrightarrow>
    sync_run reads jid st (snd (update_sync_job between j updates now st))"
| run_fenced: "(\<And>k s. sync_run reads jid s (between k s)) \<Longrightarrow>
    sync_run reads jid st (snd (fenced_update_sync_job between j token updates allowed now st))"
| run_script: "\<not> terminal_text old \<Longrightarrow> sync_run reads jid st (snd (legacy_job_mutation_script j old new st))"
| run_read: "reads \<Longrightarrow> is_sync_job_stale job now \<Longrightarrow> sync_run reads jid st (set_raw_job j (dumps (mark_stale now job)) st)"
| run_elsewhere: "stored_job st' jid = stored_job st jid \<Longrightarrow> sync_run reads jid st st'"
| run_gone: "stored_job st' jid = None \<Longrightarrow> sync_run reads jid st st'"

lemma sync_run_keeps: "sync_run reads jid st st' \<Longrightarrow> \<not> reads \<Longrightarrow> keeps_result jid st st'"
proof (induction rule: sync_run.induct)
  case run_trans
  then show ?case using keeps_result_trans by blast
next
  case run_update
  then show ?case by (intro kept.update_sync_job_keeps)
next
  case run_fenced
  then show ?case by (intro kept.fenced_update_sync_job_keeps)
next
  case run_script
  then show ?case by (intro kept.K_script)
next
  case run_elsewhere
  then show ?case by (intro keeps_result_same)
qed (simp_all add: keeps_result_def)

lemma sync_run_stays_over: "sync_run reads jid st st' \<Longrightarrow> stays_over jid st st'"
proof (induction rule: sync_run.induct)
  case run_trans
  then show ?case using stays_over_trans by blast
next
  case run_update
  then show ?case by (intro over.update_sync_job_keeps)
next
  case run_fenced
  then show ?case by (intro over.fenced_update_sync_job_keeps)
next
  case run_script
  then show ?case by (intro over.K_script)
next
  case run_read
  then show ?case by (auto simp: stays_over_def stale_failure_def set_raw_job_def)
next
  case run_elsewhere
  then show ?case by (intro stays_over_same)
qed (simp_all add: stays_over_def)

lemma finalize_sync_job_run:
  "(\<And>k s. sync_run reads jid s (between k s)) \<Longrightarrow> sync_run reads jid st (snd (finalize_sync_job between j result now st))"
  by (auto simp: finalize_sync_job_def intro: run_refl run_update split: option.split)

lemma fenced_finalize_run:
  "(\<And>k s. sync_run reads jid s (between k s)) \<Longrightarrow>
     sync_run reads jid st (snd (fenced_finalize_with between j token result allowed now st))"
  by (auto simp: fenced_finalize_with_def intro: run_refl run_fenced split: option.split)

lemma get_sync_job_run:
  "(\<And>s. sync_run True jid s (between s)) \<Longrightarrow> sync_run True jid st (snd (get_sync_job between j now st))"
  by (auto simp: get_sync_job_def Let_def intro: run_refl run_trans [OF _ run_read [OF TrueI]] split: option.split json.split)

section \<open>A fenced write needs the lock\<close>

definition fenced_write :: "string \<Rightarrow> string \<Rightarrow> string set option \<Rightarrow> jdict \<Rightarrow> redis \<Rightarrow> redis \<Rightarrow> bool" where
  "fenced_write jid token allowed payload w st' \<longleftrightarrow>
     lock_owner w jid = Some token \<and>
     (\<exists>r job. stored_job w jid = Some r \<and> load_object r = Some job \<and> state_allowed allowed job \<and>
        st' = set_raw_job jid (dumps_compact (dict_update job payload)) w)"

lemma fenced_script_cases:
  fixes jid token payload w
  assumes "load_object r = Some job" "state_allowed allowed job"
  defines "out \<equiv> fenced_job_mutation_script jid token r (dumps_compact (dict_update job payload)) w"
  shows "fm_outcome (decode_mutation (fst out)) = APPLIED \<longrightarrow> fenced_write jid token allowed payload w (snd out)"
    and "fm_outcome (decode_mutation (fst out)) \<noteq> APPLIED \<longrightarrow> snd out = w"
  using assms(1,2)
  by (auto simp: out_def cas_defs fenced_write_def split: option.splits if_splits)

lemma fenced_loop_cases:
  fixes n between jid token allowed payload st
  assumes "load_object r = Some job" "fm_outcome m0 \<noteq> APPLIED"
  defines "out \<equiv> fenced_loop n between jid token allowed r job payload m0 st"
  shows "(fm_outcome (fst out) = APPLIED \<longrightarrow> (\<exists>k s. fenced_write jid token allowed payload (between k s) (snd out))) \<and>
    (fm_outcome (fst out) \<noteq> APPLIED \<longrightarrow> snd out = st \<or> (\<exists>k s. snd out = between k s))"
  using assms(1,2) unfolding out_def
proof (induction n arbitrary: r job st m0)
  case (Suc n)
  show ?case
  proof (cases "state_allowed allowed job")
    case True
    let ?w = "between n st"
    let ?out = "fenced_job_mutation_script jid token r (dumps_compact (dict_update job payload)) ?w"
    let ?m = "decode_mutation (fst ?out)"
    note script = fenced_script_cases [OF Suc.prems(1) True, of jid token payload ?w]
    show ?thesis
    proof (cases "fm_outcome ?m = CONFLICT")
      case conflict: True
      then obtain r' job' where next_one: "load_object r' = Some job'" "fm_raw ?m = Some r'" "fm_job ?m = Some job'"
        using conflict_reply by blast
      have "snd ?out = ?w" "fm_outcome ?m \<noteq> APPLIED"
        using script(2) conflict by auto
      then show ?thesis
        using True conflict next_one Suc.IH [of r' job' ?m ?w]
        by (simp add: case_prod_beta Let_def) blast
    next
      case False
      then show ?thesis
        using True script by (simp add: case_prod_beta Let_def) blast
    qed
  qed simp
qed simp

lemma left_by_interference:
  assumes "st' = st \<or> (\<exists>k s. st' = between k s)"
  shows "\<exists>w. (w = st \<or> (\<exists>k s. w = between k s)) \<and> (\<forall>j. stored_job st' j = stored_job w j)"
  using assms by (intro exI [of _ st']) simp

lemma fenced_update_cases:
  fixes between jid token updates allowed now st
  defines "out \<equiv> fenced_update_sync_job between jid token updates allowed now st"
  shows "(fm_outcome (fst out) = APPLIED \<longrightarrow>
       (\<exists>k s. fenced_write jid token allowed (stamped updates now) (between k s) (snd out))) \<and>
    (fm_outcome (fst out) \<noteq> APPLIED \<longrightarrow>
       (\<exists>w. (w = st \<or> (\<exists>k s. w = between k s)) \<and> (\<forall>j. stored_job (snd out) j = stored_job w j)))"
proof (cases "stored_job st jid")
  case None
  let ?w = "between MUTATION_MAX_RETRIES st"
  let ?out = "fenced_job_mutation_script jid token (Other_Text '''') (Other_Text '''') ?w"
  let ?m = "decode_mutation (fst ?out)"
  have not_applied: "fm_outcome ?m \<noteq> APPLIED"
    by (auto simp: cas_defs load_object_def split: option.splits json.splits)
  have same: "stored_job (snd ?out) j = stored_job ?w j" for j
    by (auto simp: cas_defs set_raw_job_def split: option.splits)
  show ?thesis
  proof (cases "fm_outcome ?m = CONFLICT")
    case True
    then obtain r job where next_one: "load_object r = Some job" "fm_raw ?m = Some r" "fm_job ?m = Some job"
      using conflict_reply by blast
    have "snd ?out = ?w"
      using True by (auto simp: cas_defs load_object_def split: option.splits if_splits)
    then have out: "out = fenced_loop MUTATION_MAX_RETRIES between jid token allowed r job (stamped updates now)
        (mutation CONFLICT) ?w"
      using None True next_one by (simp add: out_def fenced_update_sync_job_def case_prod_beta Let_def)
    note cases = fenced_loop_cases [OF next_one(1), of "mutation CONFLICT" MUTATION_MAX_RETRIES between
          jid token allowed "stamped updates now" ?w, folded out, simplified mutation_def fenced_mutation.select_convs]
    have "fm_outcome (fst out) \<noteq> APPLIED \<longrightarrow> snd out = st \<or> (\<exists>k s. snd out = between k s)"
      using cases by auto
    then show ?thesis
      using cases left_by_interference [of "snd out" st between] by simp
  next
    case False
    then show ?thesis
      using None not_applied same by (simp add: out_def fenced_update_sync_job_def case_prod_beta Let_def) blast
  qed
next
  case (Some r)
  show ?thesis
  proof (cases "load_object r")
    case None
    then show ?thesis
      using Some by (auto simp: out_def fenced_update_sync_job_def mutation_def)
  next
    case job: (Some job)
    have out: "out = fenced_loop MUTATION_MAX_RETRIES between jid token allowed r job (stamped updates now)
        (mutation CONFLICT) st"
      using Some job by (auto simp add: out_def fenced_update_sync_job_def Let_def)
    note cases = fenced_loop_cases [OF job, of "mutation CONFLICT" MUTATION_MAX_RETRIES between
          jid token allowed "stamped updates now" st, folded out, simplified mutation_def fenced_mutation.select_convs]
    then show ?thesis
      using left_by_interference [of "snd out" st between] by simp
  qed
qed

text \<open>C18: A published sync result is never overwritten by a job writer. Once a job's document is
  terminal, whatever the writers of the module do (retries, failures, finalizations, with or
  without a run token, from any stale read, interleaved in any way), the document stays
  unchanged until it expires. Status reads are the one exception: a read that found the job
  stale before the result was published overwrites it without comparing. With such reads under
  way the document is still terminal as long as it exists: it is the published one or the
  failure such a read wrote; and in either case a further write is refused.\<close>

theorem terminal_sync_job_is_kept:
  assumes "stored_job st jid = Some r" "terminal_text r" "sync_run reads jid st st'"
  shows "(stored_job st' jid \<in> {None, Some r} \<or>
      reads \<and> (\<exists>job t. is_sync_job_stale job t \<and> stored_job st' jid = Some (dumps (mark_stale t job)))) \<and>
    (\<forall>r'. stored_job st' jid = Some r' \<longrightarrow> terminal_text r' \<and> update_sync_job (\<lambda>_ s. s) jid updates now st' = (None, st') \<and>
       snd (fenced_update_sync_job (\<lambda>_ s. s) jid token updates allowed now st') = st')"
proof -
  have kept: "stored_job st' jid \<in> {None, Some r} \<or> reads \<and> (\<exists>r'. stored_job st' jid = Some r' \<and> stale_failure r')"
    using sync_run_keeps [OF assms(3)] sync_run_stays_over [OF assms(3)] assms(1,2)
    by (cases reads) (auto simp: keeps_result_def stays_over_def)
  have refused: "update_sync_job (\<lambda>_ s. s) jid updates now st' = (None, st') \<and>
      snd (fenced_update_sync_job (\<lambda>_ s. s) jid token updates allowed now st') = st'"
    if written: "stored_job st' jid = Some r'" "terminal_text r'" for r'
  proof -
    obtain job where "load_object r' = Some job" "status_in job TERMINAL_STATUSES"
      using written(2) by (auto simp: terminal_text_def split: option.splits)
    then show ?thesis
      using written(1) by (auto simp: update_sync_job_def fenced_update_sync_job_def MUTATION_MAX_RETRIES_def
          state_allowed_def numeral_3_eq_3)
  qed
  show ?thesis
  proof (intro conjI allI impI)
    fix r' assume r': "stored_job st' jid = Some r'"
    then show terminal: "terminal_text r'" using kept assms(2) stale_failure_terminal by auto
    show "update_sync_job (\<lambda>_ s. s) jid updates now st' = (None, st')"
      "snd (fenced_update_sync_job (\<lambda>_ s. s) jid token updates allowed now st') = st'"
      using refused [OF r' terminal] by simp_all
  qed (use kept in \<open>auto simp: stale_failure_def\<close>)
qed

text \<open>A fenced write happens only under the lock. Whatever other clients do between the commands of
  a fenced update, an update that reports success wrote at a moment when the caller's token held
  the run lock, onto the document stored at that very moment, which was not terminal and in an
  allowed state; an update that reports anything else changed no job document.\<close>

theorem fenced_write_needs_the_lock:
  assumes "fenced_update_sync_job between jid token updates allowed now st = (m, st')"
  shows "(fm_outcome m = APPLIED \<longrightarrow> (\<exists>k s. fenced_write jid token allowed (stamped updates now) (between k s) st')) \<and>
    (fm_outcome m \<noteq> APPLIED \<longrightarrow>
       (\<exists>w. (w = st \<or> (\<exists>k s. w = between k s)) \<and> (\<forall>j. stored_job st' j = stored_job w j)))"
  using fenced_update_cases [of between jid token updates allowed now st] assms by simp

section \<open>The stale read\<close>

lemma mark_stale_status [simp]: "dict_get (mark_stale now job) ''status'' = JStr ''failed''"
  by (simp add: mark_stale_def)

lemma mark_stale_not_stale [simp]: "\<not> is_sync_job_stale (mark_stale now job) t"
  by (simp add: is_sync_job_stale_def stale_threshold_def)

lemma get_sync_job_stale:
  assumes "stored_job st jid = Some r" "load_object r = Some job" "is_sync_job_stale job now"
  shows "get_sync_job between jid now st =
    (Some (mark_stale now job), set_raw_job jid (dumps (mark_stale now job)) (between st))"
  using assms by (cases r) (auto simp: get_sync_job_def load_object_def split: json.splits)

text \<open>Reading a job can destroy its result. A read that finds the job stale publishes it as failed
  with an unconditional write: whoever holds the run lock, and whatever was stored between the
  read and the write, a completed result included, the document is then the failed one; and the
  job it returns is never stale, so a caller that first takes the lease finds nothing to do.\<close>

theorem stale_read_overwrites_the_job:
  assumes "stored_job st jid = Some r" "load_object r = Some job" "is_sync_job_stale job now"
  shows "get_sync_job between jid now st =
      (Some (mark_stale now job), set_raw_job jid (dumps (mark_stale now job)) (between st)) \<and>
    terminal_text (dumps (mark_stale now job)) \<and> \<not> is_sync_job_stale (mark_stale now job) t"
  using get_sync_job_stale [OF assms]
  by (simp add: terminal_text_def status_in_def TERMINAL_STATUSES_def)

section \<open>Truthful final states\<close>

lemma first_error_not_null: "first_error result segments \<noteq> Some JNull"
  by (auto simp: first_error_def split: json.split list.split)

text \<open>The terminal patch tells the truth about the batch: completed exactly when no segment failed,
  failed exactly when every one of a nonempty batch did, partial failure in between; the counts
  add up to the batch and only a failed job carries an error.\<close>

theorem finalization_is_truthful:
  assumes "sync_job_finalization_updates result now = Some u"
    and "dict_get_or result ''failed_segments'' (JInt 0) = JInt failed"
    and "dict_get_or result ''total_segments'' (JInt 0) = JInt segments" "0 \<le> failed" "failed \<le> segments"
  shows "dict_get u ''status'' = JStr (if failed = 0 then ''completed'' else if failed = segments then ''failed''
      else ''partial_failure'') \<and>
    (\<exists>ok. dict_get u ''successful_segments'' = JInt ok \<and> dict_get u ''failed_segments'' = JInt failed \<and>
       dict_get u ''processed_segments'' = JInt segments \<and> ok + failed = segments) \<and>
    (dict_get u ''error'' \<noteq> JNull \<longleftrightarrow> dict_get u ''status'' = JStr ''failed'')"
proof -
  define status where "status = finalization_status_of segments failed"
  obtain error where error: "(if status = ''failed'' then first_error result segments else Some JNull) = Some error"
    and u: "u = [(''status'', JStr status), (''completed_at'', JFloat now), (''result'', JObj result),
      (''successful_segments'', JInt (max 0 (segments - failed))), (''failed_segments'', JInt failed),
      (''processed_segments'', JInt segments), (''error'', error)]"
    using assms(1-3) unfolding sync_job_finalization_updates_def status_def [symmetric]
    by (auto simp: Let_def status_def [symmetric] split: option.splits)
  have "status = (if failed = 0 then ''completed'' else if failed = segments then ''failed'' else ''partial_failure'')"
    using assms(4,5) by (simp add: status_def finalization_status_of_def)
  moreover have "error \<noteq> JNull \<longleftrightarrow> status = ''failed''"
    using error first_error_not_null by (auto split: if_splits)
  ultimately show ?thesis
    using assms(4,5) by (simp add: u dict_get_def max_def)
qed

section \<open>Epoch tokens\<close>

lemma colon_not_in_show_int: "0 < e \<Longrightarrow> CHR '':'' \<notin> set (show_int e)"
proof -
  assume "0 < e"
  have "digit_of CHR '':'' = None" by (simp add: digit_of_def)
  then show ?thesis
    using \<open>0 < e\<close> show_nat_digits [of "nat e"] by (auto simp: show_int_def)
qed

lemma epoch_of_epoch_token: "0 < e \<Longrightarrow> get_sync_job_run_lock_epoch (epoch_token e uuid) = e"
proof -
  assume e: "0 < e"
  have "takeWhile (\<lambda>c. c \<noteq> CHR '':'') (show_int e @ '':'' @ uuid) = show_int e"
    using colon_not_in_show_int [OF e] by (subst takeWhile_append2) auto
  then show ?thesis
    using e by (simp add: get_sync_job_run_lock_epoch_def epoch_token_def py_int_show_int)
qed

definition lock_epoch :: "redis \<Rightarrow> string \<Rightarrow> int" where
  "lock_epoch st jid = (case rd_epoch st jid of None \<Rightarrow> 0 | Some n \<Rightarrow> n)"

lemma acquire_cases:
  assumes "try_acquire_sync_job_run_lock jid uuid st = (Inr (Some token), st')"
  shows "rd_lock st jid = None" "token = epoch_token (lock_epoch st jid + 1) uuid"
    "lock_owner st' jid = Some token" "lock_epoch st' jid = lock_epoch st jid + 1"
    "rd_job st' = rd_job st"
  using assms
  by (auto simp: try_acquire_sync_job_run_lock_def Let_def lock_epoch_def simp del: not_None_eq
      split: if_splits option.splits)

text \<open>The epoch of a run can be read back from its token. A granted run lock has a token from which
  the parser recovers exactly the new value of the counter, one more than before; while the lock
  is held every other acquisition is refused, only the owner's token renews or frees it, and the
  next grant has a greater epoch and so another token.\<close>

theorem run_lock_token_round_trip:
  assumes "try_acquire_sync_job_run_lock jid uuid st = (Inr (Some token), st1)" "0 \<le> lock_epoch st jid"
  shows "get_sync_job_run_lock_epoch token = lock_epoch st1 jid \<and> lock_epoch st1 jid = lock_epoch st jid + 1 \<and>
    try_acquire_sync_job_run_lock jid uuid' st1 = (Inr None, st1) \<and> try_acquire_job_run_lock jid uuid' st1 = (None, st1) \<and>
    (other \<noteq> token \<longrightarrow> release_job_run_lock raises jid other st1 = st1 \<and> renew_job_run_lock jid other st1 = (False, st1)) \<and>
    (try_acquire_sync_job_run_lock jid uuid'' (release_job_run_lock False jid token st1) = (Inr (Some token'), st2) \<longrightarrow>
       get_sync_job_run_lock_epoch token < get_sync_job_run_lock_epoch token')"
proof -
  note got = acquire_cases [OF assms(1)]
  have epoch: "get_sync_job_run_lock_epoch token = lock_epoch st1 jid"
    using got assms(2) by (simp add: epoch_of_epoch_token)
  have held: "rd_lock st1 jid \<noteq> None" "lock_owner st1 jid = Some token" using got by auto
  have free: "lock_epoch (release_job_run_lock False jid token st1) jid = lock_epoch st1 jid"
    using held by (simp add: release_job_run_lock_def lock_epoch_def)
  have "get_sync_job_run_lock_epoch token < get_sync_job_run_lock_epoch token'"
    if again: "try_acquire_sync_job_run_lock jid uuid'' (release_job_run_lock False jid token st1) = (Inr (Some token'), st2)"
    using acquire_cases [OF again] epoch got(4) assms(2) free by (simp add: epoch_of_epoch_token)
  moreover have "try_acquire_sync_job_run_lock jid uuid' st1 = (Inr None, st1)"
    "try_acquire_job_run_lock jid uuid' st1 = (None, st1)"
    using held by (auto simp: try_acquire_sync_job_run_lock_def try_acquire_job_run_lock_def)
  moreover have "release_job_run_lock raises jid other st1 = st1 \<and> renew_job_run_lock jid other st1 = (False, st1)"
    if "other \<noteq> token"
    using held that by (auto simp: release_job_run_lock_def renew_job_run_lock_def)
  ultimately show ?thesis
    using epoch got(4) by blast
qed

section \<open>Instances\<close>

definition sample_sync_job :: jdict where
  "sample_sync_job = [(''status'', JStr ''processing''), (''updated_at'', JFloat 1)]"

definition sample_result :: jdict where
  "sample_result = [(''failed_segments'', JInt 0), (''total_segments'', JInt 2), (''errors'', JList [])]"

definition sample_redis :: redis where
  "sample_redis = set_raw_job ''j'' (dumps sample_sync_job) (snd (try_acquire_sync_job_run_lock ''j'' ''a'' empty_redis))"

lemmas sync_instance_simps =
  sample_sync_job_def sample_result_def set_raw_job_def dict_get_def dict_get_or_def
  status_in_def TERMINAL_STATUSES_def state_allowed_def MUTATION_MAX_RETRIES_def numeral_3_eq_3 stamped_def

lemma sample_lock: "try_acquire_sync_job_run_lock ''j'' ''a'' empty_redis =
    (Inr (Some (epoch_token 1 ''a'')), empty_redis\<lparr>rd_epoch := [''j'' \<mapsto> 1],
       rd_lock := [''j'' \<mapsto> (epoch_token 1 ''a'', RUN_LOCK_TTL_SECONDS)]\<rparr>)"
  by (simp add: try_acquire_sync_job_run_lock_def empty_redis_def epoch_of_epoch_token Let_def)

lemma sample_redis_parts:
  "rd_job sample_redis ''j'' = Some (dumps sample_sync_job, JOB_TTL_SECONDS)"
  "rd_lock sample_redis ''j'' = Some (epoch_token 1 ''a'', RUN_LOCK_TTL_SECONDS)"
  by (simp_all add: sample_redis_def sample_lock set_raw_job_def)

definition finished_redis :: redis where
  "finished_redis = snd (fenced_finalize_sync_job (\<lambda>_ s. s) ''j'' (epoch_token 1 ''a'') sample_result 5 sample_redis)"

lemma sample_finalization: "sync_job_finalization_updates sample_result 5 =
    Some [(''status'', JStr ''completed''), (''completed_at'', JFloat 5), (''result'', JObj sample_result),
      (''successful_segments'', JInt 2), (''failed_segments'', JInt 0), (''processed_segments'', JInt 2), (''error'', JNull)]"
  by (simp add: sync_job_finalization_updates_def finalization_status_of_def sync_instance_simps)

lemma finished_status: "\<exists>r job. stored_job finished_redis ''j'' = Some r \<and> load_object r = Some job \<and>
    dict_get job ''status'' = JStr ''completed''"
  by (simp add: finished_redis_def fenced_finalize_sync_job_def fenced_finalize_with_def sample_finalization
      fenced_update_sync_job_def sample_redis_parts cas_defs status_in_def TERMINAL_STATUSES_def state_allowed_def
      MUTATION_MAX_RETRIES_def numeral_3_eq_3 stamped_def set_raw_job_def sample_sync_job_def dict_get_def)

theorem terminal_sync_job_is_kept_witness:
  "\<exists>r. stored_job finished_redis ''j'' = Some r \<and>
     stored_job (snd (mark_job_queued_for_retry (\<lambda>_ s. s) ''j'' 1 ''late'' 9 finished_redis)) ''j'' \<in> {None, Some r}"
proof -
  obtain r job where r: "stored_job finished_redis ''j'' = Some r" "load_object r = Some job"
    "dict_get job ''status'' = JStr ''completed''"
    using finished_status by blast
  have "terminal_text r"
    using r by (simp add: terminal_text_def status_in_def TERMINAL_STATUSES_def)
  moreover have "sync_run False ''j'' finished_redis (snd (mark_job_queued_for_retry (\<lambda>_ s. s) ''j'' 1 ''late'' 9 finished_redis))"
    unfolding mark_job_queued_for_retry_def by (intro run_update run_refl)
  ultimately show ?thesis
    using terminal_sync_job_is_kept [OF r(1), where reads = False] r(1) by blast
qed

theorem fenced_write_needs_the_lock_witness:
  "\<exists>w. fenced_write ''j'' (epoch_token 1 ''a'') (Some {''processing''}) (stamped [(''stage'', JStr ''vad'')] 5) w
     (snd (fenced_update_sync_job (\<lambda>_ s. s) ''j'' (epoch_token 1 ''a'') [(''stage'', JStr ''vad'')] (Some {''processing''})
        5 sample_redis))"
proof -
  let ?call = "fenced_update_sync_job (\<lambda>_ s. s) ''j'' (epoch_token 1 ''a'') [(''stage'', JStr ''vad'')]
    (Some {''processing''}) 5 sample_redis"
  have "fm_outcome (fst ?call) = APPLIED"
    by (simp add: fenced_update_sync_job_def sample_redis_parts cas_defs sync_instance_simps)
  then show ?thesis
    using fenced_write_needs_the_lock [of "\<lambda>_ s. s" "''j''" "epoch_token 1 ''a''" "[(''stage'', JStr ''vad'')]"
        "Some {''processing''}" 5 sample_redis "fst ?call" "snd ?call"] by simp
qed

text \<open>The worker that holds the lock completes the job between the reader's read and its write.\<close>

theorem stale_read_overwrites_the_job_witness:
  "let finish = (\<lambda>s. snd (fenced_finalize_sync_job (\<lambda>_ s. s) ''j'' (epoch_token 1 ''a'') sample_result 750 s)) in
   snd (get_sync_job finish ''j'' 751 sample_redis) =
     set_raw_job ''j'' (dumps (mark_stale 751 sample_sync_job)) (finish sample_redis)"
proof -
  have "is_sync_job_stale sample_sync_job 751"
    by (simp add: is_sync_job_stale_def stale_threshold_def json_or_def STALE_THRESHOLD_SECONDS_def sync_instance_simps)
  then show ?thesis
    using stale_read_overwrites_the_job [of sample_redis "''j''" "dumps sample_sync_job" sample_sync_job 751]
    by (simp add: sample_redis_parts)
qed

theorem finalization_is_truthful_witness:
  "\<exists>u. sync_job_finalization_updates sample_result 5 = Some u \<and> dict_get u ''status'' = JStr ''completed''"
proof -
  have "dict_get_or sample_result ''failed_segments'' (JInt 0) = JInt 0"
    "dict_get_or sample_result ''total_segments'' (JInt 0) = JInt 2"
    by (simp_all add: sample_result_def dict_get_or_def)
  then show ?thesis
    using finalization_is_truthful [OF sample_finalization, of 0 2] sample_finalization by auto
qed

theorem run_lock_token_round_trip_witness:
  "get_sync_job_run_lock_epoch (epoch_token 1 ''a'') = 1"
  using run_lock_token_round_trip [OF sample_lock]
  by (simp add: lock_epoch_def empty_redis_def)

end
