(* ===== verification/Sync_Ledger.thy ===== *)
theory Sync_Ledger
  imports Json_Values
begin

text \<open>
  The durable content ledger of \<^verbatim>\<open>backend/database/sync_ledger.py\<close>: one Firestore document per
  uploaded content, which says which sync job owns the content, under which run token and
  epoch, which side effects were charged and whether processing is complete. Every
  transaction of the module is a function on the ledger; an execution is any sequence of
  them by any workers. Timestamps are aware instants; an outcome that is a list or an object,
  on which Python's set membership raises, counts as invalid. Deletion of a document by the
  store's retention policy is not a step.
\<close>

section \<open>Documents\<close>

text \<open>A stored epoch that is not an integer is \<open>Malformed\<close>.\<close>

datatype stored_epoch = Epoch int | Malformed

record ledger_doc =
  l_status :: "string option"
  l_job_id :: "string option"
  l_lane :: "string option"
  l_run_token :: "string option"
  l_run_epoch :: "stored_epoch option"
  l_updated_at :: "timestamp option"
  l_expires_at :: "timestamp option"
  l_result :: json
  l_partial_result :: json
  l_processed_segment_ids :: "string list"
  l_side_effects :: "string \<Rightarrow> (timestamp \<times> int) option"

definition empty_ledger_doc :: ledger_doc where
  "empty_ledger_doc =
     \<lparr>l_status = None, l_job_id = None, l_lane = None, l_run_token = None, l_run_epoch = None,
      l_updated_at = None, l_expires_at = None, l_result = JNull, l_partial_result = JNull,
      l_processed_segment_ids = [], l_side_effects = Map.empty\<rparr>"

type_synonym ledger_key = "string \<times> string"
type_synonym ledger = "ledger_key \<Rightarrow> ledger_doc option"

text \<open>\<^verbatim>\<open>snapshot.to_dict() or {}\<close> where the document exists, else \<^verbatim>\<open>{}\<close>.\<close>

definition existing_doc :: "ledger \<Rightarrow> ledger_key \<Rightarrow> ledger_doc" where
  "existing_doc l key = (case l key of None \<Rightarrow> empty_ledger_doc | Some d \<Rightarrow> d)"

definition LEDGER_RETENTION_DAYS :: int where
  "LEDGER_RETENTION_DAYS = 45"

definition CLAIM_STALE_SECONDS :: int where
  "CLAIM_STALE_SECONDS = 2 * 24 * 60 * 60"

definition ledger_expiry :: "timestamp \<Rightarrow> timestamp" where
  "ledger_expiry now = now + seconds (LEDGER_RETENTION_DAYS * 86400)"

section \<open>Ownership and validity\<close>

definition epoch_matches :: "stored_epoch option \<Rightarrow> int option \<Rightarrow> bool" where
  "epoch_matches bound run_epoch \<longleftrightarrow> bound = map_option Epoch run_epoch"

definition ledger_owner_matches :: "ledger_doc \<Rightarrow> string \<Rightarrow> string option \<Rightarrow> int option \<Rightarrow> bool" where
  "ledger_owner_matches d job_id run_token run_epoch \<longleftrightarrow>
     l_status d = Some ''processing'' \<and> l_job_id d = Some job_id \<and>
     (case run_token of
        None \<Rightarrow> l_run_token d = None \<and> l_run_epoch d = None
      | Some t \<Rightarrow> l_run_token d = Some t \<and> epoch_matches (l_run_epoch d) run_epoch)"

definition is_valid_completed_sync_content_result :: "json \<Rightarrow> bool" where
  "is_valid_completed_sync_content_result result =
     (case result of
        JObj r \<Rightarrow>
          (case (dict_get r ''failed_segments'', dict_get r ''total_segments'', dict_get r ''errors'') of
             (JInt failed, JInt segments, JList errors) \<Rightarrow>
               failed = 0 \<and> segments \<ge> 0 \<and> failed \<le> segments \<and> errors = [] \<and>
               (if dict_get r ''outcome'' = JNull then segments > 0
                else dict_get r ''outcome'' \<in> {JStr ''success'', JStr ''expected_silence''})
           | _ \<Rightarrow> False)
      | _ \<Rightarrow> False)"

section \<open>Transactions\<close>

definition processing_claim_updates ::
    "string \<Rightarrow> string \<Rightarrow> timestamp \<Rightarrow> bool \<Rightarrow> ledger_doc \<Rightarrow> ledger_doc" where
  "processing_claim_updates job_id lane now clear_invalid_completion d =
     (let claimed = d\<lparr>l_status := Some ''processing'', l_job_id := Some job_id, l_lane := Some lane,
                      l_updated_at := Some now, l_expires_at := Some (ledger_expiry now),
                      l_run_token := None, l_run_epoch := None\<rparr>
      in if clear_invalid_completion
         then claimed\<lparr>l_result := JNull, l_partial_result := JNull, l_processed_segment_ids := []\<rparr>
         else claimed)"

datatype claim_outcome = Claim_Completed json | Claim_Owned | Claim_Busy

definition claim_sync_content ::
    "ledger_key \<Rightarrow> string \<Rightarrow> string \<Rightarrow> timestamp \<Rightarrow> ledger \<Rightarrow> claim_outcome \<times> ledger" where
  "claim_sync_content key job_id lane now l =
     (let d = existing_doc l key;
          claim = (\<lambda>clear. (Claim_Owned, l(key \<mapsto> processing_claim_updates job_id lane now clear d)))
      in if l_status d = Some ''completed'' then
           (if is_valid_completed_sync_content_result (l_result d) then (Claim_Completed (l_result d), l)
            else claim True)
         else if l_job_id d = Some job_id then (Claim_Owned, l)
         else if l_status d = Some ''retryable'' then claim False
         else (case l_updated_at d of
                 Some t \<Rightarrow> if now - t < seconds CLAIM_STALE_SECONDS then (Claim_Busy, l) else claim False
               | None \<Rightarrow> claim False))"

datatype run_binding = Bound | Completed json | Lost

definition bind_sync_content_run_token ::
    "ledger_key \<Rightarrow> string \<Rightarrow> string \<Rightarrow> int \<Rightarrow> timestamp \<Rightarrow> ledger \<Rightarrow> run_binding \<times> ledger" where
  "bind_sync_content_run_token key job_id run_token run_epoch now l =
     (let d = existing_doc l key;
          take_over = (Bound, l(key \<mapsto> d\<lparr>l_run_token := Some run_token, l_run_epoch := Some (Epoch run_epoch),
                                       l_updated_at := Some now\<rparr>))
      in if l_status d = Some ''completed'' then
           (if is_valid_completed_sync_content_result (l_result d) then (Completed (l_result d), l)
            else if l_job_id d \<noteq> Some job_id then (Lost, l)
            else (Bound, l(key \<mapsto>
                    (processing_claim_updates job_id (str_or (l_lane d) ''legacy'') now True d)
                      \<lparr>l_run_token := Some run_token, l_run_epoch := Some (Epoch run_epoch)\<rparr>)))
         else if l_status d \<noteq> Some ''processing'' \<or> l_job_id d \<noteq> Some job_id then (Lost, l)
         else (case l_run_epoch d of
                 None \<Rightarrow> take_over
               | Some Malformed \<Rightarrow> (Lost, l)
               | Some (Epoch e) \<Rightarrow>
                   if e > run_epoch then (Lost, l)
                   else if e = run_epoch then (if l_run_token d = Some run_token then Bound else Lost, l)
                   else take_over))"

definition SIDE_EFFECT_TAGS :: "string set" where
  "SIDE_EFFECT_TAGS = {''speech_ms'', ''usage'', ''dg_ms''}"

text \<open>\<open>None\<close> is the \<^verbatim>\<open>ValueError\<close> of an unsupported tag.\<close>

definition try_mark_sync_content_side_effect ::
    "ledger_key \<Rightarrow> string \<Rightarrow> string \<Rightarrow> int \<Rightarrow> string option \<Rightarrow> int option \<Rightarrow> timestamp \<Rightarrow> ledger \<Rightarrow>
     bool option \<times> ledger" where
  "try_mark_sync_content_side_effect key job_id tag value run_token run_epoch now l =
     (let d = existing_doc l key in
      if tag \<notin> SIDE_EFFECT_TAGS then (None, l)
      else if l_side_effects d tag \<noteq> None then (Some False, l)
      else if \<not> ledger_owner_matches d job_id run_token run_epoch then (Some False, l)
      else (Some True, l(key \<mapsto> d\<lparr>l_side_effects := (l_side_effects d)(tag \<mapsto> (now, value)),
                                l_updated_at := Some now\<rparr>)))"

definition try_mark_sync_content_metered ::
    "ledger_key \<Rightarrow> string \<Rightarrow> int \<Rightarrow> string option \<Rightarrow> int option \<Rightarrow> timestamp \<Rightarrow> ledger \<Rightarrow> bool option \<times> ledger" where
  "try_mark_sync_content_metered key job_id speech_ms run_token run_epoch now l =
     try_mark_sync_content_side_effect key job_id ''speech_ms'' speech_ms run_token run_epoch now l"

definition get_processed_sync_segment_ids :: "ledger_key \<Rightarrow> ledger \<Rightarrow> string set" where
  "get_processed_sync_segment_ids key l = set (l_processed_segment_ids (existing_doc l key))"

definition get_sync_content_partial_result :: "ledger_key \<Rightarrow> ledger \<Rightarrow> jdict" where
  "get_sync_content_partial_result key l =
     (case l_partial_result (existing_doc l key) of JObj d \<Rightarrow> d | _ \<Rightarrow> [])"

text \<open>A write by the owner of the claim, refused when the caller is not the owner.\<close>

definition owner_write ::
    "(ledger_doc \<Rightarrow> ledger_doc) \<Rightarrow> ledger_key \<Rightarrow> string \<Rightarrow> string option \<Rightarrow> int option \<Rightarrow> ledger \<Rightarrow> bool \<times> ledger" where
  "owner_write f key job_id run_token run_epoch l =
     (let d = existing_doc l key in
      if \<not> ledger_owner_matches d job_id run_token run_epoch then (False, l) else (True, l(key \<mapsto> f d)))"

definition checkpoint_sync_content_partial_result ::
    "ledger_key \<Rightarrow> string \<Rightarrow> jdict \<Rightarrow> string option \<Rightarrow> int option \<Rightarrow> timestamp \<Rightarrow> ledger \<Rightarrow> bool \<times> ledger" where
  "checkpoint_sync_content_partial_result key job_id partial run_token run_epoch now l =
     owner_write (\<lambda>d. d\<lparr>l_partial_result := JObj partial, l_updated_at := Some now\<rparr>) key job_id run_token run_epoch l"

definition add_processed_sync_segment_id ::
    "ledger_key \<Rightarrow> string \<Rightarrow> string \<Rightarrow> string option \<Rightarrow> int option \<Rightarrow> timestamp \<Rightarrow> ledger \<Rightarrow> bool \<times> ledger" where
  "add_processed_sync_segment_id key job_id segment_id run_token run_epoch now l =
     (if segment_id \<in> set (l_processed_segment_ids (existing_doc l key)) then (False, l)
      else owner_write (\<lambda>d. d\<lparr>l_processed_segment_ids := l_processed_segment_ids d @ [segment_id],
                           l_updated_at := Some now\<rparr>) key job_id run_token run_epoch l)"

definition mark_sync_content_completed ::
    "ledger_key \<Rightarrow> string \<Rightarrow> json \<Rightarrow> string option \<Rightarrow> int option \<Rightarrow> timestamp \<Rightarrow> ledger \<Rightarrow> bool \<times> ledger" where
  "mark_sync_content_completed key job_id result run_token run_epoch now l =
     (if \<not> is_valid_completed_sync_content_result result then (False, l)
      else owner_write (\<lambda>d. d\<lparr>l_status := Some ''completed'', l_result := result, l_updated_at := Some now,
                           l_expires_at := Some (ledger_expiry now)\<rparr>) key job_id run_token run_epoch l)"

definition retryable_update :: "timestamp \<Rightarrow> ledger_doc \<Rightarrow> ledger_doc" where
  "retryable_update now d =
     d\<lparr>l_status := Some ''retryable'', l_job_id := None, l_run_token := None, l_run_epoch := None,
       l_updated_at := Some now, l_expires_at := Some (ledger_expiry now)\<rparr>"

definition release_sync_content_claim ::
    "ledger_key \<Rightarrow> string \<Rightarrow> string option \<Rightarrow> int option \<Rightarrow> timestamp \<Rightarrow> ledger \<Rightarrow> bool \<times> ledger" where
  "release_sync_content_claim key job_id run_token run_epoch now l =
     (if l_status (existing_doc l key) = Some ''completed'' then (False, l)
      else owner_write (retryable_update now) key job_id run_token run_epoch l)"

definition release_sync_content_claim_after_job_retired ::
    "ledger_key \<Rightarrow> string \<Rightarrow> timestamp \<Rightarrow> ledger \<Rightarrow> bool \<times> ledger" where
  "release_sync_content_claim_after_job_retired key job_id now l =
     (let d = existing_doc l key in
      if l_status d \<noteq> Some ''processing'' \<or> l_job_id d \<noteq> Some job_id then (False, l)
      else (True, l(key \<mapsto> retryable_update now d)))"

lemmas ledger_defs =
  claim_sync_content_def bind_sync_content_run_token_def try_mark_sync_content_side_effect_def
  owner_write_def checkpoint_sync_content_partial_result_def add_processed_sync_segment_id_def
  mark_sync_content_completed_def release_sync_content_claim_def
  release_sync_content_claim_after_job_retired_def processing_claim_updates_def retryable_update_def

lemma existing_doc_update [simp]:
  "existing_doc (l(key \<mapsto> d)) k = (if k = key then d else existing_doc l k)"
  by (simp add: existing_doc_def)

section \<open>Executions\<close>

text \<open>One transaction of any client, as data; \<open>perform\<close> says whether it was granted and what it
  leaves.\<close>

datatype ledger_op =
    Claim ledger_key string string timestamp
  | Bind ledger_key string string int timestamp
  | Charge ledger_key string string int "string option" "int option" timestamp
  | Checkpoint ledger_key string jdict "string option" "int option" timestamp
  | Processed ledger_key string string "string option" "int option" timestamp
  | Complete ledger_key string json "string option" "int option" timestamp
  | Release ledger_key string "string option" "int option" timestamp
  | Retire ledger_key string timestamp

fun perform :: "ledger_op \<Rightarrow> ledger \<Rightarrow> bool \<times> ledger" where
  "perform (Claim k j lane now) l = (let (r, l') = claim_sync_content k j lane now l in (r = Claim_Owned, l'))"
| "perform (Bind k j t e now) l = (let (r, l') = bind_sync_content_run_token k j t e now l in (r = Bound, l'))"
| "perform (Charge k j tag v t e now) l =
     (let (r, l') = try_mark_sync_content_side_effect k j tag v t e now l in (r = Some True, l'))"
| "perform (Checkpoint k j p t e now) l = checkpoint_sync_content_partial_result k j p t e now l"
| "perform (Processed k j s t e now) l = add_processed_sync_segment_id k j s t e now l"
| "perform (Complete k j r t e now) l = mark_sync_content_completed k j r t e now l"
| "perform (Release k j t e now) l = release_sync_content_claim k j t e now l"
| "perform (Retire k j now) l = release_sync_content_claim_after_job_retired k j now l"

definition ledger_step :: "ledger \<Rightarrow> ledger \<Rightarrow> bool" where
  "ledger_step l l' \<longleftrightarrow> (\<exists>op. l' = snd (perform op l))"

lemma ledger_step_perform: "ledger_step l (snd (perform op l))"
  unfolding ledger_step_def by (rule exI [of _ op]) (rule refl)

fun op_key :: "ledger_op \<Rightarrow> ledger_key" where
  "op_key (Claim k _ _ _) = k"
| "op_key (Bind k _ _ _ _) = k"
| "op_key (Charge k _ _ _ _ _ _) = k"
| "op_key (Checkpoint k _ _ _ _ _) = k"
| "op_key (Processed k _ _ _ _ _) = k"
| "op_key (Complete k _ _ _ _ _) = k"
| "op_key (Release k _ _ _ _) = k"
| "op_key (Retire k _ _) = k"

text \<open>A transaction touches its own document, and only when it is granted.\<close>

lemma perform_other_key: "k \<noteq> op_key op \<Longrightarrow> snd (perform op l) k = l k"
  by (cases op) (auto simp: ledger_defs Let_def split: option.splits stored_epoch.splits)

lemma refused_changes_nothing: "\<not> fst (perform op l) \<Longrightarrow> snd (perform op l) = l"
  by (cases op) (auto simp: ledger_defs Let_def split: option.splits stored_epoch.splits if_splits)

section \<open>A valid completion is final\<close>

definition completion :: "ledger \<Rightarrow> ledger_key \<Rightarrow> (string option \<times> json) option" where
  "completion l k = map_option (\<lambda>d. (l_status d, l_result d)) (l k)"

definition validly_completed :: "string option \<times> json \<Rightarrow> bool" where
  "validly_completed v \<longleftrightarrow> fst v = Some ''completed'' \<and> is_valid_completed_sync_content_result (snd v)"

lemma completed_doc_refuses:
  assumes "l_status (existing_doc l (op_key op)) = Some ''completed''"
    and "is_valid_completed_sync_content_result (l_result (existing_doc l (op_key op)))"
  shows "\<not> fst (perform op l)"
  using assms
  by (cases op) (auto simp: ledger_defs Let_def ledger_owner_matches_def)

interpretation ledger_completions: frozen_when_terminal ledger_step completion validly_completed
proof
  fix l l' k v
  assume step: "ledger_step l l'" and view: "completion l k = Some v" "validly_completed v"
  obtain op where op: "l' = snd (perform op l)" using step by (auto simp: ledger_step_def)
  show "completion l' k = Some v"
  proof (cases "k = op_key op")
    case True
    then have "\<not> fst (perform op l)"
      using view by (intro completed_doc_refuses) (auto simp: completion_def validly_completed_def existing_doc_def)
    then show ?thesis using view op refused_changes_nothing by simp
  next
    case False
    then show ?thesis using view op perform_other_key [of k op l] by (simp add: completion_def)
  qed
qed

text \<open>C16: A valid completion of an upload is durable and shared. Once the ledger holds an all-success
  result for a content, whatever transactions any workers run, the result stays; every later
  claim of the content answers with it, every run that tries to bind is told it is complete, and
  none of them changes the ledger.\<close>

theorem completed_content_is_final:
  assumes "l_status (existing_doc l key) = Some ''completed''"
    and "is_valid_completed_sync_content_result (l_result (existing_doc l key))"
    and "ledger_step\<^sup>*\<^sup>* l l'"
  shows "claim_sync_content key job lane now l' = (Claim_Completed (l_result (existing_doc l key)), l') \<and>
    bind_sync_content_run_token key job token epoch now l' = (Completed (l_result (existing_doc l key)), l')"
proof -
  obtain d where d: "l key = Some d"
    using assms(1) by (cases "l key") (auto simp: existing_doc_def empty_ledger_doc_def)
  have "completion l' key = Some (l_status d, l_result d)"
    using assms d
    by (intro ledger_completions.steps_frozen [OF assms(3)]) (auto simp: completion_def validly_completed_def existing_doc_def)
  then obtain d' where "l' key = Some d'" "l_status d' = l_status d" "l_result d' = l_result d"
    by (auto simp: completion_def)
  then show ?thesis
    using assms(1,2) d by (simp add: claim_sync_content_def bind_sync_content_run_token_def existing_doc_def)
qed

section \<open>Each side effect is charged once\<close>

fun is_charge :: "ledger_key \<Rightarrow> string \<Rightarrow> ledger_op \<Rightarrow> bool" where
  "is_charge key tag (Charge k _ g _ _ _ _) = (k = key \<and> g = tag)"
| "is_charge key tag _ = False"

fun charges :: "ledger_key \<Rightarrow> string \<Rightarrow> ledger_op list \<Rightarrow> ledger \<Rightarrow> nat" where
  "charges key tag [] l = 0"
| "charges key tag (op # ops) l =
     of_bool (fst (perform op l) \<and> is_charge key tag op) +
     charges key tag ops (snd (perform op l))"

abbreviation charged :: "ledger \<Rightarrow> ledger_key \<Rightarrow> string \<Rightarrow> (timestamp \<times> int) option" where
  "charged l key tag \<equiv> l_side_effects (existing_doc l key) tag"

lemma charged_stays: "charged l key tag = Some c \<Longrightarrow> charged (snd (perform op l)) key tag = Some c"
  by (cases c; cases op) (auto simp: ledger_defs Let_def split: option.splits stored_epoch.splits)

lemma charge_needs_uncharged:
  assumes "fst (perform op l)" "is_charge key tag op"
  shows "charged l key tag = None \<and> charged (snd (perform op l)) key tag \<noteq> None"
  using assms by (cases op) (simp_all add: ledger_defs Let_def del: not_None_eq split: if_splits)

lemma no_charge_when_charged: "charged l key tag = Some c \<Longrightarrow> charges key tag ops l = 0"
proof (induction ops arbitrary: l)
  case (Cons op ops)
  then have "\<not> (fst (perform op l) \<and> is_charge key tag op)"
    using charge_needs_uncharged [of op l key tag] by auto
  then show ?case using Cons charged_stays by simp
qed simp

text \<open>C17: Metering is once only: whatever transactions any workers of any jobs run on a content, in any
  order, each side effect (speech time, usage, provider time) is granted at most once, and after
  a grant the recorded value never changes.\<close>

theorem side_effect_is_charged_once:
  "charges key tag ops l \<le> 1 \<and>
   (charged l key tag = Some c \<and> ledger_step\<^sup>*\<^sup>* l l' \<longrightarrow> charged l' key tag = Some c)"
proof
  show "charges key tag ops l \<le> 1"
  proof (induction ops arbitrary: l)
    case (Cons op ops)
    show ?case
    proof (cases "fst (perform op l) \<and> is_charge key tag op")
      case True
      then obtain c where "charged (snd (perform op l)) key tag = Some c"
        using charge_needs_uncharged [of op l key tag] by blast
      then show ?thesis using True no_charge_when_charged by simp
    next
      case False
      have "charges key tag (op # ops) l = charges key tag ops (snd (perform op l))"
        using False by (simp only: charges.simps of_bool_eq add_0)
      also have "\<dots> \<le> 1" by (rule Cons)
      finally show ?thesis .
    qed
  qed simp
  show "charged l key tag = Some c \<and> ledger_step\<^sup>*\<^sup>* l l' \<longrightarrow> charged l' key tag = Some c"
  proof (intro impI, elim conjE)
    assume "ledger_step\<^sup>*\<^sup>* l l'" "charged l key tag = Some c"
    then show "charged l' key tag = Some c"
      by (induction rule: rtranclp_induct) (auto simp: ledger_step_def charged_stays)
  qed
qed

section \<open>A superseded run is fenced\<close>

text \<open>Everything any client does except claiming \<open>key\<close> anew for the job \<open>job\<close>.\<close>

definition tenure_step :: "ledger_key \<Rightarrow> string \<Rightarrow> ledger \<Rightarrow> ledger \<Rightarrow> bool" where
  "tenure_step key job l l' \<longleftrightarrow> (\<exists>op. l' = snd (perform op l) \<and> (\<nexists>lane now. op = Claim key job lane now))"

text \<open>Where the job still owns the content, it does so under an epoch of at least \<open>e\<close>.\<close>

definition owned_from_epoch :: "ledger_key \<Rightarrow> string \<Rightarrow> int \<Rightarrow> ledger \<Rightarrow> bool" where
  "owned_from_epoch key job e l \<longleftrightarrow>
     (let d = existing_doc l key in l_job_id d = Some job \<longrightarrow>
        (\<exists>e'. l_run_epoch d = Some (Epoch e') \<and> e \<le> e') \<and>
        (l_status d = Some ''processing'' \<or>
         l_status d = Some ''completed'' \<and> is_valid_completed_sync_content_result (l_result d)))"

lemma owned_from_epoch_op:
  assumes "owned_from_epoch key job e l" "\<nexists>lane now. op = Claim key job lane now"
  shows "owned_from_epoch key job e (snd (perform op l))"
proof (cases "op_key op = key")
  case False
  then show ?thesis
    using assms(1) perform_other_key [of key op l] by (simp add: owned_from_epoch_def existing_doc_def)
next
  case True
  then show ?thesis
    using assms
    by (cases op) (auto simp: owned_from_epoch_def ledger_defs Let_def ledger_owner_matches_def
        split: option.splits stored_epoch.splits if_splits)
qed

interpretation tenure: kept_invariant "tenure_step key job" "owned_from_epoch key job e" for key job e
  by unfold_locales (auto simp: tenure_step_def intro: owned_from_epoch_op)

text \<open>The transactions of one run of a job, under its token and epoch.\<close>

definition run_op :: "ledger_key \<Rightarrow> string \<Rightarrow> string \<Rightarrow> int \<Rightarrow> ledger_op \<Rightarrow> bool" where
  "run_op key job token e op \<longleftrightarrow>
     (\<exists>now. op = Bind key job token e now) \<or>
     (\<exists>tag v now. op = Charge key job tag v (Some token) (Some e) now) \<or>
     (\<exists>p now. op = Checkpoint key job p (Some token) (Some e) now) \<or>
     (\<exists>s now. op = Processed key job s (Some token) (Some e) now) \<or>
     (\<exists>r now. op = Complete key job r (Some token) (Some e) now) \<or>
     (\<exists>now. op = Release key job (Some token) (Some e) now)"

lemma run_op_refused:
  assumes "owned_from_epoch key job e2 l" "run_op key job t e op" "e < e2"
  shows "\<not> fst (perform op l)"
  using assms
  by (auto simp: run_op_def owned_from_epoch_def ledger_defs Let_def ledger_owner_matches_def epoch_matches_def
      split: option.splits stored_epoch.splits if_splits)

lemma bound_owns_from_epoch:
  "bind_sync_content_run_token key job t e now l = (Bound, l1) \<Longrightarrow> owned_from_epoch key job e l1"
  by (auto simp: bind_sync_content_run_token_def owned_from_epoch_def processing_claim_updates_def Let_def
      split: if_splits option.splits stored_epoch.splits)

text \<open>A superseded run cannot touch the ledger. Once a run of a job has bound the content under an
  epoch, and until the job claims the content anew, every transaction of a run of that job with
  a smaller epoch is refused and changes nothing, whatever anyone did in between.\<close>

theorem superseded_run_is_fenced:
  assumes "bind_sync_content_run_token key job token e now l = (Bound, l1)"
    and "(tenure_step key job)\<^sup>*\<^sup>* l1 l2" "e' < e" "run_op key job token' e' op"
  shows "perform op l2 = (False, l2)"
proof -
  have "owned_from_epoch key job e l2"
    using tenure.steps_inv [OF assms(2)] bound_owns_from_epoch [OF assms(1)] .
  then have "\<not> fst (perform op l2)"
    using run_op_refused assms(3,4) by blast
  then show ?thesis
    using refused_changes_nothing by (metis prod.collapse)
qed

section \<open>Instances\<close>

definition all_success :: json where
  "all_success = JObj [(''failed_segments'', JInt 0), (''total_segments'', JInt 2), (''errors'', JList [])]"

definition done_ledger :: ledger where
  "done_ledger = [(''u'', ''c'') \<mapsto>
     empty_ledger_doc\<lparr>l_status := Some ''completed'', l_job_id := Some ''j'', l_result := all_success\<rparr>]"

definition claimed_ledger :: ledger where
  "claimed_ledger = snd (claim_sync_content (''u'', ''c'') ''j'' ''fresh'' 0 Map.empty)"

definition bound_ledger :: ledger where
  "bound_ledger = snd (bind_sync_content_run_token (''u'', ''c'') ''j'' ''2:b'' 2 1 claimed_ledger)"

lemmas ledger_instance_simps =
  all_success_def done_ledger_def claimed_ledger_def bound_ledger_def is_valid_completed_sync_content_result_def
  existing_doc_def empty_ledger_doc_def dict_get_def

theorem completed_content_is_final_witness:
  "fst (claim_sync_content (''u'', ''c'') ''other'' ''fresh'' 7 (snd (perform (Retire (''u'', ''c'') ''j'' 5) done_ledger))) =
     Claim_Completed all_success"
proof -
  have "ledger_step\<^sup>*\<^sup>* done_ledger (snd (perform (Retire (''u'', ''c'') ''j'' 5) done_ledger))"
    by (rule r_into_rtranclp, rule ledger_step_perform)
  from completed_content_is_final [OF _ _ this, of "(''u'', ''c'')" "''other''" "''fresh''" 7 "''t''" 1]
  show ?thesis by (simp add: ledger_instance_simps)
qed

theorem side_effect_is_charged_once_witness:
  "charged (snd (perform (Charge (''u'', ''c'') ''j'' ''usage'' 60 (Some ''2:b'') (Some 2) 4) bound_ledger))
     (''u'', ''c'') ''usage'' = Some (4, 60) \<and>
   charged (snd (perform (Charge (''u'', ''c'') ''j'' ''usage'' 99 (Some ''2:b'') (Some 2) 5)
      (snd (perform (Charge (''u'', ''c'') ''j'' ''usage'' 60 (Some ''2:b'') (Some 2) 4) bound_ledger))))
     (''u'', ''c'') ''usage'' = Some (4, 60)"
proof -
  let ?l = "snd (perform (Charge (''u'', ''c'') ''j'' ''usage'' 60 (Some ''2:b'') (Some 2) 4) bound_ledger)"
  have one: "charged ?l (''u'', ''c'') ''usage'' = Some (4, 60)"
    by (simp add: ledger_instance_simps ledger_defs ledger_owner_matches_def epoch_matches_def SIDE_EFFECT_TAGS_def
        Let_def)
  have "ledger_step\<^sup>*\<^sup>* ?l (snd (perform (Charge (''u'', ''c'') ''j'' ''usage'' 99 (Some ''2:b'') (Some 2) 5) ?l))"
    by (rule r_into_rtranclp, rule ledger_step_perform)
  then show ?thesis
    using one side_effect_is_charged_once [of "(''u'', ''c'')" "''usage''" "[]" ?l "(4, 60)"] by blast
qed

theorem superseded_run_is_fenced_witness:
  "perform (Complete (''u'', ''c'') ''j'' all_success (Some ''1:a'') (Some 1) 9) bound_ledger = (False, bound_ledger)"
proof (rule superseded_run_is_fenced)
  show "bind_sync_content_run_token (''u'', ''c'') ''j'' ''2:b'' 2 1 claimed_ledger = (Bound, bound_ledger)"
    by (simp add: ledger_instance_simps ledger_defs Let_def)
  show "(tenure_step (''u'', ''c'') ''j'')\<^sup>*\<^sup>* bound_ledger bound_ledger" by simp
  show "(1::int) < 2" by simp
  show "run_op (''u'', ''c'') ''j'' ''1:a'' 1 (Complete (''u'', ''c'') ''j'' all_success (Some ''1:a'') (Some 1) 9)"
    by (simp add: run_op_def)
qed

end
