(* ===== verification/Sync_Admission.thy ===== *)
theory Sync_Admission
  imports Prelude
begin

text \<open>
  Admission of an offline upload: the capture time in a file name
  (\<^verbatim>\<open>parse_sync_filename_timestamp\<close> of \<^verbatim>\<open>backend/utils/request_validation.py\<close>), the choice of
  the lane (\<^verbatim>\<open>backend/utils/sync/lanes.py\<close>), and the in-flight slot and daily speech budget of
  historical recovery (\<^verbatim>\<open>backend/utils/sync/backfill.py\<close>).

  Seconds are rationals: the conversion of a decimal text to a binary float and the rounding of
  a decimal beyond 28 digits are not modelled. A bad number in an environment variable raises
  \<^verbatim>\<open>ValueError\<close>, which is \<open>None\<close>.
\<close>

section \<open>The capture time of a file\<close>

text \<open>\<^verbatim>\<open>Decimal(text)\<close> of a finite number: blanks around it are dropped; a sign, digits with at most one
  point among them, and an exponent. Underscores cannot occur in what the caller passes.\<close>

definition all_digits :: "string \<Rightarrow> bool" where
  "all_digits s \<longleftrightarrow> list_all (\<lambda>c. digit_of c \<noteq> None) s"

definition digits_value :: "string \<Rightarrow> int" where
  "digits_value s = foldl (\<lambda>n c. n * 10 + (case digit_of c of None \<Rightarrow> 0 | Some d \<Rightarrow> int d)) 0 s"

definition split_sign :: "string \<Rightarrow> rat \<times> string" where
  "split_sign s =
     (case s of c # cs \<Rightarrow> if c = CHR ''-'' then (- 1, cs) else if c = CHR ''+'' then (1, cs) else (1, s) | [] \<Rightarrow> (1, s))"

definition cut :: "(char \<Rightarrow> bool) \<Rightarrow> string \<Rightarrow> string \<times> string option" where
  "cut p s = (case dropWhile (\<lambda>c. \<not> p c) s of [] \<Rightarrow> (s, None) | _ # rest \<Rightarrow> (takeWhile (\<lambda>c. \<not> p c) s, Some rest))"

definition ten_to :: "int \<Rightarrow> rat" where
  "ten_to e = (if e \<ge> 0 then 10 ^ nat e else 1 / 10 ^ nat (- e))"

definition decimal_exponent :: "string option \<Rightarrow> int option" where
  "decimal_exponent e =
     (case e of
        None \<Rightarrow> Some 0
      | Some t \<Rightarrow> let (sign, ds) = split_sign t in
          if ds \<noteq> [] \<and> all_digits ds then Some (\<lfloor>sign\<rfloor> * digits_value ds) else None)"

definition py_decimal :: "string \<Rightarrow> rat option" where
  "py_decimal text =
     (let (sign, body) = split_sign (strip text);
          (mantissa, e) = cut (\<lambda>c. c \<in> {CHR ''e'', CHR ''E''}) body;
          (whole, frac) = cut (\<lambda>c. c = CHR ''.'') mantissa;
          fs = (case frac of None \<Rightarrow> [] | Some f \<Rightarrow> f)
      in if whole @ fs = [] \<or> \<not> all_digits (whole @ fs) then None
         else map_option (\<lambda>x. sign * of_int (digits_value (whole @ fs)) * ten_to (x - int (length fs))) (decimal_exponent e))"

text \<open>\<^verbatim>\<open>s.split(c)[-1]\<close>, also \<^verbatim>\<open>s.rsplit(c, 1)[1]\<close> where \<open>c\<close> occurs, and \<^verbatim>\<open>s.rsplit(c, 1)[0]\<close>.\<close>

definition after_last :: "char \<Rightarrow> string \<Rightarrow> string" where
  "after_last c s = rev (takeWhile (\<lambda>x. x \<noteq> c) (rev s))"

definition before_last :: "char \<Rightarrow> string \<Rightarrow> string" where
  "before_last c s = (if c \<in> set s then rev (tl (dropWhile (\<lambda>x. x \<noteq> c) (rev s))) else s)"

text \<open>The instant of 1 January 2024, the earliest one accepted.\<close>

definition EARLIEST_CAPTURE :: rat where
  "EARLIEST_CAPTURE = 1704067200"

definition filename_timestamp :: "string \<Rightarrow> rat option" where
  "filename_timestamp path =
     (case py_decimal (before_last (CHR ''.'') (after_last (CHR ''_'') (after_last (CHR ''/'') path))) of
        None \<Rightarrow> None
      | Some raw \<Rightarrow>
          if raw \<le> 0 then None else Some (if raw > 10000000000 then raw / 1000 else raw))"

definition parse_sync_filename_timestamp :: "string \<Rightarrow> rat \<Rightarrow> rat option" where
  "parse_sync_filename_timestamp path now =
     (case filename_timestamp path of
        None \<Rightarrow> None
      | Some timestamp \<Rightarrow> if timestamp > now \<or> timestamp < EARLIEST_CAPTURE then None else Some timestamp)"

section \<open>The lane\<close>

datatype sync_lane = FRESH | BACKFILL
datatype capture_time_trust = DEVICE_BOUND | LEGACY_TRUST | UNTRUSTED

record lane_decision =
  ld_lane :: sync_lane
  ld_trust :: capture_time_trust
  ld_reason :: string
  ld_oldest :: "rat option"
  ld_newest :: "rat option"
  ld_maximum_age :: "int option"
  ld_automatic_recovery_allowed :: bool

definition env_int_strict :: "environ \<Rightarrow> string \<Rightarrow> int \<Rightarrow> int option" where
  "env_int_strict env name dflt = (case env name of None \<Rightarrow> Some dflt | Some s \<Rightarrow> py_int s)"

definition fresh_cutoff_seconds :: "environ \<Rightarrow> int option" where
  "fresh_cutoff_seconds env = map_option (max 60) (env_int_strict env ''SYNC_FRESH_MAX_AGE_SECONDS'' (6 * 60 * 60))"

definition maximum_backfill_age_seconds :: "environ \<Rightarrow> int option" where
  "maximum_backfill_age_seconds env =
     (case fresh_cutoff_seconds env of
        None \<Rightarrow> None
      | Some cutoff \<Rightarrow>
          map_option (max cutoff) (env_int_strict env ''SYNC_BACKFILL_MAX_AGE_SECONDS'' (30 * 24 * 60 * 60)))"

definition maximum_future_skew_seconds :: "environ \<Rightarrow> int option" where
  "maximum_future_skew_seconds env = map_option (max 0) (env_int_strict env ''SYNC_CAPTURE_MAX_FUTURE_SKEW_SECONDS'' 300)"

text \<open>The capture times of a batch: \<open>None\<close> as soon as one name has none. Each name is parsed with the
  clock of that moment (\<open>clock i\<close> for the \<open>i\<close>-th).\<close>

fun capture_times :: "(nat \<Rightarrow> rat) \<Rightarrow> nat \<Rightarrow> string list \<Rightarrow> rat list option" where
  "capture_times clock i [] = Some []"
| "capture_times clock i (f # fs) =
     (case parse_sync_filename_timestamp f (clock i) of
        None \<Rightarrow> None
      | Some t \<Rightarrow> map_option (\<lambda>ts. t # ts) (capture_times clock (Suc i) fs))"

definition capture_times_within_window :: "(nat \<Rightarrow> rat) \<Rightarrow> string list \<Rightarrow> rat \<Rightarrow> rat \<Rightarrow> bool" where
  "capture_times_within_window clock filenames lower upper =
     (case capture_times clock 0 filenames of
        None \<Rightarrow> False
      | Some ts \<Rightarrow> ts \<noteq> [] \<and> list_all (\<lambda>t. lower \<le> t \<and> t \<le> upper) ts)"

definition untimed_decision :: "string \<Rightarrow> lane_decision" where
  "untimed_decision reason =
     \<lparr>ld_lane = BACKFILL, ld_trust = UNTRUSTED, ld_reason = reason, ld_oldest = None, ld_newest = None,
      ld_maximum_age = None, ld_automatic_recovery_allowed = True\<rparr>"

definition classify_sync_lane ::
    "environ \<Rightarrow> (nat \<Rightarrow> rat) \<Rightarrow> rat \<Rightarrow> string list \<Rightarrow> string option \<Rightarrow> lane_decision option" where
  "classify_sync_lane env clock now filenames client_device_id =
     (case capture_times clock 0 filenames of
        None \<Rightarrow> Some (untimed_decision ''invalid_capture_time'')
      | Some [] \<Rightarrow> Some (untimed_decision ''missing_capture_time'')
      | Some (t # ts) \<Rightarrow>
          let oldest = fold min ts t;
              newest = fold max ts t;
              maximum_age = max 0 \<lfloor>now - oldest\<rfloor>;
              trust = (if nonempty_str client_device_id = None then LEGACY_TRUST else DEVICE_BOUND);
              decide = (\<lambda>lane trust reason allowed. Some
                \<lparr>ld_lane = lane, ld_trust = trust, ld_reason = reason, ld_oldest = Some oldest, ld_newest = Some newest,
                 ld_maximum_age = Some maximum_age, ld_automatic_recovery_allowed = allowed\<rparr>)
          in case maximum_future_skew_seconds env of
               None \<Rightarrow> None
             | Some skew \<Rightarrow>
                 if newest > now + of_int skew then decide BACKFILL UNTRUSTED ''future_capture_time'' True
                 else (case maximum_backfill_age_seconds env of
                         None \<Rightarrow> None
                       | Some lookback \<Rightarrow>
                           if maximum_age > lookback then decide BACKFILL trust ''lookback_exceeded'' False
                           else if nonempty_str client_device_id = None then
                             decide BACKFILL LEGACY_TRUST ''unbound_capture_time'' True
                           else (case fresh_cutoff_seconds env of
                                   None \<Rightarrow> None
                                 | Some cutoff \<Rightarrow>
                                     if maximum_age > cutoff then decide BACKFILL trust ''historical_capture'' True
                                     else decide FRESH trust ''recent_capture'' True)))"

section \<open>What is fresh\<close>

lemma capture_times_bounds:
  "capture_times clock i fs = Some ts \<Longrightarrow> t \<in> set ts \<Longrightarrow> \<exists>j. EARLIEST_CAPTURE \<le> t \<and> t \<le> clock j"
  by (induction clock i fs arbitrary: ts rule: capture_times.induct)
    (auto simp: parse_sync_filename_timestamp_def Let_def not_less split: option.splits if_splits)

lemma capture_times_length: "capture_times clock i fs = Some ts \<Longrightarrow> length ts = length fs"
  by (induction clock i fs arbitrary: ts rule: capture_times.induct) (auto split: option.splits)

lemma fold_min_ge: "k < fold min ts (t :: rat) \<longleftrightarrow> (\<forall>x \<in> set (t # ts). k < x)"
  using Min_gr_iff [of "set (t # ts)" k] by (simp add: Min.set_eq_fold flip: list.set(2))

lemma fold_max_le: "fold max ts (t :: rat) \<le> k \<longleftrightarrow> (\<forall>x \<in> set (t # ts). x \<le> k)"
  using Max_le_iff [of "set (t # ts)" k] by (simp add: Max.set_eq_fold flip: list.set(2))

lemma age_within: "max 0 \<lfloor>now - oldest\<rfloor> \<le> c \<longleftrightarrow> now - of_int c - 1 < oldest" if "0 \<le> c" for now oldest :: rat
  using that by (auto simp: floor_le_iff)

lemma env_bounds:
  "fresh_cutoff_seconds env = Some c \<Longrightarrow> 60 \<le> c"
  "maximum_future_skew_seconds env = Some s \<Longrightarrow> 0 \<le> s"
  "maximum_backfill_age_seconds env = Some b \<Longrightarrow> \<exists>c. fresh_cutoff_seconds env = Some c \<and> c \<le> b"
  by (auto simp: fresh_cutoff_seconds_def maximum_future_skew_seconds_def maximum_backfill_age_seconds_def
      split: option.splits)

text \<open>An upload is fresh exactly when it comes from a known device and every one of its files carries
  a capture time that is younger than the cutoff (in whole seconds) and not in the future beyond
  the tolerance; one old or unreadable file makes the whole batch historical. Automatic recovery
  is denied exactly to a readable batch with a file older than the look-back.\<close>

theorem fresh_lane_iff:
  assumes "classify_sync_lane env clock now filenames device = Some d"
    and "maximum_future_skew_seconds env = Some skew" "fresh_cutoff_seconds env = Some cutoff"
    and "maximum_backfill_age_seconds env = Some lookback"
  shows "(ld_lane d = FRESH \<longleftrightarrow>
      nonempty_str device \<noteq> None \<and> filenames \<noteq> [] \<and>
      (case capture_times clock 0 filenames of
         None \<Rightarrow> False
       | Some ts \<Rightarrow> \<forall>t \<in> set ts. now - of_int cutoff - 1 < t \<and> t \<le> now + of_int skew)) \<and>
    (\<not> ld_automatic_recovery_allowed d \<longleftrightarrow>
      (case capture_times clock 0 filenames of
         None \<Rightarrow> False
       | Some ts \<Rightarrow> (\<forall>t \<in> set ts. t \<le> now + of_int skew) \<and> (\<exists>t \<in> set ts. t \<le> now - of_int lookback - 1)))"
proof (cases "capture_times clock 0 filenames")
  case None
  then show ?thesis using assms(1) by (auto simp: classify_sync_lane_def untimed_decision_def)
next
  case (Some ts)
  show ?thesis
  proof (cases ts)
    case Nil
    then show ?thesis using assms(1) Some capture_times_length [OF Some]
      by (auto simp: classify_sync_lane_def untimed_decision_def)
  next
    case (Cons t ts')
    have cutoff: "0 \<le> cutoff" "cutoff \<le> lookback" using env_bounds(1,3) assms(3,4) by fastforce+
    define late where "late \<longleftrightarrow> \<not> (\<forall>x \<in> set ts. x \<le> now + of_int skew)"
    define older where "older c \<longleftrightarrow> \<not> (\<forall>x \<in> set ts. now - of_int c - 1 < x)" for c
    have late: "now + of_int skew < fold max ts' t \<longleftrightarrow> late"
      using fold_max_le [of ts' t "now + of_int skew"] unfolding late_def Cons by (metis linorder_not_less)
    have older: "c < max 0 \<lfloor>now - fold min ts' t\<rfloor> \<longleftrightarrow> older c" if "0 \<le> c" for c
      using age_within [OF that, of now "fold min ts' t"] fold_min_ge [of "now - of_int c - 1" ts' t]
      unfolding older_def Cons by (metis linorder_not_less)
    have "now - of_int lookback \<le> now - rat_of_int cutoff" using cutoff(2) by simp
    then have older_mono: "older lookback \<longrightarrow> older cutoff"
      unfolding older_def by fastforce
    have "ld_lane d = FRESH \<longleftrightarrow> nonempty_str device \<noteq> None \<and> \<not> late \<and> \<not> older lookback \<and> \<not> older cutoff"
      "\<not> ld_automatic_recovery_allowed d \<longleftrightarrow> \<not> late \<and> older lookback"
      using assms Some cutoff by (auto simp: classify_sync_lane_def Let_def Cons late older split: if_splits)
    moreover have "filenames \<noteq> []" using capture_times_length [OF Some] Cons by auto
    ultimately show ?thesis
      using Some older_mono by (auto simp: late_def older_def not_less)
  qed
qed

lemma capture_times_invalid:
  "f \<in> set fs \<Longrightarrow> \<forall>i. parse_sync_filename_timestamp f (clock i) = None \<Longrightarrow> capture_times clock i fs = None"
  by (induction clock i fs rule: capture_times.induct) (auto split: option.splits)

text \<open>The tolerance for a device clock that runs ahead has no effect. The file-name parser already refuses
  every capture time later than the server's clock, so a batch with a file stamped even slightly
  ahead is untrusted as unreadable whatever tolerance is configured, and the reason for a capture
  too far in the future is never given.\<close>

theorem future_tolerance_has_no_effect:
  assumes "\<forall>i. clock i \<le> now" "classify_sync_lane env clock now filenames device = Some d"
  shows "ld_reason d \<noteq> ''future_capture_time'' \<and>
    ((\<exists>f \<in> set filenames. \<exists>t. filename_timestamp f = Some t \<and> now < t) \<longrightarrow>
       d = untimed_decision ''invalid_capture_time'')"
proof
  show "ld_reason d \<noteq> ''future_capture_time''"
  proof (cases "capture_times clock 0 filenames")
    case (Some ts)
    show ?thesis
    proof (cases ts)
      case (Cons t ts')
      have "\<forall>x \<in> set (t # ts'). x \<le> now"
        using capture_times_bounds [OF Some] assms(1) Cons by (metis order_trans)
      then have "fold max ts' t \<le> now + of_int skew" if "0 \<le> skew" for skew
        using that unfolding fold_max_le by (smt (verit) add_increasing2 of_int_0_le_iff)
      then show ?thesis
        using assms(2) Some Cons env_bounds(2)
        by (fastforce simp: classify_sync_lane_def Let_def split: option.splits if_splits)
    qed (use assms(2) Some in \<open>auto simp: classify_sync_lane_def untimed_decision_def\<close>)
  qed (use assms(2) in \<open>auto simp: classify_sync_lane_def untimed_decision_def\<close>)
  show "(\<exists>f \<in> set filenames. \<exists>t. filename_timestamp f = Some t \<and> now < t) \<longrightarrow>
      d = untimed_decision ''invalid_capture_time''"
  proof
    assume "\<exists>f \<in> set filenames. \<exists>t. filename_timestamp f = Some t \<and> now < t"
    then obtain f t where f: "f \<in> set filenames" "filename_timestamp f = Some t" "now < t" by blast
    then have "\<forall>i. parse_sync_filename_timestamp f (clock i) = None"
      using assms(1) by (auto simp: parse_sync_filename_timestamp_def intro: order.strict_trans1)
    then show "d = untimed_decision ''invalid_capture_time''"
      using capture_times_invalid [OF f(1)] assms(2) by (simp add: classify_sync_lane_def)
  qed
qed

section \<open>Slot and daily budget of historical recovery\<close>

text \<open>Each Redis value carries the instant it expires; a value is read only before that. Instants are
  microseconds, a day is numbered from the epoch. The daily counters of the users, the daily
  counter of all users, the reservations of the jobs and the alerts already given are kept by
  \<open>(uid, day)\<close>, \<open>day\<close>, job id and \<open>(day, threshold)\<close>.\<close>

record backfill =
  bf_slot :: "string \<Rightarrow> (string \<times> timestamp) option"
  bf_user :: "string \<times> int \<Rightarrow> (int \<times> timestamp) option"
  bf_global :: "int \<Rightarrow> (int \<times> timestamp) option"
  bf_reserved :: "string \<Rightarrow> (int \<times> timestamp) option"
  bf_alerts :: "int \<times> int \<Rightarrow> (string \<times> timestamp) option"

definition empty_backfill :: backfill where
  "empty_backfill = \<lparr>bf_slot = Map.empty, bf_user = Map.empty, bf_global = Map.empty, bf_reserved = Map.empty,
     bf_alerts = Map.empty\<rparr>"

definition live :: "timestamp \<Rightarrow> ('v \<times> timestamp) option \<Rightarrow> 'v option" where
  "live now x = (case x of None \<Rightarrow> None | Some (v, expiry) \<Rightarrow> if now < expiry then Some v else None)"

definition BACKFILL_SLOT_TTL_SECONDS :: int where
  "BACKFILL_SLOT_TTL_SECONDS = 2 * 24 * 60 * 60"

definition admission_limits_enabled :: "environ \<Rightarrow> bool" where
  "admission_limits_enabled env \<longleftrightarrow>
     map lower_char (case env ''SYNC_BACKFILL_ADMISSION_LIMITS'' of None \<Rightarrow> ''false'' | Some s \<Rightarrow> s) = ''true''"

definition hours_ms :: "environ \<Rightarrow> string \<Rightarrow> string \<Rightarrow> int option" where
  "hours_ms env name dflt =
     map_option (\<lambda>h. max 0 \<lfloor>h * 60 * 60 * 1000\<rfloor>) (py_decimal (case env name of None \<Rightarrow> dflt | Some s \<Rightarrow> s))"

definition per_user_daily_limit_ms :: "environ \<Rightarrow> int option" where
  "per_user_daily_limit_ms env = hours_ms env ''SYNC_BACKFILL_USER_DAILY_HOURS'' ''4''"

definition global_daily_limit_ms :: "environ \<Rightarrow> int option" where
  "global_daily_limit_ms env = hours_ms env ''SYNC_BACKFILL_GLOBAL_DAILY_HOURS'' ''555''"

definition DAY :: duration where
  "DAY = 86400000000"

definition day_suffix :: "timestamp \<Rightarrow> int" where
  "day_suffix now = now div DAY"

definition retry_after_next_utc_day :: "timestamp \<Rightarrow> int" where
  "retry_after_next_utc_day now = max 1 ((DAY - now mod DAY) div 1000000)"

definition try_acquire_backfill_slot :: "environ \<Rightarrow> timestamp \<Rightarrow> string \<Rightarrow> string \<Rightarrow> backfill \<Rightarrow> bool \<times> backfill" where
  "try_acquire_backfill_slot env now uid jid st =
     (if \<not> admission_limits_enabled env then (True, st)
      else (case live now (bf_slot st uid) of
              None \<Rightarrow> (True, st\<lparr>bf_slot := (bf_slot st)(uid \<mapsto> (jid, now + seconds BACKFILL_SLOT_TTL_SECONDS))\<rparr>)
            | Some existing \<Rightarrow> (existing = jid, st)))"

definition release_backfill_slot :: "timestamp \<Rightarrow> string \<Rightarrow> string \<Rightarrow> backfill \<Rightarrow> backfill" where
  "release_backfill_slot now uid jid st =
     (if live now (bf_slot st uid) = Some jid then st\<lparr>bf_slot := (bf_slot st)(uid := None)\<rparr> else st)"

definition tonumber :: "int option \<Rightarrow> int" where
  "tonumber x = (case x of None \<Rightarrow> 0 | Some n \<Rightarrow> n)"

text \<open>The script that reserves: its code is 1 for a reservation old or new, -1 and -2 for the two
  limits; with it comes the use of all users that day.\<close>

definition reserve_script ::
    "string \<Rightarrow> int \<Rightarrow> string \<Rightarrow> int \<Rightarrow> int \<Rightarrow> int \<Rightarrow> int \<Rightarrow> timestamp \<Rightarrow> backfill \<Rightarrow> (int \<times> int) \<times> backfill" where
  "reserve_script uid day jid amount user_limit global_limit ttl now st =
     (let user_used = tonumber (live now (bf_user st (uid, day)));
          global_used = tonumber (live now (bf_global st day));
          expiry = now + seconds ttl
      in if live now (bf_reserved st jid) \<noteq> None then ((1, global_used), st)
         else if user_limit > 0 \<and> user_used + amount > user_limit then ((- 1, global_used), st)
         else if global_limit > 0 \<and> global_used + amount > global_limit then ((- 2, global_used), st)
         else ((1, global_used + amount),
               st\<lparr>bf_user := (bf_user st)((uid, day) \<mapsto> (user_used + amount, expiry)),
                  bf_global := (bf_global st)(day \<mapsto> (global_used + amount, expiry)),
                  bf_reserved := (bf_reserved st)(jid \<mapsto> (amount, expiry))\<rparr>))"

record backfill_reservation =
  br_allowed :: bool
  br_reason :: "string option"
  br_retry_after :: "int option"
  br_global_used_ms :: int

definition record_alert :: "int \<Rightarrow> int \<Rightarrow> int \<Rightarrow> timestamp \<Rightarrow> int \<Rightarrow> int \<Rightarrow> backfill \<Rightarrow> backfill" where
  "record_alert global_used global_limit day now ttl threshold st =
     (if global_used * 100 < global_limit * threshold then st
      else if live now (bf_alerts st (day, threshold)) \<noteq> None then st
      else st\<lparr>bf_alerts := (bf_alerts st)((day, threshold) \<mapsto> (''1'', now + seconds ttl))\<rparr>)"

text \<open>One call: the user, the job, the speech, and the instants at which it computes the delay, reads
  the date and reaches Redis. \<open>None\<close> is the \<^verbatim>\<open>ValueError\<close> of a bad limit.\<close>

record reserve_call =
  rc_uid :: string
  rc_job :: string
  rc_speech_ms :: int
  rc_delay_at :: timestamp
  rc_date_at :: timestamp
  rc_redis_at :: timestamp

definition reserve_backfill_speech :: "environ \<Rightarrow> reserve_call \<Rightarrow> backfill \<Rightarrow> backfill_reservation option \<times> backfill" where
  "reserve_backfill_speech env c st =
     (let allow = (\<lambda>used. \<lparr>br_allowed = True, br_reason = None, br_retry_after = None, br_global_used_ms = used\<rparr>) in
      if \<not> admission_limits_enabled env \<or> rc_speech_ms c \<le> 0 then (Some (allow 0), st)
      else
        let retry_after = retry_after_next_utc_day (rc_delay_at c);
            day = day_suffix (rc_date_at c);
            refuse = (\<lambda>reason used. \<lparr>br_allowed = False, br_reason = Some reason, br_retry_after = Some retry_after,
                                      br_global_used_ms = used\<rparr>)
        in case (per_user_daily_limit_ms env, global_daily_limit_ms env) of
             (Some user_limit, Some global_limit) \<Rightarrow>
               let ((code, used), st1) = reserve_script (rc_uid c) day (rc_job c) (rc_speech_ms c) user_limit global_limit
                                           (retry_after + 3600) (rc_redis_at c) st
               in if code = - 1 then (Some (refuse ''backfill_paced'' used), st1)
                  else if code = - 2 then (Some (refuse ''backfill_capacity'' used), st1)
                  else (Some (allow used),
                        if global_limit > 0 then
                          fold (record_alert used global_limit day (rc_redis_at c) (retry_after + 3600)) [70, 90] st1
                        else st1)
           | _ \<Rightarrow> (None, st))"

section \<open>The budget is kept\<close>

text \<open>An account that is charged by calls and never beyond its limit.\<close>

primrec charged_sum :: "('c \<Rightarrow> 's \<Rightarrow> 's) \<Rightarrow> ('c \<Rightarrow> 's \<Rightarrow> int) \<Rightarrow> 'c list \<Rightarrow> 's \<Rightarrow> int" where
  "charged_sum run amount [] s = 0"
| "charged_sum run amount (c # cs) s = amount c s + charged_sum run amount cs (run c s)"

locale metered_budget =
  fixes run :: "'c \<Rightarrow> 's \<Rightarrow> 's" and amount :: "'c \<Rightarrow> 's \<Rightarrow> int" and used :: "'s \<Rightarrow> int"
    and ok :: "'c \<Rightarrow> bool" and inv :: "'s \<Rightarrow> bool" and limit :: int
  assumes run_inv: "ok c \<Longrightarrow> inv s \<Longrightarrow> inv (run c s)"
    and run_used: "ok c \<Longrightarrow> inv s \<Longrightarrow> used (run c s) = used s + amount c s"
    and amount_within: "ok c \<Longrightarrow> inv s \<Longrightarrow> amount c s = 0 \<or> used s + amount c s \<le> limit"
begin

lemma budget_kept: "inv s \<Longrightarrow> used s \<le> limit \<Longrightarrow> list_all ok cs \<Longrightarrow> used s + charged_sum run amount cs s \<le> limit"
proof (induction cs arbitrary: s)
  case (Cons c cs)
  then have run: "inv (run c s)" "used (run c s) = used s + amount c s" "used (run c s) \<le> limit"
    using amount_within [of c s] run_used [of c s] run_inv [of c s] by auto
  then show ?case using Cons.IH [of "run c s"] Cons.prems(3) by simp
qed simp

end

text \<open>What a call newly charges: the speech of a job that is allowed and held no reservation yet.\<close>

definition new_charge :: "environ \<Rightarrow> reserve_call \<Rightarrow> backfill \<Rightarrow> int" where
  "new_charge env c st =
     (if admission_limits_enabled env \<and> 0 < rc_speech_ms c \<and> live (rc_redis_at c) (bf_reserved st (rc_job c)) = None
       \<and> (case fst (reserve_backfill_speech env c st) of None \<Rightarrow> False | Some r \<Rightarrow> br_allowed r)
      then rc_speech_ms c else 0)"

text \<open>The call does not straddle midnight.\<close>

definition orderly :: "reserve_call \<Rightarrow> bool" where
  "orderly c \<longleftrightarrow> rc_delay_at c \<le> rc_redis_at c \<and> day_suffix (rc_delay_at c) = day_suffix (rc_date_at c) \<and>
     day_suffix (rc_redis_at c) = day_suffix (rc_date_at c)"

definition lasting :: "backfill \<Rightarrow> bool" where
  "lasting st \<longleftrightarrow>
     (\<forall>uid day n e. bf_user st (uid, day) = Some (n, e) \<longrightarrow> (day + 1) * DAY \<le> e) \<and>
     (\<forall>day n e. bf_global st day = Some (n, e) \<longrightarrow> (day + 1) * DAY \<le> e)"

lemma record_alert_keeps [simp]:
  "bf_user (record_alert used limit day now ttl x st) = bf_user st"
  "bf_global (record_alert used limit day now ttl x st) = bf_global st"
  by (simp_all add: record_alert_def)

lemma before_day_end: "now < (day_suffix now + 1) * DAY"
  using mod_less_divisor [of 1 1] pos_mod_bound [of DAY now] div_mult_mod_eq [of now DAY]
  unfolding day_suffix_def DAY_def by (simp add: algebra_simps)

lemma expiry_after_day_end:
  assumes "orderly c"
  shows "(day_suffix (rc_date_at c) + 1) * DAY \<le> rc_redis_at c + seconds (retry_after_next_utc_day (rc_delay_at c) + 3600)"
proof -
  let ?t = "rc_delay_at c"
  have "(day_suffix ?t + 1) * DAY = ?t + (DAY - ?t mod DAY)"
    using div_mult_mod_eq [of ?t DAY] by (simp add: day_suffix_def algebra_simps)
  moreover have "DAY - ?t mod DAY \<le> seconds (retry_after_next_utc_day ?t + 3600)"
    by (simp add: retry_after_next_utc_day_def seconds_def max_def) (use div_mult_mod_eq [of "DAY - ?t mod DAY" 1000000] pos_mod_bound [of 1000000 "DAY - ?t mod DAY"] in linarith)
  ultimately show ?thesis using assms by (simp add: orderly_def)
qed

lemma live_in_day:
  assumes "orderly c" "lasting st"
  shows "live (rc_redis_at c) (bf_user st (uid, day_suffix (rc_date_at c))) = map_option fst (bf_user st (uid, day_suffix (rc_date_at c)))"
    and "live (rc_redis_at c) (bf_global st (day_suffix (rc_date_at c))) = map_option fst (bf_global st (day_suffix (rc_date_at c)))"
  using assms before_day_end [of "rc_redis_at c"]
  by (fastforce simp: live_def orderly_def lasting_def split: option.split)+

lemma new_charge_effect:
  fixes env :: environ
  assumes "orderly c" "lasting st"
  defines "day \<equiv> day_suffix (rc_date_at c)"
    and "expiry \<equiv> rc_redis_at c + seconds (retry_after_next_utc_day (rc_delay_at c) + 3600)"
    and "user \<equiv> tonumber (map_option fst (bf_user st (rc_uid c, day_suffix (rc_date_at c))))"
    and "everyone \<equiv> tonumber (map_option fst (bf_global st (day_suffix (rc_date_at c))))"
    and "st' \<equiv> snd (reserve_backfill_speech env c st)"
  shows "new_charge env c st = 0 \<and> bf_user st' = bf_user st \<and> bf_global st' = bf_global st \<or>
    new_charge env c st = rc_speech_ms c \<and> 0 < rc_speech_ms c \<and>
    bf_user st' = (bf_user st)((rc_uid c, day) \<mapsto> (user + rc_speech_ms c, expiry)) \<and>
    bf_global st' = (bf_global st)(day \<mapsto> (everyone + rc_speech_ms c, expiry)) \<and>
    (\<forall>l. per_user_daily_limit_ms env = Some l \<longrightarrow> 0 < l \<longrightarrow> user + rc_speech_ms c \<le> l) \<and>
    (\<forall>l. global_daily_limit_ms env = Some l \<longrightarrow> 0 < l \<longrightarrow> everyone + rc_speech_ms c \<le> l)"
  unfolding assms(3-7) new_charge_def reserve_backfill_speech_def reserve_script_def Let_def live_in_day [OF assms(1,2)]
  by (auto split: option.splits)

text \<open>A call meets a limit that is set.\<close>

definition metered :: "environ \<Rightarrow> (environ \<Rightarrow> int option) \<Rightarrow> int \<Rightarrow> reserve_call \<Rightarrow> bool" where
  "metered env limit_of limit c \<longleftrightarrow> orderly c \<and> limit_of env = Some limit \<and> 0 < limit"

definition user_charge :: "environ \<Rightarrow> string \<Rightarrow> int \<Rightarrow> reserve_call \<Rightarrow> backfill \<Rightarrow> int" where
  "user_charge env uid day c st =
     (if rc_uid c = uid \<and> day_suffix (rc_date_at c) = day then new_charge env c st else 0)"

definition day_charge :: "environ \<Rightarrow> int \<Rightarrow> reserve_call \<Rightarrow> backfill \<Rightarrow> int" where
  "day_charge env day c st = (if day_suffix (rc_date_at c) = day then new_charge env c st else 0)"

abbreviation after_reserve :: "environ \<Rightarrow> reserve_call \<Rightarrow> backfill \<Rightarrow> backfill" where
  "after_reserve env c st \<equiv> snd (reserve_backfill_speech env c st)"

lemma lasting_after_reserve: "orderly c \<Longrightarrow> lasting st \<Longrightarrow> lasting (after_reserve env c st)"
  using new_charge_effect [of c st env] expiry_after_day_end [of c] by (auto simp: lasting_def split: if_splits)

interpretation user_budget: metered_budget "after_reserve env" "user_charge env uid day"
  "\<lambda>st. tonumber (map_option fst (bf_user st (uid, day)))" "metered env per_user_daily_limit_ms limit" lasting limit
  for env uid day limit
proof
  fix c st
  assume ok: "metered env per_user_daily_limit_ms limit c" and inv: "lasting st"
  show "lasting (after_reserve env c st)" using ok inv lasting_after_reserve by (simp add: metered_def)
  have eff: "orderly c" "per_user_daily_limit_ms env = Some limit" "0 < limit" using ok by (simp_all add: metered_def)
  show "tonumber (map_option fst (bf_user (after_reserve env c st) (uid, day))) =
      tonumber (map_option fst (bf_user st (uid, day))) + user_charge env uid day c st"
    using new_charge_effect [OF eff(1) inv, of env] by (auto simp: user_charge_def tonumber_def)
  show "user_charge env uid day c st = 0 \<or>
      tonumber (map_option fst (bf_user st (uid, day))) + user_charge env uid day c st \<le> limit"
    using new_charge_effect [OF eff(1) inv, of env] eff by (auto simp: user_charge_def)
qed

interpretation day_budget: metered_budget "after_reserve env" "day_charge env day"
  "\<lambda>st. tonumber (map_option fst (bf_global st day))" "metered env global_daily_limit_ms limit" lasting limit
  for env day limit
proof
  fix c st
  assume ok: "metered env global_daily_limit_ms limit c" and inv: "lasting st"
  show "lasting (after_reserve env c st)" using ok inv lasting_after_reserve by (simp add: metered_def)
  have eff: "orderly c" "global_daily_limit_ms env = Some limit" "0 < limit" using ok by (simp_all add: metered_def)
  show "tonumber (map_option fst (bf_global (after_reserve env c st) day)) =
      tonumber (map_option fst (bf_global st day)) + day_charge env day c st"
    using new_charge_effect [OF eff(1) inv, of env] by (auto simp: day_charge_def tonumber_def)
  show "day_charge env day c st = 0 \<or>
      tonumber (map_option fst (bf_global st day)) + day_charge env day c st \<le> limit"
    using new_charge_effect [OF eff(1) inv, of env] eff by (auto simp: day_charge_def)
qed

text \<open>C21: The daily budgets hold. Over any sequence of calls, none of which straddles midnight, the speech
  newly granted to a user on a day stays within the user's limit, and what is granted to all
  users on a day within the limit for all, whatever expires in between; a limit of zero means
  none.\<close>

theorem daily_budgets_hold:
  assumes "list_all orderly calls"
    and "per_user_daily_limit_ms env = Some user_limit" "0 < user_limit"
    and "global_daily_limit_ms env = Some global_limit" "0 < global_limit"
  shows "charged_sum (after_reserve env) (user_charge env uid day) calls empty_backfill \<le> user_limit \<and>
    charged_sum (after_reserve env) (day_charge env day) calls empty_backfill \<le> global_limit"
proof -
  have start: "lasting empty_backfill" "bf_user empty_backfill = Map.empty" "bf_global empty_backfill = Map.empty"
    by (simp_all add: lasting_def empty_backfill_def)
  have "list_all (metered env per_user_daily_limit_ms user_limit) calls"
    "list_all (metered env global_daily_limit_ms global_limit) calls"
    using assms by (simp_all add: metered_def list_all_iff)
  then show ?thesis
    using user_budget.budget_kept [of empty_backfill uid day user_limit env calls]
      day_budget.budget_kept [of empty_backfill day global_limit env calls] start assms(3,5)
    by (simp add: tonumber_def)
qed

section \<open>Instances\<close>

lemma sample_upload: "filename_timestamp ''rec_opus_1710000000.bin'' = Some 1710000000"
  by code_simp

lemma default_lane_limits:
  "maximum_future_skew_seconds Map.empty = Some 300" "fresh_cutoff_seconds Map.empty = Some 21600"
  "maximum_backfill_age_seconds Map.empty = Some 2592000"
  by (simp_all add: maximum_future_skew_seconds_def fresh_cutoff_seconds_def maximum_backfill_age_seconds_def
      env_int_strict_def)

theorem fresh_lane_iff_witness:
  "\<exists>d. classify_sync_lane Map.empty (\<lambda>_. 1710000060) 1710000060 [''rec_opus_1710000000.bin''] (Some ''dev'') = Some d \<and>
     ld_lane d = FRESH \<and> ld_automatic_recovery_allowed d"
proof -
  let ?call = "classify_sync_lane Map.empty (\<lambda>_. 1710000060) 1710000060 [''rec_opus_1710000000.bin''] (Some ''dev'')"
  have times: "capture_times (\<lambda>_. 1710000060) 0 [''rec_opus_1710000000.bin''] = Some [1710000000]"
    by (simp add: parse_sync_filename_timestamp_def sample_upload EARLIEST_CAPTURE_def)
  obtain d where d: "?call = Some d"
    using times by (auto simp: classify_sync_lane_def default_lane_limits Let_def)
  then show ?thesis
    using fresh_lane_iff [OF d default_lane_limits] times by simp
qed

theorem future_tolerance_has_no_effect_witness:
  "classify_sync_lane Map.empty (\<lambda>_. 1709999999) 1709999999 [''rec_opus_1710000000.bin''] (Some ''dev'') =
     Some (untimed_decision ''invalid_capture_time'')"
proof -
  let ?call = "classify_sync_lane Map.empty (\<lambda>_. 1709999999) 1709999999 [''rec_opus_1710000000.bin''] (Some ''dev'')"
  obtain d where d: "?call = Some d"
    by (auto simp: classify_sync_lane_def parse_sync_filename_timestamp_def sample_upload)
  then show ?thesis
    using future_tolerance_has_no_effect [OF _ d] sample_upload by simp
qed

definition limits_on :: environ where
  "limits_on = [''SYNC_BACKFILL_ADMISSION_LIMITS'' \<mapsto> ''true'']"

lemma limits_on_values:
  "per_user_daily_limit_ms limits_on = Some 14400000" "global_daily_limit_ms limits_on = Some 1998000000"
  by code_simp+

definition sample_call :: "string \<Rightarrow> int \<Rightarrow> reserve_call" where
  "sample_call jid ms = \<lparr>rc_uid = ''u'', rc_job = jid, rc_speech_ms = ms, rc_delay_at = 5, rc_date_at = 6, rc_redis_at = 7\<rparr>"

theorem daily_budgets_hold_witness:
  "let calls = [sample_call ''a'' 9000000, sample_call ''b'' 9000000, sample_call ''a'' 9000000] in
   map (\<lambda>cs. charged_sum (after_reserve limits_on) (user_charge limits_on ''u'' 0) cs empty_backfill)
     [take 1 calls, calls] = [9000000, 9000000] \<and>
   charged_sum (after_reserve limits_on) (user_charge limits_on ''u'' 0) calls empty_backfill \<le> 14400000"
proof -
  define calls where "calls = [sample_call ''a'' 9000000, sample_call ''b'' 9000000, sample_call ''a'' 9000000]"
  have "list_all orderly calls"
    by (simp add: orderly_def sample_call_def day_suffix_def DAY_def calls_def)
  then have "charged_sum (after_reserve limits_on) (user_charge limits_on ''u'' 0) calls empty_backfill \<le> 14400000"
    using daily_budgets_hold [OF _ limits_on_values(1) _ limits_on_values(2), of calls "''u''" 0] by simp
  moreover have "map (\<lambda>cs. charged_sum (after_reserve limits_on) (user_charge limits_on ''u'' 0) cs empty_backfill)
     [take 1 calls, calls] = [9000000, 9000000]"
    unfolding calls_def by code_simp
  ultimately show ?thesis by (simp only: Let_def calls_def)
qed

end
