(* ===== verification/Sync_Worker.thy ===== *)
theory Sync_Worker
  imports Sync_Jobs Sync_Ledger Sync_Admission
begin

text \<open>
  The worker boundary of \<^verbatim>\<open>backend/utils/sync/pipeline.py\<close>, where a run of a sync job meets both
  stores: the wrappers that turn a refused Redis write into the worker's stop signal, binding a
  run to the durable ledger or converging a completion it finds there, publishing a failure and
  releasing its claim, and the status poll of \<^verbatim>\<open>backend/routers/sync.py\<close>. The state is the
  job store, the ledger and the backfill slots; what other clients do between two calls is an argument. Telemetry is left out.
\<close>

section \<open>State and errors\<close>

record sync_world =
  sw_redis :: redis
  sw_ledger :: ledger
  sw_backfill :: backfill

text \<open>\<open>Lease_Lost\<close> is the exception \<^verbatim>\<open>SyncJobRunLeaseLost\<close>.\<close>

datatype run_error = Lease_Lost | Bad_Result

text \<open>The surroundings of one call: the two clocks, the interference inside a Redis update and
  between the calls to the two stores, and whether dropping the epoch counter raises.\<close>

record run_io =
  io_now :: rat
  io_ts :: timestamp
  io_between :: interference
  io_pause :: "sync_world \<Rightarrow> sync_world"
  io_delete_raises :: bool

definition on_redis :: "(redis \<Rightarrow> 'a \<times> redis) \<Rightarrow> sync_world \<Rightarrow> 'a \<times> sync_world" where
  "on_redis f w = (let (x, r) = f (sw_redis w) in (x, w\<lparr>sw_redis := r\<rparr>))"

definition on_ledger :: "(ledger \<Rightarrow> 'a \<times> ledger) \<Rightarrow> sync_world \<Rightarrow> 'a \<times> sync_world" where
  "on_ledger f w = (let (x, l) = f (sw_ledger w) in (x, w\<lparr>sw_ledger := l\<rparr>))"

section \<open>Writes of a run\<close>

definition require_run_owner :: "fenced_mutation \<Rightarrow> run_error + jdict option" where
  "require_run_owner m = (if fm_outcome m = APPLIED then Inr (fm_job m) else Inl Lease_Lost)"

definition require_updated :: "jdict option \<Rightarrow> run_error + jdict option" where
  "require_updated updated = (case updated of None \<Rightarrow> Inl Lease_Lost | Some job \<Rightarrow> Inr (Some job))"

fun require_result :: "('a \<Rightarrow> run_error + jdict option) \<Rightarrow> result_error + 'a \<Rightarrow> run_error + jdict option" where
  "require_result f (Inl Unsupported_Result) = Inl Bad_Result"
| "require_result f (Inr x) = f x"

definition update_sync_job_for_run ::
    "run_io \<Rightarrow> string \<Rightarrow> string option \<Rightarrow> jdict \<Rightarrow> redis \<Rightarrow> (run_error + jdict option) \<times> redis" where
  "update_sync_job_for_run io jid token updates st =
     (case token of
        None \<Rightarrow> apfst require_updated (update_sync_job (io_between io) jid updates (io_now io) st)
      | Some t \<Rightarrow> apfst require_run_owner
          (fenced_update_sync_job (io_between io) jid t updates (Some {''processing''}) (io_now io) st))"

definition mark_job_processing_for_run ::
    "run_io \<Rightarrow> string \<Rightarrow> string option \<Rightarrow> redis \<Rightarrow> (run_error + jdict option) \<times> redis" where
  "mark_job_processing_for_run io jid token st =
     (case token of
        None \<Rightarrow> apfst require_updated (mark_job_processing (io_between io) jid (io_now io) st)
      | Some t \<Rightarrow> apfst require_run_owner (fenced_mark_job_processing (io_between io) jid t (io_now io) st))"

definition finalize_sync_job_for_run ::
    "run_io \<Rightarrow> string \<Rightarrow> string option \<Rightarrow> jdict \<Rightarrow> redis \<Rightarrow> (run_error + jdict option) \<times> redis" where
  "finalize_sync_job_for_run io jid token result st =
     (case token of
        None \<Rightarrow> apfst (require_result require_updated) (finalize_sync_job (io_between io) jid result (io_now io) st)
      | Some t \<Rightarrow> apfst (require_result require_run_owner)
          (fenced_finalize_sync_job (io_between io) jid t result (io_now io) st))"

definition mark_job_failed_for_run ::
    "run_io \<Rightarrow> string \<Rightarrow> string option \<Rightarrow> string \<Rightarrow> json \<Rightarrow> json \<Rightarrow> redis \<Rightarrow> (run_error + jdict option) \<times> redis" where
  "mark_job_failed_for_run io jid token error reason_code retry_after st =
     (case token of
        None \<Rightarrow> apfst require_updated (mark_job_failed (io_between io) jid error reason_code retry_after (io_now io) st)
      | Some t \<Rightarrow> apfst require_run_owner
          (fenced_mark_job_failed (io_between io) jid t error reason_code retry_after (io_now io) st))"

definition add_processed_segment_for_run ::
    "bool \<Rightarrow> string \<Rightarrow> string option \<Rightarrow> string \<Rightarrow> redis \<Rightarrow> (run_error + jdict option) \<times> redis" where
  "add_processed_segment_for_run raises jid token path st =
     (case token of
        None \<Rightarrow> (Inr None, add_processed_segment raises jid path st)
      | Some t \<Rightarrow> apfst require_run_owner (add_processed_segment_if_run_owner jid t path st))"

section \<open>Binding a run, or converging a completion\<close>

definition bind_or_converge_sync_ledger_completion ::
    "run_io \<Rightarrow> string \<Rightarrow> string \<Rightarrow> string option \<Rightarrow> string option \<Rightarrow> sync_world \<Rightarrow>
     (run_error + jdict option) \<times> sync_world" where
  "bind_or_converge_sync_ledger_completion io jid uid content_id run_lock_token w =
     (case (nonempty_str content_id, run_lock_token) of
        (Some cid, Some token) \<Rightarrow>
          (case on_ledger (bind_sync_content_run_token (uid, cid) jid token (get_sync_job_run_lock_epoch token) (io_ts io)) w of
             (Bound, w1) \<Rightarrow> (Inr None, w1)
           | (Lost, w1) \<Rightarrow> (Inl Lease_Lost, w1)
           | (Completed result, w1) \<Rightarrow>
               (case result of
                  JObj r \<Rightarrow>
                    if \<not> is_valid_completed_sync_content_result result then (Inl Lease_Lost, w1)
                    else
                      (case on_redis (\<lambda>st. apfst (require_result require_run_owner)
                          (fenced_finalize_sync_job_from_durable_ledger (io_between io) jid token r (io_now io) st))
                          (io_pause io w1) of
                         (Inl e, w2) \<Rightarrow> (Inl e, w2)
                       | (Inr job, w2) \<Rightarrow>
                           (Inr job, w2\<lparr>sw_redis := delete_sync_job_run_lock_epoch (io_delete_raises io) jid (sw_redis w2)\<rparr>))
                | _ \<Rightarrow> (Inl Lease_Lost, w1)))
      | _ \<Rightarrow> (Inr None, w))"

section \<open>Terminal results of a run\<close>

definition superseded_result :: "string \<Rightarrow> string \<Rightarrow> string \<Rightarrow> jdict" where
  "superseded_result lane provider model =
     [(''failed_segments'', JInt 0), (''total_segments'', JInt 0), (''errors'', JList []),
      (''outcome'', JStr ''superseded''), (''provider'', JStr provider), (''model'', JStr model), (''lane'', JStr lane)]"

definition finalize_sync_job_superseded ::
    "run_io \<Rightarrow> string \<Rightarrow> string option \<Rightarrow> string \<Rightarrow> string \<Rightarrow> string \<Rightarrow> redis \<Rightarrow> (run_error + unit) \<times> redis" where
  "finalize_sync_job_superseded io jid token lane provider model st =
     (case finalize_sync_job_for_run io jid token (superseded_result lane provider model) st of
        (Inr (Some _), st1) \<Rightarrow> (Inr (), st1)
      | (Inr None, st1) \<Rightarrow> (Inl Lease_Lost, st1)
      | (Inl e, st1) \<Rightarrow> (Inl e, st1))"

text \<open>The failure is published first; only then is the claim released and the counter dropped.\<close>

definition finalize_sync_job_failure_now ::
    "run_io \<Rightarrow> string \<Rightarrow> string \<Rightarrow> string option \<Rightarrow> string \<Rightarrow> json \<Rightarrow> json \<Rightarrow> string option \<Rightarrow> sync_world \<Rightarrow>
     jdict option \<times> sync_world" where
  "finalize_sync_job_failure_now io jid uid content_id error_code reason_code retry_after token w =
     (let reason = json_or reason_code (JStr error_code) in
      case (case token of
              None \<Rightarrow> on_redis (mark_job_failed (io_between io) jid error_code reason retry_after (io_now io)) w
            | Some t \<Rightarrow>
                (case on_redis (mark_job_failed_for_run io jid token error_code reason retry_after) w of
                   (Inl _, w1) \<Rightarrow> (None, w1)
                 | (Inr job, w1) \<Rightarrow> (job, w1))) of
        (None, w1) \<Rightarrow> (None, w1)
      | (Some job, w1) \<Rightarrow>
          let w2 = (case nonempty_str content_id of
                      None \<Rightarrow> w1
                    | Some cid \<Rightarrow>
                        snd (on_ledger
                          (if token = None then release_sync_content_claim (uid, cid) jid None None (io_ts io)
                           else release_sync_content_claim_after_job_retired (uid, cid) jid (io_ts io))
                          (io_pause io w1)));
              w3 = (if token = None then w2
                    else w2\<lparr>sw_redis := delete_sync_job_run_lock_epoch (io_delete_raises io) jid (sw_redis w2)\<rparr>)
          in (Some job, w3))"

definition finalize_sync_job_failure ::
    "run_io \<Rightarrow> string \<Rightarrow> string \<Rightarrow> string option \<Rightarrow> string \<Rightarrow> json \<Rightarrow> json \<Rightarrow> string option \<Rightarrow> sync_world \<Rightarrow>
     (run_error + unit) \<times> sync_world" where
  "finalize_sync_job_failure io jid uid content_id error_code reason_code retry_after token w =
     (case finalize_sync_job_failure_now io jid uid content_id error_code reason_code retry_after token w of
        (None, w1) \<Rightarrow> (Inl Lease_Lost, w1)
      | (Some _, w1) \<Rightarrow> (Inr (), w1))"

section \<open>The run lock over time\<close>

text \<open>What can happen to the lock and the epoch counter of one job: an acquisition with or without an
  epoch (a plain token is a UUID, which has no colon), the lock disappearing by release or
  expiry, and everything that leaves both alone. The counter is not dropped while a run of the
  job may still be active.\<close>

inductive lock_step :: "string \<Rightarrow> redis \<Rightarrow> redis \<Rightarrow> bool" for jid where
  acquire_epoch: "lock_step jid st (snd (try_acquire_sync_job_run_lock jid uuid st))"
| acquire_plain: "CHR '':'' \<notin> set uuid \<Longrightarrow> lock_step jid st (snd (try_acquire_job_run_lock jid uuid st))"
| lock_gone: "rd_lock st' jid = None \<Longrightarrow> rd_epoch st' jid = rd_epoch st jid \<Longrightarrow> lock_step jid st st'"
| lock_kept: "lock_owner st' jid = lock_owner st jid \<Longrightarrow> rd_epoch st' jid = rd_epoch st jid \<Longrightarrow> lock_step jid st st'"

inductive_cases lock_stepE: "lock_step jid st st'"

lemma release_is_lock_step: "lock_step jid st (release_job_run_lock raises jid token st)"
  by (cases "\<not> raises \<and> lock_owner st jid = Some token")
    (auto simp: release_job_run_lock_def intro: lock_gone lock_kept)

lemma renew_is_lock_step: "lock_step jid st (snd (renew_job_run_lock jid token st))"
  by (rule lock_kept) (auto simp: renew_job_run_lock_def)

text \<open>From the grant of epoch \<open>e\<close> on, the counter is at least \<open>e\<close> and the lock is held by no earlier
  epoch.\<close>

definition locked_from_epoch :: "string \<Rightarrow> int \<Rightarrow> redis \<Rightarrow> bool" where
  "locked_from_epoch jid e st \<longleftrightarrow>
     e \<le> lock_epoch st jid \<and>
     (\<forall>t. lock_owner st jid = Some t \<longrightarrow> get_sync_job_run_lock_epoch t = 0 \<or> e \<le> get_sync_job_run_lock_epoch t)"

lemma plain_token_epoch: "CHR '':'' \<notin> set uuid \<Longrightarrow> get_sync_job_run_lock_epoch uuid = 0"
  by (simp add: get_sync_job_run_lock_epoch_def)

lemma acquired_from_epoch:
  assumes "try_acquire_sync_job_run_lock jid uuid st = (Inr (Some token), st')" "0 \<le> lock_epoch st jid"
  shows "locked_from_epoch jid (get_sync_job_run_lock_epoch token) st'"
    and "get_sync_job_run_lock_epoch token = lock_epoch st jid + 1"
  using acquire_cases [OF assms(1)] assms(2) by (auto simp: locked_from_epoch_def epoch_of_epoch_token)

lemma locked_from_epoch_acquire:
  assumes "locked_from_epoch jid e st" "0 < e"
  shows "locked_from_epoch jid e (snd (try_acquire_sync_job_run_lock jid uuid st))"
proof (cases "rd_lock st jid")
  case None
  define n where "n = lock_epoch st jid + 1"
  have n: "e < n" "0 < n" using assms by (auto simp: locked_from_epoch_def n_def)
  have "rd_epoch (snd (try_acquire_sync_job_run_lock jid uuid st)) jid = Some n \<and>
    lock_owner (snd (try_acquire_sync_job_run_lock jid uuid st)) jid = Some (epoch_token n uuid)"
    using None by (auto simp: try_acquire_sync_job_run_lock_def Let_def n_def lock_epoch_def split: option.split)
  then show ?thesis
    using n by (auto simp: locked_from_epoch_def lock_epoch_def epoch_of_epoch_token)
next
  case Some
  then show ?thesis using assms(1) by (simp add: try_acquire_sync_job_run_lock_def)
qed

lemma locked_from_epoch_step: "lock_step jid st st' \<Longrightarrow> locked_from_epoch jid e st \<and> 0 < e \<Longrightarrow> locked_from_epoch jid e st' \<and> 0 < e"
proof (elim lock_stepE, goal_cases)
  case (1 uuid)
  then show ?case using locked_from_epoch_acquire by blast
next
  case (2 uuid)
  then show ?case
    by (auto simp: locked_from_epoch_def try_acquire_job_run_lock_def lock_epoch_def plain_token_epoch)
qed (auto simp: locked_from_epoch_def lock_epoch_def)

interpretation run_locks: kept_invariant "lock_step jid" "\<lambda>st. locked_from_epoch jid e st \<and> 0 < e" for jid e
  by unfold_locales (rule locked_from_epoch_step)

lemma earlier_epoch_not_owner:
  "locked_from_epoch jid e st \<Longrightarrow> 0 < get_sync_job_run_lock_epoch t \<Longrightarrow> get_sync_job_run_lock_epoch t < e \<Longrightarrow>
     lock_owner st jid \<noteq> Some t"
  by (auto simp: locked_from_epoch_def)

lemma fenced_script_not_owner:
  assumes "lock_owner w jid \<noteq> Some token"
  shows "fst (fenced_job_mutation_script jid token old new w) \<in> {Reply_Missing_Owner, Reply_Stale_Owner}"
    and "snd (fenced_job_mutation_script jid token old new w) = w"
  using assms by (auto simp: fenced_job_mutation_script_def split: option.splits)

text \<open>Without the lock the first script of a fenced update refuses and ends the call.\<close>

lemma fenced_update_not_owner:
  assumes "\<And>k. lock_owner (between k st) jid \<noteq> Some token"
  shows "fm_outcome (fst (fenced_update_sync_job between jid token updates allowed now st)) \<noteq> APPLIED"
    and "\<exists>w. (w = st \<or> (\<exists>k. w = between k st)) \<and> snd (fenced_update_sync_job between jid token updates allowed now st) = w"
proof -
  have script: "fst (fenced_job_mutation_script jid token old new (between k st)) \<in> {Reply_Missing_Owner, Reply_Stale_Owner}"
    "snd (fenced_job_mutation_script jid token old new (between k st)) = between k st" for k old new
    using fenced_script_not_owner [OF assms] by blast+
  have reply: "fm_outcome (decode_mutation reply) \<notin> {APPLIED, CONFLICT}"
    if "reply \<in> {Reply_Missing_Owner, Reply_Stale_Owner}" for reply
    using that by (auto simp: mutation_def)
  have loop: "fm_outcome (fst (fenced_loop MUTATION_MAX_RETRIES between jid token allowed r job payload m st)) \<noteq> APPLIED \<and>
    (snd (fenced_loop MUTATION_MAX_RETRIES between jid token allowed r job payload m st) = st \<or>
     (\<exists>k. snd (fenced_loop MUTATION_MAX_RETRIES between jid token allowed r job payload m st) = between k st))" for r job payload m
    using script [of _ _ 2] reply
    by (auto simp: MUTATION_MAX_RETRIES_def numeral_3_eq_3 numeral_2_eq_2 case_prod_beta Let_def)
  show "fm_outcome (fst (fenced_update_sync_job between jid token updates allowed now st)) \<noteq> APPLIED"
    using loop script reply
    by (auto simp: fenced_update_sync_job_def case_prod_beta Let_def mutation_def split: option.splits)
  show "\<exists>w. (w = st \<or> (\<exists>k. w = between k st)) \<and> snd (fenced_update_sync_job between jid token updates allowed now st) = w"
    using loop script reply
    by (auto simp: fenced_update_sync_job_def case_prod_beta Let_def mutation_def split: option.splits)
qed

text \<open>C19: A run that lost its lease is shut out of both stores. After a second run of the same job has
  acquired the lock and bound the content, and whatever happens then short of dropping the epoch
  counter or claiming the content anew for the job, no fenced Redis write and no processed
  segment of the first run takes effect, and every ledger transaction of the first run is
  refused and changes nothing.\<close>

theorem takeover_fences_previous_run:
  assumes first: "try_acquire_sync_job_run_lock jid uuid1 r0 = (Inr (Some t1), r1)" "0 \<le> lock_epoch r0 jid"
    and "(lock_step jid)\<^sup>*\<^sup>* r1 r2"
    and second: "try_acquire_sync_job_run_lock jid uuid2 r2 = (Inr (Some t2), r3)"
    and "(lock_step jid)\<^sup>*\<^sup>* r3 r4" "\<And>k. (lock_step jid)\<^sup>*\<^sup>* r4 (between k r4)"
    and bound: "bind_sync_content_run_token key jid t2 (get_sync_job_run_lock_epoch t2) ts l = (Bound, l1)"
    and "(tenure_step key jid)\<^sup>*\<^sup>* l1 l2" "run_op key jid t1 (get_sync_job_run_lock_epoch t1) op"
  shows "fm_outcome (fst (fenced_update_sync_job between jid t1 updates allowed now r4)) \<noteq> APPLIED \<and>
    fm_outcome (fst (add_processed_segment_if_run_owner jid t1 path r4)) \<noteq> APPLIED \<and>
    snd (add_processed_segment_if_run_owner jid t1 path r4) = r4 \<and>
    perform op l2 = (False, l2)"
proof -
  let ?e = get_sync_job_run_lock_epoch
  have e1: "0 < ?e t1" "locked_from_epoch jid (?e t1) r1"
    using acquired_from_epoch [OF first] first(2) by auto
  have "locked_from_epoch jid (?e t1) r2"
    using run_locks.steps_inv [OF assms(3)] e1 by blast
  then have e2: "?e t2 = lock_epoch r2 jid + 1" "?e t1 \<le> lock_epoch r2 jid" "locked_from_epoch jid (?e t2) r3"
    using acquired_from_epoch [OF second] e1(1) by (auto simp: locked_from_epoch_def)
  then have less: "?e t1 < ?e t2" "0 < ?e t2" using e1(1) by auto
  have r4: "locked_from_epoch jid (?e t2) r4"
    using run_locks.steps_inv [OF assms(5)] e2(3) less(2) by blast
  have owner: "lock_owner s jid \<noteq> Some t1" if "(lock_step jid)\<^sup>*\<^sup>* r4 s" for s
    using run_locks.steps_inv [OF that, of "?e t2"] r4 less e1(1) earlier_epoch_not_owner by blast
  have "fm_outcome (fst (fenced_update_sync_job between jid t1 updates allowed now r4)) \<noteq> APPLIED"
    using fenced_update_not_owner(1) owner assms(6) by blast
  moreover have "fm_outcome (fst (add_processed_segment_if_run_owner jid t1 path r4)) \<noteq> APPLIED \<and>
    snd (add_processed_segment_if_run_owner jid t1 path r4) = r4"
    using owner [of r4] by (auto simp: add_processed_segment_if_run_owner_def mutation_def split: option.split)
  moreover have "perform op l2 = (False, l2)"
    using run_op_refused [OF tenure.steps_inv [OF assms(8) bound_owns_from_epoch [OF bound]] assms(9) less(1)]
      refused_changes_nothing [of op l2] by (metis prod.collapse)
  ultimately show ?thesis by blast
qed

section \<open>Convergence and failure\<close>

lemma fenced_loop_job:
  assumes "fm_outcome m0 \<noteq> APPLIED"
  shows "fm_outcome (fst (fenced_loop n between jid token allowed r job payload m0 st)) = APPLIED \<Longrightarrow>
    \<exists>job'. fm_job (fst (fenced_loop n between jid token allowed r job payload m0 st)) = Some (dict_update job' payload)"
  using assms
proof (induction n arbitrary: r job m0 st)
  case (Suc n)
  define out where "out = fenced_job_mutation_script jid token r (dumps_compact (dict_update job payload)) (between n st)"
  define m where "m = decode_mutation (fst out)"
  have applied: "fm_outcome m = APPLIED \<Longrightarrow> fm_job m = Some (dict_update job payload)"
    by (auto simp: m_def out_def cas_defs split: option.splits if_splits)
  show ?case
  proof (cases "state_allowed allowed job \<and> fm_outcome m = CONFLICT")
    case True
    then obtain r' job' where "fm_raw m = Some r'" "fm_job m = Some job'"
      using conflict_reply unfolding m_def by blast
    then show ?thesis
      using True Suc.prems Suc.IH [of r' job' m "snd out"]
      by (simp add: case_prod_beta Let_def m_def out_def)
  next
    case False
    then show ?thesis
      using Suc.prems applied by (auto simp: case_prod_beta Let_def m_def out_def split: if_splits)
  qed
qed simp

lemma fenced_update_job:
  assumes "fm_outcome (fst (fenced_update_sync_job between jid token updates allowed now st)) = APPLIED"
  shows "\<exists>job. fm_job (fst (fenced_update_sync_job between jid token updates allowed now st)) =
    Some (dict_update job (stamped updates now))"
proof -
  have start: "fm_outcome (mutation CONFLICT) \<noteq> APPLIED" by (simp add: mutation_def)
  let ?out = "fenced_job_mutation_script jid token (Other_Text '''') (Other_Text '''') (between MUTATION_MAX_RETRIES st)"
  have not_applied: "fm_outcome (decode_mutation (fst ?out)) \<noteq> APPLIED"
    by (auto simp: cas_defs load_object_def split: option.splits json.splits)
  show ?thesis
    using assms fenced_loop_job [OF start] not_applied
    by (auto simp: fenced_update_sync_job_def case_prod_beta Let_def mutation_def split: option.splits if_splits)
qed

lemma dict_get_stamped:
  "distinct (map fst u) \<Longrightarrow> ''updated_at'' \<notin> fst ` set u \<Longrightarrow> map_of u k = Some v \<Longrightarrow>
     dict_get (dict_update job (stamped u now)) k = v"
proof -
  assume u: "distinct (map fst u)" "''updated_at'' \<notin> fst ` set u" "map_of u k = Some v"
  have "stamped u now = u @ [(''updated_at'', JFloat now)]"
    using u(2) unfolding stamped_def dict_update_Cons dict_update_Nil
    by (induction u) (auto simp: image_iff)
  moreover have "k \<noteq> ''updated_at''" using u(2,3) by (metis fst_conv imageI map_of_SomeD)
  moreover have "map_of (rev u) k = Some v"
  proof -
    have "distinct (map fst (rev u))" using u(1) by (simp add: rev_map [symmetric])
    then show ?thesis using map_of_SomeD [OF u(3)] by (simp add: map_of_eq_Some_iff)
  qed
  ultimately show ?thesis by (simp add: dict_get_dict_update)
qed

lemma valid_result_updates:
  assumes "is_valid_completed_sync_content_result (JObj r)" "sync_job_finalization_updates r now = Some u"
  shows "distinct (map fst u) \<and> ''updated_at'' \<notin> fst ` set u \<and> map_of u ''status'' = Some (JStr ''completed'') \<and>
    map_of u ''result'' = Some (JObj r)"
proof -
  obtain segments where "dict_get r ''failed_segments'' = JInt 0" "dict_get r ''total_segments'' = JInt segments" "0 \<le> segments"
    using assms(1) by (auto simp: is_valid_completed_sync_content_result_def split: json.splits)
  then have "dict_get_or r ''failed_segments'' (JInt 0) = JInt 0" "dict_get_or r ''total_segments'' (JInt 0) = JInt segments"
    by (auto simp: dict_get_def dict_get_or_def split: option.splits)
  moreover have "finalization_status_of segments 0 = ''completed''"
    using \<open>0 \<le> segments\<close> by (simp add: finalization_status_of_def)
  ultimately show ?thesis
    using assms(2) by (auto simp: sync_job_finalization_updates_def Let_def)
qed

text \<open>A retry converges only a proven completion. When binding a run returns a job, the ledger
  already held a valid all-success result of the content, the job now published is completed with
  exactly that result, and the ledger is unchanged; when it returns none, the run owns the
  content in the ledger under its own token and epoch.\<close>

theorem convergence_publishes_the_proven_result:
  assumes "bind_or_converge_sync_ledger_completion io jid uid (Some cid) (Some token) w = (Inr out, w')" "cid \<noteq> ''''"
  shows "(case out of
      Some job \<Rightarrow> (\<exists>r. l_result (existing_doc (sw_ledger w) (uid, cid)) = JObj r \<and>
        is_valid_completed_sync_content_result (JObj r) \<and>
        dict_get job ''status'' = JStr ''completed'' \<and> dict_get job ''result'' = JObj r \<and>
        bind_sync_content_run_token (uid, cid) jid token (get_sync_job_run_lock_epoch token) (io_ts io) (sw_ledger w) =
          (Completed (JObj r), sw_ledger w))
    | None \<Rightarrow> ledger_owner_matches (existing_doc (sw_ledger w') (uid, cid)) jid (Some token)
        (Some (get_sync_job_run_lock_epoch token)))"
proof -
  let ?e = "get_sync_job_run_lock_epoch token"
  define b where "b = bind_sync_content_run_token (uid, cid) jid token ?e (io_ts io) (sw_ledger w)"
  have cid: "nonempty_str (Some cid) = Some cid" using assms(2) by (cases cid) auto
  show ?thesis
  proof (cases "fst b")
    case Bound
    then have "out = None" "sw_ledger w' = snd b"
      using assms(1) cid
      by (auto simp: bind_or_converge_sync_ledger_completion_def on_ledger_def b_def case_prod_beta Let_def split: prod.splits)
    moreover have "ledger_owner_matches (existing_doc (snd b) (uid, cid)) jid (Some token) (Some ?e)"
      using Bound
      by (auto simp: b_def bind_sync_content_run_token_def ledger_owner_matches_def epoch_matches_def
          processing_claim_updates_def Let_def split: if_splits option.splits stored_epoch.splits)
    ultimately show ?thesis by simp
  next
    case (Completed result)
    then have fin: "snd b = sw_ledger w" "result = l_result (existing_doc (sw_ledger w) (uid, cid))"
      "is_valid_completed_sync_content_result result"
      by (auto simp: b_def bind_sync_content_run_token_def Let_def split: if_splits option.splits stored_epoch.splits)
    obtain r where r: "result = JObj r"
      using fin(3) by (cases result) (auto simp: is_valid_completed_sync_content_result_def)
    have b: "bind_sync_content_run_token (uid, cid) jid token ?e (io_ts io) (sw_ledger w) = (Completed (JObj r), sw_ledger w)"
      using Completed fin(1) r by (metis b_def prod.collapse)
    define fin_out where "fin_out = fenced_finalize_sync_job_from_durable_ledger (io_between io) jid token r (io_now io)
      (sw_redis (io_pause io w))"
    have "require_result require_run_owner (fst fin_out) = Inr out"
      using assms(1) cid b fin(3) r
      by (simp add: bind_or_converge_sync_ledger_completion_def on_ledger_def on_redis_def fin_out_def case_prod_beta
          Let_def split: sum.splits)
    then obtain m where m: "fst fin_out = Inr m" "fm_outcome m = APPLIED" "out = fm_job m"
      by (cases "fst fin_out" rule: require_result.cases [of "(require_run_owner, _)"])
        (auto simp: require_run_owner_def split: if_splits)
    obtain u where u: "sync_job_finalization_updates r (io_now io) = Some u"
      using m(1) by (cases "sync_job_finalization_updates r (io_now io)")
        (auto simp: fin_out_def fenced_finalize_sync_job_from_durable_ledger_def fenced_finalize_with_def)
    then have "m = fst (fenced_update_sync_job (io_between io) jid token u (Some {''queued'', ''processing''}) (io_now io)
        (sw_redis (io_pause io w)))"
      using m(1) by (simp add: fin_out_def fenced_finalize_sync_job_from_durable_ledger_def fenced_finalize_with_def)
    then obtain job where job: "out = Some (dict_update job (stamped u (io_now io)))"
      using m(2,3) fenced_update_job by blast
    have "l_result (existing_doc (sw_ledger w) (uid, cid)) = JObj r" "is_valid_completed_sync_content_result (JObj r)"
      using fin(2,3) r by simp_all
    moreover from this(2) have "dict_get (dict_update job (stamped u (io_now io))) ''status'' = JStr ''completed''"
      "dict_get (dict_update job (stamped u (io_now io))) ''result'' = JObj r"
      using valid_result_updates [OF _ u] by (simp_all add: dict_get_stamped)
    ultimately show ?thesis
      using b by (simp add: job)
  next
    case Lost
    then show ?thesis
      using assms(1) cid
      by (auto simp: bind_or_converge_sync_ledger_completion_def on_ledger_def b_def case_prod_beta Let_def split: prod.splits)
  qed
qed

text \<open>A failure is published before its claim is freed, and only the publisher frees it. If the
  failure could not be published, the ledger is untouched; if it was, the published job is
  failed, and afterwards the job no longer holds the content.\<close>

theorem failure_frees_only_its_own_claim:
  assumes "finalize_sync_job_failure_now io jid uid (Some cid) code reason retry_after (Some token) w = (out, w')"
    and "cid \<noteq> ''''"
  shows "(case out of
      None \<Rightarrow> sw_ledger w' = sw_ledger w
    | Some job \<Rightarrow> dict_get job ''status'' = JStr ''failed'' \<and> dict_get job ''error'' = JStr code \<and>
        \<not> (l_status (existing_doc (sw_ledger w') (uid, cid)) = Some ''processing'' \<and>
           l_job_id (existing_doc (sw_ledger w') (uid, cid)) = Some jid))"
proof -
  let ?u = "failure_updates code (json_or reason (JStr code)) retry_after (io_now io)"
  define m where "m = fenced_update_sync_job (io_between io) jid token ?u (Some {''queued'', ''processing''}) (io_now io) (sw_redis w)"
  have cid: "nonempty_str (Some cid) = Some cid" using assms(2) by (cases cid) auto
  show ?thesis
  proof (cases "fm_outcome (fst m) = APPLIED")
    case True
    then obtain job where job: "fm_job (fst m) = Some (dict_update job (stamped ?u (io_now io)))"
      using fenced_update_job unfolding m_def by blast
    have u: "distinct (map fst ?u)" "''updated_at'' \<notin> fst ` set ?u" "map_of ?u ''status'' = Some (JStr ''failed'')"
      "map_of ?u ''error'' = Some (JStr code)"
      by (simp_all add: failure_updates_def)
    have out: "out = fm_job (fst m)"
      and l: "sw_ledger w' = snd (release_sync_content_claim_after_job_retired (uid, cid) jid (io_ts io)
        (sw_ledger (io_pause io (w\<lparr>sw_redis := snd m\<rparr>))))"
      using assms(1) True cid job
      by (auto simp: finalize_sync_job_failure_now_def mark_job_failed_for_run_def fenced_mark_job_failed_def on_redis_def
          on_ledger_def m_def require_run_owner_def case_prod_beta Let_def split: prod.splits)
    have "\<not> (l_status (existing_doc (sw_ledger w') (uid, cid)) = Some ''processing'' \<and>
           l_job_id (existing_doc (sw_ledger w') (uid, cid)) = Some jid)"
      unfolding l by (auto simp: release_sync_content_claim_after_job_retired_def retryable_update_def Let_def)
    then show ?thesis
      using dict_get_stamped [OF u(1,2,3)] dict_get_stamped [OF u(1,2,4)] by (simp add: out job)
  next
    case False
    then have "out = None" "sw_ledger w' = sw_ledger w"
      using assms(1)
      by (auto simp: finalize_sync_job_failure_now_def mark_job_failed_for_run_def fenced_mark_job_failed_def on_redis_def
          m_def require_run_owner_def case_prod_beta Let_def)
    then show ?thesis by simp
  qed
qed

section \<open>The status poll\<close>

text \<open>\<open>Internal_500\<close> is an uncaught \<^verbatim>\<open>KeyError\<close>: the handler subscripts three keys of the job. It also
  stands for the error of an acquisition whose reply carries no valid epoch token.\<close>

datatype http_error = Not_Found_404 | Forbidden_403 | Unavailable_503 | Internal_500

text \<open>The surroundings of a poll: the mode, the instants of its two reads of the job and of the two
  tests of staleness, the UUID of the lease it may take, the surroundings of the calls it makes
  and whether the final release of the claim and that of the backfill slot raise.\<close>

record poll_io =
  po_env :: environ
  po_read1 :: rat
  po_test1 :: rat
  po_read2 :: rat
  po_test2 :: rat
  po_uuid :: string
  po_run :: run_io
  po_release_raises :: bool
  po_slot_raises :: bool

definition acquire_stale_lock :: "bool \<Rightarrow> string \<Rightarrow> string \<Rightarrow> redis \<Rightarrow> (lock_error + string option) \<times> redis" where
  "acquire_stale_lock uses_fence jid uuid st =
     (if uses_fence then try_acquire_sync_job_run_lock jid uuid st
      else apfst Inr (try_acquire_job_run_lock jid uuid st))"

definition json_text :: "json \<Rightarrow> string option" where
  "json_text v = (case v of JStr s \<Rightarrow> Some s | _ \<Rightarrow> None)"

definition free_slot :: "poll_io \<Rightarrow> string \<Rightarrow> string \<Rightarrow> jdict \<Rightarrow> sync_world \<Rightarrow> sync_world" where
  "free_slot io uid jid locked w =
     (if dict_get locked ''lane'' = JStr ''backfill'' \<and> \<not> po_slot_raises io
      then w\<lparr>sw_backfill := release_backfill_slot (io_ts (po_run io)) uid jid (sw_backfill w)\<rparr> else w)"

text \<open>What the poll does once it holds the lease: re-read, finalize a job that is still stale, and free
  its slot if it was of the historical lane.\<close>

definition finalize_stale_job :: "poll_io \<Rightarrow> string \<Rightarrow> string \<Rightarrow> string \<Rightarrow> jdict \<Rightarrow> sync_world \<Rightarrow> jdict \<times> sync_world" where
  "finalize_stale_job io uid jid token job w =
     (case on_redis (get_sync_job (\<lambda>st. st) jid (po_read2 io)) w of
        (None, w1) \<Rightarrow> (job, w1)
      | (Some locked, w1) \<Rightarrow>
          if dict_get locked ''uid'' = JStr uid \<and> dict_get locked ''dispatch_mode'' = JStr ''cloud_tasks''
             \<and> is_sync_job_stale locked (po_test2 io) then
            let fenced = sync_job_uses_ledger_fence locked;
                cid = json_text (dict_get locked ''content_id'');
                code = (if dict_get locked ''status'' = JStr ''queued'' then ''sync_dispatch_lost'' else ''sync_worker_stale'');
                publish = (\<lambda>w. case finalize_sync_job_failure_now (po_run io) jid uid cid code JNull JNull
                                    (if fenced then Some token else None) w of
                             (None, w3) \<Rightarrow> (job, w3)
                           | (Some failed, w3) \<Rightarrow> (failed, free_slot io uid jid locked w3))
            in if fenced then
                 (case bind_or_converge_sync_ledger_completion (po_run io) jid uid cid (Some token) w1 of
                    (Inl _, w2) \<Rightarrow> (job, w2)
                  | (Inr (Some converged), w2) \<Rightarrow> (converged, free_slot io uid jid locked w2)
                  | (Inr None, w2) \<Rightarrow> publish w2)
               else publish w1
          else (job, w1))"

definition poll_lease_allowed :: "environ \<Rightarrow> jdict \<Rightarrow> rat \<Rightarrow> bool" where
  "poll_lease_allowed env job now \<longleftrightarrow>
     get_sync_ledger_fence_mode env \<noteq> STANDBY \<and>
     \<not> (sync_job_uses_ledger_fence job \<and> get_sync_ledger_fence_mode env \<noteq> ACTIVE) \<and>
     is_sync_job_stale job now \<and> dict_get job ''dispatch_mode'' = JStr ''cloud_tasks''"

definition status_response :: "jdict \<Rightarrow> http_error + jdict" where
  "status_response job =
     (case (map_of job ''job_id'', map_of job ''status'') of
        (Some job_id, Some status) \<Rightarrow>
          Inr ([(''job_id'', job_id), (''status'', status),
                (''total_segments'', dict_get_or job ''total_segments'' (JInt 0)),
                (''processed_segments'', dict_get_or job ''processed_segments'' (JInt 0)),
                (''successful_segments'', dict_get_or job ''successful_segments'' (JInt 0)),
                (''failed_segments'', dict_get_or job ''failed_segments'' (JInt 0)),
                (''lane'', dict_get_or job ''lane'' (JStr ''fresh'')), (''reason_code'', dict_get job ''reason_code''),
                (''retry_after'', dict_get job ''retry_after''),
                (''recording_age_seconds'', dict_get job ''recording_age_seconds'')] @
               (if status_in job {''completed'', ''partial_failure'', ''failed''} then
                  (if json_truthy (dict_get job ''result'') then [(''result'', dict_get job ''result'')] else []) @
                  (if json_truthy (dict_get job ''error'') then [(''error'', dict_get job ''error'')] else [])
                else []))
      | _ \<Rightarrow> Inl Internal_500)"

definition get_sync_job_status :: "poll_io \<Rightarrow> string \<Rightarrow> string \<Rightarrow> sync_world \<Rightarrow> (http_error + jdict) \<times> sync_world" where
  "get_sync_job_status io uid jid w =
     (case on_redis (get_sync_job (\<lambda>st. st) jid (po_read1 io)) w of
        (None, w1) \<Rightarrow> (Inl Not_Found_404, w1)
      | (Some job, w1) \<Rightarrow>
          if job = [] then (Inl Not_Found_404, w1)
          else if map_of job ''uid'' = None then (Inl Internal_500, w1)
          else if dict_get job ''uid'' \<noteq> JStr uid then (Inl Forbidden_403, w1)
          else
            case
              (if poll_lease_allowed (po_env io) job (po_test1 io) then
                 (case on_redis (acquire_stale_lock (sync_job_uses_ledger_fence job) jid (po_uuid io)) w1 of
                    (Inl _, wl) \<Rightarrow> (None, wl)
                  | (Inr None, wl) \<Rightarrow> (Some job, wl)
                  | (Inr (Some token), wl) \<Rightarrow>
                      let (job', wf) = finalize_stale_job io uid jid token job wl
                      in (Some job', wf\<lparr>sw_redis := release_job_run_lock False jid token (sw_redis wf)\<rparr>))
               else (Some job, w1)) of
              (None, w2) \<Rightarrow> (Inl Internal_500, w2)
            | (Some job, w2) \<Rightarrow>
               if status_in job {''failed'', ''partial_failure''} \<and> sync_job_uses_ledger_fence job
                 \<and> json_text (dict_get job ''content_id'') \<noteq> None then
                 (if po_release_raises io then (Inl Unavailable_503, w2)
                  else let w3 = snd (on_ledger (release_sync_content_claim_after_job_retired
                                  (uid, the (json_text (dict_get job ''content_id''))) jid (io_ts (po_run io))) w2)
                       in (status_response job, w3\<lparr>sw_redis :=
                             delete_sync_job_run_lock_epoch (io_delete_raises (po_run io)) jid (sw_redis w3)\<rparr>))
               else (status_response job, w2))"

lemma mark_stale_keeps:
  "k \<notin> {''status'', ''error'', ''completed_at''} \<Longrightarrow> dict_get (mark_stale now job) k = dict_get job k"
  by (simp add: mark_stale_def)

lemma mark_stale_not_Nil: "mark_stale now job \<noteq> []"
  using mark_stale_status [of now job] by (metis dict_get_Nil json.distinct(7))

text \<open>Polling strands the upload. For a job of the legacy protocol that went stale, the poll reports
  the failure that its own read published, never takes the lease and never frees the content: the
  ledger is as before, and for two days after the worker's last write the client's new upload of
  the same audio is refused as busy.\<close>

theorem stale_poll_strands_the_claim:
  assumes "stored_job (sw_redis w) jid = Some r" "load_object r = Some job" "is_sync_job_stale job (po_read1 io)"
    and "dict_get job ''uid'' = JStr uid" "\<not> sync_job_uses_ledger_fence job"
    and "l_status (existing_doc (sw_ledger w) (uid, cid)) = Some ''processing''"
    and "l_job_id (existing_doc (sw_ledger w) (uid, cid)) = Some jid" "jid' \<noteq> jid"
    and "l_updated_at (existing_doc (sw_ledger w) (uid, cid)) = Some t" "ts < t + seconds CLAIM_STALE_SECONDS"
  shows "fst (get_sync_job_status io uid jid w) = status_response (mark_stale (po_read1 io) job) \<and>
    dict_get (mark_stale (po_read1 io) job) ''status'' = JStr ''failed'' \<and>
    sw_ledger (snd (get_sync_job_status io uid jid w)) = sw_ledger w \<and>
    claim_sync_content (uid, cid) jid' lane ts (sw_ledger w) = (Claim_Busy, sw_ledger w)"
proof -
  let ?now = "po_read1 io"
  have read: "get_sync_job (\<lambda>st. st) jid ?now (sw_redis w) =
      (Some (mark_stale ?now job), set_raw_job jid (dumps (mark_stale ?now job)) (sw_redis w))"
    by (rule get_sync_job_stale [OF assms(1-3)])
  have "\<not> poll_lease_allowed env (mark_stale ?now job) now'" for env now'
    by (simp add: poll_lease_allowed_def)
  moreover have "map_of (mark_stale ?now job) ''uid'' \<noteq> None"
    using assms(4) mark_stale_keeps [of "''uid''" ?now job] by (auto simp: dict_get_def split: option.splits)
  moreover have "\<not> sync_job_uses_ledger_fence (mark_stale ?now job)"
    using assms(5) by (simp add: sync_job_uses_ledger_fence_def mark_stale_keeps)
  ultimately have "get_sync_job_status io uid jid w =
      (status_response (mark_stale ?now job), w\<lparr>sw_redis := set_raw_job jid (dumps (mark_stale ?now job)) (sw_redis w)\<rparr>)"
    using read assms(4)
    by (simp add: get_sync_job_status_def on_redis_def mark_stale_not_Nil mark_stale_keeps Let_def del: not_None_eq)
  moreover have "claim_sync_content (uid, cid) jid' lane ts (sw_ledger w) = (Claim_Busy, sw_ledger w)"
    using assms(6-10) by (simp add: claim_sync_content_def Let_def)
  ultimately show ?thesis by simp
qed

section \<open>Instances\<close>

definition calm_run :: run_io where
  "calm_run = \<lparr>io_now = 9, io_ts = 9, io_between = (\<lambda>_ s. s), io_pause = (\<lambda>w. w), io_delete_raises = False\<rparr>"

definition first_run :: redis where
  "first_run = empty_redis\<lparr>rd_epoch := [''j'' \<mapsto> 1], rd_lock := [''j'' \<mapsto> (epoch_token 1 ''a'', RUN_LOCK_TTL_SECONDS)]\<rparr>"

definition second_run :: redis where
  "second_run = empty_redis\<lparr>rd_epoch := [''j'' \<mapsto> 2], rd_lock := [''j'' \<mapsto> (epoch_token 2 ''b'', RUN_LOCK_TTL_SECONDS)]\<rparr>"

lemma second_lock:
  "try_acquire_sync_job_run_lock ''j'' ''b'' (first_run\<lparr>rd_lock := Map.empty\<rparr>) = (Inr (Some (epoch_token 2 ''b'')), second_run)"
  by (simp add: try_acquire_sync_job_run_lock_def first_run_def second_run_def empty_redis_def epoch_of_epoch_token Let_def)

theorem takeover_fences_previous_run_witness:
  "perform (Complete (''u'', ''c'') ''j'' all_success (Some (epoch_token 1 ''a'')) (Some 1) 9)
     (snd (bind_sync_content_run_token (''u'', ''c'') ''j'' (epoch_token 2 ''b'') 2 1 claimed_ledger)) =
   (False, snd (bind_sync_content_run_token (''u'', ''c'') ''j'' (epoch_token 2 ''b'') 2 1 claimed_ledger))"
proof -
  let ?l = "snd (bind_sync_content_run_token (''u'', ''c'') ''j'' (epoch_token 2 ''b'') 2 1 claimed_ledger)"
  have first: "try_acquire_sync_job_run_lock ''j'' ''a'' empty_redis = (Inr (Some (epoch_token 1 ''a'')), first_run)"
    by (simp add: sample_lock first_run_def)
  have lost: "(lock_step ''j'')\<^sup>*\<^sup>* first_run (first_run\<lparr>rd_lock := Map.empty\<rparr>)"
    by (rule r_into_rtranclp, rule lock_gone) simp_all
  have bound: "bind_sync_content_run_token (''u'', ''c'') ''j'' (epoch_token 2 ''b'')
      (get_sync_job_run_lock_epoch (epoch_token 2 ''b'')) 1 claimed_ledger = (Bound, ?l)"
    by (simp add: epoch_of_epoch_token ledger_instance_simps ledger_defs Let_def)
  have op: "run_op (''u'', ''c'') ''j'' (epoch_token 1 ''a'') (get_sync_job_run_lock_epoch (epoch_token 1 ''a''))
      (Complete (''u'', ''c'') ''j'' all_success (Some (epoch_token 1 ''a'')) (Some 1) 9)"
    by (simp only: run_op_def epoch_of_epoch_token) simp
  have "0 \<le> lock_epoch empty_redis ''j''" by (simp add: lock_epoch_def empty_redis_def)
  from takeover_fences_previous_run [where between = "\<lambda>_ st. st" and updates = "[]" and allowed = None and now = 0 and path = "[]", OF first this lost second_lock rtranclp.rtrancl_refl
      rtranclp.rtrancl_refl bound rtranclp.rtrancl_refl op]
  show ?thesis by blast
qed

theorem convergence_publishes_the_proven_result_witness:
  "case bind_or_converge_sync_ledger_completion calm_run ''j'' ''u'' (Some ''c'') (Some (epoch_token 2 ''b''))
      \<lparr>sw_redis = empty_redis, sw_ledger = claimed_ledger, sw_backfill = empty_backfill\<rparr> of
     (Inr None, w') \<Rightarrow> ledger_owner_matches (existing_doc (sw_ledger w') (''u'', ''c'')) ''j'' (Some (epoch_token 2 ''b'')) (Some 2)
   | _ \<Rightarrow> False"
proof -
  let ?w = "\<lparr>sw_redis = empty_redis, sw_ledger = claimed_ledger, sw_backfill = empty_backfill\<rparr>"
  define call where "call = bind_or_converge_sync_ledger_completion calm_run ''j'' ''u'' (Some ''c'') (Some (epoch_token 2 ''b'')) ?w"
  have "fst call = Inr None" unfolding call_def
    by (simp add: bind_or_converge_sync_ledger_completion_def on_ledger_def calm_run_def epoch_of_epoch_token
        ledger_instance_simps ledger_defs Let_def)
  then obtain w' where w': "call = (Inr None, w')" by (metis prod.collapse)
  then show ?thesis
    using convergence_publishes_the_proven_result [of calm_run "''j''" "''u''" "''c''" "epoch_token 2 ''b''" ?w None w']
    by (simp add: epoch_of_epoch_token flip: call_def)
qed

theorem failure_frees_only_its_own_claim_witness:
  "sw_ledger (snd (finalize_sync_job_failure_now calm_run ''j'' ''u'' (Some ''c'') ''late'' JNull JNull (Some ''stale'')
     \<lparr>sw_redis = second_run, sw_ledger = claimed_ledger, sw_backfill = empty_backfill\<rparr>)) = claimed_ledger"
proof -
  let ?w = "\<lparr>sw_redis = second_run, sw_ledger = claimed_ledger, sw_backfill = empty_backfill\<rparr>"
  define call where "call = finalize_sync_job_failure_now calm_run ''j'' ''u'' (Some ''c'') ''late'' JNull JNull (Some ''stale'') ?w"
  have "fst call = None" unfolding call_def
    by (simp add: finalize_sync_job_failure_now_def mark_job_failed_for_run_def fenced_mark_job_failed_def on_redis_def
        calm_run_def second_run_def empty_redis_def fenced_update_sync_job_def cas_defs epoch_token_def show_int_def
        show_nat.simps require_run_owner_def case_prod_beta Let_def)
  then have "call = (None, snd call)" by (metis prod.collapse)
  then show ?thesis
    using failure_frees_only_its_own_claim [of calm_run "''j''" "''u''" "''c''" "''late''" JNull JNull "''stale''" ?w None "snd call"]
    by (simp flip: call_def)
qed

definition stale_job :: jdict where
  "stale_job = [(''uid'', JStr ''u''), (''status'', JStr ''processing''), (''updated_at'', JFloat 1)]"

theorem stale_poll_strands_the_claim_witness:
  "fst (claim_sync_content (''u'', ''c'') ''new'' ''fresh'' 5 claimed_ledger) = Claim_Busy"
proof -
  define w where "w = \<lparr>sw_redis = set_raw_job ''j'' (dumps stale_job) empty_redis, sw_ledger = claimed_ledger, sw_backfill = empty_backfill\<rparr>"
  define io where "io = \<lparr>po_env = Map.empty, po_read1 = 700, po_test1 = 700, po_read2 = 700, po_test2 = 700, po_uuid = ''b'',
    po_run = calm_run, po_release_raises = False, po_slot_raises = False\<rparr>"
  have "is_sync_job_stale stale_job 700"
    by (simp add: is_sync_job_stale_def stale_threshold_def json_or_def STALE_THRESHOLD_SECONDS_def stale_job_def dict_get_def)
  then show ?thesis
    using stale_poll_strands_the_claim [of w "''j''" "dumps stale_job" stale_job io "''u''" "''c''" "''new''" 0 5 "''fresh''"]
    by (simp add: w_def io_def set_raw_job_def stale_job_def dict_get_def sync_job_uses_ledger_fence_def
        ledger_instance_simps ledger_defs seconds_def CLAIM_STALE_SECONDS_def Let_def)
qed

end
