(* ===== verification/Sync_Runner.thy ===== *)
theory Sync_Runner
  imports Sync_Worker
begin

text \<open>
  The Cloud Tasks handler \<^verbatim>\<open>run_sync_job\<close> of \<^verbatim>\<open>backend/routers/sync.py\<close>, which runs one delivery of
  a sync job: it takes the run lock, recognises expired and finished jobs, converges a durable
  completion, runs the pipeline and turns each of its ends into the answer that consumes or
  retains the task. The pipeline itself (decoding, voice detection, transcription) is a
  parameter, as are the account test and the download of the staged audio. The answer is the
  status code and word; a reply with code 200 consumes the task, any other retains it.
\<close>

section \<open>Surroundings of a delivery\<close>

record task_world =
  tw_sync :: sync_world
  tw_blobs :: "string set"

text \<open>How the pipeline ends: it returns, it is fenced off from the conversation, it lost its lease, it
  fails (whether a retry may help, and the error code, as \<^verbatim>\<open>failure_from_exception\<close> finds them),
  or it is cancelled.\<close>

datatype pipeline_end = Returned | Persistence_Fenced | Run_Lease_Lost | Pipeline_Failed bool string | Pipeline_Cancelled

record sync_task =
  tk_job :: string
  tk_uid :: string
  tk_blobs :: "string list"
  tk_lane :: string
  tk_content :: "string option"
  tk_fence :: bool
  tk_retry_count :: int

record handler_io =
  hi_env :: environ
  hi_uuid :: string
  hi_clock :: "nat \<Rightarrow> rat"
  hi_run :: run_io
  hi_skip_account :: bool
  hi_downloaded :: bool
  hi_max_attempts :: int
  hi_claim_raises :: bool
  hi_slot_raises :: bool
  hi_pipeline :: "string option \<Rightarrow> task_world \<Rightarrow> pipeline_end \<times> task_world"

datatype task_reply = Reply int string | Unhandled | Cancelled

text \<open>Inside the guarded block an exception is either the loss of the lease, which the outer handler
  answers, or another one. The flag says whether the lock is released at the end.\<close>

datatype guarded = Answer int string bool | Lease_Gone | Crashed | Cancelled_Run

definition on_sync :: "(sync_world \<Rightarrow> 'a \<times> sync_world) \<Rightarrow> task_world \<Rightarrow> 'a \<times> task_world" where
  "on_sync f w = (let (x, s) = f (tw_sync w) in (x, w\<lparr>tw_sync := s\<rparr>))"

definition read_job :: "handler_io \<Rightarrow> nat \<Rightarrow> string \<Rightarrow> task_world \<Rightarrow> jdict option \<times> task_world" where
  "read_job io i jid w =
     (case on_sync (on_redis (get_sync_job (\<lambda>st. st) jid (hi_clock io i))) w of
        (Some [], w1) \<Rightarrow> (None, w1)
      | (job, w1) \<Rightarrow> (job, w1))"

definition delete_staged_blobs :: "sync_task \<Rightarrow> task_world \<Rightarrow> task_world" where
  "delete_staged_blobs t w = w\<lparr>tw_blobs := tw_blobs w - set (tk_blobs t)\<rparr>"

text \<open>Releasing the slot of a historical job and the claim on its content; either may raise.\<close>

definition free_task_slot :: "handler_io \<Rightarrow> sync_task \<Rightarrow> task_world \<Rightarrow> bool \<times> task_world" where
  "free_task_slot io t w =
     (if tk_lane t \<noteq> ''backfill'' then (True, w)
      else if hi_slot_raises io then (False, w)
      else (True, w\<lparr>tw_sync := (tw_sync w)\<lparr>sw_backfill :=
              release_backfill_slot (io_ts (hi_run io)) (tk_uid t) (tk_job t) (sw_backfill (tw_sync w))\<rparr>\<rparr>))"

definition release_task_claim :: "handler_io \<Rightarrow> sync_task \<Rightarrow> bool \<Rightarrow> task_world \<Rightarrow> bool \<times> task_world" where
  "release_task_claim io t fenced w =
     (case nonempty_str (tk_content t) of
        None \<Rightarrow> (True, w)
      | Some cid \<Rightarrow>
          if hi_claim_raises io then (False, w)
          else (True, snd (on_sync (on_ledger
            (if fenced then release_sync_content_claim_after_job_retired (tk_uid t, cid) (tk_job t) (io_ts (hi_run io))
             else release_sync_content_claim (tk_uid t, cid) (tk_job t) None None (io_ts (hi_run io)))) w)))"

definition drop_epoch :: "handler_io \<Rightarrow> sync_task \<Rightarrow> bool \<Rightarrow> task_world \<Rightarrow> task_world" where
  "drop_epoch io t fenced w =
     (if fenced then w\<lparr>tw_sync := (tw_sync w)\<lparr>sw_redis :=
        delete_sync_job_run_lock_epoch (io_delete_raises (hi_run io)) (tk_job t) (sw_redis (tw_sync w))\<rparr>\<rparr> else w)"

text \<open>Code that stops at the first call that raises.\<close>

definition then_do :: "bool \<times> task_world \<Rightarrow> (task_world \<Rightarrow> guarded \<times> task_world) \<Rightarrow> guarded \<times> task_world" where
  "then_do r k = (case r of (True, w) \<Rightarrow> k w | (False, w) \<Rightarrow> (Crashed, w))"

section \<open>The branches of the handler\<close>

definition expired_task :: "handler_io \<Rightarrow> sync_task \<Rightarrow> bool \<Rightarrow> task_world \<Rightarrow> guarded \<times> task_world" where
  "expired_task io t fenced w =
     then_do (free_task_slot io t (delete_staged_blobs t w)) (\<lambda>w1.
     then_do (release_task_claim io t fenced w1) (\<lambda>w2.
     (Answer 200 ''dropped'' True, drop_epoch io t fenced w2)))"

definition finished_task :: "handler_io \<Rightarrow> sync_task \<Rightarrow> bool \<Rightarrow> jdict \<Rightarrow> task_world \<Rightarrow> guarded \<times> task_world" where
  "finished_task io t fenced job w =
     then_do (free_task_slot io t (delete_staged_blobs t w)) (\<lambda>w1.
     then_do (if status_in job {''failed'', ''partial_failure''} then release_task_claim io t fenced w1 else (True, w1)) (\<lambda>w2.
     (Answer 200 ''acked'' True, drop_epoch io t fenced w2)))"

definition clean_up :: "handler_io \<Rightarrow> sync_task \<Rightarrow> string \<Rightarrow> task_world \<Rightarrow> guarded \<times> task_world" where
  "clean_up io t word w =
     then_do (free_task_slot io t (delete_staged_blobs t w)) (\<lambda>w1. (Answer 200 word True, w1))"

text \<open>Publishing a failure, then \<open>k\<close>; a refused publication is the loss of the lease.\<close>

definition publish_failure ::
    "handler_io \<Rightarrow> sync_task \<Rightarrow> string option \<Rightarrow> string \<Rightarrow> (task_world \<Rightarrow> guarded \<times> task_world) \<Rightarrow> task_world \<Rightarrow>
     guarded \<times> task_world" where
  "publish_failure io t run_token code k w =
     (case on_sync (finalize_sync_job_failure (hi_run io) (tk_job t) (tk_uid t) (tk_content t) code JNull JNull run_token) w of
        (Inl _, w1) \<Rightarrow> (Lease_Gone, w1)
      | (Inr _, w1) \<Rightarrow> k w1)"

definition superseded_task :: "handler_io \<Rightarrow> sync_task \<Rightarrow> bool \<Rightarrow> string option \<Rightarrow> jdict \<Rightarrow> task_world \<Rightarrow> guarded \<times> task_world" where
  "superseded_task io t fenced run_token job w =
     (let (latest, w1) = apfst (\<lambda>j. case j of None \<Rightarrow> job | Some l \<Rightarrow> l) (read_job io 2 (tk_job t) w);
          word = (\<lambda>k. case json_or (dict_get latest k) (JStr ''unknown'') of JStr s \<Rightarrow> s | _ \<Rightarrow> ''unknown'')
      in case on_sync (on_redis (finalize_sync_job_superseded (hi_run io) (tk_job t) run_token (tk_lane t)
                (word ''stt_provider'') (word ''stt_model''))) w1 of
           (Inl _, w2) \<Rightarrow> (Lease_Gone, w2)
         | (Inr _, w2) \<Rightarrow>
             then_do (free_task_slot io t w2) (\<lambda>w3.
             then_do (release_task_claim io t fenced w3) (\<lambda>w4.
             (Answer 200 ''superseded'' True, delete_staged_blobs t w4))))"

text \<open>The loss of the lease: a job that is terminal by now is cleaned up by the next delivery; otherwise
  the lock is left to whoever holds it.\<close>

definition lease_lost :: "handler_io \<Rightarrow> nat \<Rightarrow> sync_task \<Rightarrow> task_world \<Rightarrow> guarded \<times> task_world" where
  "lease_lost io i t w =
     (case read_job io i (tk_job t) w of
        (Some latest, w1) \<Rightarrow>
          if status_in latest TERMINAL_STATUSES then (Answer 500 ''terminal_cleanup_retry'' True, w1)
          else (Answer 409 ''locked'' False, w1)
      | (None, w1) \<Rightarrow> (Answer 409 ''locked'' False, w1))"

definition retry_task ::
    "handler_io \<Rightarrow> sync_task \<Rightarrow> bool \<Rightarrow> string \<Rightarrow> string \<Rightarrow> jdict \<Rightarrow> task_world \<Rightarrow> guarded \<times> task_world" where
  "retry_task io t fenced token code job w =
     (if fenced then
        (case on_sync (on_redis (fenced_mark_job_queued_for_retry (io_between (hi_run io)) (tk_job t) token
                (tk_retry_count t + 1) code (io_now (hi_run io)))) w of
           (m, w1) \<Rightarrow>
             if fm_outcome m = APPLIED then (Answer 500 ''retry'' True, w1)
             else let (latest, w2) = apfst (\<lambda>j. case j of None \<Rightarrow> job | Some l \<Rightarrow> l) (read_job io 3 (tk_job t) w1)
                  in if status_in latest TERMINAL_STATUSES then (Answer 500 ''terminal_cleanup_retry'' True, w2)
                     else (Answer 409 ''locked'' False, w2))
      else
        (Answer 500 ''retry'' True,
         snd (on_sync (on_redis (mark_job_queued_for_retry (io_between (hi_run io)) (tk_job t)
                (tk_retry_count t + 1) code (io_now (hi_run io)))) w)))"

definition failed_task ::
    "handler_io \<Rightarrow> sync_task \<Rightarrow> bool \<Rightarrow> string \<Rightarrow> bool \<Rightarrow> string \<Rightarrow> jdict \<Rightarrow> task_world \<Rightarrow> guarded \<times> task_world" where
  "failed_task io t fenced token retryable code job w =
     (let (latest, w1) = apfst (\<lambda>j. case j of None \<Rightarrow> job | Some l \<Rightarrow> l) (read_job io 2 (tk_job t) w);
          last_delivery = (tk_retry_count t \<ge> hi_max_attempts io - 1);
          run_token = (if fenced then Some token else None);
          finish = (\<lambda>w. if \<not> retryable \<or> last_delivery
                        then publish_failure io t run_token code (clean_up io t ''failed_final'') w
                        else retry_task io t fenced token code job w)
      in if status_in latest TERMINAL_STATUSES then (Answer 500 ''terminal_cleanup_retry'' True, w1)
         else if fenced \<and> last_delivery then
           (case on_sync (bind_or_converge_sync_ledger_completion (hi_run io) (tk_job t) (tk_uid t) (tk_content t) (Some token)) w1 of
              (Inl _, w2) \<Rightarrow> (Answer 409 ''locked'' False, w2)
            | (Inr (Some _), w2) \<Rightarrow> clean_up io t ''done'' w2
            | (Inr None, w2) \<Rightarrow> finish w2)
         else finish w1)"

definition pipeline_task ::
    "handler_io \<Rightarrow> sync_task \<Rightarrow> bool \<Rightarrow> string \<Rightarrow> jdict \<Rightarrow> task_world \<Rightarrow> guarded \<times> task_world" where
  "pipeline_task io t fenced token job w =
     (let run_token = (if fenced then Some token else None) in
      case hi_pipeline io run_token w of
        (Returned, w1) \<Rightarrow> clean_up io t ''done'' w1
      | (Persistence_Fenced, w1) \<Rightarrow> superseded_task io t fenced run_token job w1
      | (Run_Lease_Lost, w1) \<Rightarrow> lease_lost io 2 t w1
      | (Pipeline_Failed retryable code, w1) \<Rightarrow> failed_task io t fenced token retryable code job w1
      | (Pipeline_Cancelled, w1) \<Rightarrow> (Cancelled_Run, w1))"

text \<open>The guarded block, entered with the lock held.\<close>

definition guarded_run :: "handler_io \<Rightarrow> sync_task \<Rightarrow> bool \<Rightarrow> string \<Rightarrow> task_world \<Rightarrow> guarded \<times> task_world" where
  "guarded_run io t fenced0 token w =
     (case read_job io 1 (tk_job t) w of
        (None, w1) \<Rightarrow> expired_task io t fenced0 w1
      | (Some job, w1) \<Rightarrow>
          let fenced = sync_job_uses_ledger_fence job;
              run_token = (if fenced then Some token else None);
              go = (\<lambda>w2.
                if hi_skip_account io then
                  publish_failure io t run_token ''account_cutover'' (\<lambda>w3.
                    then_do (free_task_slot io t (delete_staged_blobs t w3)) (\<lambda>w4.
                    then_do (release_task_claim io t fenced w4) (\<lambda>w5. (Answer 200 ''skipped'' True, w5)))) w2
                else if \<not> hi_downloaded io then
                  publish_failure io t run_token ''sync_staged_audio_expired'' (clean_up io t ''dropped'') w2
                else pipeline_task io t fenced token job w2)
          in if fenced \<and> get_sync_ledger_fence_mode (hi_env io) \<noteq> ACTIVE then (Answer 503 ''fence_mode_mismatch'' True, w1)
             else if map_of job ''status'' = None then (Crashed, w1)
             else if status_in job TERMINAL_STATUSES then finished_task io t fenced job w1
             else if fenced then
               (case on_sync (bind_or_converge_sync_ledger_completion (hi_run io) (tk_job t) (tk_uid t) (tk_content t)
                       (Some token)) w1 of
                  (Inl _, w2) \<Rightarrow> (Lease_Gone, w2)
                | (Inr (Some _), w2) \<Rightarrow> clean_up io t ''done'' w2
                | (Inr None, w2) \<Rightarrow> go w2)
             else go w1)"

text \<open>The handlers around the block, and the release of the lock.\<close>

definition unlock_run :: "sync_task \<Rightarrow> string \<Rightarrow> task_world \<Rightarrow> task_world" where
  "unlock_run t token w =
     w\<lparr>tw_sync := (tw_sync w)\<lparr>sw_redis := release_job_run_lock False (tk_job t) token (sw_redis (tw_sync w))\<rparr>\<rparr>"

fun answer_run :: "sync_task \<Rightarrow> string \<Rightarrow> guarded \<Rightarrow> task_world \<Rightarrow> task_reply \<times> task_world" where
  "answer_run t token (Answer code word release_lock) w = (Reply code word, if release_lock then unlock_run t token w else w)"
| "answer_run t token Cancelled_Run w = (Cancelled, w)"
| "answer_run t token _ w = (Unhandled, unlock_run t token w)"

definition settle_run :: "handler_io \<Rightarrow> sync_task \<Rightarrow> string \<Rightarrow> guarded \<times> task_world \<Rightarrow> task_reply \<times> task_world" where
  "settle_run io t token r =
     (let (g, w) = (case r of (Lease_Gone, w) \<Rightarrow> lease_lost io 4 t w | _ \<Rightarrow> r) in answer_run t token g w)"

text \<open>A task whose payload cannot be read (\<open>None\<close>) is dropped; in standby nothing starts.\<close>

definition run_sync_job :: "handler_io \<Rightarrow> sync_task option \<Rightarrow> task_world \<Rightarrow> task_reply \<times> task_world" where
  "run_sync_job io payload w =
     (if get_sync_ledger_fence_mode (hi_env io) = STANDBY then (Reply 503 ''cutover_standby'', w)
      else case payload of
        None \<Rightarrow> (Reply 200 ''dropped'', w)
      | Some t \<Rightarrow>
          (case read_job io 0 (tk_job t) w of
             (initial, w0) \<Rightarrow>
               let fenced = (case initial of None \<Rightarrow> tk_fence t | Some job \<Rightarrow> sync_job_uses_ledger_fence job)
               in if fenced \<and> get_sync_ledger_fence_mode (hi_env io) \<noteq> ACTIVE then (Reply 503 ''fence_mode_mismatch'', w0)
                  else
                    (case on_sync (on_redis (acquire_stale_lock fenced (tk_job t) (hi_uuid io))) w0 of
                       (Inl _, w1) \<Rightarrow> (Unhandled, w1)
                     | (Inr None, w1) \<Rightarrow> (Reply 409 ''locked'', w1)
                     | (Inr (Some token), w1) \<Rightarrow>
                         if token = '''' then (Reply 409 ''locked'', w1)
                         else settle_run io t token (guarded_run io t fenced token w1))))"

section \<open>When a job is over\<close>

text \<open>No delivery can run the job any more: it is gone, unreadable or terminal.\<close>

definition job_over :: "string \<Rightarrow> task_world \<Rightarrow> bool" where
  "job_over jid w =
     (case stored_job (sw_redis (tw_sync w)) jid of
        None \<Rightarrow> True
      | Some r \<Rightarrow> (case load_object r of None \<Rightarrow> True | Some job \<Rightarrow> job = [] \<or> status_in job TERMINAL_STATUSES))"

definition published :: "string \<Rightarrow> redis \<Rightarrow> bool" where
  "published jid st = (case stored_job st jid of None \<Rightarrow> False | Some r \<Rightarrow> terminal_text r)"

definition terminal_updates :: "jdict \<Rightarrow> bool" where
  "terminal_updates u \<longleftrightarrow> distinct (map fst u) \<and> ''updated_at'' \<notin> fst ` set u \<and>
     (\<exists>s \<in> TERMINAL_STATUSES. map_of u ''status'' = Some (JStr s))"

lemma failure_updates_terminal: "terminal_updates (failure_updates code reason retry_after now)"
  by (simp add: terminal_updates_def failure_updates_def TERMINAL_STATUSES_def)

lemma finalization_updates_terminal: "sync_job_finalization_updates result now = Some u \<Longrightarrow> terminal_updates u"
  by (auto simp: sync_job_finalization_updates_def terminal_updates_def finalization_status_of_def TERMINAL_STATUSES_def
      Let_def split: json.splits option.splits if_splits)

lemma published_set: "terminal_updates u \<Longrightarrow> published jid (set_raw_job jid (Json_Text c (JObj (dict_update job (stamped u now)))) st)"
  by (auto simp: published_def set_raw_job_def terminal_text_def status_in_def terminal_updates_def dict_get_stamped)

lemma fenced_update_publishes:
  assumes "fm_outcome (fst (fenced_update_sync_job between jid token u allowed now st)) = APPLIED" "terminal_updates u"
  shows "published jid (snd (fenced_update_sync_job between jid token u allowed now st))"
  using fenced_update_cases [of between jid token u allowed now st] assms published_set by (auto simp: fenced_write_def)

lemma legacy_loop_publishes:
  assumes "terminal_updates u"
  shows "fst (legacy_loop n between jid r job (stamped u now) st) = Some job' \<Longrightarrow>
    published jid (snd (legacy_loop n between jid r job (stamped u now) st))"
proof (induction n arbitrary: r job st)
  case (Suc n)
  define out where "out = legacy_job_mutation_script jid r (dumps_compact (dict_update job (stamped u now))) (between n st)"
  have "fm_outcome (decode_mutation (fst out)) = APPLIED \<Longrightarrow> published jid (snd out)"
    using published_set [OF assms] by (auto simp: out_def cas_defs split: option.splits if_splits)
  then show ?case
    using Suc by (auto simp: case_prod_beta Let_def simp flip: out_def split: if_splits option.splits)
qed simp

lemma update_publishes:
  "fst (update_sync_job between jid u now st) = Some job \<Longrightarrow> terminal_updates u \<Longrightarrow>
     published jid (snd (update_sync_job between jid u now st))"
  using legacy_loop_publishes by (auto simp: update_sync_job_def split: option.splits)

lemma finalize_for_run_publishes:
  assumes "fst (finalize_sync_job_for_run io jid token result st) = Inr x"
  shows "published jid (snd (finalize_sync_job_for_run io jid token result st))"
proof (cases "sync_job_finalization_updates result (io_now io)")
  case None
  then show ?thesis
    using assms by (auto simp: finalize_sync_job_for_run_def finalize_sync_job_def fenced_finalize_sync_job_def
        fenced_finalize_with_def split: option.splits)
next
  case (Some u)
  then show ?thesis
    using assms fenced_update_publishes [OF _ finalization_updates_terminal [OF Some]]
      update_publishes [OF _ finalization_updates_terminal [OF Some]]
    by (auto simp: finalize_sync_job_for_run_def finalize_sync_job_def fenced_finalize_sync_job_def
        fenced_finalize_with_def require_run_owner_def require_updated_def split: option.splits if_splits dest: sym)
qed

lemma published_over: "published jid (sw_redis (tw_sync w)) \<Longrightarrow> job_over jid w"
  by (auto simp: published_def job_over_def terminal_text_def split: option.splits)

lemma over_cong: "stored_job (sw_redis (tw_sync w')) jid = stored_job (sw_redis (tw_sync w)) jid \<Longrightarrow> job_over jid w' = job_over jid w"
  by (simp add: job_over_def)

lemma published_kept_over:
  assumes "published jid st" "stays_over jid st (sw_redis (tw_sync w))"
  shows "job_over jid w"
proof -
  obtain r where r: "stored_job st jid = Some r" "terminal_text r"
    using assms(1) by (auto simp: published_def split: option.splits)
  then have "stored_job (sw_redis (tw_sync w)) jid = None \<or> (\<exists>r'. stored_job (sw_redis (tw_sync w)) jid = Some r' \<and> terminal_text r')"
    using assms(2) stale_failure_terminal by (auto simp: stays_over_def)
  then show ?thesis by (auto simp: job_over_def terminal_text_def split: option.splits)
qed

lemma epoch_drop_stored [simp]: "stored_job (delete_sync_job_run_lock_epoch raises jid st) j = stored_job st j"
  by (simp add: delete_sync_job_run_lock_epoch_def)

lemma unlock_stored [simp]: "stored_job (release_job_run_lock raises jid token st) j = stored_job st j"
  by (simp add: release_job_run_lock_def)

lemma published_cong: "stored_job st' jid = stored_job st jid \<Longrightarrow> published jid st' = published jid st"
  by (simp add: published_def)

lemma converged_publishes:
  assumes "bind_or_converge_sync_ledger_completion io jid uid cid token w = (Inr (Some job), w')"
  shows "published jid (sw_redis w')"
proof -
  obtain st t u c where "stored_job (sw_redis w') jid = stored_job (snd (fenced_update_sync_job (io_between io) jid t u c (io_now io) st)) jid"
    "fm_outcome (fst (fenced_update_sync_job (io_between io) jid t u c (io_now io) st)) = APPLIED" "terminal_updates u"
    using assms finalization_updates_terminal
    by (fastforce simp: bind_or_converge_sync_ledger_completion_def on_redis_def on_ledger_def require_run_owner_def
        fenced_finalize_sync_job_from_durable_ledger_def fenced_finalize_with_def case_prod_beta Let_def
        split: option.splits run_binding.splits json.splits if_splits sum.splits)
  then show ?thesis using fenced_update_publishes published_cong by metis
qed

lemma superseded_publishes:
  "finalize_sync_job_superseded io jid token lane provider model st = (Inr x, st') \<Longrightarrow> published jid st'"
  using finalize_for_run_publishes [of io jid token "superseded_result lane provider model" st]
  by (auto simp: finalize_sync_job_superseded_def split: prod.splits sum.splits option.splits)

lemma failure_publishes:
  assumes "finalize_sync_job_failure io jid uid cid code reason retry_after token w = (Inr x, w')"
    and "\<And>w. sync_run True jid (sw_redis w) (sw_redis (io_pause io w))"
  shows "\<exists>st. published jid st \<and> stays_over jid st (sw_redis w')"
proof -
  define u where "u = failure_updates code (json_or reason (JStr code)) retry_after (io_now io)"
  define out where "out = (case token of
      None \<Rightarrow> on_redis (update_sync_job (io_between io) jid u (io_now io)) w
    | Some t \<Rightarrow> on_redis (apfst (\<lambda>m. if fm_outcome m = APPLIED then fm_job m else None) \<circ>
        fenced_update_sync_job (io_between io) jid t u (Some {''queued'', ''processing''}) (io_now io)) w)"
  have pub: "published jid (sw_redis (snd out))" if "fst out = Some job" for job
  proof (cases token)
    case None
    then show ?thesis
      using that update_publishes [of "io_between io" jid u "io_now io" "sw_redis w"] failure_updates_terminal
      by (simp add: out_def on_redis_def case_prod_beta u_def)
  next
    case (Some t)
    then show ?thesis
      using that fenced_update_publishes [of "io_between io" jid t u _ "io_now io" "sw_redis w"] failure_updates_terminal
      by (simp add: out_def on_redis_def case_prod_beta u_def split: if_splits)
  qed
  have "fst out \<noteq> None \<and> (stored_job (sw_redis w') jid = stored_job (sw_redis (snd out)) jid \<or>
      stored_job (sw_redis w') jid = stored_job (sw_redis (io_pause io (snd out))) jid)"
    using assms(1)
    by (auto simp: finalize_sync_job_failure_def finalize_sync_job_failure_now_def mark_job_failed_for_run_def
        mark_job_failed_def fenced_mark_job_failed_def require_run_owner_def on_redis_def on_ledger_def out_def u_def
        case_prod_beta Let_def split: option.splits if_splits sum.splits)
  then show ?thesis
    using pub stays_over_same stays_over_trans [OF sync_run_stays_over [OF assms(2) [of "snd out"]] stays_over_same] by blast
qed

section \<open>What an answer promises\<close>

text \<open>Of an end reached from \<open>w0\<close>: staged audio is only deleted for a job that is over, a task is only
  consumed for such a job, and an answer that retains the task, like the loss of the lease, has
  kept all audio.\<close>

definition sound_end :: "string \<Rightarrow> string set \<Rightarrow> guarded \<times> task_world \<Rightarrow> bool" where
  "sound_end jid blobs r =
     (case r of (g, w) \<Rightarrow>
        (tw_blobs w \<noteq> blobs \<longrightarrow> job_over jid w) \<and>
        (case g of
           Answer code _ _ \<Rightarrow> if code = 200 then job_over jid w else tw_blobs w = blobs
         | Lease_Gone \<Rightarrow> tw_blobs w = blobs
         | _ \<Rightarrow> True))"

lemma on_sync_blobs [simp]: "tw_blobs (snd (on_sync f w)) = tw_blobs w"
  by (simp add: on_sync_def case_prod_beta Let_def)

lemma read_job_blobs: "read_job io i jid w = (j, w') \<Longrightarrow> tw_blobs w' = tw_blobs w"
  by (auto simp: read_job_def on_sync_def case_prod_beta Let_def split: option.splits list.splits)

lemma no_status_not_stale [simp]: "\<not> is_sync_job_stale [] now"
  by (simp add: is_sync_job_stale_def stale_threshold_def)

lemma get_sync_job_unreadable:
  "stored_job st jid = Some r \<Longrightarrow> load_object r = None \<Longrightarrow> get_sync_job between jid now st \<in> {(None, st), (Some [], st)}"
  by (auto simp: get_sync_job_def load_object_def Let_def split: option.splits json.splits)

lemma get_sync_job_fresh:
  "stored_job st jid = Some r \<Longrightarrow> load_object r = Some job \<Longrightarrow> \<not> is_sync_job_stale job now \<Longrightarrow>
     get_sync_job between jid now st = (Some job, st)"
  by (cases r) (auto simp: get_sync_job_def load_object_def split: json.splits)

lemma get_sync_job_reads:
  "fst (get_sync_job (\<lambda>st. st) jid now st) = (case stored_job (snd (get_sync_job (\<lambda>st. st) jid now st)) jid of
     None \<Rightarrow> None | Some r \<Rightarrow> load_object r) \<or>
   fst (get_sync_job (\<lambda>st. st) jid now st) = Some [] \<and>
     (case stored_job (snd (get_sync_job (\<lambda>st. st) jid now st)) jid of None \<Rightarrow> False | Some r \<Rightarrow> load_object r = None)"
proof (cases "stored_job st jid")
  case None
  then have "get_sync_job (\<lambda>st. st) jid now st = (None, st)" by (simp add: get_sync_job_def)
  then show ?thesis using None by simp
next
  case (Some r)
  show ?thesis
  proof (cases "load_object r")
    case None
    then show ?thesis using get_sync_job_unreadable [OF Some None, of "\<lambda>st. st" now] Some by auto
  next
    case job: (Some job)
    then show ?thesis
      using get_sync_job_fresh [OF Some job] get_sync_job_stale [OF Some job] Some
      by (cases "is_sync_job_stale job now") (auto simp: set_raw_job_def)
  qed
qed

lemma read_job_over:
  assumes "read_job io i jid w = (j, w')" "case j of None \<Rightarrow> True | Some job \<Rightarrow> status_in job TERMINAL_STATUSES"
  shows "job_over jid w'"
proof -
  define out where "out = get_sync_job (\<lambda>st. st) jid (hi_clock io i) (sw_redis (tw_sync w))"
  have parts: "sw_redis (tw_sync w') = snd out" "j = (case fst out of Some [] \<Rightarrow> None | x \<Rightarrow> x)"
    using assms(1) by (auto simp: read_job_def on_sync_def on_redis_def out_def case_prod_beta Let_def
        split: option.splits list.splits)
  have "fst out = (case stored_job (snd out) jid of None \<Rightarrow> None | Some r \<Rightarrow> load_object r) \<or>
      fst out = Some [] \<and> (case stored_job (snd out) jid of None \<Rightarrow> False | Some r \<Rightarrow> load_object r = None)"
    unfolding out_def by (rule get_sync_job_reads)
  then show ?thesis
    using assms(2) unfolding parts(2) job_over_def parts(1)
    by (auto split: option.splits list.splits)
qed

lemma cleanup_over [simp]:
  "job_over jid (delete_staged_blobs t w) = job_over jid w"
  "job_over jid (snd (free_task_slot io t w)) = job_over jid w"
  "job_over jid (snd (release_task_claim io t fenced w)) = job_over jid w"
  "job_over jid (drop_epoch io t fenced w) = job_over jid w"
  by (auto simp: delete_staged_blobs_def free_task_slot_def release_task_claim_def drop_epoch_def on_sync_def on_ledger_def
      case_prod_beta Let_def intro!: over_cong split: option.splits)

lemma sound_then_do:
  "job_over jid (snd r) \<Longrightarrow> (\<And>w. job_over jid w \<Longrightarrow> sound_end jid blobs (k w)) \<Longrightarrow> sound_end jid blobs (then_do r k)"
  by (cases r) (auto simp: then_do_def sound_end_def split: bool.split)

lemma sound_answer: "job_over jid w \<Longrightarrow> sound_end jid blobs (Answer 200 word b, w)"
  by (simp add: sound_end_def)

lemma sound_retained: "code \<noteq> 200 \<Longrightarrow> tw_blobs w = blobs \<Longrightarrow> sound_end jid blobs (Answer code word b, w)"
  by (simp add: sound_end_def)

lemma sound_expired: "job_over jid w \<Longrightarrow> sound_end jid blobs (expired_task io t fenced w)"
  unfolding expired_task_def by (intro sound_then_do sound_answer) simp_all

lemma sound_finished: "job_over jid w \<Longrightarrow> sound_end jid blobs (finished_task io t fenced job w)"
  unfolding finished_task_def by (intro sound_then_do sound_answer) simp_all

lemma sound_clean_up: "job_over jid w \<Longrightarrow> sound_end jid blobs (clean_up io t word w)"
  unfolding clean_up_def by (intro sound_then_do sound_answer) simp_all

lemma sound_publish_failure:
  assumes "tw_blobs w = blobs" "\<And>w. sync_run True (tk_job t) (sw_redis w) (sw_redis (io_pause (hi_run io) w))"
    and "\<And>w. job_over (tk_job t) w \<Longrightarrow> sound_end (tk_job t) blobs (k w)"
  shows "sound_end (tk_job t) blobs (publish_failure io t token code k w)"
proof -
  obtain r s where f: "finalize_sync_job_failure (hi_run io) (tk_job t) (tk_uid t) (tk_content t) code JNull JNull token
      (tw_sync w) = (r, s)" by (cases rule: prod.exhaust)
  then have "job_over (tk_job t) (w\<lparr>tw_sync := s\<rparr>)" if "r = Inr x" for x
    using failure_publishes [OF _ assms(2)] that published_kept_over by fastforce
  then show ?thesis
    using f assms(1,3) by (cases r) (auto simp: publish_failure_def on_sync_def sound_end_def)
qed

lemma sound_lease_lost: "tw_blobs w = blobs \<Longrightarrow> sound_end jid blobs (lease_lost io i t w)"
  using read_job_blobs [of io i "tk_job t" w]
  by (auto simp: lease_lost_def sound_end_def split: prod.split option.split)

lemma sound_superseded:
  assumes "tw_blobs w = blobs"
  shows "sound_end (tk_job t) blobs (superseded_task io t fenced token job w)"
proof -
  obtain j w1 where r: "read_job io 2 (tk_job t) w = (j, w1)" by (cases rule: prod.exhaust)
  define latest where "latest = (case j of None \<Rightarrow> job | Some l \<Rightarrow> l)"
  define word where "word k = (case json_or (dict_get latest k) (JStr ''unknown'') of JStr s \<Rightarrow> s | _ \<Rightarrow> ''unknown'')" for k
  obtain x st where f: "finalize_sync_job_superseded (hi_run io) (tk_job t) token (tk_lane t) (word ''stt_provider'')
      (word ''stt_model'') (sw_redis (tw_sync w1)) = (x, st)" by (cases rule: prod.exhaust)
  define w2 where "w2 = w1\<lparr>tw_sync := (tw_sync w1)\<lparr>sw_redis := st\<rparr>\<rparr>"
  have blobs: "tw_blobs w2 = blobs" using read_job_blobs [OF r] assms by (simp add: w2_def)
  have over: "job_over (tk_job t) w2" if "x = Inr y" for y
    using superseded_publishes f that by (intro published_over) (simp add: w2_def)
  have "superseded_task io t fenced token job w =
      (case x of Inl _ \<Rightarrow> (Lease_Gone, w2)
       | Inr _ \<Rightarrow> then_do (free_task_slot io t w2) (\<lambda>w3. then_do (release_task_claim io t fenced w3) (\<lambda>w4.
           (Answer 200 ''superseded'' True, delete_staged_blobs t w4))))"
    using r f by (cases x) (simp_all add: superseded_task_def on_sync_def on_redis_def w2_def latest_def word_def)
  moreover have "sound_end (tk_job t) blobs (then_do (free_task_slot io t w2) (\<lambda>w3. then_do (release_task_claim io t fenced w3)
      (\<lambda>w4. (Answer 200 ''superseded'' True, delete_staged_blobs t w4))))" if "x = Inr y" for y
    using over [OF that] by (intro sound_then_do sound_answer) simp_all
  ultimately show ?thesis using blobs by (cases x) (simp_all add: sound_end_def)
qed

lemma sound_retry: "tw_blobs w = blobs \<Longrightarrow> sound_end jid blobs (retry_task io t fenced token code job w)"
  by (auto simp: retry_task_def case_prod_beta Let_def intro!: sound_retained
      simp: read_job_blobs [OF prod.collapse [symmetric]])

lemma sound_converge:
  assumes "tw_blobs w = blobs"
    and "on_sync (bind_or_converge_sync_ledger_completion (hi_run io) (tk_job t) uid cid token) w = (Inr (Some job), w')"
  shows "sound_end (tk_job t) blobs (clean_up io t word w')"
  using assms converged_publishes [of "hi_run io" "tk_job t" uid cid token "tw_sync w" job "tw_sync w'"]
  by (intro sound_clean_up published_over) (auto simp: on_sync_def case_prod_beta Let_def prod_eq_iff)

lemma sound_failed:
  assumes "tw_blobs w = blobs" "\<And>w. sync_run True (tk_job t) (sw_redis w) (sw_redis (io_pause (hi_run io) w))"
  shows "sound_end (tk_job t) blobs (failed_task io t fenced token retryable code job w)"
proof -
  obtain j w1 where r: "read_job io 2 (tk_job t) w = (j, w1)" by (cases rule: prod.exhaust)
  then have w1: "tw_blobs w1 = blobs" using read_job_blobs assms(1) by simp
  define conv where "conv = on_sync (bind_or_converge_sync_ledger_completion (hi_run io) (tk_job t) (tk_uid t) (tk_content t)
      (Some token)) w1"
  have conv: "tw_blobs (snd conv) = blobs" using w1 by (simp add: conv_def)
  define finish where "finish w = (if \<not> retryable \<or> tk_retry_count t \<ge> hi_max_attempts io - 1
      then publish_failure io t (if fenced then Some token else None) code (clean_up io t ''failed_final'') w
      else retry_task io t fenced token code job w)" for w
  have finish: "sound_end (tk_job t) blobs (finish w')" if "tw_blobs w' = blobs" for w'
    using sound_publish_failure [OF that assms(2) sound_clean_up] sound_retry [OF that] by (simp add: finish_def)
  have settled: "sound_end (tk_job t) blobs (clean_up io t ''done'' (snd conv))" if "fst conv = Inr (Some x)" for x
    using sound_converge [OF w1] that unfolding conv_def by (metis prod.collapse)
  have "failed_task io t fenced token retryable code job w =
    (if status_in (case j of None \<Rightarrow> job | Some l \<Rightarrow> l) TERMINAL_STATUSES then (Answer 500 ''terminal_cleanup_retry'' True, w1)
     else if fenced \<and> tk_retry_count t \<ge> hi_max_attempts io - 1 then
       (case fst conv of Inl _ \<Rightarrow> (Answer 409 ''locked'' False, snd conv)
        | Inr (Some _) \<Rightarrow> clean_up io t ''done'' (snd conv) | Inr None \<Rightarrow> finish (snd conv))
     else finish w1)"
    using r by (simp add: failed_task_def Let_def finish_def [abs_def] conv_def case_prod_beta split: sum.split option.split)
  then show ?thesis
    using finish [OF w1] finish [OF conv] settled sound_retained w1 conv by (auto split: sum.split option.split)
qed

text \<open>What the handler relies on: a pipeline that never deletes staged audio and returns only once the
  job is over. What other clients do between publishing a failure and releasing its claim is an
  execution of the job store, stale reads included.\<close>

definition sound_pipeline_of :: "handler_io \<Rightarrow> string \<Rightarrow> bool" where
  "sound_pipeline_of io jid \<longleftrightarrow>
     (\<forall>token w. tw_blobs (snd (hi_pipeline io token w)) = tw_blobs w \<and>
        (fst (hi_pipeline io token w) = Returned \<longrightarrow> job_over jid (snd (hi_pipeline io token w))))"

definition others_run :: "run_io \<Rightarrow> string \<Rightarrow> bool" where
  "others_run io jid \<longleftrightarrow> (\<forall>w. sync_run True jid (sw_redis w) (sw_redis (io_pause io w)))"

lemma sound_pipeline:
  assumes "sound_pipeline_of io (tk_job t)" "others_run (hi_run io) (tk_job t)" "tw_blobs w = blobs"
  shows "sound_end (tk_job t) blobs (pipeline_task io t fenced token job w)"
proof -
  define out where "out = hi_pipeline io (if fenced then Some token else None) w"
  have out: "tw_blobs (snd out) = blobs" "fst out = Returned \<Longrightarrow> job_over (tk_job t) (snd out)"
    "\<And>w. sync_run True (tk_job t) (sw_redis w) (sw_redis (io_pause (hi_run io) w))"
    using assms by (simp_all add: sound_pipeline_of_def others_run_def out_def)
  have "pipeline_task io t fenced token job w =
      (case fst out of Returned \<Rightarrow> clean_up io t ''done'' (snd out)
       | Persistence_Fenced \<Rightarrow> superseded_task io t fenced (if fenced then Some token else None) job (snd out)
       | Run_Lease_Lost \<Rightarrow> lease_lost io 2 t (snd out)
       | Pipeline_Failed retryable code \<Rightarrow> failed_task io t fenced token retryable code job (snd out)
       | Pipeline_Cancelled \<Rightarrow> (Cancelled_Run, snd out))"
    by (simp add: pipeline_task_def out_def case_prod_beta Let_def split: pipeline_end.split)
  then show ?thesis
    using sound_clean_up [OF out(2)] sound_superseded [OF out(1)] sound_lease_lost [OF out(1)] sound_failed [OF out(1,3)] out(1)
    by (simp add: sound_end_def [of _ _ "(Cancelled_Run, _)"] split: pipeline_end.split)
qed

lemma sound_guarded:
  assumes contract: "sound_pipeline_of io (tk_job t)" "others_run (hi_run io) (tk_job t)" and "tw_blobs w = blobs"
  shows "sound_end (tk_job t) blobs (guarded_run io t fenced token w)"
proof -
  obtain j w1 where r: "read_job io 1 (tk_job t) w = (j, w1)" by (cases rule: prod.exhaust)
  have w1: "tw_blobs w1 = blobs" using read_job_blobs [OF r] assms(3) by simp
  show ?thesis
  proof (cases j)
    case None
    then show ?thesis using r sound_expired read_job_over [OF r] by (simp add: guarded_run_def)
  next
    case (Some job)
    define f where "f = sync_job_uses_ledger_fence job"
    define go where "go w2 =
      (if hi_skip_account io then
         publish_failure io t (if f then Some token else None) ''account_cutover'' (\<lambda>w3.
           then_do (free_task_slot io t (delete_staged_blobs t w3)) (\<lambda>w4.
           then_do (release_task_claim io t f w4) (\<lambda>w5. (Answer 200 ''skipped'' True, w5)))) w2
       else if \<not> hi_downloaded io then
         publish_failure io t (if f then Some token else None) ''sync_staged_audio_expired'' (clean_up io t ''dropped'') w2
       else pipeline_task io t f token job w2)" for w2
    have pause: "\<And>w. sync_run True (tk_job t) (sw_redis w) (sw_redis (io_pause (hi_run io) w))"
      using contract(2) by (simp add: others_run_def)
    have skipped: "sound_end (tk_job t) blobs (then_do (free_task_slot io t (delete_staged_blobs t w3)) (\<lambda>w4.
        then_do (release_task_claim io t f w4) (\<lambda>w5. (Answer 200 ''skipped'' True, w5))))" if "job_over (tk_job t) w3" for w3
      using that by (intro sound_then_do sound_answer) simp_all
    have go: "sound_end (tk_job t) blobs (go w2)" if "tw_blobs w2 = blobs" for w2
      using sound_publish_failure [OF that pause skipped] sound_publish_failure [OF that pause sound_clean_up]
        sound_pipeline [OF contract that] by (simp add: go_def)
    define conv where "conv = on_sync (bind_or_converge_sync_ledger_completion (hi_run io) (tk_job t) (tk_uid t)
        (tk_content t) (Some token)) w1"
    have conv: "tw_blobs (snd conv) = blobs" using w1 by (simp add: conv_def)
    have settled: "sound_end (tk_job t) blobs (clean_up io t ''done'' (snd conv))" if "fst conv = Inr (Some x)" for x
      using sound_converge [OF w1] that unfolding conv_def by (metis prod.collapse)
    have finished: "status_in job TERMINAL_STATUSES \<Longrightarrow> sound_end (tk_job t) blobs (finished_task io t f job w1)"
      using read_job_over [OF r] Some by (intro sound_finished) simp
    have "guarded_run io t fenced token w =
      (if f \<and> get_sync_ledger_fence_mode (hi_env io) \<noteq> ACTIVE then (Answer 503 ''fence_mode_mismatch'' True, w1)
       else if map_of job ''status'' = None then (Crashed, w1)
       else if status_in job TERMINAL_STATUSES then finished_task io t f job w1
       else if f then (case fst conv of Inl _ \<Rightarrow> (Lease_Gone, snd conv)
         | Inr (Some _) \<Rightarrow> clean_up io t ''done'' (snd conv) | Inr None \<Rightarrow> go (snd conv))
       else go w1)"
      using r Some by (simp add: guarded_run_def f_def go_def [abs_def] conv_def case_prod_beta Let_def
          del: not_None_eq split: sum.split option.split)
    then show ?thesis
      using go [OF w1] go [OF conv] settled finished sound_retained w1 conv
      by (simp add: sound_end_def [of _ _ "(Crashed, _)"] sound_end_def [of _ _ "(Lease_Gone, _)"]
          split: sum.split option.split)
  qed
qed

definition kept_by_reply :: "string \<Rightarrow> string set \<Rightarrow> task_reply \<times> task_world \<Rightarrow> bool" where
  "kept_by_reply jid blobs r =
     (case r of (reply, w) \<Rightarrow>
        (tw_blobs w \<noteq> blobs \<longrightarrow> job_over jid w) \<and>
        (case reply of Reply code _ \<Rightarrow> if code = 200 then job_over jid w else tw_blobs w = blobs | _ \<Rightarrow> True))"

lemma unlock_run_keeps [simp]:
  "job_over jid (unlock_run t token w) = job_over jid w" "tw_blobs (unlock_run t token w) = tw_blobs w"
  by (simp_all add: unlock_run_def job_over_def)

lemma kept_by_answer: "sound_end jid blobs (g, w) \<Longrightarrow> kept_by_reply jid blobs (answer_run t token g w)"
  by (cases g) (simp_all add: kept_by_reply_def sound_end_def)

lemma kept_by_settle:
  assumes "sound_end jid blobs r"
  shows "kept_by_reply jid blobs (settle_run io t token r)"
proof -
  obtain g w where r: "r = (g, w)" by (cases r)
  then have "sound_end jid blobs (case r of (Lease_Gone, w) \<Rightarrow> lease_lost io 4 t w | _ \<Rightarrow> r)"
    using assms sound_lease_lost [of w blobs jid io 4 t] by (cases g) (simp_all add: sound_end_def)
  then show ?thesis by (simp add: settle_run_def case_prod_beta Let_def kept_by_answer)
qed

text \<open>With such a pipeline a task is consumed only when its job is over, and the audio is kept until
  then.\<close>

lemma handler_keeps_open_jobs:
  assumes "sound_pipeline_of io (tk_job t)" "others_run (hi_run io) (tk_job t)" "run_sync_job io (Some t) w = (reply, w')"
  shows "(tw_blobs w' \<noteq> tw_blobs w \<longrightarrow> job_over (tk_job t) w') \<and>
    (case reply of Reply code _ \<Rightarrow> if code = 200 then job_over (tk_job t) w' else tw_blobs w' = tw_blobs w | _ \<Rightarrow> True)"
proof -
  obtain j w0 where r: "read_job io 0 (tk_job t) w = (j, w0)" by (cases rule: prod.exhaust)
  define fenced where "fenced = (case j of None \<Rightarrow> tk_fence t | Some job \<Rightarrow> sync_job_uses_ledger_fence job)"
  define lock where "lock = on_sync (on_redis (acquire_stale_lock fenced (tk_job t) (hi_uuid io))) w0"
  have blobs: "tw_blobs w0 = tw_blobs w" "tw_blobs (snd lock) = tw_blobs w"
    using read_job_blobs [OF r] by (simp_all add: lock_def)
  have run: "run_sync_job io (Some t) w =
    (if get_sync_ledger_fence_mode (hi_env io) = STANDBY then (Reply 503 ''cutover_standby'', w)
     else if fenced \<and> get_sync_ledger_fence_mode (hi_env io) \<noteq> ACTIVE then (Reply 503 ''fence_mode_mismatch'', w0)
     else (case fst lock of Inl _ \<Rightarrow> (Unhandled, snd lock) | Inr None \<Rightarrow> (Reply 409 ''locked'', snd lock)
       | Inr (Some token) \<Rightarrow> if token = '''' then (Reply 409 ''locked'', snd lock)
           else settle_run io t token (guarded_run io t fenced token (snd lock))))"
    using r by (simp add: run_sync_job_def fenced_def lock_def case_prod_beta Let_def split: sum.split option.split)
  have "kept_by_reply (tk_job t) (tw_blobs w) (run_sync_job io (Some t) w)"
    unfolding run using blobs kept_by_settle [OF sound_guarded [OF assms(1,2) blobs(2)]]
    by (auto simp: kept_by_reply_def [of _ _ "(_, w)"] kept_by_reply_def [of _ _ "(_, w0)"]
        kept_by_reply_def [of _ _ "(_, snd lock)"] split: sum.split option.split)
  then show ?thesis using assms(3) by (simp add: kept_by_reply_def)
qed

section \<open>A finished job is not run again\<close>

lemma terminal_not_stale: "status_in job TERMINAL_STATUSES \<Longrightarrow> \<not> is_sync_job_stale job now"
  by (auto simp: is_sync_job_stale_def stale_threshold_def status_in_def TERMINAL_STATUSES_def split: json.splits)

lemma read_terminal_job:
  assumes "stored_job (sw_redis (tw_sync w)) jid = Some r" "load_object r = Some job" "status_in job TERMINAL_STATUSES"
  shows "read_job io i jid w = (Some job, w)"
proof -
  have "job \<noteq> []" using assms(3) by (auto simp: status_in_def)
  then show ?thesis
    using get_sync_job_fresh [OF assms(1,2) terminal_not_stale [OF assms(3)]]
    by (cases job) (simp_all add: read_job_def on_sync_def on_redis_def)
qed

lemma acquire_stored [simp]: "stored_job (snd (acquire_stale_lock fenced jid uuid st)) j = stored_job st j"
  by (simp add: acquire_stale_lock_def try_acquire_sync_job_run_lock_def try_acquire_job_run_lock_def Let_def)

lemma cleanup_stored:
  "rd_job (sw_redis (tw_sync (delete_staged_blobs t w))) = rd_job (sw_redis (tw_sync w))"
  "rd_job (sw_redis (tw_sync (snd (free_task_slot io t w)))) = rd_job (sw_redis (tw_sync w))"
  "rd_job (sw_redis (tw_sync (snd (release_task_claim io t fenced w)))) = rd_job (sw_redis (tw_sync w))"
  "rd_job (sw_redis (tw_sync (drop_epoch io t fenced w))) = rd_job (sw_redis (tw_sync w))"
  by (simp_all add: delete_staged_blobs_def free_task_slot_def release_task_claim_def drop_epoch_def on_sync_def
      on_ledger_def delete_sync_job_run_lock_epoch_def case_prod_beta Let_def split: option.split)

lemma cleanup_pipeline:
  "free_task_slot (io\<lparr>hi_pipeline := p\<rparr>) = free_task_slot io"
  "release_task_claim (io\<lparr>hi_pipeline := p\<rparr>) = release_task_claim io"
  "drop_epoch (io\<lparr>hi_pipeline := p\<rparr>) = drop_epoch io"
  by (simp_all add: fun_eq_iff free_task_slot_def release_task_claim_def drop_epoch_def split: option.split)

lemma then_do_stored:
  "rd_job (sw_redis (tw_sync (snd r))) = m \<Longrightarrow>
     (\<And>w. rd_job (sw_redis (tw_sync w)) = m \<Longrightarrow> rd_job (sw_redis (tw_sync (snd (k w)))) = m) \<Longrightarrow>
     rd_job (sw_redis (tw_sync (snd (then_do r k)))) = m"
  by (cases r) (auto simp: then_do_def split: bool.split)

lemma finished_task_keeps:
  "rd_job (sw_redis (tw_sync (snd (finished_task io t fenced job w)))) = rd_job (sw_redis (tw_sync w))"
  "finished_task (io\<lparr>hi_pipeline := p\<rparr>) t fenced job w = finished_task io t fenced job w"
proof -
  show "rd_job (sw_redis (tw_sync (snd (finished_task io t fenced job w)))) = rd_job (sw_redis (tw_sync w))"
    unfolding finished_task_def by (intro then_do_stored) (simp_all add: cleanup_stored)
  show "finished_task (io\<lparr>hi_pipeline := p\<rparr>) t fenced job w = finished_task io t fenced job w"
    by (simp add: finished_task_def cleanup_pipeline cong: if_cong)
qed

lemma finished_task_answers: "fst (finished_task io t fenced job w) \<in> {Answer 200 ''acked'' True, Crashed}"
  by (simp add: finished_task_def then_do_def case_prod_beta split: bool.split)

text \<open>The whole handler on a terminal job.\<close>

lemma run_finished_job:
  fixes io t w
  assumes stored: "stored_job (sw_redis (tw_sync w)) (tk_job t) = Some r"
    and job: "load_object r = Some job" "status_in job TERMINAL_STATUSES"
  defines "f \<equiv> sync_job_uses_ledger_fence job" and "mode \<equiv> get_sync_ledger_fence_mode (hi_env io)"
  defines "lock \<equiv> on_sync (on_redis (acquire_stale_lock (sync_job_uses_ledger_fence job) (tk_job t) (hi_uuid io))) w"
  shows "run_sync_job io (Some t) w =
      (if mode = STANDBY then (Reply 503 ''cutover_standby'', w)
       else if f \<and> mode \<noteq> ACTIVE then (Reply 503 ''fence_mode_mismatch'', w)
       else (case fst lock of Inl _ \<Rightarrow> (Unhandled, snd lock) | Inr None \<Rightarrow> (Reply 409 ''locked'', snd lock)
         | Inr (Some token) \<Rightarrow> if token = '''' then (Reply 409 ''locked'', snd lock)
             else (case finished_task io t f job (snd lock) of (g, w2) \<Rightarrow> answer_run t token g w2)))"
    and "stored_job (sw_redis (tw_sync (snd lock))) (tk_job t) = Some r"
proof -
  show lock: "stored_job (sw_redis (tw_sync (snd lock))) (tk_job t) = Some r"
    using stored by (simp add: lock_def on_sync_def on_redis_def case_prod_beta Let_def)
  have "map_of job ''status'' \<noteq> None"
    using job(2) by (auto simp: status_in_def dict_get_def split: option.splits)
  then have guarded: "guarded_run io t f token (snd lock) =
      (if f \<and> mode \<noteq> ACTIVE then (Answer 503 ''fence_mode_mismatch'' True, snd lock) else finished_task io t f job (snd lock))"
    for token
    using read_terminal_job [OF lock job] job(2)
    by (simp add: guarded_run_def f_def mode_def Let_def del: not_None_eq)
  have "settle_run io t token (finished_task io t f job (snd lock)) =
      (case finished_task io t f job (snd lock) of (g, w2) \<Rightarrow> answer_run t token g w2)" for token
    using finished_task_answers [of io t f job "snd lock"]
    by (cases "finished_task io t f job (snd lock)") (auto simp: settle_run_def)
  then show "run_sync_job io (Some t) w =
      (if mode = STANDBY then (Reply 503 ''cutover_standby'', w)
       else if f \<and> mode \<noteq> ACTIVE then (Reply 503 ''fence_mode_mismatch'', w)
       else (case fst lock of Inl _ \<Rightarrow> (Unhandled, snd lock) | Inr None \<Rightarrow> (Reply 409 ''locked'', snd lock)
         | Inr (Some token) \<Rightarrow> if token = '''' then (Reply 409 ''locked'', snd lock)
             else (case finished_task io t f job (snd lock) of (g, w2) \<Rightarrow> answer_run t token g w2)))"
    using read_terminal_job [OF stored job, of io 0] guarded
    by (simp add: run_sync_job_def lock_def f_def mode_def case_prod_beta Let_def split: sum.split option.split)
qed

lemma finished_answer:
  assumes "stored_job (sw_redis (tw_sync w)) (tk_job t) = Some r"
  shows "case finished_task io t f job w of (g, w2) \<Rightarrow>
    stored_job (sw_redis (tw_sync (snd (answer_run t token g w2)))) (tk_job t) = Some r \<and>
    fst (answer_run t token g w2) \<in> {Reply 200 ''acked'', Unhandled}"
proof -
  have kept: "rd_job (sw_redis (tw_sync (unlock_run t token w2))) = rd_job (sw_redis (tw_sync w2))" for w2
    by (simp add: unlock_run_def release_job_run_lock_def)
  show ?thesis
    using finished_task_answers [of io t f job w] finished_task_keeps(1) [of io t f job w] assms
    by (auto simp: case_prod_beta kept)
qed

text \<open>A finished job is never run again. For a delivery that finds the job terminal the whole effect
  is independent of the pipeline and the published document stays as it is; the delivery is
  acknowledged, or retained because the lock is held, the rollout mode forbids it or a cleanup
  call raised.\<close>

theorem finished_job_is_not_run_again:
  assumes "stored_job (sw_redis (tw_sync w)) (tk_job t) = Some r" "terminal_text r"
  shows "run_sync_job (io\<lparr>hi_pipeline := p\<rparr>) (Some t) w = run_sync_job io (Some t) w \<and>
    stored_job (sw_redis (tw_sync (snd (run_sync_job io (Some t) w)))) (tk_job t) = Some r \<and>
    fst (run_sync_job io (Some t) w) \<in>
      {Reply 200 ''acked'', Reply 409 ''locked'', Reply 503 ''cutover_standby'', Reply 503 ''fence_mode_mismatch'', Unhandled}"
proof -
  obtain job where job: "load_object r = Some job" "status_in job TERMINAL_STATUSES"
    using assms(2) by (auto simp: terminal_text_def split: option.splits)
  note run = run_finished_job [OF assms(1) job]
  have "run_sync_job (io\<lparr>hi_pipeline := p\<rparr>) (Some t) w = run_sync_job io (Some t) w"
    unfolding run(1) by (simp add: finished_task_keeps(2) split: sum.split option.split)
  moreover have "stored_job (sw_redis (tw_sync (snd (run_sync_job io (Some t) w)))) (tk_job t) = Some r \<and>
    fst (run_sync_job io (Some t) w) \<in>
      {Reply 200 ''acked'', Reply 409 ''locked'', Reply 503 ''cutover_standby'', Reply 503 ''fence_mode_mismatch'', Unhandled}"
    unfolding run(1) using assms(1) run(2) [of io]
      finished_answer [OF run(2) [of io], where io = io and f = "sync_job_uses_ledger_fence job" and job = job]
    by (auto simp: case_prod_beta split: sum.split option.split)
  ultimately show ?thesis by blast
qed

section \<open>Instances\<close>

definition queued_job :: jdict where
  "queued_job = [(''job_id'', JStr ''j''), (''uid'', JStr ''u''), (''status'', JStr ''queued''), (''updated_at'', JFloat 1),
     (''ledger_fence_mode'', JStr ''active'')]"

definition fence_active :: environ where
  "fence_active = [''SYNC_LEDGER_FENCE_MODE'' \<mapsto> ''active'']"

definition queued_task :: sync_task where
  "queued_task = \<lparr>tk_job = ''j'', tk_uid = ''u'', tk_blobs = [''b''], tk_lane = ''fresh'', tk_content = None, tk_fence = True,
     tk_retry_count = 0\<rparr>"

definition task_start :: "jdict \<Rightarrow> task_world" where
  "task_start job = \<lparr>tw_sync = \<lparr>sw_redis = set_raw_job ''j'' (dumps job) empty_redis, sw_ledger = Map.empty,
     sw_backfill = empty_backfill\<rparr>, tw_blobs = {''b''}\<rparr>"

text \<open>A pipeline that writes the result and returns.\<close>

definition good_pipeline :: "string option \<Rightarrow> task_world \<Rightarrow> pipeline_end \<times> task_world" where
  "good_pipeline token w = (Returned, w\<lparr>tw_sync := (tw_sync w)\<lparr>sw_redis :=
     set_raw_job ''j'' (dumps [(''status'', JStr ''completed'')]) (sw_redis (tw_sync w))\<rparr>\<rparr>)"

definition handler_with :: "(string option \<Rightarrow> task_world \<Rightarrow> pipeline_end \<times> task_world) \<Rightarrow> handler_io" where
  "handler_with p = \<lparr>hi_env = fence_active, hi_uuid = ''x'', hi_clock = (\<lambda>_. 2), hi_run = calm_run, hi_skip_account = False,
     hi_downloaded = True, hi_max_attempts = 5, hi_claim_raises = False, hi_slot_raises = False, hi_pipeline = p\<rparr>"

theorem finished_job_is_not_run_again_witness:
  "run_sync_job (handler_with (\<lambda>_ w. (Pipeline_Failed True ''x'', w))) (Some queued_task) (task_start [(''status'', JStr ''completed'')]) =
   run_sync_job (handler_with good_pipeline) (Some queued_task) (task_start [(''status'', JStr ''completed'')])"
proof -
  let ?w = "task_start [(''status'', JStr ''completed'')]"
  have "stored_job (sw_redis (tw_sync ?w)) (tk_job queued_task) = Some (dumps [(''status'', JStr ''completed'')])"
    by (simp add: task_start_def queued_task_def set_raw_job_def)
  moreover have "terminal_text (dumps [(''status'', JStr ''completed'')])"
    by (simp add: terminal_text_def status_in_def TERMINAL_STATUSES_def dict_get_def)
  ultimately show ?thesis
    using finished_job_is_not_run_again [where w = ?w and t = queued_task and io = "handler_with good_pipeline" and
        p = "\<lambda>_ w. (Pipeline_Failed True ''x'', w)"]
    by (simp add: handler_with_def)
qed

end
