(* ===== verification/Sync_Pipeline.thy ===== *)
theory Sync_Pipeline
  imports Sync_Runner "HOL-Library.Char_ord" "HOL-Library.List_Lexorder"
begin

text \<open>
  The coordinator of a sync job, \<^verbatim>\<open>_run_full_pipeline_background_async\<close> of
  \<^verbatim>\<open>backend/utils/sync/pipeline.py\<close>, as the Cloud Tasks handler calls it, and the guarantee of the
  handler together with it. The leaves are arguments: what decoding, voice detection,
  transcription of one segment and the regeneration of a conversation come to. Every
  call to the stores is modelled with its place in the code; at each of them other clients may
  have acted, and the call may raise before or after its effect or be cancelled there. Local files,
  metrics and logging are left out.
\<close>

section \<open>Labels\<close>

definition bounded_provider :: "string \<Rightarrow> string" where
  "bounded_provider provider =
     (let normalized = map lower_char (strip provider) in
      if normalized \<in> {''deepgram'', ''modulate'', ''parakeet''} then normalized else ''unknown'')"

definition bounded_sync_model :: "string \<Rightarrow> string" where
  "bounded_sync_model model =
     (let normalized = map lower_char (strip model) in
      if normalized \<in> {''nova-3'', ''velma-2'', ''parakeet''} then normalized else ''unknown'')"

definition SYNC_ERROR_CODE_OUTCOMES :: "(string \<times> string) list" where
  "SYNC_ERROR_CODE_OUTCOMES =
     [(''stt_provider_configuration_error'', ''config_error''), (''stt_timeout'', ''timeout''),
      (''stt_upstream_error'', ''upstream_error''), (''stt_empty_unexpected'', ''empty_unexpected''),
      (''stt_invalid_input'', ''invalid_input'')]"

definition job_transcription_outcome :: "string list \<Rightarrow> string" where
  "job_transcription_outcome segment_errors =
     (if segment_errors = [] then ''success''
      else (case find (\<lambda>(code, _). code \<in> set segment_errors) SYNC_ERROR_CODE_OUTCOMES of
              Some (_, outcome) \<Rightarrow> outcome
            | None \<Rightarrow> ''upstream_error''))"

section \<open>Surroundings of a run\<close>

text \<open>A call may raise, before its effect or after it, an exception that \<^verbatim>\<open>failure_from_exception\<close>
  classifies by whether a retry may help and by its code; or the coordinator is cancelled there.\<close>

datatype call_fault = Runs | Raises_Before bool string | Raises_After bool string | Cancelled_Before | Cancelled_After

record call_io =
  ci_others :: "sync_world \<Rightarrow> sync_world"
  ci_run :: run_io
  ci_fault :: call_fault

datatype decode_end = Decoded nat | Invalid_Audio | Decode_Raises

text \<open>What becomes of one segment: a transcript, no speech, a failure with its code, or the conversation
  has moved on. Until then a conversation may have been created or updated.\<close>

datatype segment_end = Transcribed | Silent | Segment_Failed string | Conversation_Fenced

record segment_work =
  wk_end :: segment_end
  wk_new :: "string option"
  wk_updated :: "string option"
  wk_merged :: bool

datatype reprocess_end = Reprocessed | Reprocess_Fenced | Reprocess_Raises

text \<open>\<open>pi_call n k\<close> surrounds the \<open>k\<close>-th call at place \<open>n\<close> of the code. \<open>pi_quiet\<close>
  says which best-effort Redis calls fail without raising. \<open>pi_vad\<close> is \<open>None\<close> when voice
  detection met errors, else the segments in the order of their timestamps.\<close>

record pipeline_io =
  pi_env :: environ
  pi_call :: "nat \<Rightarrow> nat \<Rightarrow> call_io"
  pi_quiet :: "nat \<Rightarrow> nat \<Rightarrow> bool"
  pi_decode :: decode_end
  pi_vad :: "string list option"
  pi_speech_seconds :: rat
  pi_reserve_clocks :: "timestamp \<times> timestamp \<times> timestamp"
  pi_fair_use :: bool
  pi_restricted :: bool
  pi_exhausted :: bool
  pi_provider :: string
  pi_model :: string
  pi_private_cloud :: bool
  pi_segment_id :: "string \<Rightarrow> string"
  pi_work :: "string \<Rightarrow> segment_work"
  pi_reprocess :: "string \<Rightarrow> reprocess_end"
  pi_timings :: jdict

record run_args =
  ra_job :: string
  ra_uid :: string
  ra_lane :: string
  ra_content :: "string option"
  ra_token :: "string option"
  ra_bound :: bool

section \<open>Calls in sequence\<close>

type_synonym 'a stage = "sync_world \<Rightarrow> (pipeline_end + 'a) \<times> sync_world"

definition give :: "'a \<Rightarrow> 'a stage" where
  "give x w = (Inr x, w)"

definition stop :: "pipeline_end \<Rightarrow> 'a stage" where
  "stop e w = (Inl e, w)"

definition and_then :: "'a stage \<Rightarrow> ('a \<Rightarrow> 'b stage) \<Rightarrow> 'b stage" where
  "and_then m k w = (case m w of (Inl e, w1) \<Rightarrow> (Inl e, w1) | (Inr x, w1) \<Rightarrow> k x w1)"

text \<open>\<^verbatim>\<open>except SyncJobRunLeaseLost: raise\<close> and \<^verbatim>\<open>except Exception: pass\<close>; and the second alone.\<close>

definition ignore_failure :: "'a \<Rightarrow> 'a stage \<Rightarrow> 'a stage" where
  "ignore_failure x m w = (case m w of (Inl (Pipeline_Failed _ _), w1) \<Rightarrow> (Inr x, w1) | r \<Rightarrow> r)"

definition ignore_exception :: "'a \<Rightarrow> 'a stage \<Rightarrow> 'a stage" where
  "ignore_exception x m w =
     (case m w of
        (Inl (Pipeline_Failed _ _), w1) \<Rightarrow> (Inr x, w1)
      | (Inl Run_Lease_Lost, w1) \<Rightarrow> (Inr x, w1)
      | r \<Rightarrow> r)"

fun run_end :: "run_error \<Rightarrow> pipeline_end" where
  "run_end Lease_Lost = Run_Lease_Lost"
| "run_end Bad_Result = Pipeline_Failed False ''stt_invalid_input''"

definition call :: "pipeline_io \<Rightarrow> nat \<Rightarrow> nat \<Rightarrow> (run_io \<Rightarrow> sync_world \<Rightarrow> (run_error + 'a) \<times> sync_world) \<Rightarrow> 'a stage" where
  "call io site k f w =
     (let c = pi_call io site k; w1 = ci_others c w; (r, w2) = f (ci_run c) w1;
          settled = (case r of Inl e \<Rightarrow> Inl (run_end e) | Inr x \<Rightarrow> Inr x)
      in case ci_fault c of
           Runs \<Rightarrow> (settled, w2)
         | Raises_Before retryable code \<Rightarrow> (Inl (Pipeline_Failed retryable code), w1)
         | Raises_After retryable code \<Rightarrow> (case settled of Inl e \<Rightarrow> Inl e | Inr _ \<Rightarrow> Inl (Pipeline_Failed retryable code), w2)
         | Cancelled_Before \<Rightarrow> (Inl Pipeline_Cancelled, w1)
         | Cancelled_After \<Rightarrow> (Inl Pipeline_Cancelled, w2))"

text \<open>A call outside the modelled stores.\<close>

definition touch :: "pipeline_io \<Rightarrow> nat \<Rightarrow> unit stage" where
  "touch io site = call io site 0 (\<lambda>r w. (Inr (), w))"

definition update_run :: "pipeline_io \<Rightarrow> run_args \<Rightarrow> nat \<Rightarrow> nat \<Rightarrow> jdict \<Rightarrow> unit stage" where
  "update_run io a site k updates =
     and_then (call io site k (\<lambda>r. on_redis (update_sync_job_for_run r (ra_job a) (ra_token a) updates))) (\<lambda>_. give ())"

text \<open>A ledger transaction of the owner; its refusal is the loss of the lease.\<close>

definition owned :: "pipeline_io \<Rightarrow> nat \<Rightarrow> nat \<Rightarrow> (timestamp \<Rightarrow> ledger \<Rightarrow> bool \<times> ledger) \<Rightarrow> unit stage" where
  "owned io site k f =
     call io site k (\<lambda>r w. case on_ledger (f (io_ts r)) w of (True, w1) \<Rightarrow> (Inr (), w1) | (False, w1) \<Rightarrow> (Inl Lease_Lost, w1))"

definition content_of :: "run_args \<Rightarrow> string option" where
  "content_of a = nonempty_str (ra_content a)"

definition run_epoch :: "run_args \<Rightarrow> int option" where
  "run_epoch a = map_option get_sync_job_run_lock_epoch (ra_token a)"

text \<open>Publishing a failure and returning.\<close>

definition fail_run :: "pipeline_io \<Rightarrow> run_args \<Rightarrow> nat \<Rightarrow> string \<Rightarrow> json \<Rightarrow> json \<Rightarrow> 'a stage" where
  "fail_run io a site code reason retry_after =
     and_then (call io site 0 (\<lambda>r. finalize_sync_job_failure r (ra_job a) (ra_uid a) (ra_content a) code reason retry_after (ra_token a)))
       (\<lambda>_. stop Returned)"

definition drop_run_epoch :: "pipeline_io \<Rightarrow> run_args \<Rightarrow> nat \<Rightarrow> unit stage" where
  "drop_run_epoch io a site =
     (if ra_token a = None then give ()
      else call io site 0 (\<lambda>r w. (Inr (), w\<lparr>sw_redis := delete_sync_job_run_lock_epoch (io_delete_raises r) (ra_job a) (sw_redis w)\<rparr>)))"

definition complete_content :: "pipeline_io \<Rightarrow> run_args \<Rightarrow> nat \<Rightarrow> jdict \<Rightarrow> unit stage" where
  "complete_content io a site result =
     (case content_of a of
        None \<Rightarrow> give ()
      | Some cid \<Rightarrow> owned io site 0 (\<lambda>t. mark_sync_content_completed (ra_uid a, cid) (ra_job a) (JObj result) (ra_token a) (run_epoch a) t))"

definition finalize_run :: "pipeline_io \<Rightarrow> run_args \<Rightarrow> nat \<Rightarrow> jdict \<Rightarrow> jdict option stage" where
  "finalize_run io a site result = call io site 0 (\<lambda>r. on_redis (finalize_sync_job_for_run r (ra_job a) (ra_token a) result))"

section \<open>Before the segments\<close>

definition begin_run :: "pipeline_io \<Rightarrow> run_args \<Rightarrow> unit stage" where
  "begin_run io a =
     and_then (if ra_bound a then give None
               else call io 1 0 (\<lambda>r. bind_or_converge_sync_ledger_completion r (ra_job a) (ra_uid a) (ra_content a) (ra_token a)))
       (\<lambda>durable. if durable \<noteq> None then stop Returned
          else and_then (call io 2 0 (\<lambda>r. on_redis (mark_job_processing_for_run r (ra_job a) (ra_token a)))) (\<lambda>_. give ()))"

definition decode_phase :: "pipeline_io \<Rightarrow> run_args \<Rightarrow> unit stage" where
  "decode_phase io a =
     and_then (update_run io a 3 0 [(''stage'', JStr ''decoding'')]) (\<lambda>_.
     and_then (ignore_exception Decode_Raises (and_then (touch io 4) (\<lambda>_. give (pi_decode io)))) (\<lambda>decoded.
       case decoded of
         Invalid_Audio \<Rightarrow> fail_run io a 5 ''sync_invalid_audio'' JNull JNull
       | Decode_Raises \<Rightarrow> fail_run io a 5 ''sync_decode_failed'' JNull JNull
       | Decoded 0 \<Rightarrow> fail_run io a 5 ''sync_invalid_audio'' JNull JNull
       | Decoded _ \<Rightarrow> give ()))"

definition vad_phase :: "pipeline_io \<Rightarrow> run_args \<Rightarrow> string list stage" where
  "vad_phase io a =
     and_then (update_run io a 6 0 [(''stage'', JStr ''vad'')]) (\<lambda>_.
     and_then (touch io 7) (\<lambda>_.
       case pi_vad io of
         None \<Rightarrow> fail_run io a 8 ''sync_vad_failed'' JNull JNull
       | Some segments \<Rightarrow>
           and_then (touch io 46) (\<lambda>_. and_then (update_run io a 9 0 [(''total_segments'', JInt (int (length segments))), (''stage'', JStr ''processing'')])
             (\<lambda>_. give segments))))"

definition empty_result :: "string \<Rightarrow> jdict" where
  "empty_result lane =
     [(''new_memories'', JList []), (''updated_memories'', JList []), (''failed_segments'', JInt 0), (''total_segments'', JInt 0),
      (''errors'', JList []), (''outcome'', JStr ''expected_silence''), (''provider'', JStr ''unknown''), (''model'', JStr ''unknown''),
      (''lane'', JStr lane)]"

definition silent_run :: "pipeline_io \<Rightarrow> run_args \<Rightarrow> 'a stage" where
  "silent_run io a =
     and_then (complete_content io a 10 (empty_result (ra_lane a))) (\<lambda>_.
     and_then (finalize_run io a 11 (empty_result (ra_lane a))) (\<lambda>_.
     and_then (drop_run_epoch io a 12) (\<lambda>_. stop Returned)))"

definition speech_ms :: "pipeline_io \<Rightarrow> int" where
  "speech_ms io = \<lfloor>pi_speech_seconds io * 1000\<rfloor>"

definition reserve_phase :: "pipeline_io \<Rightarrow> run_args \<Rightarrow> unit stage" where
  "reserve_phase io a =
     (if ra_lane a \<noteq> ''backfill'' then give ()
      else
        and_then (call io 13 0 (\<lambda>r w.
            let (delay_at, date_at, redis_at) = pi_reserve_clocks io;
                (reservation, b) = reserve_backfill_speech (pi_env io)
                  \<lparr>rc_uid = ra_uid a, rc_job = (case content_of a of None \<Rightarrow> ra_job a | Some cid \<Rightarrow> cid), rc_speech_ms = speech_ms io,
                   rc_delay_at = delay_at, rc_date_at = date_at, rc_redis_at = redis_at\<rparr> (sw_backfill w)
            in case reservation of None \<Rightarrow> (Inl Bad_Result, w) | Some x \<Rightarrow> (Inr x, w\<lparr>sw_backfill := b\<rparr>)))
          (\<lambda>x. if br_allowed x then give ()
               else fail_run io a 14 ''sync_backfill_paced'' (case br_reason x of None \<Rightarrow> JNull | Some s \<Rightarrow> JStr s)
                      (case br_retry_after x of None \<Rightarrow> JNull | Some n \<Rightarrow> JInt n)))"

text \<open>A job with a content key charges by that key; another one by a marker in Redis.\<close>

definition once :: "pipeline_io \<Rightarrow> run_args \<Rightarrow> nat \<Rightarrow> string \<Rightarrow> bool stage" where
  "once io a site tag =
     (if content_of a \<noteq> None then give True
      else call io site 0 (\<lambda>r w. apfst Inr (on_redis (try_mark_once (pi_quiet io site 0) (ra_job a) tag) w)))"

definition unless_keyed :: "run_args \<Rightarrow> unit stage \<Rightarrow> unit stage" where
  "unless_keyed a m = (if content_of a = None then ignore_exception () m else m)"

definition meter_phase :: "pipeline_io \<Rightarrow> run_args \<Rightarrow> unit stage" where
  "meter_phase io a =
     (if \<not> (pi_fair_use io \<and> speech_ms io > 0) then give ()
      else
        and_then (once io a 15 ''speech_ms'') (\<lambda>should_meter.
        and_then (if should_meter then unless_keyed a (touch io 16) else give ()) (\<lambda>_.
          if ra_lane a = ''fresh'' then touch io 17 else give ())))"

text \<open>The budget gate. Every exception inside it is swallowed, the loss of the lease included; the
  segments have been given up by then. The result says whether the user is restricted.\<close>

definition budget_gate :: "pipeline_io \<Rightarrow> run_args \<Rightarrow> string list \<Rightarrow> (bool \<times> string list) stage" where
  "budget_gate io a segments =
     (if \<not> (pi_fair_use io \<and> ra_lane a = ''fresh'') then give (False, segments)
      else ignore_exception (False, segments) (and_then (touch io 18) (\<lambda>_.
        if \<not> pi_restricted io then give (False, segments)
        else ignore_exception (True, segments) (and_then (touch io 19) (\<lambda>_.
          if \<not> pi_exhausted io then give (True, segments)
          else ignore_exception (True, []) (fail_run io a 20 ''sync_transcription_budget_exhausted'' JNull JNull))))))"

section \<open>Segments\<close>

text \<open>The sets and lists the coordinator keeps for its result; \<open>pg_merged\<close> holds the conversations to
  regenerate at the end of the batch.\<close>

record progress =
  pg_new :: "string list"
  pg_updated :: "string list"
  pg_fenced :: "string list"
  pg_merged :: "string list"
  pg_errors :: "string list"
  pg_content :: nat

definition names_of :: "json \<Rightarrow> string \<Rightarrow> string list" where
  "names_of d k =
     (case d of
        JObj e \<Rightarrow> (case dict_get e k of JList xs \<Rightarrow> remdups (concat (map (\<lambda>x. case x of JStr s \<Rightarrow> [s] | _ \<Rightarrow> []) xs)) | _ \<Rightarrow> [])
      | _ \<Rightarrow> [])"

definition names_json :: "string list \<Rightarrow> json" where
  "names_json xs = JList (map JStr (sort xs))"

definition partial_result :: "progress \<Rightarrow> jdict" where
  "partial_result p =
     [(''new_memories'', names_json (pg_new p)), (''updated_memories'', names_json (pg_updated p)),
      (''fenced_conversation_ids'', names_json (pg_fenced p))]"

text \<open>What an earlier attempt left in the job and, for a content key, in the ledger.\<close>

definition hydrated :: "json \<Rightarrow> json \<Rightarrow> progress" where
  "hydrated stored durable =
     (let names = (\<lambda>k. List.union (names_of stored k) (names_of durable k)); fenced = names ''fenced_conversation_ids'';
          open_only = filter (\<lambda>c. c \<notin> set fenced)
      in \<lparr>pg_new = open_only (names ''new_memories''), pg_updated = open_only (names ''updated_memories''), pg_fenced = fenced,
          pg_merged = [], pg_errors = [], pg_content = 0\<rparr>)"

definition labels_phase :: "pipeline_io \<Rightarrow> run_args \<Rightarrow> unit stage" where
  "labels_phase io a =
     and_then (touch io 21) (\<lambda>_.
     and_then (update_run io a 22 0 [(''stt_provider'', JStr (bounded_provider (pi_provider io))),
                                     (''stt_model'', JStr (bounded_sync_model (pi_model io)))]) (\<lambda>_.
     and_then (touch io 23) (\<lambda>_. update_run io a 24 0 [(''stage'', JStr ''stt_llm'')])))"

definition hydrate_phase :: "pipeline_io \<Rightarrow> run_args \<Rightarrow> progress stage" where
  "hydrate_phase io a =
     and_then (call io 25 0 (\<lambda>r w. apfst Inr (on_redis (get_sync_job (io_between r 0) (ra_job a) (io_now r)) w))) (\<lambda>current.
       let stored = (case current of None \<Rightarrow> JNull | Some job \<Rightarrow> dict_get job ''partial_result'')
       in case content_of a of
            None \<Rightarrow> give (hydrated stored JNull)
          | Some cid \<Rightarrow>
              and_then (call io 26 0 (\<lambda>r w. (Inr (get_sync_content_partial_result (ra_uid a, cid) (sw_ledger w)), w)))
                (\<lambda>durable. give (hydrated stored (JObj durable))))"

text \<open>The segments an earlier attempt finished: by path in Redis, by content in the ledger.\<close>

definition finished_phase :: "pipeline_io \<Rightarrow> run_args \<Rightarrow> (string set \<times> string set) stage" where
  "finished_phase io a =
     and_then (call io 27 0 (\<lambda>r w. (Inr (get_processed_segments (pi_quiet io 27 0) (ra_job a) (sw_redis w)), w))) (\<lambda>paths.
       case content_of a of
         None \<Rightarrow> give (paths, {})
       | Some cid \<Rightarrow>
           and_then (call io 28 0 (\<lambda>r w. (Inr (get_processed_sync_segment_ids (ra_uid a, cid) (sw_ledger w)), w))) (\<lambda>ids.
           and_then (touch io 29) (\<lambda>_. give (paths, ids))))"

definition absorb :: "segment_work \<Rightarrow> progress \<Rightarrow> progress" where
  "absorb work p =
     p\<lparr>pg_new := (case wk_new work of None \<Rightarrow> pg_new p | Some c \<Rightarrow> List.insert c (pg_new p)),
       pg_updated := (case wk_updated work of None \<Rightarrow> pg_updated p | Some c \<Rightarrow> List.insert c (pg_updated p)),
       pg_merged := (case wk_updated work of Some c \<Rightarrow> if wk_merged work \<and> c \<notin> set (pg_merged p) then pg_merged p @ [c] else pg_merged p
                       | None \<Rightarrow> pg_merged p)\<rparr>"

text \<open>The contribution to the result is stored before the mark that lets a retry skip the segment.\<close>

definition checkpoint :: "pipeline_io \<Rightarrow> run_args \<Rightarrow> nat \<Rightarrow> nat \<Rightarrow> progress \<Rightarrow> unit stage" where
  "checkpoint io a site k p =
     (case content_of a of
        None \<Rightarrow> give ()
      | Some cid \<Rightarrow> owned io site k (checkpoint_sync_content_partial_result (ra_uid a, cid) (ra_job a) (partial_result p) (ra_token a) (run_epoch a)))"

definition record_segment :: "pipeline_io \<Rightarrow> run_args \<Rightarrow> nat \<Rightarrow> string \<Rightarrow> progress \<Rightarrow> unit stage" where
  "record_segment io a k path p =
     and_then (update_run io a 30 k [(''partial_result'', JObj (partial_result p))]) (\<lambda>_.
     and_then (checkpoint io a 31 k p) (\<lambda>_.
     and_then (call io 32 k (\<lambda>r. on_redis (add_processed_segment_for_run (pi_quiet io 32 k) (ra_job a) (ra_token a) path))) (\<lambda>_.
       case content_of a of
         None \<Rightarrow> give ()
       | Some cid \<Rightarrow>
           if pi_segment_id io path = '''' then give ()
           else owned io 33 k (add_processed_sync_segment_id (ra_uid a, cid) (ra_job a) (pi_segment_id io path) (ra_token a) (run_epoch a)))))"

text \<open>Inside a chunk an exception is a result like another; only a cancellation ends the coordinator.\<close>

definition kept_result :: "progress \<Rightarrow> unit stage \<Rightarrow> (pipeline_end option \<times> progress) stage" where
  "kept_result p m w =
     (case m w of
        (Inl Pipeline_Cancelled, w1) \<Rightarrow> (Inl Pipeline_Cancelled, w1)
      | (Inl e, w1) \<Rightarrow> (Inr (Some e, p), w1)
      | (Inr _, w1) \<Rightarrow> (Inr (None, p), w1))"

definition process_one_segment ::
    "pipeline_io \<Rightarrow> run_args \<Rightarrow> string set \<times> string set \<Rightarrow> nat \<Rightarrow> string \<Rightarrow> progress \<Rightarrow> (pipeline_end option \<times> progress) stage" where
  "process_one_segment io a finished k path p =
     (let work = pi_work io path; p1 = absorb work p; p2 = p1\<lparr>pg_content := pg_content p1 + 1\<rparr> in
      if path \<in> fst finished \<or> (content_of a \<noteq> None \<and> pi_segment_id io path \<noteq> '''' \<and> pi_segment_id io path \<in> snd finished)
      then give (None, p)
      else case wk_end work of
             Conversation_Fenced \<Rightarrow> give (Some Persistence_Fenced, p1)
           | Segment_Failed code \<Rightarrow> give (None, p1\<lparr>pg_errors := pg_errors p1 @ [code]\<rparr>)
           | Silent \<Rightarrow> give (None, p1)
           | Transcribed \<Rightarrow> kept_result p2 (record_segment io a k path p2))"

primrec in_turn :: "(nat \<Rightarrow> 'x \<Rightarrow> 'p \<Rightarrow> 'p stage) \<Rightarrow> nat \<Rightarrow> 'x list \<Rightarrow> 'p \<Rightarrow> 'p stage" where
  "in_turn f k [] p = give p"
| "in_turn f k (x # xs) p = and_then (f k x p) (in_turn f (Suc k) xs)"

text \<open>The results of a chunk, in order: the first loss of the lease or of the conversation is raised,
  another exception is a failed segment.\<close>

primrec settle_results :: "pipeline_end option list \<Rightarrow> progress \<Rightarrow> progress stage" where
  "settle_results [] p = give p"
| "settle_results (r # rs) p =
     (case r of
        Some Run_Lease_Lost \<Rightarrow> stop Run_Lease_Lost
      | Some Persistence_Fenced \<Rightarrow> stop Persistence_Fenced
      | Some (Pipeline_Failed _ code) \<Rightarrow> settle_results rs (p\<lparr>pg_errors := pg_errors p @ [code]\<rparr>)
      | _ \<Rightarrow> settle_results rs p)"

definition chunk_size :: nat where
  "chunk_size = 5"

text \<open>The segments of a chunk run in parallel threads; here they take their turns, and what the others
  do meanwhile belongs to the surroundings of each call.\<close>

definition process_chunk ::
    "pipeline_io \<Rightarrow> run_args \<Rightarrow> string set \<times> string set \<Rightarrow> nat \<Rightarrow> nat \<Rightarrow> string list \<Rightarrow> progress \<Rightarrow> progress stage" where
  "process_chunk io a finished total_segments i chunk p =
     and_then (in_turn (\<lambda>k path (rs, p). and_then (process_one_segment io a finished k path p) (\<lambda>(r, p1). give (rs @ [r], p1)))
         i chunk ([], p)) (\<lambda>(rs, p1).
     and_then (settle_results rs p1) (\<lambda>p2.
     and_then (ignore_failure () (update_run io a 34 i [(''processed_segments'', JInt (int (min (i + chunk_size) total_segments)))]))
       (\<lambda>_. give p2)))"

function process_chunks ::
    "pipeline_io \<Rightarrow> run_args \<Rightarrow> string set \<times> string set \<Rightarrow> nat \<Rightarrow> nat \<Rightarrow> string list \<Rightarrow> progress \<Rightarrow> progress stage" where
  "process_chunks io a finished total_segments i segments p =
     (if segments = [] then give p
      else and_then (process_chunk io a finished total_segments i (take chunk_size segments) p)
             (process_chunks io a finished total_segments (i + chunk_size) (drop chunk_size segments)))"
  by pat_completeness auto

termination
  by (relation "measure (\<lambda>(io, a, finished, total_segments, i, segments, p). length segments)") (auto simp: chunk_size_def)

declare process_chunks.simps [simp del]

section \<open>After the segments\<close>

text \<open>A regenerated conversation that turns out to be fenced is taken out of the result, and the
  tombstone is stored before the audio is finalized.\<close>

definition reprocess_merged :: "pipeline_io \<Rightarrow> run_args \<Rightarrow> progress \<Rightarrow> progress stage" where
  "reprocess_merged io a p =
     in_turn (\<lambda>k c p.
         case pi_reprocess io c of
           Reprocessed \<Rightarrow> give p
         | Reprocess_Raises \<Rightarrow> give p
         | Reprocess_Fenced \<Rightarrow>
             let p1 = p\<lparr>pg_fenced := List.insert c (pg_fenced p), pg_updated := removeAll c (pg_updated p),
                        pg_new := removeAll c (pg_new p)\<rparr>
             in and_then (checkpoint io a 35 k p1) (\<lambda>_.
                and_then (update_run io a 36 k [(''partial_result'', JObj (partial_result p1))]) (\<lambda>_. give p1)))
       0 (pg_merged p) (p\<lparr>pg_merged := []\<rparr>)"

definition charge_phase :: "pipeline_io \<Rightarrow> run_args \<Rightarrow> nat \<Rightarrow> string \<Rightarrow> int \<Rightarrow> unit stage" where
  "charge_phase io a site tag amount =
     unless_keyed a (and_then (once io a site tag) (\<lambda>first.
       if amount > 0 \<and> first then touch io (site + 1) else give ()))"

definition final_result :: "pipeline_io \<Rightarrow> run_args \<Rightarrow> nat \<Rightarrow> progress \<Rightarrow> jdict" where
  "final_result io a total_segments p =
     [(''new_memories'', names_json (pg_new p)), (''updated_memories'', names_json (pg_updated p)),
      (''failed_segments'', JInt (int (length (pg_errors p)))), (''total_segments'', JInt (int total_segments)),
      (''errors'', JList (map JStr (take 10 (pg_errors p)))), (''stage_timings'', JObj (pi_timings io)),
      (''outcome'', JStr (job_transcription_outcome (pg_errors p))), (''provider'', JStr (bounded_provider (pi_provider io))),
      (''model'', JStr (bounded_sync_model (pi_model io))), (''lane'', JStr (ra_lane a))]"

definition release_phase :: "pipeline_io \<Rightarrow> run_args \<Rightarrow> unit stage" where
  "release_phase io a =
     (case content_of a of
        None \<Rightarrow> give ()
      | Some cid \<Rightarrow> call io 44 0 (\<lambda>r w. (Inr (), snd (on_ledger
          (if ra_token a = None then release_sync_content_claim (ra_uid a, cid) (ra_job a) None None (io_ts r)
           else release_sync_content_claim_after_job_retired (ra_uid a, cid) (ra_job a) (io_ts r)) w))))"

text \<open>A result without a failed segment is stored in the ledger before the job is published as done.\<close>

definition publish_phase :: "pipeline_io \<Rightarrow> run_args \<Rightarrow> nat \<Rightarrow> progress \<Rightarrow> unit stage" where
  "publish_phase io a total_segments p =
     and_then (if pg_errors p = [] then complete_content io a 42 (final_result io a total_segments p) else give ()) (\<lambda>_.
     and_then (finalize_run io a 43 (final_result io a total_segments p)) (\<lambda>_.
     and_then (if pg_errors p \<noteq> [] then release_phase io a else give ()) (\<lambda>_.
     and_then (drop_run_epoch io a 45) (\<lambda>_. stop Returned))))"

definition result_phase :: "pipeline_io \<Rightarrow> run_args \<Rightarrow> bool \<Rightarrow> nat \<Rightarrow> progress \<Rightarrow> unit stage" where
  "result_phase io a restricted total_segments p =
     and_then (reprocess_merged io a p) (\<lambda>p1.
     and_then (if pi_private_cloud io then touch io 37 else give ()) (\<lambda>_.
     and_then (if restricted then charge_phase io a 38 ''dg_ms'' (speech_ms io) else give ()) (\<lambda>_.
     and_then (if pg_content p1 > 0 then charge_phase io a 40 ''usage'' \<lfloor>pi_speech_seconds io\<rfloor> else give ()) (\<lambda>_.
       publish_phase io a total_segments p1))))"

section \<open>The coordinator\<close>

text \<open>The count of segments is taken before the budget gate can give them up.\<close>

definition segments_phase :: "pipeline_io \<Rightarrow> run_args \<Rightarrow> nat \<Rightarrow> bool \<times> string list \<Rightarrow> unit stage" where
  "segments_phase io a total_segments gated =
     and_then (labels_phase io a) (\<lambda>_.
     and_then (hydrate_phase io a) (\<lambda>p.
     and_then (finished_phase io a) (\<lambda>finished.
     and_then (process_chunks io a finished (length (snd gated)) 0 (snd gated) p) (\<lambda>p1.
       result_phase io a (fst gated) total_segments p1))))"

definition run_full_pipeline :: "pipeline_io \<Rightarrow> run_args \<Rightarrow> unit stage" where
  "run_full_pipeline io a =
     and_then (begin_run io a) (\<lambda>_.
     and_then (decode_phase io a) (\<lambda>_.
     and_then (vad_phase io a) (\<lambda>segments.
       if segments = [] then silent_run io a
       else and_then (reserve_phase io a) (\<lambda>_.
            and_then (meter_phase io a) (\<lambda>_.
            and_then (budget_gate io a segments) (segments_phase io a (length segments)))))))"

text \<open>As the handler calls it: the claim of a fenced job is bound already.\<close>

definition task_args :: "sync_task \<Rightarrow> string option \<Rightarrow> run_args" where
  "task_args t token = \<lparr>ra_job = tk_job t, ra_uid = tk_uid t, ra_lane = tk_lane t, ra_content = tk_content t, ra_token = token,
     ra_bound = (token \<noteq> None)\<rparr>"

definition pipeline_of :: "pipeline_io \<Rightarrow> sync_task \<Rightarrow> string option \<Rightarrow> task_world \<Rightarrow> pipeline_end \<times> task_world" where
  "pipeline_of io t token w =
     (case run_full_pipeline io (task_args t token) (tw_sync w) of
        (Inl e, s) \<Rightarrow> (e, w\<lparr>tw_sync := s\<rparr>)
      | (Inr _, s) \<Rightarrow> (Returned, w\<lparr>tw_sync := s\<rparr>))"

section \<open>A run that returns leaves its job over\<close>

definition ended :: "string \<Rightarrow> sync_world \<Rightarrow> bool" where
  "ended jid w = (case stored_job (sw_redis w) jid of None \<Rightarrow> True | Some r \<Rightarrow> terminal_text r)"

text \<open>What other clients do around the calls of a run are executions of the job store.\<close>

definition others_run_in :: "pipeline_io \<Rightarrow> string \<Rightarrow> bool" where
  "others_run_in io jid \<longleftrightarrow>
     (\<forall>n k. others_run (ci_run (pi_call io n k)) jid \<and> (\<forall>w. sync_run True jid (sw_redis w) (sw_redis (ci_others (pi_call io n k) w))))"

definition returns_ended :: "string \<Rightarrow> 'a stage \<Rightarrow> bool" where
  "returns_ended jid m \<longleftrightarrow> (\<forall>w w'. m w = (Inl Returned, w') \<longrightarrow> ended jid w')"

definition publishes :: "string \<Rightarrow> 'a stage \<Rightarrow> bool" where
  "publishes jid m \<longleftrightarrow> (\<forall>w. case m w of (Inl e, _) \<Rightarrow> e \<noteq> Returned | (Inr _, w') \<Rightarrow> ended jid w')"

definition stays_ended :: "string \<Rightarrow> 'a stage \<Rightarrow> bool" where
  "stays_ended jid m \<longleftrightarrow> (\<forall>w. ended jid w \<longrightarrow> ended jid (snd (m w)))"

named_theorems stage_rules

lemma returns_give [stage_rules]: "returns_ended jid (give x)"
  by (simp add: returns_ended_def give_def)

lemma returns_stop [stage_rules]: "e \<noteq> Returned \<Longrightarrow> returns_ended jid (stop e)"
  by (simp add: returns_ended_def stop_def)

lemma call_never_returns: "call io site k f w \<noteq> (Inl Returned, w')"
proof -
  have "run_end e \<noteq> Returned" for e by (cases e) auto
  then show ?thesis
    by (auto simp: call_def case_prod_beta Let_def split: call_fault.split sum.split)
qed

lemma returns_call [stage_rules]: "returns_ended jid (call io site k f)"
  by (simp add: returns_ended_def call_never_returns)

lemma returns_and_then [stage_rules]:
  "returns_ended jid m \<Longrightarrow> (\<And>x. returns_ended jid (k x)) \<Longrightarrow> returns_ended jid (and_then m k)"
  by (fastforce simp: returns_ended_def and_then_def split: prod.splits sum.splits)

lemma returns_after_publishing:
  assumes "publishes jid m" "\<And>x. stays_ended jid (k x)"
  shows "returns_ended jid (and_then m k)"
proof -
  have "case m w of (Inl e, _) \<Rightarrow> e \<noteq> Returned | (Inr x, w1) \<Rightarrow> ended jid (snd (k x w1))" for w
    using assms(1)[unfolded publishes_def, rule_format, of w] assms(2) by (auto simp: stays_ended_def split: prod.splits sum.splits)
  then show ?thesis
    by (fastforce simp: returns_ended_def and_then_def split: prod.splits sum.splits)
qed

lemma returns_ignore_failure [stage_rules]: "returns_ended jid m \<Longrightarrow> returns_ended jid (ignore_failure x m)"
  by (auto simp: returns_ended_def ignore_failure_def split: prod.splits sum.splits pipeline_end.splits)

lemma returns_ignore_exception [stage_rules]: "returns_ended jid m \<Longrightarrow> returns_ended jid (ignore_exception x m)"
  by (auto simp: returns_ended_def ignore_exception_def split: prod.splits sum.splits pipeline_end.splits)

lemma returns_kept_result [stage_rules]: "returns_ended jid (kept_result p m)"
  by (auto simp: returns_ended_def kept_result_def split: prod.splits sum.splits pipeline_end.splits)

lemma returns_in_turn [stage_rules]: "(\<And>k x p. returns_ended jid (f k x p)) \<Longrightarrow> returns_ended jid (in_turn f k xs p)"
  by (induction xs arbitrary: k p) (auto intro!: stage_rules)

lemma returns_settle [stage_rules]: "returns_ended jid (settle_results rs p)"
  by (induction rs arbitrary: p) (auto intro!: stage_rules split: option.split pipeline_end.split)

lemma returns_calls [stage_rules]:
  "returns_ended jid (touch io n)" "returns_ended jid (update_run io a n k u)" "returns_ended jid (owned io n k f)"
  by (auto simp: touch_def update_run_def owned_def intro!: stage_rules)

lemma publishes_call:
  assumes "others_run_in io jid" "\<And>r w x w'. others_run r jid \<Longrightarrow> f r w = (Inr x, w') \<Longrightarrow> ended jid w'"
  shows "publishes jid (call io site k f)"
proof -
  have "ended jid (snd (f (ci_run (pi_call io site k)) w))" if "fst (f (ci_run (pi_call io site k)) w) = Inr x" for w x
    using assms that by (metis others_run_in_def prod.collapse)
  then show ?thesis
    using call_never_returns [of io site k f]
    by (auto simp: publishes_def split: prod.split sum.split)
      (auto simp: call_def case_prod_beta Let_def split: call_fault.splits sum.splits)
qed

lemma ended_cong: "stored_job (sw_redis w') jid = stored_job (sw_redis w) jid \<Longrightarrow> ended jid w' = ended jid w"
  by (simp add: ended_def)

lemma ended_kept: "stays_over jid (sw_redis w) (sw_redis w') \<Longrightarrow> ended jid w \<Longrightarrow> ended jid w'"
  using stale_failure_terminal by (auto simp: ended_def stays_over_def split: option.splits)

lemma published_ended: "published jid (sw_redis w) \<Longrightarrow> ended jid w"
  by (auto simp: published_def ended_def split: option.splits)

lemma stays_call:
  assumes "others_run_in io jid" "\<And>r w. stored_job (sw_redis (snd (f r w))) jid = stored_job (sw_redis w) jid"
  shows "stays_ended jid (call io site k f)"
proof -
  have others: "ended jid (ci_others (pi_call io site k) w)" if "ended jid w" for w
    using assms(1) that ended_kept sync_run_stays_over by (metis others_run_in_def)
  have "ended jid (snd (f (ci_run (pi_call io site k)) (ci_others (pi_call io site k) w)))" if "ended jid w" for w
    using others [OF that] ended_cong [OF assms(2)] by blast
  then show ?thesis
    using others by (auto simp: stays_ended_def call_def case_prod_beta Let_def split: call_fault.split)
qed

lemma stays_and_then: "stays_ended jid m \<Longrightarrow> (\<And>x. stays_ended jid (k x)) \<Longrightarrow> stays_ended jid (and_then m k)"
  by (fastforce simp: stays_ended_def and_then_def split: prod.split sum.split)

lemma stays_simple: "stays_ended jid (give x)" "stays_ended jid (stop e)"
  by (simp_all add: stays_ended_def give_def stop_def)

lemma fail_run_returns:
  assumes "others_run_in io (ra_job a)"
  shows "returns_ended (ra_job a) (fail_run io a n code reason retry_after)"
proof -
  have "ended (ra_job a) w'"
    if "others_run r (ra_job a)" "finalize_sync_job_failure r (ra_job a) (ra_uid a) (ra_content a) code reason retry_after (ra_token a) w = (Inr x, w')"
    for r w x w'
    using failure_publishes [OF that(2)] that(1) ended_kept [of _ "w\<lparr>sw_redis := _\<rparr>"] published_ended [of _ "w\<lparr>sw_redis := _\<rparr>"]
    by (fastforce simp: others_run_def)
  then show ?thesis
    unfolding fail_run_def by (intro returns_after_publishing publishes_call assms stays_simple)
qed

lemma finalize_run_publishes:
  assumes "others_run_in io (ra_job a)"
  shows "publishes (ra_job a) (finalize_run io a n result)"
  unfolding finalize_run_def
proof (rule publishes_call [OF assms])
  fix r w x w'
  assume "on_redis (finalize_sync_job_for_run r (ra_job a) (ra_token a) result) w = (Inr x, w')"
  then show "ended (ra_job a) w'"
    using finalize_for_run_publishes [of r "ra_job a" "ra_token a" result "sw_redis w"]
    by (auto simp: on_redis_def case_prod_beta prod_eq_iff intro: published_ended)
qed

lemma drop_run_epoch_stays: "others_run_in io (ra_job a) \<Longrightarrow> stays_ended (ra_job a) (drop_run_epoch io a n)"
  by (auto simp: drop_run_epoch_def intro!: stays_simple stays_call)

lemma release_phase_stays: "others_run_in io (ra_job a) \<Longrightarrow> stays_ended (ra_job a) (release_phase io a)"
  by (auto simp: release_phase_def on_ledger_def case_prod_beta intro!: stays_simple stays_call split: option.split)

lemma complete_content_returns [stage_rules]: "returns_ended jid (complete_content io a n result)"
  by (auto simp: complete_content_def intro!: stage_rules split: option.split)

lemma silent_run_returns:
  assumes "others_run_in io (ra_job a)"
  shows "returns_ended (ra_job a) (silent_run io a)"
  unfolding silent_run_def
  by (intro returns_and_then complete_content_returns returns_after_publishing finalize_run_publishes
      stays_and_then drop_run_epoch_stays stays_simple assms)

lemma publish_phase_returns:
  assumes "others_run_in io (ra_job a)"
  shows "returns_ended (ra_job a) (publish_phase io a n p)"
proof -
  have "returns_ended (ra_job a) (if b then complete_content io a k r else give ())" for b k r
    by (simp add: stage_rules)
  moreover have "stays_ended (ra_job a) (if b then release_phase io a else give ())" for b
    by (simp add: release_phase_stays stays_simple assms)
  ultimately show ?thesis
    unfolding publish_phase_def
    by (intro returns_and_then returns_after_publishing finalize_run_publishes stays_and_then drop_run_epoch_stays stays_simple assms)
qed

lemma begin_run_returns:
  assumes "others_run_in io (ra_job a)"
  shows "returns_ended (ra_job a) (begin_run io a)"
proof -
  have converged: "ended (ra_job a) w'"
    if "bind_or_converge_sync_ledger_completion r (ra_job a) (ra_uid a) (ra_content a) (ra_token a) w = (Inr (Some job), w')"
    for r w job w'
    using converged_publishes [OF that] published_ended by blast
  define bind where "bind = call io 1 0 (\<lambda>r. bind_or_converge_sync_ledger_completion r (ra_job a) (ra_uid a) (ra_content a) (ra_token a))"
  have "ended (ra_job a) w'" if "bind w = (Inr (Some job), w')" for w job w'
    using that converged by (auto simp: bind_def call_def case_prod_beta Let_def prod_eq_iff split: call_fault.splits sum.splits)
  moreover have "bind w \<noteq> (Inl Returned, w')" for w w'
    unfolding bind_def by (rule call_never_returns)
  ultimately have "returns_ended (ra_job a) (and_then bind (\<lambda>durable. if durable \<noteq> None then stop Returned
      else and_then (call io 2 0 (\<lambda>r. on_redis (mark_job_processing_for_run r (ra_job a) (ra_token a)))) (\<lambda>_. give ())))"
    using call_never_returns
    by (fastforce simp: returns_ended_def and_then_def stop_def give_def split: prod.splits sum.splits if_splits)
  moreover have "returns_ended (ra_job a) (and_then (give None) (\<lambda>durable :: jdict option. if durable \<noteq> None then stop Returned
      else and_then (call io 2 0 (\<lambda>r. on_redis (mark_job_processing_for_run r (ra_job a) (ra_token a)))) (\<lambda>_. give ())))"
    using call_never_returns
    by (fastforce simp: returns_ended_def and_then_def stop_def give_def split: prod.splits sum.splits if_splits)
  ultimately show ?thesis by (cases "ra_bound a") (simp_all add: begin_run_def bind_def)
qed

lemma first_phases_return:
  assumes "others_run_in io (ra_job a)"
  shows "returns_ended (ra_job a) (decode_phase io a)" "returns_ended (ra_job a) (vad_phase io a)"
    "returns_ended (ra_job a) (reserve_phase io a)" "returns_ended (ra_job a) (budget_gate io a segments)"
  using fail_run_returns [OF assms] unfolding decode_phase_def vad_phase_def reserve_phase_def budget_gate_def
  by (auto intro!: stage_rules split: decode_end.split option.split nat.split)

lemma middle_phases_return [stage_rules]:
  "returns_ended jid (once io a n tag)" "returns_ended jid (meter_phase io a)" "returns_ended jid (labels_phase io a)"
  "returns_ended jid (hydrate_phase io a)" "returns_ended jid (finished_phase io a)" "returns_ended jid (checkpoint io a n k p)"
  "returns_ended jid (reprocess_merged io a p)" "returns_ended jid (charge_phase io a n tag amount)"
proof -
  show once: "returns_ended jid (once io a n tag)" for n tag
    by (auto simp: once_def intro!: stage_rules)
  have keyed: "returns_ended jid m \<Longrightarrow> returns_ended jid (unless_keyed a m)" for m
    by (simp add: unless_keyed_def stage_rules)
  show "returns_ended jid (meter_phase io a)" "returns_ended jid (charge_phase io a n tag amount)"
    unfolding meter_phase_def charge_phase_def by (auto intro!: stage_rules once keyed)
  show check: "returns_ended jid (checkpoint io a n k p)" for n k p
    by (auto simp: checkpoint_def intro!: stage_rules split: option.split)
  show "returns_ended jid (labels_phase io a)" "returns_ended jid (hydrate_phase io a)" "returns_ended jid (finished_phase io a)"
    unfolding labels_phase_def hydrate_phase_def finished_phase_def
    by (auto simp: Let_def intro!: stage_rules split: option.split)
  show "returns_ended jid (reprocess_merged io a p)"
    unfolding reprocess_merged_def by (auto simp: Let_def intro!: stage_rules check split: reprocess_end.split)
qed

lemma process_one_segment_returns [stage_rules]: "returns_ended jid (process_one_segment io a finished k path p)"
  by (auto simp: process_one_segment_def Let_def intro!: stage_rules split: segment_end.split)

lemma process_chunk_returns [stage_rules]: "returns_ended jid (process_chunk io a finished n i chunk p)"
  unfolding process_chunk_def by (auto intro!: stage_rules split: prod.split)

lemma process_chunks_returns [stage_rules]: "returns_ended jid (process_chunks io a finished n i segments p)"
proof (induction io a finished n i segments p rule: process_chunks.induct)
  case (1 io a finished n i segments p)
  then show ?case by (subst process_chunks.simps) (auto intro!: stage_rules)
qed

lemma segments_phase_returns:
  assumes "others_run_in io (ra_job a)"
  shows "returns_ended (ra_job a) (segments_phase io a n gated)"
  unfolding segments_phase_def result_phase_def
  using publish_phase_returns [OF assms] by (auto intro!: stage_rules)

theorem run_full_pipeline_returns:
  assumes "others_run_in io (ra_job a)"
  shows "returns_ended (ra_job a) (run_full_pipeline io a)"
  unfolding run_full_pipeline_def
  by (auto intro!: returns_and_then begin_run_returns first_phases_return middle_phases_return silent_run_returns
      segments_phase_returns assms)

text \<open>Every path of the coordinator ends in a return or an exception.\<close>

definition ends :: "'a stage \<Rightarrow> bool" where
  "ends m \<longleftrightarrow> (\<forall>w x. fst (m w) \<noteq> Inr x)"

lemma ends_stop: "ends (stop e)"
  by (simp add: ends_def stop_def)

lemma ends_and_then: "(\<And>x. ends (k x)) \<Longrightarrow> ends (and_then m k)"
  by (auto simp: ends_def and_then_def split: prod.split sum.split)

lemma run_full_pipeline_ends: "ends (run_full_pipeline io a)"
proof -
  have "ends (silent_run io a)" "ends (segments_phase io a n gated)" for n gated
    unfolding silent_run_def segments_phase_def result_phase_def publish_phase_def
    by (intro ends_and_then ends_stop)+
  then show ?thesis
    unfolding run_full_pipeline_def by (intro ends_and_then) (auto intro!: ends_and_then)
qed

lemma pipeline_of_sound:
  assumes "others_run_in pio (tk_job t)"
  shows "sound_pipeline_of (io\<lparr>hi_pipeline := pipeline_of pio t\<rparr>) (tk_job t)"
proof -
  have "tw_blobs (snd (pipeline_of pio t token w)) = tw_blobs w \<and>
      (fst (pipeline_of pio t token w) = Returned \<longrightarrow> job_over (tk_job t) (snd (pipeline_of pio t token w)))" for token w
  proof -
    obtain e s where run: "run_full_pipeline pio (task_args t token) (tw_sync w) = (Inl e, s)"
      using run_full_pipeline_ends [of pio "task_args t token"] by (metis ends_def prod.collapse sum.exhaust)
    have "e = Returned \<Longrightarrow> ended (tk_job t) s"
      using run_full_pipeline_returns [of pio "task_args t token"] assms run by (simp add: returns_ended_def task_args_def)
    then show ?thesis
      using run by (auto simp: pipeline_of_def ended_def job_over_def terminal_text_def split: option.splits)
  qed
  then show ?thesis by (simp add: sound_pipeline_of_def)
qed

text \<open>C20: A consumed task leaves no open job. Whatever the coordinator meets on its way (decoding, voice
  detection and transcription with any outcome, calls that raise before or after their effect,
  a cancellation, other clients that act between any two calls, status reads with stale
  documents included), a delivery answers 200 only when the job is gone, unreadable or terminal;
  it deletes staged audio only for such a job, and an answer that retains the task has deleted
  none. No assumption is made about the coordinator itself; what other clients do is an
  execution of the job store.\<close>

theorem consumed_task_leaves_no_open_job:
  assumes "others_run (hi_run io) (tk_job t)" "others_run_in pio (tk_job t)"
    and "run_sync_job (io\<lparr>hi_pipeline := pipeline_of pio t\<rparr>) (Some t) w = (reply, w')"
  shows "(tw_blobs w' \<noteq> tw_blobs w \<longrightarrow> job_over (tk_job t) w') \<and>
    (case reply of Reply code _ \<Rightarrow> if code = 200 then job_over (tk_job t) w' else tw_blobs w' = tw_blobs w | _ \<Rightarrow> True)"
  using handler_keeps_open_jobs [OF pipeline_of_sound [OF assms(2)]] assms(1,3) by simp

section \<open>Instances\<close>

text \<open>A delivery whose audio holds one transcribed and one silent segment.\<close>

definition calm_call :: call_io where
  "calm_call = \<lparr>ci_others = (\<lambda>w. w), ci_run = calm_run, ci_fault = Runs\<rparr>"

definition talk_io :: pipeline_io where
  "talk_io = \<lparr>pi_env = fence_active, pi_call = (\<lambda>n k. calm_call), pi_quiet = (\<lambda>n k. False), pi_decode = Decoded 1,
     pi_vad = Some [''a'', ''b''], pi_speech_seconds = 7, pi_reserve_clocks = (0, 0, 0), pi_fair_use = False,
     pi_restricted = False, pi_exhausted = False, pi_provider = '' Deepgram'', pi_model = ''nova-3'', pi_private_cloud = True,
     pi_segment_id = (\<lambda>path. path), pi_work = (\<lambda>path. if path = ''a''
       then \<lparr>wk_end = Transcribed, wk_new = Some ''m'', wk_updated = None, wk_merged = False\<rparr>
       else \<lparr>wk_end = Silent, wk_new = None, wk_updated = None, wk_merged = False\<rparr>),
     pi_reprocess = (\<lambda>c. Reprocessed), pi_timings = []\<rparr>"

definition keyed_task :: sync_task where
  "keyed_task = queued_task\<lparr>tk_content := Some ''c''\<rparr>"

definition keyed_start :: task_world where
  "keyed_start = (task_start queued_job)\<lparr>tw_sync := (tw_sync (task_start queued_job))\<lparr>sw_ledger := claimed_ledger\<rparr>\<rparr>"

definition run_with :: "pipeline_io \<Rightarrow> task_reply \<times> task_world" where
  "run_with pio = run_sync_job ((handler_with good_pipeline)\<lparr>hi_pipeline := pipeline_of pio keyed_task\<rparr>) (Some keyed_task) keyed_start"

definition job_field :: "string \<Rightarrow> task_world \<Rightarrow> json" where
  "job_field k w = (case stored_job (sw_redis (tw_sync w)) ''j'' of
     Some r \<Rightarrow> (case load_object r of Some job \<Rightarrow> dict_get job k | None \<Rightarrow> JNull) | None \<Rightarrow> JNull)"

definition ledger_field :: "(ledger_doc \<Rightarrow> 'a) \<Rightarrow> task_world \<Rightarrow> 'a" where
  "ledger_field f w = f (existing_doc (sw_ledger (tw_sync w)) (''u'', ''c''))"

text \<open>What is left of a delivery: the answer, the staged audio, the status of the job and of the content,
  the segments known as processed and the partial result.\<close>

definition outcome_of :: "task_reply \<times> task_world \<Rightarrow> task_reply \<times> string set \<times> json \<times> string option \<times> string list \<times> json" where
  "outcome_of r =
     (case r of (reply, w) \<Rightarrow> (reply, tw_blobs w, job_field ''status'' w, ledger_field l_status w,
        ledger_field l_processed_segment_ids w, ledger_field l_partial_result w))"

lemma talk_run:
  "outcome_of (run_with talk_io) =
     (Reply 200 ''done'', {}, JStr ''completed'', Some ''completed'', [''a''],
      JObj [(''new_memories'', JList [JStr ''m'']), (''updated_memories'', JList []), (''fenced_conversation_ids'', JList [])])"
  by code_simp

theorem consumed_task_leaves_no_open_job_witness:
  "\<exists>w'. run_with talk_io = (Reply 200 ''done'', w') \<and> tw_blobs w' \<noteq> tw_blobs keyed_start \<and> job_over ''j'' w' \<and>
     job_field ''status'' w' = JStr ''completed'' \<and> ledger_field l_status w' = Some ''completed''"
proof -
  have "others_run (hi_run (handler_with good_pipeline)) (tk_job keyed_task)" "others_run_in talk_io (tk_job keyed_task)"
    by (simp_all add: others_run_def others_run_in_def handler_with_def talk_io_def calm_call_def calm_run_def run_refl)
  moreover have "tw_blobs keyed_start = {''b''}" "tk_job keyed_task = ''j''"
    by (simp_all add: keyed_start_def task_start_def keyed_task_def queued_task_def)
  moreover obtain reply w' where "run_with talk_io = (reply, w')" by (cases "run_with talk_io")
  ultimately show ?thesis
    using consumed_task_leaves_no_open_job [of "handler_with good_pipeline" keyed_task talk_io keyed_start reply w'] talk_run
    by (simp add: run_with_def outcome_of_def)
qed

text \<open>The budget gate gives the segments up before it publishes the failure, and swallows the exception
  when that call raises. The run then goes on with no segments and completes: the audio of
  a user whose budget is exhausted is recorded as processed, without a transcript, in the job
  and for good in the ledger.\<close>

definition gate_io :: pipeline_io where
  "gate_io = talk_io\<lparr>pi_fair_use := True, pi_restricted := True, pi_exhausted := True,
     pi_call := (\<lambda>n k. if n = 20 then calm_call\<lparr>ci_fault := Raises_Before True ''stt_upstream_error''\<rparr> else calm_call)\<rparr>"

lemma failing_budget_gate_loses_audio:
  "outcome_of (run_with gate_io) = (Reply 200 ''done'', {}, JStr ''completed'', Some ''completed'', [], JNull)"
  by code_simp

text \<open>When the call succeeds the same run fails, and its claim is free for another upload.\<close>

lemma budget_gate_fails_job:
  "outcome_of (run_with (gate_io\<lparr>pi_call := (\<lambda>n k. calm_call)\<rparr>)) =
     (Reply 200 ''done'', {}, JStr ''failed'', Some ''retryable'', [], JNull)"
  by code_simp

end
