(* ===== verification/Sync_Segments.thy ===== *)
theory Sync_Segments
  imports Prelude "HOL-Library.Monad_Syntax" "HOL-Library.Multiset" "HOL-Library.Sublist"
begin

text \<open>
  The computations on audio and transcript segments in \<^verbatim>\<open>backend/utils/sync\<close>: merging and capping
  the voiced stretches of a recording (\<^verbatim>\<open>_merge_and_cap_vad_segments\<close> of \<^verbatim>\<open>pipeline.py\<close>), adding
  the transcript of an upload to a conversation without repeating lines (\<^verbatim>\<open>merge_dedupe.py\<close> and
  the merge step of \<^verbatim>\<open>process_segment\<close>), cutting audio for the new lines (\<^verbatim>\<open>merge_audio.py\<close>) and
  reading a byte range (\<^verbatim>\<open>playback.py\<close>). Times are rationals; the rounding of binary floats is
  not modelled.
\<close>

section \<open>Voiced stretches\<close>

type_synonym stretch = "rat \<times> rat"

text \<open>One round of the merging loop; the list built so far is kept in reverse.\<close>

fun merge_voice :: "rat \<Rightarrow> stretch \<Rightarrow> stretch list \<Rightarrow> stretch list" where
  "merge_voice cap (s, e) [] = [(s, e)]"
| "merge_voice cap (s, e) ((s0, e0) # merged) =
     (if s - e0 < 120 \<and> e - s0 \<le> cap then (s0, e) # merged else (s, e) # (s0, e0) # merged)"

text \<open>The chunking loop ends only if it advances: \<open>None\<close> is a loop that runs forever.\<close>

partial_function (option) voice_chunks :: "rat \<Rightarrow> rat \<Rightarrow> rat \<Rightarrow> stretch list option" where
  "voice_chunks cap s e =
     (if s < e then
        do { rest \<leftarrow> voice_chunks cap (min (s + cap) e) e; Some ((s, min (s + cap) e) # rest) }
      else Some [])"

fun cap_voice :: "rat \<Rightarrow> stretch list \<Rightarrow> stretch list option" where
  "cap_voice cap [] = Some []"
| "cap_voice cap ((s, e) # xs) =
     do { cs \<leftarrow> (if e - s \<le> cap then Some [(s, e)] else voice_chunks cap s e);
          rest \<leftarrow> cap_voice cap xs;
          Some (cs @ rest) }"

definition merge_and_cap_vad_segments :: "rat \<Rightarrow> stretch list \<Rightarrow> stretch list option" where
  "merge_and_cap_vad_segments cap voice_segments = cap_voice cap (rev (fold (merge_voice cap) voice_segments []))"

declare voice_chunks.simps [code]

definition covers :: "stretch list \<Rightarrow> rat \<Rightarrow> bool" where
  "covers xs t \<longleftrightarrow> (\<exists>(s, e) \<in> set xs. s \<le> t \<and> t \<le> e)"

lemma covers_append [simp]: "covers (xs @ ys) t \<longleftrightarrow> covers xs t \<or> covers ys t"
  by (auto simp: covers_def)

lemma covers_Cons: "covers ((s, e) # xs) t \<longleftrightarrow> s \<le> t \<and> t \<le> e \<or> covers xs t"
  by (auto simp: covers_def)

lemma voice_chunks_total:
  assumes "0 < cap"
  shows "\<exists>cs. voice_chunks cap s e = Some cs \<and> (\<forall>(a, b) \<in> set cs. b - a \<le> cap \<and> s \<le> a \<and> a < b \<and> b \<le> e) \<and>
    (\<forall>t. s \<le> t \<longrightarrow> t \<le> e \<longrightarrow> s < e \<longrightarrow> covers cs t)"
proof (induction "nat \<lceil>(e - s) / cap\<rceil>" arbitrary: s rule: less_induct)
  case less
  show ?case
  proof (cases "s < e")
    case True
    let ?m = "min (s + cap) e"
    have "nat \<lceil>(e - ?m) / cap\<rceil> < nat \<lceil>(e - s) / cap\<rceil>"
    proof -
      have pos: "0 < (e - s) / cap" using True assms by simp
      have "(e - ?m) / cap \<le> (e - s) / cap - 1 \<or> (e - ?m) / cap = 0"
        using assms by (auto simp: min_def field_simps)
      then have "\<lceil>(e - ?m) / cap\<rceil> \<le> \<lceil>(e - s) / cap\<rceil> - 1"
        using pos by (metis ceiling_diff_one ceiling_mono ceiling_zero diff_ge_0_iff_ge int_one_le_iff_zero_less zero_less_ceiling)
      moreover have "0 < \<lceil>(e - s) / cap\<rceil>" using pos by simp
      ultimately show ?thesis by linarith
    qed
    from less [OF this] obtain cs where cs: "voice_chunks cap ?m e = Some cs"
      "\<forall>(a, b) \<in> set cs. b - a \<le> cap \<and> ?m \<le> a \<and> a < b \<and> b \<le> e" "\<forall>t. ?m \<le> t \<longrightarrow> t \<le> e \<longrightarrow> ?m < e \<longrightarrow> covers cs t"
      by blast
    have "voice_chunks cap s e = Some ((s, ?m) # cs)"
      using True cs(1) by (subst voice_chunks.simps) simp
    moreover have "\<forall>(a, b) \<in> set ((s, ?m) # cs). b - a \<le> cap \<and> s \<le> a \<and> a < b \<and> b \<le> e"
      using cs(2) True assms by fastforce
    moreover have "covers ((s, ?m) # cs) t" if "s \<le> t" "t \<le> e" for t
      using that cs(3) by (cases "t \<le> ?m") (force simp: covers_def)+
    ultimately show ?thesis by blast
  next
    case False
    then show ?thesis by (subst voice_chunks.simps) auto
  qed
qed

lemma voice_chunks_stuck:
  assumes "voice_chunks cap s e = Some cs"
  shows "cap \<le> 0 \<longrightarrow> \<not> s < e"
proof (rule voice_chunks.raw_induct [where P = "\<lambda>cap s e _. cap \<le> 0 \<longrightarrow> \<not> s < e", OF _ assms])
  fix f :: "rat \<Rightarrow> rat \<Rightarrow> rat \<Rightarrow> stretch list option" and cap s e cs
  assume IH: "\<And>cap s e cs. f cap s e = Some cs \<Longrightarrow> cap \<le> 0 \<longrightarrow> \<not> s < e"
    and eq: "(if s < e then do { rest \<leftarrow> f cap (min (s + cap) e) e; Some ((s, min (s + cap) e) # rest) } else Some []) = Some cs"
  show "cap \<le> 0 \<longrightarrow> \<not> s < e"
  proof (intro impI notI)
    assume "cap \<le> 0" "s < e"
    then obtain rest where "f cap (min (s + cap) e) e = Some rest"
      using eq by (auto simp: bind_eq_Some_conv)
    from IH [OF this] show False using \<open>s < e\<close> \<open>cap \<le> 0\<close> by (simp add: min_def split: if_splits)
  qed
qed

lemma cap_voice_total:
  assumes "0 < cap"
  shows "\<exists>out. cap_voice cap xs = Some out \<and> (\<forall>(a, b) \<in> set out. b - a \<le> cap) \<and> (\<forall>t. covers xs t \<longrightarrow> covers out t)"
proof (induction xs)
  case (Cons x xs)
  obtain s e where x: "x = (s, e)" by (cases x)
  obtain rest where rest: "cap_voice cap xs = Some rest" "\<forall>(a, b) \<in> set rest. b - a \<le> cap" "\<forall>t. covers xs t \<longrightarrow> covers rest t"
    using Cons by blast
  obtain cs where cs: "(if e - s \<le> cap then Some [(s, e)] else voice_chunks cap s e) = Some cs"
    "\<forall>(a, b) \<in> set cs. b - a \<le> cap" "\<forall>t. s \<le> t \<longrightarrow> t \<le> e \<longrightarrow> covers cs t"
  proof (cases "e - s \<le> cap")
    case True
    then show thesis using that [of "[(s, e)]"] by (simp add: covers_def)
  next
    case False
    then have "s < e" using assms by simp
    then show thesis using that voice_chunks_total [OF assms, of s e] False by fastforce
  qed
  have "covers (x # xs) t \<longrightarrow> covers (cs @ rest) t" for t
    using cs(3) rest(3) x by (auto simp: covers_Cons)
  then show ?case using cs(1,2) rest(1,2) x by auto
qed (simp add: covers_def)

text \<open>The stretches the voice detector reports: in order, each with its end after its start.\<close>

definition follows :: "stretch \<Rightarrow> stretch \<Rightarrow> bool" where
  "follows x y \<longleftrightarrow> fst x \<le> fst y \<and> snd x \<le> snd y"

lemma merge_voice_covers:
  assumes "sorted_wrt follows xs" "case acc of [] \<Rightarrow> True | h # _ \<Rightarrow> \<forall>x \<in> set xs. follows h x"
    and "covers acc t \<or> covers xs t"
  shows "covers (fold (merge_voice cap) xs acc) t"
  using assms
proof (induction xs arbitrary: acc)
  case Nil
  then show ?case by (simp add: covers_def)
next
  case (Cons x xs)
  obtain s e where x: "x = (s, e)" by (cases x)
  have "case merge_voice cap x acc of [] \<Rightarrow> True | h # _ \<Rightarrow> \<forall>y \<in> set xs. follows h y"
    using Cons.prems(1,2) x by (cases acc) (auto simp: follows_def)
  moreover have "covers (merge_voice cap x acc) t \<or> covers xs t"
    using Cons.prems(2,3) x by (cases acc) (auto simp: covers_def follows_def)
  ultimately show ?case using Cons.IH Cons.prems(1) by simp
qed

text \<open>C23: Capping loses no voice and ends. For a positive cap and stretches in order, merging and capping
  returns, every piece is at most the cap long, and every voiced instant lies in a piece.\<close>

theorem capping_keeps_all_voice:
  assumes "0 < cap" "sorted_wrt follows voice"
  shows "\<exists>out. merge_and_cap_vad_segments cap voice = Some out \<and> (\<forall>(a, b) \<in> set out. b - a \<le> cap) \<and>
    (\<forall>t. covers voice t \<longrightarrow> covers out t)"
proof -
  have "covers (rev (fold (merge_voice cap) voice [])) t" if "covers voice t" for t
    using merge_voice_covers [OF assms(2), of "[]" t cap] that by (simp add: covers_def)
  then show ?thesis
    using cap_voice_total [OF assms(1)] unfolding merge_and_cap_vad_segments_def by blast
qed

text \<open>With a cap of zero or less a voiced stretch sends the chunking loop round forever.\<close>

theorem nonpositive_cap_never_returns:
  assumes "cap \<le> 0" "s < e"
  shows "merge_and_cap_vad_segments cap [(s, e)] = None"
proof -
  have "voice_chunks cap s e = None" using voice_chunks_stuck [of cap s e] assms by (cases "voice_chunks cap s e") auto
  then show ?thesis using assms by (simp add: merge_and_cap_vad_segments_def)
qed

section \<open>Byte ranges\<close>

definition parse_range_header :: "string \<Rightarrow> int \<Rightarrow> (int \<times> int) option" where
  "parse_range_header range_header file_size =
     (if take 6 range_header \<noteq> ''bytes='' then None
      else case split_on (CHR ''-'') (drop 6 range_header) of
        [start_str, end_str] \<Rightarrow>
          (case
             (if start_str \<noteq> '''' \<and> end_str = '''' then map_option (\<lambda>a. (a, file_size - 1)) (py_int start_str)
              else if start_str = '''' \<and> end_str \<noteq> '''' then
                map_option (\<lambda>n. (max 0 (file_size - n), file_size - 1)) (py_int end_str)
              else do { a \<leftarrow> py_int start_str; b \<leftarrow> py_int end_str; Some (a, b) }) of
             None \<Rightarrow> None
           | Some (a, b) \<Rightarrow>
               if a < 0 \<or> a \<ge> file_size \<or> a > b then None else Some (a, min b (file_size - 1)))
      | _ \<Rightarrow> None)"

lemma dash_not_in_show_int: "0 \<le> i \<Longrightarrow> CHR ''-'' \<notin> set (show_int i)"
  using show_nat_digits [of "nat i"] digit_not_blank_or_sign [of "CHR ''-''"] by (auto simp: show_int_def)

lemma show_int_not_Nil: "show_int i \<noteq> ''''"
  using show_nat_digits by (auto simp: show_int_def)

text \<open>A byte range that is accepted lies within the file, and the three forms of a range request
  mean what they say: from first to last byte with the last clamped to the file, from a first byte to
  the end, and the last so many bytes.\<close>

theorem range_request_round_trip:
  assumes "0 \<le> a" "a < file_size" "a \<le> b" "0 < n"
  shows "(\<forall>h x y. parse_range_header h file_size = Some (x, y) \<longrightarrow> 0 \<le> x \<and> x \<le> y \<and> y < file_size) \<and>
    parse_range_header (''bytes='' @ show_int a @ ''-'' @ show_int b) file_size = Some (a, min b (file_size - 1)) \<and>
    parse_range_header (''bytes='' @ show_int a @ ''-'') file_size = Some (a, file_size - 1) \<and>
    parse_range_header (''bytes=-'' @ show_int n) file_size = Some (max 0 (file_size - n), file_size - 1)"
proof (intro conjI allI impI)
  fix h x y
  assume "parse_range_header h file_size = Some (x, y)"
  then show "0 \<le> x" "x \<le> y" "y < file_size"
    by (auto simp: parse_range_header_def split: list.splits if_splits option.splits)
next
  show "parse_range_header (''bytes='' @ show_int a @ ''-'' @ show_int b) file_size = Some (a, min b (file_size - 1))"
    using assms split_on_append [OF dash_not_in_show_int [of a], of "show_int b"] split_on_plain [OF dash_not_in_show_int [of b]]
    by (simp add: parse_range_header_def py_int_show_int show_int_not_Nil)
  show "parse_range_header (''bytes='' @ show_int a @ ''-'') file_size = Some (a, file_size - 1)"
    using assms split_on_append [OF dash_not_in_show_int [of a], of "[]"]
    by (simp add: parse_range_header_def py_int_show_int show_int_not_Nil)
  show "parse_range_header (''bytes=-'' @ show_int n) file_size = Some (max 0 (file_size - n), file_size - 1)"
    using assms split_on_plain [OF dash_not_in_show_int [of n]]
    by (auto simp: parse_range_header_def py_int_show_int show_int_not_Nil max_def)
qed

section \<open>Audio of a line\<close>

definition PCM16_16K_BYTES_PER_SEC :: rat where
  "PCM16_16K_BYTES_PER_SEC = 16000 * 2"

definition byte_at :: "rat \<Rightarrow> int" where
  "byte_at t = max 0 \<lfloor>t * PCM16_16K_BYTES_PER_SEC\<rfloor>"

definition aligned :: "int \<Rightarrow> nat" where
  "aligned b = nat (b - b mod 2)"

definition pcm16_16k_slice :: "'b list \<Rightarrow> rat \<Rightarrow> rat \<Rightarrow> 'b list" where
  "pcm16_16k_slice pcm start_s end_s =
     (let start_b = byte_at start_s;
          end_b = max start_b \<lfloor>end_s * PCM16_16K_BYTES_PER_SEC\<rfloor>;
          from = aligned start_b;
          upto = min (aligned end_b) (length pcm)
      in take (upto - from) (drop from pcm))"

lemma byte_at_mono: "s \<le> t \<Longrightarrow> byte_at s \<le> byte_at t"
  unfolding byte_at_def PCM16_16K_BYTES_PER_SEC_def by (intro max.mono floor_mono) simp_all

lemma aligned_mono: "0 \<le> a \<Longrightarrow> a \<le> b \<Longrightarrow> aligned a \<le> aligned b"
  unfolding aligned_def by (rule nat_mono) presburger

lemma pcm16_16k_slice_eq:
  "0 \<le> s \<Longrightarrow> s \<le> e \<Longrightarrow>
     pcm16_16k_slice pcm s e = take (min (aligned (byte_at e)) (length pcm) - aligned (byte_at s)) (drop (aligned (byte_at s)) pcm)"
proof -
  assume "0 \<le> s" "s \<le> e"
  then have "max (byte_at s) \<lfloor>e * PCM16_16K_BYTES_PER_SEC\<rfloor> = byte_at e"
    using byte_at_mono [of s e] by (auto simp: byte_at_def)
  then show ?thesis by (simp add: pcm16_16k_slice_def Let_def)
qed

text \<open>Slices of adjoining lines adjoin: nothing is lost or repeated at the boundary.\<close>

theorem adjoining_slices:
  assumes "0 \<le> a" "a \<le> b" "b \<le> c"
  shows "pcm16_16k_slice pcm a b @ pcm16_16k_slice pcm b c = pcm16_16k_slice pcm a c"
proof -
  let ?i = "\<lambda>t. aligned (byte_at t)"
  have mono: "?i a \<le> ?i b" "?i b \<le> ?i c"
    using assms byte_at_mono by (auto intro!: aligned_mono simp: byte_at_def)
  have "take (?i b - ?i a) (drop (?i a) pcm) @ take (min (?i c) (length pcm) - ?i b) (drop (?i b) pcm) =
      take (min (?i c) (length pcm) - ?i a) (drop (?i a) pcm)" if "?i b \<le> length pcm"
    using mono that take_add [of "?i b - ?i a" "min (?i c) (length pcm) - ?i b" "drop (?i a) pcm"]
    by (simp add: drop_drop min_def split: if_splits)
  then show ?thesis
    using mono assms by (cases "?i b \<le> length pcm") (simp_all add: pcm16_16k_slice_eq min_def)
qed

section \<open>Repeated lines\<close>

text \<open>A transcript segment with the time it was spoken; \<open>sg_data\<close> stands for the fields the merge only
  carries along (id, speaker, language).\<close>

record segment =
  sg_text :: "string option"
  sg_start :: rat
  sg_end :: rat
  sg_timestamp :: rat
  sg_data :: string

text \<open>\<^verbatim>\<open>s.split()\<close> and \<^verbatim>\<open>' '.join\<close>.\<close>

fun split_blanks :: "string \<Rightarrow> string list" where
  "split_blanks [] = [[]]"
| "split_blanks (c # s) =
     (if is_space c then [] # split_blanks s
      else (case split_blanks s of p # ps \<Rightarrow> (c # p) # ps | [] \<Rightarrow> [[c]]))"

definition py_words :: "string \<Rightarrow> string list" where
  "py_words s = filter (\<lambda>w. w \<noteq> []) (split_blanks s)"

fun join_words :: "string list \<Rightarrow> string" where
  "join_words [] = []"
| "join_words [w] = w"
| "join_words (w # ws) = w @ '' '' @ join_words ws"

definition normalize_merge_segment_text :: "string option \<Rightarrow> string" where
  "normalize_merge_segment_text text = join_words (py_words (map lower_char (strip (str_or text ''''))))"

definition text_eligible_for_slop_dedupe :: "string \<Rightarrow> bool" where
  "text_eligible_for_slop_dedupe text \<longleftrightarrow> length text \<ge> 20 \<or> length (py_words text) \<ge> 4"

text \<open>\<^verbatim>\<open>round(x, 2)\<close> in hundredths, ties to even.\<close>

definition round2 :: "rat \<Rightarrow> int" where
  "round2 x =
     (let y = 100 * x; f = \<lfloor>y\<rfloor>; d = y - of_int f
      in if d < 1 / 2 then f else if d > 1 / 2 then f + 1 else if even f then f else f + 1)"

definition segment_abs_range :: "segment \<Rightarrow> rat \<times> rat" where
  "segment_abs_range g = (sg_timestamp g, sg_timestamp g + (sg_end g - sg_start g))"

definition round_range :: "rat \<times> rat \<Rightarrow> int \<times> int" where
  "round_range r = (round2 (fst r), round2 (snd r))"

record text_entry =
  te_text :: string
  te_start :: rat
  te_duration :: rat

definition abs_key :: "segment \<Rightarrow> int \<times> int" where
  "abs_key g = round_range (segment_abs_range g)"

definition rel_key :: "rat \<Rightarrow> segment \<Rightarrow> int \<times> int" where
  "rel_key started g = round_range (fst (segment_abs_range g) - started, snd (segment_abs_range g) - started)"

definition text_index :: "segment list \<Rightarrow> text_entry list" where
  "text_index existing =
     map (\<lambda>g. \<lparr>te_text = normalize_merge_segment_text (sg_text g), te_start = sg_timestamp g,
               te_duration = max 0 (snd (segment_abs_range g) - fst (segment_abs_range g))\<rparr>)
       (filter (\<lambda>g. normalize_merge_segment_text (sg_text g) \<noteq> '''') existing)"

definition is_text_clock_offset_duplicate :: "rat \<Rightarrow> rat \<Rightarrow> text_entry list \<Rightarrow> string \<Rightarrow> rat \<Rightarrow> rat \<Rightarrow> bool" where
  "is_text_clock_offset_duplicate slop ratio index text abs_start duration \<longleftrightarrow>
     text_eligible_for_slop_dedupe text \<and>
     list_ex (\<lambda>e. te_text e = text \<and>
       \<bar>duration - te_duration e\<bar> / max (max duration (te_duration e)) (1 / 1000) \<le> ratio \<and>
       \<bar>abs_start - te_start e\<bar> \<le> slop) index"

definition text_duplicate :: "rat \<Rightarrow> rat \<Rightarrow> text_entry list \<Rightarrow> segment \<Rightarrow> bool" where
  "text_duplicate slop ratio index g =
     is_text_clock_offset_duplicate slop ratio index (normalize_merge_segment_text (sg_text g)) (sg_timestamp g)
       (max 0 (snd (segment_abs_range g) - fst (segment_abs_range g)))"

definition dedupe_segments_for_merge :: "rat \<Rightarrow> rat \<Rightarrow> rat \<Rightarrow> segment list \<Rightarrow> segment list \<Rightarrow> segment list" where
  "dedupe_segments_for_merge slop ratio started existing incoming =
     (let existing_abs = abs_key ` set existing;
          existing_rel = (\<lambda>g. round_range (sg_start g, sg_end g)) ` set existing;
          index = text_index existing;
          survivors = filter (\<lambda>g. abs_key g \<notin> existing_abs \<and> rel_key started g \<notin> existing_rel) incoming
      in if survivors = [] \<or> index = [] then survivors
         else
           let flags = map (text_duplicate slop ratio index) survivors;
               count = length (filter (\<lambda>b. b) flags)
           in if count \<ge> 2 \<or> (count = length survivors \<and> count \<ge> 1)
              then map fst (filter (\<lambda>p. \<not> snd p) (zip survivors flags))
              else survivors)"

definition MERGE_TEXT_DUP_SLOP_SECONDS :: rat where
  "MERGE_TEXT_DUP_SLOP_SECONDS = 10 * 60"

definition MERGE_TEXT_DUP_DURATION_RATIO :: rat where
  "MERGE_TEXT_DUP_DURATION_RATIO = 1 / 4"

text \<open>The merge of an upload into a conversation: times are assigned, repeated lines dropped, and the
  rest sorted in and expressed relative to the conversation. \<open>None\<close>: nothing new, the conversation
  is left alone.\<close>

definition assign_time :: "rat \<Rightarrow> segment \<Rightarrow> segment" where
  "assign_time origin g = g\<lparr>sg_timestamp := origin + sg_start g\<rparr>"

definition rebase :: "rat \<Rightarrow> segment \<Rightarrow> segment" where
  "rebase started g =
     g\<lparr>sg_start := sg_timestamp g - started, sg_end := sg_timestamp g - started + (sg_end g - sg_start g)\<rparr>"

definition merge_upload :: "rat \<Rightarrow> segment list \<Rightarrow> rat \<Rightarrow> segment list \<Rightarrow> segment list option" where
  "merge_upload started stored timestamp transcript =
     (let incoming = map (assign_time timestamp) transcript;
          existing = map (assign_time started) stored;
          deduped = dedupe_segments_for_merge MERGE_TEXT_DUP_SLOP_SECONDS MERGE_TEXT_DUP_DURATION_RATIO started
                      existing incoming
      in if deduped = [] then None
         else Some (map (rebase started) (sort_key sg_timestamp (existing @ deduped))))"

lemma filter_zip_map: "map fst (filter (\<lambda>p. \<not> snd p) (zip xs (map P xs))) = filter (\<lambda>x. \<not> P x) xs"
  by (induction xs) auto

lemma count_flags: "length (filter (\<lambda>b. b) (map P xs)) = length (filter P xs)"
  by (induction xs) auto

text \<open>A line is already there by its place in time, or by its words.\<close>

definition placed :: "rat \<Rightarrow> segment list \<Rightarrow> segment \<Rightarrow> bool" where
  "placed started existing g \<longleftrightarrow>
     abs_key g \<in> abs_key ` set existing \<or> rel_key started g \<in> (\<lambda>g. round_range (sg_start g, sg_end g)) ` set existing"

lemma dedupe_cases:
  fixes slop ratio started existing incoming
  defines "dup \<equiv> text_duplicate slop ratio (text_index existing)"
  defines "left \<equiv> filter (\<lambda>g. \<not> placed started existing g) incoming"
  shows "dedupe_segments_for_merge slop ratio started existing incoming \<in> {left, filter (\<lambda>g. \<not> dup g) left}"
    and "left \<noteq> [] \<Longrightarrow> list_all dup left \<Longrightarrow> dedupe_segments_for_merge slop ratio started existing incoming = []"
proof -
  have eq: "dedupe_segments_for_merge slop ratio started existing incoming =
      (if left = [] \<or> text_index existing = [] then left
       else if length (filter dup left) \<ge> 2 \<or> (length (filter dup left) = length left \<and> length (filter dup left) \<ge> 1)
       then filter (\<lambda>g. \<not> dup g) left else left)"
    by (simp add: dedupe_segments_for_merge_def left_def dup_def placed_def Let_def filter_zip_map count_flags)
  show "dedupe_segments_for_merge slop ratio started existing incoming \<in> {left, filter (\<lambda>g. \<not> dup g) left}"
    by (simp add: eq)
  assume left: "left \<noteq> []" "list_all dup left"
  then have "text_index existing \<noteq> []"
    by (cases left) (auto simp: dup_def text_duplicate_def is_text_clock_offset_duplicate_def)
  moreover have "filter dup left = left" "filter (\<lambda>g. \<not> dup g) left = []"
    using left(2) by (simp_all add: list_all_iff filter_empty_conv)
  ultimately show "dedupe_segments_for_merge slop ratio started existing incoming = []"
    using left(1) by (cases left) (simp_all add: eq)
qed

lemma dedupe_shrinks: "subseq (dedupe_segments_for_merge slop ratio started existing incoming) incoming"
  using dedupe_cases(1) [of slop ratio started existing incoming] by (auto intro: subseq_order.trans subseq_filter_left)

lemma text_index_mono:
  "set (text_index xs) \<subseteq> set (text_index ys) \<Longrightarrow> text_duplicate slop ratio (text_index xs) g \<Longrightarrow> text_duplicate slop ratio (text_index ys) g"
  by (auto simp: text_duplicate_def is_text_clock_offset_duplicate_def list_ex_iff)

text \<open>A second pass over a list that holds the survivors of the first finds nothing new.\<close>

lemma second_pass_empty:
  assumes "abs_key ` set (existing @ dedupe_segments_for_merge slop ratio started existing incoming) \<subseteq> abs_key ` set existing'"
    and "(\<lambda>g. round_range (sg_start g, sg_end g)) ` set existing \<subseteq> (\<lambda>g. round_range (sg_start g, sg_end g)) ` set existing'"
    and "set (text_index existing) \<subseteq> set (text_index existing')"
  shows "dedupe_segments_for_merge slop ratio started existing' incoming = []"
proof -
  define first where "first = dedupe_segments_for_merge slop ratio started existing incoming"
  define left where "left = filter (\<lambda>g. \<not> placed started existing' g) incoming"
  have "text_duplicate slop ratio (text_index existing') g" if g: "g \<in> set left" for g
  proof -
    have "g \<in> set incoming" "\<not> placed started existing' g" using g by (simp_all add: left_def)
    moreover from this(2) have "\<not> placed started existing g" "abs_key g \<notin> abs_key ` set first"
      using assms(1,2) unfolding placed_def first_def by auto
    ultimately have "text_duplicate slop ratio (text_index existing) g"
      using dedupe_cases(1) [of slop ratio started existing incoming] by (auto simp flip: first_def)
    then show ?thesis by (rule text_index_mono [OF assms(3)])
  qed
  then have "list_all (text_duplicate slop ratio (text_index existing')) left" by (simp add: list_all_iff)
  then show ?thesis
    using dedupe_cases(1) [of slop ratio started existing' incoming]
      dedupe_cases(2) [of started existing' incoming slop ratio] by (cases "left = []") (auto simp flip: left_def)
qed

lemma rebased_again:
  "abs_key (assign_time started (rebase started g)) = abs_key g"
  "rebase started (assign_time started g) = assign_time started g"
  "text_index [assign_time started (rebase started g)] = text_index [g]"
  by (simp_all add: abs_key_def segment_abs_range_def assign_time_def rebase_def text_index_def)

lemma set_text_index: "set (text_index xs) = (\<Union>g \<in> set xs. set (text_index [g]))"
  by (auto simp: text_index_def split: if_splits)

text \<open>C22: Adding an upload to a conversation is safe to repeat. The conversation keeps every line it had,
  gains only lines of the upload, at least one and each at most once; and uploading the same audio
  again adds nothing, although lines recognised by their words were not stored.\<close>

theorem merging_again_adds_nothing:
  assumes "merge_upload started stored timestamp transcript = Some merged"
  shows "merge_upload started merged timestamp transcript = None \<and>
    (\<exists>added. added \<noteq> [] \<and> subseq added (map (assign_time timestamp) transcript) \<and>
       mset merged = mset (map (assign_time started) stored) + mset (map (rebase started) added))"
proof -
  define incoming where "incoming = map (assign_time timestamp) transcript"
  define existing where "existing = map (assign_time started) stored"
  define added where "added = dedupe_segments_for_merge MERGE_TEXT_DUP_SLOP_SECONDS MERGE_TEXT_DUP_DURATION_RATIO started
    existing incoming"
  have merged: "added \<noteq> []" "merged = map (rebase started) (sort_key sg_timestamp (existing @ added))"
    using assms by (auto simp: merge_upload_def Let_def added_def existing_def incoming_def split: if_splits)
  let ?again = "map (assign_time started) merged"
  have again: "set ?again = (\<lambda>g. assign_time started (rebase started g)) ` (set existing \<union> set added)"
    by (simp add: merged(2) image_image image_Un)
  have old: "assign_time started (rebase started g) = g" if "g \<in> set existing" for g
    using that by (auto simp: existing_def rebased_again(2)) (simp add: assign_time_def)
  have "abs_key ` set (existing @ added) \<subseteq> abs_key ` set ?again"
    unfolding again by (auto simp: image_image rebased_again(1))
  moreover have "set existing \<subseteq> set ?again" unfolding again using old by force
  moreover from this have "set (text_index existing) \<subseteq> set (text_index ?again)"
    unfolding set_text_index [of existing] set_text_index [of ?again] by blast
  ultimately have "merge_upload started merged timestamp transcript = None"
    using second_pass_empty [of existing _ _ started incoming ?again]
    by (simp add: merge_upload_def Let_def image_mono flip: incoming_def added_def)
  moreover have "map (rebase started) existing = existing"
    by (rule map_idI) (auto simp: existing_def rebased_again(2))
  then have "mset merged = mset existing + mset (map (rebase started) added)"
    by (simp add: merged(2)) (metis mset_map)
  ultimately show ?thesis
    using merged(1) dedupe_shrinks unfolding existing_def incoming_def added_def by blast
qed

section \<open>Instances\<close>

theorem capping_keeps_all_voice_witness:
  "\<exists>out. merge_and_cap_vad_segments 300 [(0, 400), (450, 500), (900, 910)] = Some out \<and> (\<forall>(a, b) \<in> set out. b - a \<le> 300) \<and>
     covers out 350"
proof -
  have "sorted_wrt follows [(0, 400), (450, 500), (900, 910)]" by (simp add: follows_def)
  moreover have "covers [(0, 400), (450, 500), (900, 910)] 350" by (simp add: covers_Cons)
  ultimately show ?thesis
    using capping_keeps_all_voice [of 300 "[(0, 400), (450, 500), (900, 910)]"] by auto
qed

theorem range_request_round_trip_witness:
  "parse_range_header ''bytes=2-99'' 10 = Some (2, 9) \<and> parse_range_header ''bytes=-3'' 10 = Some (7, 9)"
proof -
  have "show_int 2 = ''2''" "show_int 99 = ''99''" "show_int 3 = ''3''" by code_simp+
  then show ?thesis using range_request_round_trip [of 2 10 99 3] by simp
qed

definition sample_line :: segment where
  "sample_line = \<lparr>sg_text = Some ''See you tomorrow at nine'', sg_start = 1, sg_end = 3, sg_timestamp = 0, sg_data = ''s1''\<rparr>"

theorem merging_again_adds_nothing_witness:
  "\<exists>merged. merge_upload 100 [] 160 [sample_line] = Some merged \<and> merge_upload 100 merged 160 [sample_line] = None \<and>
     length merged = 1"
proof -
  obtain merged where merged: "merge_upload 100 [] 160 [sample_line] = Some merged" "length merged = 1"
    by (simp add: merge_upload_def dedupe_segments_for_merge_def text_index_def)
  then show ?thesis using merging_again_adds_nothing [OF merged(1)] by blast
qed

end
