(* ===== verification/List_Budget.thy ===== *)
theory List_Budget
  imports Prelude
begin

text \<open>
  The request-scoped budget of the list reads, \<^verbatim>\<open>backend/utils/other/list_budget.py\<close>: a deadline, a
  document allowance and a sticky exhaustion. A reading of the monotonic clock is an argument of
  every operation that takes one, in rational seconds. An operation returns its result or the
  exception it raises, together with the budget it leaves. What a Firestore call answers is an
  argument of the helpers that run it under a budget.
\<close>

section \<open>Errors\<close>

text \<open>\<open>Budget_Exhausted\<close> is \<^verbatim>\<open>ListReadBudgetExhausted\<close>, \<open>Backing_Store_Unavailable\<close> the typed 503 of the
  memory list with its detail and stream, \<open>Uncaught\<close> any other exception.\<close>

datatype list_error =
    Budget_Exhausted string
  | Backing_Store_Unavailable string string
  | Http_Error int string
  | Uncaught

datatype rpc_fault = Deadline_Exceeded | Rpc_Failed

section \<open>Configuration\<close>

definition LIST_READ_SERIALIZATION_HEADROOM_SECONDS :: rat where
  "LIST_READ_SERIALIZATION_HEADROOM_SECONDS = 6"

definition LIST_READ_DEFAULT_BUDGET_SECONDS :: rat where
  "LIST_READ_DEFAULT_BUDGET_SECONDS = 24"

definition LIST_READ_DEFAULT_MAX_DOCUMENTS :: int where
  "LIST_READ_DEFAULT_MAX_DOCUMENTS = 25000"

definition LIST_READ_MIN_RPC_SECONDS :: rat where
  "LIST_READ_MIN_RPC_SECONDS = 5 / 100"

text \<open>\<open>read_float\<close> is \<^verbatim>\<open>float(raw)\<close> on a finite decimal; \<open>None\<close> is a \<^verbatim>\<open>ValueError\<close>.\<close>

definition env_float :: "(string \<Rightarrow> rat option) \<Rightarrow> environ \<Rightarrow> string \<Rightarrow> rat option" where
  "env_float read_float env name =
     (case env name of None \<Rightarrow> None | Some raw \<Rightarrow> if strip raw = '''' then None else read_float raw)"

definition list_env_int :: "environ \<Rightarrow> string \<Rightarrow> int option" where
  "list_env_int env name =
     (case env name of None \<Rightarrow> None | Some raw \<Rightarrow> if strip raw = '''' then None else py_int raw)"

definition resolve_list_read_budget_seconds :: "(string \<Rightarrow> rat option) \<Rightarrow> environ \<Rightarrow> rat" where
  "resolve_list_read_budget_seconds read_float env =
     (case env_float read_float env ''OMI_LIST_READ_BUDGET_SECONDS'' of
        Some override \<Rightarrow> max 0 override
      | None \<Rightarrow>
          (case env_float read_float env ''HTTP_GET_TIMEOUT'' of
             Some http_get \<Rightarrow>
               if http_get > 0
               then min LIST_READ_DEFAULT_BUDGET_SECONDS (max 1 (http_get - LIST_READ_SERIALIZATION_HEADROOM_SECONDS))
               else LIST_READ_DEFAULT_BUDGET_SECONDS
           | None \<Rightarrow> LIST_READ_DEFAULT_BUDGET_SECONDS))"

definition resolve_list_read_max_documents :: "environ \<Rightarrow> int" where
  "resolve_list_read_max_documents env =
     (case list_env_int env ''OMI_LIST_READ_MAX_DOCUMENTS'' of
        Some override \<Rightarrow> if override > 0 then override else LIST_READ_DEFAULT_MAX_DOCUMENTS
      | None \<Rightarrow> LIST_READ_DEFAULT_MAX_DOCUMENTS)"

section \<open>The budget\<close>

record list_read_budget =
  lb_deadline :: rat
  lb_started :: rat
  lb_remaining :: int
  lb_max :: int
  lb_exhaustion :: "string option"
  lb_scanned :: int

definition new_budget :: "rat \<Rightarrow> rat \<Rightarrow> int \<Rightarrow> list_read_budget" where
  "new_budget deadline started docs =
     \<lparr>lb_deadline = deadline, lb_started = started, lb_remaining = docs, lb_max = docs, lb_exhaustion = None, lb_scanned = 0\<rparr>"

text \<open>\<^verbatim>\<open>ListReadBudget.for_request\<close>: \<open>stamp\<close> is the start the middleware recorded, ignored when it lies
  in the future.\<close>

definition for_request ::
  "(string \<Rightarrow> rat option) \<Rightarrow> environ \<Rightarrow> rat option \<Rightarrow> rat \<Rightarrow> rat option \<Rightarrow> int option \<Rightarrow> list_read_budget" where
  "for_request read_float env stamp now secs max_docs =
     (let started = (case stamp of Some t \<Rightarrow> if t > now then now else t | None \<Rightarrow> now);
          budget_seconds = (case secs of None \<Rightarrow> resolve_list_read_budget_seconds read_float env | Some x \<Rightarrow> max 0 x);
          docs = (case max_docs of None \<Rightarrow> resolve_list_read_max_documents env | Some n \<Rightarrow> n)
      in new_budget (started + budget_seconds) started docs)"

definition budget_truncated :: "list_read_budget \<Rightarrow> bool" where
  "budget_truncated b \<longleftrightarrow> lb_exhaustion b \<noteq> None"

definition remaining_seconds :: "rat \<Rightarrow> list_read_budget \<Rightarrow> rat" where
  "remaining_seconds now b = lb_deadline b - now"

definition remaining_documents :: "list_read_budget \<Rightarrow> int" where
  "remaining_documents b = max 0 (lb_remaining b)"

definition mark_exhausted :: "string \<Rightarrow> list_read_budget \<Rightarrow> list_read_budget" where
  "mark_exhausted reason b = (if lb_exhaustion b = None then b\<lparr>lb_exhaustion := Some reason\<rparr> else b)"

definition budget_check :: "rat \<Rightarrow> list_read_budget \<Rightarrow> (list_error + unit) \<times> list_read_budget" where
  "budget_check now b =
     (case lb_exhaustion b of
        Some reason \<Rightarrow> (Inl (Budget_Exhausted reason), b)
      | None \<Rightarrow>
          if lb_remaining b < 0 then (Inl (Budget_Exhausted ''documents''), b\<lparr>lb_exhaustion := Some ''documents''\<rparr>)
          else if now \<ge> lb_deadline b then (Inl (Budget_Exhausted ''deadline''), b\<lparr>lb_exhaustion := Some ''deadline''\<rparr>)
          else (Inr (), b))"

definition budget_charge :: "rat \<Rightarrow> int \<Rightarrow> list_read_budget \<Rightarrow> (list_error + unit) \<times> list_read_budget" where
  "budget_charge now documents b =
     (if documents \<le> 0 then budget_check now b
      else budget_check now (b\<lparr>lb_scanned := lb_scanned b + documents, lb_remaining := lb_remaining b - documents\<rparr>))"

definition rpc_timeout :: "rat \<Rightarrow> list_read_budget \<Rightarrow> (list_error + rat) \<times> list_read_budget" where
  "rpc_timeout now b =
     (let remaining = remaining_seconds now b in
      if remaining \<le> LIST_READ_MIN_RPC_SECONDS
      then (Inl (Budget_Exhausted ''deadline''), b\<lparr>lb_exhaustion := Some ''deadline''\<rparr>)
      else (Inr remaining, b))"

section \<open>Calls under a budget\<close>

text \<open>\<open>answer\<close> gives what the call returns for the timeout it is given; \<open>weight\<close> is the number of
  documents charged for a result, \<open>None\<close> when nothing is charged. Without a budget the call is made as it is and a deadline is
  an ordinary exception.\<close>

definition budgeted_call ::
  "('r \<Rightarrow> int option) \<Rightarrow> rat \<Rightarrow> rat \<Rightarrow> (rat option \<Rightarrow> rpc_fault + 'r) \<Rightarrow> list_read_budget option \<Rightarrow>
   (list_error + 'r) \<times> list_read_budget option" where
  "budgeted_call weight t1 t2 answer budget =
     (case budget of
        None \<Rightarrow> (case answer None of Inl _ \<Rightarrow> (Inl Uncaught, None) | Inr r \<Rightarrow> (Inr r, None))
      | Some b \<Rightarrow>
          (case rpc_timeout t1 b of
             (Inl e, b') \<Rightarrow> (Inl e, Some b')
           | (Inr timeout, b1) \<Rightarrow>
               (case answer (Some timeout) of
                  Inl Deadline_Exceeded \<Rightarrow> (Inl (Budget_Exhausted ''deadline''), Some (mark_exhausted ''deadline'' b1))
                | Inl Rpc_Failed \<Rightarrow> (Inl Uncaught, Some b1)
                | Inr r \<Rightarrow>
                    (case weight r of
                       None \<Rightarrow> (Inr r, Some b1)
                     | Some n \<Rightarrow>
                         (case budget_charge t2 n b1 of
                            (Inl e, b2) \<Rightarrow> (Inl e, Some b2)
                          | (Inr _, b2) \<Rightarrow> (Inr r, Some b2))))))"

definition budgeted_stream_list ::
  "rat \<Rightarrow> rat \<Rightarrow> (rat option \<Rightarrow> rpc_fault + 'd list) \<Rightarrow> list_read_budget option \<Rightarrow> (list_error + 'd list) \<times> list_read_budget option" where
  "budgeted_stream_list = budgeted_call (\<lambda>docs. Some (int (length docs)))"

definition budgeted_get_all ::
  "rat \<Rightarrow> rat \<Rightarrow> (rat option \<Rightarrow> rpc_fault + 'd list) \<Rightarrow> list_read_budget option \<Rightarrow> (list_error + 'd list) \<times> list_read_budget option" where
  "budgeted_get_all = budgeted_call (\<lambda>snapshots. Some (int (length snapshots)))"

text \<open>A document that does not exist (\<open>None\<close>) is not charged.\<close>

definition budgeted_document_get ::
  "rat \<Rightarrow> rat \<Rightarrow> (rat option \<Rightarrow> rpc_fault + 'd option) \<Rightarrow> list_read_budget option \<Rightarrow> (list_error + 'd option) \<times> list_read_budget option" where
  "budgeted_document_get = budgeted_call (map_option (\<lambda>_. 1))"

text \<open>\<^verbatim>\<open>budgeted_stream_iter\<close>: the rows yielded before the stream ends or the budget does. The
  stream is its rows, with a fault at its end when it fails there; \<open>clock n\<close> is the reading at the
  \<open>n\<close>-th row.\<close>

fun stream_iter_rows ::
  "(nat \<Rightarrow> rat) \<Rightarrow> nat \<Rightarrow> 'd list \<Rightarrow> rpc_fault option \<Rightarrow> list_read_budget \<Rightarrow> ('d list \<times> list_error option) \<times> list_read_budget" where
  "stream_iter_rows clock n [] fault b =
     (case fault of
        None \<Rightarrow> (([], None), b)
      | Some Deadline_Exceeded \<Rightarrow> (([], Some (Budget_Exhausted ''deadline'')), mark_exhausted ''deadline'' b)
      | Some Rpc_Failed \<Rightarrow> (([], Some Uncaught), b))"
| "stream_iter_rows clock n (d # ds) fault b =
     (case budget_charge (clock n) 1 b of
        (Inl e, b') \<Rightarrow> (([], Some e), b')
      | (Inr _, b') \<Rightarrow>
          (case stream_iter_rows clock (Suc n) ds fault b' of ((rows, e), b2) \<Rightarrow> ((d # rows, e), b2)))"

definition budgeted_stream_iter ::
  "(nat \<Rightarrow> rat) \<Rightarrow> 'd list \<Rightarrow> rpc_fault option \<Rightarrow> list_read_budget option \<Rightarrow> ('d list \<times> list_error option) \<times> list_read_budget option" where
  "budgeted_stream_iter clock ds fault budget =
     (case budget of
        None \<Rightarrow> ((ds, map_option (\<lambda>_. Uncaught) fault), None)
      | Some b \<Rightarrow>
          (case rpc_timeout (clock 0) b of
             (Inl e, b') \<Rightarrow> (([], Some e), Some b')
           | (Inr _, b1) \<Rightarrow> apsnd Some (stream_iter_rows clock 1 ds fault b1)))"

definition apply_truncation_header :: "list_read_budget option \<Rightarrow> (string \<rightharpoonup> string) \<Rightarrow> (string \<rightharpoonup> string)" where
  "apply_truncation_header budget headers =
     (case budget of
        Some b \<Rightarrow> if budget_truncated b then headers(''X-Omi-List-Truncated'' \<mapsto> ''true'') else headers
      | None \<Rightarrow> headers)"

section \<open>What a budget promises\<close>

datatype budget_op = Check | Charge int | Timeout | Mark string

definition dropr :: "('e + 'a) \<times> 'b \<Rightarrow> 'e list \<times> 'b" where
  "dropr r = (case r of (Inl e, b) \<Rightarrow> ([e], b) | (Inr _, b) \<Rightarrow> ([], b))"

fun budget_apply :: "rat \<times> budget_op \<Rightarrow> list_read_budget \<Rightarrow> list_error list \<times> list_read_budget" where
  "budget_apply (now, Check) b = dropr (budget_check now b)"
| "budget_apply (now, Charge n) b = dropr (budget_charge now n b)"
| "budget_apply (now, Timeout) b = dropr (rpc_timeout now b)"
| "budget_apply (now, Mark reason) b = ([], mark_exhausted reason b)"

text \<open>Any sequence of operations at any instants; the errors raised are collected.\<close>

fun budget_run :: "(rat \<times> budget_op) list \<Rightarrow> list_read_budget \<Rightarrow> list_error list \<times> list_read_budget" where
  "budget_run [] b = ([], b)"
| "budget_run (op # ops) b =
     (case budget_apply op b of (es, b1) \<Rightarrow> (case budget_run ops b1 of (es', b2) \<Rightarrow> (es @ es', b2)))"

lemma budget_check_cases:
  "budget_check now b =
     (case lb_exhaustion b of
        Some reason \<Rightarrow> (Inl (Budget_Exhausted reason), b)
      | None \<Rightarrow> if lb_remaining b < 0 \<or> lb_deadline b \<le> now
                then (let reason = if lb_remaining b < 0 then ''documents'' else ''deadline'' in
                      (Inl (Budget_Exhausted reason), b\<lparr>lb_exhaustion := Some reason\<rparr>))
                else (Inr (), b))"
  by (auto simp: budget_check_def Let_def split: option.splits)

lemma budget_apply_keeps:
  assumes "budget_apply op b = (es, b')"
  shows "lb_remaining b' + lb_scanned b' = lb_remaining b + lb_scanned b"
    and "lb_deadline b' = lb_deadline b"
    and "budget_truncated b \<or> es \<noteq> [] \<Longrightarrow> budget_truncated b'"
  using assms
  by (cases "(op, b)" rule: budget_apply.cases;
      auto simp: dropr_def budget_check_cases budget_charge_def rpc_timeout_def mark_exhausted_def budget_truncated_def
        Let_def split: option.splits if_splits prod.splits sum.splits)+

lemma budget_run_keeps:
  "budget_run ops b = (es, b') \<Longrightarrow>
   lb_remaining b' + lb_scanned b' = lb_remaining b + lb_scanned b \<and> lb_deadline b' = lb_deadline b \<and>
   (budget_truncated b \<or> es \<noteq> [] \<longrightarrow> budget_truncated b')"
proof (induction ops arbitrary: b es b')
  case (Cons op ops)
  obtain e1 b1 where s1: "budget_apply op b = (e1, b1)" by force
  obtain e2 b2 where s2: "budget_run ops b1 = (e2, b2)" by force
  have "b2 = b'" "es = e1 @ e2"
    using Cons.prems s1 s2 by auto
  then show ?case
    using Cons.IH [OF s2] budget_apply_keeps [OF s1] by auto
qed simp

text \<open>Over any sequence of operations on a request's budget every document charged is
  accounted for (scanned plus remaining is the allowance), an operation that raised leaves the
  budget truncated, so that the response carries the truncation header, and at any later
  instant a check succeeds exactly when the budget is not truncated, no more documents than the
  allowance were charged and the deadline lies ahead.\<close>

theorem budget_is_honest:
  assumes "budget_run ops (new_budget deadline started docs) = (errs, b)"
  shows "lb_scanned b + lb_remaining b = docs \<and>
    (errs \<noteq> [] \<longrightarrow> apply_truncation_header (Some b) headers ''X-Omi-List-Truncated'' = Some ''true'') \<and>
    (fst (budget_check now b) = Inr () \<longleftrightarrow> \<not> budget_truncated b \<and> lb_scanned b \<le> docs \<and> now < deadline)"
proof -
  have "lb_remaining b + lb_scanned b = docs" "lb_deadline b = deadline" "errs \<noteq> [] \<longrightarrow> budget_truncated b"
    using budget_run_keeps [OF assms] by (auto simp: new_budget_def)
  then show ?thesis
    by (auto simp: apply_truncation_header_def budget_check_cases budget_truncated_def Let_def split: option.splits)
qed

theorem budget_is_honest_witness:
  "fst (budget_run [(0, Charge 3), (1, Check)] (new_budget 10 0 2)) \<noteq> [] \<and>
   apply_truncation_header (Some (snd (budget_run [(0, Charge 3), (1, Check)] (new_budget 10 0 2)))) Map.empty
     ''X-Omi-List-Truncated'' = Some ''true''"
proof -
  have r: "budget_run [(0, Charge 3), (1, Check)] (new_budget 10 0 2) =
      ([Budget_Exhausted ''documents'', Budget_Exhausted ''documents''],
       snd (budget_run [(0, Charge 3), (1, Check)] (new_budget 10 0 2)))"
    by (simp add: dropr_def budget_check_def budget_charge_def new_budget_def)
  show ?thesis
    using budget_is_honest [OF r, of Map.empty 0] by (subst r) simp
qed

text \<open>A stream read row by row under a budget yields a prefix of the rows, no longer than what
  was left of the allowance, and the whole stream when nothing was raised.\<close>

theorem stream_iter_prefix:
  "stream_iter_rows clock n ds fault b = ((rows, e), b') \<Longrightarrow>
   (\<exists>rest. ds = rows @ rest) \<and> (e = None \<longrightarrow> rows = ds) \<and> int (length rows) \<le> max 0 (lb_remaining b)"
proof (induction clock n ds fault b arbitrary: rows e b' rule: stream_iter_rows.induct)
  case (2 clock n d ds fault b)
  obtain r b1 where c: "budget_charge (clock n) 1 b = (r, b1)" by force
  show ?case
  proof (cases r)
    case (Inl x)
    then show ?thesis using 2 c by auto
  next
    case (Inr u)
    obtain rows' e' b2 where s: "stream_iter_rows clock (Suc n) ds fault b1 = ((rows', e'), b2)"
      by (metis prod.exhaust)
    have b1: "lb_remaining b1 = lb_remaining b - 1" "0 \<le> lb_remaining b1"
      using c Inr by (auto simp: budget_charge_def budget_check_def split: option.splits if_splits)
    have out: "rows = d # rows'" "e = e'"
      using 2(2) c Inr s by auto
    show ?thesis
      using 2(1) [OF c [symmetric] _ s] Inr b1 out by auto
  qed
qed (auto split: option.splits rpc_fault.splits)

end
