(* ===== verification/Json_Syntax.thy ===== *)
theory Json_Syntax
  imports Json_Values "HOL-Library.Char_ord" "HOL-Library.List_Lexorder"
begin

text \<open>
  JSON as text: \<^verbatim>\<open>json.dumps(v, separators=(',', ':'))\<close> with its ASCII escapes, and
  \<^verbatim>\<open>json.loads\<close>, as the signed tokens of the program use them. A Python string is the list of
  its UTF-8 bytes. The parser is a recursive descent with fuel; the length of the text is
  enough, because every call consumes a character: \<open>loads_text_json_show\<close> proves that what was
  printed is read back. A float is its exact rational value, and the constants \<^verbatim>\<open>NaN\<close> and
  \<^verbatim>\<open>Infinity\<close>, which Python's parser also takes, are refused here.
\<close>

section \<open>Characters\<close>

abbreviation quote_char :: char where "quote_char \<equiv> CHR 0x22"
abbreviation backslash_char :: char where "backslash_char \<equiv> CHR 0x5C"

text \<open>The code points of a UTF-8 text, and the bytes of a code point. A text is well formed when
  it is the encoding of its code points, none of them a surrogate.\<close>

fun utf8_points :: "string \<Rightarrow> nat list" where
  "utf8_points [] = []"
| "utf8_points (a # s) =
     (let x = of_char a :: nat; low = (\<lambda>c. of_char c mod 64 :: nat) in
      if x \<ge> 240 then
        (case s of b # c # d # s' \<Rightarrow> ((((x mod 8) * 64 + low b) * 64 + low c) * 64 + low d) # utf8_points s'
                 | _ \<Rightarrow> x # utf8_points s)
      else if x \<ge> 224 then
        (case s of b # c # s' \<Rightarrow> (((x mod 16) * 64 + low b) * 64 + low c) # utf8_points s' | _ \<Rightarrow> x # utf8_points s)
      else if x \<ge> 192 then
        (case s of b # s' \<Rightarrow> ((x mod 32) * 64 + low b) # utf8_points s' | _ \<Rightarrow> x # utf8_points s)
      else x # utf8_points s)"

definition utf8_encode :: "nat \<Rightarrow> string" where
  "utf8_encode n =
     (if n < 128 then [char_of n]
      else if n < 2048 then [char_of (192 + n div 64), char_of (128 + n mod 64)]
      else if n < 65536 then [char_of (224 + n div 4096), char_of (128 + n div 64 mod 64), char_of (128 + n mod 64)]
      else [char_of (240 + n div 262144), char_of (128 + n div 4096 mod 64), char_of (128 + n div 64 mod 64),
            char_of (128 + n mod 64)])"

definition scalar_point :: "nat \<Rightarrow> bool" where
  "scalar_point n \<longleftrightarrow> n < 55296 \<or> 57343 < n \<and> n < 1114112"

definition valid_utf8 :: "string \<Rightarrow> bool" where
  "valid_utf8 s \<longleftrightarrow> list_all scalar_point (utf8_points s) \<and> concat (map utf8_encode (utf8_points s)) = s"

definition hex_char :: "nat \<Rightarrow> char" where
  "hex_char n = char_of (if n < 10 then 48 + n else 87 + n)"

definition hex_value :: "char \<Rightarrow> nat option" where
  "hex_value c =
     (let k = of_char c :: nat in
      if 48 \<le> k \<and> k \<le> 57 then Some (k - 48) else if 97 \<le> k \<and> k \<le> 102 then Some (k - 87)
      else if 65 \<le> k \<and> k \<le> 70 then Some (k - 55) else None)"

definition hex4_chars :: "nat \<Rightarrow> string" where
  "hex4_chars n = [hex_char (n div 4096 mod 16), hex_char (n div 256 mod 16), hex_char (n div 16 mod 16), hex_char (n mod 16)]"

fun read_hex4 :: "string \<Rightarrow> (nat \<times> string) option" where
  "read_hex4 (a # b # c # d # s) =
     (case (hex_value a, hex_value b, hex_value c, hex_value d) of
        (Some w, Some x, Some y, Some z) \<Rightarrow> Some (((w * 16 + x) * 16 + y) * 16 + z, s)
      | _ \<Rightarrow> None)"
| "read_hex4 _ = None"

section \<open>Printing\<close>

definition escape_u :: "nat \<Rightarrow> string" where
  "escape_u n = backslash_char # CHR ''u'' # hex4_chars n"

definition escape_letters :: "(nat \<times> char) list" where
  "escape_letters = [(34, quote_char), (92, backslash_char), (10, CHR ''n''), (13, CHR ''r''), (9, CHR ''t''), (12, CHR ''f''), (8, CHR ''b'')]"

definition show_point :: "nat \<Rightarrow> string" where
  "show_point n =
     (case map_of escape_letters n of
        Some c \<Rightarrow> [backslash_char, c]
      | None \<Rightarrow>
          if 32 \<le> n \<and> n \<le> 126 then [char_of n]
          else if n < 65536 then escape_u n
          else escape_u (55296 + (n - 65536) div 1024) @ escape_u (56320 + (n - 65536) mod 1024))"

definition show_string :: "string \<Rightarrow> string" where
  "show_string s = quote_char # concat (map show_point (utf8_points s)) @ [quote_char]"

fun join_with :: "char \<Rightarrow> string list \<Rightarrow> string" where
  "join_with c [] = []"
| "join_with c [x] = x"
| "join_with c (x # xs) = x @ c # join_with c xs"

text \<open>A float is printed here only when it is integral; no token of the program holds a float.\<close>

fun json_show :: "json \<Rightarrow> string" where
  "json_show JNull = ''null''"
| "json_show (JBool b) = (if b then ''true'' else ''false'')"
| "json_show (JInt i) = show_int i"
| "json_show (JFloat f) = show_int \<lfloor>f\<rfloor> @ ''.0''"
| "json_show (JStr s) = show_string s"
| "json_show (JList xs) = CHR ''['' # join_with (CHR '','') (map json_show xs) @ '']''"
| "json_show (JObj d) = CHR ''{'' # join_with (CHR '','') (map (\<lambda>(k, v). show_string k @ CHR '':'' # json_show v) d) @ ''}''"

section \<open>Parsing\<close>

definition skip_blanks :: "string \<Rightarrow> string" where
  "skip_blanks s = dropWhile (\<lambda>c. c = CHR '' '' \<or> c = CHR 0x09 \<or> c = CHR 0x0A \<or> c = CHR 0x0D) s"

definition letter_escape :: "char \<Rightarrow> nat option" where
  "letter_escape c = (if c = CHR ''/'' then Some 47 else map_of (map (\<lambda>(n, l). (l, n)) escape_letters) c)"

text \<open>What follows a backslash; the escapes of a surrogate pair make one character.\<close>

fun read_escape :: "string \<Rightarrow> (string \<times> string) option" where
  "read_escape [] = None"
| "read_escape (e # s) =
     (if e = CHR ''u'' then
        (case read_hex4 s of
           None \<Rightarrow> None
         | Some (n, s2) \<Rightarrow>
             if 55296 \<le> n \<and> n \<le> 56319 \<and> take 2 s2 = [backslash_char, CHR ''u''] then
               (case read_hex4 (drop 2 s2) of
                  None \<Rightarrow> None
                | Some (m, s3) \<Rightarrow>
                    if 56320 \<le> m \<and> m \<le> 57343
                    then Some (utf8_encode (65536 + (n - 55296) * 1024 + (m - 56320)), s3)
                    else Some (utf8_encode n, s2))
             else Some (utf8_encode n, s2))
      else map_option (\<lambda>n. (utf8_encode n, s)) (letter_escape e))"

lemma read_hex4_shorter: "read_hex4 s = Some (n, t) \<Longrightarrow> length t < length s"
  by (induction s rule: read_hex4.induct) (auto split: option.splits)

lemma read_escape_shorter: "read_escape s = Some (x, t) \<Longrightarrow> length t < length s"
  by (induction s rule: read_escape.induct)
    (auto split: if_splits option.splits dest!: read_hex4_shorter)

text \<open>The rest of a string after its opening quote.\<close>

function parse_string :: "string \<Rightarrow> (string \<times> string) option" where
  "parse_string [] = None"
| "parse_string (c # s) =
     (if c = quote_char then Some ([], s)
      else if c = backslash_char then
        (case read_escape s of
           None \<Rightarrow> None
         | Some (x, s1) \<Rightarrow> map_option (apfst (append x)) (parse_string s1))
      else if (of_char c :: nat) < 32 then None
      else map_option (apfst (Cons c)) (parse_string s))"
  by pat_completeness auto
termination
  by (relation "measure length") (auto dest!: read_escape_shorter)

definition is_digit :: "char \<Rightarrow> bool" where
  "is_digit c \<longleftrightarrow> digit_of c \<noteq> None"

text \<open>A number: \<open>-?(0|[1-9]\d*)(\.\d+)?([eE][-+]?\d+)?\<close>, an int when it has neither a
  fraction nor an exponent.\<close>

definition int_part :: "string \<Rightarrow> (string \<times> string) option" where
  "int_part s =
     (case s of
        [] \<Rightarrow> None
      | c # r \<Rightarrow> if c = CHR ''0'' then Some (''0'', r)
                 else if is_digit c then Some (takeWhile is_digit s, dropWhile is_digit s)
                 else None)"

definition frac_part :: "string \<Rightarrow> string \<times> string" where
  "frac_part s =
     (case s of
        [] \<Rightarrow> ([], s)
      | c # r \<Rightarrow> if c = CHR ''.'' \<and> takeWhile is_digit r \<noteq> [] then (takeWhile is_digit r, dropWhile is_digit r) else ([], s))"

definition exp_part :: "string \<Rightarrow> int option \<times> string" where
  "exp_part s =
     (case s of
        [] \<Rightarrow> (None, s)
      | c # r \<Rightarrow>
          if c = CHR ''e'' \<or> c = CHR ''E'' then
            (let neg = (take 1 r = ''-''); r' = (if take 1 r = ''-'' \<or> take 1 r = ''+'' then drop 1 r else r) in
             case read_digits 0 False (takeWhile is_digit r') of
               None \<Rightarrow> (None, s)
             | Some n \<Rightarrow> (Some (if neg then - int n else int n), dropWhile is_digit r'))
          else (None, s))"

definition scale10 :: "rat \<Rightarrow> int \<Rightarrow> rat" where
  "scale10 x e = (if 0 \<le> e then x * 10 ^ nat e else x / 10 ^ nat (- e))"

definition parse_number :: "string \<Rightarrow> (json \<times> string) option" where
  "parse_number s =
     (let neg = (take 1 s = ''-''); sgn = (if neg then -1 else 1 :: int) in
      case int_part (if neg then drop 1 s else s) of
        None \<Rightarrow> None
      | Some (ds, s1) \<Rightarrow>
          (case (frac_part s1, exp_part (snd (frac_part s1))) of
             ((fs, _), (e, s2)) \<Rightarrow>
               (case read_digits 0 False (ds @ fs) of
                  None \<Rightarrow> None
                | Some n \<Rightarrow>
                    if fs = [] \<and> e = None then Some (JInt (sgn * int n), s2)
                    else Some (JFloat (scale10 (of_int (sgn * int n)) ((case e of None \<Rightarrow> 0 | Some k \<Rightarrow> k) - int (length fs))), s2))))"

text \<open>\<open>parse_elems\<close> and \<open>parse_members\<close> read what follows the opening bracket of a list or an
  object that is not empty. A repeated key keeps its first position and its last value.\<close>

fun parse_value :: "nat \<Rightarrow> string \<Rightarrow> (json \<times> string) option"
  and parse_elems :: "nat \<Rightarrow> string \<Rightarrow> (json list \<times> string) option"
  and parse_members :: "nat \<Rightarrow> string \<Rightarrow> (jdict \<times> string) option" where
  "parse_value 0 s = None"
| "parse_value (Suc n) s =
     (case s of
        [] \<Rightarrow> None
      | c # r \<Rightarrow>
          if c = quote_char then map_option (apfst JStr) (parse_string r)
          else if c = CHR ''['' then
            (if take 1 (skip_blanks r) = '']'' then Some (JList [], drop 1 (skip_blanks r))
             else map_option (apfst JList) (parse_elems n (skip_blanks r)))
          else if c = CHR ''{'' then
            (if take 1 (skip_blanks r) = ''}'' then Some (JObj [], drop 1 (skip_blanks r))
             else map_option (apfst (\<lambda>ms. JObj (dict_update [] ms))) (parse_members n (skip_blanks r)))
          else if take 4 s = ''null'' then Some (JNull, drop 4 s)
          else if take 4 s = ''true'' then Some (JBool True, drop 4 s)
          else if take 5 s = ''false'' then Some (JBool False, drop 5 s)
          else parse_number s)"
| "parse_elems 0 s = None"
| "parse_elems (Suc n) s =
     (case parse_value n s of
        None \<Rightarrow> None
      | Some (v, r) \<Rightarrow>
          (case skip_blanks r of
             [] \<Rightarrow> None
           | c # r' \<Rightarrow>
               if c = CHR '']'' then Some ([v], r')
               else if c = CHR '','' then map_option (apfst (Cons v)) (parse_elems n (skip_blanks r'))
               else None))"
| "parse_members 0 s = None"
| "parse_members (Suc n) s =
     (case s of
        [] \<Rightarrow> None
      | q # r0 \<Rightarrow>
          if q \<noteq> quote_char then None
          else (case parse_string r0 of
             None \<Rightarrow> None
           | Some (k, r1) \<Rightarrow>
               if take 1 (skip_blanks r1) \<noteq> '':'' then None
               else (case parse_value n (skip_blanks (drop 1 (skip_blanks r1))) of
                  None \<Rightarrow> None
                | Some (v, r) \<Rightarrow>
                    (case skip_blanks r of
                       [] \<Rightarrow> None
                     | c # r' \<Rightarrow>
                         if c = CHR ''}'' then Some ([(k, v)], r')
                         else if c = CHR '','' then map_option (apfst (Cons (k, v))) (parse_members n (skip_blanks r'))
                         else None))))"

definition loads_text :: "string \<Rightarrow> json option" where
  "loads_text s =
     (if \<not> valid_utf8 s then None
      else case parse_value (length s) (skip_blanks s) of
             None \<Rightarrow> None
           | Some (v, r) \<Rightarrow> if skip_blanks r = [] then Some v else None)"

section \<open>Reading back what was printed\<close>

lemma hex_value_hex_char: "n < 16 \<Longrightarrow> hex_value (hex_char n) = Some n"
  by (auto simp: hex_value_def hex_char_def Let_def)

lemma read_hex4_chars: "n < 65536 \<Longrightarrow> read_hex4 (hex4_chars n @ s) = Some (n, s)"
proof -
  assume n: "n < 65536"
  then have "n div 4096 mod 16 = n div 16 div 16 div 16" "n div 256 mod 16 = n div 16 div 16 mod 16"
    by (simp_all add: div_mult2_eq [symmetric])
  then have "((n div 4096 mod 16 * 16 + n div 256 mod 16) * 16 + n div 16 mod 16) * 16 + n mod 16 = n"
    by (simp only: div_mult_mod_eq)
  with n show ?thesis by (simp add: hex4_chars_def hex_value_hex_char)
qed

lemma take_drop_escape_u [simp]:
  "take 2 (escape_u n @ s) = [backslash_char, CHR ''u'']" "drop 2 (escape_u n @ s) = hex4_chars n @ s"
  by (simp_all add: escape_u_def)

lemma read_escape_u:
  "n < 65536 \<Longrightarrow> \<not> (55296 \<le> n \<and> n \<le> 56319) \<Longrightarrow> read_escape (CHR ''u'' # hex4_chars n @ s) = Some (utf8_encode n, s)"
  by (auto simp: read_hex4_chars)

lemma read_escape_pair:
  assumes "h < 1024" "l < 1024"
  shows "read_escape (CHR ''u'' # hex4_chars (55296 + h) @ escape_u (56320 + l) @ s) =
    Some (utf8_encode (65536 + h * 1024 + l), s)"
  using assms by (simp add: read_hex4_chars del: take_append drop_append)

lemma char_of_eqD: "char_of n = c \<Longrightarrow> n < 256 \<Longrightarrow> n = of_char c" for n :: nat
  by auto

lemma letter_escape_of: "map_of escape_letters n = Some c \<Longrightarrow> letter_escape c = Some n \<and> c \<noteq> CHR ''u''"
  by (auto simp: escape_letters_def letter_escape_def split: if_splits)

lemma Cons_eq_append: "append [c] = Cons c"
  by (simp add: fun_eq_iff)

lemma parse_string_point:
  assumes "scalar_point n"
  shows "parse_string (show_point n @ s) = map_option (apfst (append (utf8_encode n))) (parse_string s)"
proof (cases "map_of escape_letters n")
  case (Some c)
  then show ?thesis
    using letter_escape_of [OF Some] by (simp add: show_point_def)
next
  case None
  have plain: "char_of n \<noteq> quote_char \<and> char_of n \<noteq> backslash_char" if "32 \<le> n" "n \<le> 126"
    using None that by (auto simp: escape_letters_def dest!: char_of_eqD split: if_splits)
  consider "32 \<le> n" "n \<le> 126" | "\<not> (32 \<le> n \<and> n \<le> 126)" "n < 65536" | "65536 \<le> n"
    by linarith
  then show ?thesis
  proof cases
    case 1
    then show ?thesis
      using None plain by (simp add: show_point_def utf8_encode_def Cons_eq_append)
  next
    case 2
    then have "show_point n = escape_u n"
      using None by (auto simp: show_point_def)
    then show ?thesis
      using 2 assms read_escape_u [of n s]
      by (auto simp: escape_u_def scalar_point_def simp del: read_escape.simps)
  next
    case 3
    then have "(n - 65536) div 1024 < 1024"
      using assms by (simp add: scalar_point_def div_less_iff_less_mult)
    moreover have "65536 + (n - 65536) div 1024 * 1024 + (n - 65536) mod 1024 = n"
      using 3 by simp
    moreover have "show_point n = escape_u (55296 + (n - 65536) div 1024) @ escape_u (56320 + (n - 65536) mod 1024)"
      using 3 None by (auto simp: show_point_def)
    ultimately show ?thesis
      using read_escape_pair [of "(n - 65536) div 1024" "(n - 65536) mod 1024" s]
      by (simp add: escape_u_def [of "55296 + _"] del: read_escape.simps)
  qed
qed

lemma parse_string_points:
  "list_all scalar_point ps \<Longrightarrow>
   parse_string (concat (map show_point ps) @ quote_char # s) = Some (concat (map utf8_encode ps), s)"
  by (induction ps) (simp_all add: parse_string_point)

lemma parse_show_string:
  "valid_utf8 t \<Longrightarrow> parse_string (concat (map show_point (utf8_points t)) @ quote_char # s) = Some (t, s)"
  by (simp add: valid_utf8_def parse_string_points)

text \<open>Numbers: the printed digits end where the list or the object goes on.\<close>

definition value_end :: "string \<Rightarrow> bool" where
  "value_end s \<longleftrightarrow> (case s of [] \<Rightarrow> True | c # _ \<Rightarrow> c = CHR '','' \<or> c = CHR '']'' \<or> c = CHR ''}'')"

lemma value_end_digits: "value_end s \<Longrightarrow> takeWhile is_digit s = [] \<and> dropWhile is_digit s = s"
  by (auto simp: value_end_def is_digit_def digit_of_def split: list.splits)

lemma value_end_parts: "value_end s \<Longrightarrow> frac_part s = ([], s) \<and> exp_part s = (None, s)"
  by (auto simp: value_end_def frac_part_def exp_part_def split: list.splits)

lemma show_nat_is_digit: "c \<in> set (show_nat n) \<Longrightarrow> is_digit c"
  using show_nat_digits [of n] by (simp add: is_digit_def)

lemma hd_show_nat: "0 < n \<Longrightarrow> hd (show_nat n) \<noteq> CHR ''0''"
proof (induction n rule: show_nat.induct)
  case (1 n)
  show ?case
  proof (cases "n < 10")
    case True
    then show ?thesis
      using 1 by (subst show_nat.simps) (auto dest: char_of_eqD)
  next
    case False
    then show ?thesis
      using 1 show_nat_digits [of "n div 10"] by (subst show_nat.simps) simp
  qed
qed

lemma int_part_show_nat:
  assumes "value_end s"
  shows "int_part (show_nat n @ s) = Some (show_nat n, s)"
proof (cases "n = 0")
  case True
  moreover have "char_of (48 :: nat) = CHR ''0''" by code_simp
  ultimately show ?thesis by (simp add: int_part_def show_nat.simps [of 0])
next
  case False
  then obtain c cs where c: "show_nat n = c # cs" "c \<noteq> CHR ''0''"
    using hd_show_nat [of n] show_nat_digits [of n] by (cases "show_nat n") auto
  have "takeWhile is_digit (show_nat n @ s) = show_nat n" "dropWhile is_digit (show_nat n @ s) = s"
    using value_end_digits [OF assms] by (simp_all add: takeWhile_append dropWhile_append show_nat_is_digit)
  then show ?thesis
    using c show_nat_is_digit [of c n] by (simp add: int_part_def)
qed

lemma parse_number_show_int:
  assumes "value_end s"
  shows "parse_number (show_int i @ s) = Some (JInt i, s)"
proof -
  obtain c cs where c: "show_nat (nat i) = c # cs" "c \<noteq> CHR ''-''"
    using show_nat_digits [of "nat i"] digit_not_blank_or_sign by (cases "show_nat (nat i)") auto
  show ?thesis
  proof (cases "i < 0")
    case True
    then show ?thesis
      using assms by (simp add: parse_number_def show_int_def int_part_show_nat value_end_parts read_show_nat)
  next
    case False
    then have "take 1 (show_int i @ s) \<noteq> ''-''"
      using c by (simp add: show_int_def)
    then show ?thesis
      using False assms
      by (simp add: parse_number_def show_int_def int_part_show_nat value_end_parts read_show_nat Let_def)
  qed
qed

text \<open>The values whose text is read back: well-formed strings, distinct keys, no floats.\<close>

fun json_printable :: "json \<Rightarrow> bool" where
  "json_printable JNull = True"
| "json_printable (JBool b) = True"
| "json_printable (JInt i) = True"
| "json_printable (JFloat f) = False"
| "json_printable (JStr s) = valid_utf8 s"
| "json_printable (JList xs) = list_all json_printable xs"
| "json_printable (JObj d) = (distinct (map fst d) \<and> list_all (\<lambda>(k, v). valid_utf8 k \<and> json_printable v) d)"

definition is_blank :: "char \<Rightarrow> bool" where
  "is_blank c \<longleftrightarrow> c = CHR '' '' \<or> c = CHR 0x09 \<or> c = CHR 0x0A \<or> c = CHR 0x0D"

lemma skip_blanks_simps [simp]:
  "skip_blanks [] = []" "\<not> is_blank c \<Longrightarrow> skip_blanks (c # s) = c # s"
  by (auto simp: skip_blanks_def is_blank_def)

lemma not_blank_simps [simp]:
  "\<not> is_blank quote_char" "\<not> is_blank (CHR ''['')" "\<not> is_blank (CHR '']'')" "\<not> is_blank (CHR ''{'')"
  "\<not> is_blank (CHR ''}'')" "\<not> is_blank (CHR '','')" "\<not> is_blank (CHR '':'')"
  by (simp_all add: is_blank_def)

definition value_start :: "char \<Rightarrow> bool" where
  "value_start c \<longleftrightarrow> \<not> is_blank c \<and> c \<noteq> CHR '']'' \<and> c \<noteq> CHR ''}''"

lemma digit_starts:
  "is_digit c \<Longrightarrow> value_start c \<and> c \<noteq> quote_char \<and> c \<noteq> CHR ''['' \<and> c \<noteq> CHR ''{'' \<and> c \<noteq> CHR ''n'' \<and> c \<noteq> CHR ''t'' \<and> c \<noteq> CHR ''f''"
  by (auto simp: is_digit_def digit_of_def value_start_def is_blank_def Let_def split: if_splits)

lemma show_int_start:
  obtains c s where "show_int i = c # s" "c = CHR ''-'' \<or> is_digit c"
proof (cases "show_int i")
  case Nil
  then show ?thesis using show_nat_digits by (simp add: show_int_def split: if_splits)
next
  case (Cons c s)
  then have "c = CHR ''-'' \<or> is_digit c"
    using show_nat_is_digit [of c "nat i"] by (auto simp: show_int_def split: if_splits)
  then show ?thesis using that Cons by blast
qed

lemma json_show_start:
  assumes "json_printable v"
  obtains c s where "json_show v = c # s" "value_start c"
proof (cases v)
  case (JInt i)
  obtain c s where "show_int i = c # s" "c = CHR ''-'' \<or> is_digit c"
    by (rule show_int_start)
  then show ?thesis
    using that JInt digit_starts [of c] by (auto simp: value_start_def is_blank_def)
next
  case (JBool b)
  then show ?thesis
    using that by (cases b) (auto simp: value_start_def is_blank_def)
qed (use assms that in \<open>auto simp: show_string_def value_start_def is_blank_def split: if_splits\<close>)

lemma skip_blanks_json_show: "json_printable v \<Longrightarrow> skip_blanks (json_show v @ s) = json_show v @ s"
  by (erule json_show_start) (simp add: value_start_def)

lemma dict_update_distinct:
  "distinct (map fst d @ map fst e) \<Longrightarrow> dict_update d e = d @ e"
proof (induction e arbitrary: d)
  case (Cons p e)
  have "AList.update (fst p) (snd p) d = d @ [p]"
    using Cons.prems by (induction d) auto
  then show ?case
    using Cons by (cases p) auto
qed simp

lemma parse_value_scalar_int:
  assumes "value_end s" "length (show_int i) \<le> n"
  shows "parse_value n (show_int i @ s) = Some (JInt i, s)"
proof -
  obtain c r where c: "show_int i = c # r" "c = CHR ''-'' \<or> is_digit c"
    by (rule show_int_start)
  then obtain m where "n = Suc m"
    using assms(2) by (cases n) auto
  moreover have "c \<noteq> quote_char" "c \<noteq> CHR ''[''" "c \<noteq> CHR ''{''" "c \<noteq> CHR ''n''" "c \<noteq> CHR ''t''" "c \<noteq> CHR ''f''"
    using c(2) digit_starts by auto
  ultimately show ?thesis
    using parse_number_show_int [OF assms(1), of i] c(1) by simp
qed

abbreviation show_member :: "string \<times> json \<Rightarrow> string" where
  "show_member \<equiv> \<lambda>(k, v). show_string k @ CHR '':'' # json_show v"

abbreviation read_back :: "json \<Rightarrow> bool" where
  "read_back v \<equiv> \<forall>n s. value_end s \<longrightarrow> length (json_show v) \<le> n \<longrightarrow> parse_value n (json_show v @ s) = Some (v, s)"

lemma value_end_simps [simp]:
  "value_end []" "value_end (CHR '','' # s)" "value_end (CHR '']'' # s)" "value_end (CHR ''}'' # s)"
  by (simp_all add: value_end_def)

lemma parse_elems_show:
  assumes "xs \<noteq> []" "list_all json_printable xs" "\<forall>v \<in> set xs. read_back v"
    "length (join_with (CHR '','') (map json_show xs)) < n"
  shows "parse_elems n (join_with (CHR '','') (map json_show xs) @ CHR '']'' # s) = Some (xs, s)"
  using assms
proof (induction xs arbitrary: n)
  case (Cons v xs)
  obtain m where n: "n = Suc m"
    using Cons.prems by (cases n) auto
  show ?case
  proof (cases xs)
    case Nil
    then show ?thesis using Cons.prems n by simp
  next
    case (Cons w ws)
    have "parse_elems m (join_with (CHR '','') (map json_show xs) @ CHR '']'' # s) = Some (xs, s)"
      using Cons.prems Cons n by (intro Cons.IH) auto
    moreover obtain c r where "json_show w = c # r" "value_start c"
      using Cons.prems Cons json_show_start [of w] by auto
    ultimately show ?thesis
      using Cons.prems Cons n by (cases ws) (auto simp: value_start_def)
  qed
qed simp

lemma parse_members_step:
  assumes "valid_utf8 k" "json_printable v" "read_back v" "value_end s" "length (show_member (k, v)) \<le> Suc n"
  shows "parse_members (Suc n) (show_member (k, v) @ s) =
    (case skip_blanks s of
       [] \<Rightarrow> None
     | c # r' \<Rightarrow> if c = CHR ''}'' then Some ([(k, v)], r')
                else if c = CHR '','' then map_option (apfst (Cons (k, v))) (parse_members n (skip_blanks r'))
                else None)"
proof -
  have "parse_value n (json_show v @ s) = Some (v, s)"
    using assms by (simp add: show_string_def)
  then show ?thesis
    using assms(1,2) by (simp add: show_string_def parse_show_string skip_blanks_json_show)
qed

lemma parse_members_show:
  assumes "d \<noteq> []" "list_all (\<lambda>(k, v). valid_utf8 k \<and> json_printable v) d" "\<forall>(k, v) \<in> set d. read_back v"
    "length (join_with (CHR '','') (map show_member d)) < n"
  shows "parse_members n (join_with (CHR '','') (map show_member d) @ CHR ''}'' # s) = Some (d, s)"
  using assms
proof (induction d arbitrary: n)
  case (Cons p d)
  obtain k v where p: "p = (k, v)" by force
  obtain m where n: "n = Suc m"
    using Cons.prems by (cases n) auto
  have ok: "valid_utf8 k" "json_printable v" "read_back v"
    using Cons.prems p by auto
  show ?case
  proof (cases d)
    case Nil
    then have "length (show_member (k, v)) \<le> Suc m"
      using Cons.prems p n by simp
    from parse_members_step [OF ok _ this, of "CHR ''}'' # s"] show ?thesis
      using Nil p n by simp
  next
    case (Cons q e)
    let ?rest = "join_with (CHR '','') (map show_member d) @ CHR ''}'' # s"
    have joined: "join_with (CHR '','') (map show_member (p # d)) @ CHR ''}'' # s = show_member (k, v) @ CHR '','' # ?rest"
      using Cons p by simp
    have len: "length (show_member (k, v)) \<le> Suc m"
      using Cons.prems Cons p n by simp
    have "parse_members m ?rest = Some (d, s)"
      using Cons.prems Cons n by (intro Cons.IH) auto
    moreover have "skip_blanks ?rest = ?rest"
      using Cons by (cases q; cases e) (simp_all add: show_string_def)
    ultimately show ?thesis
      using parse_members_step [OF ok _ len, of "CHR '','' # ?rest"] unfolding joined
      by (simp add: n p del: parse_members.simps)
  qed
qed simp

lemma parse_value_list:
  assumes "list_all json_printable xs" "\<forall>v \<in> set xs. read_back v"
  shows "read_back (JList xs)"
proof (intro allI impI)
  fix n s
  assume len: "length (json_show (JList xs)) \<le> n"
  then obtain m where n: "n = Suc m" by (cases n) auto
  show "parse_value n (json_show (JList xs) @ s) = Some (JList xs, s)"
  proof (cases xs)
    case Nil
    then show ?thesis using n by simp
  next
    case (Cons v ws)
    let ?body = "join_with (CHR '','') (map json_show xs) @ CHR '']'' # s"
    obtain c r where "json_show v = c # r" "value_start c"
      using assms Cons json_show_start [of v] by auto
    then obtain r' where "?body = c # r'"
      using Cons by (cases ws) auto
    moreover have "parse_elems m ?body = Some (xs, s)"
      using assms len Cons n by (intro parse_elems_show) auto
    ultimately show ?thesis
      using \<open>value_start c\<close> n by (simp add: value_start_def)
  qed
qed

lemma parse_value_obj:
  assumes "json_printable (JObj d)" "\<forall>(k, v) \<in> set d. read_back v"
  shows "read_back (JObj d)"
proof (intro allI impI)
  fix n s
  assume len: "length (json_show (JObj d)) \<le> n"
  then obtain m where n: "n = Suc m" by (cases n) auto
  show "parse_value n (json_show (JObj d) @ s) = Some (JObj d, s)"
  proof (cases d)
    case Nil
    then show ?thesis using n by simp
  next
    case (Cons p e)
    let ?body = "join_with (CHR '','') (map show_member d) @ CHR ''}'' # s"
    obtain r where "?body = quote_char # r"
      using Cons by (cases p; cases e) (auto simp: show_string_def)
    moreover have "parse_members m ?body = Some (d, s)"
      using assms len Cons n by (intro parse_members_show) auto
    moreover have "dict_update [] d = d"
      using assms(1) by (simp add: dict_update_distinct)
    ultimately show ?thesis
      using n by simp
  qed
qed

lemma parse_value_json_show: "json_printable v \<Longrightarrow> read_back v"
proof (induction v)
  case (JInt i)
  then show ?case by (simp add: parse_value_scalar_int)
next
  case (JStr t)
  show ?case
  proof (intro allI impI)
    fix n s
    assume "length (json_show (JStr t)) \<le> n"
    then show "parse_value n (json_show (JStr t) @ s) = Some (JStr t, s)"
      using JStr by (cases n) (simp_all add: show_string_def parse_show_string)
  qed
next
  case (JList xs)
  then show ?case by (intro parse_value_list) (auto simp: list_all_iff)
next
  case (JObj d)
  then show ?case by (intro parse_value_obj) (fastforce simp: list_all_iff)+
next
  case JNull
  have "parse_value n (''null'' @ s) = Some (JNull, s)" if "4 \<le> n" for n s
    using that by (cases n) simp_all
  then show ?case by simp
next
  case (JBool b)
  have "parse_value n (''true'' @ s) = Some (JBool True, s)" "parse_value n (''false'' @ s) = Some (JBool False, s)"
    if "4 \<le> n" for n s
    using that by (cases n; simp)+
  then show ?case by (cases b) simp_all
qed simp

text \<open>The printed text is ASCII, so it is well-formed UTF-8.\<close>

definition ascii_text :: "string \<Rightarrow> bool" where
  "ascii_text s \<longleftrightarrow> (\<forall>c \<in> set s. (of_char c :: nat) < 128)"

lemma ascii_text_simps [simp]:
  "ascii_text []" "ascii_text (c # s) \<longleftrightarrow> (of_char c :: nat) < 128 \<and> ascii_text s"
  "ascii_text (s @ t) \<longleftrightarrow> ascii_text s \<and> ascii_text t"
  by (auto simp: ascii_text_def)

lemma ascii_points: "ascii_text s \<Longrightarrow> utf8_points s = map of_char s"
  by (induction s) (auto simp: Let_def)

lemma ascii_valid: "ascii_text s \<Longrightarrow> valid_utf8 s"
  by (induction s) (auto simp: valid_utf8_def Let_def utf8_encode_def scalar_point_def ascii_points)

lemma ascii_concat: "ascii_text (concat xs) \<longleftrightarrow> (\<forall>x \<in> set xs. ascii_text x)"
  by (auto simp: ascii_text_def)

lemma ascii_hex_char: "n < 16 \<Longrightarrow> (of_char (hex_char n) :: nat) < 128"
  by (simp add: hex_char_def)

lemma ascii_escape_u: "ascii_text (escape_u n)"
  by (simp add: escape_u_def hex4_chars_def ascii_hex_char)

lemma ascii_show_point: "ascii_text (show_point n)"
  by (auto simp: show_point_def ascii_escape_u escape_letters_def)

lemma ascii_show_string [simp]: "ascii_text (show_string s)"
  by (simp add: show_string_def ascii_concat ascii_show_point)

lemma ascii_digit: "is_digit c \<Longrightarrow> (of_char c :: nat) < 128"
  by (auto simp: is_digit_def digit_of_def Let_def split: if_splits)

lemma ascii_show_int [simp]: "ascii_text (show_int i)"
  by (auto simp: ascii_text_def show_int_def dest!: show_nat_is_digit ascii_digit)

lemma ascii_join: "(of_char c :: nat) < 128 \<Longrightarrow> \<forall>x \<in> set xs. ascii_text x \<Longrightarrow> ascii_text (join_with c xs)"
  by (induction c xs rule: join_with.induct) auto

lemma ascii_json_show: "ascii_text (json_show v)"
  by (induction v) (auto intro!: ascii_join)

theorem loads_text_json_show: "json_printable v \<Longrightarrow> loads_text (json_show v) = Some v"
  using parse_value_json_show [of v, THEN spec, of "length (json_show v)", THEN spec, of "[]"]
    skip_blanks_json_show [of v "[]"]
  by (simp add: loads_text_def ascii_valid ascii_json_show)

lemma json_show_inject: "json_printable v \<Longrightarrow> json_printable w \<Longrightarrow> json_show v = json_show w \<longleftrightarrow> v = w"
  using loads_text_json_show by (metis option.inject)

section \<open>Sorted keys\<close>

text \<open>\<^verbatim>\<open>sort_keys=True\<close>: every object of the value, by the code points of its keys, which is the
  order of their UTF-8 bytes.\<close>

fun sort_keys :: "json \<Rightarrow> json" where
  "sort_keys (JList xs) = JList (map sort_keys xs)"
| "sort_keys (JObj d) = JObj (sort_key fst (map (\<lambda>(k, v). (k, sort_keys v)) d))"
| "sort_keys v = v"

lemma distinct_keys_insort: "distinct (map fst (insort_key fst p d)) \<longleftrightarrow> distinct (map fst (p # d))"
  by (induction d) (auto simp: set_insort_key)

lemma distinct_keys_sort: "distinct (map fst (sort_key fst d)) \<longleftrightarrow> distinct (map fst d)"
proof (induction d)
  case (Cons p d)
  have "distinct (map fst (sort_key fst (p # d))) \<longleftrightarrow> distinct (map fst (p # sort_key fst d))"
    by (simp only: sort_key_simps distinct_keys_insort)
  then show ?case using Cons by auto
qed simp

lemma map_of_sort_key: "distinct (map fst d) \<Longrightarrow> map_of (sort_key fst d) = map_of d"
  by (rule map_of_inject_set [THEN iffD2]) (simp_all add: distinct_keys_sort)

lemma fst_sorted_member [simp]: "fst (case p of (k, v) \<Rightarrow> (k, f v)) = fst p"
  by (cases p) simp

lemma sort_keys_printable: "json_printable v \<Longrightarrow> json_printable (sort_keys v)"
proof (induction v)
  case (JObj d)
  have "distinct (map fst (sort_key fst (map (\<lambda>(k, v). (k, sort_keys v)) d)))"
    using JObj.prems by (simp add: distinct_keys_sort comp_def)
  then show ?case
    using JObj by (fastforce simp: list_all_iff)
qed (auto simp: list_all_iff)

text \<open>Reading a key of the sorted object gives the sorted value of that key.\<close>

lemma map_of_sort_keys:
  assumes "distinct (map fst d)"
  shows "map_of (sort_key fst (map (\<lambda>(k, v). (k, sort_keys v)) d)) k = map_option sort_keys (map_of d k)"
proof -
  have "map_of (sort_key fst (map (\<lambda>(k, v). (k, sort_keys v)) d)) = map_of (map (\<lambda>(k, v). (k, sort_keys v)) d)"
    using assms by (intro map_of_sort_key) (simp add: comp_def)
  then show ?thesis by (simp add: map_of_map)
qed

abbreviation sorted_members :: "jdict \<Rightarrow> jdict" where
  "sorted_members d \<equiv> sort_key fst (map (\<lambda>(k, v). (k, sort_keys v)) d)"

lemma dict_get_sorted: "distinct (map fst d) \<Longrightarrow> dict_get (sorted_members d) k = sort_keys (dict_get d k)"
  by (simp add: dict_get_def map_of_sort_keys split: option.splits)

lemma dict_get_or_sorted:
  "distinct (map fst d) \<Longrightarrow> sort_keys w = w \<Longrightarrow> dict_get_or (sorted_members d) k w = sort_keys (dict_get_or d k w)"
  by (simp add: dict_get_or_def map_of_sort_keys split: option.splits)

end
