(* ===== verification/Signed_Tokens.thy ===== *)
theory Signed_Tokens
  imports Json_Syntax Hashing
begin

text \<open>
  What the server-signed tokens are made of, from Python's standard library: URL-safe base64
  without padding (\<^verbatim>\<open>base64.urlsafe_b64encode(...).rstrip('=')\<close> and its decoder, which skips
  characters outside the alphabet as \<^verbatim>\<open>binascii.a2b_base64\<close> does), \<^verbatim>\<open>hmac.new(key, msg,
  hashlib.sha256)\<close>, and \<^verbatim>\<open>pathlib.Path(p).name\<close>. A byte string is represented by its characters.
  The locale \<open>signed_token\<close> is the contract the two token formats share.
\<close>

section \<open>Base64\<close>

definition b64_char :: "nat \<Rightarrow> char" where
  "b64_char n = char_of (if n < 26 then 65 + n else if n < 52 then 71 + n else if n < 62 then n - 4 else if n = 62 then 45 else 95)"

text \<open>The decoder first maps \<open>-\<close> and \<open>_\<close> to \<open>+\<close> and \<open>/\<close>, so it takes both alphabets.\<close>

definition b64_value :: "char \<Rightarrow> nat option" where
  "b64_value c =
     (let k = of_char c :: nat in
      if 65 \<le> k \<and> k \<le> 90 then Some (k - 65)
      else if 97 \<le> k \<and> k \<le> 122 then Some (k - 71)
      else if 48 \<le> k \<and> k \<le> 57 then Some (k + 4)
      else if k = 45 \<or> k = 43 then Some 62
      else if k = 95 \<or> k = 47 then Some 63
      else None)"

fun b64_groups :: "string \<Rightarrow> string" where
  "b64_groups [] = []"
| "b64_groups [a] = (let x = of_char a :: nat in [b64_char (x div 4), b64_char (x mod 4 * 16), CHR ''='', CHR ''=''])"
| "b64_groups [a, b] =
     (let x = of_char a :: nat; y = of_char b :: nat in
      [b64_char (x div 4), b64_char (x mod 4 * 16 + y div 16), b64_char (y mod 16 * 4), CHR ''=''])"
| "b64_groups (a # b # c # s) =
     (let x = of_char a :: nat; y = of_char b :: nat; z = of_char c :: nat in
      b64_char (x div 4) # b64_char (x mod 4 * 16 + y div 16) # b64_char (y mod 16 * 4 + z div 64) # b64_char (z mod 64) # b64_groups s)"

definition rstrip_char :: "char \<Rightarrow> string \<Rightarrow> string" where
  "rstrip_char c s = rev (dropWhile (\<lambda>x. x = c) (rev s))"

definition b64encode :: "string \<Rightarrow> string" where
  "b64encode s = rstrip_char (CHR ''='') (b64_groups s)"

text \<open>\<open>a2b_base64 quad left pads s\<close>: the position in the group of four, the bits left over and
  the pad characters seen. A pad sequence that completes a group ends the input.\<close>

fun a2b_base64 :: "nat \<Rightarrow> nat \<Rightarrow> nat \<Rightarrow> string \<Rightarrow> string option" where
  "a2b_base64 quad left pads [] = (if quad = 0 then Some [] else None)"
| "a2b_base64 quad left pads (c # s) =
     (if c = CHR ''='' then
        (if 2 \<le> quad \<and> 4 \<le> quad + (pads + 1) then Some []
         else a2b_base64 quad left (if 2 \<le> quad then pads + 1 else pads) s)
      else case b64_value c of
        None \<Rightarrow> a2b_base64 quad left pads s
      | Some v \<Rightarrow>
          if quad = 0 then a2b_base64 1 v 0 s
          else if quad = 1 then map_option (Cons (char_of (left * 4 + v div 16))) (a2b_base64 2 (v mod 16) 0 s)
          else if quad = 2 then map_option (Cons (char_of (left * 16 + v div 4))) (a2b_base64 3 (v mod 4) 0 s)
          else map_option (Cons (char_of (left * 64 + v))) (a2b_base64 0 0 0 s))"

text \<open>The padding is restored before decoding; text that is not ASCII is a \<^verbatim>\<open>ValueError\<close>, as is an
  incomplete group.\<close>

definition b64decode :: "string \<Rightarrow> string option" where
  "b64decode s =
     (if ascii_text s then a2b_base64 0 0 0 (s @ replicate ((4 - length (utf8_points s) mod 4) mod 4) (CHR ''='')) else None)"

fun b64_plain :: "string \<Rightarrow> string" where
  "b64_plain [] = []"
| "b64_plain [a] = (let x = of_char a :: nat in [b64_char (x div 4), b64_char (x mod 4 * 16)])"
| "b64_plain [a, b] =
     (let x = of_char a :: nat; y = of_char b :: nat in
      [b64_char (x div 4), b64_char (x mod 4 * 16 + y div 16), b64_char (y mod 16 * 4)])"
| "b64_plain (a # b # c # s) =
     (let x = of_char a :: nat; y = of_char b :: nat; z = of_char c :: nat in
      b64_char (x div 4) # b64_char (x mod 4 * 16 + y div 16) # b64_char (y mod 16 * 4 + z div 64) # b64_char (z mod 64) # b64_plain s)"

lemma b64_value_char: "n < 64 \<Longrightarrow> b64_value (b64_char n) = Some n"
  by (auto simp: b64_value_def b64_char_def Let_def)

lemma byte_split:
  fixes y :: nat
  assumes "y < 256"
  shows "y div 16 div 16 = 0" "y div 16 mod 16 = y div 16" "y div 64 div 4 = 0" "y div 64 mod 4 = y div 64"
  using assms by (auto simp: div_mult2_eq [symmetric])

lemma six_bits:
  fixes x :: nat
  assumes "x < 256"
  shows "x div 4 < 64" "x mod 4 * 16 < 64" "x mod 16 * 4 < 64" "x mod 64 < 64"
  using assms mod_less_divisor [of 4 x] mod_less_divisor [of 16 x] by auto

lemma six_bits_joined:
  fixes x y :: nat
  assumes "y < 256"
  shows "x mod 4 * 16 + y div 16 < 64" "x mod 16 * 4 + y div 64 < 64"
proof -
  have "x mod 4 \<le> 3" "y div 16 \<le> 15" "x mod 16 \<le> 15" "y div 64 \<le> 3"
    using assms mod_less_divisor [of 4 x] mod_less_divisor [of 16 x] by auto
  then show "x mod 4 * 16 + y div 16 < 64" "x mod 16 * 4 + y div 64 < 64"
    by linarith+
qed

lemma b64_char_not_pad: "n < 64 \<Longrightarrow> b64_char n \<noteq> CHR ''=''"
  using b64_value_char [of n] by (auto simp: b64_value_def)

lemma a2b_step: "n < 64 \<Longrightarrow> a2b_base64 quad left pads (b64_char n # s) =
   (if quad = 0 then a2b_base64 1 n 0 s
    else if quad = 1 then map_option (Cons (char_of (left * 4 + n div 16))) (a2b_base64 2 (n mod 16) 0 s)
    else if quad = 2 then map_option (Cons (char_of (left * 16 + n div 4))) (a2b_base64 3 (n mod 4) 0 s)
    else map_option (Cons (char_of (left * 64 + n))) (a2b_base64 0 0 0 s))"
  by (simp add: b64_char_not_pad b64_value_char)

lemma a2b_pads: "a2b_base64 (Suc (Suc 0)) l 0 ''=='' = Some []" "a2b_base64 3 l 0 ''='' = Some []"
  by simp_all

lemma a2b_plain:
  "a2b_base64 0 0 0 (b64_plain s @ replicate ((4 - length (b64_plain s) mod 4) mod 4) (CHR ''='')) = Some s"
proof (induction s rule: b64_plain.induct)
  case (4 a b c s)
  let ?x = "of_char a :: nat" and ?y = "of_char b :: nat" and ?z = "of_char c :: nat"
  have "?x div 4 * 4 + ?x mod 4 = ?x" "?y div 16 * 16 + ?y mod 16 = ?y" "?z div 64 * 64 + ?z mod 64 = ?z"
    by (rule div_mult_mod_eq)+
  then show ?case
    using 4 by (simp add: Let_def a2b_step six_bits six_bits_joined byte_split del: a2b_base64.simps)
qed (simp_all add: Let_def a2b_step six_bits six_bits_joined byte_split numeral_2_eq_2 a2b_pads del: a2b_base64.simps(2))

lemma b64_groups_plain: "\<exists>k. b64_groups s = b64_plain s @ replicate k (CHR ''='')"
proof (induction s rule: b64_groups.induct)
  case (2 a)
  show ?case by (rule exI [of _ 2]) (simp add: Let_def numeral_2_eq_2)
next
  case (3 a b)
  show ?case by (rule exI [of _ 1]) (simp add: Let_def)
next
  case (4 a b c s)
  then obtain k where "b64_groups s = b64_plain s @ replicate k (CHR ''='')" by blast
  then show ?case by (intro exI [of _ k]) (simp add: Let_def)
qed auto

lemma b64_plain_chars: "c \<in> set (b64_plain s) \<Longrightarrow> \<exists>n < 64. c = b64_char n"
  by (induction s rule: b64_plain.induct)
    (auto simp: Let_def intro: six_bits six_bits_joined nat_of_char_less_256)

lemma rstrip_char_pads: "c \<notin> set s \<Longrightarrow> rstrip_char c (s @ replicate k c) = s"
proof -
  assume "c \<notin> set s"
  then have "dropWhile (\<lambda>x. x = c) (rev s) = rev s"
    by (cases s rule: rev_cases) auto
  then show ?thesis
    by (simp add: rstrip_char_def dropWhile_append)
qed

lemma b64encode_plain: "b64encode s = b64_plain s"
proof -
  obtain k where "b64_groups s = b64_plain s @ replicate k (CHR ''='')"
    using b64_groups_plain by blast
  moreover have "CHR ''='' \<notin> set (b64_plain s)"
    using b64_plain_chars b64_char_not_pad by metis
  ultimately show ?thesis by (simp add: b64encode_def rstrip_char_pads)
qed

lemma b64_char_plain: "n < 64 \<Longrightarrow> b64_char n \<noteq> CHR ''.'' \<and> (of_char (b64_char n) :: nat) < 128"
proof -
  assume "n < 64"
  moreover have "b64_value (CHR ''.'') = None" by (simp add: b64_value_def)
  ultimately show ?thesis
    using b64_value_char [of n] by (auto simp: b64_char_def)
qed

lemma b64encode_ascii: "ascii_text (b64encode s)"
  unfolding b64encode_plain ascii_text_def using b64_plain_chars b64_char_plain by blast

lemma b64encode_no_dot: "CHR ''.'' \<notin> set (b64encode s)"
  unfolding b64encode_plain using b64_plain_chars b64_char_plain by metis

text \<open>Every byte string is recovered from its encoding.\<close>

theorem b64decode_encode: "b64decode (b64encode s) = Some s"
  using a2b_plain [of s] b64encode_ascii [of s]
  by (simp add: b64decode_def ascii_points b64encode_plain)

section \<open>HMAC-SHA-256\<close>

definition hmac_sha256 :: "byte list \<Rightarrow> byte list \<Rightarrow> byte list" where
  "hmac_sha256 key msg =
     (let k = (if 64 < length key then sha256 key else key);
          block = k @ replicate (64 - length k) 0
      in sha256 (map (\<lambda>b. b XOR 0x5C) block @ sha256 (map (\<lambda>b. b XOR 0x36) block @ msg)))"

definition bytes_text :: "byte list \<Rightarrow> string" where
  "bytes_text bs = map (\<lambda>b. char_of (unat b)) bs"

lemma length_hmac: "length (hmac_sha256 key msg) = 32"
  by (simp add: hmac_sha256_def Let_def length_sha256)

lemma hex_of_plain: "c \<in> set (hex_of bs) \<Longrightarrow> c \<noteq> CHR ''.'' \<and> (of_char c :: nat) < 128"
proof -
  have "n < 16 \<Longrightarrow> hex_digit n \<noteq> CHR ''.'' \<and> (of_char (hex_digit n) :: nat) < 128" for n
    by (auto simp: hex_digit_def dest!: char_of_eqD)
  moreover have "unat b < 2 ^ LENGTH(8)" for b :: byte
    by (rule unsigned_less)
  then have "unat b div 16 < 16" "unat b mod 16 < 16" for b :: byte
    by (simp_all add: less_mult_imp_div_less)
  ultimately show "c \<in> set (hex_of bs) \<Longrightarrow> c \<noteq> CHR ''.'' \<and> (of_char c :: nat) < 128"
    by (auto simp: hex_of_def)
qed

section \<open>Text of a value\<close>

text \<open>\<^verbatim>\<open>str(v)\<close>; \<open>repr\<close> gives the text of a float, a list or an object.\<close>

fun json_str :: "(json \<Rightarrow> string) \<Rightarrow> json \<Rightarrow> string" where
  "json_str repr (JStr s) = s"
| "json_str repr JNull = ''None''"
| "json_str repr (JBool b) = (if b then ''True'' else ''False'')"
| "json_str repr (JInt i) = show_int i"
| "json_str repr v = repr v"

section \<open>The contract of a signed token\<close>

text \<open>A token is a payload segment and its signature, joined by a dot. The segment can be taken
  apart again, and its payload decoded; a token whose signature is the one of its segment
  is determined by the segment.\<close>

locale signed_token =
  fixes encode :: "string \<Rightarrow> string"
    and decode :: "string \<Rightarrow> string option"
    and sign :: "string \<Rightarrow> string"
  assumes decode_encode: "decode (encode s) = Some s"
    and encode_plain: "CHR ''.'' \<notin> set (encode s)"
    and sign_plain: "CHR ''.'' \<notin> set (sign s)"
begin

lemma split_token:
  "split_on (CHR ''.'') (encode p @ CHR ''.'' # sign (encode p)) = [encode p, sign (encode p)]"
  by (simp add: split_on_append split_on_plain encode_plain sign_plain)

lemma token_inject:
  assumes "encode p @ CHR ''.'' # sign (encode p) = encode q @ CHR ''.'' # sign (encode q)"
  shows "p = q"
proof -
  have "[encode p, sign (encode p)] = [encode q, sign (encode q)]"
    unfolding split_token [symmetric] assms ..
  then have "encode p = encode q" by (simp only: list.inject)
  then show ?thesis
    by (metis decode_encode option.inject)
qed

end

end
