(* ===== verification/Memory_Status.thy ===== *)
theory Memory_Status
  imports List_Budget Signed_Tokens
begin

text \<open>
  Which canonical authority a historical memory id has
  (\<^verbatim>\<open>MemoryService\<close> in \<^verbatim>\<open>backend/utils/memory/memory_service.py\<close>): the single read
  \<^verbatim>\<open>_canonical_status\<close> and the batched \<^verbatim>\<open>canonical_statuses\<close> the list reads use. A historical row is
  suppressed when its id has a status. A document that does not exist is \<open>None\<close>, its payload a
  JSON value; \<open>db path\<close> is the answer of a read. The validation of a whole memory item by its
  schema is an argument that gives its status or fails.
\<close>

section \<open>Statuses\<close>

datatype item_status = Active | Superseded | Hidden | Tombstoned

definition status_of_text :: "string \<Rightarrow> item_status option" where
  "status_of_text s =
     (if s = ''active'' then Some Active else if s = ''superseded'' then Some Superseded
      else if s = ''hidden'' then Some Hidden else if s = ''tombstoned'' then Some Tombstoned else None)"

definition memory_items_path :: "string \<Rightarrow> string" where
  "memory_items_path uid = ''users/'' @ uid @ ''/memory_items''"

definition memory_deletion_receipts_path :: "string \<Rightarrow> string" where
  "memory_deletion_receipts_path uid = ''users/'' @ uid @ ''/memory_deletion_receipts''"

definition memory_historical_overrides_path :: "string \<Rightarrow> string" where
  "memory_historical_overrides_path uid = ''users/'' @ uid @ ''/memory_historical_overrides''"

text \<open>\<^verbatim>\<open>privacy_deletion_receipt_id\<close> of \<^verbatim>\<open>backend/database/memory_apply_store.py\<close>; it raises without a
  secret of at least 32 bytes.\<close>

definition privacy_deletion_receipt_id :: "environ \<Rightarrow> string \<Rightarrow> string \<Rightarrow> string option" where
  "privacy_deletion_receipt_id env uid mid =
     (let secret = utf8_bytes (str_or (env ''ENCRYPTION_SECRET'') '''') in
      if length secret < 32 then None
      else Some (''receipt_'' @ hex_of (hmac_sha256 secret
        (utf8_bytes (''memory-privacy-receipt.v2'' @ CHR 0x0A # uid @ CHR 0x0A # mid)))))"

definition valid_receipt :: "string \<Rightarrow> string \<Rightarrow> json option \<Rightarrow> bool" where
  "valid_receipt uid rid snapshot =
     (case snapshot of
        Some (JObj p) \<Rightarrow> dict_get p ''schema_version'' = JStr ''memory_deletion_receipt.v2'' \<and>
          dict_get p ''uid'' = JStr uid \<and> dict_get p ''receipt_id'' = JStr rid
      | _ \<Rightarrow> False)"

text \<open>\<^verbatim>\<open>payload.get("status") or payload.get("suppression")\<close>.\<close>

definition raw_status :: "jdict \<Rightarrow> json" where
  "raw_status p = json_or (dict_get p ''status'') (dict_get p ''suppression'')"

section \<open>One id\<close>

type_synonym doc_reader = "string \<Rightarrow> rpc_fault + json option"

text \<open>The \<^verbatim>\<open>try\<close> of \<^verbatim>\<open>_canonical_status\<close>; \<open>Inl ()\<close> is an exception raised in it.\<close>

definition override_read :: "json option \<Rightarrow> unit + item_status option" where
  "override_read snapshot =
     (case snapshot of
        Some (JObj p) \<Rightarrow>
          (case raw_status p of
             JStr s \<Rightarrow> (case status_of_text s of None \<Rightarrow> Inl () | Some st \<Rightarrow> Inr (Some st))
           | _ \<Rightarrow> Inr None)
      | _ \<Rightarrow> Inr None)"

definition status_body ::
  "environ \<Rightarrow> (json \<Rightarrow> item_status option) \<Rightarrow> doc_reader \<Rightarrow> string \<Rightarrow> string \<Rightarrow> unit + item_status option" where
  "status_body env validate db uid mid =
     (case db (memory_items_path uid @ CHR ''/'' # mid) of
        Inl _ \<Rightarrow> Inl ()
      | Inr None \<Rightarrow>
          (case privacy_deletion_receipt_id env uid mid of
             None \<Rightarrow> Inl ()
           | Some rid \<Rightarrow>
               (case db (memory_deletion_receipts_path uid @ CHR ''/'' # rid) of
                  Inl _ \<Rightarrow> Inl ()
                | Inr receipt \<Rightarrow>
                    if valid_receipt uid rid receipt then Inr (Some Tombstoned)
                    else (case db (memory_historical_overrides_path uid @ CHR ''/'' # mid) of
                            Inl _ \<Rightarrow> Inl ()
                          | Inr snapshot \<Rightarrow> override_read snapshot)))
      | Inr (Some payload) \<Rightarrow>
          (case payload of
             JObj p \<Rightarrow>
               (case dict_get p ''status'' of
                  JStr s \<Rightarrow>
                    (case status_of_text s of
                       Some st \<Rightarrow> Inr (Some st)
                     | None \<Rightarrow> (case validate payload of None \<Rightarrow> Inl () | Some st \<Rightarrow> Inr (Some st)))
                | _ \<Rightarrow> (case validate payload of None \<Rightarrow> Inl () | Some st \<Rightarrow> Inr (Some st)))
           | _ \<Rightarrow> Inr None))"

text \<open>The handler reads the override again.\<close>

definition status_handler :: "doc_reader \<Rightarrow> string \<Rightarrow> string \<Rightarrow> list_error + item_status option" where
  "status_handler db uid mid =
     (case db (memory_historical_overrides_path uid @ CHR ''/'' # mid) of
        Inr (Some (JObj p)) \<Rightarrow>
          (case raw_status p of
             JStr s \<Rightarrow> (case status_of_text s of Some st \<Rightarrow> Inr (Some st) | None \<Rightarrow> Inl (Http_Error 503 ''Canonical memory unavailable''))
           | _ \<Rightarrow> Inl (Http_Error 503 ''Canonical memory unavailable''))
      | _ \<Rightarrow> Inl (Http_Error 503 ''Canonical memory unavailable''))"

definition canonical_status ::
  "environ \<Rightarrow> (json \<Rightarrow> item_status option) \<Rightarrow> doc_reader \<Rightarrow> string \<Rightarrow> string \<Rightarrow> list_error + item_status option" where
  "canonical_status env validate db uid mid =
     (case status_body env validate db uid mid of
        Inr st \<Rightarrow> Inr st
      | Inl _ \<Rightarrow> status_handler db uid mid)"

section \<open>Batches\<close>

text \<open>\<^verbatim>\<open>_status_from_snapshot\<close>.\<close>

definition status_from_snapshot :: "json option \<Rightarrow> item_status option" where
  "status_from_snapshot snapshot =
     (case snapshot of
        Some (JObj p) \<Rightarrow> (case raw_status p of JStr s \<Rightarrow> status_of_text s | _ \<Rightarrow> None)
      | _ \<Rightarrow> None)"

text \<open>A snapshot of \<^verbatim>\<open>get_all\<close>: the path of its reference, if it has one, and the document.\<close>

type_synonym snapshot = "string option \<times> json option"

text \<open>\<^verbatim>\<open>snapshots_by_path\<close>; emptied when a snapshot has no path or repeats one.\<close>

fun index_snapshots :: "snapshot list \<Rightarrow> (string \<times> json option) list \<Rightarrow> (string \<times> json option) list" where
  "index_snapshots [] m = m"
| "index_snapshots ((path, doc) # ss) m =
     (case path of
        None \<Rightarrow> []
      | Some p \<Rightarrow> if map_of m p \<noteq> None then [] else index_snapshots ss ((p, doc) # m))"

text \<open>\<^verbatim>\<open>{memory_id: status for memory_id in ids if (status := self._canonical_status(...))}\<close>.\<close>

fun single_statuses :: "(string \<Rightarrow> list_error + item_status option) \<Rightarrow> string list \<Rightarrow> list_error + (string \<rightharpoonup> item_status)" where
  "single_statuses single [] = Inr Map.empty"
| "single_statuses single (mid # mids) =
     (case single mid of
        Inl e \<Rightarrow> Inl e
      | Inr st \<Rightarrow>
          (case single_statuses single mids of
             Inl e \<Rightarrow> Inl e
           | Inr m \<Rightarrow> Inr (case st of None \<Rightarrow> m | Some s \<Rightarrow> m(mid \<mapsto> s))))"

text \<open>The statuses of one chunk, added to \<open>acc\<close>. An id whose item or override exists without a
  valid status is read again alone, and an unknown status is then an error.\<close>

fun chunk_statuses ::
  "(string \<Rightarrow> list_error + item_status option) \<Rightarrow> (string \<times> json option) list \<Rightarrow> string \<Rightarrow> string list \<Rightarrow> (string \<rightharpoonup> item_status) \<Rightarrow>
   list_error + (string \<rightharpoonup> item_status)" where
  "chunk_statuses single by_path uid [] acc = Inr acc"
| "chunk_statuses single by_path uid (mid # mids) acc =
     (let doc = (\<lambda>path. case map_of by_path path of None \<Rightarrow> None | Some d \<Rightarrow> d);
          item = doc (memory_items_path uid @ CHR ''/'' # mid);
          override = doc (memory_historical_overrides_path uid @ CHR ''/'' # mid)
      in case status_from_snapshot item of
           Some st \<Rightarrow> chunk_statuses single by_path uid mids (acc(mid \<mapsto> st))
         | None \<Rightarrow>
             (case status_from_snapshot override of
                Some st \<Rightarrow> chunk_statuses single by_path uid mids (acc(mid \<mapsto> st))
              | None \<Rightarrow>
                  if item \<noteq> None \<or> override \<noteq> None then
                    (case single mid of
                       Inl e \<Rightarrow> Inl e
                     | Inr None \<Rightarrow> Inl (Http_Error 503 ''Canonical memory unavailable'')
                     | Inr (Some st) \<Rightarrow> chunk_statuses single by_path uid mids (acc(mid \<mapsto> st)))
                  else chunk_statuses single by_path uid mids acc))"

text \<open>The loop over chunks of a hundred ids, each read with its items and its overrides. The
  \<open>n\<close>-th call takes two readings of the clock. A snapshot list that cannot be attributed makes the
  whole read fall back to single reads.\<close>

definition batch_refs :: "string \<Rightarrow> string list \<Rightarrow> string list" where
  "batch_refs uid chunk =
     map (\<lambda>mid. memory_items_path uid @ CHR ''/'' # mid) chunk @
     map (\<lambda>mid. memory_historical_overrides_path uid @ CHR ''/'' # mid) chunk"

fun batch_loop ::
  "(string \<Rightarrow> list_error + item_status option) \<Rightarrow> (nat \<Rightarrow> rat) \<Rightarrow> (string list \<Rightarrow> rpc_fault + snapshot list) \<Rightarrow> string \<Rightarrow>
   string list \<Rightarrow> nat \<Rightarrow> string list list \<Rightarrow> (string \<rightharpoonup> item_status) \<Rightarrow> list_read_budget option \<Rightarrow>
   (list_error + (string \<rightharpoonup> item_status)) \<times> list_read_budget option" where
  "batch_loop single now get_all uid all n [] acc budget = (Inr acc, budget)"
| "batch_loop single now get_all uid all n (chunk # chunks) acc budget =
     (case budgeted_get_all (now (2 * n)) (now (2 * n + 1)) (\<lambda>_. get_all (batch_refs uid chunk)) budget of
        (Inl (Budget_Exhausted r), b) \<Rightarrow> (Inl (Budget_Exhausted r), b)
      | (Inl _, b) \<Rightarrow> (Inl (Http_Error 503 ''Canonical memory unavailable''), b)
      | (Inr snapshots, b) \<Rightarrow>
          (let by_path = index_snapshots snapshots [] in
           if snapshots \<noteq> [] \<and> by_path = [] then (single_statuses single all, b)
           else (case chunk_statuses single by_path uid chunk acc of
                   Inl e \<Rightarrow> (Inl e, b)
                 | Inr acc' \<Rightarrow> batch_loop single now get_all uid all (Suc n) chunks acc' b)))"

text \<open>\<^verbatim>\<open>list(dict.fromkeys(...))\<close>: the first occurrence of each id that is not empty.\<close>

definition normalized_ids :: "string list \<Rightarrow> string list" where
  "normalized_ids mids = rev (remdups (rev (filter (\<lambda>m. m \<noteq> '''') mids)))"

text \<open>A client without \<^verbatim>\<open>get_all\<close> is read one id at a time.\<close>

definition canonical_statuses ::
  "environ \<Rightarrow> (json \<Rightarrow> item_status option) \<Rightarrow> doc_reader \<Rightarrow> (nat \<Rightarrow> rat) \<Rightarrow> (string list \<Rightarrow> rpc_fault + snapshot list) option \<Rightarrow> string \<Rightarrow>
   string list \<Rightarrow> list_read_budget option \<Rightarrow> (list_error + (string \<rightharpoonup> item_status)) \<times> list_read_budget option" where
  "canonical_statuses env validate db now batch uid mids budget =
     (let ids = normalized_ids mids; single = canonical_status env validate db uid in
      if ids = [] then (Inr Map.empty, budget)
      else case batch of
             None \<Rightarrow> (single_statuses single ids, budget)
           | Some get_all \<Rightarrow> batch_loop single now get_all uid ids 0 (read_chunks 100 ids) Map.empty budget)"

section \<open>Batched and single reads agree\<close>

lemma index_snapshots_set:
  assumes "\<forall>s \<in> set ss. fst s \<noteq> None" "distinct (map fst ss)" "\<forall>s \<in> set ss. map_of m (the (fst s)) = None" "distinct (map fst m)"
  shows "set (index_snapshots ss m) = set m \<union> (\<lambda>(p, d). (the p, d)) ` set ss \<and> distinct (map fst (index_snapshots ss m))"
  using assms
proof (induction ss m rule: index_snapshots.induct)
  case (2 path doc ss m)
  then obtain p where p: "path = Some p" by auto
  have free: "map_of m p = None" using "2.prems"(3) p by simp
  have others: "p \<noteq> the (fst s)" if "s \<in> set ss" for s
    using "2.prems"(1,2) p that by (cases s) (force simp: image_iff)
  have "set (index_snapshots ss ((p, doc) # m)) = set ((p, doc) # m) \<union> (\<lambda>(p, d). (the p, d)) ` set ss \<and>
      distinct (map fst (index_snapshots ss ((p, doc) # m)))"
  proof (rule "2.IH" [OF p])
    show "\<not> map_of m p \<noteq> None" using free by simp
    show "\<forall>s \<in> set ss. fst s \<noteq> None" "distinct (map fst ss)"
      using "2.prems"(1,2) by simp_all
    show "\<forall>s \<in> set ss. map_of ((p, doc) # m) (the (fst s)) = None"
      using "2.prems"(3) others by auto
    show "distinct (map fst ((p, doc) # m))"
      using "2.prems"(4) free by (simp add: map_of_eq_None_iff)
  qed
  then show ?case using p free by simp
qed simp

text \<open>What the service answers for the documents \<open>docs\<close>: single reads give the document; a batch of
  distinct references gives snapshots of them, each once, in any order, possibly without the
  missing ones.\<close>

definition serves_docs :: "(string \<Rightarrow> json option) \<Rightarrow> (string list \<Rightarrow> rpc_fault + snapshot list) \<Rightarrow> bool" where
  "serves_docs docs get_all \<longleftrightarrow>
     (\<forall>refs. distinct refs \<longrightarrow>
        (\<exists>ss. get_all refs = Inr ss \<and> distinct (map fst ss) \<and>
           (\<forall>s \<in> set ss. \<exists>p \<in> set refs. s = (Some p, docs p)) \<and>
           (\<forall>p \<in> set refs. docs p \<noteq> None \<longrightarrow> (Some p, docs p) \<in> set ss)))"

definition known_status :: "json \<Rightarrow> bool" where
  "known_status v = (case v of JStr s \<Rightarrow> status_of_text s \<noteq> None | _ \<Rightarrow> False)"

text \<open>An item that exists has a known status, and so has an override.\<close>

definition authority_ok :: "(string \<Rightarrow> json option) \<Rightarrow> string \<Rightarrow> string \<Rightarrow> bool" where
  "authority_ok docs uid mid \<longleftrightarrow>
     (case docs (memory_items_path uid @ CHR ''/'' # mid) of
        None \<Rightarrow> True | Some (JObj p) \<Rightarrow> known_status (dict_get p ''status'') | Some _ \<Rightarrow> False) \<and>
     (case docs (memory_historical_overrides_path uid @ CHR ''/'' # mid) of
        None \<Rightarrow> True | Some (JObj p) \<Rightarrow> known_status (raw_status p) | Some _ \<Rightarrow> False)"

definition authority :: "(string \<Rightarrow> json option) \<Rightarrow> string \<Rightarrow> string \<Rightarrow> item_status option" where
  "authority docs uid mid =
     (case status_from_snapshot (docs (memory_items_path uid @ CHR ''/'' # mid)) of
        Some st \<Rightarrow> Some st
      | None \<Rightarrow> status_from_snapshot (docs (memory_historical_overrides_path uid @ CHR ''/'' # mid)))"

lemma known_statusE:
  assumes "known_status v"
  obtains s st where "v = JStr s" "status_of_text s = Some st" "s \<noteq> ''''"
  using assms by (auto simp: known_status_def status_of_text_def split: json.splits if_splits)

lemma status_from_known: "known_status (raw_status p) \<Longrightarrow> \<exists>st. status_from_snapshot (Some (JObj p)) = Some st"
  by (auto simp: status_from_snapshot_def known_status_def split: json.splits)

lemma raw_status_known: "known_status (dict_get p ''status'') \<Longrightarrow> raw_status p = dict_get p ''status''"
  by (erule known_statusE) (simp add: raw_status_def json_or_def)

lemma distinct_batch_refs: "distinct chunk \<Longrightarrow> distinct (batch_refs uid chunk)"
  by (auto simp: batch_refs_def distinct_map inj_on_def memory_items_path_def memory_historical_overrides_path_def)

lemma served_index:
  assumes "serves_docs docs get_all" "distinct refs"
  obtains ss where "get_all refs = Inr ss" "length ss \<le> length refs" "ss \<noteq> [] \<longrightarrow> index_snapshots ss [] \<noteq> []"
    "\<And>p. p \<in> set refs \<Longrightarrow> (case map_of (index_snapshots ss []) p of None \<Rightarrow> None | Some d \<Rightarrow> d) = docs p"
proof -
  obtain ss where ss: "get_all refs = Inr ss" "distinct (map fst ss)" "\<forall>s \<in> set ss. \<exists>p \<in> set refs. s = (Some p, docs p)"
    "\<forall>p \<in> set refs. docs p \<noteq> None \<longrightarrow> (Some p, docs p) \<in> set ss"
    using assms unfolding serves_docs_def by blast
  have ix: "set (index_snapshots ss []) = (\<lambda>(p, d). (the p, d)) ` set ss" "distinct (map fst (index_snapshots ss []))"
    using index_snapshots_set [of ss "[]"] ss(2,3) by fastforce+
  have "(case map_of (index_snapshots ss []) p of None \<Rightarrow> None | Some d \<Rightarrow> d) = docs p" if "p \<in> set refs" for p
  proof (cases "map_of (index_snapshots ss []) p")
    case None
    then have "(p, docs p) \<notin> set (index_snapshots ss [])"
      using ix(2) by (auto simp: map_of_eq_None_iff image_iff)
    then have "(Some p, docs p) \<notin> set ss"
      unfolding ix(1) by force
    then show ?thesis using None ss(4) that by auto
  next
    case (Some d)
    then have "(p, d) \<in> set (index_snapshots ss [])" by (rule map_of_SomeD)
    then have "d = docs p"
      unfolding ix(1) using ss(3) by fastforce
    then show ?thesis using Some by simp
  qed
  moreover have "ss \<noteq> [] \<longrightarrow> index_snapshots ss [] \<noteq> []"
    using ix(1) by (cases ss) auto
  moreover have "length ss \<le> length refs"
  proof -
    have "length ss = card (fst ` set ss)" using distinct_card [OF ss(2)] by simp
    also have "\<dots> \<le> card (Some ` set refs)" using ss(3) by (intro card_mono) force+
    also have "\<dots> \<le> length refs" by (metis List.finite_set card_image_le card_length order_trans)
    finally show ?thesis .
  qed
  ultimately show ?thesis using that ss(1) by blast
qed

lemma chunk_statuses_served:
  assumes "\<And>p. p \<in> set (batch_refs uid chunk) \<Longrightarrow> (case map_of by_path p of None \<Rightarrow> None | Some d \<Rightarrow> d) = docs p"
    "\<forall>mid \<in> set chunk. authority_ok docs uid mid"
  shows "chunk_statuses single by_path uid chunk acc =
    Inr (\<lambda>mid. if mid \<in> set chunk \<and> authority docs uid mid \<noteq> None then authority docs uid mid else acc mid)"
  using assms
proof (induction chunk arbitrary: acc)
  case (Cons mid chunk)
  let ?i = "memory_items_path uid @ CHR ''/'' # mid" and ?o = "memory_historical_overrides_path uid @ CHR ''/'' # mid"
  have docs: "(case map_of by_path ?i of None \<Rightarrow> None | Some d \<Rightarrow> d) = docs ?i"
    "(case map_of by_path ?o of None \<Rightarrow> None | Some d \<Rightarrow> d) = docs ?o"
    using Cons.prems(1) by (simp_all add: batch_refs_def)
  have IH: "chunk_statuses single by_path uid chunk acc' =
      Inr (\<lambda>mid. if mid \<in> set chunk \<and> authority docs uid mid \<noteq> None then authority docs uid mid else acc' mid)" for acc'
    using Cons.prems by (intro Cons.IH) (auto simp: batch_refs_def)
  have known: "v = None \<or> (\<exists>st. status_from_snapshot v = Some st)"
    if "v = docs ?i \<or> v = docs ?o" for v
    using that Cons.prems(2) status_from_known raw_status_known
    by (auto simp: authority_ok_def split: option.splits json.splits)
  have missing: "docs ?i = None \<and> docs ?o = None" if "authority docs uid mid = None"
    using that known [of "docs ?i"] known [of "docs ?o"] by (auto simp: authority_def split: option.splits)
  show ?case
  proof (cases "authority docs uid mid")
    case None
    then show ?thesis
      using missing IH by (auto simp: docs Let_def status_from_snapshot_def fun_eq_iff)
  next
    case (Some st)
    then show ?thesis
      using IH by (auto simp: docs Let_def authority_def fun_eq_iff split: option.splits)
  qed
qed simp

lemma batch_loop_served:
  assumes "serves_docs docs get_all" "\<forall>chunk \<in> set chunks. distinct chunk"
    "\<forall>chunk \<in> set chunks. \<forall>mid \<in> set chunk. authority_ok docs uid mid"
  shows "batch_loop single now get_all uid all n chunks acc None =
    (Inr (\<lambda>mid. if mid \<in> set (concat chunks) \<and> authority docs uid mid \<noteq> None then authority docs uid mid else acc mid), None)"
  using assms(2,3)
proof (induction chunks arbitrary: n acc)
  case (Cons chunk chunks)
  obtain ss where ss: "get_all (batch_refs uid chunk) = Inr ss" "ss \<noteq> [] \<longrightarrow> index_snapshots ss [] \<noteq> []"
    "\<And>p. p \<in> set (batch_refs uid chunk) \<Longrightarrow> (case map_of (index_snapshots ss []) p of None \<Rightarrow> None | Some d \<Rightarrow> d) = docs p"
    using served_index [OF assms(1) distinct_batch_refs] Cons.prems(1) by (metis list.set_intros(1))
  have "chunk_statuses single (index_snapshots ss []) uid chunk acc =
      Inr (\<lambda>mid. if mid \<in> set chunk \<and> authority docs uid mid \<noteq> None then authority docs uid mid else acc mid)"
    using ss(3) Cons.prems(2) by (intro chunk_statuses_served) auto
  then show ?case
    using Cons ss(1,2) by (auto simp: budgeted_get_all_def budgeted_call_def Let_def fun_eq_iff)
qed simp

lemma canonical_status_served:
  assumes "\<forall>p. db p = Inr (docs p)" "privacy_deletion_receipt_id env uid mid = Some rid" "authority_ok docs uid mid"
  shows "canonical_status env validate db uid mid =
    Inr (if docs (memory_items_path uid @ CHR ''/'' # mid) = None \<and>
            valid_receipt uid rid (docs (memory_deletion_receipts_path uid @ CHR ''/'' # rid))
         then Some Tombstoned else authority docs uid mid)"
proof (cases "docs (memory_items_path uid @ CHR ''/'' # mid)")
  case None
  have "override_read (docs (memory_historical_overrides_path uid @ CHR ''/'' # mid)) =
      Inr (status_from_snapshot (docs (memory_historical_overrides_path uid @ CHR ''/'' # mid)))"
    using assms(3)
    by (auto simp: authority_ok_def override_read_def status_from_snapshot_def known_status_def split: option.splits json.splits)
  then show ?thesis
    using None assms(1,2) by (simp add: canonical_status_def status_body_def authority_def status_from_snapshot_def)
next
  case (Some payload)
  then obtain p where p: "payload = JObj p" "known_status (dict_get p ''status'')"
    using assms(3) by (auto simp: authority_ok_def split: json.splits)
  then obtain s st where "dict_get p ''status'' = JStr s" "status_of_text s = Some st" "raw_status p = JStr s"
    using raw_status_known by (metis known_statusE)
  then show ?thesis
    using Some p(1) assms(1)
    by (simp add: canonical_status_def status_body_def authority_def status_from_snapshot_def)
qed

lemma set_normalized_ids: "set (normalized_ids mids) = set mids - {''''}"
  by (auto simp: normalized_ids_def)

lemma distinct_read_chunks: "distinct xs \<Longrightarrow> chunk \<in> set (read_chunks n xs) \<Longrightarrow> distinct chunk"
proof (induction n xs rule: read_chunks.induct)
  case (1 n xs)
  from "1.prems"(2) have "xs \<noteq> [] \<and> n \<noteq> 0 \<and> (chunk = take n xs \<or> chunk \<in> set (read_chunks n (drop n xs)))"
    unfolding read_chunks.simps [of n xs] by (simp split: if_splits)
  then show ?case using 1 by auto
qed

lemma set_read_chunks: "chunk \<in> set (read_chunks 100 xs) \<Longrightarrow> set chunk \<subseteq> set xs"
  using concat_read_chunks [of 100 xs] by (metis UN_upper set_concat zero_less_numeral)

lemma canonical_statuses_served:
  assumes "serves_docs docs get_all" "\<forall>mid \<in> set mids. authority_ok docs uid mid"
  shows "\<exists>m. canonical_statuses env validate db now (Some get_all) uid mids None = (Inr m, None) \<and>
    (\<forall>mid. m mid = (if mid \<in> set mids \<and> mid \<noteq> '''' then authority docs uid mid else None))"
proof (cases "normalized_ids mids = []")
  case True
  then have "set mids - {''''} = {}"
    using set_normalized_ids [of mids] by simp
  then show ?thesis
    using True by (auto simp: canonical_statuses_def)
next
  case False
  let ?chunks = "read_chunks 100 (normalized_ids mids)"
  have "\<forall>chunk \<in> set ?chunks. distinct chunk"
    using distinct_read_chunks [of "normalized_ids mids"] by (auto simp: normalized_ids_def)
  moreover have "\<forall>chunk \<in> set ?chunks. \<forall>mid \<in> set chunk. authority_ok docs uid mid"
    using set_read_chunks assms(2) set_normalized_ids by blast
  ultimately have "batch_loop (canonical_status env validate db uid) now get_all uid (normalized_ids mids) 0 ?chunks Map.empty None =
      (Inr (\<lambda>mid. if mid \<in> set (concat ?chunks) \<and> authority docs uid mid \<noteq> None then authority docs uid mid else None), None)"
    using batch_loop_served [OF assms(1)] by blast
  then show ?thesis
    using False by (auto simp: canonical_statuses_def concat_read_chunks set_normalized_ids)
qed

text \<open>C26: On documents whose canonical items and overrides carry known statuses, the batched read
  succeeds and agrees with reading each id alone, in whatever order the service returns the
  snapshots and whether or not it omits missing documents, with one exception: an id whose item
  is gone and for which a valid deletion receipt exists is tombstoned for the single read, while
  the batch, which never reads receipts, has only the override to go by.\<close>

theorem batched_statuses_agree:
  assumes "serves_docs docs get_all" "\<forall>p. db p = Inr (docs p)" "\<forall>mid \<in> set mids. authority_ok docs uid mid"
    and "\<forall>mid \<in> set mids. privacy_deletion_receipt_id env uid mid = Some (rid mid)"
  shows "\<exists>m. canonical_statuses env validate db now (Some get_all) uid mids None = (Inr m, None) \<and>
    (\<forall>mid \<in> set mids. mid \<noteq> '''' \<longrightarrow>
       canonical_status env validate db uid mid =
         Inr (if docs (memory_items_path uid @ CHR ''/'' # mid) = None \<and>
                 valid_receipt uid (rid mid) (docs (memory_deletion_receipts_path uid @ CHR ''/'' # rid mid))
              then Some Tombstoned else m mid))"
proof -
  obtain m where "canonical_statuses env validate db now (Some get_all) uid mids None = (Inr m, None)"
    "\<forall>mid. m mid = (if mid \<in> set mids \<and> mid \<noteq> '''' then authority docs uid mid else None)"
    using canonical_statuses_served [OF assms(1,3)] by metis
  then show ?thesis
    using canonical_status_served [OF assms(2)] assms(3,4) by auto
qed

text \<open>The exception is real: a deleted memory, whose item is gone and whose receipt is kept against
  its return, has no status in the batch.\<close>

definition receipt_only :: "string \<Rightarrow> string \<Rightarrow> string \<Rightarrow> json option" where
  "receipt_only uid rid path =
     (if path = memory_deletion_receipts_path uid @ CHR ''/'' # rid
      then Some (JObj [(''schema_version'', JStr ''memory_deletion_receipt.v2''), (''uid'', JStr uid), (''receipt_id'', JStr rid)])
      else None)"

lemma serves_docs_map: "serves_docs docs (\<lambda>refs. Inr (map (\<lambda>p. (Some p, docs p)) refs))"
  by (auto simp: serves_docs_def distinct_map inj_on_def comp_def)

theorem batched_statuses_agree_witness:
  "\<exists>rid m. canonical_status [''ENCRYPTION_SECRET'' \<mapsto> replicate 32 (CHR ''k'')] (\<lambda>_. None) (\<lambda>p. Inr (receipt_only ''u'' rid p)) ''u'' ''m1'' = Inr (Some Tombstoned) \<and>
     canonical_statuses [''ENCRYPTION_SECRET'' \<mapsto> replicate 32 (CHR ''k'')] (\<lambda>_. None) (\<lambda>p. Inr (receipt_only ''u'' rid p)) (\<lambda>_. 0)
       (Some (\<lambda>refs. Inr (map (\<lambda>p. (Some p, receipt_only ''u'' rid p)) refs))) ''u'' [''m1''] None = (Inr m, None) \<and>
     m ''m1'' = None"
proof -
  let ?env = "[''ENCRYPTION_SECRET'' \<mapsto> replicate 32 (CHR ''k'')]"
  obtain rid where rid: "privacy_deletion_receipt_id ?env ''u'' ''m1'' = Some rid"
    by (simp add: privacy_deletion_receipt_id_def utf8_bytes_def str_or_def Let_def)
  let ?docs = "receipt_only ''u'' rid"
  have none: "?docs (memory_items_path ''u'' @ CHR ''/'' # ''m1'') = None"
    "?docs (memory_historical_overrides_path ''u'' @ CHR ''/'' # ''m1'') = None"
    by (simp_all add: receipt_only_def memory_items_path_def memory_historical_overrides_path_def memory_deletion_receipts_path_def)
  then have ok: "authority_ok ?docs ''u'' ''m1''" "authority ?docs ''u'' ''m1'' = None"
    by (simp_all add: authority_ok_def authority_def status_from_snapshot_def)
  have "valid_receipt ''u'' rid (?docs (memory_deletion_receipts_path ''u'' @ CHR ''/'' # rid))"
    by (simp add: receipt_only_def valid_receipt_def dict_get_def)
  moreover obtain m where m: "canonical_statuses ?env (\<lambda>_. None) (\<lambda>p. Inr (?docs p)) (\<lambda>_. 0)
       (Some (\<lambda>refs. Inr (map (\<lambda>p. (Some p, ?docs p)) refs))) ''u'' [''m1''] None = (Inr m, None)"
    "m ''m1'' = authority ?docs ''u'' ''m1''"
    using canonical_statuses_served [OF serves_docs_map, of "[''m1'']" ?docs "''u''"] ok(1) by fastforce
  ultimately show ?thesis
    using batched_statuses_agree [OF serves_docs_map, of "\<lambda>p. Inr (?docs p)" ?docs "[''m1'']" "''u''" ?env "\<lambda>_. rid" "\<lambda>_. None" "\<lambda>_. 0"]
      ok rid none by auto
qed

end
