(* ===== verification/List_Cursor.thy ===== *)
theory List_Cursor
  imports Signed_Tokens
begin

text \<open>
  The continuation cursor of the merged memory list
  (\<^verbatim>\<open>backend/utils/memory/universal_list_cursor.py\<close>): an HMAC-signed, versioned token that binds the
  authority of the query (user, archive and pending flags, device scope) and the positions
  of the streams. A decoded payload may hold any JSON value under a key, so the user and the
  device of a state are JSON values; \<open>cursor_state_ok\<close> says when they are the strings the code
  annotates.
\<close>

section \<open>Data\<close>

datatype cursor_error =
    Cursor_Error string
  | Unicode_Encode_Error
  | Compare_Type_Error

record stream_keyset =
  updated_at_us :: int
  memory_id :: string

record universal_list_cursor_state =
  uid_of :: json
  include_archive :: bool
  include_pending_processing :: bool
  device_scope :: string
  client_device_id :: json
  canonical :: "stream_keyset option"
  canonical_scan :: "stream_keyset option"
  historical :: "stream_keyset option"
  historical_updated_scan :: "stream_keyset option"
  historical_created_scan :: "stream_keyset option"
  canonical_exhausted :: bool
  historical_updated_exhausted :: bool
  historical_created_exhausted :: bool

record universal_list_cursor_claims =
  claims_state :: universal_list_cursor_state
  expires_at_epoch_seconds :: int

abbreviation malformed :: "cursor_error + 'a" where
  "malformed \<equiv> Inl (Cursor_Error ''malformed_cursor'')"

fun sum_bind :: "'e + 'a \<Rightarrow> ('a \<Rightarrow> 'e + 'b) \<Rightarrow> 'e + 'b" where
  "sum_bind (Inl e) f = Inl e"
| "sum_bind (Inr x) f = f x"

section \<open>Environment\<close>

definition cursor_secret :: "environ \<Rightarrow> cursor_error + byte list" where
  "cursor_secret env =
     (let raw_secret = str_or (env ''MEMORY_V3_CURSOR_SECRET'') '''' in
      if raw_secret = '''' then Inl (Cursor_Error ''missing_cursor_secret'') else Inr (utf8_bytes raw_secret))"

definition cursor_ttl_seconds :: "environ \<Rightarrow> int" where
  "cursor_ttl_seconds env =
     (let raw_ttl = str_or (env ''MEMORY_V3_CURSOR_TTL_SECONDS'') '''' in
      if raw_ttl = '''' then 86400
      else case py_int raw_ttl of Some n \<Rightarrow> max 1 n | None \<Rightarrow> 86400)"

section \<open>Encoding\<close>

definition canonical_json :: "jdict \<Rightarrow> string" where
  "canonical_json payload = json_show (sort_keys (JObj payload))"

definition signature :: "byte list \<Rightarrow> string \<Rightarrow> string" where
  "signature secret payload_segment = b64encode (bytes_text (hmac_sha256 secret (utf8_bytes payload_segment)))"

fun keyset_payload :: "stream_keyset option \<Rightarrow> json" where
  "keyset_payload None = JNull"
| "keyset_payload (Some ks) = JObj [(''updated_at_us'', JInt (updated_at_us ks)), (''memory_id'', JStr (memory_id ks))]"

definition cursor_payload :: "universal_list_cursor_state \<Rightarrow> int \<Rightarrow> jdict" where
  "cursor_payload st expires =
     [(''schema_version'', JInt 3),
      (''source'', JStr ''universal_mixed_list''),
      (''read_mode'', JStr ''newest_first_mixed''),
      (''uid'', uid_of st),
      (''include_archive'', JBool (include_archive st)),
      (''include_pending_processing'', JBool (include_pending_processing st)),
      (''device_scope'', JStr (device_scope st)),
      (''client_device_id'', client_device_id st),
      (''canonical'', keyset_payload (canonical st)),
      (''canonical_scan'', keyset_payload (canonical_scan st)),
      (''historical'', keyset_payload (historical st)),
      (''historical_updated_scan'', keyset_payload (historical_updated_scan st)),
      (''historical_created_scan'', keyset_payload (historical_created_scan st)),
      (''canonical_exhausted'', JBool (canonical_exhausted st)),
      (''historical_updated_exhausted'', JBool (historical_updated_exhausted st)),
      (''historical_created_exhausted'', JBool (historical_created_exhausted st)),
      (''expires_at_epoch_seconds'', JInt expires)]"

text \<open>\<open>clock\<close> is \<^verbatim>\<open>int(time.time())\<close>, read when no instant is passed.\<close>

definition encode_universal_list_cursor ::
  "environ \<Rightarrow> int \<Rightarrow> universal_list_cursor_state \<Rightarrow> byte list \<Rightarrow> int option \<Rightarrow> int option \<Rightarrow> string" where
  "encode_universal_list_cursor env clock st secret now_epoch_seconds ttl_seconds =
     (let now = (case now_epoch_seconds of Some n \<Rightarrow> n | None \<Rightarrow> clock);
          ttl = (case ttl_seconds of Some n \<Rightarrow> n | None \<Rightarrow> cursor_ttl_seconds env);
          payload_segment = b64encode (canonical_json (cursor_payload st (now + max 1 ttl)))
      in ''uml.'' @ payload_segment @ CHR ''.'' # signature secret payload_segment)"

section \<open>Decoding\<close>

definition unicode_space :: "nat \<Rightarrow> bool" where
  "unicode_space n \<longleftrightarrow>
     9 \<le> n \<and> n \<le> 13 \<or> 28 \<le> n \<and> n \<le> 32 \<or> n = 133 \<or> n = 160 \<or> n = 5760 \<or> 8192 \<le> n \<and> n \<le> 8202 \<or>
     n = 8232 \<or> n = 8233 \<or> n = 8239 \<or> n = 8287 \<or> n = 12288"

text \<open>\<^verbatim>\<open>not s.strip()\<close>.\<close>

definition blank_text :: "string \<Rightarrow> bool" where
  "blank_text s \<longleftrightarrow> list_all unicode_space (utf8_points s)"

definition parse_keyset :: "json \<Rightarrow> cursor_error + stream_keyset option" where
  "parse_keyset payload =
     (case payload of
        JNull \<Rightarrow> Inr None
      | JObj data \<Rightarrow>
          (case dict_get data ''updated_at_us'' of
             JInt us \<Rightarrow>
               if us < 0 then malformed
               else (case dict_get data ''memory_id'' of
                       JStr m \<Rightarrow> if blank_text m then malformed
                                 else Inr (Some \<lparr>updated_at_us = us, memory_id = m\<rparr>)
                     | _ \<Rightarrow> malformed)
           | _ \<Rightarrow> malformed)
      | _ \<Rightarrow> malformed)"

definition required_keys :: "string list" where
  "required_keys =
     [''canonical_scan'', ''historical_updated_scan'', ''historical_created_scan'', ''include_pending_processing'',
      ''historical_updated_exhausted'', ''historical_created_exhausted'']"

definition keyset_names :: "string list" where
  "keyset_names = [''canonical'', ''canonical_scan'', ''historical'', ''historical_updated_scan'', ''historical_created_scan'']"

definition has_key :: "jdict \<Rightarrow> string \<Rightarrow> bool" where
  "has_key d k \<longleftrightarrow> map_of d k \<noteq> None"

definition millisecond_keyset :: "json \<Rightarrow> bool" where
  "millisecond_keyset v = (case v of JObj d \<Rightarrow> has_key d ''updated_at_ms'' | _ \<Rightarrow> False)"

text \<open>The body of the \<^verbatim>\<open>try\<close>: every error in it is reported as a malformed cursor.\<close>

definition parse_claims :: "(json \<Rightarrow> string) \<Rightarrow> jdict \<Rightarrow> cursor_error + universal_list_cursor_claims" where
  "parse_claims repr data =
     (if json_number (dict_get data ''schema_version'') \<noteq> Some 3 then malformed
      else if dict_get data ''source'' \<noteq> JStr ''universal_mixed_list'' \<or> dict_get data ''read_mode'' \<noteq> JStr ''newest_first_mixed''
        then malformed
      else if \<not> list_all (has_key data) required_keys then malformed
      else if has_key data ''historical_scan_offset'' \<or> has_key data ''historical_exhausted'' then malformed
      else if list_ex (\<lambda>k. millisecond_keyset (dict_get data k)) keyset_names then malformed
      else case dict_get data ''expires_at_epoch_seconds'' of
        JInt expires_at \<Rightarrow>
          if \<not> has_key data ''uid'' \<or> \<not> has_key data ''include_archive'' \<or> \<not> has_key data ''device_scope'' then malformed
          else sum_bind (parse_keyset (dict_get data ''canonical'')) (\<lambda>c.
               sum_bind (parse_keyset (dict_get data ''canonical_scan'')) (\<lambda>cs.
               sum_bind (parse_keyset (dict_get data ''historical'')) (\<lambda>h.
               sum_bind (parse_keyset (dict_get data ''historical_updated_scan'')) (\<lambda>hu.
               sum_bind (parse_keyset (dict_get data ''historical_created_scan'')) (\<lambda>hc.
               Inr \<lparr>claims_state =
                      \<lparr>uid_of = dict_get data ''uid'',
                       include_archive = json_truthy (dict_get data ''include_archive''),
                       include_pending_processing = json_truthy (dict_get data ''include_pending_processing''),
                       device_scope = json_str repr (dict_get data ''device_scope''),
                       client_device_id = dict_get data ''client_device_id'',
                       canonical = c, canonical_scan = cs, historical = h,
                       historical_updated_scan = hu, historical_created_scan = hc,
                       canonical_exhausted = json_truthy (dict_get data ''canonical_exhausted''),
                       historical_updated_exhausted = json_truthy (dict_get data ''historical_updated_exhausted''),
                       historical_created_exhausted = json_truthy (dict_get data ''historical_created_exhausted'')\<rparr>,
                    expires_at_epoch_seconds = expires_at\<rparr>)))))
      | _ \<Rightarrow> malformed)"

record cursor_request =
  req_uid :: string
  req_include_archive :: bool
  req_include_pending_processing :: bool
  req_device_scope :: string
  req_client_device_id :: "string option"

definition device_json :: "string option \<Rightarrow> json" where
  "device_json d = (case nonempty_str d of None \<Rightarrow> JNull | Some s \<Rightarrow> JStr s)"

text \<open>The checks of the decoded claims against the request, in the order of the code.\<close>

definition check_claims :: "int \<Rightarrow> cursor_request \<Rightarrow> universal_list_cursor_claims \<Rightarrow> cursor_error + universal_list_cursor_claims" where
  "check_claims now rq cl =
     (let st = claims_state cl in
      if now > expires_at_epoch_seconds cl then Inl (Cursor_Error ''cursor_expired'')
      else if uid_of st \<noteq> JStr (req_uid rq) then Inl (Cursor_Error ''uid_mismatch'')
      else if include_archive st \<noteq> req_include_archive rq then Inl (Cursor_Error ''include_archive_mismatch'')
      else if include_pending_processing st \<noteq> req_include_pending_processing rq
        then Inl (Cursor_Error ''include_pending_processing_mismatch'')
      else if device_scope st \<noteq> req_device_scope rq then Inl (Cursor_Error ''device_scope_mismatch'')
      else if json_or (client_device_id st) JNull \<noteq> device_json (req_client_device_id rq)
        then Inl (Cursor_Error ''device_scope_mismatch'')
      else Inr cl)"

definition decode_universal_list_cursor ::
  "(json \<Rightarrow> string) \<Rightarrow> int \<Rightarrow> string \<Rightarrow> cursor_request \<Rightarrow> byte list \<Rightarrow> int option \<Rightarrow> cursor_error + universal_list_cursor_claims" where
  "decode_universal_list_cursor repr clock cursor rq secret now_epoch_seconds =
     (case (if cursor = '''' then [] else split_on (CHR ''.'') cursor) of
        [prefix, payload_segment, signature_segment] \<Rightarrow>
          if prefix \<noteq> ''uml'' then malformed
          else if \<not> ascii_text payload_segment then Inl Unicode_Encode_Error
          else if \<not> ascii_text signature_segment then Inl Compare_Type_Error
          else if signature secret payload_segment \<noteq> signature_segment then Inl (Cursor_Error ''invalid_signature'')
          else (case b64decode payload_segment of
             None \<Rightarrow> malformed
           | Some text \<Rightarrow>
               (case loads_text text of
                  Some (JObj data) \<Rightarrow>
                    sum_bind (parse_claims repr data)
                      (check_claims (case now_epoch_seconds of Some n \<Rightarrow> n | None \<Rightarrow> clock) rq)
                | _ \<Rightarrow> malformed))
      | _ \<Rightarrow> malformed)"

text \<open>\<^verbatim>\<open>scope_fingerprint\<close>: for logging only.\<close>

definition scope_fingerprint :: "string \<Rightarrow> string option \<Rightarrow> string" where
  "scope_fingerprint scope dev = take 12 (hex_of (sha256 (utf8_bytes (scope @ CHR ''|'' # str_or dev ''''))))"

section \<open>The token contract\<close>

interpretation cursor_token: signed_token b64encode b64decode "signature secret" for secret
  by unfold_locales (simp_all add: b64decode_encode b64encode_no_dot signature_def)

lemma signature_ascii: "ascii_text (signature secret s)"
  by (simp add: signature_def b64encode_ascii)

definition keyset_ok :: "stream_keyset option \<Rightarrow> bool" where
  "keyset_ok ks = (case ks of None \<Rightarrow> True
     | Some k \<Rightarrow> 0 \<le> updated_at_us k \<and> \<not> blank_text (memory_id k))"

definition keyset_text_ok :: "stream_keyset option \<Rightarrow> bool" where
  "keyset_text_ok ks = (case ks of None \<Rightarrow> True | Some k \<Rightarrow> valid_utf8 (memory_id k))"

definition keysets_of :: "universal_list_cursor_state \<Rightarrow> stream_keyset option list" where
  "keysets_of st = [canonical st, canonical_scan st, historical st, historical_updated_scan st, historical_created_scan st]"

fun device_text_ok :: "json \<Rightarrow> bool" where
  "device_text_ok JNull = True"
| "device_text_ok (JStr s) = valid_utf8 s"
| "device_text_ok _ = False"

text \<open>The states the code builds: the user a string, the device a string or absent, every text
  well formed, every keyset a timestamp that is not negative and an id that is not blank.\<close>

definition cursor_state_ok :: "universal_list_cursor_state \<Rightarrow> bool" where
  "cursor_state_ok st \<longleftrightarrow>
     (case uid_of st of JStr u \<Rightarrow> valid_utf8 u | _ \<Rightarrow> False) \<and> device_text_ok (client_device_id st) \<and>
     valid_utf8 (device_scope st) \<and> list_all keyset_ok (keysets_of st) \<and> list_all keyset_text_ok (keysets_of st)"

lemma parse_keyset_payload: "keyset_ok ks \<Longrightarrow> parse_keyset (sort_keys (keyset_payload ks)) = Inr ks"
proof (cases ks)
  case (Some k)
  assume "keyset_ok ks"
  moreover have "dict_get (sort_key fst [(''updated_at_us'', JInt (updated_at_us k)), (''memory_id'', JStr (memory_id k))]) j =
      dict_get [(''updated_at_us'', JInt (updated_at_us k)), (''memory_id'', JStr (memory_id k))] j" for j
    unfolding dict_get_def by (subst map_of_sort_key) simp_all
  ultimately show ?thesis
    using Some by (simp add: parse_keyset_def keyset_ok_def dict_get_def del: sort_key_simps)
qed (simp add: parse_keyset_def)

lemma keyset_not_millisecond: "\<not> millisecond_keyset (sort_keys (keyset_payload ks))"
proof (cases ks)
  case (Some k)
  then show ?thesis
    by (simp add: millisecond_keyset_def has_key_def map_of_sort_key del: sort_key_simps)
qed (simp add: millisecond_keyset_def)

lemma cursor_payload_printable:
  assumes "cursor_state_ok st"
  shows "json_printable (JObj (cursor_payload st e))"
proof -
  have ks: "keyset_text_ok ks \<Longrightarrow> json_printable (keyset_payload ks)" for ks
    by (cases ks) (simp_all add: keyset_text_ok_def ascii_valid)
  have "json_printable (uid_of st)" "json_printable (client_device_id st)"
    using assms by (auto simp: cursor_state_ok_def split: json.splits elim: device_text_ok.elims)
  then show ?thesis
    using assms ks by (simp add: cursor_payload_def cursor_state_ok_def keysets_of_def ascii_valid)
qed

lemma has_key_sorted: "distinct (map fst d) \<Longrightarrow> has_key (sorted_members d) k = has_key d k"
  by (simp add: has_key_def map_of_sort_keys)

lemma distinct_cursor_payload: "distinct (map fst (cursor_payload st e))"
  by (simp add: cursor_payload_def)

lemmas sorted_payload = dict_get_sorted [OF distinct_cursor_payload] has_key_sorted [OF distinct_cursor_payload]

lemma parse_claims_payload:
  assumes "cursor_state_ok st"
  shows "parse_claims repr (sorted_members (cursor_payload st e)) = Inr \<lparr>claims_state = st, expires_at_epoch_seconds = e\<rparr>"
proof -
  let ?P = "cursor_payload st e"
  have ks: "keyset_ok (canonical st)" "keyset_ok (canonical_scan st)" "keyset_ok (historical st)"
    "keyset_ok (historical_updated_scan st)" "keyset_ok (historical_created_scan st)"
    using assms by (simp_all add: cursor_state_ok_def keysets_of_def)
  have ident: "sort_keys (uid_of st) = uid_of st" "sort_keys (client_device_id st) = client_device_id st"
    using assms by (auto simp: cursor_state_ok_def split: json.splits elim: device_text_ok.elims)
  have get: "dict_get ?P ''schema_version'' = JInt 3" "dict_get ?P ''source'' = JStr ''universal_mixed_list''"
    "dict_get ?P ''read_mode'' = JStr ''newest_first_mixed''" "dict_get ?P ''uid'' = uid_of st"
    "dict_get ?P ''include_archive'' = JBool (include_archive st)"
    "dict_get ?P ''include_pending_processing'' = JBool (include_pending_processing st)"
    "dict_get ?P ''device_scope'' = JStr (device_scope st)" "dict_get ?P ''client_device_id'' = client_device_id st"
    "dict_get ?P ''canonical'' = keyset_payload (canonical st)"
    "dict_get ?P ''canonical_scan'' = keyset_payload (canonical_scan st)"
    "dict_get ?P ''historical'' = keyset_payload (historical st)"
    "dict_get ?P ''historical_updated_scan'' = keyset_payload (historical_updated_scan st)"
    "dict_get ?P ''historical_created_scan'' = keyset_payload (historical_created_scan st)"
    "dict_get ?P ''canonical_exhausted'' = JBool (canonical_exhausted st)"
    "dict_get ?P ''historical_updated_exhausted'' = JBool (historical_updated_exhausted st)"
    "dict_get ?P ''historical_created_exhausted'' = JBool (historical_created_exhausted st)"
    "dict_get ?P ''expires_at_epoch_seconds'' = JInt e"
    by (simp_all add: cursor_payload_def dict_get_def)
  have keys: "list_all (has_key ?P) required_keys" "\<not> has_key ?P ''historical_scan_offset''"
    "\<not> has_key ?P ''historical_exhausted''" "has_key ?P ''uid''" "has_key ?P ''include_archive''" "has_key ?P ''device_scope''"
    by (simp_all add: cursor_payload_def has_key_def required_keys_def)
  show ?thesis
    using keys by (simp add: parse_claims_def sorted_payload get parse_keyset_payload ks ident
        keyset_names_def keyset_not_millisecond list_all_iff del: sort_key_simps)
qed

text \<open>A cursor that was issued decodes to the state it was issued for, subject only to the
  checks against the request.\<close>

lemma decode_encode_cursor:
  assumes "cursor_state_ok st"
  shows "decode_universal_list_cursor repr clock' (encode_universal_list_cursor env clock st secret now ttl) rq secret now' =
    check_claims (case now' of Some n \<Rightarrow> n | None \<Rightarrow> clock') rq
      \<lparr>claims_state = st,
       expires_at_epoch_seconds = (case now of Some n \<Rightarrow> n | None \<Rightarrow> clock) +
         max 1 (case ttl of Some n \<Rightarrow> n | None \<Rightarrow> cursor_ttl_seconds env)\<rparr>"
proof -
  define e where "e = (case now of Some n \<Rightarrow> n | None \<Rightarrow> clock) + max 1 (case ttl of Some n \<Rightarrow> n | None \<Rightarrow> cursor_ttl_seconds env)"
  define body where "body = canonical_json (cursor_payload st e)"
  let ?cursor = "encode_universal_list_cursor env clock st secret now ttl"
  have cursor: "?cursor = ''uml'' @ CHR ''.'' # b64encode body @ CHR ''.'' # signature secret (b64encode body)"
    by (simp add: encode_universal_list_cursor_def Let_def e_def body_def)
  have parts: "(if ?cursor = '''' then [] else split_on (CHR ''.'') ?cursor) = [''uml'', b64encode body, signature secret (b64encode body)]"
    unfolding cursor by (subst split_on_append) (simp_all add: cursor_token.split_token)
  have loads: "loads_text body = Some (JObj (sorted_members (cursor_payload st e)))"
    using loads_text_json_show [OF sort_keys_printable [OF cursor_payload_printable [OF assms]]]
    by (simp add: body_def canonical_json_def)
  show ?thesis
    unfolding decode_universal_list_cursor_def parts
    by (simp add: signature_ascii b64encode_ascii b64decode_encode loads parse_claims_payload [OF assms] e_def [symmetric])
qed

section \<open>Properties\<close>

text \<open>C36: A cursor issued for a well-formed state and decoded with the same secret is accepted
  exactly when the request has the authority it was issued for (the user, both flags, the
  device scope and the device, an empty device being none) and it has not expired; what is
  then returned is the state that was encoded, positions and exhaustion flags included, and
  the expiry, at least one second after it was issued.\<close>

theorem cursor_round_trip:
  assumes "cursor_state_ok st" "e = now + max 1 ttl"
  shows "decode_universal_list_cursor repr clock' (encode_universal_list_cursor env clock st secret (Some now) (Some ttl)) rq secret (Some now') = Inr cl
    \<longleftrightarrow> cl = \<lparr>claims_state = st, expires_at_epoch_seconds = e\<rparr> \<and> now' \<le> e \<and>
        uid_of st = JStr (req_uid rq) \<and> include_archive st = req_include_archive rq \<and>
        include_pending_processing st = req_include_pending_processing rq \<and>
        device_scope st = req_device_scope rq \<and>
        json_or (client_device_id st) JNull = device_json (req_client_device_id rq)"
  unfolding decode_encode_cursor [OF assms(1)] by (auto simp: check_claims_def assms(2))

definition sample_state :: universal_list_cursor_state where
  "sample_state =
     \<lparr>uid_of = JStr ''u1'', include_archive = False, include_pending_processing = True,
      device_scope = ''current'', client_device_id = JStr ''dev'',
      canonical = Some \<lparr>updated_at_us = 1700000000000001, memory_id = ''m1''\<rparr>, canonical_scan = None, historical = None,
      historical_updated_scan = Some \<lparr>updated_at_us = 0, memory_id = ''m2''\<rparr>, historical_created_scan = None,
      canonical_exhausted = False, historical_updated_exhausted = False, historical_created_exhausted = True\<rparr>"

lemma sample_state_ok: "cursor_state_ok sample_state"
  by (simp add: cursor_state_ok_def sample_state_def keysets_of_def keyset_ok_def keyset_text_ok_def ascii_valid
      blank_text_def ascii_points unicode_space_def)

theorem cursor_round_trip_witness:
  "decode_universal_list_cursor (\<lambda>_. '''') 0
     (encode_universal_list_cursor Map.empty 0 sample_state [1, 2, 3] (Some 100) (Some 60))
     \<lparr>req_uid = ''u1'', req_include_archive = False, req_include_pending_processing = True, req_device_scope = ''current'', req_client_device_id = Some ''dev''\<rparr>
     [1, 2, 3] (Some 160) =
   Inr \<lparr>claims_state = sample_state, expires_at_epoch_seconds = 160\<rparr>"
  by (subst cursor_round_trip [OF sample_state_ok refl])
    (simp add: sample_state_def json_or_def device_json_def)

lemma parse_keyset_ok: "parse_keyset v = Inr ks \<Longrightarrow> keyset_ok ks"
  by (auto simp: parse_keyset_def keyset_ok_def split: json.splits if_splits)

lemma sum_bind_Inr: "sum_bind x f = Inr y \<longleftrightarrow> (\<exists>a. x = Inr a \<and> f a = Inr y)"
  by (cases x) auto

lemma sum_bind_Inl: "sum_bind x f = Inl e \<longleftrightarrow> x = Inl e \<or> (\<exists>a. x = Inr a \<and> f a = Inl e)"
  by (cases x) auto

lemma parse_claims_keysets: "parse_claims repr d = Inr cl \<Longrightarrow> list_all keyset_ok (keysets_of (claims_state cl))"
  by (auto simp: parse_claims_def sum_bind_Inr keysets_of_def dest!: parse_keyset_ok split: if_splits json.splits)

lemma split_on_join: "split_on sep s = [a, b, c] \<Longrightarrow> s = a @ sep # b @ sep # c"
proof (induction s arbitrary: a)
  case (Cons x s)
  have two: "split_on sep s = [b, c] \<Longrightarrow> s = b @ sep # c" for s b c
  proof (induction s arbitrary: b)
    case (Cons y s)
    have one: "split_on sep s = [c] \<Longrightarrow> s = c" for s c
      by (induction s arbitrary: c) (auto split: if_splits list.splits)
    show ?case using Cons one by (auto split: if_splits list.splits)
  qed simp
  show ?case using Cons two by (auto split: if_splits list.splits)
qed simp

lemma decode_cursor_parts:
  assumes "decode_universal_list_cursor repr clock cursor rq secret now = Inr cl"
  obtains segment data where
    "cursor = ''uml.'' @ segment @ CHR ''.'' # signature secret segment"
    "parse_claims repr data = Inr cl"
    "check_claims (case now of Some n \<Rightarrow> n | None \<Rightarrow> clock) rq cl = Inr cl"
proof -
  obtain segment data cl' where
    "split_on (CHR ''.'') cursor = [''uml'', segment, signature secret segment]"
    "parse_claims repr data = Inr cl'"
    "check_claims (case now of Some n \<Rightarrow> n | None \<Rightarrow> clock) rq cl' = Inr cl"
    using assms by (auto simp: decode_universal_list_cursor_def sum_bind_Inr split: list.splits if_splits option.splits json.splits)
  moreover from this(3) have "cl' = cl"
    by (auto simp: check_claims_def Let_def split: if_splits)
  ultimately show ?thesis
    using that split_on_join by fastforce
qed

text \<open>C37: Whatever token a client presents, what the decoder accepts is a segment with the server's
  signature of exactly that segment, not expired, for the requesting user, flags, scope and
  device; and its positions are well formed: timestamps that are not negative and ids that
  are not blank, so that continuing the scan from them is defined.\<close>

theorem decoded_cursor_authorised:
  assumes "decode_universal_list_cursor repr clock cursor rq secret (Some now) = Inr cl"
  shows "(\<exists>segment. cursor = ''uml.'' @ segment @ CHR ''.'' # signature secret segment) \<and>
    now \<le> expires_at_epoch_seconds cl \<and> uid_of (claims_state cl) = JStr (req_uid rq) \<and>
    include_archive (claims_state cl) = req_include_archive rq \<and>
    include_pending_processing (claims_state cl) = req_include_pending_processing rq \<and>
    device_scope (claims_state cl) = req_device_scope rq \<and>
    json_or (client_device_id (claims_state cl)) JNull = device_json (req_client_device_id rq) \<and>
    list_all keyset_ok (keysets_of (claims_state cl))"
proof -
  obtain segment data where
    "cursor = ''uml.'' @ segment @ CHR ''.'' # signature secret segment"
    "parse_claims repr data = Inr cl" "check_claims now rq cl = Inr cl"
    using decode_cursor_parts [OF assms] by auto
  then show ?thesis
    using parse_claims_keysets by (auto simp: check_claims_def Let_def split: if_splits)
qed

theorem decoded_cursor_authorised_witness:
  "(\<exists>segment. encode_universal_list_cursor Map.empty 0 sample_state [1, 2, 3] (Some 100) (Some 60) =
      ''uml.'' @ segment @ CHR ''.'' # signature [1, 2, 3] segment) \<and>
   list_all keyset_ok (keysets_of sample_state)"
proof -
  have "decode_universal_list_cursor (\<lambda>_. '''') 0
     (encode_universal_list_cursor Map.empty 0 sample_state [1, 2, 3] (Some 100) (Some 60))
     \<lparr>req_uid = ''u1'', req_include_archive = False, req_include_pending_processing = True, req_device_scope = ''current'', req_client_device_id = Some ''dev''\<rparr>
     [1, 2, 3] (Some 160) = Inr \<lparr>claims_state = sample_state, expires_at_epoch_seconds = 160\<rparr>"
    unfolding decode_encode_cursor [OF sample_state_ok]
    by (simp add: check_claims_def sample_state_def json_or_def device_json_def)
  from decoded_cursor_authorised [OF this] show ?thesis by simp
qed

text \<open>C38: Every refusal is a cursor error with one of the seven reasons, which the caller answers
  with status 400, except on a token with characters outside ASCII: there the signature check
  itself raises an encoding error or a type error, which the caller does not catch.\<close>

theorem decode_error_reasons:
  assumes "decode_universal_list_cursor repr clock cursor rq secret now = Inl err"
  shows "err \<in> Cursor_Error ` {''malformed_cursor'', ''invalid_signature'', ''cursor_expired'', ''uid_mismatch'',
      ''include_archive_mismatch'', ''include_pending_processing_mismatch'', ''device_scope_mismatch''} \<or>
    err \<in> {Unicode_Encode_Error, Compare_Type_Error} \<and> \<not> ascii_text cursor"
proof -
  have keyset: "parse_keyset v = Inl e \<Longrightarrow> e = Cursor_Error ''malformed_cursor''" for v e
    by (auto simp: parse_keyset_def split: json.splits if_splits)
  have claims: "parse_claims repr d = Inl e \<Longrightarrow> e = Cursor_Error ''malformed_cursor''" for d e
    by (auto simp: parse_claims_def sum_bind_Inl dest: keyset split: json.splits if_splits)
  show ?thesis
    using assms
    by (auto simp: decode_universal_list_cursor_def sum_bind_Inl check_claims_def Let_def
        dest!: claims split_on_join split: list.splits if_splits option.splits json.splits)
qed

theorem decode_error_reasons_witness:
  "decode_universal_list_cursor (\<lambda>_. '''') 0 [CHR ''u'', CHR ''m'', CHR ''l'', CHR ''.'', CHR 0xC3, CHR 0xA9, CHR ''.'', CHR ''x'']
     \<lparr>req_uid = ''u1'', req_include_archive = False, req_include_pending_processing = True, req_device_scope = ''all'', req_client_device_id = None\<rparr>
     [1] (Some 0) = Inl Unicode_Encode_Error \<and>
   \<not> ascii_text [CHR ''u'', CHR ''m'', CHR ''l'', CHR ''.'', CHR 0xC3, CHR 0xA9, CHR ''.'', CHR ''x'']"
proof -
  have "decode_universal_list_cursor (\<lambda>_. '''') 0 [CHR ''u'', CHR ''m'', CHR ''l'', CHR ''.'', CHR 0xC3, CHR 0xA9, CHR ''.'', CHR ''x'']
     \<lparr>req_uid = ''u1'', req_include_archive = False, req_include_pending_processing = True, req_device_scope = ''all'', req_client_device_id = None\<rparr>
     [1] (Some 0) = Inl Unicode_Encode_Error"
    by (simp add: decode_universal_list_cursor_def)
  with decode_error_reasons [OF this] show ?thesis by auto
qed

end
