(* ===== verification/Memory_List.thy ===== *)
theory Memory_List
  imports Memory_Status List_Cursor "HOL-Library.Product_Lexorder"
begin

text \<open>
  The merged newest-first memory list of \<^verbatim>\<open>backend/utils/memory/memory_service.py\<close>: the keyset scans of
  the two historical orders and of the canonical items, the peekable streams over them, the scan
  budget, and \<^verbatim>\<open>MemoryService.read_page\<close>, which merges the streams and issues the signed cursor to
  continue from. What Firestore and the clock answer is an argument (\<open>backend\<close>), which may answer
  differently at every call: calls are numbered, and a call may take several readings of the
  clock. Instants are microseconds since the epoch in UTC. The state of a request is a \<open>walk\<close>: the
  call number, the request's budget, and the rows and the deadline left for skipping. A
  function of the code that can raise returns its result or the exception together with the walk.
\<close>

section \<open>Memories and keys\<close>

record memory =
  m_id :: string
  m_updated_at :: "timestamp option"
  m_created_at :: "timestamp option"
  m_is_locked :: bool
  m_content :: "nat list"
  m_devices :: "string list"

definition truncate_locked_preview_text :: "nat list \<Rightarrow> nat list" where
  "truncate_locked_preview_text content = (if length content > 70 then take 70 content @ [46, 46, 46] else content)"

definition truncate_locked_memory_preview :: "memory \<Rightarrow> memory" where
  "truncate_locked_memory_preview m =
     (if \<not> m_is_locked m \<or> m_content m = [] then m else m\<lparr>m_content := truncate_locked_preview_text (m_content m)\<rparr>)"

definition memory_keyset :: "memory \<Rightarrow> stream_keyset" where
  "memory_keyset m =
     (let t = (case m_updated_at m of Some t \<Rightarrow> Some t | None \<Rightarrow> m_created_at m) in
      \<lparr>updated_at_us = (case t of None \<Rightarrow> 0 | Some t \<Rightarrow> max 0 t), memory_id = m_id m\<rparr>)"

type_synonym scan_cursor = "timestamp \<times> string"

definition scan_cursor_to_stream_keyset :: "scan_cursor \<Rightarrow> stream_keyset" where
  "scan_cursor_to_stream_keyset c = \<lparr>updated_at_us = max 0 (fst c), memory_id = snd c\<rparr>"

definition stream_keyset_to_scan_cursor :: "stream_keyset \<Rightarrow> scan_cursor" where
  "stream_keyset_to_scan_cursor ks = (max 0 (updated_at_us ks), memory_id ks)"

definition keyset_sort_key :: "stream_keyset \<Rightarrow> int \<times> string" where
  "keyset_sort_key ks = (- updated_at_us ks, memory_id ks)"

definition memory_cursor_sort_key :: "memory \<Rightarrow> int \<times> string" where
  "memory_cursor_sort_key m = keyset_sort_key (memory_keyset m)"

record device_request =
  ds_scope :: string
  ds_client :: "string option"

definition matches_device :: "memory \<Rightarrow> device_request option \<Rightarrow> bool" where
  "matches_device m req =
     (case req of
        None \<Rightarrow> True
      | Some r \<Rightarrow>
          if ds_scope r = ''all'' then True
          else (case nonempty_str (ds_client r) of
                  None \<Rightarrow> False
                | Some d \<Rightarrow> m_devices m = [] \<or> d \<in> set (m_devices m)))"

section \<open>Keyset scans\<close>

datatype scan_kind = Updated_Scan | Created_Scan

text \<open>A historical document: the fields the scan reads, and the memory that decryption and schema
  validation make of its payload, if they succeed.\<close>

record hist_doc =
  hd_id :: string
  hd_updated_at :: "timestamp option"
  hd_created_at :: "timestamp option"
  hd_user_review :: "bool option"
  hd_invalidated :: bool
  hd_visibility :: "string option"
  hd_memory :: "memory option"

record canon_item =
  ci_memory_id :: string
  ci_uid :: string
  ci_memory :: memory

record canon_doc =
  cd_id :: string
  cd_updated_at :: "timestamp option"
  cd_item :: "canon_item option"

record scan_policy =
  sp_include_pending :: bool
  sp_include_archive :: bool
  sp_device :: "device_request option"

type_synonym 'r priced = "list_read_budget option \<Rightarrow> (list_error + 'r) \<times> list_read_budget option"

record backend =
  be_env :: environ
  be_validate :: "json \<Rightarrow> item_status option"
  be_time :: "nat \<Rightarrow> nat \<Rightarrow> rat"
  be_epoch :: int
  be_hist :: "nat \<Rightarrow> scan_kind \<Rightarrow> scan_cursor option \<Rightarrow> nat \<Rightarrow> rpc_fault + hist_doc list"
  be_canon :: "nat \<Rightarrow> scan_cursor option \<Rightarrow> nat \<Rightarrow> rpc_fault + canon_doc list"
  be_db :: "nat \<Rightarrow> doc_reader"
  be_get_all :: "nat \<Rightarrow> (string list \<Rightarrow> rpc_fault + snapshot list) option"
  be_visible :: "scan_policy \<Rightarrow> canon_doc \<Rightarrow> bool"
  be_suppressed :: "nat \<Rightarrow> scan_policy \<Rightarrow> canon_doc \<Rightarrow> bool priced"

definition HISTORICAL_SCAN_PAGE_MAX :: int where
  "HISTORICAL_SCAN_PAGE_MAX = 500"

definition MEMORY_LIST_SCAN_CHUNK_SIZE :: nat where
  "MEMORY_LIST_SCAN_CHUNK_SIZE = 50"

definition order_time :: "scan_kind \<Rightarrow> hist_doc \<Rightarrow> timestamp" where
  "order_time kind d =
     (case (case kind of Updated_Scan \<Rightarrow> hd_updated_at d | Created_Scan \<Rightarrow> hd_created_at d) of None \<Rightarrow> 0 | Some t \<Rightarrow> t)"

text \<open>\<^verbatim>\<open>_historical_scan_page\<close> of \<^verbatim>\<open>backend/database/memories.py\<close>.\<close>

definition historical_scan_page ::
  "backend \<Rightarrow> nat \<Rightarrow> scan_kind \<Rightarrow> nat \<Rightarrow> scan_cursor option \<Rightarrow> ((hist_doc \<times> scan_cursor) list \<times> bool) priced" where
  "historical_scan_page be call kind limit start_after budget =
     (if (case start_after of Some c \<Rightarrow> blank_text (snd c) | None \<Rightarrow> False) then (Inl Uncaught, budget)
      else case budgeted_stream_list (be_time be call 0) (be_time be call 1) (\<lambda>_. be_hist be call kind start_after limit) budget of
        (Inl e, b) \<Rightarrow> (Inl e, b)
      | (Inr docs, b) \<Rightarrow>
          (Inr (map (\<lambda>d. (d, (order_time kind d, hd_id d))) (filter (\<lambda>d. \<not> blank_text (hd_id d)) docs), length docs < limit), b))"

text \<open>\<^verbatim>\<open>HistoricalMemoryAdapter._adapt\<close>: an absent update instant falls back to the creation.\<close>

definition adapt :: "hist_doc \<Rightarrow> memory option" where
  "adapt d =
     (if blank_text (hd_id d) then None
      else case hd_memory d of
        None \<Rightarrow> None
      | Some m \<Rightarrow>
          if (case hd_visibility d of None \<Rightarrow> ''public'' | Some v \<Rightarrow> v) \<notin> {''private'', ''public'', ''shared''} then None
          else Some (m\<lparr>m_id := hd_id d,
                       m_updated_at := (if m_updated_at m = None then m_created_at m else m_updated_at m),
                       m_content := (if m_is_locked m then truncate_locked_preview_text (m_content m) else m_content m)\<rparr>))"

type_synonym slot = "memory option \<times> scan_cursor"

definition adapt_slot :: "device_request option \<Rightarrow> bool \<Rightarrow> hist_doc \<times> scan_cursor \<Rightarrow> slot" where
  "adapt_slot req drop_updated row =
     (case row of (d, c) \<Rightarrow>
        if drop_updated \<and> hd_updated_at d \<noteq> None then (None, c)
        else if hd_user_review d = Some False \<or> hd_invalidated d then (None, c)
        else case adapt d of
               None \<Rightarrow> (None, c)
             | Some m \<Rightarrow> if matches_device m req then (Some m, c) else (None, c))"

definition unavailable :: "string \<Rightarrow> string \<Rightarrow> list_error \<Rightarrow> list_error" where
  "unavailable detail stream e = (case e of Uncaught \<Rightarrow> Backing_Store_Unavailable detail stream | _ \<Rightarrow> e)"

text \<open>\<^verbatim>\<open>read_updated_scan_page\<close> and \<^verbatim>\<open>read_created_scan_page\<close>.\<close>

definition read_hist_scan_page ::
  "backend \<Rightarrow> nat \<Rightarrow> scan_kind \<Rightarrow> device_request option \<Rightarrow> int \<Rightarrow> scan_cursor option \<Rightarrow> (slot list \<times> bool) priced" where
  "read_hist_scan_page be call kind req limit start_after budget =
     (let bounded_limit = nat (max 1 (min (if limit = 0 then 100 else limit) HISTORICAL_SCAN_PAGE_MAX)) in
      case historical_scan_page be call kind bounded_limit start_after budget of
        (Inl e, b) \<Rightarrow> (Inl (unavailable ''Historical memory unavailable'' ''historical'' e), b)
      | (Inr (rows, exhausted), b) \<Rightarrow> (Inr (map (adapt_slot req (kind = Created_Scan)) rows, exhausted), b))"

text \<open>\<^verbatim>\<open>read_canonical_scan_page\<close> of \<^verbatim>\<open>backend/utils/memory/canonical_memory_adapter.py\<close>; whether a
  visible item is superseded within its lineage may take further reads.\<close>

fun canonical_slots :: "backend \<Rightarrow> nat \<Rightarrow> string \<Rightarrow> scan_policy \<Rightarrow> canon_doc list \<Rightarrow> slot list priced" where
  "canonical_slots be call uid pol [] budget = (Inr [], budget)"
| "canonical_slots be call uid pol (d # ds) budget =
     (if blank_text (cd_id d) then canonical_slots be call uid pol ds budget
      else
        (let c = (case cd_updated_at d of None \<Rightarrow> 0 | Some t \<Rightarrow> t, cd_id d);
             more = (\<lambda>m b. case canonical_slots be call uid pol ds b of
                             (Inl e, b') \<Rightarrow> (Inl e, b') | (Inr slots, b') \<Rightarrow> (Inr ((m, c) # slots), b'))
         in case cd_item d of
              None \<Rightarrow> more None budget
            | Some item \<Rightarrow>
                if ci_uid item \<noteq> uid then (Inl Uncaught, budget)
                else if ci_memory_id item \<noteq> cd_id d then more None budget
                else if \<not> be_visible be pol d then more None budget
                else (case be_suppressed be call pol d budget of
                        (Inl e, b) \<Rightarrow> (Inl e, b)
                      | (Inr True, b) \<Rightarrow> more None b
                      | (Inr False, b) \<Rightarrow> more (Some (ci_memory item)) b)))"

definition read_canonical_scan_page ::
  "backend \<Rightarrow> nat \<Rightarrow> string \<Rightarrow> scan_policy \<Rightarrow> int \<Rightarrow> scan_cursor option \<Rightarrow> (slot list \<times> bool) priced" where
  "read_canonical_scan_page be call uid pol limit start_after budget =
     (let bounded_limit = nat (max 1 (min (if limit = 0 then 100 else limit) 500)) in
      if (case start_after of Some c \<Rightarrow> blank_text (snd c) | None \<Rightarrow> False) then (Inl Uncaught, budget)
      else case budgeted_stream_list (be_time be call 0) (be_time be call 1) (\<lambda>_. be_canon be call start_after bounded_limit) budget of
        (Inl e, b) \<Rightarrow> (Inl e, b)
      | (Inr docs, b) \<Rightarrow>
          (case canonical_slots be call uid pol docs b of
             (Inl e, b') \<Rightarrow> (Inl e, b')
           | (Inr slots, b') \<Rightarrow> (Inr (slots, length docs < bounded_limit), b')))"

section \<open>The scan budget\<close>

record walk =
  wk_call :: nat
  wk_parent :: "list_read_budget option"
  wk_rows :: int
  wk_deadline :: rat

definition MEMORY_LIST_SCAN_ROW_BUDGET :: int where
  "MEMORY_LIST_SCAN_ROW_BUDGET = 4000"

definition MEMORY_LIST_SCAN_DEADLINE_SECONDS :: rat where
  "MEMORY_LIST_SCAN_DEADLINE_SECONDS = 6"

text \<open>\<^verbatim>\<open>_ScanRowBudget.__init__\<close> with its defaults.\<close>

definition new_walk :: "backend \<Rightarrow> list_read_budget option \<Rightarrow> walk" where
  "new_walk be parent =
     (case parent of
        None \<Rightarrow> \<lparr>wk_call = 1, wk_parent = None, wk_rows = max 1 MEMORY_LIST_SCAN_ROW_BUDGET,
                 wk_deadline = be_time be 0 0 + max 0 MEMORY_LIST_SCAN_DEADLINE_SECONDS\<rparr>
      | Some b \<Rightarrow> \<lparr>wk_call = 1, wk_parent = Some b, wk_rows = max 1 (min MEMORY_LIST_SCAN_ROW_BUDGET (remaining_documents b)),
                   wk_deadline = min (be_time be 0 0 + max 0 MEMORY_LIST_SCAN_DEADLINE_SECONDS)
                                     (be_time be 0 1 + max 0 (remaining_seconds (be_time be 0 2) b))\<rparr>)"

definition on_parent :: "backend \<Rightarrow> (list_read_budget \<Rightarrow> (list_error + unit) \<times> list_read_budget) \<Rightarrow> walk \<Rightarrow> (list_error + unit) \<times> walk" where
  "on_parent be f w =
     (case wk_parent w of
        None \<Rightarrow> (Inr (), w)
      | Some b \<Rightarrow> (case f b of (r, b') \<Rightarrow> (r, w\<lparr>wk_parent := Some b'\<rparr>)))"

definition scan_check :: "backend \<Rightarrow> string \<Rightarrow> walk \<Rightarrow> (list_error + unit) \<times> walk" where
  "scan_check be stream w =
     (let c = wk_call w in
      case on_parent be (budget_check (be_time be c 0)) (w\<lparr>wk_call := Suc c\<rparr>) of
        (Inl e, w') \<Rightarrow> (Inl e, w')
      | (Inr _, w') \<Rightarrow>
          if wk_rows w' < 0 \<or> be_time be c 1 \<ge> wk_deadline w'
          then (Inl (Backing_Store_Unavailable ''Memory scan budget exceeded'' stream), w') else (Inr (), w'))"

definition scan_charge :: "backend \<Rightarrow> string \<Rightarrow> walk \<Rightarrow> (list_error + unit) \<times> walk" where
  "scan_charge be stream w =
     (let c = wk_call w in
      case on_parent be (budget_charge (be_time be c 0) 1) (w\<lparr>wk_call := Suc c, wk_rows := wk_rows w - 1\<rparr>) of
        (Inl e, w') \<Rightarrow> (Inl e, w')
      | (Inr _, w') \<Rightarrow> scan_check be stream w')"

definition priced_call :: "(nat \<Rightarrow> 'r priced) \<Rightarrow> walk \<Rightarrow> (list_error + 'r) \<times> walk" where
  "priced_call f w =
     (case f (wk_call w) (wk_parent w) of (r, b) \<Rightarrow> (r, w\<lparr>wk_call := Suc (wk_call w), wk_parent := b\<rparr>))"

section \<open>Peekable streams\<close>

text \<open>A stream over a keyset scan: \<open>cs_slots\<close> are the slots of the current chunk that were not passed
  yet, \<open>cs_peek\<close> the memory waiting to be consumed with the scan position of its row. The last
  emitted key is used by the canonical stream, the statuses of the chunk by the historical
  ones.\<close>

record cursor_stream =
  cs_emitted :: "stream_keyset option"
  cs_scan :: "stream_keyset option"
  cs_exhausted :: bool
  cs_peek :: "(memory \<times> stream_keyset) option"
  cs_slots :: "(memory option \<times> stream_keyset) list"
  cs_slots_exhausted :: bool
  cs_statuses :: "string \<rightharpoonup> item_status"

definition new_stream :: "stream_keyset option \<Rightarrow> stream_keyset option \<Rightarrow> bool \<Rightarrow> cursor_stream" where
  "new_stream emitted scan exhausted =
     \<lparr>cs_emitted = emitted, cs_scan = scan, cs_exhausted = exhausted, cs_peek = None, cs_slots = [],
      cs_slots_exhausted = exhausted, cs_statuses = Map.empty\<rparr>"

type_synonym chunk = "(memory option \<times> stream_keyset) list \<times> bool \<times> (string \<rightharpoonup> item_status)"
type_synonym loader = "nat \<Rightarrow> scan_cursor option \<Rightarrow> chunk priced"

definition keyed :: "slot list \<Rightarrow> (memory option \<times> stream_keyset) list" where
  "keyed slots = map (\<lambda>(m, c). (map_option truncate_locked_memory_preview m, scan_cursor_to_stream_keyset c)) slots"

text \<open>What \<^verbatim>\<open>_ensure_slots\<close> loads. The canonical stream does not pass \<^verbatim>\<open>include_archive\<close> on, so the page
  is read without it.\<close>

definition load_canonical :: "backend \<Rightarrow> string \<Rightarrow> scan_policy \<Rightarrow> loader" where
  "load_canonical be uid pol call start_after budget =
     (case read_canonical_scan_page be call uid (pol\<lparr>sp_include_archive := False\<rparr>) (int MEMORY_LIST_SCAN_CHUNK_SIZE) start_after budget of
        (Inl e, b) \<Rightarrow> (Inl (unavailable ''Canonical memory unavailable'' ''canonical'' e), b)
      | (Inr (slots, exhausted), b) \<Rightarrow> (Inr (keyed slots, exhausted, Map.empty), b))"

definition load_historical :: "backend \<Rightarrow> string \<Rightarrow> device_request option \<Rightarrow> scan_kind \<Rightarrow> loader" where
  "load_historical be uid req kind call start_after budget =
     (case read_hist_scan_page be call kind req (int MEMORY_LIST_SCAN_CHUNK_SIZE) start_after budget of
        (Inl e, b) \<Rightarrow> (Inl (unavailable ''Historical memory unavailable'' ''historical'' e), b)
      | (Inr (slots, exhausted), b) \<Rightarrow>
          (case (case [m_id m. Some m \<leftarrow> map fst slots] of
                   [] \<Rightarrow> (Inr Map.empty, b)
                 | visible_ids \<Rightarrow> canonical_statuses (be_env be) (be_validate be) (be_db be call) (\<lambda>n. be_time be call (n + 2))
                                  (be_get_all be call) uid visible_ids b) of
             (Inl e, b') \<Rightarrow> (Inl e, b')
           | (Inr statuses, b') \<Rightarrow> (Inr (keyed slots, exhausted, statuses), b')))"

definition ensure_slots :: "backend \<Rightarrow> loader \<Rightarrow> string \<Rightarrow> cursor_stream \<Rightarrow> walk \<Rightarrow> (list_error + cursor_stream) \<times> walk" where
  "ensure_slots be load stream s w =
     (if cs_slots s \<noteq> [] \<or> cs_exhausted s then (Inr s, w)
      else case scan_check be stream w of
        (Inl e, w1) \<Rightarrow> (Inl e, w1)
      | (Inr _, w1) \<Rightarrow>
          (case priced_call (\<lambda>call. load call (map_option stream_keyset_to_scan_cursor (cs_scan s))) w1 of
             (Inl e, w2) \<Rightarrow> (Inl e, w2)
           | (Inr (slots, exhausted, statuses), w2) \<Rightarrow>
               (Inr (s\<lparr>cs_slots := slots, cs_slots_exhausted := exhausted, cs_statuses := statuses,
                       cs_exhausted := (if slots = [] then True else cs_exhausted s)\<rparr>), w2)))"

definition advance_raw_slot :: "cursor_stream \<Rightarrow> cursor_stream" where
  "advance_raw_slot s =
     (let rest = tl (cs_slots s) in
      if rest = [] then s\<lparr>cs_exhausted := cs_slots_exhausted s, cs_slots := [], cs_statuses := Map.empty\<rparr>
      else s\<lparr>cs_slots := rest\<rparr>)"

text \<open>\<^verbatim>\<open>historical_suppression_reason\<close>.\<close>

definition historical_suppression_reason :: "(string \<rightharpoonup> item_status) \<Rightarrow> string \<Rightarrow> string option" where
  "historical_suppression_reason statuses mid =
     (case statuses mid of
        Some Active \<Rightarrow> Some ''canonical_identity''
      | Some _ \<Rightarrow> Some ''canonical_state''
      | None \<Rightarrow> None)"

definition hidden_historical :: "cursor_stream \<Rightarrow> memory \<Rightarrow> bool" where
  "hidden_historical s m \<longleftrightarrow> historical_suppression_reason (cs_statuses s) (m_id m) \<noteq> None"

definition hidden_canonical :: "cursor_stream \<Rightarrow> memory \<Rightarrow> bool" where
  "hidden_canonical s m \<longleftrightarrow>
     (case cs_emitted s of None \<Rightarrow> False | Some ks \<Rightarrow> memory_cursor_sort_key m \<le> keyset_sort_key ks)"

lemma scan_check_rows: "scan_check be stream w = (r, w') \<Longrightarrow> wk_rows w' = wk_rows w \<and> (r = Inr () \<longrightarrow> 0 \<le> wk_rows w')"
  by (auto simp: scan_check_def on_parent_def Let_def split: option.splits prod.splits sum.splits if_splits)

lemma scan_charge_rows: "scan_charge be stream w = (Inr u, w') \<Longrightarrow> wk_rows w' = wk_rows w - 1 \<and> 0 \<le> wk_rows w'"
  by (auto simp: scan_charge_def on_parent_def Let_def dest!: scan_check_rows split: option.splits prod.splits sum.splits)

lemma ensure_slots_rows: "ensure_slots be load stream s w = (r, w') \<Longrightarrow> wk_rows w' = wk_rows w"
  by (auto simp: ensure_slots_def priced_call_def dest!: scan_check_rows split: if_splits sum.splits prod.splits)

text \<open>The loop of \<^verbatim>\<open>peek\<close>. Every row it passes over is charged, and a charge beyond the rows left
  raises, so it ends whatever the backend answers.\<close>

function peek_loop ::
  "backend \<Rightarrow> loader \<Rightarrow> (cursor_stream \<Rightarrow> memory \<Rightarrow> bool) \<Rightarrow> string \<Rightarrow> cursor_stream \<Rightarrow> walk \<Rightarrow>
   (list_error + memory option \<times> cursor_stream) \<times> walk" where
  "peek_loop be load hide stream s w =
     (case ensure_slots be load stream s w of
        (Inl e, w1) \<Rightarrow> (Inl e, w1)
      | (Inr s1, w1) \<Rightarrow>
          (case cs_slots s1 of
             [] \<Rightarrow> (Inr (None, s1\<lparr>cs_exhausted := True\<rparr>), w1)
           | (rec, ks) # _ \<Rightarrow>
               (case (case rec of None \<Rightarrow> None | Some m \<Rightarrow> if hide s1 m then None else Some m) of
                  Some m \<Rightarrow> (Inr (Some m, s1\<lparr>cs_peek := Some (m, ks)\<rparr>), w1)
                | None \<Rightarrow>
                    (case scan_charge be stream w1 of
                       (Inl e, w2) \<Rightarrow> (Inl e, w2)
                     | (Inr _, w2) \<Rightarrow> peek_loop be load hide stream (advance_raw_slot (s1\<lparr>cs_scan := Some ks\<rparr>)) w2))))"
  by pat_completeness auto
termination
  by (relation "measure (\<lambda>(be, load, hide, stream, s, w). nat (wk_rows w + 1))")
    (auto dest!: scan_charge_rows [OF sym] ensure_slots_rows [OF sym])

declare peek_loop.simps [simp del]

definition peek ::
  "backend \<Rightarrow> loader \<Rightarrow> (cursor_stream \<Rightarrow> memory \<Rightarrow> bool) \<Rightarrow> string \<Rightarrow> cursor_stream \<Rightarrow> walk \<Rightarrow>
   (list_error + memory option \<times> cursor_stream) \<times> walk" where
  "peek be load hide stream s w =
     (case cs_peek s of Some (m, _) \<Rightarrow> (Inr (Some m, s), w) | None \<Rightarrow> peek_loop be load hide stream s w)"

definition consume :: "cursor_stream \<Rightarrow> list_error + cursor_stream" where
  "consume s =
     (case cs_peek s of
        None \<Rightarrow> Inl Uncaught
      | Some (m, ks) \<Rightarrow>
          Inr (advance_raw_slot (s\<lparr>cs_emitted := Some (memory_keyset m), cs_scan := Some ks, cs_peek := None\<rparr>)))"

section \<open>The merged historical stream\<close>

record hist_stream =
  hs_consumed :: "stream_keyset option"
  hs_updated :: cursor_stream
  hs_created :: cursor_stream
  hs_source :: "scan_kind option"

record reader =
  rd_canonical :: loader
  rd_updated :: loader
  rd_created :: loader

definition peek_raw :: "backend \<Rightarrow> loader \<Rightarrow> cursor_stream \<Rightarrow> walk \<Rightarrow> (list_error + memory option \<times> cursor_stream) \<times> walk" where
  "peek_raw be load = peek be load hidden_historical ''historical''"

definition peek_canonical :: "backend \<Rightarrow> loader \<Rightarrow> cursor_stream \<Rightarrow> walk \<Rightarrow> (list_error + memory option \<times> cursor_stream) \<times> walk" where
  "peek_canonical be load = peek be load hidden_canonical ''canonical''"

text \<open>Which of two candidates comes first; the first argument wins a tie.\<close>

definition takes_first :: "memory option \<Rightarrow> memory option \<Rightarrow> bool" where
  "takes_first a b =
     (case b of
        None \<Rightarrow> True
      | Some m \<Rightarrow> (case a of None \<Rightarrow> False | Some m' \<Rightarrow> memory_cursor_sort_key m' \<le> memory_cursor_sort_key m))"

definition peek_historical :: "backend \<Rightarrow> reader \<Rightarrow> hist_stream \<Rightarrow> walk \<Rightarrow> (list_error + memory option \<times> hist_stream) \<times> walk" where
  "peek_historical be rd h w =
     (case peek_raw be (rd_updated rd) (hs_updated h) w of
        (Inl e, w1) \<Rightarrow> (Inl e, w1)
      | (Inr (um, u), w1) \<Rightarrow>
          (case peek_raw be (rd_created rd) (hs_created h) w1 of
             (Inl e, w2) \<Rightarrow> (Inl e, w2)
           | (Inr (cm, c), w2) \<Rightarrow>
               (let h' = h\<lparr>hs_updated := u, hs_created := c\<rparr> in
                if um = None \<and> cm = None then (Inr (None, h'\<lparr>hs_source := None\<rparr>), w2)
                else if takes_first um cm then (Inr (um, h'\<lparr>hs_source := Some Updated_Scan\<rparr>), w2)
                else (Inr (cm, h'\<lparr>hs_source := Some Created_Scan\<rparr>), w2))))"

text \<open>\<^verbatim>\<open>_HistoricalCursorStream.consume\<close>: a memory is waiting in the stream that was peeked at last, so
  the second peek of the code returns it without reading.\<close>

definition consume_historical :: "hist_stream \<Rightarrow> list_error + hist_stream" where
  "consume_historical h =
     (case hs_source h of
        None \<Rightarrow> Inl Uncaught
      | Some kind \<Rightarrow>
          (let s = (case kind of Updated_Scan \<Rightarrow> hs_updated h | Created_Scan \<Rightarrow> hs_created h) in
           case consume s of
             Inl e \<Rightarrow> Inl e
           | Inr s' \<Rightarrow>
               (let h' = h\<lparr>hs_consumed := map_option (memory_keyset \<circ> fst) (cs_peek s), hs_source := None\<rparr> in
                Inr (case kind of Updated_Scan \<Rightarrow> h'\<lparr>hs_updated := s'\<rparr> | Created_Scan \<Rightarrow> h'\<lparr>hs_created := s'\<rparr>))))"

section \<open>A page\<close>

text \<open>The merge of \<^verbatim>\<open>read_page\<close> for at most \<open>n\<close> more memories: what was appended, and the streams or
  the exception that ended it.\<close>

fun page_loop ::
  "backend \<Rightarrow> reader \<Rightarrow> nat \<Rightarrow> cursor_stream \<Rightarrow> hist_stream \<Rightarrow> walk \<Rightarrow>
   (memory list \<times> (list_error + cursor_stream \<times> hist_stream)) \<times> walk" where
  "page_loop be rd 0 c h w = (([], Inr (c, h)), w)"
| "page_loop be rd (Suc n) c h w =
     (case peek_canonical be (rd_canonical rd) c w of
        (Inl e, w1) \<Rightarrow> (([], Inl e), w1)
      | (Inr (cm, c1), w1) \<Rightarrow>
          (case peek_historical be rd h w1 of
             (Inl e, w2) \<Rightarrow> (([], Inl e), w2)
           | (Inr (hm, h1), w2) \<Rightarrow>
               if cm = None \<and> hm = None then (([], Inr (c1, h1)), w2)
               else if takes_first cm hm then
                 (case consume c1 of
                    Inl e \<Rightarrow> ((case cm of None \<Rightarrow> [] | Some m \<Rightarrow> [m], Inl e), w2)
                  | Inr c2 \<Rightarrow> apfst (apfst (append (case cm of None \<Rightarrow> [] | Some m \<Rightarrow> [m]))) (page_loop be rd n c2 h1 w2))
               else
                 (case consume_historical h1 of
                    Inl e \<Rightarrow> ((case hm of None \<Rightarrow> [] | Some m \<Rightarrow> [m], Inl e), w2)
                  | Inr h2 \<Rightarrow> apfst (apfst (append (case hm of None \<Rightarrow> [] | Some m \<Rightarrow> [m]))) (page_loop be rd n c1 h2 w2))))"

record list_page =
  pg_memories :: "memory list"
  pg_next_cursor :: "string option"
  pg_truncated :: bool

text \<open>\<^verbatim>\<open>updated_exhausted\<close> and its like: a stream counts as exhausted when nothing waits in it.\<close>

definition exhausted_now ::
  "(cursor_stream \<Rightarrow> walk \<Rightarrow> (list_error + memory option \<times> cursor_stream) \<times> walk) \<Rightarrow> cursor_stream \<Rightarrow> walk \<Rightarrow>
   (list_error + bool \<times> cursor_stream) \<times> walk" where
  "exhausted_now pk s w =
     (if \<not> cs_exhausted s then (Inr (False, s), w)
      else case pk s w of (Inl e, w1) \<Rightarrow> (Inl e, w1) | (Inr (m, s1), w1) \<Rightarrow> (Inr (m = None, s1), w1))"

definition has_more ::
  "backend \<Rightarrow> reader \<Rightarrow> cursor_stream \<Rightarrow> hist_stream \<Rightarrow> walk \<Rightarrow> (list_error + bool \<times> cursor_stream \<times> hist_stream) \<times> walk" where
  "has_more be rd c h w =
     (case peek_canonical be (rd_canonical rd) c w of
        (Inl e, w1) \<Rightarrow> (Inl e, w1)
      | (Inr (Some m, c1), w1) \<Rightarrow> (Inr (True, c1, h), w1)
      | (Inr (None, c1), w1) \<Rightarrow>
          (case peek_historical be rd h w1 of
             (Inl e, w2) \<Rightarrow> (Inl e, w2)
           | (Inr (hm, h1), w2) \<Rightarrow> (Inr (hm \<noteq> None, c1, h1), w2)))"

text \<open>The state the next cursor is issued for.\<close>

definition next_state ::
  "backend \<Rightarrow> reader \<Rightarrow> universal_list_cursor_state \<Rightarrow> cursor_stream \<Rightarrow> hist_stream \<Rightarrow> walk \<Rightarrow>
   (list_error + universal_list_cursor_state) \<times> walk" where
  "next_state be rd st c h w =
     (case exhausted_now (peek_canonical be (rd_canonical rd)) c w of
        (Inl e, w1) \<Rightarrow> (Inl e, w1)
      | (Inr (cx, c1), w1) \<Rightarrow>
          (case exhausted_now (peek_raw be (rd_updated rd)) (hs_updated h) w1 of
             (Inl e, w2) \<Rightarrow> (Inl e, w2)
           | (Inr (ux, u1), w2) \<Rightarrow>
               (case exhausted_now (peek_raw be (rd_created rd)) (hs_created h) w2 of
                  (Inl e, w3) \<Rightarrow> (Inl e, w3)
                | (Inr (rx, r1), w3) \<Rightarrow>
                    (Inr (st\<lparr>canonical := cs_emitted c, canonical_scan := cs_scan c, historical := hs_consumed h,
                             historical_updated_scan := cs_scan (hs_updated h), historical_created_scan := cs_scan (hs_created h),
                             canonical_exhausted := cx, historical_updated_exhausted := ux,
                             historical_created_exhausted := rx\<rparr>), w3))))"

text \<open>The streams \<^verbatim>\<open>read_page\<close> starts from a cursor state.\<close>

definition start_canonical :: "universal_list_cursor_state \<Rightarrow> cursor_stream" where
  "start_canonical st = new_stream (canonical st) (canonical_scan st) (canonical_exhausted st)"

definition start_historical :: "universal_list_cursor_state \<Rightarrow> hist_stream" where
  "start_historical st =
     \<lparr>hs_consumed = historical st,
      hs_updated = new_stream None (historical_updated_scan st) (historical_updated_exhausted st),
      hs_created = new_stream None (historical_created_scan st) (historical_created_exhausted st),
      hs_source = None\<rparr>"

text \<open>The part of \<^verbatim>\<open>read_page\<close> after the cursor was decoded: the page and the state to continue from.
  Only an exhausted request budget is caught, and only around the merge.\<close>

definition page_from ::
  "backend \<Rightarrow> reader \<Rightarrow> nat \<Rightarrow> universal_list_cursor_state \<Rightarrow> walk \<Rightarrow>
   (list_error + memory list \<times> universal_list_cursor_state option \<times> bool) \<times> walk" where
  "page_from be rd limit st w =
     (case page_loop be rd limit (start_canonical st) (start_historical st) w of
        ((page, Inl (Budget_Exhausted _)), w1) \<Rightarrow> (Inr (page, None, True), w1)
      | ((page, Inl e), w1) \<Rightarrow> (Inl e, w1)
      | ((page, Inr (c1, h1)), w1) \<Rightarrow>
          (case has_more be rd c1 h1 w1 of
             (Inl e, w2) \<Rightarrow> (Inl e, w2)
           | (Inr (False, _, _), w2) \<Rightarrow> (Inr (page, None, False), w2)
           | (Inr (True, c2, h2), w2) \<Rightarrow>
               (case next_state be rd st c2 h2 w2 of
                  (Inl e, w3) \<Rightarrow> (Inl e, w3)
                | (Inr st', w3) \<Rightarrow> (Inr (page, Some st', False), w3))))"

record page_request =
  pr_uid :: string
  pr_limit :: int
  pr_cursor :: "string option"
  pr_device :: "device_request option"
  pr_include_pending :: bool
  pr_include_archive :: bool

definition page_reader :: "backend \<Rightarrow> page_request \<Rightarrow> reader" where
  "page_reader be rq =
     \<lparr>rd_canonical = load_canonical be (pr_uid rq)
        \<lparr>sp_include_pending = pr_include_pending rq, sp_include_archive = pr_include_archive rq, sp_device = pr_device rq\<rparr>,
      rd_updated = load_historical be (pr_uid rq) (pr_device rq) Updated_Scan,
      rd_created = load_historical be (pr_uid rq) (pr_device rq) Created_Scan\<rparr>"

definition request_scope :: "page_request \<Rightarrow> string" where
  "request_scope rq = (case pr_device rq of None \<Rightarrow> ''all'' | Some r \<Rightarrow> ds_scope r)"

definition request_client :: "page_request \<Rightarrow> string option" where
  "request_client rq = (case pr_device rq of None \<Rightarrow> None | Some r \<Rightarrow> ds_client r)"

definition first_state :: "page_request \<Rightarrow> universal_list_cursor_state" where
  "first_state rq =
     \<lparr>uid_of = JStr (pr_uid rq), include_archive = pr_include_archive rq, include_pending_processing = pr_include_pending rq,
      device_scope = request_scope rq, client_device_id = (case request_client rq of None \<Rightarrow> JNull | Some d \<Rightarrow> JStr d),
      canonical = None, canonical_scan = None, historical = None, historical_updated_scan = None,
      historical_created_scan = None, canonical_exhausted = False, historical_updated_exhausted = False,
      historical_created_exhausted = False\<rparr>"

definition authority_of :: "page_request \<Rightarrow> cursor_request" where
  "authority_of rq =
     \<lparr>req_uid = pr_uid rq, req_include_archive = pr_include_archive rq,
      req_include_pending_processing = pr_include_pending rq, req_device_scope = request_scope rq,
      req_client_device_id = request_client rq\<rparr>"

definition cursor_failure :: "cursor_error \<Rightarrow> list_error" where
  "cursor_failure e =
     (case e of Cursor_Error reason \<Rightarrow> Http_Error 400 (''invalid_or_stale_cursor:'' @ reason) | _ \<Rightarrow> Uncaught)"

text \<open>\<open>repr\<close> is the text of a value that is not a scalar, as in \<open>decode_universal_list_cursor\<close>. The state of
  the next cursor carries the authority of the request.\<close>

definition read_page ::
  "(json \<Rightarrow> string) \<Rightarrow> backend \<Rightarrow> list_read_budget option \<Rightarrow> page_request \<Rightarrow> list_error + list_page" where
  "read_page repr be request_budget rq =
     (let bounded_limit = nat (max 1 (min (if pr_limit rq = 0 then 100 else pr_limit rq) 500));
          cursor = str_or (pr_cursor rq) '''';
          parts = split_on (CHR ''.'') cursor
      in if cursor \<noteq> '''' \<and> (length parts \<noteq> 3 \<or> hd parts \<noteq> ''uml'')
         then Inl (Http_Error 400 ''invalid_or_stale_cursor:malformed_cursor'')
         else case cursor_secret (be_env be) of
           Inl _ \<Rightarrow> Inl (Backing_Store_Unavailable ''Memory cursor unavailable'' ''cursor'')
         | Inr secret \<Rightarrow>
             (case (if cursor = '''' then Inr (first_state rq)
                    else case decode_universal_list_cursor repr (be_epoch be) cursor (authority_of rq) secret None of
                           Inl e \<Rightarrow> Inl (cursor_failure e)
                         | Inr claims \<Rightarrow> Inr (claims_state claims)) of
                Inl e \<Rightarrow> Inl e
              | Inr st \<Rightarrow>
                  (case fst (page_from be (page_reader be rq) bounded_limit st (new_walk be request_budget)) of
                     Inl e \<Rightarrow> Inl e
                   | Inr (page, next, truncated) \<Rightarrow>
                       Inr \<lparr>pg_memories = page,
                            pg_next_cursor = map_option (\<lambda>st'. encode_universal_list_cursor (be_env be) (be_epoch be)
                              (st'\<lparr>uid_of := uid_of (first_state rq), include_archive := pr_include_archive rq,
                                   include_pending_processing := pr_include_pending rq, device_scope := request_scope rq,
                                   client_device_id := client_device_id (first_state rq)\<rparr>) secret None None) next,
                            pg_truncated = truncated\<rparr>)))"

end
