(* ===== verification/Memory_Streams.thy ===== *)
theory Memory_Streams
  imports Memory_List
begin

text \<open>
  What the streams of the memory list promise to the page. The contract \<open>peekable\<close> says it: a stream
  shows the next visible memory, peeking again shows the same one, and consuming it moves on by
  exactly that one. The streams over a scan and the merged historical stream are interpretations of
  it, over a loader that serves a fixed list of rows in chunks.
\<close>

section \<open>The reference\<close>

fun merge_by :: "('a \<Rightarrow> 'k :: linorder) \<Rightarrow> 'a list \<Rightarrow> 'a list \<Rightarrow> 'a list" where
  "merge_by f (x # xs) (y # ys) = (if f x \<le> f y then x # merge_by f xs (y # ys) else y # merge_by f (x # xs) ys)"
| "merge_by f xs [] = xs"
| "merge_by f [] ys = ys"

abbreviation merge_memories :: "memory list \<Rightarrow> memory list \<Rightarrow> memory list" where
  "merge_memories \<equiv> merge_by memory_cursor_sort_key"

definition next_of :: "'a list \<Rightarrow> 'a option" where
  "next_of xs = (case xs of [] \<Rightarrow> None | x # _ \<Rightarrow> Some x)"

lemma next_of_simps [simp]: "next_of [] = None" "next_of (x # xs) = Some x" "next_of xs = None \<longleftrightarrow> xs = []"
  by (simp_all add: next_of_def split: list.splits)

lemma merge_by_Nil [simp]: "merge_by f [] ys = ys" "merge_by f xs [] = xs"
  by (cases ys; simp) (cases xs; simp)

lemma merge_by_eq_Nil [simp]: "merge_by f xs ys = [] \<longleftrightarrow> xs = [] \<and> ys = []"
  by (cases "(f, xs, ys)" rule: merge_by.cases) auto

lemma set_merge_by: "set (merge_by f xs ys) = set xs \<union> set ys"
  by (induction f xs ys rule: merge_by.induct) auto

lemma length_merge_by: "length (merge_by f xs ys) = length xs + length ys"
  by (induction f xs ys rule: merge_by.induct) auto

lemma sorted_merge_by: "sorted (map f xs) \<Longrightarrow> sorted (map f ys) \<Longrightarrow> sorted (map f (merge_by f xs ys))"
  by (induction f xs ys rule: merge_by.induct) (auto simp: set_merge_by)

text \<open>Taking the first of the two heads, the left one on a tie, takes the head of the merge.\<close>

lemma merge_takes_first:
  assumes "takes_first (next_of xs) (next_of ys)" "xs \<noteq> [] \<or> ys \<noteq> []"
  shows "\<exists>m ms. xs = m # ms \<and> merge_memories xs ys = m # merge_memories ms ys"
  using assms by (cases xs; cases ys) (auto simp: takes_first_def)

lemma merge_takes_second:
  assumes "\<not> takes_first (next_of xs) (next_of ys)"
  shows "\<exists>m ms. ys = m # ms \<and> merge_memories xs ys = m # merge_memories xs ms"
  using assms by (cases xs; cases ys) (auto simp: takes_first_def)

section \<open>The contract of a stream\<close>

text \<open>The walk can still pay for \<open>r\<close> skipped rows and \<open>d\<close> documents of the request's budget, and no
  reading of the clock reaches a deadline.\<close>

definition budget_has :: "backend \<Rightarrow> list_read_budget option \<Rightarrow> int \<Rightarrow> bool" where
  "budget_has be budget d \<longleftrightarrow>
     (case budget of
        None \<Rightarrow> True
      | Some b \<Rightarrow> lb_exhaustion b = None \<and> 0 \<le> lb_remaining b \<and> d \<le> lb_remaining b \<and>
                  (\<forall>call n. be_time be call n + LIST_READ_MIN_RPC_SECONDS < lb_deadline b))"

definition affords :: "backend \<Rightarrow> walk \<Rightarrow> int \<Rightarrow> int \<Rightarrow> bool" where
  "affords be w r d \<longleftrightarrow>
     0 \<le> wk_rows w \<and> r \<le> wk_rows w \<and> (\<forall>call n. be_time be call n < wk_deadline w) \<and> budget_has be (wk_parent w) d"

lemma budget_has_le: "budget_has be b d \<Longrightarrow> d' \<le> d \<Longrightarrow> budget_has be b d'"
  by (auto simp: budget_has_def split: option.splits)

lemma affords_le: "affords be w r d \<Longrightarrow> r' \<le> r \<Longrightarrow> d' \<le> d \<Longrightarrow> affords be w r' d'"
  by (auto simp: affords_def intro: budget_has_le)

text \<open>\<open>cost s n\<close> and \<open>price s n\<close> bound the rows to skip and the documents to read until the stream has shown
  its next \<open>n\<close> memories.\<close>

locale peekable =
  fixes be :: backend
    and pk :: "'s \<Rightarrow> walk \<Rightarrow> (list_error + memory option \<times> 's) \<times> walk"
    and eat :: "'s \<Rightarrow> list_error + 's"
    and ok :: "'s \<Rightarrow> bool"
    and seen :: "'s \<Rightarrow> bool"
    and rest :: "'s \<Rightarrow> memory list"
    and cost :: "'s \<Rightarrow> nat \<Rightarrow> int"
    and price :: "'s \<Rightarrow> nat \<Rightarrow> int"
  assumes peek_law: "ok s \<Longrightarrow> affords be w (cost s (Suc n) + r) (price s (Suc n) + d) \<Longrightarrow> 0 \<le> r \<Longrightarrow> 0 \<le> d \<Longrightarrow>
      \<exists>s' w'. pk s w = (Inr (next_of (rest s), s'), w') \<and> ok s' \<and> seen s' \<and> rest s' = rest s \<and>
        affords be w' (cost s' (Suc n) + r) (price s' (Suc n) + d)"
    and eat_law: "ok s \<Longrightarrow> seen s \<Longrightarrow> rest s = m # ms \<Longrightarrow>
      \<exists>s'. eat s = Inr s' \<and> ok s' \<and> rest s' = ms \<and> (\<forall>n. cost s' n \<le> cost s (Suc n) \<and> price s' n \<le> price s (Suc n))"
    and cost_nonneg: "0 \<le> cost s n" and price_nonneg: "0 \<le> price s n"
    and cost_Suc: "cost s n \<le> cost s (Suc n)" and price_Suc: "price s n \<le> price s (Suc n)"
begin

lemma cost_mono: "k \<le> n \<Longrightarrow> cost s k \<le> cost s n"
  by (rule lift_Suc_mono_le [of "cost s", OF cost_Suc])

lemma price_mono: "k \<le> n \<Longrightarrow> price s k \<le> price s n"
  by (rule lift_Suc_mono_le [of "price s", OF price_Suc])

text \<open>Peeking twice shows the same memory.\<close>

lemma peek_stable:
  assumes "ok s" "affords be w (cost s (Suc n)) (price s (Suc n))" "pk s w = (r, w1)"
  shows "\<exists>m s'. r = Inr (m, s') \<and> (\<exists>s'' w''. pk s' w1 = (Inr (m, s''), w''))"
proof -
  obtain s' where s': "r = Inr (next_of (rest s), s')" "ok s'" "rest s' = rest s"
    "affords be w1 (cost s' (Suc n) + 0) (price s' (Suc n) + 0)"
    using peek_law [OF assms(1), of w n 0 0] assms(2,3) by auto
  then show ?thesis
    using peek_law [OF s'(2,4)] by fastforce
qed

end

section \<open>A stream over a scan\<close>

type_synonym scan_row = "memory option \<times> stream_keyset"

abbreviation row_key :: "scan_row \<Rightarrow> int \<times> string" where
  "row_key r \<equiv> keyset_sort_key (snd r)"

definition rows_after :: "stream_keyset option \<Rightarrow> scan_row list \<Rightarrow> scan_row list" where
  "rows_after scan rows = (case scan of None \<Rightarrow> rows | Some ks \<Rightarrow> filter (\<lambda>r. keyset_sort_key ks < row_key r) rows)"

definition row_visible :: "(memory \<Rightarrow> bool) \<Rightarrow> scan_row \<Rightarrow> bool" where
  "row_visible hid r = (case fst r of None \<Rightarrow> False | Some m \<Rightarrow> \<not> hid m)"

definition visible :: "(memory \<Rightarrow> bool) \<Rightarrow> scan_row list \<Rightarrow> memory list" where
  "visible hid rows = map (the \<circ> fst) (filter (row_visible hid) rows)"

text \<open>The hidden rows before the \<open>n\<close>-th visible one, and its position; the end of the scan counts as one more
  position.\<close>

fun hidden_until :: "(memory \<Rightarrow> bool) \<Rightarrow> nat \<Rightarrow> scan_row list \<Rightarrow> int" where
  "hidden_until hid 0 rows = 0"
| "hidden_until hid (Suc n) [] = 0"
| "hidden_until hid (Suc n) (r # rows) =
     (if row_visible hid r then hidden_until hid n rows else 1 + hidden_until hid (Suc n) rows)"

fun reach :: "(memory \<Rightarrow> bool) \<Rightarrow> nat \<Rightarrow> scan_row list \<Rightarrow> nat" where
  "reach hid 0 rows = 0"
| "reach hid (Suc n) [] = 1"
| "reach hid (Suc n) (r # rows) = Suc (if row_visible hid r then reach hid n rows else reach hid (Suc n) rows)"

lemma hidden_until_nonneg: "0 \<le> hidden_until hid n rows"
  by (induction hid n rows rule: hidden_until.induct) auto

lemma hidden_until_Suc: "hidden_until hid n rows \<le> hidden_until hid (Suc n) rows"
  by (induction hid n rows rule: hidden_until.induct) (auto simp: hidden_until_nonneg)

lemma reach_Suc: "reach hid n rows \<le> reach hid (Suc n) rows"
  by (induction hid n rows rule: reach.induct) auto

lemma reach_le: "reach hid n rows \<le> Suc (length rows)"
  by (induction hid n rows rule: reach.induct) auto

lemma visible_simps [simp]:
  "visible hid [] = []"
  "visible hid ((Some m, ks) # rows) = (if hid m then visible hid rows else m # visible hid rows)"
  "visible hid ((None, ks) # rows) = visible hid rows"
  by (simp_all add: visible_def row_visible_def)

text \<open>The loader answers a scan of the fixed rows, in the order of their keys, for at most \<open>K\<close> documents a
  chunk, and the statuses it loads with a chunk are those of its ids. Whether a row is hidden
  depends on the last emitted key and on the status of its id only.\<close>

definition scan_served :: "backend \<Rightarrow> int \<Rightarrow> loader \<Rightarrow> scan_row list \<Rightarrow> (string \<rightharpoonup> item_status) \<Rightarrow> bool" where
  "scan_served be K load rows auth \<longleftrightarrow>
     0 \<le> K \<and> sorted_wrt (\<lambda>r r'. row_key r < row_key r') rows \<and>
     (\<forall>call scan budget. scan \<in> insert None (Some ` snd ` set rows) \<and> budget_has be budget K \<longrightarrow>
        (\<exists>sts budget'. load call (map_option stream_keyset_to_scan_cursor scan) budget =
             (Inr (take MEMORY_LIST_SCAN_CHUNK_SIZE (rows_after scan rows),
                   length (rows_after scan rows) < MEMORY_LIST_SCAN_CHUNK_SIZE, sts), budget') \<and>
           (\<forall>d. budget_has be budget (K + d) \<longrightarrow> budget_has be budget' d) \<and>
           (\<forall>m ks. (Some m, ks) \<in> set (take MEMORY_LIST_SCAN_CHUNK_SIZE (rows_after scan rows)) \<longrightarrow> sts (m_id m) = auth (m_id m))))"

lemma scan_servedD:
  assumes "scan_served be K load rows auth" "budget_has be budget K" "scan \<in> insert None (Some ` snd ` set rows)"
  shows "\<exists>sts budget'. load call (map_option stream_keyset_to_scan_cursor scan) budget =
       (Inr (take MEMORY_LIST_SCAN_CHUNK_SIZE (rows_after scan rows), length (rows_after scan rows) < MEMORY_LIST_SCAN_CHUNK_SIZE, sts), budget') \<and>
     (\<forall>d. budget_has be budget (K + d) \<longrightarrow> budget_has be budget' d) \<and>
     (\<forall>m ks. (Some m, ks) \<in> set (take MEMORY_LIST_SCAN_CHUNK_SIZE (rows_after scan rows)) \<longrightarrow> sts (m_id m) = auth (m_id m))"
  using assms unfolding scan_served_def by (elim conjE allE [of _ call]) simp

definition hide_local :: "(cursor_stream \<Rightarrow> memory \<Rightarrow> bool) \<Rightarrow> bool" where
  "hide_local hide \<longleftrightarrow>
     (\<forall>s t m. cs_emitted s = cs_emitted t \<and> cs_statuses s (m_id m) = cs_statuses t (m_id m) \<longrightarrow> hide s m = hide t m)"

definition key_of_row :: "scan_row list \<Rightarrow> stream_keyset option \<Rightarrow> bool" where
  "key_of_row rows k \<longleftrightarrow> (\<forall>ks. k = Some ks \<longrightarrow> (\<exists>m c. (Some m, c) \<in> set rows \<and> ks = memory_keyset m))"

definition stream_inv ::
  "(cursor_stream \<Rightarrow> memory \<Rightarrow> bool) \<Rightarrow> (memory \<Rightarrow> bool) \<Rightarrow> scan_row list \<Rightarrow> (string \<rightharpoonup> item_status) \<Rightarrow> cursor_stream \<Rightarrow> bool" where
  "stream_inv hide hid rows auth s \<longleftrightarrow>
     cs_scan s \<in> insert None (Some ` snd ` set rows) \<and> key_of_row rows (cs_emitted s) \<and>
     (\<exists>more. rows_after (cs_scan s) rows = cs_slots s @ more \<and> (cs_slots s \<noteq> [] \<and> cs_slots_exhausted s \<longrightarrow> more = [])) \<and>
     (cs_exhausted s \<longrightarrow> rows_after (cs_scan s) rows = []) \<and>
     (\<forall>m ks. cs_peek s = Some (m, ks) \<longrightarrow> (\<exists>t. cs_slots s = (Some m, ks) # t) \<and> \<not> hid m) \<and>
     (\<forall>m ks. (Some m, ks) \<in> set (rows_after (cs_scan s) rows) \<longrightarrow> hide (s\<lparr>cs_statuses := auth\<rparr>) m = hid m) \<and>
     (\<forall>m ks. (Some m, ks) \<in> set (cs_slots s) \<longrightarrow> cs_statuses s (m_id m) = auth (m_id m))"

lemma rows_after_next:
  assumes sorted: "sorted_wrt (\<lambda>r r'. row_key r < row_key r') rows" and "rows_after scan rows = (rec, ks) # t"
  shows "rows_after (Some ks) rows = t"
proof -
  have "sorted_wrt (\<lambda>r r'. row_key r < row_key r') (rows_after scan rows)"
    using sorted by (auto simp: rows_after_def sorted_wrt_filter split: option.splits)
  then have above: "row_key (rec, ks) < row_key r" if "r \<in> set t" for r
    using assms(2) that by simp
  have scan: "case scan of None \<Rightarrow> True | Some k \<Rightarrow> keyset_sort_key k < keyset_sort_key ks"
    using assms(2) by (auto simp: rows_after_def filter_eq_Cons_iff split: option.splits)
  have "filter (\<lambda>r. keyset_sort_key ks < row_key r) rows =
      filter (\<lambda>r. keyset_sort_key ks < row_key r) (rows_after scan rows)"
    using scan by (auto simp: rows_after_def split: option.splits intro!: filter_cong)
  also have "\<dots> = t"
    using above assms(2) by (simp add: filter_id_conv)
  finally show ?thesis by (simp add: rows_after_def)
qed

lemma rows_after_subset: "set (rows_after scan rows) \<subseteq> set rows"
  by (auto simp: rows_after_def split: option.splits)

lemma advance_simps [simp]:
  "cs_scan (advance_raw_slot s) = cs_scan s" "cs_peek (advance_raw_slot s) = cs_peek s"
  "cs_emitted (advance_raw_slot s) = cs_emitted s" "cs_slots (advance_raw_slot s) = tl (cs_slots s)"
  by (simp_all add: advance_raw_slot_def Let_def)

text \<open>Moving past the first slot keeps the invariant.\<close>

lemma advance_inv:
  assumes inv: "stream_inv hide hid rows auth s" and loc: "hide_local hide"
    and sorted: "sorted_wrt (\<lambda>r r'. row_key r < row_key r') rows"
    and slots: "cs_slots s = (rec, ks) # t"
    and s': "s' = advance_raw_slot (s\<lparr>cs_emitted := e, cs_scan := Some ks, cs_peek := None\<rparr>)"
    and e: "key_of_row rows e"
    and hide: "\<And>m k. (Some m, k) \<in> set (rows_after (Some ks) rows) \<Longrightarrow> hide (s\<lparr>cs_emitted := e, cs_statuses := auth\<rparr>) m = hid m"
  shows "stream_inv hide hid rows auth s' \<and> rows_after (cs_scan s) rows = (rec, ks) # rows_after (cs_scan s') rows"
proof -
  obtain more where more: "rows_after (cs_scan s) rows = (rec, ks) # t @ more" "cs_slots_exhausted s \<longrightarrow> more = []"
    using inv slots by (auto simp: stream_inv_def)
  then have after: "rows_after (Some ks) rows = t @ more"
    using rows_after_next [OF sorted] by blast
  have ks: "Some ks \<in> insert None (Some ` snd ` set rows)"
    using more(1) rows_after_subset [of "cs_scan s" rows] by (force simp: image_iff)
  have exh: "cs_exhausted s' \<longrightarrow> t @ more = []"
    using s' slots more(2) inv more(1) by (auto simp: advance_raw_slot_def Let_def stream_inv_def split: if_splits)
  have statuses: "cs_statuses s' (m_id m) = auth (m_id m)" if "(Some m, k) \<in> set t" for m k
    using that s' slots inv by (auto simp: advance_raw_slot_def Let_def stream_inv_def)
  have "hide (s'\<lparr>cs_statuses := auth\<rparr>) m = hid m" if "(Some m, k) \<in> set (t @ more)" for m k
  proof -
    have "hide (s'\<lparr>cs_statuses := auth\<rparr>) m = hide (s\<lparr>cs_emitted := e, cs_statuses := auth\<rparr>) m"
      using loc s' unfolding hide_local_def by (auto simp: advance_raw_slot_def Let_def)
    then show ?thesis using hide that by (simp add: after)
  qed
  moreover have "cs_slots_exhausted s' = cs_slots_exhausted s"
    using s' by (simp add: advance_raw_slot_def Let_def)
  ultimately show ?thesis
    using s' slots more after ks exh statuses e by (auto simp: stream_inv_def)
qed

lemma scan_check_affords:
  assumes "affords be w r d"
  obtains w' where "scan_check be stream w = (Inr (), w')" "wk_rows w' = wk_rows w" "\<And>r d. affords be w r d \<Longrightarrow> affords be w' r d"
proof -
  have time: "be_time be call n < wk_deadline w" for call n
    using assms by (simp add: affords_def)
  have "on_parent be (budget_check (be_time be (wk_call w) 0)) (w\<lparr>wk_call := Suc (wk_call w)\<rparr>) = (Inr (), w\<lparr>wk_call := Suc (wk_call w)\<rparr>)"
  proof (cases "wk_parent w")
    case (Some b)
    then have "lb_exhaustion b = None" "0 \<le> lb_remaining b" "be_time be (wk_call w) 0 + LIST_READ_MIN_RPC_SECONDS < lb_deadline b"
      using assms by (auto simp: affords_def budget_has_def)
    then have "budget_check (be_time be (wk_call w) 0) b = (Inr (), b)"
      by (simp add: budget_check_def LIST_READ_MIN_RPC_SECONDS_def)
    then show ?thesis using Some by (simp add: on_parent_def)
  qed (simp add: on_parent_def)
  then have "scan_check be stream w = (Inr (), w\<lparr>wk_call := Suc (wk_call w)\<rparr>)"
    using assms time by (simp add: scan_check_def Let_def affords_def not_le)
  then show ?thesis using that by (simp add: affords_def)
qed

lemma scan_charge_affords:
  assumes "affords be w (1 + r) (1 + d)" "0 \<le> r" "0 \<le> d"
  obtains w' where "scan_charge be stream w = (Inr (), w')" "affords be w' r d"
proof -
  let ?w = "w\<lparr>wk_call := Suc (wk_call w), wk_rows := wk_rows w - 1\<rparr>"
  have "\<exists>w1. on_parent be (budget_charge (be_time be (wk_call w) 0) 1) ?w = (Inr (), w1) \<and> affords be w1 r d"
  proof (cases "wk_parent w")
    case None
    then show ?thesis using assms by (simp add: on_parent_def affords_def budget_has_def)
  next
    case (Some b)
    let ?b = "b\<lparr>lb_scanned := lb_scanned b + 1, lb_remaining := lb_remaining b - 1\<rparr>"
    have b: "lb_exhaustion b = None" "1 + d \<le> lb_remaining b" "be_time be (wk_call w) 0 + LIST_READ_MIN_RPC_SECONDS < lb_deadline b"
      using assms(1) Some by (auto simp: affords_def budget_has_def)
    then have "budget_charge (be_time be (wk_call w) 0) 1 b = (Inr (), ?b)"
      using assms(3) by (simp add: budget_charge_def budget_check_def LIST_READ_MIN_RPC_SECONDS_def)
    then have "on_parent be (budget_charge (be_time be (wk_call w) 0) 1) ?w = (Inr (), ?w\<lparr>wk_parent := Some ?b\<rparr>)"
      using Some by (simp add: on_parent_def)
    moreover have "affords be (?w\<lparr>wk_parent := Some ?b\<rparr>) r d"
      using assms b Some by (simp add: affords_def budget_has_def)
    ultimately show ?thesis by blast
  qed
  then obtain w1 where w1: "on_parent be (budget_charge (be_time be (wk_call w) 0) 1) ?w = (Inr (), w1)" "affords be w1 r d"
    by blast
  obtain w2 where "scan_check be stream w1 = (Inr (), w2)" "affords be w2 r d"
    using scan_check_affords [OF w1(2)] w1(2) by metis
  then show ?thesis
    using that w1(1) by (simp add: scan_charge_def Let_def)
qed

lemma hide_localD:
  "hide_local hide \<Longrightarrow> cs_emitted s = cs_emitted t \<Longrightarrow> cs_statuses s (m_id m) = cs_statuses t (m_id m) \<Longrightarrow> hide s m = hide t m"
  unfolding hide_local_def by blast

section \<open>What a stream costs\<close>

definition loads :: "(memory \<Rightarrow> bool) \<Rightarrow> scan_row list \<Rightarrow> cursor_stream \<Rightarrow> nat \<Rightarrow> nat" where
  "loads hid rows s n =
     (if cs_exhausted s \<or> cs_slots s \<noteq> [] \<and> cs_slots_exhausted s then 0
      else (reach hid n (rows_after (cs_scan s) rows) - length (cs_slots s) + (MEMORY_LIST_SCAN_CHUNK_SIZE - 1)) div MEMORY_LIST_SCAN_CHUNK_SIZE)"

definition stream_rest :: "(memory \<Rightarrow> bool) \<Rightarrow> scan_row list \<Rightarrow> cursor_stream \<Rightarrow> memory list" where
  "stream_rest hid rows s = visible hid (rows_after (cs_scan s) rows)"

definition stream_cost :: "(memory \<Rightarrow> bool) \<Rightarrow> scan_row list \<Rightarrow> cursor_stream \<Rightarrow> nat \<Rightarrow> int" where
  "stream_cost hid rows s n = hidden_until hid n (rows_after (cs_scan s) rows)"

definition stream_price :: "int \<Rightarrow> (memory \<Rightarrow> bool) \<Rightarrow> scan_row list \<Rightarrow> cursor_stream \<Rightarrow> nat \<Rightarrow> int" where
  "stream_price K hid rows s n = stream_cost hid rows s n + K * int (loads hid rows s n)"

definition stream_seen :: "(memory \<Rightarrow> bool) \<Rightarrow> scan_row list \<Rightarrow> cursor_stream \<Rightarrow> bool" where
  "stream_seen hid rows s \<longleftrightarrow> (cs_peek s = None \<longrightarrow> stream_rest hid rows s = [])"

lemma loads_Suc: "loads hid rows s n \<le> loads hid rows s (Suc n)"
  unfolding loads_def using reach_Suc [of hid n "rows_after (cs_scan s) rows"]
  by (simp add: diff_le_mono div_le_mono)

lemma loads_cong:
  "cs_exhausted s = cs_exhausted t \<Longrightarrow> cs_slots s = cs_slots t \<Longrightarrow> cs_slots_exhausted s = cs_slots_exhausted t \<Longrightarrow>
   cs_scan s = cs_scan t \<Longrightarrow> loads hid rows s n = loads hid rows t n"
  by (simp add: loads_def)

text \<open>Loading a chunk leaves one load less; passing a row leaves no more.\<close>

lemma loads_after_load:
  assumes "cs_slots s = []" "\<not> cs_exhausted s" and after: "after = rows_after (cs_scan s) rows"
    and "cs_scan s1 = cs_scan s" "cs_slots s1 = take MEMORY_LIST_SCAN_CHUNK_SIZE after"
    "cs_slots_exhausted s1 = (length after < MEMORY_LIST_SCAN_CHUNK_SIZE)" "cs_exhausted s1 = (after = [])"
  shows "Suc (loads hid rows s1 (Suc n)) \<le> loads hid rows s (Suc n)"
proof -
  let ?r = "reach hid (Suc n) after"
  have pos: "1 \<le> ?r" by (cases after) simp_all
  have s: "loads hid rows s (Suc n) = (?r + 49) div 50"
    using assms(1-3) by (simp add: loads_def MEMORY_LIST_SCAN_CHUNK_SIZE_def)
  have "1 \<le> (?r + 49) div 50" using pos by linarith
  moreover have "(?r - 50 + 49) div 50 + 1 \<le> (?r + 49) div 50"
  proof (cases "?r \<le> 50")
    case True
    then show ?thesis using pos by simp
  next
    case False
    then have "?r + 49 = (?r - 50 + 49) + 50" by linarith
    then show ?thesis by (metis div_add_self2 order_refl zero_neq_numeral)
  qed
  moreover have "loads hid rows s1 (Suc n) = (if length after < 50 then 0 else (?r - 50 + 49) div 50)"
    using assms(3-7) by (auto simp: loads_def MEMORY_LIST_SCAN_CHUNK_SIZE_def)
  ultimately show ?thesis unfolding s by simp
qed

lemma loads_after_advance:
  assumes "s' = advance_raw_slot (s\<lparr>cs_emitted := e, cs_scan := Some ks, cs_peek := None\<rparr>)" "cs_slots s = (rec, ks) # t"
    and "rows_after (cs_scan s) rows = (rec, ks) # rows_after (Some ks) rows" "\<not> cs_exhausted s"
    and "reach hid n ((rec, ks) # rows_after (Some ks) rows) = Suc (reach hid n' (rows_after (Some ks) rows))"
  shows "loads hid rows s' n' \<le> loads hid rows s n"
  using assms by (cases t) (auto simp: loads_def advance_raw_slot_def Let_def)

lemma ensure_slots_law:
  assumes served: "scan_served be K load rows auth" and inv: "stream_inv hide hid rows auth s" and loc: "hide_local hide"
    and "cs_peek s = None" and aff: "affords be w r (K * int (loads hid rows s (Suc n)) + d)" and "0 \<le> d"
  obtains s1 w1 where "ensure_slots be load stream s w = (Inr s1, w1)" "stream_inv hide hid rows auth s1"
    "cs_scan s1 = cs_scan s" "cs_peek s1 = None" "cs_emitted s1 = cs_emitted s"
    "affords be w1 r (K * int (loads hid rows s1 (Suc n)) + d)"
    "cs_slots s1 = [] \<longrightarrow> rows_after (cs_scan s) rows = []"
proof (cases "cs_slots s \<noteq> [] \<or> cs_exhausted s")
  case True
  then have "ensure_slots be load stream s w = (Inr s, w)" by (simp add: ensure_slots_def)
  moreover have "cs_slots s = [] \<longrightarrow> rows_after (cs_scan s) rows = []"
    using True inv by (auto simp: stream_inv_def)
  ultimately show ?thesis using that inv assms(4) aff by blast
next
  case False
  let ?after = "rows_after (cs_scan s) rows"
  obtain w1 where w1: "scan_check be stream w = (Inr (), w1)" "affords be w1 r (K * int (loads hid rows s (Suc n)) + d)"
    using scan_check_affords [OF aff] aff by metis
  let ?slots = "take MEMORY_LIST_SCAN_CHUNK_SIZE ?after"
  have empty: "?slots = [] \<longleftrightarrow> ?after = []"
    by (simp add: MEMORY_LIST_SCAN_CHUNK_SIZE_def)
  let ?t = "s\<lparr>cs_slots := ?slots, cs_slots_exhausted := length ?after < MEMORY_LIST_SCAN_CHUNK_SIZE, cs_exhausted := (?after = [])\<rparr>"
  have less: "Suc (loads hid rows ?t (Suc n)) \<le> loads hid rows s (Suc n)"
    using False by (intro loads_after_load) simp_all
  have K: "0 \<le> K" using served by (simp add: scan_served_def)
  have pay: "K + (K * int (loads hid rows ?t (Suc n)) + d) \<le> K * int (loads hid rows s (Suc n)) + d"
    using mult_left_mono [OF _ K, of "int (Suc (loads hid rows ?t (Suc n)))" "int (loads hid rows s (Suc n))"] less
    by (simp add: algebra_simps)
  have has: "budget_has be (wk_parent w1) (K + (K * int (loads hid rows ?t (Suc n)) + d))"
    using w1(2) pay by (auto simp: affords_def intro: budget_has_le)
  moreover have "K \<le> K + (K * int (loads hid rows ?t (Suc n)) + d)"
    using K assms(6) by simp
  ultimately have "budget_has be (wk_parent w1) K" by (rule budget_has_le)
  moreover have "cs_scan s \<in> insert None (Some ` snd ` set rows)"
    using inv unfolding stream_inv_def by blast
  ultimately obtain sts budget' where sts: "load (wk_call w1) (map_option stream_keyset_to_scan_cursor (cs_scan s)) (wk_parent w1) =
      (Inr (?slots, length ?after < MEMORY_LIST_SCAN_CHUNK_SIZE, sts), budget')"
    "\<forall>d. budget_has be (wk_parent w1) (K + d) \<longrightarrow> budget_has be budget' d"
    "\<forall>m ks. (Some m, ks) \<in> set ?slots \<longrightarrow> sts (m_id m) = auth (m_id m)"
    using scan_servedD [OF served] by metis
  let ?s1 = "?t\<lparr>cs_statuses := sts\<rparr>"
  let ?w2 = "w1\<lparr>wk_call := Suc (wk_call w1), wk_parent := budget'\<rparr>"
  have ens: "ensure_slots be load stream s w = (Inr ?s1, ?w2)"
    using False w1(1) sts(1) empty by (simp add: ensure_slots_def priced_call_def)
  have "loads hid rows ?s1 (Suc n) = loads hid rows ?t (Suc n)"
    by (rule loads_cong) simp_all
  moreover have "budget_has be budget' (K * int (loads hid rows ?t (Suc n)) + d)"
    using sts(2) has by blast
  ultimately have affords: "affords be ?w2 r (K * int (loads hid rows ?s1 (Suc n)) + d)"
    using w1(2) by (simp add: affords_def)
  have same: "hide (?s1\<lparr>cs_statuses := auth\<rparr>) m = hide (s\<lparr>cs_statuses := auth\<rparr>) m" for m
    by (rule hide_localD [OF loc]) simp_all
  have "stream_inv hide hid rows auth ?s1"
    unfolding stream_inv_def
  proof (intro conjI)
    show "cs_scan ?s1 \<in> insert None (Some ` snd ` set rows)"
      using inv by (simp add: stream_inv_def)
    show "key_of_row rows (cs_emitted ?s1)"
      using inv by (simp add: stream_inv_def)
    show "\<exists>more. rows_after (cs_scan ?s1) rows = cs_slots ?s1 @ more \<and> (cs_slots ?s1 \<noteq> [] \<and> cs_slots_exhausted ?s1 \<longrightarrow> more = [])"
      by (rule exI [of _ "drop MEMORY_LIST_SCAN_CHUNK_SIZE ?after"]) simp
    show "cs_exhausted ?s1 \<longrightarrow> rows_after (cs_scan ?s1) rows = []"
      by simp
    show "\<forall>m ks. cs_peek ?s1 = Some (m, ks) \<longrightarrow> (\<exists>t. cs_slots ?s1 = (Some m, ks) # t) \<and> \<not> hid m"
      using assms(4) by simp
    show "\<forall>m ks. (Some m, ks) \<in> set (rows_after (cs_scan ?s1) rows) \<longrightarrow> hide (?s1\<lparr>cs_statuses := auth\<rparr>) m = hid m"
      unfolding same using inv by (simp add: stream_inv_def)
    show "\<forall>m ks. (Some m, ks) \<in> set (cs_slots ?s1) \<longrightarrow> cs_statuses ?s1 (m_id m) = auth (m_id m)"
      using sts(3) by simp
  qed
  with ens show ?thesis
  proof (rule that)
    show "affords be ?w2 r (K * int (loads hid rows ?s1 (Suc n)) + d)" by (rule affords)
    show "cs_slots ?s1 = [] \<longrightarrow> ?after = []" using empty by simp
  qed (simp_all add: assms(4))
qed

lemma stream_inv_peeked:
  assumes "stream_inv hide hid rows auth s" "hide_local hide" "cs_slots s = (Some m, ks) # t" "\<not> hid m"
  shows "stream_inv hide hid rows auth (s\<lparr>cs_peek := Some (m, ks)\<rparr>)"
proof -
  have "hide (s\<lparr>cs_peek := Some (m, ks), cs_statuses := auth\<rparr>) m' = hide (s\<lparr>cs_statuses := auth\<rparr>) m'" for m'
    by (rule hide_localD [OF assms(2)]) simp_all
  then show ?thesis using assms(1,3,4) by (auto simp: stream_inv_def)
qed

lemma stream_inv_exhausted:
  assumes "stream_inv hide hid rows auth s" "hide_local hide" "rows_after (cs_scan s) rows = []"
  shows "stream_inv hide hid rows auth (s\<lparr>cs_exhausted := True\<rparr>)"
  using assms by (auto simp: stream_inv_def)

text \<open>What the first slot of a chunk shows.\<close>

lemma slot_hidden:
  assumes inv: "stream_inv hide hid rows auth s" and loc: "hide_local hide" and slots: "cs_slots s = (rec, ks) # t"
  obtains more where "rows_after (cs_scan s) rows = (rec, ks) # t @ more"
    "\<And>m. rec = Some m \<Longrightarrow> hide s m = hid m"
proof -
  obtain more where after: "rows_after (cs_scan s) rows = (rec, ks) # t @ more"
    using inv slots by (auto simp: stream_inv_def)
  have "hide s m = hid m" if "rec = Some m" for m
  proof -
    have "cs_statuses s (m_id m) = auth (m_id m)" "hide (s\<lparr>cs_statuses := auth\<rparr>) m = hid m"
      using inv slots that after unfolding stream_inv_def by auto
    then show ?thesis
      using hide_localD [OF loc, of s "s\<lparr>cs_statuses := auth\<rparr>" m] by simp
  qed
  with after that show ?thesis by blast
qed

text \<open>Passing a hidden row.\<close>

lemma pass_hidden:
  assumes served: "scan_served be K load rows auth" and loc: "hide_local hide" and inv: "stream_inv hide hid rows auth s"
    and slots: "cs_slots s = (rec, ks) # t" and hidden: "\<not> row_visible hid (rec, ks)" and "cs_peek s = None"
    and s': "s' = advance_raw_slot (s\<lparr>cs_scan := Some ks\<rparr>)"
  shows "stream_inv hide hid rows auth s'" "rows_after (cs_scan s) rows = (rec, ks) # rows_after (cs_scan s') rows"
    "loads hid rows s' (Suc n) \<le> loads hid rows s (Suc n)"
proof -
  have sorted: "sorted_wrt (\<lambda>r r'. row_key r < row_key r') rows"
    using served by (simp add: scan_served_def)
  obtain more where after: "rows_after (cs_scan s) rows = (rec, ks) # t @ more"
    using slot_hidden [OF inv loc slots] by metis
  have s'2: "s' = advance_raw_slot (s\<lparr>cs_emitted := cs_emitted s, cs_scan := Some ks, cs_peek := None\<rparr>)"
    using assms(6) s' by (cases s) simp
  have "stream_inv hide hid rows auth s' \<and> rows_after (cs_scan s) rows = (rec, ks) # rows_after (cs_scan s') rows"
  proof (rule advance_inv [OF inv loc sorted slots s'2])
    show "key_of_row rows (cs_emitted s)" using inv by (simp add: stream_inv_def)
    fix m k
    assume "(Some m, k) \<in> set (rows_after (Some ks) rows)"
    then have "(Some m, k) \<in> set (rows_after (cs_scan s) rows)"
      using rows_after_next [OF sorted after] after by auto
    then show "hide (s\<lparr>cs_emitted := cs_emitted s, cs_statuses := auth\<rparr>) m = hid m"
      using inv by (auto simp: stream_inv_def)
  qed
  then show inv': "stream_inv hide hid rows auth s'" and eq: "rows_after (cs_scan s) rows = (rec, ks) # rows_after (cs_scan s') rows"
    by simp_all
  have "\<not> cs_exhausted s" using inv after by (auto simp: stream_inv_def)
  then show "loads hid rows s' (Suc n) \<le> loads hid rows s (Suc n)"
    using eq hidden s' by (intro loads_after_advance [OF s'2 slots]) simp_all
qed

lemma peek_loop_law:
  assumes served: "scan_served be K load rows auth" and loc: "hide_local hide" and "0 \<le> r" "0 \<le> d"
    and "stream_inv hide hid rows auth s" "cs_peek s = None"
    "affords be w (stream_cost hid rows s (Suc n) + r) (stream_price K hid rows s (Suc n) + d)"
  shows "\<exists>s' w'. peek_loop be load hide stream s w = (Inr (next_of (stream_rest hid rows s), s'), w') \<and>
    stream_inv hide hid rows auth s' \<and> stream_seen hid rows s' \<and> stream_rest hid rows s' = stream_rest hid rows s \<and>
    affords be w' (stream_cost hid rows s' (Suc n) + r) (stream_price K hid rows s' (Suc n) + d)"
  using assms(5-)
proof (induction "length (rows_after (cs_scan s) rows)" arbitrary: s w rule: less_induct)
  case less
  have nonneg: "0 \<le> stream_cost hid rows s (Suc n) + d"
    using assms(4) by (simp add: stream_cost_def hidden_until_nonneg)
  have "affords be w (stream_cost hid rows s (Suc n) + r) (K * int (loads hid rows s (Suc n)) + (stream_cost hid rows s (Suc n) + d))"
    using less.prems(3) by (simp add: stream_price_def algebra_simps)
  then obtain s1 w1 where e: "ensure_slots be load stream s w = (Inr s1, w1)" "stream_inv hide hid rows auth s1"
    "cs_scan s1 = cs_scan s" "cs_peek s1 = None" "cs_slots s1 = [] \<longrightarrow> rows_after (cs_scan s) rows = []"
    and "affords be w1 (stream_cost hid rows s (Suc n) + r) (K * int (loads hid rows s1 (Suc n)) + (stream_cost hid rows s (Suc n) + d))"
    using ensure_slots_law [OF served less.prems(1) loc less.prems(2) _ nonneg] by metis
  then have aff: "affords be w1 (stream_cost hid rows s1 (Suc n) + r) (stream_price K hid rows s1 (Suc n) + d)"
    by (simp add: stream_price_def stream_cost_def algebra_simps)
  have rest: "stream_rest hid rows s1 = stream_rest hid rows s"
    using e(3) by (simp add: stream_rest_def)
  show ?case
  proof (cases "cs_slots s1")
    case Nil
    let ?s2 = "s1\<lparr>cs_exhausted := True\<rparr>"
    have none: "rows_after (cs_scan s1) rows = []" using Nil e(3,5) by simp
    then have "stream_inv hide hid rows auth ?s2" "stream_rest hid rows ?s2 = []"
      using stream_inv_exhausted [OF e(2) loc] by (simp_all add: stream_rest_def)
    moreover have "affords be w1 (stream_cost hid rows ?s2 (Suc n) + r) (stream_price K hid rows ?s2 (Suc n) + d)"
      using aff by (rule affords_le) (use none served in \<open>simp_all add: stream_cost_def stream_price_def loads_def scan_served_def\<close>)
    ultimately show ?thesis
      using Nil e rest none by (subst peek_loop.simps) (auto simp: stream_seen_def stream_rest_def)
  next
    case (Cons x t)
    obtain rec ks where x: "x = (rec, ks)" by force
    obtain more where after: "rows_after (cs_scan s1) rows = (rec, ks) # t @ more"
      and hide: "\<And>m. rec = Some m \<Longrightarrow> hide s1 m = hid m"
      using slot_hidden [OF e(2) loc] Cons x by metis
    show ?thesis
    proof (cases "row_visible hid (rec, ks)")
      case True
      then obtain m where m: "rec = Some m" "\<not> hid m"
        by (auto simp: row_visible_def split: option.splits)
      let ?s2 = "s1\<lparr>cs_peek := Some (m, ks)\<rparr>"
      have "stream_inv hide hid rows auth ?s2"
        using stream_inv_peeked [OF e(2) loc] Cons x m by simp
      moreover have "affords be w1 (stream_cost hid rows ?s2 (Suc n) + r) (stream_price K hid rows ?s2 (Suc n) + d)"
        using aff loads_cong [of ?s2 s1] by (simp add: stream_cost_def stream_price_def)
      moreover have "stream_rest hid rows ?s2 = stream_rest hid rows s" "stream_rest hid rows s = m # visible hid (t @ more)"
        using rest after m by (simp_all add: stream_rest_def)
      ultimately show ?thesis
        using Cons x m e hide by (subst peek_loop.simps) (auto simp: stream_seen_def)
    next
      case False
      define s2 where "s2 = advance_raw_slot (s1\<lparr>cs_scan := Some ks\<rparr>)"
      have s2: "stream_inv hide hid rows auth s2" "rows_after (cs_scan s1) rows = (rec, ks) # rows_after (cs_scan s2) rows"
        "loads hid rows s2 (Suc n) \<le> loads hid rows s1 (Suc n)"
        using pass_hidden [OF served loc e(2) _ False e(4) s2_def] Cons x by simp_all
      have cost: "stream_cost hid rows s1 (Suc n) = 1 + stream_cost hid rows s2 (Suc n)"
        and same: "stream_rest hid rows s = stream_rest hid rows s2"
        using False rest unfolding stream_cost_def stream_rest_def s2(2)
        by (auto simp: row_visible_def split: option.splits)
      have "K * int (loads hid rows s2 (Suc n)) \<le> K * int (loads hid rows s1 (Suc n))"
        using served s2(3) by (intro mult_left_mono) (simp_all add: scan_served_def)
      then have price: "stream_price K hid rows s2 (Suc n) + 1 \<le> stream_price K hid rows s1 (Suc n)"
        using cost by (simp add: stream_price_def)
      have "affords be w1 (1 + (stream_cost hid rows s2 (Suc n) + r)) (1 + (stream_price K hid rows s2 (Suc n) + d))"
        using aff by (rule affords_le) (use cost price in simp_all)
      moreover have "0 \<le> stream_cost hid rows s2 (Suc n) + r" "0 \<le> stream_price K hid rows s2 (Suc n) + d"
        using assms(3,4) served by (simp_all add: stream_price_def stream_cost_def hidden_until_nonneg scan_served_def)
      ultimately obtain w2 where w2: "scan_charge be stream w1 = (Inr (), w2)"
        "affords be w2 (stream_cost hid rows s2 (Suc n) + r) (stream_price K hid rows s2 (Suc n) + d)"
        using scan_charge_affords by blast
      have "peek_loop be load hide stream s w = peek_loop be load hide stream s2 w2"
        using Cons x e(1) w2(1) False hide
        by (subst peek_loop.simps) (auto simp: row_visible_def s2_def split: option.splits)
      moreover have "cs_peek s2 = None" "length (rows_after (cs_scan s2) rows) < length (rows_after (cs_scan s) rows)"
        using e(3,4) s2(2) by (simp_all add: s2_def)
      ultimately show ?thesis
        using less.hyps [OF _ s2(1) _ w2(2)] same by simp
    qed
  qed
qed

section \<open>The streams keep the contract\<close>

text \<open>What waits in a stream is the next visible memory.\<close>

lemma peeked_rest:
  assumes "stream_inv hide hid rows auth s" "cs_peek s = Some (m, ks)"
  obtains t more where "cs_slots s = (Some m, ks) # t" "rows_after (cs_scan s) rows = (Some m, ks) # more"
    "stream_rest hid rows s = m # visible hid more" "\<not> hid m"
proof -
  obtain t more where "cs_slots s = (Some m, ks) # t" "\<not> hid m" "rows_after (cs_scan s) rows = cs_slots s @ more"
    using assms unfolding stream_inv_def by blast
  then show ?thesis using that [of t "t @ more"] by (simp add: stream_rest_def)
qed

lemma peeked_key:
  assumes "stream_inv hide hid rows auth s"
  shows "key_of_row rows (map_option (memory_keyset \<circ> fst) (cs_peek s))"
proof (cases "cs_peek s")
  case (Some p)
  then obtain more where "rows_after (cs_scan s) rows = (Some (fst p), snd p) # more"
    using peeked_rest [OF assms] by (metis prod.collapse)
  then have "(Some (fst p), snd p) \<in> set rows"
    using rows_after_subset [of "cs_scan s" rows] by auto
  then show ?thesis using Some by (auto simp: key_of_row_def)
qed (simp add: key_of_row_def)

lemma key_of_row_append: "key_of_row xs k \<or> key_of_row ys k \<Longrightarrow> key_of_row (xs @ ys) k"
  unfolding key_of_row_def by (cases k) auto

lemma peek_stream_law:
  assumes "scan_served be K load rows auth" "hide_local hide" "stream_inv hide hid rows auth s"
    "affords be w (stream_cost hid rows s (Suc n) + r) (stream_price K hid rows s (Suc n) + d)" "0 \<le> r" "0 \<le> d"
  shows "\<exists>s' w'. peek be load hide stream s w = (Inr (next_of (stream_rest hid rows s), s'), w') \<and>
    stream_inv hide hid rows auth s' \<and> stream_seen hid rows s' \<and> stream_rest hid rows s' = stream_rest hid rows s \<and>
    affords be w' (stream_cost hid rows s' (Suc n) + r) (stream_price K hid rows s' (Suc n) + d)"
proof (cases "cs_peek s")
  case None
  then show ?thesis
    using peek_loop_law [OF assms(1,2,5,6,3) None assms(4)] by (simp add: peek_def)
next
  case (Some p)
  obtain m ks where p: "p = (m, ks)" by force
  obtain more where "stream_rest hid rows s = m # visible hid more"
    using peeked_rest [OF assms(3)] Some p by metis
  then show ?thesis
    using assms Some p by (auto simp: peek_def stream_seen_def)
qed

lemma consume_law:
  assumes served: "scan_served be K load rows auth" and loc: "hide_local hide" and inv: "stream_inv hide hid rows auth s"
    and seen: "stream_seen hid rows s" and rest: "stream_rest hid rows s = m # ms"
    and hide: "\<And>ks m' k. (Some m, ks) \<in> set rows \<Longrightarrow> (Some m', k) \<in> set (rows_after (Some ks) rows) \<Longrightarrow>
      (Some m', k) \<in> set (rows_after (cs_scan s) rows) \<Longrightarrow>
      hide (s\<lparr>cs_emitted := Some (memory_keyset m), cs_statuses := auth\<rparr>) m' = hid m'"
  shows "\<exists>s'. consume s = Inr s' \<and> stream_inv hide hid rows auth s' \<and> stream_rest hid rows s' = ms \<and>
    (\<forall>n. stream_cost hid rows s' n \<le> stream_cost hid rows s (Suc n) \<and> stream_price K hid rows s' n \<le> stream_price K hid rows s (Suc n))"
proof -
  have sorted: "sorted_wrt (\<lambda>r r'. row_key r < row_key r') rows"
    using served by (simp add: scan_served_def)
  obtain m0 ks where peek: "cs_peek s = Some (m0, ks)"
    using seen rest by (auto simp: stream_seen_def)
  then obtain t more where slots: "cs_slots s = (Some m, ks) # t" and more: "rows_after (cs_scan s) rows = (Some m, ks) # more"
    and vis: "\<not> hid m" and m0: "m0 = m"
    using peeked_rest [OF inv] rest by (metis list.inject)
  have row: "(Some m, ks) \<in> set rows"
    using more rows_after_subset [of "cs_scan s" rows] by auto
  let ?s' = "advance_raw_slot (s\<lparr>cs_emitted := Some (memory_keyset m), cs_scan := Some ks, cs_peek := None\<rparr>)"
  have adv: "stream_inv hide hid rows auth ?s' \<and> rows_after (cs_scan s) rows = (Some m, ks) # rows_after (cs_scan ?s') rows"
  proof (rule advance_inv [OF inv loc sorted slots refl])
    show "key_of_row rows (Some (memory_keyset m))" using row by (auto simp: key_of_row_def)
    fix m' k
    assume later: "(Some m', k) \<in> set (rows_after (Some ks) rows)"
    then have "(Some m', k) \<in> set (rows_after (cs_scan s) rows)"
      using rows_after_next [OF sorted more] more by auto
    then show "hide (s\<lparr>cs_emitted := Some (memory_keyset m), cs_statuses := auth\<rparr>) m' = hid m'"
      using hide row later by blast
  qed
  have "\<not> cs_exhausted s" using inv more by (auto simp: stream_inv_def)
  then have "loads hid rows ?s' n \<le> loads hid rows s (Suc n)" for n
    using adv vis by (intro loads_after_advance [OF refl slots]) (simp_all add: row_visible_def)
  then have "K * int (loads hid rows ?s' n) \<le> K * int (loads hid rows s (Suc n))" for n
    using served by (intro mult_left_mono) (simp_all add: scan_served_def)
  moreover have "stream_cost hid rows ?s' n = stream_cost hid rows s (Suc n)" for n
    using adv vis by (simp add: stream_cost_def row_visible_def)
  moreover have "consume s = Inr ?s'"
    using peek m0 by (simp add: consume_def)
  ultimately show ?thesis
    using adv rest vis by (auto simp: stream_rest_def stream_price_def)
qed

lemma stream_costs:
  assumes "0 \<le> K"
  shows "0 \<le> stream_cost hid rows s n" "0 \<le> stream_price K hid rows s n"
    "stream_cost hid rows s n \<le> stream_cost hid rows s (Suc n)" "stream_price K hid rows s n \<le> stream_price K hid rows s (Suc n)"
  using assms mult_left_mono [of "int (loads hid rows s n)" "int (loads hid rows s (Suc n))" K] loads_Suc [of hid rows s n]
    hidden_until_Suc [of hid n "rows_after (cs_scan s) rows"]
  by (simp_all add: stream_price_def stream_cost_def hidden_until_nonneg add_mono)

text \<open>A historical memory is hidden when its id has a canonical status. A canonical one never is: its
  row carries the key of the memory, so what follows the last emitted key is listed.\<close>

definition raw_ok :: "backend \<Rightarrow> nat \<Rightarrow> loader \<Rightarrow> scan_row list \<Rightarrow> (string \<rightharpoonup> item_status) \<Rightarrow> cursor_stream \<Rightarrow> bool" where
  "raw_ok be K load rows auth s \<longleftrightarrow>
     scan_served be (int K) load rows auth \<and> stream_inv hidden_historical (\<lambda>m. auth (m_id m) \<noteq> None) rows auth s"

definition canonical_ok :: "backend \<Rightarrow> nat \<Rightarrow> loader \<Rightarrow> scan_row list \<Rightarrow> cursor_stream \<Rightarrow> bool" where
  "canonical_ok be K load rows s \<longleftrightarrow>
     scan_served be (int K) load rows Map.empty \<and> (\<forall>m ks. (Some m, ks) \<in> set rows \<longrightarrow> memory_keyset m = ks) \<and>
     stream_inv hidden_canonical (\<lambda>_. False) rows Map.empty s"

abbreviation raw_rest :: "scan_row list \<Rightarrow> (string \<rightharpoonup> item_status) \<Rightarrow> cursor_stream \<Rightarrow> memory list" where
  "raw_rest rows auth \<equiv> stream_rest (\<lambda>m. auth (m_id m) \<noteq> None) rows"

abbreviation raw_seen :: "scan_row list \<Rightarrow> (string \<rightharpoonup> item_status) \<Rightarrow> cursor_stream \<Rightarrow> bool" where
  "raw_seen rows auth \<equiv> stream_seen (\<lambda>m. auth (m_id m) \<noteq> None) rows"

abbreviation raw_cost :: "scan_row list \<Rightarrow> (string \<rightharpoonup> item_status) \<Rightarrow> cursor_stream \<Rightarrow> nat \<Rightarrow> int" where
  "raw_cost rows auth \<equiv> stream_cost (\<lambda>m. auth (m_id m) \<noteq> None) rows"

abbreviation raw_price :: "nat \<Rightarrow> scan_row list \<Rightarrow> (string \<rightharpoonup> item_status) \<Rightarrow> cursor_stream \<Rightarrow> nat \<Rightarrow> int" where
  "raw_price K rows auth \<equiv> stream_price (int K) (\<lambda>m. auth (m_id m) \<noteq> None) rows"

lemma hidden_historical_eq [simp]: "hidden_historical s m \<longleftrightarrow> cs_statuses s (m_id m) \<noteq> None"
  by (auto simp: hidden_historical_def historical_suppression_reason_def split: option.splits item_status.splits)

lemma hide_local_historical: "hide_local hidden_historical"
  by (simp add: hide_local_def)

lemma hide_local_canonical: "hide_local hidden_canonical"
  by (simp add: hide_local_def hidden_canonical_def)

interpretation raw: peekable be "peek_raw be load" consume "raw_ok be K load rows auth" "raw_seen rows auth" "raw_rest rows auth"
  "raw_cost rows auth" "raw_price K rows auth"
  for be K load rows auth
proof unfold_locales
  fix s w n r d
  assume "raw_ok be K load rows auth s" "affords be w (raw_cost rows auth s (Suc n) + r) (raw_price K rows auth s (Suc n) + d)" "0 \<le> r" "0 \<le> d"
  then show "\<exists>s' w'. peek_raw be load s w = (Inr (next_of (raw_rest rows auth s), s'), w') \<and> raw_ok be K load rows auth s' \<and>
      raw_seen rows auth s' \<and> raw_rest rows auth s' = raw_rest rows auth s \<and>
      affords be w' (raw_cost rows auth s' (Suc n) + r) (raw_price K rows auth s' (Suc n) + d)"
    using peek_stream_law [OF _ hide_local_historical] unfolding raw_ok_def peek_raw_def by blast
next
  fix s m ms
  assume "raw_ok be K load rows auth s" "raw_seen rows auth s" "raw_rest rows auth s = m # ms"
  then show "\<exists>s'. consume s = Inr s' \<and> raw_ok be K load rows auth s' \<and> raw_rest rows auth s' = ms \<and>
      (\<forall>n. raw_cost rows auth s' n \<le> raw_cost rows auth s (Suc n) \<and> raw_price K rows auth s' n \<le> raw_price K rows auth s (Suc n))"
    using consume_law [OF _ hide_local_historical] unfolding raw_ok_def by fastforce
qed (simp_all add: stream_costs [of "int K"])

interpretation canonical: peekable be "peek_canonical be load" consume "canonical_ok be K load rows"
  "stream_seen (\<lambda>_. False) rows" "stream_rest (\<lambda>_. False) rows" "stream_cost (\<lambda>_. False) rows" "stream_price (int K) (\<lambda>_. False) rows"
  for be K load rows
proof unfold_locales
  fix s w n r d
  assume "canonical_ok be K load rows s"
    "affords be w (stream_cost (\<lambda>_. False) rows s (Suc n) + r) (stream_price (int K) (\<lambda>_. False) rows s (Suc n) + d)" "0 \<le> r" "0 \<le> d"
  then show "\<exists>s' w'. peek_canonical be load s w = (Inr (next_of (stream_rest (\<lambda>_. False) rows s), s'), w') \<and> canonical_ok be K load rows s' \<and>
      stream_seen (\<lambda>_. False) rows s' \<and> stream_rest (\<lambda>_. False) rows s' = stream_rest (\<lambda>_. False) rows s \<and>
      affords be w' (stream_cost (\<lambda>_. False) rows s' (Suc n) + r) (stream_price (int K) (\<lambda>_. False) rows s' (Suc n) + d)"
    using peek_stream_law [OF _ hide_local_canonical] unfolding canonical_ok_def peek_canonical_def by blast
next
  fix s m ms
  assume ok: "canonical_ok be K load rows s" "stream_seen (\<lambda>_. False) rows s" "stream_rest (\<lambda>_. False) rows s = m # ms"
  then have key: "(Some m', k) \<in> set rows \<Longrightarrow> memory_keyset m' = k" for m' k
    by (simp add: canonical_ok_def)
  have "hidden_canonical (s\<lparr>cs_emitted := Some (memory_keyset m), cs_statuses := Map.empty\<rparr>) m' = False"
    if "(Some m, ks) \<in> set rows" "(Some m', k) \<in> set (rows_after (Some ks) rows)" for ks m' k
    using key [OF that(1)] key [of m' k] that(2)
    by (auto simp: hidden_canonical_def memory_cursor_sort_key_def rows_after_def)
  then show "\<exists>s'. consume s = Inr s' \<and> canonical_ok be K load rows s' \<and> stream_rest (\<lambda>_. False) rows s' = ms \<and>
      (\<forall>n. stream_cost (\<lambda>_. False) rows s' n \<le> stream_cost (\<lambda>_. False) rows s (Suc n) \<and>
           stream_price (int K) (\<lambda>_. False) rows s' n \<le> stream_price (int K) (\<lambda>_. False) rows s (Suc n))"
    using ok consume_law [OF _ hide_local_canonical, of be "int K" load rows Map.empty "\<lambda>_. False" s m ms] unfolding canonical_ok_def by blast
qed (simp_all add: stream_costs [of "int K"])

section \<open>The merged historical stream keeps it\<close>

record memory_store =
  ms_canonical :: "scan_row list"
  ms_updated :: "scan_row list"
  ms_created :: "scan_row list"
  ms_authority :: "string \<rightharpoonup> item_status"

definition hist_ok :: "backend \<Rightarrow> nat \<Rightarrow> reader \<Rightarrow> memory_store \<Rightarrow> hist_stream \<Rightarrow> bool" where
  "hist_ok be K rd st h \<longleftrightarrow>
     raw_ok be K (rd_updated rd) (ms_updated st) (ms_authority st) (hs_updated h) \<and>
     raw_ok be K (rd_created rd) (ms_created st) (ms_authority st) (hs_created h) \<and>
     key_of_row (ms_updated st @ ms_created st) (hs_consumed h)"

abbreviation updated_rest :: "memory_store \<Rightarrow> hist_stream \<Rightarrow> memory list" where
  "updated_rest st h \<equiv> raw_rest (ms_updated st) (ms_authority st) (hs_updated h)"

abbreviation created_rest :: "memory_store \<Rightarrow> hist_stream \<Rightarrow> memory list" where
  "created_rest st h \<equiv> raw_rest (ms_created st) (ms_authority st) (hs_created h)"

definition hist_rest :: "memory_store \<Rightarrow> hist_stream \<Rightarrow> memory list" where
  "hist_rest st h = merge_memories (updated_rest st h) (created_rest st h)"

definition hist_cost :: "memory_store \<Rightarrow> hist_stream \<Rightarrow> nat \<Rightarrow> int" where
  "hist_cost st h n =
     raw_cost (ms_updated st) (ms_authority st) (hs_updated h) n + raw_cost (ms_created st) (ms_authority st) (hs_created h) n"

definition hist_price :: "nat \<Rightarrow> memory_store \<Rightarrow> hist_stream \<Rightarrow> nat \<Rightarrow> int" where
  "hist_price K st h n =
     raw_price K (ms_updated st) (ms_authority st) (hs_updated h) n + raw_price K (ms_created st) (ms_authority st) (hs_created h) n"

definition hist_source :: "memory_store \<Rightarrow> hist_stream \<Rightarrow> scan_kind option" where
  "hist_source st h =
     (if hist_rest st h = [] then None
      else if takes_first (next_of (updated_rest st h)) (next_of (created_rest st h)) then Some Updated_Scan else Some Created_Scan)"

definition hist_seen :: "memory_store \<Rightarrow> hist_stream \<Rightarrow> bool" where
  "hist_seen st h \<longleftrightarrow>
     raw_seen (ms_updated st) (ms_authority st) (hs_updated h) \<and> raw_seen (ms_created st) (ms_authority st) (hs_created h) \<and>
     hs_source h = hist_source st h"

lemma next_of_merge:
  "next_of (merge_memories xs ys) =
     (if xs = [] \<and> ys = [] then None else if takes_first (next_of xs) (next_of ys) then next_of xs else next_of ys)"
  by (cases xs; cases ys) (auto simp: takes_first_def)

lemma peek_historical_law:
  assumes "hist_ok be K rd st h" and aff: "affords be w (hist_cost st h (Suc n) + r) (hist_price K st h (Suc n) + d)" and "0 \<le> r" "0 \<le> d"
  shows "\<exists>h' w'. peek_historical be rd h w = (Inr (next_of (hist_rest st h), h'), w') \<and> hist_ok be K rd st h' \<and> hist_seen st h' \<and>
    hist_rest st h' = hist_rest st h \<and> affords be w' (hist_cost st h' (Suc n) + r) (hist_price K st h' (Suc n) + d)"
proof -
  let ?U = "ms_updated st" and ?C = "ms_created st" and ?A = "ms_authority st"
  have ok: "raw_ok be K (rd_updated rd) ?U ?A (hs_updated h)" "raw_ok be K (rd_created rd) ?C ?A (hs_created h)"
    and key: "key_of_row (ms_updated st @ ms_created st) (hs_consumed h)"
    using assms(1) by (simp_all add: hist_ok_def)
  have "affords be w (raw_cost ?U ?A (hs_updated h) (Suc n) + (raw_cost ?C ?A (hs_created h) (Suc n) + r))
    (raw_price K ?U ?A (hs_updated h) (Suc n) + (raw_price K ?C ?A (hs_created h) (Suc n) + d))"
    using aff by (simp add: hist_cost_def hist_price_def add.assoc)
  moreover have "0 \<le> raw_cost ?C ?A (hs_created h) (Suc n) + r" "0 \<le> raw_price K ?C ?A (hs_created h) (Suc n) + d"
    using assms(3,4) raw.cost_nonneg raw.price_nonneg by (simp_all add: add_nonneg_nonneg)
  ultimately obtain u w1 where u: "peek_raw be (rd_updated rd) (hs_updated h) w = (Inr (next_of (updated_rest st h), u), w1)"
    "raw_ok be K (rd_updated rd) ?U ?A u" "raw_seen ?U ?A u" "raw_rest ?U ?A u = updated_rest st h"
    "affords be w1 (raw_cost ?U ?A u (Suc n) + (raw_cost ?C ?A (hs_created h) (Suc n) + r))
      (raw_price K ?U ?A u (Suc n) + (raw_price K ?C ?A (hs_created h) (Suc n) + d))"
    using raw.peek_law [OF ok(1)] by blast
  have "affords be w1 (raw_cost ?C ?A (hs_created h) (Suc n) + (raw_cost ?U ?A u (Suc n) + r))
    (raw_price K ?C ?A (hs_created h) (Suc n) + (raw_price K ?U ?A u (Suc n) + d))"
    using u(5) by (simp add: algebra_simps)
  moreover have "0 \<le> raw_cost ?U ?A u (Suc n) + r" "0 \<le> raw_price K ?U ?A u (Suc n) + d"
    using assms(3,4) raw.cost_nonneg raw.price_nonneg by (simp_all add: add_nonneg_nonneg)
  ultimately obtain c w2 where c: "peek_raw be (rd_created rd) (hs_created h) w1 = (Inr (next_of (created_rest st h), c), w2)"
    "raw_ok be K (rd_created rd) ?C ?A c" "raw_seen ?C ?A c" "raw_rest ?C ?A c = created_rest st h"
    "affords be w2 (raw_cost ?C ?A c (Suc n) + (raw_cost ?U ?A u (Suc n) + r)) (raw_price K ?C ?A c (Suc n) + (raw_price K ?U ?A u (Suc n) + d))"
    using raw.peek_law [OF ok(2)] by blast
  let ?h' = "h\<lparr>hs_updated := u, hs_created := c, hs_source := hist_source st h\<rparr>"
  have "peek_historical be rd h w = (Inr (next_of (hist_rest st h), ?h'), w2)"
    using u(1) c(1) by (simp add: peek_historical_def hist_source_def hist_rest_def next_of_merge Let_def)
  moreover have "hist_rest st ?h' = hist_rest st h" "hist_source st ?h' = hist_source st h"
    using u(4) c(4) by (simp_all add: hist_rest_def hist_source_def)
  moreover from this have "hist_seen st ?h'"
    unfolding hist_seen_def using u(3) c(3) by simp
  moreover have "hist_ok be K rd st ?h'"
    using u(2) c(2) key by (simp add: hist_ok_def)
  moreover have "affords be w2 (hist_cost st ?h' (Suc n) + r) (hist_price K st ?h' (Suc n) + d)"
    using c(5) by (simp add: hist_cost_def hist_price_def algebra_simps)
  ultimately show ?thesis by blast
qed

lemma consume_historical_law:
  assumes ok: "hist_ok be K rd st h" and seen: "hist_seen st h" and rest: "hist_rest st h = m # ms"
  shows "\<exists>h'. consume_historical h = Inr h' \<and> hist_ok be K rd st h' \<and> hist_rest st h' = ms \<and>
    (\<forall>n. hist_cost st h' n \<le> hist_cost st h (Suc n) \<and> hist_price K st h' n \<le> hist_price K st h (Suc n))"
proof (cases "takes_first (next_of (updated_rest st h)) (next_of (created_rest st h))")
  case True
  then obtain ms' where ms': "updated_rest st h = m # ms'" "ms = merge_memories ms' (created_rest st h)"
    using merge_takes_first [OF True] rest by (fastforce simp: hist_rest_def)
  then obtain s' where s': "consume (hs_updated h) = Inr s'" "raw_ok be K (rd_updated rd) (ms_updated st) (ms_authority st) s'"
    "raw_rest (ms_updated st) (ms_authority st) s' = ms'"
    "\<forall>n. raw_cost (ms_updated st) (ms_authority st) s' n \<le> raw_cost (ms_updated st) (ms_authority st) (hs_updated h) (Suc n) \<and>
      raw_price K (ms_updated st) (ms_authority st) s' n \<le> raw_price K (ms_updated st) (ms_authority st) (hs_updated h) (Suc n)"
    using raw.eat_law ok seen unfolding hist_ok_def hist_seen_def by blast
  moreover have "key_of_row (ms_updated st) (map_option (memory_keyset \<circ> fst) (cs_peek (hs_updated h)))"
    using ok by (auto simp: hist_ok_def raw_ok_def intro: peeked_key)
  moreover have "hs_source h = Some Updated_Scan" using seen True rest by (simp add: hist_seen_def hist_source_def)
  ultimately show ?thesis
    using ok ms' raw.cost_Suc raw.price_Suc
    by (auto simp: consume_historical_def hist_ok_def hist_rest_def hist_cost_def hist_price_def Let_def intro!: add_mono key_of_row_append)
next
  case False
  then obtain ms' where ms': "created_rest st h = m # ms'" "ms = merge_memories (updated_rest st h) ms'"
    using merge_takes_second [OF False] rest by (fastforce simp: hist_rest_def)
  then obtain s' where "consume (hs_created h) = Inr s'" "raw_ok be K (rd_created rd) (ms_created st) (ms_authority st) s'"
    "raw_rest (ms_created st) (ms_authority st) s' = ms'"
    "\<forall>n. raw_cost (ms_created st) (ms_authority st) s' n \<le> raw_cost (ms_created st) (ms_authority st) (hs_created h) (Suc n) \<and>
      raw_price K (ms_created st) (ms_authority st) s' n \<le> raw_price K (ms_created st) (ms_authority st) (hs_created h) (Suc n)"
    using raw.eat_law ok seen unfolding hist_ok_def hist_seen_def by blast
  moreover have "key_of_row (ms_created st) (map_option (memory_keyset \<circ> fst) (cs_peek (hs_created h)))"
    using ok by (auto simp: hist_ok_def raw_ok_def intro: peeked_key)
  moreover have "hs_source h = Some Created_Scan" using seen False rest by (simp add: hist_seen_def hist_source_def)
  ultimately show ?thesis
    using ok ms' raw.cost_Suc raw.price_Suc
    by (auto simp: consume_historical_def hist_ok_def hist_rest_def hist_cost_def hist_price_def Let_def intro!: add_mono key_of_row_append)
qed

interpretation historical: peekable be "peek_historical be rd" consume_historical "hist_ok be K rd st"
  "hist_seen st" "hist_rest st" "hist_cost st" "hist_price K st"
  for be K rd st
proof unfold_locales
  show "0 \<le> hist_cost st h n" "0 \<le> hist_price K st h n" "hist_cost st h n \<le> hist_cost st h (Suc n)"
    "hist_price K st h n \<le> hist_price K st h (Suc n)" for h n
    unfolding hist_cost_def hist_price_def
    by (intro add_nonneg_nonneg add_mono raw.cost_nonneg raw.price_nonneg raw.cost_Suc raw.price_Suc)+
qed (rule peek_historical_law consume_historical_law; assumption)+

end
