(* ===== verification/Memory_Paging.thy ===== *)
theory Memory_Paging
  imports Memory_Streams
begin

text \<open>
  What a client gets that follows the cursors of the memory list, against a reference: the merge of
  the visible rows of the three scans.
\<close>

section \<open>A page\<close>

abbreviation can_rest :: "memory_store \<Rightarrow> cursor_stream \<Rightarrow> memory list" where
  "can_rest st \<equiv> stream_rest (\<lambda>_. False) (ms_canonical st)"

abbreviation can_cost :: "memory_store \<Rightarrow> cursor_stream \<Rightarrow> nat \<Rightarrow> int" where
  "can_cost st \<equiv> stream_cost (\<lambda>_. False) (ms_canonical st)"

abbreviation can_price :: "nat \<Rightarrow> memory_store \<Rightarrow> cursor_stream \<Rightarrow> nat \<Rightarrow> int" where
  "can_price K st \<equiv> stream_price (int K) (\<lambda>_. False) (ms_canonical st)"

definition both_ok :: "backend \<Rightarrow> nat \<Rightarrow> reader \<Rightarrow> memory_store \<Rightarrow> cursor_stream \<Rightarrow> hist_stream \<Rightarrow> bool" where
  "both_ok be K rd st c h \<longleftrightarrow> canonical_ok be K (rd_canonical rd) (ms_canonical st) c \<and> hist_ok be K rd st h"

definition list_rest :: "memory_store \<Rightarrow> cursor_stream \<Rightarrow> hist_stream \<Rightarrow> memory list" where
  "list_rest st c h = merge_memories (can_rest st c) (hist_rest st h)"

text \<open>The walk can pay for showing \<open>n\<close> more memories of each stream.\<close>

definition funded :: "backend \<Rightarrow> nat \<Rightarrow> memory_store \<Rightarrow> cursor_stream \<Rightarrow> hist_stream \<Rightarrow> nat \<Rightarrow> walk \<Rightarrow> bool" where
  "funded be K st c h n w \<longleftrightarrow> affords be w (can_cost st c n + hist_cost st h n) (can_price K st c n + hist_price K st h n)"

lemma funded_mono: "funded be K st c h n w \<Longrightarrow> k \<le> n \<Longrightarrow> funded be K st c h k w"
  unfolding funded_def
  by (erule affords_le) (intro add_mono canonical.cost_mono canonical.price_mono historical.cost_mono historical.price_mono; assumption)+

lemma peek_canonical_both:
  assumes "both_ok be K rd st c h" "funded be K st c h (Suc n) w"
  obtains c' w' where "peek_canonical be (rd_canonical rd) c w = (Inr (next_of (can_rest st c), c'), w')" "both_ok be K rd st c' h"
    "stream_seen (\<lambda>_. False) (ms_canonical st) c'" "can_rest st c' = can_rest st c" "funded be K st c' h (Suc n) w'"
  using canonical.peek_law [of be K "rd_canonical rd" "ms_canonical st" c w n "hist_cost st h (Suc n)" "hist_price K st h (Suc n)"]
    historical.cost_nonneg [of st h "Suc n"] historical.price_nonneg [of K st h "Suc n"] assms that
  unfolding both_ok_def funded_def by blast

lemma peek_historical_both:
  assumes "both_ok be K rd st c h" "funded be K st c h (Suc n) w"
  obtains h' w' where "peek_historical be rd h w = (Inr (next_of (hist_rest st h), h'), w')" "both_ok be K rd st c h'"
    "hist_seen st h'" "hist_rest st h' = hist_rest st h" "funded be K st c h' (Suc n) w'"
  using historical.peek_law [of be K rd st h w n "can_cost st c (Suc n)" "can_price K st c (Suc n)"]
    canonical.cost_nonneg [of "ms_canonical st" c "Suc n"] canonical.price_nonneg [of K "ms_canonical st" c "Suc n"] assms that
  unfolding both_ok_def funded_def by (metis add.commute)

lemma consume_canonical_both:
  assumes "both_ok be K rd st c h" "stream_seen (\<lambda>_. False) (ms_canonical st) c" "can_rest st c = m # ms" "funded be K st c h (Suc n) w"
  obtains c' where "consume c = Inr c'" "both_ok be K rd st c' h" "can_rest st c' = ms" "funded be K st c' h n w"
proof -
  obtain c' where c': "consume c = Inr c'" "canonical_ok be K (rd_canonical rd) (ms_canonical st) c'" "can_rest st c' = ms"
    "\<forall>n. can_cost st c' n \<le> can_cost st c (Suc n) \<and> can_price K st c' n \<le> can_price K st c (Suc n)"
    using canonical.eat_law [of be K "rd_canonical rd" "ms_canonical st" c m ms] assms(1-3) by (auto simp: both_ok_def)
  then have "funded be K st c' h n w"
    using assms(4) unfolding funded_def
    by (elim affords_le) (simp_all add: add_mono historical.cost_Suc historical.price_Suc)
  then show ?thesis using that c' assms(1) by (simp add: both_ok_def)
qed

lemma consume_historical_both:
  assumes "both_ok be K rd st c h" "hist_seen st h" "hist_rest st h = m # ms" "funded be K st c h (Suc n) w"
  obtains h' where "consume_historical h = Inr h'" "both_ok be K rd st c h'" "hist_rest st h' = ms" "funded be K st c h' n w"
proof -
  obtain h' where h': "consume_historical h = Inr h'" "hist_ok be K rd st h'" "hist_rest st h' = ms"
    "\<forall>n. hist_cost st h' n \<le> hist_cost st h (Suc n) \<and> hist_price K st h' n \<le> hist_price K st h (Suc n)"
    using historical.eat_law [of be K rd st h m ms] assms(1-3) by (auto simp: both_ok_def)
  then have "funded be K st c h' n w"
    using assms(4) unfolding funded_def
    by (elim affords_le) (simp_all add: add_mono canonical.cost_Suc canonical.price_Suc)
  then show ?thesis using that h' assms(1) by (simp add: both_ok_def)
qed

text \<open>The page is the next \<open>n\<close> memories of the merge, and the streams stand behind them.\<close>

lemma page_loop_law:
  "both_ok be K rd st c h \<Longrightarrow> funded be K st c h (Suc n) w \<Longrightarrow>
   \<exists>c' h' w'. page_loop be rd n c h w = ((take n (list_rest st c h), Inr (c', h')), w') \<and> both_ok be K rd st c' h' \<and>
     list_rest st c' h' = drop n (list_rest st c h) \<and> funded be K st c' h' (Suc 0) w'"
proof (induction n arbitrary: c h w)
  case 0
  then show ?case by simp
next
  case (Suc n)
  obtain c1 w1 where c1: "peek_canonical be (rd_canonical rd) c w = (Inr (next_of (can_rest st c), c1), w1)" "both_ok be K rd st c1 h"
    "stream_seen (\<lambda>_. False) (ms_canonical st) c1" "can_rest st c1 = can_rest st c" "funded be K st c1 h (Suc (Suc n)) w1"
    using peek_canonical_both [OF Suc.prems] by blast
  obtain h1 w2 where h1: "peek_historical be rd h w1 = (Inr (next_of (hist_rest st h), h1), w2)" "both_ok be K rd st c1 h1"
    "hist_seen st h1" "hist_rest st h1 = hist_rest st h" "funded be K st c1 h1 (Suc (Suc n)) w2"
    using peek_historical_both [OF c1(2,5)] by blast
  let ?cm = "next_of (can_rest st c)" and ?hm = "next_of (hist_rest st h)"
  consider (none) "can_rest st c = []" "hist_rest st h = []"
    | (canonical) "takes_first ?cm ?hm" "can_rest st c \<noteq> [] \<or> hist_rest st h \<noteq> []"
    | (historical) "\<not> takes_first ?cm ?hm" "can_rest st c \<noteq> [] \<or> hist_rest st h \<noteq> []"
    by blast
  then show ?case
  proof cases
    case none
    then show ?thesis using c1 h1 funded_mono [OF h1(5), of "Suc 0"] by (simp add: list_rest_def)
  next
    case canonical
    then obtain m ms where m: "can_rest st c = m # ms" "list_rest st c h = m # merge_memories ms (hist_rest st h)"
      using merge_takes_first unfolding list_rest_def by blast
    then obtain c2 where c2: "consume c1 = Inr c2" "both_ok be K rd st c2 h1" "can_rest st c2 = ms" "funded be K st c2 h1 (Suc n) w2"
      using consume_canonical_both [OF h1(2) c1(3) _ h1(5)] c1(4) by metis
    from Suc.IH [OF c2(2,4)] show ?thesis
      using c1(1) h1(1,4) canonical m c2(1,3) by (auto simp: list_rest_def)
  next
    case historical
    then obtain m ms where m: "hist_rest st h = m # ms" "list_rest st c h = m # merge_memories (can_rest st c) ms"
      using merge_takes_second unfolding list_rest_def by blast
    then obtain h2 where h2: "consume_historical h1 = Inr h2" "both_ok be K rd st c1 h2" "hist_rest st h2 = ms" "funded be K st c1 h2 (Suc n) w2"
      using consume_historical_both [OF h1(2,3) _ h1(5)] h1(4) by metis
    from Suc.IH [OF h2(2,4)] show ?thesis
      using c1(1,4) h1(1) historical m h2(1,3) by (auto simp: list_rest_def)
  qed
qed

lemma has_more_law:
  assumes "both_ok be K rd st c h" "funded be K st c h (Suc n) w"
  shows "\<exists>c' h' w'. has_more be rd c h w = (Inr (list_rest st c h \<noteq> [], c', h'), w') \<and> both_ok be K rd st c' h' \<and>
    list_rest st c' h' = list_rest st c h \<and> funded be K st c' h' (Suc n) w'"
proof -
  obtain c1 w1 where c1: "peek_canonical be (rd_canonical rd) c w = (Inr (next_of (can_rest st c), c1), w1)" "both_ok be K rd st c1 h"
    "can_rest st c1 = can_rest st c" "funded be K st c1 h (Suc n) w1"
    using peek_canonical_both [OF assms] by blast
  show ?thesis
  proof (cases "can_rest st c")
    case Nil
    obtain h1 w2 where "peek_historical be rd h w1 = (Inr (next_of (hist_rest st h), h1), w2)" "both_ok be K rd st c1 h1"
      "hist_rest st h1 = hist_rest st h" "funded be K st c1 h1 (Suc n) w2"
      using peek_historical_both [OF c1(2,4)] by blast
    then show ?thesis using c1 Nil by (cases "hist_rest st h") (simp_all add: has_more_def list_rest_def)
  next
    case (Cons m ms)
    then show ?thesis using c1 by (simp add: has_more_def list_rest_def)
  qed
qed

section \<open>Continuing from a cursor\<close>

text \<open>A stream over a scan that says it is exhausted has no rows left.\<close>

locale scan_peekable = peekable be pk consume ok seen rest cost price
  for be :: backend
    and pk :: "cursor_stream \<Rightarrow> walk \<Rightarrow> (list_error + memory option \<times> cursor_stream) \<times> walk"
    and ok :: "cursor_stream \<Rightarrow> bool" and seen :: "cursor_stream \<Rightarrow> bool"
    and rest :: "cursor_stream \<Rightarrow> memory list" and cost :: "cursor_stream \<Rightarrow> nat \<Rightarrow> int" and price :: "cursor_stream \<Rightarrow> nat \<Rightarrow> int" +
  fixes after :: "cursor_stream \<Rightarrow> scan_row list"
  assumes exhausted_law: "ok s \<Longrightarrow> cs_exhausted s \<Longrightarrow> after s = []"
begin

lemma exhausted_now_law:
  assumes "ok s" "affords be w (cost s (Suc n) + r) (price s (Suc n) + d)" "0 \<le> r" "0 \<le> d"
  shows "\<exists>x s' w'. exhausted_now pk s w = (Inr (x, s'), w') \<and> (x \<longrightarrow> after s = []) \<and> affords be w' r d"
proof (cases "cs_exhausted s")
  case True
  then have "after s = []" using exhausted_law assms(1) by blast
  moreover obtain s' w' where "pk s w = (Inr (next_of (rest s), s'), w')" "affords be w' (cost s' (Suc n) + r) (price s' (Suc n) + d)"
    using peek_law [OF assms] by blast
  moreover from this(2) have "affords be w' r d"
    by (rule affords_le) (simp_all add: cost_nonneg price_nonneg)
  ultimately show ?thesis
    using True by (simp add: exhausted_now_def)
next
  case False
  have "affords be w r d"
    using assms(2) by (rule affords_le) (simp_all add: cost_nonneg price_nonneg)
  then show ?thesis using False by (auto simp: exhausted_now_def)
qed

end

interpretation raw: scan_peekable be "peek_raw be load" "raw_ok be K load rows auth" "raw_seen rows auth" "raw_rest rows auth"
  "raw_cost rows auth" "raw_price K rows auth" "\<lambda>s. rows_after (cs_scan s) rows"
  for be K load rows auth
  by unfold_locales (simp add: raw_ok_def stream_inv_def)

interpretation canonical: scan_peekable be "peek_canonical be load" "canonical_ok be K load rows"
  "stream_seen (\<lambda>_. False) rows" "stream_rest (\<lambda>_. False) rows" "stream_cost (\<lambda>_. False) rows" "stream_price (int K) (\<lambda>_. False) rows"
  "\<lambda>s. rows_after (cs_scan s) rows"
  for be K load rows
  by unfold_locales (simp add: canonical_ok_def stream_inv_def)

lemma new_stream_simps:
  "cs_emitted (new_stream e k x) = e" "cs_scan (new_stream e k x) = k" "cs_exhausted (new_stream e k x) = x"
  by (simp_all add: new_stream_def)

text \<open>A fresh stream from the position of another has the same memories ahead.\<close>

lemma resume_inv:
  assumes "stream_inv hide hid rows auth s" "x \<longrightarrow> rows_after (cs_scan s) rows = []" "key_of_row rows e"
    and "\<And>m. hide (new_stream e (cs_scan s) x\<lparr>cs_statuses := auth\<rparr>) m = hide (s\<lparr>cs_statuses := auth\<rparr>) m"
  shows "stream_inv hide hid rows auth (new_stream e (cs_scan s) x)"
  using assms(1-3) unfolding stream_inv_def assms(4) by (auto simp: new_stream_def)

lemma stream_inv_emitted: "stream_inv hide hid rows auth s \<Longrightarrow> key_of_row rows (cs_emitted s)"
  by (simp add: stream_inv_def)

lemma resume_raw:
  "raw_ok be K load rows auth s \<Longrightarrow> x \<longrightarrow> rows_after (cs_scan s) rows = [] \<Longrightarrow> raw_ok be K load rows auth (new_stream None (cs_scan s) x)"
  unfolding raw_ok_def by (simp add: resume_inv key_of_row_def)

lemma resume_canonical:
  "canonical_ok be K load rows s \<Longrightarrow> x \<longrightarrow> rows_after (cs_scan s) rows = [] \<Longrightarrow>
   canonical_ok be K load rows (new_stream (cs_emitted s) (cs_scan s) x)"
  unfolding canonical_ok_def
  by (elim conjE, intro conjI resume_inv) (auto simp: hidden_canonical_def new_stream_simps intro: stream_inv_emitted)

definition resumable :: "backend \<Rightarrow> nat \<Rightarrow> reader \<Rightarrow> memory_store \<Rightarrow> universal_list_cursor_state \<Rightarrow> bool" where
  "resumable be K rd st cur \<longleftrightarrow> both_ok be K rd st (start_canonical cur) (start_historical cur)"

definition remaining :: "memory_store \<Rightarrow> universal_list_cursor_state \<Rightarrow> memory list" where
  "remaining st cur = list_rest st (start_canonical cur) (start_historical cur)"

lemma next_state_law:
  assumes ok: "both_ok be K rd st c h" and "funded be K st c h (Suc n) w"
  shows "\<exists>cur' w'. next_state be rd cur c h w = (Inr cur', w') \<and> resumable be K rd st cur' \<and> remaining st cur' = list_rest st c h"
proof -
  let ?U = "ms_updated st" and ?C = "ms_created st" and ?A = "ms_authority st"
  have oks: "canonical_ok be K (rd_canonical rd) (ms_canonical st) c" "raw_ok be K (rd_updated rd) ?U ?A (hs_updated h)"
    "raw_ok be K (rd_created rd) ?C ?A (hs_created h)" "key_of_row (?U @ ?C) (hs_consumed h)"
    using ok by (simp_all add: both_ok_def hist_ok_def)
  note nonneg = historical.cost_nonneg historical.price_nonneg raw.cost_nonneg raw.price_nonneg
  obtain cx c1 w1 where 1: "exhausted_now (peek_canonical be (rd_canonical rd)) c w = (Inr (cx, c1), w1)"
    "cx \<longrightarrow> rows_after (cs_scan c) (ms_canonical st) = []" "affords be w1 (hist_cost st h (Suc n)) (hist_price K st h (Suc n))"
    using canonical.exhausted_now_law [OF oks(1) _ nonneg(1,2)] assms(2) unfolding funded_def by blast
  obtain ux u1 w2 where 2: "exhausted_now (peek_raw be (rd_updated rd)) (hs_updated h) w1 = (Inr (ux, u1), w2)"
    "ux \<longrightarrow> rows_after (cs_scan (hs_updated h)) ?U = []"
    "affords be w2 (raw_cost ?C ?A (hs_created h) (Suc n)) (raw_price K ?C ?A (hs_created h) (Suc n))"
    using raw.exhausted_now_law [OF oks(2) _ nonneg(3,4)] 1(3) unfolding hist_cost_def hist_price_def by blast
  obtain rx r1 w3 where 3: "exhausted_now (peek_raw be (rd_created rd)) (hs_created h) w2 = (Inr (rx, r1), w3)"
    "rx \<longrightarrow> rows_after (cs_scan (hs_created h)) ?C = []"
    using raw.exhausted_now_law [OF oks(3), of w2 n 0 0] 2(3) by auto
  let ?cur = "cur\<lparr>canonical := cs_emitted c, canonical_scan := cs_scan c, historical := hs_consumed h,
    historical_updated_scan := cs_scan (hs_updated h), historical_created_scan := cs_scan (hs_created h),
    canonical_exhausted := cx, historical_updated_exhausted := ux, historical_created_exhausted := rx\<rparr>"
  have "next_state be rd cur c h w = (Inr ?cur, w3)"
    using 1(1) 2(1) 3(1) by (simp add: next_state_def)
  moreover have "resumable be K rd st ?cur"
    using resume_canonical [OF oks(1) 1(2)] resume_raw [OF oks(2) 2(2)] resume_raw [OF oks(3) 3(2)] oks(4)
    by (simp add: resumable_def both_ok_def hist_ok_def start_canonical_def start_historical_def)
  moreover have "remaining st ?cur = list_rest st c h"
    by (simp add: remaining_def list_rest_def hist_rest_def start_canonical_def start_historical_def stream_rest_def new_stream_simps)
  ultimately show ?thesis by blast
qed

text \<open>A page of \<open>limit\<close> memories from a resumable state: the next \<open>limit\<close> memories, and a state behind them
  exactly when there are more.\<close>

lemma page_from_law:
  assumes "resumable be K rd st cur" "funded be K st (start_canonical cur) (start_historical cur) (Suc limit) w"
  shows "\<exists>next. fst (page_from be rd limit cur w) = Inr (take limit (remaining st cur), next, False) \<and>
    (case next of
       None \<Rightarrow> drop limit (remaining st cur) = []
     | Some cur' \<Rightarrow> drop limit (remaining st cur) \<noteq> [] \<and> resumable be K rd st cur' \<and> remaining st cur' = drop limit (remaining st cur))"
proof -
  obtain c h w1 where 1: "page_loop be rd limit (start_canonical cur) (start_historical cur) w = ((take limit (remaining st cur), Inr (c, h)), w1)"
    "both_ok be K rd st c h" "list_rest st c h = drop limit (remaining st cur)" "funded be K st c h (Suc 0) w1"
    using page_loop_law assms unfolding resumable_def remaining_def by blast
  obtain c' h' w2 where 2: "has_more be rd c h w1 = (Inr (list_rest st c h \<noteq> [], c', h'), w2)" "both_ok be K rd st c' h'"
    "list_rest st c' h' = list_rest st c h" "funded be K st c' h' (Suc 0) w2"
    using has_more_law [OF 1(2,4)] by blast
  obtain cur' w3 where 3: "next_state be rd cur c' h' w2 = (Inr cur', w3)" "resumable be K rd st cur'" "remaining st cur' = list_rest st c' h'"
    using next_state_law [OF 2(2,4)] by blast
  show ?thesis
  proof (cases "list_rest st c h = []")
    case True
    then show ?thesis using 1 2 by (simp add: page_from_def)
  next
    case False
    then have "fst (page_from be rd limit cur w) = Inr (take limit (remaining st cur), Some cur', False)"
      using 1(1) 2(1) 3(1) by (simp add: page_from_def)
    then show ?thesis using False 1(3) 2(3) 3(2,3) by (intro exI [of _ "Some cur'"]) simp
  qed
qed

section \<open>A request\<close>

text \<open>The backend of a request serves the store: each scan its rows, canonical rows under the key of
  their memory.\<close>

definition store_served :: "backend \<Rightarrow> nat \<Rightarrow> reader \<Rightarrow> memory_store \<Rightarrow> bool" where
  "store_served be K rd st \<longleftrightarrow>
     scan_served be (int K) (rd_canonical rd) (ms_canonical st) Map.empty \<and>
     (\<forall>m ks. (Some m, ks) \<in> set (ms_canonical st) \<longrightarrow> memory_keyset m = ks) \<and>
     scan_served be (int K) (rd_updated rd) (ms_updated st) (ms_authority st) \<and>
     scan_served be (int K) (rd_created rd) (ms_created st) (ms_authority st)"

lemma resumable_transfer: "resumable be K rd st cur \<Longrightarrow> store_served be' K' rd' st \<Longrightarrow> resumable be' K' rd' st cur"
  by (auto simp: resumable_def both_ok_def canonical_ok_def hist_ok_def raw_ok_def store_served_def)

lemma resumable_first:
  assumes "store_served be K rd st"
  shows "resumable be K rd st (first_state rq)"
proof -
  have "stream_inv hidden_canonical (\<lambda>_. False) (ms_canonical st) Map.empty (new_stream None None False)"
    "stream_inv hidden_historical (\<lambda>m. ms_authority st (m_id m) \<noteq> None) rows (ms_authority st) (new_stream None None False)" for rows
    by (simp_all add: stream_inv_def new_stream_def key_of_row_def hidden_canonical_def)
  then show ?thesis
    using assms
    by (simp add: store_served_def resumable_def both_ok_def canonical_ok_def hist_ok_def raw_ok_def start_canonical_def start_historical_def
        first_state_def key_of_row_def)
qed

text \<open>The whole list, newest first when each scan is.\<close>

definition full_list :: "memory_store \<Rightarrow> memory list" where
  "full_list st =
     merge_memories (visible (\<lambda>_. False) (ms_canonical st))
       (merge_memories (visible (\<lambda>m. ms_authority st (m_id m) \<noteq> None) (ms_updated st))
                       (visible (\<lambda>m. ms_authority st (m_id m) \<noteq> None) (ms_created st)))"

lemma remaining_first: "remaining st (first_state rq) = full_list st"
  by (simp add: remaining_def full_list_def list_rest_def hist_rest_def start_canonical_def start_historical_def first_state_def
      stream_rest_def new_stream_simps rows_after_def)

text \<open>What a request for \<open>n\<close> memories may need, wherever it starts: the hidden rows of the three scans, and
  for each scan the chunks that hold as many visible rows.\<close>

definition hidden_row_count :: "(memory \<Rightarrow> bool) \<Rightarrow> scan_row list \<Rightarrow> nat" where
  "hidden_row_count hid rows = length (filter (\<lambda>r. \<not> row_visible hid r) rows)"

definition store_hidden :: "memory_store \<Rightarrow> nat" where
  "store_hidden st =
     hidden_row_count (\<lambda>_. False) (ms_canonical st) + hidden_row_count (\<lambda>m. ms_authority st (m_id m) \<noteq> None) (ms_updated st) +
     hidden_row_count (\<lambda>m. ms_authority st (m_id m) \<noteq> None) (ms_created st)"

definition page_documents :: "nat \<Rightarrow> memory_store \<Rightarrow> nat \<Rightarrow> nat" where
  "page_documents K st n =
     store_hidden st + 3 * K * ((n + store_hidden st + MEMORY_LIST_SCAN_CHUNK_SIZE) div MEMORY_LIST_SCAN_CHUNK_SIZE)"

lemma hidden_until_le: "hidden_until hid n rows \<le> int (hidden_row_count hid rows)"
  by (induction hid n rows rule: hidden_until.induct) (auto simp: hidden_row_count_def)

lemma reach_hidden: "int (reach hid n rows) \<le> int n + hidden_until hid n rows"
  by (induction hid n rows rule: reach.induct) auto

lemma hidden_rows_after: "hidden_row_count hid (rows_after k rows) \<le> hidden_row_count hid rows"
proof (cases k)
  case (Some ks)
  have "filter (\<lambda>r. \<not> row_visible hid r) (filter P rows) = filter P (filter (\<lambda>r. \<not> row_visible hid r) rows)" for P
    by (simp add: conj_commute)
  then show ?thesis
    using Some by (simp add: hidden_row_count_def rows_after_def del: filter_filter)
qed (simp add: rows_after_def)

lemma new_stream_need:
  fixes hid rows e k x n
  defines "s \<equiv> new_stream e k x"
  assumes "hidden_row_count hid rows \<le> H"
  shows "stream_cost hid rows s n \<le> int (hidden_row_count hid rows)"
    "stream_price (int K) hid rows s n \<le> int (hidden_row_count hid rows) + int (K * ((n + H + MEMORY_LIST_SCAN_CHUNK_SIZE) div MEMORY_LIST_SCAN_CHUNK_SIZE))"
proof -
  let ?rows = "rows_after k rows"
  have cost: "hidden_until hid n ?rows \<le> int (hidden_row_count hid rows)"
    using hidden_until_le [of hid n ?rows] hidden_rows_after [of hid k rows] by linarith
  then show "stream_cost hid rows s n \<le> int (hidden_row_count hid rows)"
    by (simp add: stream_cost_def s_def new_stream_simps)
  have "reach hid n ?rows \<le> n + H"
    using reach_hidden [of hid n ?rows] cost assms(2) by linarith
  then have "(reach hid n ?rows + 49) div 50 \<le> (n + H + 50) div 50"
    by (intro div_le_mono) simp
  then have "loads hid rows s n \<le> (n + H + MEMORY_LIST_SCAN_CHUNK_SIZE) div MEMORY_LIST_SCAN_CHUNK_SIZE"
    by (simp add: loads_def s_def new_stream_def MEMORY_LIST_SCAN_CHUNK_SIZE_def)
  then have "K * loads hid rows s n \<le> K * ((n + H + MEMORY_LIST_SCAN_CHUNK_SIZE) div MEMORY_LIST_SCAN_CHUNK_SIZE)"
    by (rule mult_le_mono2)
  then have "int K * int (loads hid rows s n) \<le> int (K * ((n + H + MEMORY_LIST_SCAN_CHUNK_SIZE) div MEMORY_LIST_SCAN_CHUNK_SIZE))"
    unfolding of_nat_mult [symmetric] of_nat_le_iff .
  then show "stream_price (int K) hid rows s n \<le> int (hidden_row_count hid rows) + int (K * ((n + H + MEMORY_LIST_SCAN_CHUNK_SIZE) div MEMORY_LIST_SCAN_CHUNK_SIZE))"
    using cost by (simp add: stream_price_def stream_cost_def s_def new_stream_simps)
qed

lemma funded_start:
  assumes "affords be w (int (store_hidden st)) (int (page_documents K st n))"
  shows "funded be K st (start_canonical cur) (start_historical cur) n w"
proof -
  let ?D = "K * ((n + store_hidden st + MEMORY_LIST_SCAN_CHUNK_SIZE) div MEMORY_LIST_SCAN_CHUNK_SIZE)"
  have docs: "page_documents K st n = store_hidden st + (?D + ?D + ?D)"
    by (simp add: page_documents_def)
  note need = new_stream_need(1) [where H = "store_hidden st" and n = n] new_stream_need(2) [where H = "store_hidden st" and n = n and K = K]
  have le: "hidden_row_count (\<lambda>_. False) (ms_canonical st) \<le> store_hidden st"
    "hidden_row_count (\<lambda>m. ms_authority st (m_id m) \<noteq> None) (ms_updated st) \<le> store_hidden st"
    "hidden_row_count (\<lambda>m. ms_authority st (m_id m) \<noteq> None) (ms_created st) \<le> store_hidden st"
    by (simp_all add: store_hidden_def)
  show ?thesis
    unfolding funded_def
  proof (rule affords_le [OF assms])
    show "can_cost st (start_canonical cur) n + hist_cost st (start_historical cur) n \<le> int (store_hidden st)"
      unfolding hist_cost_def store_hidden_def start_canonical_def start_historical_def of_nat_add
      using need(1) [OF le(1)] need(1) [OF le(2)] need(1) [OF le(3)] by (simp add: add.assoc add_mono)
    show "can_price K st (start_canonical cur) n + hist_price K st (start_historical cur) n \<le> int (page_documents K st n)"
      unfolding docs hist_price_def start_canonical_def start_historical_def of_nat_add
      using need(2) [OF le(1), of "canonical cur" "canonical_scan cur" "canonical_exhausted cur"]
        need(2) [OF le(2), of None "historical_updated_scan cur" "historical_updated_exhausted cur"]
        need(2) [OF le(3), of None "historical_created_scan cur" "historical_created_exhausted cur"]
      by (simp add: store_hidden_def)
  qed
qed

section \<open>Following the cursors\<close>

definition page_limit :: "page_request \<Rightarrow> nat" where
  "page_limit rq = nat (max 1 (min (if pr_limit rq = 0 then 100 else pr_limit rq) 500))"

lemma page_limit_pos: "0 < page_limit rq"
  by (simp add: page_limit_def)

text \<open>The authority of the request, as \<^verbatim>\<open>read_page\<close> puts it into the next cursor.\<close>

definition authorise :: "page_request \<Rightarrow> universal_list_cursor_state \<Rightarrow> universal_list_cursor_state" where
  "authorise rq cur = cur\<lparr>uid_of := uid_of (first_state rq), include_archive := pr_include_archive rq,
     include_pending_processing := pr_include_pending rq, device_scope := request_scope rq,
     client_device_id := client_device_id (first_state rq)\<rparr>"

lemma authorise_simps [simp]:
  "resumable be K rd st (authorise rq cur) = resumable be K rd st cur" "remaining st (authorise rq cur) = remaining st cur"
  "keysets_of (authorise rq cur) = keysets_of cur"
  by (simp_all add: authorise_def resumable_def remaining_def start_canonical_def start_historical_def keysets_of_def)

definition starts_at :: "(json \<Rightarrow> string) \<Rightarrow> backend \<Rightarrow> byte list \<Rightarrow> page_request \<Rightarrow> universal_list_cursor_state \<Rightarrow> bool" where
  "starts_at repr be secret rq cur \<longleftrightarrow>
     (let cursor = str_or (pr_cursor rq) '''' in
      if cursor = '''' then cur = first_state rq
      else length (split_on (CHR ''.'') cursor) = 3 \<and> hd (split_on (CHR ''.'') cursor) = ''uml'' \<and>
        (\<exists>e. decode_universal_list_cursor repr (be_epoch be) cursor (authority_of rq) secret None =
           Inr \<lparr>claims_state = cur, expires_at_epoch_seconds = e\<rparr>))"

lemma read_page_law:
  assumes secret: "cursor_secret (be_env be) = Inr secret" and start: "starts_at repr be secret rq cur"
    and "resumable be K (page_reader be rq) st cur"
    and "affords be (new_walk be budget) (int (store_hidden st)) (int (page_documents K st (Suc (page_limit rq))))"
  shows "\<exists>next. read_page repr be budget rq =
      Inr \<lparr>pg_memories = take (page_limit rq) (remaining st cur),
           pg_next_cursor = map_option (\<lambda>cur'. encode_universal_list_cursor (be_env be) (be_epoch be) (authorise rq cur') secret None None) next,
           pg_truncated = False\<rparr> \<and>
    (case next of
       None \<Rightarrow> drop (page_limit rq) (remaining st cur) = []
     | Some cur' \<Rightarrow> drop (page_limit rq) (remaining st cur) \<noteq> [] \<and> resumable be K (page_reader be rq) st cur' \<and>
         remaining st cur' = drop (page_limit rq) (remaining st cur))"
proof -
  obtain "next" where page: "fst (page_from be (page_reader be rq) (page_limit rq) cur (new_walk be budget)) =
      Inr (take (page_limit rq) (remaining st cur), next, False)"
    and nxt: "case next of
       None \<Rightarrow> drop (page_limit rq) (remaining st cur) = []
     | Some cur' \<Rightarrow> drop (page_limit rq) (remaining st cur) \<noteq> [] \<and> resumable be K (page_reader be rq) st cur' \<and>
         remaining st cur' = drop (page_limit rq) (remaining st cur)"
    using page_from_law [OF assms(3) funded_start [OF assms(4)]] by blast
  have "read_page repr be budget rq =
      Inr \<lparr>pg_memories = take (page_limit rq) (remaining st cur),
           pg_next_cursor = map_option (\<lambda>cur'. encode_universal_list_cursor (be_env be) (be_epoch be) (authorise rq cur') secret None None) next,
           pg_truncated = False\<rparr>"
    using start page secret
    by (auto simp: read_page_def starts_at_def Let_def page_limit_def authorise_def split: if_splits)
  with nxt show ?thesis by blast
qed

text \<open>The texts of a request and of the rows are well formed, ids are not blank and instants are
  not before the epoch.\<close>

definition request_ok :: "page_request \<Rightarrow> bool" where
  "request_ok rq \<longleftrightarrow>
     valid_utf8 (pr_uid rq) \<and> valid_utf8 (request_scope rq) \<and> (case request_client rq of None \<Rightarrow> True | Some d \<Rightarrow> valid_utf8 d)"

definition key_ok :: "stream_keyset \<Rightarrow> bool" where
  "key_ok ks \<longleftrightarrow> keyset_ok (Some ks) \<and> keyset_text_ok (Some ks)"

definition rows_ok :: "scan_row list \<Rightarrow> bool" where
  "rows_ok rows \<longleftrightarrow> (\<forall>r \<in> set rows. key_ok (snd r) \<and> (case fst r of None \<Rightarrow> True | Some m \<Rightarrow> key_ok (memory_keyset m)))"

lemma rows_ok_keys:
  assumes "rows_ok rows"
  shows "k \<in> insert None (Some ` snd ` set rows) \<Longrightarrow> keyset_ok k \<and> keyset_text_ok k"
    and "key_of_row rows k \<Longrightarrow> keyset_ok k \<and> keyset_text_ok k"
  using assms by (cases k; force simp: rows_ok_def key_ok_def key_of_row_def keyset_ok_def keyset_text_ok_def)+

lemma cursor_state_ok_next:
  assumes "resumable be K rd st cur" "request_ok rq" "rows_ok (ms_canonical st)" "rows_ok (ms_updated st @ ms_created st)"
  shows "cursor_state_ok (authorise rq cur)"
proof -
  have parts: "rows_ok (ms_updated st)" "rows_ok (ms_created st)"
    using assms(4) by (auto simp: rows_ok_def)
  have keys: "key_of_row (ms_canonical st) (canonical cur)" "canonical_scan cur \<in> insert None (Some ` snd ` set (ms_canonical st))"
    "key_of_row (ms_updated st @ ms_created st) (historical cur)"
    "historical_updated_scan cur \<in> insert None (Some ` snd ` set (ms_updated st))"
    "historical_created_scan cur \<in> insert None (Some ` snd ` set (ms_created st))"
    using assms(1)
    by (simp_all add: resumable_def both_ok_def canonical_ok_def hist_ok_def raw_ok_def stream_inv_def start_canonical_def
        start_historical_def new_stream_simps)
  note ok = rows_ok_keys(2) [OF assms(3) keys(1)] rows_ok_keys(1) [OF assms(3) keys(2)] rows_ok_keys(2) [OF assms(4) keys(3)]
    rows_ok_keys(1) [OF parts(1) keys(4)] rows_ok_keys(1) [OF parts(2) keys(5)]
  have "list_all keyset_ok (keysets_of cur)" "list_all keyset_text_ok (keysets_of cur)"
    using ok by (simp_all add: keysets_of_def)
  then show ?thesis
    using assms(2) unfolding cursor_state_ok_def authorise_simps
    by (auto simp: authorise_def request_ok_def first_state_def split: option.splits)
qed

lemma encoded_parts:
  "\<exists>segment sig. split_on (CHR ''.'') (encode_universal_list_cursor env clock cur secret None None) = [''uml'', segment, sig]"
proof -
  let ?seg = "b64encode (canonical_json (cursor_payload cur (clock + max 1 (cursor_ttl_seconds env))))"
  have "encode_universal_list_cursor env clock cur secret None None = ''uml'' @ CHR ''.'' # ?seg @ CHR ''.'' # signature secret ?seg"
    by (simp add: encode_universal_list_cursor_def Let_def)
  then have "split_on (CHR ''.'') (encode_universal_list_cursor env clock cur secret None None) = [''uml'', ?seg, signature secret ?seg]"
    by (simp only:) (subst split_on_append, simp_all add: cursor_token.split_token)
  then show ?thesis by blast
qed

text \<open>The next request starts from the state the cursor was issued for, while it has not expired.\<close>

lemma next_starts_at:
  assumes "cursor_state_ok (authorise rq cur)" "be_epoch be' \<le> be_epoch be + max 1 (cursor_ttl_seconds (be_env be))"
  shows "starts_at repr be' secret
    (rq\<lparr>pr_cursor := Some (encode_universal_list_cursor (be_env be) (be_epoch be) (authorise rq cur) secret None None)\<rparr>) (authorise rq cur)"
proof -
  let ?c = "encode_universal_list_cursor (be_env be) (be_epoch be) (authorise rq cur) secret None None"
  have "?c \<noteq> ''''"
    by (simp add: encode_universal_list_cursor_def Let_def)
  moreover have "authority_of (rq\<lparr>pr_cursor := Some ?c\<rparr>) = authority_of rq"
    by (simp add: authority_of_def request_scope_def request_client_def)
  moreover have "check_claims (be_epoch be') (authority_of rq)
      \<lparr>claims_state = authorise rq cur, expires_at_epoch_seconds = be_epoch be + max 1 (cursor_ttl_seconds (be_env be))\<rparr> =
      Inr \<lparr>claims_state = authorise rq cur, expires_at_epoch_seconds = be_epoch be + max 1 (cursor_ttl_seconds (be_env be))\<rparr>"
    using assms(2)
    by (auto simp: check_claims_def authorise_def authority_of_def first_state_def json_or_def device_json_def nonempty_str_def
        Let_def split: option.splits)
  ultimately show ?thesis
    using encoded_parts [of "be_env be" "be_epoch be" "authorise rq cur" secret]
    by (auto simp: starts_at_def Let_def str_or_def decode_encode_cursor [OF assms(1)])
qed

text \<open>A client that asks for a page and follows the cursor as long as it gets one. Every request has
  its own backend (its readings of the clock and its answers) and its own budget.\<close>

type_synonym visit = "backend \<times> list_read_budget option"

fun follow :: "(json \<Rightarrow> string) \<Rightarrow> visit list \<Rightarrow> page_request \<Rightarrow> list_error + memory list \<times> string option" where
  "follow repr [] rq = Inr ([], pr_cursor rq)"
| "follow repr ((be, budget) # visits) rq =
     (case read_page repr be budget rq of
        Inl e \<Rightarrow> Inl e
      | Inr pg \<Rightarrow>
          (case pg_next_cursor pg of
             None \<Rightarrow> Inr (pg_memories pg, None)
           | Some c \<Rightarrow>
               (case follow repr visits (rq\<lparr>pr_cursor := Some c\<rparr>) of
                  Inl e \<Rightarrow> Inl e
                | Inr (ms, k) \<Rightarrow> Inr (pg_memories pg @ ms, k))))"

definition visit_ok :: "nat \<Rightarrow> memory_store \<Rightarrow> byte list \<Rightarrow> page_request \<Rightarrow> visit \<Rightarrow> bool" where
  "visit_ok K st secret rq v \<longleftrightarrow>
     cursor_secret (be_env (fst v)) = Inr secret \<and> store_served (fst v) K (page_reader (fst v) rq) st \<and>
     affords (fst v) (new_walk (fst v) (snd v)) (int (store_hidden st)) (int (page_documents K st (Suc (page_limit rq))))"

fun timely :: "visit list \<Rightarrow> bool" where
  "timely (v # v' # vs) \<longleftrightarrow>
     be_epoch (fst v') \<le> be_epoch (fst v) + max 1 (cursor_ttl_seconds (be_env (fst v))) \<and> timely (v' # vs)"
| "timely _ = True"

lemma visit_ok_cursor [simp]: "visit_ok K st secret (rq\<lparr>pr_cursor := c\<rparr>) v = visit_ok K st secret rq v"
  by (simp add: visit_ok_def page_reader_def page_limit_def)

lemma request_cursor [simp]:
  "request_ok (rq\<lparr>pr_cursor := c\<rparr>) = request_ok rq" "page_limit (rq\<lparr>pr_cursor := c\<rparr>) = page_limit rq"
  "page_reader be (rq\<lparr>pr_cursor := c\<rparr>) = page_reader be rq"
  by (simp_all add: request_ok_def request_scope_def request_client_def page_limit_def page_reader_def)

lemma follow_law:
  assumes "request_ok rq" "rows_ok (ms_canonical st)" "rows_ok (ms_updated st @ ms_created st)"
    and "list_all (visit_ok K st secret rq) (v # vs)" "timely (v # vs)"
    and "starts_at repr (fst v) secret rq cur" "resumable (fst v) K (page_reader (fst v) rq) st cur"
  shows "\<exists>k. follow repr (v # vs) rq = Inr (take (Suc (length vs) * page_limit rq) (remaining st cur), k) \<and>
    (k = None \<longleftrightarrow> length (remaining st cur) \<le> Suc (length vs) * page_limit rq)"
  using assms
proof (induction vs arbitrary: v rq cur)
  case (Nil v rq cur)
  obtain be budget where v: "v = (be, budget)" by force
  obtain nxt where "read_page repr be budget rq =
      Inr \<lparr>pg_memories = take (page_limit rq) (remaining st cur),
           pg_next_cursor = map_option (\<lambda>cur'. encode_universal_list_cursor (be_env be) (be_epoch be) (authorise rq cur') secret None None) nxt,
           pg_truncated = False\<rparr>"
    "case nxt of None \<Rightarrow> drop (page_limit rq) (remaining st cur) = [] | Some cur' \<Rightarrow> drop (page_limit rq) (remaining st cur) \<noteq> []"
    using read_page_law [of be secret repr rq cur K st budget] Nil.prems(4,6,7) v
    by (fastforce simp: visit_ok_def split: option.splits)
  then show ?case using v by (cases nxt) simp_all
next
  case (Cons v' vs v rq cur)
  obtain be budget where v: "v = (be, budget)" by force
  let ?L = "page_limit rq" and ?T = "remaining st cur"
  obtain nxt where pg: "read_page repr be budget rq =
      Inr \<lparr>pg_memories = take ?L ?T,
           pg_next_cursor = map_option (\<lambda>cur'. encode_universal_list_cursor (be_env be) (be_epoch be) (authorise rq cur') secret None None) nxt,
           pg_truncated = False\<rparr>"
    and nxt: "case nxt of
       None \<Rightarrow> drop ?L ?T = []
     | Some cur' \<Rightarrow> drop ?L ?T \<noteq> [] \<and> resumable be K (page_reader be rq) st cur' \<and> remaining st cur' = drop ?L ?T"
    using read_page_law [of be secret repr rq cur K st budget] Cons.prems(4,6,7) v by (auto simp: visit_ok_def)
  show ?case
  proof (cases nxt)
    case None
    then show ?thesis using pg nxt v by simp
  next
    case (Some cur')
    let ?c = "encode_universal_list_cursor (be_env be) (be_epoch be) (authorise rq cur') secret None None"
    let ?rq = "rq\<lparr>pr_cursor := Some ?c\<rparr>"
    have res: "resumable be K (page_reader be rq) st cur'" "remaining st cur' = drop ?L ?T"
      using nxt Some by simp_all
    have "starts_at repr (fst v') secret ?rq (authorise rq cur')"
      using cursor_state_ok_next [OF res(1) Cons.prems(1-3)] Cons.prems(5) v by (intro next_starts_at) simp_all
    moreover have "resumable (fst v') K (page_reader (fst v') ?rq) st (authorise rq cur')"
      using resumable_transfer [OF res(1)] Cons.prems(4) by (simp add: visit_ok_def)
    ultimately obtain k where "follow repr (v' # vs) ?rq = Inr (take (Suc (length vs) * ?L) (drop ?L ?T), k)"
      "k = None \<longleftrightarrow> length (drop ?L ?T) \<le> Suc (length vs) * ?L"
      using Cons.IH [of ?rq v' "authorise rq cur'"] Cons.prems(1-5) res(2) by (auto simp: list_all_iff)
    then show ?thesis
      using pg Some v by (auto simp: take_add [symmetric])
  qed
qed

end
