(* ===== verification/Memory_Serving.thy ===== *)
theory Memory_Serving
  imports Memory_Paging
begin

text \<open>
  The loaders of the memory list over fixed documents. What the document store answers is stated as it
  documents it: a query returns the first documents after its cursor in its order, a batched read
  returns the documents that exist. From that the scans serve the rows these documents make, which is
  what the streams rely on, and a client that follows the cursors is given the whole list.
\<close>

section \<open>The documents\<close>

record memory_docs =
  md_hist :: "scan_kind \<Rightarrow> hist_doc list"
  md_canon :: "canon_doc list"
  md_docs :: "string \<Rightarrow> json option"
  md_visible :: "scan_policy \<Rightarrow> canon_doc \<Rightarrow> bool"
  md_suppressed :: "scan_policy \<Rightarrow> canon_doc \<Rightarrow> bool"

definition cursor_key :: "scan_cursor \<Rightarrow> int \<times> string" where
  "cursor_key c = (- fst c, snd c)"

definition scan_after :: "('d \<Rightarrow> scan_cursor) \<Rightarrow> scan_cursor option \<Rightarrow> 'd list \<Rightarrow> 'd list" where
  "scan_after key start docs =
     (case start of None \<Rightarrow> docs | Some c \<Rightarrow> filter (\<lambda>d. cursor_key c < cursor_key (key d)) docs)"

definition hist_key :: "scan_kind \<Rightarrow> hist_doc \<Rightarrow> scan_cursor" where
  "hist_key kind d = (order_time kind d, hd_id d)"

definition canon_key :: "canon_doc \<Rightarrow> scan_cursor" where
  "canon_key d = (case cd_updated_at d of None \<Rightarrow> 0 | Some t \<Rightarrow> t, cd_id d)"

text \<open>Deciding whether an item is superseded within its lineage takes at most \<open>S\<close> documents.\<close>

definition backend_serves :: "backend \<Rightarrow> memory_docs \<Rightarrow> nat \<Rightarrow> bool" where
  "backend_serves be md S \<longleftrightarrow>
     (\<forall>call kind start limit. be_hist be call kind start limit = Inr (take limit (scan_after (hist_key kind) start (md_hist md kind)))) \<and>
     (\<forall>call start limit. be_canon be call start limit = Inr (take limit (scan_after canon_key start (md_canon md)))) \<and>
     (\<forall>call. \<exists>get_all. be_get_all be call = Some get_all \<and> serves_docs (md_docs md) get_all) \<and>
     be_visible be = md_visible md \<and>
     (\<forall>call pol d budget. budget_has be budget (int S) \<longrightarrow>
        (\<exists>budget'. be_suppressed be call pol d budget = (Inr (md_suppressed md pol d), budget') \<and>
           (\<forall>x. budget_has be budget (int S + x) \<longrightarrow> budget_has be budget' x)))"

text \<open>The documents of a scan are in its order, dated after the epoch, under ids that are not blank.\<close>

definition scan_ok :: "('d \<Rightarrow> scan_cursor) \<Rightarrow> 'd list \<Rightarrow> bool" where
  "scan_ok key docs \<longleftrightarrow>
     sorted_wrt (\<lambda>d d'. cursor_key (key d) < cursor_key (key d')) docs \<and>
     (\<forall>d \<in> set docs. 0 \<le> fst (key d) \<and> \<not> blank_text (snd (key d)) \<and> valid_utf8 (snd (key d)))"

definition docs_ok :: "string \<Rightarrow> memory_docs \<Rightarrow> bool" where
  "docs_ok uid md \<longleftrightarrow>
     scan_ok (hist_key Updated_Scan) (md_hist md Updated_Scan) \<and> scan_ok (hist_key Created_Scan) (md_hist md Created_Scan) \<and>
     scan_ok canon_key (md_canon md) \<and>
     (\<forall>d \<in> set (md_canon md). \<forall>item. cd_item d = Some item \<longrightarrow>
        ci_uid item = uid \<and> (ci_memory_id item = cd_id d \<longrightarrow> memory_keyset (ci_memory item) = scan_cursor_to_stream_keyset (canon_key d))) \<and>
     (\<forall>kind. \<forall>d \<in> set (md_hist md kind). authority_ok (md_docs md) uid (hd_id d))"

section \<open>Their rows\<close>

definition hist_slot :: "device_request option \<Rightarrow> scan_kind \<Rightarrow> hist_doc \<Rightarrow> memory option" where
  "hist_slot req kind d = fst (adapt_slot req (kind = Created_Scan) (d, hist_key kind d))"

definition canon_slot :: "memory_docs \<Rightarrow> scan_policy \<Rightarrow> canon_doc \<Rightarrow> memory option" where
  "canon_slot md pol d =
     (case cd_item d of
        None \<Rightarrow> None
      | Some item \<Rightarrow>
          if ci_memory_id item = cd_id d \<and> md_visible md pol d \<and> \<not> md_suppressed md pol d then Some (ci_memory item) else None)"

definition doc_rows :: "('d \<Rightarrow> memory option) \<Rightarrow> ('d \<Rightarrow> scan_cursor) \<Rightarrow> 'd list \<Rightarrow> scan_row list" where
  "doc_rows f key docs = keyed (map (\<lambda>d. (f d, key d)) docs)"

text \<open>The policy the canonical stream reads with.\<close>

definition list_policy :: "page_request \<Rightarrow> scan_policy" where
  "list_policy rq = \<lparr>sp_include_pending = pr_include_pending rq, sp_include_archive = False, sp_device = pr_device rq\<rparr>"

definition store_of :: "memory_docs \<Rightarrow> page_request \<Rightarrow> memory_store" where
  "store_of md rq =
     \<lparr>ms_canonical = doc_rows (canon_slot md (list_policy rq)) canon_key (md_canon md),
      ms_updated = doc_rows (hist_slot (pr_device rq) Updated_Scan) (hist_key Updated_Scan) (md_hist md Updated_Scan),
      ms_created = doc_rows (hist_slot (pr_device rq) Created_Scan) (hist_key Created_Scan) (md_hist md Created_Scan),
      ms_authority = authority (md_docs md) (pr_uid rq)\<rparr>"

lemma doc_rows_map:
  "doc_rows f key docs = map (\<lambda>d. (map_option truncate_locked_memory_preview (f d), scan_cursor_to_stream_keyset (key d))) docs"
  by (simp add: doc_rows_def keyed_def)

lemma truncate_preview [simp]:
  "m_id (truncate_locked_memory_preview m) = m_id m" "memory_keyset (truncate_locked_memory_preview m) = memory_keyset m"
  by (simp_all add: truncate_locked_memory_preview_def memory_keyset_def split: option.split)

lemma scan_key:
  assumes "0 \<le> fst c"
  shows "keyset_sort_key (scan_cursor_to_stream_keyset c) = cursor_key c"
    "stream_keyset_to_scan_cursor (scan_cursor_to_stream_keyset c) = c"
  using assms by (cases c; simp add: keyset_sort_key_def scan_cursor_to_stream_keyset_def cursor_key_def stream_keyset_to_scan_cursor_def)+

lemma doc_rows_sorted:
  assumes "scan_ok key docs"
  shows "sorted_wrt (\<lambda>r r'. row_key r < row_key r') (doc_rows f key docs)"
proof -
  have "sorted_wrt (\<lambda>d d'. keyset_sort_key (scan_cursor_to_stream_keyset (key d)) < keyset_sort_key (scan_cursor_to_stream_keyset (key d'))) docs"
    using assms unfolding scan_ok_def by (auto simp: scan_key intro: sorted_wrt_mono_rel [rotated])
  then show ?thesis by (simp add: doc_rows_map sorted_wrt_map)
qed

text \<open>A scan from a row is the query from its cursor.\<close>

lemma doc_rows_after:
  assumes "scan_ok key docs" "scan \<in> insert None (Some ` snd ` set (doc_rows f key docs))"
  shows "rows_after scan (doc_rows f key docs) = doc_rows f key (scan_after key (map_option stream_keyset_to_scan_cursor scan) docs)"
    and "\<forall>c. map_option stream_keyset_to_scan_cursor scan = Some c \<longrightarrow> \<not> blank_text (snd c)"
proof -
  have keys: "0 \<le> fst (key d)" "\<not> blank_text (snd (key d))" if "d \<in> set docs" for d
    using assms(1) that by (auto simp: scan_ok_def)
  show "rows_after scan (doc_rows f key docs) = doc_rows f key (scan_after key (map_option stream_keyset_to_scan_cursor scan) docs)"
  proof (cases scan)
    case (Some ks)
    then obtain d where "d \<in> set docs" "ks = scan_cursor_to_stream_keyset (key d)"
      using assms(2) by (auto simp: doc_rows_map)
    then have "stream_keyset_to_scan_cursor ks = key d" "keyset_sort_key ks = cursor_key (key d)"
      by (simp_all add: scan_key keys)
    then show ?thesis
      using Some keys by (auto simp: rows_after_def scan_after_def doc_rows_map filter_map comp_def scan_key intro!: arg_cong [of _ _ "map _"] filter_cong)
  qed (simp add: rows_after_def scan_after_def)
  show "\<forall>c. map_option stream_keyset_to_scan_cursor scan = Some c \<longrightarrow> \<not> blank_text (snd c)"
    using assms(2) keys by (fastforce simp: doc_rows_map scan_key)
qed

lemma take_doc_rows: "take n (doc_rows f key docs) = doc_rows f key (take n docs)" "length (doc_rows f key docs) = length docs"
  by (simp_all add: doc_rows_map take_map)

lemma scan_after_subset: "set (scan_after key start docs) \<subseteq> set docs"
  by (auto simp: scan_after_def split: option.splits)

section \<open>Budgets\<close>

text \<open>A call that returns \<open>n\<close> documents is served and paid for.\<close>

lemma budgeted_has:
  assumes "\<forall>t. answer t = Inr r" "weight r = Some (int n)" "n \<le> N" "budget_has be budget (int N)"
  shows "\<exists>budget'. budgeted_call weight (be_time be c i) (be_time be c j) answer budget = (Inr r, budget') \<and>
    (\<forall>x. budget_has be budget (int N + x) \<longrightarrow> budget_has be budget' x)"
proof (cases budget)
  case None
  then show ?thesis using assms(1) by (simp add: budgeted_call_def budget_has_def)
next
  case (Some b)
  have b: "lb_exhaustion b = None" "int N \<le> lb_remaining b" "be_time be c k + LIST_READ_MIN_RPC_SECONDS < lb_deadline b" for k
    using assms(4) Some by (auto simp: budget_has_def)
  have rpc: "rpc_timeout (be_time be c i) b = (Inr (remaining_seconds (be_time be c i) b), b)"
    using b(3) [of i] by (simp add: rpc_timeout_def remaining_seconds_def Let_def)
  let ?b = "if n = 0 then b else b\<lparr>lb_scanned := lb_scanned b + int n, lb_remaining := lb_remaining b - int n\<rparr>"
  have "be_time be c j < lb_deadline b"
    using b(3) [of j] by (simp add: LIST_READ_MIN_RPC_SECONDS_def)
  then have "budget_charge (be_time be c j) (int n) b = (Inr (), ?b)"
    using b(1,2) assms(3) by (simp add: budget_charge_def budget_check_def)
  then have "budgeted_call weight (be_time be c i) (be_time be c j) answer budget = (Inr r, Some ?b)"
    using rpc assms(1,2) Some by (simp add: budgeted_call_def)
  moreover have "budget_has be (Some ?b) x" if "budget_has be budget (int N + x)" for x
    using that Some assms(3) b(2) by (simp add: budget_has_def)
  ultimately show ?thesis by blast
qed

lemma statuses_has:
  assumes "serves_docs docs get_all" "\<forall>mid \<in> set mids. authority_ok docs uid mid \<and> mid \<noteq> ''''" "length mids \<le> 50"
    "budget_has be budget 100"
  shows "\<exists>m budget'. canonical_statuses env validate db (\<lambda>n. be_time be c (n + 2)) (Some get_all) uid mids budget = (Inr m, budget') \<and>
    (\<forall>mid \<in> set mids. m mid = authority docs uid mid) \<and> (\<forall>x. budget_has be budget (100 + x) \<longrightarrow> budget_has be budget' x)"
proof (cases "normalized_ids mids = []")
  case True
  then have "mids = []"
    using set_normalized_ids [of mids] assms(2) by (cases mids) auto
  then show ?thesis
    using True by (auto simp: canonical_statuses_def intro: budget_has_le)
next
  case False
  let ?ids = "normalized_ids mids"
  have ids: "set ?ids = set mids" "distinct ?ids"
    using set_normalized_ids [of mids] assms(2) by (auto simp: normalized_ids_def)
  have len: "length ?ids \<le> 50"
    using assms(3) distinct_card [OF ids(2)] ids(1) card_length [of mids] by simp
  then have chunks: "read_chunks 100 ?ids = [?ids]"
    using False by (subst read_chunks.simps) (subst read_chunks.simps, simp)
  obtain ss where ss: "get_all (batch_refs uid ?ids) = Inr ss" "length ss \<le> length (batch_refs uid ?ids)"
    "ss \<noteq> [] \<longrightarrow> index_snapshots ss [] \<noteq> []"
    "\<And>p. p \<in> set (batch_refs uid ?ids) \<Longrightarrow> (case map_of (index_snapshots ss []) p of None \<Rightarrow> None | Some d \<Rightarrow> d) = docs p"
    using served_index [OF assms(1) distinct_batch_refs [OF ids(2)]] by metis
  have "chunk_statuses (canonical_status env validate db uid) (index_snapshots ss []) uid ?ids Map.empty =
      Inr (\<lambda>mid. if mid \<in> set ?ids \<and> authority docs uid mid \<noteq> None then authority docs uid mid else None)"
    using ss(4) assms(2) ids(1) chunk_statuses_served [of uid ?ids "index_snapshots ss []" docs _ Map.empty] by simp
  moreover obtain budget' where "budgeted_get_all (be_time be c 2) (be_time be c 3) (\<lambda>_. get_all (batch_refs uid ?ids)) budget = (Inr ss, budget')"
    "\<forall>x. budget_has be budget (100 + x) \<longrightarrow> budget_has be budget' x"
    using budgeted_has [of "\<lambda>_. get_all (batch_refs uid ?ids)" ss "\<lambda>ss. Some (int (length ss))" "length ss" 100 be budget c 2 3]
      ss(1,2) len assms(4) by (auto simp: budgeted_get_all_def batch_refs_def)
  ultimately show ?thesis
    using False chunks ss(3) ids(1) by (auto simp: canonical_statuses_def numeral_2_eq_2 numeral_3_eq_3 Let_def)
qed

section \<open>The loaders\<close>

lemma scan_servedI:
  assumes "0 \<le> K" "sorted_wrt (\<lambda>r r'. row_key r < row_key r') rows"
    and "\<And>call scan budget. scan \<in> insert None (Some ` snd ` set rows) \<Longrightarrow> budget_has be budget K \<Longrightarrow>
      \<exists>sts budget'. load call (map_option stream_keyset_to_scan_cursor scan) budget =
           (Inr (take MEMORY_LIST_SCAN_CHUNK_SIZE (rows_after scan rows), length (rows_after scan rows) < MEMORY_LIST_SCAN_CHUNK_SIZE, sts), budget') \<and>
         (\<forall>d. budget_has be budget (K + d) \<longrightarrow> budget_has be budget' d) \<and>
         (\<forall>m ks. (Some m, ks) \<in> set (take MEMORY_LIST_SCAN_CHUNK_SIZE (rows_after scan rows)) \<longrightarrow> sts (m_id m) = auth (m_id m))"
  shows "scan_served be K load rows auth"
  unfolding scan_served_def using assms by (intro conjI allI impI) simp_all

lemma canonical_slots_has:
  assumes serves: "backend_serves be md S"
    and "\<forall>d \<in> set docs. \<not> blank_text (cd_id d) \<and> (\<forall>item. cd_item d = Some item \<longrightarrow> ci_uid item = uid)"
    and "budget_has be budget (int (S * length docs))"
  shows "\<exists>budget'. canonical_slots be call uid pol docs budget = (Inr (map (\<lambda>d. (canon_slot md pol d, canon_key d)) docs), budget') \<and>
    (\<forall>x. budget_has be budget (int (S * length docs) + x) \<longrightarrow> budget_has be budget' x)"
  using assms(2-)
proof (induction docs arbitrary: budget)
  case (Cons d docs)
  have IH: "\<exists>b'. canonical_slots be call uid pol docs b = (Inr (map (\<lambda>d. (canon_slot md pol d, canon_key d)) docs), b') \<and>
      (\<forall>x. budget_has be b (int (S * length docs) + x) \<longrightarrow> budget_has be b' x)"
    if "budget_has be b (int (S * length docs))" for b
    using Cons that by simp
  have vis: "be_visible be = md_visible md"
    using serves by (simp add: backend_serves_def)
  have all: "int (S * length (d # docs)) = int S + int (S * length docs)"
    by simp
  have d: "\<not> blank_text (cd_id d)" "\<And>item. cd_item d = Some item \<Longrightarrow> ci_uid item = uid"
    using Cons.prems(1) by auto
  show ?case
  proof (cases "\<exists>item. cd_item d = Some item \<and> ci_memory_id item = cd_id d \<and> md_visible md pol d")
    case False
    have "budget_has be budget (int (S * length docs))"
      using Cons.prems(2) by (rule budget_has_le) simp
    from IH [OF this] obtain b' where b': "canonical_slots be call uid pol docs budget = (Inr (map (\<lambda>d. (canon_slot md pol d, canon_key d)) docs), b')"
      "\<forall>x. budget_has be budget (int (S * length docs) + x) \<longrightarrow> budget_has be b' x"
      by blast
    have "budget_has be b' x" if "budget_has be budget (int (S * length (d # docs)) + x)" for x
      using b'(2) budget_has_le [OF that, of "int (S * length docs) + x"] by simp
    then show ?thesis
      using b'(1) False d vis by (auto simp: canon_slot_def canon_key_def Let_def split: option.splits)
  next
    case True
    then obtain item where item: "cd_item d = Some item" "ci_memory_id item = cd_id d" "md_visible md pol d"
      by blast
    have "budget_has be budget (int S)"
      using Cons.prems(2) by (rule budget_has_le) simp
    then obtain b1 where b1: "be_suppressed be call pol d budget = (Inr (md_suppressed md pol d), b1)"
      "\<forall>x. budget_has be budget (int S + x) \<longrightarrow> budget_has be b1 x"
      using serves unfolding backend_serves_def by blast
    then have "budget_has be b1 (int (S * length docs))"
      using Cons.prems(2) unfolding all by blast
    from IH [OF this] obtain b' where b': "canonical_slots be call uid pol docs b1 = (Inr (map (\<lambda>d. (canon_slot md pol d, canon_key d)) docs), b')"
      "\<forall>x. budget_has be b1 (int (S * length docs) + x) \<longrightarrow> budget_has be b' x"
      by blast
    have "budget_has be b' x" if "budget_has be budget (int (S * length (d # docs)) + x)" for x
      using that b1(2) b'(2) unfolding all add.assoc by blast
    then show ?thesis
      using b1(1) b'(1) item d vis by (cases "md_suppressed md pol d") (auto simp: canon_slot_def canon_key_def Let_def)
  qed
qed (simp add: budget_has_le)

lemma load_canonical_served:
  assumes serves: "backend_serves be md S" and "scan_ok canon_key (md_canon md)"
    and uids: "\<forall>d \<in> set (md_canon md). \<forall>item. cd_item d = Some item \<longrightarrow> ci_uid item = uid"
    and K: "50 + S * 50 \<le> K"
  shows "scan_served be (int K) (load_canonical be uid pol)
    (doc_rows (canon_slot md (pol\<lparr>sp_include_archive := False\<rparr>)) canon_key (md_canon md)) Map.empty"
proof -
  let ?pol = "pol\<lparr>sp_include_archive := False\<rparr>"
  let ?rows = "doc_rows (canon_slot md ?pol) canon_key (md_canon md)"
  have "\<exists>budget'. load_canonical be uid pol call (map_option stream_keyset_to_scan_cursor scan) budget =
      (Inr (take 50 (rows_after scan ?rows), length (rows_after scan ?rows) < 50, Map.empty), budget') \<and>
      (\<forall>x. budget_has be budget (int K + x) \<longrightarrow> budget_has be budget' x)"
    if scan: "scan \<in> insert None (Some ` snd ` set ?rows)" and has: "budget_has be budget (int K)" for call scan budget
  proof -
    define start where "start = map_option stream_keyset_to_scan_cursor scan"
    have nonblank: "(case start of Some c \<Rightarrow> blank_text (snd c) | None \<Rightarrow> False) = False"
      using doc_rows_after(2) [OF assms(2) scan] unfolding start_def [symmetric] by (cases start) auto
    let ?after = "scan_after canon_key start (md_canon md)"
    let ?docs = "take 50 ?after"
    have answer: "be_canon be call start 50 = Inr ?docs"
      using serves by (simp add: backend_serves_def)
    have "budget_has be budget (int 50)"
      using has K by (auto intro: budget_has_le)
    then obtain b1 where b1: "budgeted_stream_list (be_time be call 0) (be_time be call 1) (\<lambda>_. be_canon be call start 50) budget = (Inr ?docs, b1)"
      "\<forall>x. budget_has be budget (int 50 + x) \<longrightarrow> budget_has be b1 x"
      using budgeted_has [of "\<lambda>_. be_canon be call start 50" ?docs "\<lambda>ds. Some (int (length ds))" "length ?docs" 50 be budget call 0 1] answer
      by (auto simp: budgeted_stream_list_def)
    have sub: "set ?docs \<subseteq> set (md_canon md)"
      using set_take_subset [of 50 ?after] scan_after_subset [of canon_key start "md_canon md"] by blast
    have items: "\<forall>d \<in> set ?docs. \<not> blank_text (cd_id d) \<and> (\<forall>item. cd_item d = Some item \<longrightarrow> ci_uid item = uid)"
    proof
      fix d
      assume "d \<in> set ?docs"
      then have "d \<in> set (md_canon md)" using sub by blast
      then show "\<not> blank_text (cd_id d) \<and> (\<forall>item. cd_item d = Some item \<longrightarrow> ci_uid item = uid)"
        using uids assms(2) by (auto simp: scan_ok_def canon_key_def)
    qed
    have len: "S * length ?docs \<le> S * 50" by (intro mult_le_mono2) simp
    have "budget_has be budget (int 50 + int (S * 50))"
      using has by (rule budget_has_le) (use K in linarith)
    then have "budget_has be b1 (int (S * 50))"
      using b1(2) by blast
    then have "budget_has be b1 (int (S * length ?docs))"
      by (rule budget_has_le) (use len in linarith)
    then obtain b2 where b2: "canonical_slots be call uid ?pol ?docs b1 = (Inr (map (\<lambda>d. (canon_slot md ?pol d, canon_key d)) ?docs), b2)"
      "\<forall>x. budget_has be b1 (int (S * length ?docs) + x) \<longrightarrow> budget_has be b2 x"
      using canonical_slots_has [OF serves items] by blast
    have "budget_has be b2 x" if "budget_has be budget (int K + x)" for x
    proof -
      have "int 50 + (int (S * length ?docs) + x) \<le> int K + x"
        using len K by linarith
      then show ?thesis using that b1(2) b2(2) by (meson budget_has_le)
    qed
    moreover have "load_canonical be uid pol call start budget =
        (Inr (keyed (map (\<lambda>d. (canon_slot md ?pol d, canon_key d)) ?docs), length ?docs < 50, Map.empty), b2)"
      using b1(1) b2(1) nonblank
      by (simp add: load_canonical_def read_canonical_scan_page_def MEMORY_LIST_SCAN_CHUNK_SIZE_def)
    moreover have "length ?docs < 50 \<longleftrightarrow> length ?after < 50" by auto
    ultimately show ?thesis
      unfolding doc_rows_after(1) [OF assms(2) scan] take_doc_rows start_def [symmetric] by (simp add: doc_rows_def)
  qed
  note served = this
  show ?thesis
  proof (rule scan_servedI)
    show "sorted_wrt (\<lambda>r r'. row_key r < row_key r') ?rows" by (rule doc_rows_sorted [OF assms(2)])
    fix call scan budget
    assume "scan \<in> insert None (Some ` snd ` set ?rows)" "budget_has be budget (int K)"
    from served [OF this, of call] show "\<exists>sts budget'. load_canonical be uid pol call (map_option stream_keyset_to_scan_cursor scan) budget =
        (Inr (take MEMORY_LIST_SCAN_CHUNK_SIZE (rows_after scan ?rows), length (rows_after scan ?rows) < MEMORY_LIST_SCAN_CHUNK_SIZE, sts), budget') \<and>
        (\<forall>d. budget_has be budget (int K + d) \<longrightarrow> budget_has be budget' d) \<and>
        (\<forall>m ks. (Some m, ks) \<in> set (take MEMORY_LIST_SCAN_CHUNK_SIZE (rows_after scan ?rows)) \<longrightarrow> sts (m_id m) = Map.empty (m_id m))"
      unfolding MEMORY_LIST_SCAN_CHUNK_SIZE_def by (elim exE) (rule exI [of _ Map.empty], simp)
  qed simp
qed

lemma adapt_slot_id:
  assumes "hist_slot req kind d = Some m"
  shows "m_id m = hd_id d"
  using assms by (auto simp: hist_slot_def adapt_slot_def adapt_def split: if_splits option.splits)

lemma adapt_slot_eq: "adapt_slot req (kind = Created_Scan) (d, hist_key kind d) = (hist_slot req kind d, hist_key kind d)"
  by (auto simp: hist_slot_def adapt_slot_def split: option.splits)

lemma set_some_ids: "set [m_id m. Some m \<leftarrow> xs] = {m_id m |m. Some m \<in> set xs}"
  by (induction xs) (auto split: option.splits)

lemma length_some_ids: "length [m_id m. Some m \<leftarrow> xs] \<le> length xs"
  by (induction xs) (auto split: option.splits)

lemma load_historical_eq:
  assumes "read_hist_scan_page be call kind req (int 50) start budget = (Inr (slots, ex), b1)" "mids = [m_id m. Some m \<leftarrow> map fst slots]"
    "be_get_all be call = batch"
    "canonical_statuses (be_env be) (be_validate be) (be_db be call) (\<lambda>n. be_time be call (n + 2)) batch uid mids b1 = (Inr sts, b2)"
  shows "load_historical be uid req kind call start budget =
    (Inr (keyed slots, ex, if mids = [] then Map.empty else sts), if mids = [] then b1 else b2)"
proof -
  have "load_historical be uid req kind call start budget =
      (case (case mids of [] \<Rightarrow> (Inr Map.empty, b1)
             | visible_ids \<Rightarrow> canonical_statuses (be_env be) (be_validate be) (be_db be call) (\<lambda>n. be_time be call (n + 2)) batch uid visible_ids b1) of
         (Inl e, b') \<Rightarrow> (Inl e, b') | (Inr statuses, b') \<Rightarrow> (Inr (keyed slots, ex, statuses), b'))"
    unfolding load_historical_def MEMORY_LIST_SCAN_CHUNK_SIZE_def assms(1,3) by (simp add: assms(2))
  then show ?thesis using assms(4) by (cases mids) simp_all
qed

lemma load_historical_served:
  assumes serves: "backend_serves be md S" and ok: "scan_ok (hist_key kind) (md_hist md kind)"
    and auth: "\<forall>d \<in> set (md_hist md kind). authority_ok (md_docs md) uid (hd_id d)"
    and K: "150 \<le> K"
  shows "scan_served be (int K) (load_historical be uid req kind)
    (doc_rows (hist_slot req kind) (hist_key kind) (md_hist md kind)) (authority (md_docs md) uid)"
proof -
  let ?rows = "doc_rows (hist_slot req kind) (hist_key kind) (md_hist md kind)"
  have "\<exists>sts budget'. load_historical be uid req kind call (map_option stream_keyset_to_scan_cursor scan) budget =
      (Inr (take 50 (rows_after scan ?rows), length (rows_after scan ?rows) < 50, sts), budget') \<and>
      (\<forall>x. budget_has be budget (int K + x) \<longrightarrow> budget_has be budget' x) \<and>
      (\<forall>m ks. (Some m, ks) \<in> set (take 50 (rows_after scan ?rows)) \<longrightarrow> sts (m_id m) = authority (md_docs md) uid (m_id m))"
    if scan: "scan \<in> insert None (Some ` snd ` set ?rows)" and has: "budget_has be budget (int K)" for call scan budget
  proof -
    define start where "start = map_option stream_keyset_to_scan_cursor scan"
    have nonblank: "(case start of Some c \<Rightarrow> blank_text (snd c) | None \<Rightarrow> False) = False"
      using doc_rows_after(2) [OF ok scan] unfolding start_def [symmetric] by (cases start) auto
    let ?after = "scan_after (hist_key kind) start (md_hist md kind)"
    let ?docs = "take 50 ?after"
    obtain get_all where get_all: "be_get_all be call = Some get_all" "serves_docs (md_docs md) get_all"
      and answer: "be_hist be call kind start 50 = Inr ?docs"
      using serves unfolding backend_serves_def by blast
    have "budget_has be budget (int 50)"
      using has K by (auto intro: budget_has_le)
    then obtain b1 where b1: "budgeted_stream_list (be_time be call 0) (be_time be call 1) (\<lambda>_. be_hist be call kind start 50) budget = (Inr ?docs, b1)"
      "\<forall>x. budget_has be budget (int 50 + x) \<longrightarrow> budget_has be b1 x"
      using budgeted_has [of "\<lambda>_. be_hist be call kind start 50" ?docs "\<lambda>ds. Some (int (length ds))" "length ?docs" 50 be budget call 0 1] answer
      by (auto simp: budgeted_stream_list_def)
    have sub: "set ?docs \<subseteq> set (md_hist md kind)"
      using set_take_subset [of 50 ?after] scan_after_subset [of "hist_key kind" start "md_hist md kind"] by blast
    then have ids: "\<not> blank_text (hd_id d)" if "d \<in> set ?docs" for d
      using that ok by (auto simp: scan_ok_def hist_key_def)
    let ?slots = "map (\<lambda>d. (hist_slot req kind d, hist_key kind d)) ?docs"
    have page: "read_hist_scan_page be call kind req (int 50) start budget = (Inr (?slots, length ?docs < 50), b1)"
      using b1(1) nonblank ids
      by (simp add: read_hist_scan_page_def historical_scan_page_def HISTORICAL_SCAN_PAGE_MAX_def
          hist_key_def [symmetric] adapt_slot_eq comp_def filter_id_conv)
    let ?mids = "[m_id m. Some m \<leftarrow> map fst ?slots]"
    have mids: "mid \<in> set ?mids \<longleftrightarrow> (\<exists>d m. d \<in> set ?docs \<and> hist_slot req kind d = Some m \<and> mid = m_id m)" for mid
      unfolding set_some_ids by (auto simp: image_iff) (metis+)
    have len: "length ?mids \<le> 50"
      by (rule order_trans [OF length_some_ids]) simp
    have auths: "\<forall>mid \<in> set ?mids. authority_ok (md_docs md) uid mid \<and> mid \<noteq> ''''"
      using mids adapt_slot_id auth sub ids by (fastforce simp: blank_text_def)
    have "budget_has be budget (int 50 + 100)"
      using has by (rule budget_has_le) (use K in linarith)
    then have has1: "budget_has be b1 100"
      using b1(2) by blast
    obtain sts b2 where b2: "canonical_statuses (be_env be) (be_validate be) (be_db be call) (\<lambda>n. be_time be call (n + 2))
        (Some get_all) uid ?mids b1 = (Inr sts, b2)" "\<forall>mid \<in> set ?mids. sts mid = authority (md_docs md) uid mid"
      "\<forall>x. budget_has be b1 (100 + x) \<longrightarrow> budget_has be b2 x"
      using statuses_has [OF get_all(2) auths len has1] by blast
    have paid: "budget_has be b2 x \<and> budget_has be b1 x" if "budget_has be budget (int K + x)" for x
    proof -
      have "int 50 + (100 + x) \<le> int K + x" "100 + x \<ge> x" using K by linarith+
      then show ?thesis using that b1(2) b2(3) by (meson budget_has_le)
    qed
    have loaded: "load_historical be uid req kind call start budget =
        (Inr (keyed ?slots, length ?docs < 50, if ?mids = [] then Map.empty else sts), if ?mids = [] then b1 else b2)"
      using load_historical_eq [OF page refl get_all(1) b2(1)] .
    have known: "(if ?mids = [] then Map.empty else sts) (m_id m) = authority (md_docs md) uid (m_id m)" if row: "(Some m, ks) \<in> set (keyed ?slots)" for m ks
    proof -
      obtain d m0 where "d \<in> set ?docs" "hist_slot req kind d = Some m0" "m = truncate_locked_memory_preview m0"
        using row by (auto simp: keyed_def dest!: sym [of "Some m"])
      then have mid: "m_id m \<in> set ?mids" unfolding mids by auto
      then have "?mids \<noteq> []" by (metis empty_iff empty_set)
      then have "(if ?mids = [] then Map.empty else sts) = sts" by (rule if_not_P)
      then show ?thesis using bspec [OF b2(2) mid] by (simp only:)
    qed
    have "length ?docs < 50 \<longleftrightarrow> length ?after < 50" by auto
    then have loaded2: "load_historical be uid req kind call start budget =
        (Inr (keyed ?slots, length ?after < 50, if ?mids = [] then Map.empty else sts), if ?mids = [] then b1 else b2)"
      using loaded by simp
    show ?thesis
      unfolding doc_rows_after(1) [OF ok scan] take_doc_rows start_def [symmetric]
      unfolding doc_rows_def
    proof (intro exI conjI)
      show "load_historical be uid req kind call start budget =
          (Inr (keyed ?slots, length ?after < 50, if ?mids = [] then Map.empty else sts), if ?mids = [] then b1 else b2)"
        by (rule loaded2)
      show "\<forall>x. budget_has be budget (int K + x) \<longrightarrow> budget_has be (if ?mids = [] then b1 else b2) x"
        using paid by simp
      show "\<forall>m ks. (Some m, ks) \<in> set (keyed ?slots) \<longrightarrow>
          (if ?mids = [] then Map.empty else sts) (m_id m) = authority (md_docs md) uid (m_id m)"
        using known by blast
    qed
  qed
  then show ?thesis
    by (intro scan_servedI doc_rows_sorted [OF ok]) (simp_all add: MEMORY_LIST_SCAN_CHUNK_SIZE_def)
qed

lemma backend_serves_store:
  assumes serves: "backend_serves be md S" and ok: "docs_ok (pr_uid rq) md"
  shows "store_served be (150 + S * 50) (page_reader be rq) (store_of md rq)"
proof -
  let ?K = "150 + S * 50"
  let ?pol = "\<lparr>sp_include_pending = pr_include_pending rq, sp_include_archive = pr_include_archive rq, sp_device = pr_device rq\<rparr>"
  have scans: "scan_ok canon_key (md_canon md)" "scan_ok (hist_key kind) (md_hist md kind)"
    "\<forall>d \<in> set (md_canon md). \<forall>item. cd_item d = Some item \<longrightarrow> ci_uid item = pr_uid rq"
    "\<forall>d \<in> set (md_hist md kind). authority_ok (md_docs md) (pr_uid rq) (hd_id d)" for kind
    using ok by (cases kind; auto simp: docs_ok_def)+
  have "?pol\<lparr>sp_include_archive := False\<rparr> = list_policy rq"
    by (simp add: list_policy_def)
  then have "scan_served be (int ?K) (rd_canonical (page_reader be rq)) (ms_canonical (store_of md rq)) Map.empty"
    using load_canonical_served [OF serves scans(1,3), of ?K ?pol] by (simp add: page_reader_def store_of_def)
  moreover have "scan_served be (int ?K) (rd_updated (page_reader be rq)) (ms_updated (store_of md rq)) (ms_authority (store_of md rq))"
    "scan_served be (int ?K) (rd_created (page_reader be rq)) (ms_created (store_of md rq)) (ms_authority (store_of md rq))"
    using load_historical_served [OF serves scans(2,4), of ?K] by (simp_all add: page_reader_def store_of_def)
  moreover have "memory_keyset m = ks" if row: "(Some m, ks) \<in> set (ms_canonical (store_of md rq))" for m ks
    using row ok
    by (auto simp: store_of_def doc_rows_map canon_slot_def docs_ok_def dest!: sym [of "Some m"] split: option.splits if_splits)
  ultimately show ?thesis by (simp add: store_served_def)
qed

lemma store_rows_ok:
  assumes "docs_ok (pr_uid rq) md"
  shows "rows_ok (ms_canonical (store_of md rq))" "rows_ok (ms_updated (store_of md rq) @ ms_created (store_of md rq))"
proof -
  have key: "key_ok (scan_cursor_to_stream_keyset (key d))" if "scan_ok key docs" "d \<in> set docs" for key :: "'d \<Rightarrow> scan_cursor" and d docs
    using that by (auto simp: scan_ok_def key_ok_def keyset_ok_def keyset_text_ok_def scan_cursor_to_stream_keyset_def)
  have hist: "rows_ok (doc_rows (hist_slot req kind) (hist_key kind) (md_hist md kind))" for req kind
  proof -
    have ok: "scan_ok (hist_key kind) (md_hist md kind)"
      using assms by (cases kind) (auto simp: docs_ok_def)
    have "key_ok (memory_keyset m)" if "d \<in> set (md_hist md kind)" "hist_slot req kind d = Some m" for d m
      using that(1) ok adapt_slot_id [OF that(2)]
      by (auto simp: scan_ok_def key_ok_def keyset_ok_def keyset_text_ok_def memory_keyset_def hist_key_def Let_def split: option.splits)
    then show ?thesis
      using key [OF ok] by (auto simp: rows_ok_def doc_rows_map split: option.splits)
  qed
  then show "rows_ok (ms_updated (store_of md rq) @ ms_created (store_of md rq))"
    by (auto simp: rows_ok_def store_of_def)
  have ok: "scan_ok canon_key (md_canon md)"
    using assms by (simp add: docs_ok_def)
  have "key_ok (memory_keyset m)" if "d \<in> set (md_canon md)" "canon_slot md pol d = Some m" for d m pol
    using that assms key [OF ok that(1)] by (auto simp: canon_slot_def docs_ok_def split: option.splits if_splits)
  then show "rows_ok (ms_canonical (store_of md rq))"
    using key [OF ok] by (auto simp: rows_ok_def store_of_def doc_rows_map split: option.splits)
qed

section \<open>The list\<close>

text \<open>What a request needs of its budget: rows it may have to pass over, and documents for the chunks
  it reads.\<close>

definition visit_serves :: "memory_docs \<Rightarrow> nat \<Rightarrow> byte list \<Rightarrow> page_request \<Rightarrow> visit \<Rightarrow> bool" where
  "visit_serves md S secret rq v \<longleftrightarrow>
     cursor_secret (be_env (fst v)) = Inr secret \<and> backend_serves (fst v) md S \<and>
     affords (fst v) (new_walk (fst v) (snd v)) (int (store_hidden (store_of md rq)))
       (int (page_documents (150 + S * 50) (store_of md rq) (Suc (page_limit rq))))"

text \<open>C24: While the documents do not change and every request is served within its budget, a client
  that follows the cursors gets the merged list in pages of its limit, nothing skipped and nothing
  twice at the page boundaries: after some requests exactly that many pages, and no further cursor
  exactly when the list is complete. So it ends after as many requests as the list has pages.\<close>

theorem cursor_walk_lists_all:
  assumes "docs_ok (pr_uid rq) md" "request_ok rq" "str_or (pr_cursor rq) '''' = ''''"
    and "list_all (visit_serves md S secret rq) (v # vs)" "timely (v # vs)"
  shows "\<exists>k. follow repr (v # vs) rq = Inr (take (length (v # vs) * page_limit rq) (full_list (store_of md rq)), k) \<and>
    (k = None \<longleftrightarrow> length (full_list (store_of md rq)) \<le> length (v # vs) * page_limit rq)"
proof -
  let ?st = "store_of md rq" and ?K = "150 + S * 50"
  have visits: "list_all (visit_ok ?K ?st secret rq) (v # vs)"
    using assms(4) backend_serves_store [OF _ assms(1)] by (auto simp: list_all_iff visit_serves_def visit_ok_def)
  then have "resumable (fst v) ?K (page_reader (fst v) rq) ?st (first_state rq)"
    by (intro resumable_first) (simp add: visit_ok_def)
  moreover have "starts_at repr (fst v) secret rq (first_state rq)"
    using assms(3) by (simp add: starts_at_def)
  ultimately show ?thesis
    using follow_law [OF assms(2) store_rows_ok [OF assms(1)] visits assms(5), of repr "first_state rq"] by (simp add: remaining_first)
qed

section \<open>Newest first, and once\<close>

text \<open>How the documents of an account hang together: both scans read one collection, the first the
  documents with an update instant; the memory in a document carries the instants of the
  document; an id names one document; and a canonical item has a status under its own id.\<close>

definition docs_consistent :: "string \<Rightarrow> memory_docs \<Rightarrow> bool" where
  "docs_consistent uid md \<longleftrightarrow>
     (\<forall>kind. \<forall>d \<in> set (md_hist md kind). \<forall>m. hd_memory d = Some m \<longrightarrow> m_updated_at m = hd_updated_at d \<and> m_created_at m = hd_created_at d) \<and>
     (\<forall>d \<in> set (md_hist md Updated_Scan). hd_updated_at d \<noteq> None) \<and>
     (\<forall>kind. distinct (map hd_id (md_hist md kind))) \<and>
     (\<forall>d \<in> set (md_hist md Updated_Scan). \<forall>d' \<in> set (md_hist md Created_Scan). hd_id d = hd_id d' \<longrightarrow> d = d') \<and>
     distinct (map cd_id (md_canon md)) \<and>
     (\<forall>d \<in> set (md_canon md). cd_item d \<noteq> None \<longrightarrow> authority (md_docs md) uid (cd_id d) \<noteq> None)"

lemma set_visible: "m \<in> set (visible hid rows) \<longleftrightarrow> (\<exists>ks. (Some m, ks) \<in> set rows) \<and> \<not> hid m"
  by (force simp: visible_def row_visible_def split: option.splits)

lemma visible_sorted:
  assumes "sorted_wrt (\<lambda>r r'. row_key r < row_key r') rows" "\<forall>m ks. (Some m, ks) \<in> set rows \<longrightarrow> memory_keyset m = ks"
  shows "sorted (map memory_cursor_sort_key (visible hid rows))"
  using assms
proof (induction rows)
  case (Cons r rows)
  obtain rec ks where r: "r = (rec, ks)" by force
  have IH: "sorted (map memory_cursor_sort_key (visible hid rows))"
    using Cons by auto
  have later: "keyset_sort_key ks \<le> memory_cursor_sort_key m" if m: "m \<in> set (visible hid rows)" for m
  proof -
    obtain ks' where "(Some m, ks') \<in> set rows"
      using m unfolding set_visible by blast
    then show ?thesis
      using Cons.prems r by (fastforce simp: memory_cursor_sort_key_def)
  qed
  moreover have "memory_cursor_sort_key m = keyset_sort_key ks" if "rec = Some m" for m
    using Cons.prems(2) r that by (simp add: memory_cursor_sort_key_def)
  ultimately show ?case
    using IH r by (cases rec) auto
qed simp

lemma doc_rows_Cons:
  "doc_rows f key (d # docs) = (map_option truncate_locked_memory_preview (f d), scan_cursor_to_stream_keyset (key d)) # doc_rows f key docs"
  by (simp add: doc_rows_map)

lemma set_visible_doc_rows:
  "m \<in> set (visible hid (doc_rows f key docs)) \<longleftrightarrow>
   (\<exists>d \<in> set docs. \<exists>m0. f d = Some m0 \<and> m = truncate_locked_memory_preview m0 \<and> \<not> hid m)"
proof -
  have "(\<exists>ks. (Some m, ks) \<in> set (doc_rows f key docs)) \<longleftrightarrow> (\<exists>d \<in> set docs. map_option truncate_locked_memory_preview (f d) = Some m)"
    unfolding doc_rows_map set_map image_iff prod.inject eq_commute [of "Some m"] by blast
  then show ?thesis unfolding set_visible by auto
qed

lemma visible_distinct:
  assumes "\<And>d m. d \<in> set docs \<Longrightarrow> f d = Some m \<Longrightarrow> m_id m = i d" "distinct (map i docs)"
  shows "distinct (map m_id (visible hid (doc_rows f key docs)))"
  using assms
proof (induction docs)
  case (Cons d docs)
  have IH: "distinct (map m_id (visible hid (doc_rows f key docs)))"
    using Cons by simp
  have "m_id m \<noteq> i d" if "m \<in> set (visible hid (doc_rows f key docs))" for m
    using that Cons.prems unfolding set_visible_doc_rows by (auto simp: image_iff) (metis list.set_intros(2))
  moreover have "m_id m = i d" if "f d = Some m" for m
    using Cons.prems(1) that by simp
  ultimately show ?case
    using IH by (cases "f d") (fastforce simp: doc_rows_Cons)+
qed (simp add: doc_rows_map)

lemma distinct_merge:
  assumes "distinct (map g xs)" "distinct (map g ys)" "g ` set xs \<inter> g ` set ys = {}"
  shows "distinct (map g (merge_by f xs ys))"
  using assms
proof (induction f xs ys rule: merge_by.induct)
  case (1 f x xs y ys)
  then show ?case by (auto simp: set_merge_by)
qed simp_all

lemma hist_slot_key:
  assumes "docs_consistent uid md" "d \<in> set (md_hist md kind)" "hist_slot req kind d = Some m"
  shows "memory_keyset m = scan_cursor_to_stream_keyset (hist_key kind d)"
    and "kind = Created_Scan \<Longrightarrow> hd_updated_at d = None"
proof -
  show none: "kind = Created_Scan \<Longrightarrow> hd_updated_at d = None"
    using assms(3) by (auto simp: hist_slot_def adapt_slot_def split: if_splits)
  obtain m0 where m0: "hd_memory d = Some m0" "m_id m = hd_id d"
    "m_updated_at m = (if m_updated_at m0 = None then m_created_at m0 else m_updated_at m0)" "m_created_at m = m_created_at m0"
    using assms(3) by (auto simp: hist_slot_def adapt_slot_def adapt_def split: if_splits option.splits)
  moreover have "m_updated_at m0 = hd_updated_at d" "m_created_at m0 = hd_created_at d" "kind = Updated_Scan \<Longrightarrow> hd_updated_at d \<noteq> None"
    using assms(1,2) m0(1) by (auto simp: docs_consistent_def)
  ultimately show "memory_keyset m = scan_cursor_to_stream_keyset (hist_key kind d)"
    using none by (cases kind) (auto simp: memory_keyset_def scan_cursor_to_stream_keyset_def hist_key_def order_time_def Let_def split: option.splits)
qed

lemma canon_slot_key:
  assumes "docs_ok uid md" "d \<in> set (md_canon md)" "canon_slot md pol d = Some m"
  shows "memory_keyset m = scan_cursor_to_stream_keyset (canon_key d)" "m_id m = cd_id d" "cd_item d \<noteq> None"
proof -
  show key: "memory_keyset m = scan_cursor_to_stream_keyset (canon_key d)" and "cd_item d \<noteq> None"
    using assms by (auto simp: canon_slot_def docs_ok_def split: option.splits if_splits)
  from arg_cong [OF key, of memory_id] show "m_id m = cd_id d"
    by (simp add: memory_keyset_def scan_cursor_to_stream_keyset_def canon_key_def Let_def)
qed

lemma doc_rows_keys:
  assumes "\<And>d m. d \<in> set docs \<Longrightarrow> f d = Some m \<Longrightarrow> memory_keyset m = scan_cursor_to_stream_keyset (key d)"
  shows "\<forall>m ks. (Some m, ks) \<in> set (doc_rows f key docs) \<longrightarrow> memory_keyset m = ks"
proof (intro allI impI)
  fix m ks
  assume "(Some m, ks) \<in> set (doc_rows f key docs)"
  then obtain d where "d \<in> set docs" "map_option truncate_locked_memory_preview (f d) = Some m" "ks = scan_cursor_to_stream_keyset (key d)"
    unfolding doc_rows_map set_map image_iff prod.inject eq_commute [of "Some m"] by blast
  then show "memory_keyset m = ks" using assms by auto
qed

lemma ex_scan_kind: "(\<exists>kind. P kind) \<longleftrightarrow> P Updated_Scan \<or> P Created_Scan"
  by (metis scan_kind.exhaust)

abbreviation canon_list :: "memory_docs \<Rightarrow> page_request \<Rightarrow> memory list" where
  "canon_list md rq \<equiv> visible (\<lambda>_. False) (doc_rows (canon_slot md (list_policy rq)) canon_key (md_canon md))"

abbreviation hist_list :: "memory_docs \<Rightarrow> page_request \<Rightarrow> scan_kind \<Rightarrow> memory list" where
  "hist_list md rq kind \<equiv>
     visible (\<lambda>m. authority (md_docs md) (pr_uid rq) (m_id m) \<noteq> None)
       (doc_rows (hist_slot (pr_device rq) kind) (hist_key kind) (md_hist md kind))"

lemma full_list_store:
  "full_list (store_of md rq) = merge_memories (canon_list md rq) (merge_memories (hist_list md rq Updated_Scan) (hist_list md rq Created_Scan))"
  by (simp add: full_list_def store_of_def)

lemma set_hist_list:
  "m \<in> set (hist_list md rq kind) \<longleftrightarrow> (\<exists>d \<in> set (md_hist md kind). \<exists>m0. hist_slot (pr_device rq) kind d = Some m0 \<and>
      m = truncate_locked_memory_preview m0 \<and> authority (md_docs md) (pr_uid rq) (hd_id d) = None)"
  unfolding set_visible_doc_rows using adapt_slot_id by fastforce

text \<open>A document with an update instant is left out of the second scan, and a memory with a canonical
  item is hidden in both.\<close>

lemma hist_lists_disjoint:
  assumes "docs_consistent (pr_uid rq) md"
  shows "m_id ` set (hist_list md rq Updated_Scan) \<inter> m_id ` set (hist_list md rq Created_Scan) = {}"
proof -
  have False if m: "m \<in> set (hist_list md rq Updated_Scan)" and m': "m' \<in> set (hist_list md rq Created_Scan)" and "m_id m = m_id m'" for m m'
  proof -
    obtain d where d: "d \<in> set (md_hist md Updated_Scan)" "m_id m = hd_id d"
      using m unfolding set_hist_list using adapt_slot_id by auto
    obtain d' m1 where d': "d' \<in> set (md_hist md Created_Scan)" "hist_slot (pr_device rq) Created_Scan d' = Some m1" "m_id m' = hd_id d'"
      using m' unfolding set_hist_list using adapt_slot_id by auto
    then have "d = d'" "hd_updated_at d' = None"
      using assms d that(3) hist_slot_key(2) [OF assms d'(1,2)] by (auto simp: docs_consistent_def)
    then show False using assms d(1) by (auto simp: docs_consistent_def)
  qed
  then show ?thesis by blast
qed

lemma canon_list_disjoint:
  assumes "docs_ok (pr_uid rq) md" "docs_consistent (pr_uid rq) md"
  shows "m_id ` set (canon_list md rq) \<inter> m_id ` set (hist_list md rq kind) = {}"
proof -
  have False if "m \<in> set (canon_list md rq)" "m' \<in> set (hist_list md rq kind)" "m_id m = m_id m'" for m m'
  proof -
    have "authority (md_docs md) (pr_uid rq) (m_id m) \<noteq> None"
      using that(1) canon_slot_key(2,3) [OF assms(1)] assms(2) unfolding set_visible_doc_rows by (auto simp: docs_consistent_def)
    then show False using that(2,3) unfolding set_visible by simp
  qed
  then show ?thesis by blast
qed

text \<open>C25: On consistent documents the merged list is newest first (by update instant, else creation, ties
  by id), no id occurs twice, and it holds exactly the visible memories: the canonical ones the
  policy lets through, and the historical ones that no canonical status hides.\<close>

theorem list_newest_first_once:
  assumes "docs_ok (pr_uid rq) md" "docs_consistent (pr_uid rq) md"
  shows "sorted (map memory_cursor_sort_key (full_list (store_of md rq))) \<and> distinct (map m_id (full_list (store_of md rq))) \<and>
    (\<forall>m. m \<in> set (full_list (store_of md rq)) \<longleftrightarrow>
       (\<exists>d \<in> set (md_canon md). \<exists>m0. canon_slot md (list_policy rq) d = Some m0 \<and> m = truncate_locked_memory_preview m0) \<or>
       (\<exists>kind. \<exists>d \<in> set (md_hist md kind). \<exists>m0. hist_slot (pr_device rq) kind d = Some m0 \<and> m = truncate_locked_memory_preview m0 \<and>
          authority (md_docs md) (pr_uid rq) (hd_id d) = None))"
proof -
  have scans: "scan_ok canon_key (md_canon md)" "scan_ok (hist_key kind) (md_hist md kind)" for kind
    using assms(1) by (cases kind; auto simp: docs_ok_def)+
  have sorted: "sorted (map memory_cursor_sort_key (canon_list md rq))" "sorted (map memory_cursor_sort_key (hist_list md rq kind))" for kind
    by (intro visible_sorted doc_rows_sorted scans doc_rows_keys canon_slot_key(1) [OF assms(1)] hist_slot_key(1) [OF assms(2)]; assumption)+
  have "distinct (map m_id (canon_list md rq))"
    using assms(2) canon_slot_key(2) [OF assms(1)] by (intro visible_distinct [where i = cd_id]) (auto simp: docs_consistent_def)
  moreover have "distinct (map m_id (hist_list md rq kind))" for kind
    using assms(2) adapt_slot_id by (intro visible_distinct [where i = hd_id]) (auto simp: docs_consistent_def)
  ultimately have "distinct (map m_id (full_list (store_of md rq)))"
    unfolding full_list_store using hist_lists_disjoint [OF assms(2)] canon_list_disjoint [OF assms]
    by (intro distinct_merge) (simp_all add: set_merge_by image_Un Int_Un_distrib)
  moreover have "sorted (map memory_cursor_sort_key (full_list (store_of md rq)))"
    unfolding full_list_store by (intro sorted_merge_by sorted)
  moreover have "m \<in> set (full_list (store_of md rq)) \<longleftrightarrow> m \<in> set (canon_list md rq) \<or> (\<exists>kind. m \<in> set (hist_list md rq kind))" for m
    unfolding full_list_store set_merge_by ex_scan_kind Un_iff by (rule refl)
  ultimately show ?thesis
    unfolding set_hist_list unfolding set_visible_doc_rows by simp
qed

section \<open>An account\<close>

definition sample_memory :: "string \<Rightarrow> timestamp \<Rightarrow> memory" where
  "sample_memory i t = \<lparr>m_id = i, m_updated_at = Some t, m_created_at = Some t, m_is_locked = False, m_content = [104, 105], m_devices = []\<rparr>"

definition sample_hist :: "string \<Rightarrow> timestamp \<Rightarrow> hist_doc" where
  "sample_hist i t =
     \<lparr>hd_id = i, hd_updated_at = Some t, hd_created_at = Some t, hd_user_review = None, hd_invalidated = False, hd_visibility = None,
      hd_memory = Some (sample_memory i t)\<rparr>"

text \<open>Two historical memories and a canonical item between them, which has superseded a historical
  memory of the same id.\<close>

definition sample_docs :: memory_docs where
  "sample_docs =
     \<lparr>md_hist = (\<lambda>_. [sample_hist ''h1'' 30, sample_hist ''c1'' 25, sample_hist ''h2'' 10]),
      md_canon = [\<lparr>cd_id = ''c1'', cd_updated_at = Some 20,
                   cd_item = Some \<lparr>ci_memory_id = ''c1'', ci_uid = ''u'', ci_memory = sample_memory ''c1'' 20\<rparr>\<rparr>],
      md_docs = [memory_items_path ''u'' @ ''/c1'' \<mapsto> JObj [(''status'', JStr ''active'')]],
      md_visible = (\<lambda>_ _. True), md_suppressed = (\<lambda>_ _. False)\<rparr>"

definition sample_backend :: backend where
  "sample_backend =
     \<lparr>be_env = [''MEMORY_V3_CURSOR_SECRET'' \<mapsto> ''k''], be_validate = (\<lambda>_. None), be_time = (\<lambda>_ _. 0), be_epoch = 0,
      be_hist = (\<lambda>_ kind start limit. Inr (take limit (scan_after (hist_key kind) start (md_hist sample_docs kind)))),
      be_canon = (\<lambda>_ start limit. Inr (take limit (scan_after canon_key start (md_canon sample_docs)))),
      be_db = (\<lambda>_ p. Inr (md_docs sample_docs p)),
      be_get_all = (\<lambda>_. Some (\<lambda>refs. Inr (map (\<lambda>p. (Some p, md_docs sample_docs p)) refs))),
      be_visible = (\<lambda>_ _. True), be_suppressed = (\<lambda>_ _ _ budget. (Inr False, budget))\<rparr>"

definition sample_request :: page_request where
  "sample_request = \<lparr>pr_uid = ''u'', pr_limit = 2, pr_cursor = None, pr_device = None, pr_include_pending = True, pr_include_archive = False\<rparr>"

lemma sample_serves: "backend_serves sample_backend sample_docs 0"
  by (simp add: backend_serves_def sample_backend_def serves_docs_map) (simp add: sample_docs_def fun_eq_iff)

lemma sample_authority:
  "authority (md_docs sample_docs) ''u'' i = (if i = ''c1'' then Some Active else None)" "authority_ok (md_docs sample_docs) ''u'' i"
  by (auto simp: sample_docs_def authority_def authority_ok_def status_from_snapshot_def raw_status_def json_or_def known_status_def
      status_of_text_def memory_items_path_def memory_historical_overrides_path_def dict_get_def)

lemma sample_ids: "\<not> blank_text ''h1''" "\<not> blank_text ''h2''" "\<not> blank_text ''c1''" "valid_utf8 ''h1''" "valid_utf8 ''h2''" "valid_utf8 ''c1''"
  by (simp_all add: blank_text_def ascii_points unicode_space_def ascii_valid)

lemma sample_docs_ok: "docs_ok ''u'' sample_docs" "docs_consistent ''u'' sample_docs"
  unfolding docs_ok_def docs_consistent_def
  by (auto simp: sample_authority) (auto simp: sample_docs_def sample_hist_def sample_memory_def scan_ok_def hist_key_def order_time_def canon_key_def
      cursor_key_def sample_ids memory_keyset_def scan_cursor_to_stream_keyset_def)

lemma sample_rows:
  "ms_canonical (store_of sample_docs sample_request) = [(Some (sample_memory ''c1'' 20), \<lparr>updated_at_us = 20, memory_id = ''c1''\<rparr>)]"
  "ms_updated (store_of sample_docs sample_request) =
     [(Some (sample_memory ''h1'' 30), \<lparr>updated_at_us = 30, memory_id = ''h1''\<rparr>),
      (Some (sample_memory ''c1'' 25), \<lparr>updated_at_us = 25, memory_id = ''c1''\<rparr>),
      (Some (sample_memory ''h2'' 10), \<lparr>updated_at_us = 10, memory_id = ''h2''\<rparr>)]"
  "ms_created (store_of sample_docs sample_request) =
     [(None, \<lparr>updated_at_us = 30, memory_id = ''h1''\<rparr>), (None, \<lparr>updated_at_us = 25, memory_id = ''c1''\<rparr>),
      (None, \<lparr>updated_at_us = 10, memory_id = ''h2''\<rparr>)]"
  by (simp_all add: store_of_def doc_rows_map canon_slot_def hist_slot_def adapt_slot_def adapt_def matches_device_def sample_docs_def
      sample_hist_def sample_memory_def sample_request_def hist_key_def canon_key_def order_time_def scan_cursor_to_stream_keyset_def
      truncate_locked_memory_preview_def sample_ids)

lemma sample_list:
  "full_list (store_of sample_docs sample_request) = [sample_memory ''h1'' 30, sample_memory ''c1'' 20, sample_memory ''h2'' 10]"
  "store_hidden (store_of sample_docs sample_request) = 4"
proof -
  have auth: "ms_authority (store_of sample_docs sample_request) i = (if i = ''c1'' then Some Active else None)" for i
    by (simp add: store_of_def sample_request_def sample_authority)
  have mem: "m_id (sample_memory i t) = i" "memory_cursor_sort_key (sample_memory i t) = (- max 0 t, i)" for i t
    by (simp_all add: sample_memory_def memory_cursor_sort_key_def keyset_sort_key_def memory_keyset_def)
  show "full_list (store_of sample_docs sample_request) = [sample_memory ''h1'' 30, sample_memory ''c1'' 20, sample_memory ''h2'' 10]"
    by (simp add: full_list_def sample_rows auth mem)
  show "store_hidden (store_of sample_docs sample_request) = 4"
    by (simp add: store_hidden_def hidden_row_count_def row_visible_def sample_rows auth mem)
qed

lemma sample_visit: "visit_serves sample_docs 0 (utf8_bytes ''k'') sample_request (sample_backend, None)"
proof -
  have "affords sample_backend (new_walk sample_backend None) 4 d" for d
    by (simp add: affords_def new_walk_def budget_has_def sample_backend_def MEMORY_LIST_SCAN_ROW_BUDGET_def MEMORY_LIST_SCAN_DEADLINE_SECONDS_def)
  moreover have "cursor_secret (be_env sample_backend) = Inr (utf8_bytes ''k'')"
    by (simp add: cursor_secret_def sample_backend_def)
  ultimately show ?thesis by (simp add: visit_serves_def sample_serves sample_list)
qed

theorem cursor_walk_lists_all_witness:
  "follow (\<lambda>_. '''') [(sample_backend, None), (sample_backend, None)] sample_request =
     Inr ([sample_memory ''h1'' 30, sample_memory ''c1'' 20, sample_memory ''h2'' 10], None)"
proof -
  have "docs_ok (pr_uid sample_request) sample_docs" "request_ok sample_request" "str_or (pr_cursor sample_request) '''' = ''''"
    "page_limit sample_request = 2" "timely [(sample_backend, None), (sample_backend, None)]"
    using sample_docs_ok(1)
    by (simp_all add: sample_request_def request_ok_def request_scope_def request_client_def ascii_valid page_limit_def sample_backend_def)
  then show ?thesis
    using cursor_walk_lists_all [of sample_request sample_docs 0 "utf8_bytes ''k''" "(sample_backend, None)" "[(sample_backend, None)]" "\<lambda>_. ''''"]
      sample_visit by (simp add: sample_list)
qed

theorem list_newest_first_once_witness:
  "distinct (map m_id (full_list (store_of sample_docs sample_request))) \<and>
   map m_id (full_list (store_of sample_docs sample_request)) = [''h1'', ''c1'', ''h2'']"
proof -
  have "pr_uid sample_request = ''u''"
    by (simp add: sample_request_def)
  then show ?thesis
    using list_newest_first_once [of sample_request sample_docs] sample_docs_ok by (simp add: sample_list sample_memory_def)
qed

section \<open>Whatever the store answers\<close>

lemma page_loop_length: "length (fst (fst (page_loop be rd n c h w))) \<le> n"
proof (induction n arbitrary: c h w)
  case (Suc n)
  have "length (fst (fst (apfst (apfst (append (case x of None \<Rightarrow> [] | Some m \<Rightarrow> [m]))) (page_loop be rd n c h w)))) \<le> Suc n" for x c h w
    using Suc [of c h w] by (auto split: option.split intro: le_SucI)
  moreover have "length (case x of None \<Rightarrow> [] | Some m \<Rightarrow> [m]) \<le> Suc n" for x :: "memory option"
    by (simp split: option.split)
  ultimately show ?case
    by (auto split: prod.split sum.split)
qed simp

lemma page_from_length:
  assumes "page_from be rd n cur w = (Inr (page, next, truncated), w')"
  shows "length page \<le> n \<and> (truncated \<longrightarrow> next = None)"
proof -
  obtain page' r w1 where loop: "page_loop be rd n (start_canonical cur) (start_historical cur) w = ((page', r), w1)"
    by (metis prod.exhaust)
  then have "length page' \<le> n"
    using page_loop_length [of be rd n "start_canonical cur" "start_historical cur" w] by simp
  then show ?thesis
    using assms loop
    by (auto simp: page_from_def split: sum.splits prod.splits list_error.splits bool.splits)
qed

text \<open>Whatever the document store and the clock answer, a page that is returned has at most the
  requested number of memories, which is capped at 500, and a page cut short by an exhausted
  budget comes without a cursor, so that no client continues behind memories it was not given.\<close>

theorem page_bounded:
  assumes "read_page repr be budget rq = Inr pg"
  shows "length (pg_memories pg) \<le> page_limit rq \<and> page_limit rq \<le> 500 \<and> (pg_truncated pg \<longrightarrow> pg_next_cursor pg = None)"
proof -
  obtain cur "next" w where page: "page_from be (page_reader be rq) (page_limit rq) cur (new_walk be budget) = (Inr (pg_memories pg, next, pg_truncated pg), w)"
    and nxt: "next = None \<longrightarrow> pg_next_cursor pg = None"
    using assms unfolding read_page_def Let_def page_limit_def [symmetric]
    by (auto split: if_splits sum.splits) (metis fst_conv prod.collapse)+
  show ?thesis
    using page_from_length [OF page] nxt by (auto simp: page_limit_def)
qed

lemma sample_page: "\<exists>pg. read_page (\<lambda>_. '''') sample_backend None sample_request = Inr pg"
proof -
  have uid: "docs_ok (pr_uid sample_request) sample_docs"
    using sample_docs_ok(1) by (simp add: sample_request_def)
  have "starts_at (\<lambda>_. '''') sample_backend (utf8_bytes ''k'') sample_request (first_state sample_request)"
    by (simp add: starts_at_def sample_request_def)
  then show ?thesis
    using read_page_law [OF _ _ resumable_first [OF backend_serves_store [OF sample_serves uid]]] sample_visit
    unfolding visit_serves_def by fastforce
qed

theorem page_bounded_witness:
  "\<exists>pg. read_page (\<lambda>_. '''') sample_backend None sample_request = Inr pg \<and> length (pg_memories pg) \<le> 2"
proof -
  obtain pg where pg: "read_page (\<lambda>_. '''') sample_backend None sample_request = Inr pg"
    using sample_page by blast
  moreover have "page_limit sample_request = 2"
    by (simp add: page_limit_def sample_request_def)
  ultimately show ?thesis
    using page_bounded [OF pg] by auto
qed

lemma page_reader_archive: "page_reader be (rq\<lparr>pr_include_archive := x\<rparr>) = page_reader be rq"
  by (simp add: page_reader_def load_canonical_def fun_eq_iff)

lemma page_from_archive:
  "map_sum id fst (fst (page_from be rd n (cur\<lparr>include_archive := x\<rparr>) w)) = map_sum id fst (fst (page_from be rd n cur w))"
proof -
  have "next_state be rd (cur\<lparr>include_archive := x\<rparr>) c h w = apfst (map_sum id (\<lambda>st. st\<lparr>include_archive := x\<rparr>)) (next_state be rd cur c h w)" for c h w
    by (auto simp: next_state_def split: sum.splits prod.splits)
  moreover have "start_canonical (cur\<lparr>include_archive := x\<rparr>) = start_canonical cur" "start_historical (cur\<lparr>include_archive := x\<rparr>) = start_historical cur"
    by (simp_all add: start_canonical_def start_historical_def)
  ultimately show ?thesis
    by (auto simp: page_from_def split: sum.splits prod.splits list_error.splits bool.splits)
qed

lemma first_page_memories:
  assumes "str_or (pr_cursor rq) [] = []"
  shows "map_sum id pg_memories (read_page repr be budget rq) =
    (case cursor_secret (be_env be) of
       Inl _ \<Rightarrow> Inl (Backing_Store_Unavailable ''Memory cursor unavailable'' ''cursor'')
     | Inr _ \<Rightarrow> map_sum id fst (fst (page_from be (page_reader be rq) (page_limit rq) (first_state rq) (new_walk be budget))))"
  unfolding read_page_def Let_def page_limit_def [symmetric] assms
  by (auto split: sum.split)

text \<open>The archive flag of a request changes nothing in a first page: with it or without it the same
  memories are listed, or the same error is raised. The canonical stream does not pass the flag
  on to the scan that would apply it.\<close>

theorem archive_flag_ignored:
  assumes "str_or (pr_cursor rq) '''' = ''''"
  shows "map_sum id pg_memories (read_page repr be budget (rq\<lparr>pr_include_archive := True\<rparr>)) =
    map_sum id pg_memories (read_page repr be budget (rq\<lparr>pr_include_archive := False\<rparr>))"
proof -
  have page: "map_sum id pg_memories (read_page repr be budget (rq\<lparr>pr_include_archive := x\<rparr>)) =
      (case cursor_secret (be_env be) of
         Inl _ \<Rightarrow> Inl (Backing_Store_Unavailable ''Memory cursor unavailable'' ''cursor'')
       | Inr _ \<Rightarrow> map_sum id fst (fst (page_from be (page_reader be rq) (page_limit rq) (first_state rq) (new_walk be budget))))" for x
  proof -
    have "first_state (rq\<lparr>pr_include_archive := x\<rparr>) = (first_state rq)\<lparr>include_archive := x\<rparr>" "page_limit (rq\<lparr>pr_include_archive := x\<rparr>) = page_limit rq"
      by (simp_all add: first_state_def request_scope_def request_client_def page_limit_def)
    then show ?thesis
      using assms by (cases "cursor_secret (be_env be)") (simp_all add: first_page_memories page_reader_archive page_from_archive)
  qed
  show ?thesis unfolding page by (rule refl)
qed

theorem archive_flag_ignored_witness:
  "map_sum id pg_memories (read_page (\<lambda>_. '''') sample_backend None (sample_request\<lparr>pr_include_archive := True\<rparr>)) =
   map_sum id pg_memories (read_page (\<lambda>_. '''') sample_backend None sample_request)"
proof -
  have "sample_request\<lparr>pr_include_archive := False\<rparr> = sample_request"
    by (simp add: sample_request_def)
  then show ?thesis
    using archive_flag_ignored [of sample_request "\<lambda>_. ''''" sample_backend None] by (simp add: sample_request_def)
qed

end
