(* ===== verification/Capture_Manifest.thy ===== *)
theory Capture_Manifest
  imports Signed_Tokens "HOL-Library.Product_Lexorder"
begin

text \<open>
  The short-lived manifests that bind freshly uploaded bytes to a conversation
  (\<^verbatim>\<open>backend/utils/sync/capture_manifest.py\<close>): the server signs the names and digests of the
  files for one user, device and conversation, and claims one immutable set of them per
  conversation in Redis. A value in Redis keeps the time to live it was set with and may
  disappear between two commands, which \<open>between\<close> stands for. File contents are an argument.
\<close>

section \<open>File claims\<close>

datatype manifest_error =
    Value_Error string
  | Attribute_Error
  | Runtime_Error string
  | OS_Error

definition MANIFEST_TTL_SECONDS :: int where
  "MANIFEST_TTL_SECONDS = 15 * 60"

definition MANIFEST_CLAIM_TTL_SECONDS :: int where
  "MANIFEST_CLAIM_TTL_SECONDS = 6 * 60 * 60"

definition manifest_secret :: "environ \<Rightarrow> manifest_error + byte list" where
  "manifest_secret env =
     (let raw = str_or (env ''SYNC_CONTENT_ID_SECRET'') (str_or (env ''ENCRYPTION_SECRET'') '''') in
      if raw = '''' then Inl (Runtime_Error ''SYNC_CONTENT_ID_SECRET or ENCRYPTION_SECRET is required for capture manifests'')
      else Inr (utf8_bytes raw))"

text \<open>\<^verbatim>\<open>Path(p).name\<close>: the last component; empty components and single dots are dropped.\<close>

definition path_name :: "string \<Rightarrow> string" where
  "path_name p =
     (case rev (filter (\<lambda>c. c \<noteq> '''' \<and> c \<noteq> ''.'') (split_on (CHR ''/'') p)) of [] \<Rightarrow> '''' | c # _ \<Rightarrow> c)"

definition lower_hex :: "char \<Rightarrow> bool" where
  "lower_hex c \<longleftrightarrow> (let k = of_char c :: nat in 48 \<le> k \<and> k \<le> 57 \<or> 97 \<le> k \<and> k \<le> 102)"

definition hex64 :: "string \<Rightarrow> bool" where
  "hex64 s \<longleftrightarrow> length s = 64 \<and> list_all lower_hex s"

type_synonym file_claim = "string \<times> string"

definition claim_json :: "file_claim \<Rightarrow> json" where
  "claim_json c = JObj [(''name'', JStr (fst c)), (''sha256'', JStr (snd c))]"

fun check_claims_loop :: "(json \<Rightarrow> string) \<Rightarrow> json list \<Rightarrow> manifest_error + file_claim list" where
  "check_claims_loop repr [] = Inr []"
| "check_claims_loop repr (JObj d # raws) =
     (let given = json_str repr (dict_get_or d ''name'' (JStr ''''));
          name = path_name given;
          digest = map lower_char (json_str repr (dict_get_or d ''sha256'' (JStr '''')))
      in if name = '''' \<or> name \<noteq> given \<or> \<not> hex64 digest then Inl (Value_Error ''invalid capture manifest file claim'')
         else (case check_claims_loop repr raws of Inl e \<Rightarrow> Inl e | Inr cs \<Rightarrow> Inr ((name, digest) # cs)))"
| "check_claims_loop repr (_ # raws) = Inl Attribute_Error"

definition validate_file_claims :: "(json \<Rightarrow> string) \<Rightarrow> json list \<Rightarrow> manifest_error + file_claim list" where
  "validate_file_claims repr raws =
     (case check_claims_loop repr raws of
        Inl e \<Rightarrow> Inl e
      | Inr cs \<Rightarrow> if cs = [] then Inl (Value_Error ''capture manifest requires at least one file'') else Inr (sort cs))"

section \<open>Issuing\<close>

definition manifest_payload :: "string \<Rightarrow> string \<Rightarrow> string \<Rightarrow> file_claim list \<Rightarrow> int \<Rightarrow> jdict" where
  "manifest_payload uid device conversation claims issued_at =
     [(''v'', JInt 1), (''uid'', JStr uid), (''device'', JStr device), (''conversation'', JStr conversation),
      (''files'', JList (map claim_json claims)), (''iat'', JInt issued_at), (''exp'', JInt (issued_at + MANIFEST_TTL_SECONDS))]"

definition manifest_body :: "string \<Rightarrow> string \<Rightarrow> string \<Rightarrow> file_claim list \<Rightarrow> int \<Rightarrow> string" where
  "manifest_body uid device conversation claims issued_at =
     json_show (sort_keys (JObj (manifest_payload uid device conversation claims issued_at)))"

definition manifest_signature :: "byte list \<Rightarrow> string \<Rightarrow> string" where
  "manifest_signature secret encoded = hex_of (hmac_sha256 secret (utf8_bytes encoded))"

definition issue_capture_manifest ::
  "(json \<Rightarrow> string) \<Rightarrow> environ \<Rightarrow> int \<Rightarrow> string \<Rightarrow> string \<Rightarrow> string \<Rightarrow> json list \<Rightarrow> int option \<Rightarrow> manifest_error + string" where
  "issue_capture_manifest repr env clock uid device conversation raws now =
     (let issued_at = (case now of None \<Rightarrow> clock | Some n \<Rightarrow> n) in
      case validate_file_claims repr raws of
        Inl e \<Rightarrow> Inl e
      | Inr claims \<Rightarrow>
          (let encoded = b64encode (manifest_body uid device conversation claims issued_at) in
           case manifest_secret env of
             Inl e \<Rightarrow> Inl e
           | Inr secret \<Rightarrow> Inr (encoded @ CHR ''.'' # manifest_signature secret encoded)))"

section \<open>One content set per conversation\<close>

type_synonym manifest_store = "string \<Rightarrow> (string \<times> int) option"

definition claims_fingerprint :: "file_claim list \<Rightarrow> string" where
  "claims_fingerprint claims = hex_of (sha256 (utf8_bytes (json_show (sort_keys (JList (map claim_json claims))))))"

definition manifest_key :: "string \<Rightarrow> string \<Rightarrow> string" where
  "manifest_key uid conversation = ''sync_capture_manifest:'' @ uid @ CHR '':'' # conversation"

definition claim_conversation_manifest ::
  "(json \<Rightarrow> string) \<Rightarrow> (manifest_store \<Rightarrow> manifest_store) \<Rightarrow> string \<Rightarrow> string \<Rightarrow> json list \<Rightarrow> manifest_store \<Rightarrow>
   (manifest_error + bool) \<times> manifest_store" where
  "claim_conversation_manifest repr between uid conversation raws st =
     (case validate_file_claims repr raws of
        Inl e \<Rightarrow> (Inl e, st)
      | Inr claims \<Rightarrow>
          (let fingerprint = claims_fingerprint claims; key = manifest_key uid conversation in
           if st key = None then (Inr True, st(key \<mapsto> (fingerprint, MANIFEST_CLAIM_TTL_SECONDS)))
           else (let st' = between st in (Inr (map_option fst (st' key) = Some fingerprint), st'))))"

section \<open>Verifying\<close>

text \<open>\<^verbatim>\<open>int(v)\<close> of a JSON value; \<open>None\<close> is a \<^verbatim>\<open>TypeError\<close> or a \<^verbatim>\<open>ValueError\<close>.\<close>

fun json_int :: "json \<Rightarrow> int option" where
  "json_int (JInt i) = Some i"
| "json_int (JBool b) = Some (of_bool b)"
| "json_int (JFloat f) = Some (if f < 0 then \<lceil>f\<rceil> else \<lfloor>f\<rfloor>)"
| "json_int (JStr s) = py_int s"
| "json_int _ = None"

text \<open>\<^verbatim>\<open>token.split('.', 1)\<close> unpacked into two parts.\<close>

definition split_first :: "char \<Rightarrow> string \<Rightarrow> (string \<times> string) option" where
  "split_first c s = (if c \<in> set s then Some (takeWhile (\<lambda>x. x \<noteq> c) s, drop 1 (dropWhile (\<lambda>x. x \<noteq> c) s)) else None)"

text \<open>The claims of a payload whose signature and binding were checked. Iterating over a
  number is a \<^verbatim>\<open>TypeError\<close>, which like a \<^verbatim>\<open>ValueError\<close> gives no claims; the elements of a
  string and of an object are strings, which have no \<^verbatim>\<open>get\<close>.\<close>

definition payload_claims :: "(json \<Rightarrow> string) \<Rightarrow> json \<Rightarrow> string list \<Rightarrow> manifest_error + file_claim list option" where
  "payload_claims repr files filenames =
     (case json_or files (JList []) of
        JList raws \<Rightarrow>
          (case validate_file_claims repr raws of
             Inl (Value_Error _) \<Rightarrow> Inr None
           | Inl e \<Rightarrow> Inl e
           | Inr claims \<Rightarrow> Inr (if map fst claims = sort (map path_name filenames) then Some claims else None))
      | JStr _ \<Rightarrow> Inl Attribute_Error
      | JObj _ \<Rightarrow> Inl Attribute_Error
      | _ \<Rightarrow> Inr None)"

definition payload_bound :: "int \<Rightarrow> string \<Rightarrow> string \<Rightarrow> string \<Rightarrow> jdict \<Rightarrow> bool" where
  "payload_bound effective_now uid device conversation payload \<longleftrightarrow>
     json_number (dict_get payload ''v'') = Some 1 \<and> dict_get payload ''uid'' = JStr uid \<and>
     dict_get payload ''device'' = JStr device \<and> dict_get payload ''conversation'' = JStr conversation \<and>
     (case json_int (dict_get_or payload ''iat'' (JInt 0)) of None \<Rightarrow> False | Some iat \<Rightarrow> iat \<le> effective_now + 60) \<and>
     (case json_int (dict_get_or payload ''exp'' (JInt 0)) of None \<Rightarrow> False | Some ex \<Rightarrow> effective_now \<le> ex)"

definition verify_capture_manifest ::
  "(json \<Rightarrow> string) \<Rightarrow> environ \<Rightarrow> int \<Rightarrow> string option \<Rightarrow> string \<Rightarrow> string option \<Rightarrow> string option \<Rightarrow> string list \<Rightarrow> int option \<Rightarrow>
   manifest_error + file_claim list option" where
  "verify_capture_manifest repr env clock token uid device conversation filenames now =
     (case (nonempty_str token, nonempty_str device, nonempty_str conversation) of
        (Some tok, Some dev, Some conv) \<Rightarrow>
          (case split_first (CHR ''.'') tok of
             None \<Rightarrow> Inr None
           | Some (encoded, sig) \<Rightarrow>
               (case manifest_secret env of
                  Inl e \<Rightarrow> Inl e
                | Inr secret \<Rightarrow>
                    if sig \<noteq> manifest_signature secret encoded then Inr None
                    else (case b64decode encoded of
                       None \<Rightarrow> Inr None
                     | Some body \<Rightarrow>
                         (case loads_text body of
                            None \<Rightarrow> Inr None
                          | Some (JObj payload) \<Rightarrow>
                              if payload_bound (case now of None \<Rightarrow> clock | Some n \<Rightarrow> n) uid dev conv payload
                              then payload_claims repr (dict_get payload ''files'') filenames
                              else Inr None
                          | Some _ \<Rightarrow> Inl Attribute_Error))))
      | _ \<Rightarrow> Inr None)"

section \<open>The uploaded files\<close>

text \<open>A file is hashed in chunks of one mebibyte, until a read returns nothing (\<open>read_chunks\<close>).\<close>

definition file_digest :: "byte list \<Rightarrow> string" where
  "file_digest content = hex_of (sha256 (concat (read_chunks (1024 * 1024) content)))"

fun actual_claims :: "(string \<Rightarrow> byte list option) \<Rightarrow> string list \<Rightarrow> manifest_error + file_claim list" where
  "actual_claims files [] = Inr []"
| "actual_claims files (p # ps) =
     (case files p of
        None \<Rightarrow> Inl OS_Error
      | Some content \<Rightarrow>
          (case actual_claims files ps of Inl e \<Rightarrow> Inl e | Inr cs \<Rightarrow> Inr ((path_name p, file_digest content) # cs)))"

definition manifest_claims_match_paths ::
  "(string \<Rightarrow> byte list option) \<Rightarrow> file_claim list \<Rightarrow> string list \<Rightarrow> manifest_error + bool" where
  "manifest_claims_match_paths files claims paths =
     (case actual_claims files paths of Inl e \<Rightarrow> Inl e | Inr actual \<Rightarrow> Inr (sort actual = claims))"

section \<open>Validated claims\<close>

definition valid_claim :: "file_claim \<Rightarrow> bool" where
  "valid_claim c \<longleftrightarrow> fst c \<noteq> '''' \<and> path_name (fst c) = fst c \<and> hex64 (snd c)"

lemma check_claims_loop_valid: "check_claims_loop repr raws = Inr cs \<Longrightarrow> list_all valid_claim cs"
  by (induction repr raws arbitrary: cs rule: check_claims_loop.induct)
    (auto simp: Let_def valid_claim_def split: if_splits sum.splits)

lemma lower_hex_lower: "lower_hex c \<Longrightarrow> lower_char c = c"
  by (auto simp: lower_hex_def lower_char_def Let_def)

lemma hex64_lower: "hex64 s \<Longrightarrow> map lower_char s = s"
  by (auto simp: hex64_def list_all_iff lower_hex_lower intro: map_idI)

lemma check_claims_loop_json: "list_all valid_claim cs \<Longrightarrow> check_claims_loop repr (map claim_json cs) = Inr cs"
  by (induction cs) (auto simp: claim_json_def valid_claim_def dict_get_or_def hex64_lower)

lemma validate_file_claims_valid:
  assumes "validate_file_claims repr raws = Inr cs"
  shows "cs \<noteq> [] \<and> sorted cs \<and> list_all valid_claim cs"
proof -
  obtain cs' where "check_claims_loop repr raws = Inr cs'" "cs' \<noteq> []" "cs = sort cs'"
    using assms by (auto simp: validate_file_claims_def split: sum.splits if_splits)
  moreover from this have "cs \<noteq> []"
    by (metis length_0_conv length_sort)
  ultimately show ?thesis
    using check_claims_loop_valid by (auto simp: list_all_iff)
qed

lemma validate_claim_json:
  "cs \<noteq> [] \<Longrightarrow> sorted cs \<Longrightarrow> list_all valid_claim cs \<Longrightarrow> validate_file_claims repr (map claim_json cs) = Inr cs"
  by (simp add: validate_file_claims_def check_claims_loop_json sorted_sort_id)

section \<open>The token contract\<close>

interpretation manifest_token: signed_token b64encode b64decode "manifest_signature secret" for secret
  using hex_of_plain by unfold_locales (auto simp: b64decode_encode b64encode_no_dot manifest_signature_def)

lemma split_first_append: "c \<notin> set a \<Longrightarrow> split_first c (a @ c # b) = Some (a, b)"
proof -
  assume "c \<notin> set a"
  then have "takeWhile (\<lambda>x. x \<noteq> c) (a @ c # b) = a" "dropWhile (\<lambda>x. x \<noteq> c) (a @ c # b) = c # b"
    by (induction a) auto
  then show ?thesis by (simp add: split_first_def)
qed

lemma split_first_join: "split_first c s = Some (a, b) \<Longrightarrow> s = a @ c # b"
proof -
  assume s: "split_first c s = Some (a, b)"
  then have "dropWhile (\<lambda>x. x \<noteq> c) s \<noteq> []" and ab: "a = takeWhile (\<lambda>x. x \<noteq> c) s" "b = drop 1 (dropWhile (\<lambda>x. x \<noteq> c) s)"
    by (auto simp: split_first_def dropWhile_eq_Nil_conv split: if_splits)
  then have "dropWhile (\<lambda>x. x \<noteq> c) s = c # b"
    using hd_dropWhile [of "\<lambda>x. x \<noteq> c" s] by (cases "dropWhile (\<lambda>x. x \<noteq> c) s") auto
  then show ?thesis
    using ab takeWhile_dropWhile_id [of "\<lambda>x. x \<noteq> c" s] by metis
qed

lemma sort_keys_claim_json: "sort_keys (claim_json c) = claim_json c"
  by (simp add: claim_json_def)

lemma hex64_ascii: "hex64 s \<Longrightarrow> ascii_text s"
  by (auto simp: hex64_def ascii_text_def list_all_iff lower_hex_def Let_def)

lemma manifest_payload_printable:
  assumes "list_all valid_claim cs" "list_all (\<lambda>c. valid_utf8 (fst c)) cs" "valid_utf8 uid" "valid_utf8 device" "valid_utf8 conversation"
  shows "json_printable (JObj (manifest_payload uid device conversation cs t))"
proof -
  have "list_all (\<lambda>c. json_printable (claim_json c)) cs"
    using assms(1,2) by (auto simp: list_all_iff claim_json_def valid_claim_def ascii_valid hex64_ascii)
  then show ?thesis
    using assms by (simp add: manifest_payload_def ascii_valid list.pred_map comp_def)
qed

lemma distinct_manifest_payload: "distinct (map fst (manifest_payload uid device conversation cs t))"
  by (simp add: manifest_payload_def)

lemma sorted_manifest_payload:
  shows "dict_get (sorted_members (manifest_payload uid device conversation cs t)) ''files'' = JList (map claim_json cs)"
    and "payload_bound now u d c (sorted_members (manifest_payload uid device conversation cs t)) \<longleftrightarrow>
      u = uid \<and> d = device \<and> c = conversation \<and> t \<le> now + 60 \<and> now \<le> t + MANIFEST_TTL_SECONDS"
  unfolding payload_bound_def
  by (auto simp: dict_get_sorted [OF distinct_manifest_payload] dict_get_or_sorted [OF distinct_manifest_payload]
      manifest_payload_def dict_get_def dict_get_or_def sort_keys_claim_json comp_def)

lemma issued_token:
  assumes "issue_capture_manifest repr env clock uid device conversation raws now = Inr token"
    and "validate_file_claims repr raws = Inr cs"
  obtains secret encoded where "manifest_secret env = Inr secret"
    "encoded = b64encode (manifest_body uid device conversation cs (case now of None \<Rightarrow> clock | Some n \<Rightarrow> n))"
    "token = encoded @ CHR ''.'' # manifest_signature secret encoded"
  using assms by (auto simp: issue_capture_manifest_def Let_def split: sum.splits)

lemma loads_manifest_body:
  assumes "list_all valid_claim cs" "list_all (\<lambda>c. valid_utf8 (fst c)) cs" "valid_utf8 uid" "valid_utf8 device" "valid_utf8 conversation"
  shows "loads_text (manifest_body uid device conversation cs t) = Some (JObj (sorted_members (manifest_payload uid device conversation cs t)))"
  using loads_text_json_show [OF sort_keys_printable [OF manifest_payload_printable [OF assms]]]
  by (simp add: manifest_body_def)

section \<open>Properties\<close>

lemma verify_issued:
  assumes "issue_capture_manifest repr env clock uid device conversation raws (Some t) = Inr token"
    and "validate_file_claims repr raws = Inr cs" "list_all (\<lambda>c. valid_utf8 (fst c)) cs"
    and "valid_utf8 uid" "valid_utf8 device" "valid_utf8 conversation"
  shows "verify_capture_manifest repr' env clock' (Some token) u (Some d) (Some c) filenames (Some now) = Inr (Some claims)
    \<longleftrightarrow> claims = cs \<and> u = uid \<and> d = device \<and> c = conversation \<and> d \<noteq> '''' \<and> c \<noteq> '''' \<and>
        sort (map path_name filenames) = map fst cs \<and> t \<le> now + 60 \<and> now \<le> t + 15 * 60"
proof -
  obtain secret encoded where token:
    "manifest_secret env = Inr secret" "encoded = b64encode (manifest_body uid device conversation cs t)"
    "token = encoded @ CHR ''.'' # manifest_signature secret encoded"
    using issued_token [OF assms(1,2)] by auto
  have cs: "cs \<noteq> []" "sorted cs" "list_all valid_claim cs"
    using validate_file_claims_valid [OF assms(2)] by auto
  have "split_first (CHR ''.'') token = Some (encoded, manifest_signature secret encoded)"
    unfolding token(3) token(2) by (rule split_first_append) (rule b64encode_no_dot)
  moreover have "nonempty_str (Some token) = Some token"
    by (simp add: nonempty_str_def token(3))
  moreover have "b64decode encoded = Some (manifest_body uid device conversation cs t)"
    unfolding token(2) by (rule b64decode_encode)
  moreover have "payload_claims repr' (JList (map claim_json cs)) filenames =
      Inr (if map fst cs = sort (map path_name filenames) then Some cs else None)"
    using cs by (simp add: payload_claims_def json_or_def validate_claim_json)
  ultimately show ?thesis
    by (auto simp: verify_capture_manifest_def token(1) sorted_manifest_payload nonempty_str_def MANIFEST_TTL_SECONDS_def
        loads_manifest_body [OF cs(3) assms(3-6)] split: option.splits if_splits)
qed

text \<open>C39: A manifest that was issued is accepted, in the same environment, exactly for the user,
  device and conversation it was issued for, for uploads whose file names are the claimed
  ones in any order, from one minute before it was issued until it expires fifteen minutes
  after; what the verification returns is the validated list of names and digests it was
  issued with.\<close>

theorem manifest_round_trip:
  assumes "issue_capture_manifest repr env clock uid device conversation raws (Some t) = Inr token"
    and "validate_file_claims repr raws = Inr cs" "list_all (\<lambda>c. valid_utf8 (fst c)) cs"
    and "valid_utf8 uid" "valid_utf8 device" "valid_utf8 conversation"
  shows "verify_capture_manifest repr' env clock' (Some token) u (Some d) (Some c) filenames (Some now) = Inr (Some claims)
    \<longleftrightarrow> claims = cs \<and> u = uid \<and> d = device \<and> c = conversation \<and> d \<noteq> '''' \<and> c \<noteq> '''' \<and>
        sort (map path_name filenames) = map fst cs \<and> t \<le> now + 60 \<and> now \<le> t + 15 * 60"
  by (rule verify_issued [OF assms])

lemma hex64_digest: "hex64 (hex_of (sha256 bs))"
proof -
  have "n < 16 \<Longrightarrow> lower_hex (hex_digit n)" for n
    by (simp add: lower_hex_def hex_digit_def)
  moreover have "unat b < 2 ^ LENGTH(8)" for b :: byte
    by (rule unsigned_less)
  then have "unat b div 16 < 16" "unat b mod 16 < 16" for b :: byte
    by (simp_all add: less_mult_imp_div_less)
  ultimately have "list_all lower_hex (hex_of bs)" for bs
    by (auto simp: hex_of_def list_all_iff)
  then show ?thesis by (simp add: hex64_def length_hex_of length_sha256)
qed

text \<open>A sample manifest: the claim of one file.\<close>

definition sample_raws :: "json list" where
  "sample_raws = [claim_json (''a.bin'', hex_of (sha256 [1, 2, 3]))]"

definition sample_env :: environ where
  "sample_env = [''ENCRYPTION_SECRET'' \<mapsto> ''k'']"

lemma sample_validates: "validate_file_claims repr sample_raws = Inr [(''a.bin'', hex_of (sha256 [1, 2, 3]))]"
proof -
  have "valid_claim (''a.bin'', hex_of (sha256 [1, 2, 3]))"
    by (simp add: valid_claim_def path_name_def hex64_digest)
  then show ?thesis
    using validate_claim_json [of "[(''a.bin'', hex_of (sha256 [1, 2, 3]))]"] by (simp add: sample_raws_def)
qed

lemma sample_issued: "\<exists>token. issue_capture_manifest repr sample_env 0 ''u'' ''d'' ''c'' sample_raws (Some 1000) = Inr token"
  by (simp add: issue_capture_manifest_def sample_validates manifest_secret_def sample_env_def Let_def)

theorem manifest_round_trip_witness:
  "\<exists>token. issue_capture_manifest (\<lambda>_. '''') sample_env 0 ''u'' ''d'' ''c'' sample_raws (Some 1000) = Inr token \<and>
     verify_capture_manifest (\<lambda>_. '''') sample_env 0 (Some token) ''u'' (Some ''d'') (Some ''c'') [''tmp/a.bin''] (Some 1900) =
       Inr (Some [(''a.bin'', hex_of (sha256 [1, 2, 3]))]) \<and>
     verify_capture_manifest (\<lambda>_. '''') sample_env 0 (Some token) ''u'' (Some ''d'') (Some ''c'') [''tmp/a.bin''] (Some 1901) \<noteq>
       Inr (Some [(''a.bin'', hex_of (sha256 [1, 2, 3]))])"
proof -
  obtain token where t: "issue_capture_manifest (\<lambda>_. '''') sample_env 0 ''u'' ''d'' ''c'' sample_raws (Some 1000) = Inr token"
    using sample_issued by blast
  have "path_name ''tmp/a.bin'' = ''a.bin''" by (simp add: path_name_def)
  then show ?thesis
    using manifest_round_trip [OF t sample_validates, where repr' = "\<lambda>_. ''''" and clock' = 0] t
    by (auto simp: ascii_valid)
qed

lemma payload_claims_valid:
  assumes "payload_claims repr files filenames = Inr (Some claims)"
  shows "claims \<noteq> [] \<and> sorted claims \<and> list_all valid_claim claims \<and> map fst claims = sort (map path_name filenames)"
  using assms validate_file_claims_valid
  by (auto simp: payload_claims_def split: json.splits sum.splits manifest_error.splits if_splits)

text \<open>Whatever token a client presents, the claims it obtains come from a segment with the
  server's signature of exactly that segment; they name at least one file, are sorted, name
  exactly the files of the upload, each by a plain file name (no directory part), and carry
  SHA-256 digests in lower-case hexadecimal. Without a configured secret the verification
  raises instead.\<close>

theorem verified_manifest_signed:
  assumes "verify_capture_manifest repr env clock (Some token) uid device conversation filenames now = Inr (Some claims)"
  shows "(\<exists>secret encoded. manifest_secret env = Inr secret \<and> token = encoded @ CHR ''.'' # manifest_signature secret encoded) \<and>
    claims \<noteq> [] \<and> sorted claims \<and> list_all valid_claim claims \<and> map fst claims = sort (map path_name filenames)"
  using assms payload_claims_valid
  by (auto simp: verify_capture_manifest_def dest!: nonempty_str_SomeD split_first_join
      split: option.splits sum.splits if_splits json.splits prod.splits)
theorem verified_manifest_signed_witness:
  "\<exists>token secret encoded. manifest_secret sample_env = Inr secret \<and> token = encoded @ CHR ''.'' # manifest_signature secret encoded \<and>
     verify_capture_manifest (\<lambda>_. '''') sample_env 0 (Some token) ''u'' (Some ''d'') (Some ''c'') [''tmp/a.bin''] (Some 1100) =
       Inr (Some [(''a.bin'', hex_of (sha256 [1, 2, 3]))])"
proof -
  obtain token where t: "issue_capture_manifest (\<lambda>_. '''') sample_env 0 ''u'' ''d'' ''c'' sample_raws (Some 1000) = Inr token"
    using sample_issued by blast
  have "path_name ''tmp/a.bin'' = ''a.bin''" by (simp add: path_name_def)
  then have v: "verify_capture_manifest (\<lambda>_. '''') sample_env 0 (Some token) ''u'' (Some ''d'') (Some ''c'') [''tmp/a.bin''] (Some 1100) =
      Inr (Some [(''a.bin'', hex_of (sha256 [1, 2, 3]))])"
    by (subst verify_issued [OF t sample_validates]) (simp_all add: ascii_valid)
  with verified_manifest_signed [OF v] show ?thesis by blast
qed

text \<open>The chunked digest is the digest of the file.\<close>

lemma file_digest_whole: "file_digest content = hex_of (sha256 content)"
  by (simp add: file_digest_def concat_read_chunks)

lemma actual_claims_files:
  "actual_claims files paths = Inr cs \<Longrightarrow>
   length cs = length paths \<and> (\<forall>p \<in> set paths. \<exists>content. files p = Some content \<and> (path_name p, hex_of (sha256 content)) \<in> set cs)"
  by (induction paths arbitrary: cs) (auto simp: file_digest_whole split: option.splits sum.splits)

text \<open>C40: The bytes of an upload are bound to the manifest: when the token issued for some claims
  verifies and the files on disk match the claims it yields, every file of the upload exists,
  there are as many as were claimed, and the name of each with the SHA-256 digest of its whole
  content is one of the claims the manifest was issued for.\<close>

theorem manifest_binds_bytes:
  assumes "issue_capture_manifest repr env clock uid device conversation raws (Some t) = Inr token"
    and "validate_file_claims repr raws = Inr cs" "list_all (\<lambda>c. valid_utf8 (fst c)) cs"
    and "valid_utf8 uid" "valid_utf8 device" "valid_utf8 conversation"
    and "verify_capture_manifest repr' env clock' (Some token) u (Some d) (Some c) filenames (Some now) = Inr (Some claims)"
    and "manifest_claims_match_paths files claims paths = Inr True"
  shows "length paths = length cs \<and>
    (\<forall>p \<in> set paths. \<exists>content. files p = Some content \<and> (path_name p, hex_of (sha256 content)) \<in> set cs)"
proof -
  have "claims = cs"
    using verify_issued [OF assms(1-6)] assms(7) by simp
  then obtain actual where actual: "actual_claims files paths = Inr actual" "sort actual = cs"
    using assms(8) by (auto simp: manifest_claims_match_paths_def split: sum.splits)
  then have "set actual = set cs" "length actual = length cs"
    by auto
  then show ?thesis
    using actual_claims_files [OF actual(1)] by simp
qed
theorem manifest_binds_bytes_witness:
  "length [''tmp/a.bin''] = length [(''a.bin'', hex_of (sha256 [1, 2, 3]))] \<and>
   (\<exists>content. [''tmp/a.bin'' \<mapsto> [1, 2, 3]] ''tmp/a.bin'' = Some content \<and>
      (path_name ''tmp/a.bin'', hex_of (sha256 content)) \<in> set [(''a.bin'', hex_of (sha256 [1, 2, 3]))])"
proof -
  obtain token where t: "issue_capture_manifest (\<lambda>_. '''') sample_env 0 ''u'' ''d'' ''c'' sample_raws (Some 1000) = Inr token"
    using sample_issued by blast
  have p: "path_name ''tmp/a.bin'' = ''a.bin''" by (simp add: path_name_def)
  then have v: "verify_capture_manifest (\<lambda>_. '''') sample_env 0 (Some token) ''u'' (Some ''d'') (Some ''c'') [''tmp/a.bin''] (Some 1100) =
      Inr (Some [(''a.bin'', hex_of (sha256 [1, 2, 3]))])"
    by (subst verify_issued [OF t sample_validates]) (simp_all add: ascii_valid)
  have m: "manifest_claims_match_paths [''tmp/a.bin'' \<mapsto> [1, 2, 3]] [(''a.bin'', hex_of (sha256 [1, 2, 3]))] [''tmp/a.bin''] = Inr True"
    by (simp add: manifest_claims_match_paths_def p file_digest_whole)
  from manifest_binds_bytes [OF t sample_validates _ _ _ _ v m] show ?thesis
    by (simp add: ascii_valid)
qed

text \<open>One content set per conversation. Once a claim of some files succeeded for a
  conversation, then as long as the key is held a claim of the same files succeeds again and
  a claim whose fingerprint differs is refused, and neither changes what is stored.\<close>

theorem one_content_set:
  assumes "validate_file_claims repr raws = Inr cs" "validate_file_claims repr' raws' = Inr cs'"
    and "claim_conversation_manifest repr between uid conversation raws st = (Inr True, st1)"
    and "st2 (manifest_key uid conversation) = st1 (manifest_key uid conversation)"
    and "between' st2 = st2"
  shows "claim_conversation_manifest repr' between' uid conversation raws' st2 =
      (Inr (claims_fingerprint cs' = claims_fingerprint cs), st2)"
proof -
  have "\<exists>ttl. st1 (manifest_key uid conversation) = Some (claims_fingerprint cs, ttl)"
    using assms(1,3) by (auto simp: claim_conversation_manifest_def Let_def split: if_splits)
  then show ?thesis
    using assms by (auto simp: claim_conversation_manifest_def Let_def)
qed

theorem one_content_set_witness:
  "claim_conversation_manifest (\<lambda>_. '''') id ''u'' ''c'' sample_raws
     [manifest_key ''u'' ''c'' \<mapsto> (claims_fingerprint [(''a.bin'', hex_of (sha256 [1, 2, 3]))], MANIFEST_CLAIM_TTL_SECONDS)] =
   (Inr True, [manifest_key ''u'' ''c'' \<mapsto> (claims_fingerprint [(''a.bin'', hex_of (sha256 [1, 2, 3]))], MANIFEST_CLAIM_TTL_SECONDS)])"
proof -
  have "claim_conversation_manifest (\<lambda>_. '''') id ''u'' ''c'' sample_raws Map.empty =
      (Inr True, [manifest_key ''u'' ''c'' \<mapsto> (claims_fingerprint [(''a.bin'', hex_of (sha256 [1, 2, 3]))], MANIFEST_CLAIM_TTL_SECONDS)])"
    by (simp add: claim_conversation_manifest_def sample_validates Let_def)
  from one_content_set [OF sample_validates sample_validates this]
  show ?thesis by simp
qed

end
