(* ===== verification/File_Io.thy ===== *)
theory File_Io
  imports Hashing Json_Values
begin

text \<open>
  The files of one directory and the system calls the capture code makes on them. Every call
  takes one entry of a schedule of faults: it completes, it raises an \<^verbatim>\<open>OSError\<close>, or the
  process is killed inside it, and a write that is cut off may have got some of its bytes
  through. Operations are built from the calls by sequencing and by \<^verbatim>\<open>try ... finally\<close>,
  whose cleanup runs after an exception and does not run after a kill. Because the schedule is
  arbitrary, what a theorem says of the files after an operation it says of every state in
  which a crash can leave them. A kill leaves the files as the kernel has them; losing the
  page cache with the machine is not modelled.
\<close>

section \<open>Files\<close>

text \<open>A file holds bytes, or a JSON text given by the value it is read as, or a text that was
  cut off while it was written. A directory maps the names of its files.\<close>

datatype content = Bytes "byte list" | Doc json | Torn

type_synonym files = "string \<rightharpoonup> content"

datatype io_error =
    Os_Error
  | File_Exists
  | File_Missing
  | Not_Bytes
  | Decode_Error
  | Struct_Error
  | Type_Err
  | Value_Err string
  | Runtime_Err string

section \<open>Faults and outcomes\<close>

text \<open>\<open>Short n\<close>: a raw write accepts only \<open>n\<close> bytes, which is no error; \<open>Fails n\<close> and \<open>Dies n\<close>:
  the call raises, or the process is killed, after \<open>n\<close> bytes. A schedule that has run out stands
  for calls that complete.\<close>

datatype tick = Good | Short nat | Fails nat | Dies nat

datatype 'a outcome = Done 'a | Raised io_error | Killed

type_synonym 'a io = "files \<times> tick list \<Rightarrow> 'a outcome \<times> files \<times> tick list"

definition io_return :: "'a \<Rightarrow> 'a io" where
  "io_return x = (\<lambda>(fs, ts). (Done x, fs, ts))"

definition io_raise :: "io_error \<Rightarrow> 'a io" where
  "io_raise e = (\<lambda>(fs, ts). (Raised e, fs, ts))"

definition io_bind :: "'a io \<Rightarrow> ('a \<Rightarrow> 'b io) \<Rightarrow> 'b io" where
  "io_bind m k = (\<lambda>s. case m s of (Done x, s') \<Rightarrow> k x s' | (Raised e, s') \<Rightarrow> (Raised e, s') | (Killed, s') \<Rightarrow> (Killed, s'))"

abbreviation io_then :: "'a io \<Rightarrow> 'b io \<Rightarrow> 'b io" where
  "io_then m k \<equiv> io_bind m (\<lambda>_. k)"

text \<open>An error value as a raised exception.\<close>

definition io_lift :: "io_error + 'a \<Rightarrow> 'a io" where
  "io_lift r = (case r of Inl e \<Rightarrow> io_raise e | Inr x \<Rightarrow> io_return x)"

text \<open>\<^verbatim>\<open>try: m finally: c\<close>; an exception of the cleanup replaces the one of the body.\<close>

definition io_finally :: "'a io \<Rightarrow> unit io \<Rightarrow> 'a io" where
  "io_finally m c = (\<lambda>s. case m s of
       (Killed, s') \<Rightarrow> (Killed, s')
     | (r, s') \<Rightarrow> (case c s' of (Done _, s'') \<Rightarrow> (r, s'') | (Raised e, s'') \<Rightarrow> (Raised e, s'') | (Killed, s'') \<Rightarrow> (Killed, s'')))"

text \<open>One call: \<open>full\<close> is what it does when it completes, \<open>part n\<close> what a cut-off one leaves.\<close>

definition syscall :: "(files \<Rightarrow> io_error + 'a \<times> files) \<Rightarrow> (nat \<Rightarrow> files \<Rightarrow> files) \<Rightarrow> 'a io" where
  "syscall full part = (\<lambda>(fs, ts). case ts of
       Fails n # ts' \<Rightarrow> (Raised Os_Error, part n fs, ts')
     | Dies n # ts' \<Rightarrow> (Killed, part n fs, ts')
     | _ \<Rightarrow> (case full fs of Inl e \<Rightarrow> (Raised e, fs, tl ts) | Inr (x, fs') \<Rightarrow> (Done x, fs', tl ts)))"

section \<open>Calls\<close>

abbreviation untouched :: "nat \<Rightarrow> files \<Rightarrow> files" where
  "untouched \<equiv> \<lambda>_ fs. fs"

text \<open>\<^verbatim>\<open>open(name, 'x')\<close>: exclusive creation of an empty file.\<close>

definition open_exclusive :: "string \<Rightarrow> unit io" where
  "open_exclusive name = syscall (\<lambda>fs. if fs name \<noteq> None then Inl File_Exists else Inr ((), fs(name \<mapsto> Bytes []))) untouched"

text \<open>\<^verbatim>\<open>open(name, 'wb')\<close>: creation or truncation.\<close>

definition open_truncate :: "string \<Rightarrow> unit io" where
  "open_truncate name = syscall (\<lambda>fs. Inr ((), fs(name \<mapsto> Bytes []))) untouched"

text \<open>Opening a file to read its bytes, and \<^verbatim>\<open>stat().st_size\<close>. Only bytes are ever kept under
  the names this is asked of; a text there has no size in this model.\<close>

definition read_bytes :: "string \<Rightarrow> byte list io" where
  "read_bytes name = syscall (\<lambda>fs. case fs name of
       None \<Rightarrow> Inl File_Missing | Some (Bytes bs) \<Rightarrow> Inr (bs, fs) | Some _ \<Rightarrow> Inl Not_Bytes) untouched"

text \<open>\<^verbatim>\<open>json.loads(path.read_text())\<close>.\<close>

definition read_json :: "string \<Rightarrow> json io" where
  "read_json name = syscall (\<lambda>fs. case fs name of
       None \<Rightarrow> Inl File_Missing | Some (Doc v) \<Rightarrow> Inr (v, fs) | Some _ \<Rightarrow> Inl Decode_Error) untouched"

text \<open>\<^verbatim>\<open>json.dump(v, handle, indent=2, sort_keys=True)\<close>, the newline and the flush.\<close>

definition write_json :: "string \<Rightarrow> json \<Rightarrow> unit io" where
  "write_json name v = syscall (\<lambda>fs. Inr ((), fs(name \<mapsto> Doc v))) (\<lambda>_ fs. fs(name \<mapsto> Torn))"

text \<open>A write on an unbuffered handle: the number of bytes the kernel took is not an error.\<close>

definition append_raw :: "string \<Rightarrow> byte list \<Rightarrow> unit io" where
  "append_raw name bs = (\<lambda>(fs, ts).
     let part = (\<lambda>n fs :: files. case fs name of Some (Bytes b) \<Rightarrow> fs(name \<mapsto> Bytes (b @ take n bs)) | _ \<Rightarrow> fs) in
     case ts of
       Short n # ts' \<Rightarrow> (Done (), part n fs, ts')
     | _ \<Rightarrow> syscall (\<lambda>fs. Inr ((), part (length bs) fs)) part (fs, ts))"

text \<open>A call on an open handle that changes no file: \<^verbatim>\<open>os.fsync\<close>, \<^verbatim>\<open>close\<close>, reading a chunk.\<close>

definition handle_call :: "unit io" where
  "handle_call = syscall (\<lambda>fs. Inr ((), fs)) untouched"

text \<open>\<^verbatim>\<open>os.replace(source, target)\<close>, which is atomic.\<close>

definition replace_file :: "string \<Rightarrow> string \<Rightarrow> unit io" where
  "replace_file source target = syscall (\<lambda>fs. case fs source of
       None \<Rightarrow> Inl File_Missing | Some c \<Rightarrow> Inr ((), fs(source := None, target \<mapsto> c))) untouched"

definition unlink_file :: "bool \<Rightarrow> string \<Rightarrow> unit io" where
  "unlink_file missing_ok name = syscall (\<lambda>fs.
     if fs name = None \<and> \<not> missing_ok then Inl File_Missing else Inr ((), fs(name := None))) untouched"

section \<open>Reasoning under faults\<close>

text \<open>From files with \<open>P\<close> the operation either returns \<open>x\<close> in files with \<open>Q x\<close>, or it raises or is
  killed in files with \<open>X\<close>, whatever the schedule.\<close>

definition io_triple :: "(files \<Rightarrow> bool) \<Rightarrow> 'a io \<Rightarrow> ('a \<Rightarrow> files \<Rightarrow> bool) \<Rightarrow> (files \<Rightarrow> bool) \<Rightarrow> bool" where
  "io_triple P m Q X \<longleftrightarrow>
     (\<forall>fs ts. P fs \<longrightarrow> (case m (fs, ts) of (Done x, fs', _) \<Rightarrow> Q x fs' | (Raised _, fs', _) \<Rightarrow> X fs' | (Killed, fs', _) \<Rightarrow> X fs'))"

named_theorems io_rules \<open>the rules of the operations under faults\<close>

lemma io_triple_DoneD:
  assumes "io_triple P m Q X" "P fs" "m (fs, ts) = (Done x, fs', ts')"
  shows "Q x fs'"
proof -
  have "case m (fs, ts) of (Done x, fs', _) \<Rightarrow> Q x fs' | (Raised _, fs', _) \<Rightarrow> X fs' | (Killed, fs', _) \<Rightarrow> X fs'"
    using assms(1,2) by (simp add: io_triple_def)
  then show ?thesis using assms(3) by simp
qed

lemma io_triple_otherD:
  assumes "io_triple P m Q X" "P fs" "m (fs, ts) = (r, fs', ts')" "\<forall>x. r \<noteq> Done x"
  shows "X fs'"
proof -
  have "case m (fs, ts) of (Done x, fs', _) \<Rightarrow> Q x fs' | (Raised _, fs', _) \<Rightarrow> X fs' | (Killed, fs', _) \<Rightarrow> X fs'"
    using assms(1,2) by (simp add: io_triple_def)
  then show ?thesis using assms(3,4) by (cases r) auto
qed

lemma io_triple_weaken:
  assumes "io_triple P' m Q' X'"
    and "\<And>fs. P fs \<Longrightarrow> P' fs" "\<And>x fs. Q' x fs \<Longrightarrow> Q x fs" "\<And>fs. X' fs \<Longrightarrow> X fs"
  shows "io_triple P m Q X"
  unfolding io_triple_def
proof (intro allI impI)
  fix fs ts
  assume "P fs"
  then have "P' fs" by (rule assms(2))
  obtain r fs' ts' where m: "m (fs, ts) = (r, fs', ts')" by (cases "m (fs, ts)") auto
  show "case m (fs, ts) of (Done x, fs', _) \<Rightarrow> Q x fs' | (Raised _, fs', _) \<Rightarrow> X fs' | (Killed, fs', _) \<Rightarrow> X fs'"
    using io_triple_DoneD [OF assms(1) \<open>P' fs\<close>] io_triple_otherD [OF assms(1) \<open>P' fs\<close> m] m assms(3,4)
    by (cases r) auto
qed

lemma io_triple_return [io_rules]: "(\<And>fs. P fs \<Longrightarrow> Q x fs) \<Longrightarrow> io_triple P (io_return x) Q X"
  by (simp add: io_triple_def io_return_def)

lemma io_triple_raise [io_rules]: "(\<And>fs. P fs \<Longrightarrow> X fs) \<Longrightarrow> io_triple P (io_raise e) Q X"
  by (simp add: io_triple_def io_raise_def)

lemma io_triple_lift [io_rules]:
  assumes "\<And>fs. P fs \<Longrightarrow> X fs" "\<And>x fs. r = Inr x \<Longrightarrow> P fs \<Longrightarrow> Q x fs"
  shows "io_triple P (io_lift r) Q X"
  using assms by (cases r) (simp_all add: io_lift_def io_triple_return io_triple_raise)

lemma io_triple_bind [io_rules]:
  assumes "io_triple P m R X" "\<And>x. io_triple (R x) (k x) Q X"
  shows "io_triple P (io_bind m k) Q X"
  unfolding io_triple_def
proof (intro allI impI)
  fix fs ts
  assume "P fs"
  obtain r fs' ts' where m: "m (fs, ts) = (r, fs', ts')" by (cases "m (fs, ts)") auto
  show "case io_bind m k (fs, ts) of (Done x, fs', _) \<Rightarrow> Q x fs' | (Raised _, fs', _) \<Rightarrow> X fs' | (Killed, fs', _) \<Rightarrow> X fs'"
  proof (cases r)
    case (Done x)
    then have "R x fs'" using io_triple_DoneD [OF assms(1) \<open>P fs\<close>] m by blast
    then show ?thesis using assms(2) [of x] Done m by (simp add: io_triple_def io_bind_def)
  qed (use io_triple_otherD [OF assms(1) \<open>P fs\<close> m] m in \<open>simp_all add: io_bind_def\<close>)
qed

lemma io_triple_if [io_rules]:
  "(b \<Longrightarrow> io_triple P m Q X) \<Longrightarrow> (\<not> b \<Longrightarrow> io_triple P k Q X) \<Longrightarrow> io_triple P (if b then m else k) Q X"
  by simp

lemma io_triple_finally:
  assumes "io_triple P m Q Y" "\<And>x. io_triple (Q x) c (\<lambda>_. R x) X" "io_triple Y c (\<lambda>_. X) X"
    and "\<And>fs. Y fs \<Longrightarrow> X fs"
  shows "io_triple P (io_finally m c) R X"
  unfolding io_triple_def
proof (intro allI impI)
  fix fs ts
  assume "P fs"
  obtain r fs' ts' where m: "m (fs, ts) = (r, fs', ts')" by (cases "m (fs, ts)") auto
  obtain q fs'' ts'' where c: "c (fs', ts') = (q, fs'', ts'')" by (cases "c (fs', ts')") auto
  show "case io_finally m c (fs, ts) of (Done x, fs', _) \<Rightarrow> R x fs' | (Raised _, fs', _) \<Rightarrow> X fs' | (Killed, fs', _) \<Rightarrow> X fs'"
  proof (cases r)
    case (Done x)
    then have "Q x fs'" using io_triple_DoneD [OF assms(1) \<open>P fs\<close>] m by blast
    then show ?thesis
      using io_triple_DoneD [OF assms(2)] io_triple_otherD [OF assms(2) _ c] Done m c
      by (cases q) (auto simp: io_finally_def)
  next
    case (Raised e)
    then have "Y fs'" using io_triple_otherD [OF assms(1) \<open>P fs\<close> m] by simp
    then show ?thesis
      using io_triple_DoneD [OF assms(3)] io_triple_otherD [OF assms(3) _ c] Raised m c
      by (cases q) (auto simp: io_finally_def)
  next
    case Killed
    then show ?thesis
      using io_triple_otherD [OF assms(1) \<open>P fs\<close> m] m assms(4) by (simp add: io_finally_def)
  qed
qed

lemma io_triple_syscall:
  assumes "\<And>fs x fs'. P fs \<Longrightarrow> full fs = Inr (x, fs') \<Longrightarrow> Q x fs'"
    and "\<And>fs. P fs \<Longrightarrow> X fs" "\<And>fs n. P fs \<Longrightarrow> X (part n fs)"
  shows "io_triple P (syscall full part) Q X"
  unfolding io_triple_def
proof (intro allI impI)
  fix fs ts
  assume P: "P fs"
  have "case full fs of Inl e \<Rightarrow> X fs | Inr (x, fs') \<Rightarrow> Q x fs'"
    using assms(1,2) P by (auto split: sum.split)
  then show "case syscall full part (fs, ts) of (Done x, fs', _) \<Rightarrow> Q x fs' | (Raised _, fs', _) \<Rightarrow> X fs' | (Killed, fs', _) \<Rightarrow> X fs'"
    using P assms(3) by (auto simp: syscall_def split: list.split tick.split sum.split prod.split)
qed

text \<open>A name is hidden when it starts with a dot; temporary files are hidden. Two directories
  agree when they hold the same under every other name.\<close>

definition hidden :: "string \<Rightarrow> bool" where
  "hidden name \<longleftrightarrow> take 1 name = ''.''"

definition agrees :: "files \<Rightarrow> files \<Rightarrow> bool" where
  "agrees gs fs \<longleftrightarrow> (\<forall>name. \<not> hidden name \<longrightarrow> fs name = gs name)"

lemma agrees_refl [simp]: "agrees fs fs"
  by (simp add: agrees_def)

lemma agrees_hidden [simp]: "hidden t \<Longrightarrow> agrees gs (fs(t := c)) = agrees gs fs"
  by (auto simp: agrees_def)

lemma agrees_upd: "agrees gs fs \<Longrightarrow> agrees (gs(name := c)) (fs(name := c))"
  by (simp add: agrees_def)

lemma agreesD: "agrees gs fs \<Longrightarrow> \<not> hidden name \<Longrightarrow> fs name = gs name"
  by (simp add: agrees_def)

section \<open>The calls under faults\<close>

lemma handle_call_triple [io_rules]: "(\<And>fs. P fs \<Longrightarrow> X fs) \<Longrightarrow> io_triple P handle_call (\<lambda>_. P) X"
  unfolding handle_call_def by (rule io_triple_syscall) auto

lemma open_exclusive_temp: "hidden t \<Longrightarrow> io_triple (agrees gs) (open_exclusive t) (\<lambda>_. agrees gs) (agrees gs)"
  unfolding open_exclusive_def by (rule io_triple_syscall) (auto split: if_splits)

lemma open_truncate_temp:
  "hidden t \<Longrightarrow> io_triple (agrees gs) (open_truncate t) (\<lambda>_ fs. agrees gs fs \<and> fs t = Some (Bytes [])) (agrees gs)"
  unfolding open_truncate_def by (rule io_triple_syscall) auto

lemma write_json_temp:
  "hidden t \<Longrightarrow> io_triple (agrees gs) (write_json t v) (\<lambda>_ fs. agrees gs fs \<and> fs t = Some (Doc v)) (agrees gs)"
  unfolding write_json_def by (rule io_triple_syscall) auto

lemma replace_temp:
  assumes "hidden t" "\<not> hidden name"
  shows "io_triple (\<lambda>fs. agrees gs fs \<and> fs t = Some c) (replace_file t name) (\<lambda>_. agrees (gs(name \<mapsto> c))) (agrees gs)"
  unfolding replace_file_def
  by (rule io_triple_syscall) (use assms in \<open>auto simp: agrees_def\<close>)

lemma unlink_temp: "hidden t \<Longrightarrow> io_triple (agrees gs) (unlink_file ok t) (\<lambda>_. agrees gs) (agrees gs)"
  unfolding unlink_file_def by (rule io_triple_syscall) (auto split: if_splits)

lemma unlink_triple: "io_triple (agrees gs) (unlink_file ok name) (\<lambda>_. agrees (gs(name := None))) (agrees gs)"
  unfolding unlink_file_def by (rule io_triple_syscall) (auto split: if_splits intro: agrees_upd)

lemma read_bytes_triple:
  "(\<And>fs. P fs \<Longrightarrow> X fs) \<Longrightarrow> io_triple P (read_bytes name) (\<lambda>bs fs. P fs \<and> fs name = Some (Bytes bs)) X"
  unfolding read_bytes_def by (rule io_triple_syscall) (auto split: option.splits content.splits)

lemma read_json_triple:
  "(\<And>fs. P fs \<Longrightarrow> X fs) \<Longrightarrow> io_triple P (read_json name) (\<lambda>v fs. P fs \<and> fs name = Some (Doc v)) X"
  unfolding read_json_def by (rule io_triple_syscall) (auto split: option.splits content.splits)

text \<open>An operation installs a file atomically when, whatever happens, the directory holds under
  every visible name what it held before, or that with the new file in place; and the new file
  is in place when the operation returns. The temporary file it went through is removed unless
  the process was killed.\<close>

definition installs :: "unit io \<Rightarrow> files \<Rightarrow> string \<Rightarrow> content \<Rightarrow> bool" where
  "installs m gs name c \<longleftrightarrow>
     io_triple (agrees gs) m (\<lambda>_. agrees (gs(name \<mapsto> c))) (\<lambda>fs. agrees gs fs \<or> agrees (gs(name \<mapsto> c)) fs)"

lemma installs_through_temp:
  assumes "hidden t" "\<not> hidden name"
    and "io_triple (agrees gs) m (\<lambda>_ fs. agrees gs fs \<and> fs t = Some c) (agrees gs)"
  shows "installs (io_finally (io_then m (replace_file t name)) (unlink_file True t)) gs name c"
  unfolding installs_def
proof (rule io_triple_finally)
  let ?new = "gs(name \<mapsto> c)"
  show "io_triple (agrees gs) (io_then m (replace_file t name)) (\<lambda>_. agrees ?new) (agrees gs)"
    by (rule io_triple_bind [OF assms(3)]) (rule replace_temp [OF assms(1,2)])
  show "io_triple (agrees ?new) (unlink_file True t) (\<lambda>_. agrees ?new) (\<lambda>fs. agrees gs fs \<or> agrees ?new fs)"
    by (rule io_triple_weaken [OF unlink_temp [OF assms(1)]]) auto
  show "io_triple (agrees gs) (unlink_file True t) (\<lambda>_ fs. agrees gs fs \<or> agrees ?new fs) (\<lambda>fs. agrees gs fs \<or> agrees ?new fs)"
    by (rule io_triple_weaken [OF unlink_temp [OF assms(1)]]) auto
qed simp

text \<open>Two files installed one after the other, then two files removed: at every moment the
  directory is at one of the stages between.\<close>

definition publication_stages :: "files \<Rightarrow> string \<Rightarrow> content \<Rightarrow> string \<Rightarrow> content \<Rightarrow> string \<Rightarrow> files list" where
  "publication_stages before audio_name audio metadata_name metadata part =
     [before, before(audio_name \<mapsto> audio), before(audio_name \<mapsto> audio, metadata_name \<mapsto> metadata),
      before(audio_name \<mapsto> audio, metadata_name \<mapsto> metadata, part := None)]"

locale publication =
  fixes put_audio :: "unit io" and put_metadata :: "unit io" and before :: files
    and audio_name :: string and audio :: content and metadata_name :: string and metadata :: content
    and part :: string and progress :: string
  assumes puts_audio: "installs put_audio before audio_name audio"
    and puts_metadata: "installs put_metadata (before(audio_name \<mapsto> audio)) metadata_name metadata"
begin

abbreviation stages :: "files list" where
  "stages \<equiv> publication_stages before audio_name audio metadata_name metadata part"

lemma published:
  "io_triple (agrees before)
     (io_then put_audio (io_then put_metadata (io_then (unlink_file False part) (unlink_file False progress))))
     (\<lambda>_. agrees (before(audio_name \<mapsto> audio, metadata_name \<mapsto> metadata, part := None, progress := None)))
     (\<lambda>fs. \<exists>g \<in> set stages. agrees g fs)"
proof (rule io_triple_bind)
  let ?X = "\<lambda>fs. \<exists>g \<in> set stages. agrees g fs"
  let ?s1 = "before(audio_name \<mapsto> audio)" and ?s2 = "before(audio_name \<mapsto> audio, metadata_name \<mapsto> metadata)"
  show "io_triple (agrees before) put_audio (\<lambda>_. agrees ?s1) ?X"
    by (rule io_triple_weaken [OF puts_audio [unfolded installs_def]]) (auto simp: publication_stages_def)
  have "io_triple (agrees ?s1) put_metadata (\<lambda>_. agrees ?s2) ?X"
    by (rule io_triple_weaken [OF puts_metadata [unfolded installs_def]]) (auto simp: publication_stages_def)
  moreover have "io_triple (agrees ?s2) (unlink_file False part) (\<lambda>_. agrees (?s2(part := None))) ?X"
    by (rule io_triple_weaken [OF unlink_triple]) (auto simp: publication_stages_def)
  moreover have "io_triple (agrees (?s2(part := None))) (unlink_file False progress)
      (\<lambda>_. agrees (?s2(part := None, progress := None))) ?X"
    by (rule io_triple_weaken [OF unlink_triple]) (auto simp: publication_stages_def)
  ultimately show "io_triple (agrees ?s1) (io_then put_metadata (io_then (unlink_file False part) (unlink_file False progress)))
      (\<lambda>_. agrees (?s2(part := None, progress := None))) ?X"
    by (intro io_triple_bind)
qed

end

section \<open>Runs without faults\<close>

lemma io_bind_assoc: "io_bind (io_bind m k) h = io_bind m (\<lambda>x. io_bind (k x) h)"
  by (rule ext) (auto simp: io_bind_def split: prod.split outcome.split)

lemma io_return_run [simp]: "io_return x s = (Done x, s)"
  by (simp add: io_return_def split: prod.split)

lemma io_raise_run [simp]: "io_raise e s = (Raised e, s)"
  by (simp add: io_raise_def split: prod.split)

lemma io_lift_run [simp]: "io_lift (Inl e) s = (Raised e, s)" "io_lift (Inr x) s = (Done x, s)"
  by (simp_all add: io_lift_def)

text \<open>\<open>runs m fs x fs'\<close>: without faults \<open>m\<close> returns \<open>x\<close> and leaves \<open>fs'\<close>; \<open>fails m fs e fs'\<close>: it raises.\<close>

definition runs :: "'a io \<Rightarrow> files \<Rightarrow> 'a \<Rightarrow> files \<Rightarrow> bool" where
  "runs m fs x fs' \<longleftrightarrow> m (fs, []) = (Done x, fs', [])"

definition fails :: "'a io \<Rightarrow> files \<Rightarrow> io_error \<Rightarrow> files \<Rightarrow> bool" where
  "fails m fs e fs' \<longleftrightarrow> m (fs, []) = (Raised e, fs', [])"

named_theorems clean_runs \<open>runs of the operations without faults\<close>

lemma runs_return [clean_runs]: "runs (io_return x) fs x fs"
  by (simp add: runs_def)

lemma runs_lift [clean_runs]: "r = Inr x \<Longrightarrow> runs (io_lift r) fs x fs"
  by (simp add: runs_def)

lemma runs_bind: "runs m fs x fs' \<Longrightarrow> runs (k x) fs' y fs'' \<Longrightarrow> runs (io_bind m k) fs y fs''"
  by (simp add: runs_def io_bind_def)

lemma runs_finally: "runs m fs x fs' \<Longrightarrow> runs c fs' y fs'' \<Longrightarrow> runs (io_finally m c) fs x fs''"
  by (simp add: runs_def io_finally_def)

lemma fails_raise [clean_runs]: "fails (io_raise e) fs e fs"
  by (simp add: fails_def)

lemma fails_lift [clean_runs]: "r = Inl e \<Longrightarrow> fails (io_lift r) fs e fs"
  by (simp add: fails_def)

lemma fails_bind: "fails m fs e fs' \<Longrightarrow> fails (io_bind m k) fs e fs'"
  by (simp add: fails_def io_bind_def)

lemma fails_bind2: "runs m fs x fs' \<Longrightarrow> fails (k x) fs' e fs'' \<Longrightarrow> fails (io_bind m k) fs e fs''"
  by (simp add: runs_def fails_def io_bind_def)

lemma fails_finally: "fails m fs e fs' \<Longrightarrow> runs c fs' y fs'' \<Longrightarrow> fails (io_finally m c) fs e fs''"
  by (simp add: runs_def fails_def io_finally_def)

lemma fails_finally2: "runs m fs x fs' \<Longrightarrow> fails c fs' e fs'' \<Longrightarrow> fails (io_finally m c) fs e fs''"
  by (simp add: runs_def fails_def io_finally_def)

lemma syscall_clean: "syscall full part (fs, []) = (case full fs of Inl e \<Rightarrow> (Raised e, fs, []) | Inr (x, fs') \<Rightarrow> (Done x, fs', []))"
  by (simp add: syscall_def split: sum.split)

lemma runs_syscall: "full fs = Inr (x, fs') \<Longrightarrow> runs (syscall full part) fs x fs'"
  by (simp add: runs_def syscall_clean)

lemma fails_syscall: "full fs = Inl e \<Longrightarrow> fails (syscall full part) fs e fs"
  by (simp add: fails_def syscall_clean)

lemma runs_handle_call [clean_runs]: "runs handle_call fs () fs"
  unfolding handle_call_def by (rule runs_syscall) simp

lemma runs_open_exclusive [clean_runs]: "fs name = None \<Longrightarrow> runs (open_exclusive name) fs () (fs(name \<mapsto> Bytes []))"
  unfolding open_exclusive_def by (rule runs_syscall) simp

lemma runs_open_truncate [clean_runs]: "runs (open_truncate name) fs () (fs(name \<mapsto> Bytes []))"
  unfolding open_truncate_def by (rule runs_syscall) simp

lemma runs_write_json [clean_runs]: "runs (write_json name v) fs () (fs(name \<mapsto> Doc v))"
  unfolding write_json_def by (rule runs_syscall) simp

lemma runs_read_bytes [clean_runs]: "fs name = Some (Bytes bs) \<Longrightarrow> runs (read_bytes name) fs bs fs"
  unfolding read_bytes_def by (rule runs_syscall) simp

lemma runs_read_json [clean_runs]: "fs name = Some (Doc v) \<Longrightarrow> runs (read_json name) fs v fs"
  unfolding read_json_def by (rule runs_syscall) simp

lemma runs_append_raw [clean_runs]:
  "fs name = Some (Bytes b) \<Longrightarrow> runs (append_raw name bs) fs () (fs(name \<mapsto> Bytes (b @ bs)))"
  by (simp add: runs_def append_raw_def syscall_clean)

lemma runs_replace_file [clean_runs]:
  "fs source = Some c \<Longrightarrow> runs (replace_file source target) fs () (fs(source := None, target \<mapsto> c))"
  unfolding replace_file_def by (rule runs_syscall) simp

lemma runs_unlink_file [clean_runs]: "ok \<or> fs name \<noteq> None \<Longrightarrow> runs (unlink_file ok name) fs () (fs(name := None))"
  unfolding unlink_file_def by (rule runs_syscall) auto

text \<open>The same of the operation that goes through a temporary file.\<close>

lemma runs_through_temp:
  assumes "runs m fs x fs'" "fs' t = Some c" "t \<noteq> name"
  shows "runs (io_finally (io_then m (replace_file t name)) (unlink_file True t)) fs () (fs'(t := None, name \<mapsto> c))"
proof (rule runs_finally)
  show "runs (io_then m (replace_file t name)) fs () (fs'(t := None, name \<mapsto> c))"
    by (rule runs_bind [OF assms(1)]) (rule runs_replace_file, rule assms(2))
  have "(fs'(t := None, name \<mapsto> c))(t := None) = fs'(t := None, name \<mapsto> c)"
    using assms(3) by (simp add: fun_upd_twist)
  then show "runs (unlink_file True t) (fs'(t := None, name \<mapsto> c)) () (fs'(t := None, name \<mapsto> c))"
    using runs_unlink_file [of True "fs'(t := None, name \<mapsto> c)" t] by simp
qed

text \<open>A raw write gets a prefix of its bytes into the file, whatever happens.\<close>

lemma append_raw_prefix:
  assumes "append_raw name bs (fs, ts) = (r, fs', ts')" "fs name = Some (Bytes b)"
  obtains n where "fs' = fs(name \<mapsto> Bytes (b @ take n bs))"
proof (cases ts)
  case Nil
  then have "fs' = fs(name \<mapsto> Bytes (b @ bs))"
    using assms runs_append_raw [of fs name b bs] by (simp add: runs_def)
  then show thesis
    using that [of "length bs"] by simp
next
  case (Cons t ts0)
  then show thesis
    using assms that [of "length bs"] that by (cases t) (auto simp: append_raw_def syscall_def Let_def)
qed

end
