(* ===== verification/Offline_Capture.thy ===== *)
theory Offline_Capture
  imports File_Io Capture_Manifest
begin

text \<open>
  The capture of decoded audio in the offline mode (\<^verbatim>\<open>backend/utils/offline_audio_capture.py\<close>):
  a session appends its PCM to a part file, rewrites a progress document after every frame,
  and when it is closed publishes a WAV file and its metadata and removes the parts; at the
  next start of the server the parts that a crash left behind are published the same way. The
  clock, the modification time, the random part of temporary names and the answers of
  \<^verbatim>\<open>is_offline_runtime\<close> and \<^verbatim>\<open>local_storage_root_from_env\<close> are arguments.
\<close>

section \<open>Constants\<close>

definition PCM_PART_NAME :: string where "PCM_PART_NAME = ''audio.pcm.part''"
definition METADATA_PART_NAME :: string where "METADATA_PART_NAME = ''metadata.json.part''"
definition WAV_NAME :: string where "WAV_NAME = ''audio.wav''"
definition METADATA_NAME :: string where "METADATA_NAME = ''metadata.json''"
definition SCHEMA_VERSION :: int where "SCHEMA_VERSION = 1"
definition OUTPUT_SAMPLE_RATE :: nat where "OUTPUT_SAMPLE_RATE = 16000"
definition OUTPUT_CHANNELS :: nat where "OUTPUT_CHANNELS = 1"
definition OUTPUT_SAMPLE_WIDTH_BYTES :: nat where "OUTPUT_SAMPLE_WIDTH_BYTES = 2"

definition INPUT_CODECS_BY_SOURCE :: "(string \<times> string list) list" where
  "INPUT_CODECS_BY_SOURCE = [(''omi'', [''opus'', ''opus_fs320'']), (''phone'', [''pcm16''])]"

definition input_format_supported :: "string \<Rightarrow> string \<Rightarrow> bool" where
  "input_format_supported source input_codec \<longleftrightarrow>
     (case map_of INPUT_CODECS_BY_SOURCE source of None \<Rightarrow> False | Some codecs \<Rightarrow> input_codec \<in> set codecs)"

section \<open>Instants as text\<close>

text \<open>\<^verbatim>\<open>datetime.fromtimestamp(t, tz=utc).isoformat()\<close> with \<^verbatim>\<open>Z\<close> for the offset, for an instant in
  microseconds. The proleptic Gregorian date of a day number is computed in eras of 400 years
  that start on 1 March.\<close>

definition civil_date :: "int \<Rightarrow> int \<times> int \<times> int" where
  "civil_date days =
     (let z = days + 719468; era = z div 146097; doe = z mod 146097;
          yoe = (doe - doe div 1460 + doe div 36524 - doe div 146096) div 365;
          doy = doe - (365 * yoe + yoe div 4 - yoe div 100);
          mp = (5 * doy + 2) div 153;
          d = doy - (153 * mp + 2) div 5 + 1;
          m = (if mp < 10 then mp + 3 else mp - 9)
      in (yoe + era * 400 + (if m \<le> 2 then 1 else 0), m, d))"

definition pad_digits :: "nat \<Rightarrow> int \<Rightarrow> string" where
  "pad_digits w i = (let s = show_int i in replicate (w - length s) (CHR ''0'') @ s)"

definition utc_iso :: "timestamp \<Rightarrow> string" where
  "utc_iso t =
     (let secs = t div 1000000; micros = t mod 1000000; s = secs mod 86400 in
      case civil_date (secs div 86400) of (y, m, d) \<Rightarrow>
        pad_digits 4 y @ ''-'' @ pad_digits 2 m @ ''-'' @ pad_digits 2 d @ ''T'' @
        pad_digits 2 (s div 3600) @ '':'' @ pad_digits 2 (s div 60 mod 60) @ '':'' @ pad_digits 2 (s mod 60) @
        (if micros = 0 then '''' else ''.'' @ pad_digits 6 micros) @ ''Z'')"

section \<open>Session identifiers\<close>

text \<open>\<^verbatim>\<open>uuid.UUID\<close> takes braces, missing hyphens and a \<^verbatim>\<open>urn:\<close> prefix too; comparing its text with
  the value leaves the hyphenated form, in either case.\<close>

definition canonical_uuid :: "string \<Rightarrow> bool" where
  "canonical_uuid s \<longleftrightarrow>
     length s = 36 \<and> (\<forall>i \<in> set [0..<36]. if i \<in> {8, 13, 18, 23} then s ! i = CHR ''-'' else lower_hex (s ! i))"

definition validated_session_id :: "string \<Rightarrow> io_error + string" where
  "validated_session_id value =
     (let parsed = map lower_char value in
      if canonical_uuid parsed then Inr parsed
      else Inl (Value_Err ''offline capture session ID must be a canonical UUID''))"

section \<open>Atomic files\<close>

definition temp_name :: "string \<Rightarrow> string \<Rightarrow> string" where
  "temp_name name hex = CHR ''.'' # name @ CHR ''.'' # hex @ ''.tmp''"

definition atomic_json :: "string \<Rightarrow> string \<Rightarrow> jdict \<Rightarrow> unit io" where
  "atomic_json hex name payload =
     (let temporary = temp_name name hex in
      io_finally
        (io_then (open_exclusive temporary)
        (io_then (write_json temporary (sort_keys (JObj payload)))
        (io_then handle_call
                 (replace_file temporary name))))
        (unlink_file True temporary))"

text \<open>Little-endian numbers, and the header the \<^verbatim>\<open>wave\<close> module writes for \<open>n\<close> bytes of frames.\<close>

fun le_bytes :: "nat \<Rightarrow> nat \<Rightarrow> byte list" where
  "le_bytes 0 n = []"
| "le_bytes (Suc w) n = of_nat (n mod 256) # le_bytes w (n div 256)"

fun le_value :: "byte list \<Rightarrow> nat" where
  "le_value [] = 0"
| "le_value (b # bs) = unat b + 256 * le_value bs"

definition format_chunk :: "byte list" where
  "format_chunk = utf8_bytes ''WAVE'' @ utf8_bytes ''fmt '' @ le_bytes 4 16 @ le_bytes 2 1 @ le_bytes 2 OUTPUT_CHANNELS @
     le_bytes 4 OUTPUT_SAMPLE_RATE @ le_bytes 4 (OUTPUT_CHANNELS * OUTPUT_SAMPLE_RATE * OUTPUT_SAMPLE_WIDTH_BYTES) @
     le_bytes 2 (OUTPUT_CHANNELS * OUTPUT_SAMPLE_WIDTH_BYTES) @ le_bytes 2 (8 * OUTPUT_SAMPLE_WIDTH_BYTES) @ utf8_bytes ''data''"

definition wav_header :: "nat \<Rightarrow> byte list" where
  "wav_header n = utf8_bytes ''RIFF'' @ le_bytes 4 (36 + n) @ format_chunk @ le_bytes 4 n"

text \<open>\<^verbatim>\<open>writeframesraw\<close>: the first call writes a header for the frames it is given; a call that was
  cut off leaves the temporary file torn.\<close>

definition frames_written :: "byte list \<Rightarrow> byte list \<Rightarrow> byte list" where
  "frames_written b chunk =
     (if b = [] then wav_header (OUTPUT_CHANNELS * OUTPUT_SAMPLE_WIDTH_BYTES * (length chunk div (OUTPUT_CHANNELS * OUTPUT_SAMPLE_WIDTH_BYTES)))
      else b) @ chunk"

definition writeframesraw :: "string \<Rightarrow> byte list \<Rightarrow> unit io" where
  "writeframesraw name chunk = syscall
     (\<lambda>fs. Inr ((), case fs name of Some (Bytes b) \<Rightarrow> fs(name \<mapsto> Bytes (frames_written b chunk)) | _ \<Rightarrow> fs))
     (\<lambda>_ fs. fs(name \<mapsto> Torn))"

text \<open>\<^verbatim>\<open>close\<close>: a header if there is none, and the two lengths of the header where they are not
  those of the data; a length that does not fit 32 bits is a \<^verbatim>\<open>struct.error\<close>.\<close>

definition closed_wave :: "byte list \<Rightarrow> io_error + byte list" where
  "closed_wave b =
     (if b = [] then Inr (wav_header 0)
      else
        let datawritten = length b - 44 in
        if le_value (take 4 (drop 40 b)) = datawritten then Inr b
        else if 2 ^ 32 \<le> 36 + datawritten then Inl Struct_Error
        else Inr (take 4 b @ le_bytes 4 (36 + datawritten) @ take 32 (drop 8 b) @ le_bytes 4 datawritten @ drop 44 b))"

definition close_wave :: "string \<Rightarrow> unit io" where
  "close_wave name = syscall
     (\<lambda>fs. case fs name of
         Some (Bytes b) \<Rightarrow> (case closed_wave b of Inl e \<Rightarrow> Inl e | Inr b' \<Rightarrow> Inr ((), fs(name \<mapsto> Bytes b')))
       | _ \<Rightarrow> Inr ((), fs))
     (\<lambda>_ fs. fs(name \<mapsto> Torn))"

definition CHUNK_BYTES :: nat where "CHUNK_BYTES = 1024 * 1024"

text \<open>\<^verbatim>\<open>while chunk := source.read(1024 * 1024)\<close>: every turn is a read and a write, and the read
  that finds the end is the last call.\<close>

function copy_chunks :: "string \<Rightarrow> byte list \<Rightarrow> unit io" where
  "copy_chunks name rest =
     io_then handle_call
       (if rest = [] then io_return ()
        else io_then (writeframesraw name (take CHUNK_BYTES rest)) (copy_chunks name (drop CHUNK_BYTES rest)))"
  by auto
termination
  by (relation "measure (\<lambda>(_, rest). length rest)") (auto simp: CHUNK_BYTES_def length_greater_0_conv [symmetric] simp del: length_greater_0_conv)

declare copy_chunks.simps [simp del]

definition write_wav_atomic :: "string \<Rightarrow> string \<Rightarrow> string \<Rightarrow> unit io" where
  "write_wav_atomic hex pcm_name wav_name =
     (let temporary = temp_name wav_name hex in
      io_finally
        (io_then (open_truncate temporary)
        (io_then (io_finally (io_bind (read_bytes pcm_name) (copy_chunks temporary)) (close_wave temporary))
        (io_then handle_call
                 (replace_file temporary wav_name))))
        (unlink_file True temporary))"

section \<open>Metadata\<close>

text \<open>\<^verbatim>\<open>round(a / b, 6)\<close> for a quotient of integers: both the quotient and the rounded decimal are
  the nearest double, ties to the even significand.\<close>

definition round_half_even :: "rat \<Rightarrow> int" where
  "round_half_even q =
     (let f = \<lfloor>q\<rfloor>; r = q - of_int f in
      if r < 1 / 2 then f else if 1 / 2 < r then f + 1 else if even f then f else f + 1)"

fun bit_count :: "nat \<Rightarrow> nat" where
  "bit_count n = (if n = 0 then 0 else Suc (bit_count (n div 2)))"

declare bit_count.simps [simp del]

definition pow2 :: "int \<Rightarrow> rat" where
  "pow2 e = (if 0 \<le> e then 2 ^ nat e else 1 / 2 ^ nat (- e))"

definition double_of :: "rat \<Rightarrow> rat" where
  "double_of q =
     (if q \<le> 0 then 0
      else case quotient_of q of (a, b) \<Rightarrow>
        let k = int (bit_count (nat a)) - int (bit_count (nat b));
            e = (if pow2 k \<le> q then k - 52 else k - 53)
        in of_int (round_half_even (q / pow2 e)) * pow2 e)"

definition duration_seconds :: "nat \<Rightarrow> rat" where
  "duration_seconds decoded_pcm_bytes =
     (let quotient = double_of (of_nat decoded_pcm_bytes / of_nat (OUTPUT_SAMPLE_RATE * OUTPUT_CHANNELS * OUTPUT_SAMPLE_WIDTH_BYTES))
      in double_of (of_int (round_half_even (quotient * 10 ^ 6)) / 10 ^ 6))"

definition capture_metadata ::
  "string \<Rightarrow> string \<Rightarrow> string option \<Rightarrow> string \<Rightarrow> string \<Rightarrow> int \<Rightarrow> int \<Rightarrow> nat \<Rightarrow> int \<Rightarrow> string \<Rightarrow> jdict" where
  "capture_metadata session_id started_at ended_at input_codec source frames_received encoded_bytes decoded_pcm_bytes decode_errors status =
     [(''schema_version'', JInt SCHEMA_VERSION),
      (''session_id'', JStr session_id),
      (''started_at'', JStr started_at),
      (''ended_at'', case ended_at of None \<Rightarrow> JNull | Some s \<Rightarrow> JStr s),
      (''source'', JStr source),
      (''input'', JObj [(''codec'', JStr input_codec), (''sample_rate'', JInt (int OUTPUT_SAMPLE_RATE)), (''channels'', JInt (int OUTPUT_CHANNELS))]),
      (''output'', JObj [(''file'', JStr WAV_NAME), (''codec'', JStr ''pcm_s16le''), (''sample_rate'', JInt (int OUTPUT_SAMPLE_RATE)), (''channels'', JInt (int OUTPUT_CHANNELS))]),
      (''frames_received'', JInt frames_received),
      (''encoded_bytes'', JInt encoded_bytes),
      (''decoded_pcm_bytes'', JInt (int decoded_pcm_bytes)),
      (''duration_seconds'', JFloat (duration_seconds decoded_pcm_bytes)),
      (''decode_errors'', JInt decode_errors),
      (''status'', JStr status)]"

section \<open>A capture\<close>

text \<open>The object of a session; the handle of the part file is its name.\<close>

record offline_capture =
  oc_session_id :: string
  oc_input_codec :: string
  oc_source :: string
  oc_started_at :: string
  oc_frames_received :: int
  oc_encoded_bytes :: int
  oc_decoded_pcm_bytes :: nat
  oc_decode_errors :: int
  oc_closed :: bool

definition metadata_of :: "offline_capture \<Rightarrow> string option \<Rightarrow> string \<Rightarrow> jdict" where
  "metadata_of c ended_at status =
     capture_metadata (oc_session_id c) (oc_started_at c) ended_at (oc_input_codec c) (oc_source c) (oc_frames_received c)
       (oc_encoded_bytes c) (oc_decoded_pcm_bytes c) (oc_decode_errors c) status"

definition write_progress_metadata :: "string \<Rightarrow> offline_capture \<Rightarrow> unit io" where
  "write_progress_metadata hex c = atomic_json hex METADATA_PART_NAME (metadata_of c None ''recording'')"

text \<open>The directories of the captures by name, in no particular order.\<close>

type_synonym captures = "(string \<times> files) list"

text \<open>An operation inside one directory.\<close>

definition in_dir :: "string \<Rightarrow> 'a io \<Rightarrow> captures \<times> tick list \<Rightarrow> 'a outcome \<times> captures \<times> tick list" where
  "in_dir d m = (\<lambda>(cs, ts). case m (case map_of cs d of None \<Rightarrow> Map.empty | Some fs \<Rightarrow> fs, ts) of
     (r, fs', ts') \<Rightarrow> (r, AList.update d fs' cs, ts'))"

text \<open>\<^verbatim>\<open>OfflineAudioCapture(...)\<close>. Making the directory is a call of its own.\<close>

definition new_capture :: "string \<Rightarrow> timestamp \<Rightarrow> string \<Rightarrow> string \<Rightarrow> string \<Rightarrow> captures \<times> tick list
    \<Rightarrow> offline_capture outcome \<times> captures \<times> tick list" where
  "new_capture hex now session_id input_codec source = (\<lambda>(cs, ts).
     case validated_session_id session_id of
       Inl e \<Rightarrow> (Raised e, cs, ts)
     | Inr sid \<Rightarrow>
         if \<not> input_format_supported source input_codec
         then (Raised (Value_Err ''unsupported offline capture source/codec combination''), cs, ts)
         else
           let c = \<lparr>oc_session_id = sid, oc_input_codec = input_codec, oc_source = source, oc_started_at = utc_iso now,
                    oc_frames_received = 0, oc_encoded_bytes = 0, oc_decoded_pcm_bytes = 0, oc_decode_errors = 0, oc_closed = False\<rparr>
           in case ts of
                Fails n # ts' \<Rightarrow> (Raised Os_Error, cs, ts')
              | Dies n # ts' \<Rightarrow> (Killed, cs, ts')
              | _ \<Rightarrow>
                  if map_of cs sid \<noteq> None then (Raised File_Exists, cs, tl ts)
                  else in_dir sid
                         (io_then (open_exclusive PCM_PART_NAME)
                         (io_then (write_progress_metadata hex c)
                                  (io_return c))) (cs, tl ts))"

text \<open>The methods, on the object and the files of its directory. An exception leaves in the object
  what was assigned before it.\<close>

definition record_decoded_frame ::
  "string \<Rightarrow> int \<Rightarrow> byte list \<Rightarrow> offline_capture \<Rightarrow> files \<times> tick list \<Rightarrow> (unit outcome \<times> offline_capture) \<times> files \<times> tick list" where
  "record_decoded_frame hex encoded_bytes pcm c s =
     (if oc_closed c then ((Raised (Runtime_Err ''offline capture is already closed''), c), s)
      else if length pcm mod OUTPUT_SAMPLE_WIDTH_BYTES \<noteq> 0
      then ((Raised (Value_Err ''decoded PCM byte count is not aligned to PCM16 samples''), c), s)
      else case append_raw PCM_PART_NAME pcm s of
          (Done _, s') \<Rightarrow>
            (let c' = c\<lparr>oc_frames_received := oc_frames_received c + 1, oc_encoded_bytes := oc_encoded_bytes c + encoded_bytes,
                        oc_decoded_pcm_bytes := oc_decoded_pcm_bytes c + length pcm\<rparr>
             in case write_progress_metadata hex c' s' of (r, s'') \<Rightarrow> ((r, c'), s''))
        | (r, s') \<Rightarrow> ((r, c), s'))"

definition record_decode_error ::
  "string \<Rightarrow> int \<Rightarrow> offline_capture \<Rightarrow> files \<times> tick list \<Rightarrow> (unit outcome \<times> offline_capture) \<times> files \<times> tick list" where
  "record_decode_error hex encoded_bytes c s =
     (if oc_closed c then ((Raised (Runtime_Err ''offline capture is already closed''), c), s)
      else
        let c' = c\<lparr>oc_frames_received := oc_frames_received c + 1, oc_encoded_bytes := oc_encoded_bytes c + encoded_bytes,
                   oc_decode_errors := oc_decode_errors c + 1\<rparr>
        in case write_progress_metadata hex c' s of (r, s') \<Rightarrow> ((r, c'), s'))"

text \<open>What closing and recovering share: the WAV file, then its metadata, then the parts.\<close>

definition publish_capture :: "string \<Rightarrow> string \<Rightarrow> jdict \<Rightarrow> unit io" where
  "publish_capture hex1 hex2 metadata =
     io_then (write_wav_atomic hex1 PCM_PART_NAME WAV_NAME)
     (io_then (atomic_json hex2 METADATA_NAME metadata)
     (io_then (unlink_file False PCM_PART_NAME)
              (unlink_file False METADATA_PART_NAME)))"

text \<open>\<open>handle_call\<close> twice: the flush with \<^verbatim>\<open>fsync\<close>, and closing the part file.\<close>

definition finalize_capture ::
  "string \<Rightarrow> string \<Rightarrow> timestamp \<Rightarrow> offline_capture \<Rightarrow> files \<times> tick list \<Rightarrow> (jdict outcome \<times> offline_capture) \<times> files \<times> tick list" where
  "finalize_capture hex1 hex2 now c s =
     (if oc_closed c then ((Raised (Runtime_Err ''offline capture is already closed''), c), s)
      else
        let c' = c\<lparr>oc_closed := True\<rparr>; metadata = metadata_of c' (Some (utc_iso now)) ''completed''
        in case io_then handle_call (io_then handle_call (io_then (publish_capture hex1 hex2 metadata) (io_return metadata))) s of
             (r, s') \<Rightarrow> ((r, c'), s'))"

text \<open>\<^verbatim>\<open>create_offline_audio_capture\<close>; the root is what \<^verbatim>\<open>local_storage_root_from_env\<close> gives or raises,
  and stands for the directories under it.\<close>

definition create_offline_audio_capture ::
  "bool \<Rightarrow> (io_error + unit option) \<Rightarrow> string \<Rightarrow> timestamp \<Rightarrow> string \<Rightarrow> string option \<Rightarrow> string \<Rightarrow> int \<Rightarrow> int
    \<Rightarrow> captures \<times> tick list \<Rightarrow> offline_capture option outcome \<times> captures \<times> tick list" where
  "create_offline_audio_capture offline storage_root hex now session_id source input_codec sample_rate channels s =
     (if \<not> offline then (Done None, s)
      else case source of
        None \<Rightarrow> (Done None, s)
      | Some src \<Rightarrow>
          if src \<notin> fst ` set INPUT_CODECS_BY_SOURCE then (Done None, s)
          else if sample_rate \<noteq> int OUTPUT_SAMPLE_RATE \<or> channels \<noteq> int OUTPUT_CHANNELS
          then (Raised (Runtime_Err ''offline capture requires mono 16 kHz audio''), s)
          else if \<not> input_format_supported src input_codec
          then (Raised (Runtime_Err ''unsupported local audio source/codec combination''), s)
          else case storage_root of
              Inl e \<Rightarrow> (Raised e, s)
            | Inr None \<Rightarrow> (Raised (Runtime_Err ''offline capture requires validated OMI_LOCAL_STORAGE_ROOT''), s)
            | Inr (Some _) \<Rightarrow>
                (case new_capture hex now session_id input_codec src s of
                   (Done c, s') \<Rightarrow> (Done (Some c), s')
                 | (Raised e, s') \<Rightarrow> (Raised e, s')
                 | (Killed, s') \<Rightarrow> (Killed, s')))"

section \<open>Recovery\<close>

text \<open>The checks on the progress document of a leftover part: the source and the codec it names.
  A list or an object is not hashable, so looking it up is a \<^verbatim>\<open>TypeError\<close>.\<close>

fun hashable :: "json \<Rightarrow> bool" where
  "hashable (JList _) = False"
| "hashable (JObj _) = False"
| "hashable _ = True"

definition check_recovery :: "string \<Rightarrow> json \<Rightarrow> io_error + (jdict \<times> string \<times> string)" where
  "check_recovery session_id loaded =
     (case loaded of
        JObj d \<Rightarrow>
          if json_number (dict_get d ''schema_version'') \<noteq> Some (of_int SCHEMA_VERSION)
          then Inl (Value_Err ''unsupported offline capture recovery metadata'')
          else if dict_get d ''session_id'' \<noteq> JStr session_id then Inl (Value_Err ''offline capture recovery identity mismatch'')
          else if \<not> hashable (dict_get d ''source'') then Inl Type_Err
          else (case dict_get d ''source'' of
              JStr source \<Rightarrow>
                if source \<notin> fst ` set INPUT_CODECS_BY_SOURCE then Inl (Value_Err ''offline capture recovery identity mismatch'')
                else (case dict_get d ''input'' of
                    JObj input \<Rightarrow>
                      if \<not> hashable (dict_get input ''codec'') then Inl Type_Err
                      else (case dict_get input ''codec'' of
                          JStr codec \<Rightarrow>
                            if \<not> input_format_supported source codec then Inl (Value_Err ''offline capture recovery codec mismatch'')
                            else if json_number (dict_get input ''sample_rate'') \<noteq> Some (of_nat OUTPUT_SAMPLE_RATE) \<or>
                                    json_number (dict_get input ''channels'') \<noteq> Some (of_nat OUTPUT_CHANNELS)
                            then Inl (Value_Err ''offline capture recovery input format mismatch'')
                            else Inr (d, source, codec)
                        | _ \<Rightarrow> Inl (Value_Err ''offline capture recovery codec mismatch''))
                  | _ \<Rightarrow> Inl (Value_Err ''offline capture recovery codec mismatch''))
            | _ \<Rightarrow> Inl (Value_Err ''offline capture recovery identity mismatch''))
      | _ \<Rightarrow> Inl (Value_Err ''unsupported offline capture recovery metadata''))"

text \<open>\<^verbatim>\<open>int(d.get(k) or 0)\<close>.\<close>

definition counter_of :: "jdict \<Rightarrow> string \<Rightarrow> io_error + int" where
  "counter_of d k = (case json_int (json_or (dict_get d k) (JInt 0)) of None \<Rightarrow> Inl Type_Err | Some i \<Rightarrow> Inr i)"

text \<open>The metadata of a recovered capture of \<open>n\<close> bytes.\<close>

definition recovered_metadata ::
  "(json \<Rightarrow> string) \<Rightarrow> string \<Rightarrow> string \<Rightarrow> jdict \<Rightarrow> string \<Rightarrow> string \<Rightarrow> nat \<Rightarrow> io_error + jdict" where
  "recovered_metadata repr session_id ended_at d source codec n =
     (case counter_of d ''frames_received'' of
        Inl e \<Rightarrow> Inl e
      | Inr frames \<Rightarrow>
          (case counter_of d ''encoded_bytes'' of
             Inl e \<Rightarrow> Inl e
           | Inr encoded \<Rightarrow>
               (case counter_of d ''decode_errors'' of
                  Inl e \<Rightarrow> Inl e
                | Inr errors \<Rightarrow>
                    Inr (capture_metadata session_id (json_str repr (json_or (dict_get d ''started_at'') (JStr ended_at)))
                           (Some ended_at) codec source frames encoded n errors ''recovered''))))"

text \<open>What the random generator, the clock and the part's modification time give a recovery.\<close>

record recovery_env =
  re_hex1 :: string
  re_hex2 :: string
  re_mtime :: timestamp
  re_now :: timestamp
  re_repr :: "json \<Rightarrow> string"

definition recover_one :: "recovery_env \<Rightarrow> string \<Rightarrow> unit io" where
  "recover_one env dir_name =
     io_bind (io_lift (validated_session_id dir_name)) (\<lambda>session_id.
     io_bind (read_json METADATA_PART_NAME) (\<lambda>loaded.
     io_bind (io_lift (check_recovery session_id loaded)) (\<lambda>(d, source, codec).
     io_bind (read_bytes PCM_PART_NAME) (\<lambda>pcm.
       if length pcm mod OUTPUT_SAMPLE_WIDTH_BYTES \<noteq> 0
       then io_raise (Value_Err ''offline capture PCM part is not sample-aligned'')
       else
     io_then handle_call (
     io_bind (io_lift (recovered_metadata (re_repr env) session_id (utc_iso (max (re_mtime env) (re_now env))) d source codec (length pcm)))
       (\<lambda>recovered. publish_capture (re_hex1 env) (re_hex2 env) recovered))))))"

text \<open>The pass over \<^verbatim>\<open>sorted(capture_root.glob('*/audio.pcm.part'))\<close>; every exception is counted. A
  capture root that is no directory has no parts.\<close>

definition leftover_parts :: "captures \<Rightarrow> string list" where
  "leftover_parts cs =
     sort (filter (\<lambda>d. case map_of cs d of None \<Rightarrow> False | Some fs \<Rightarrow> fs PCM_PART_NAME \<noteq> None) (remdups (map fst cs)))"

fun recover_loop :: "(string \<Rightarrow> recovery_env) \<Rightarrow> string list \<Rightarrow> nat \<times> nat \<Rightarrow> captures \<times> tick list
    \<Rightarrow> (nat \<times> nat) outcome \<times> captures \<times> tick list" where
  "recover_loop env [] n s = (Done n, s)"
| "recover_loop env (d # ds) (recovered, failed) s =
     (case in_dir d (recover_one (env d) d) s of
        (Done _, s') \<Rightarrow> recover_loop env ds (Suc recovered, failed) s'
      | (Raised _, s') \<Rightarrow> recover_loop env ds (recovered, Suc failed) s'
      | (Killed, s') \<Rightarrow> (Killed, s'))"

definition recover_offline_audio_captures ::
  "bool \<Rightarrow> (io_error + unit option) \<Rightarrow> (string \<Rightarrow> recovery_env) \<Rightarrow> captures \<times> tick list
    \<Rightarrow> (nat \<times> nat) outcome \<times> captures \<times> tick list" where
  "recover_offline_audio_captures offline storage_root env s =
     (if \<not> offline then (Done (0, 0), s)
      else case storage_root of
        Inl e \<Rightarrow> (Raised e, s)
      | Inr None \<Rightarrow> (Raised (Runtime_Err ''offline capture recovery requires validated OMI_LOCAL_STORAGE_ROOT''), s)
      | Inr (Some _) \<Rightarrow> recover_loop env (leftover_parts (fst s)) (0, 0) s)"

section \<open>The WAV file\<close>

lemma le_bytes_length [simp]: "length (le_bytes w n) = w"
  by (induction w arbitrary: n) auto

lemma le_value_le_bytes: "le_value (le_bytes w n) = n mod 256 ^ w"
proof (induction w arbitrary: n)
  case (Suc w)
  have "unat (of_nat (n mod 256) :: byte) = n mod 256"
    by (simp add: unat_of_nat)
  then show ?case using Suc by (simp add: mod_mult2_eq)
qed simp

lemma utf8_bytes_length [simp]: "length (utf8_bytes s) = length s"
  by (simp add: utf8_bytes_def)

lemma format_chunk_length [simp]: "length format_chunk = 32"
  by (simp add: format_chunk_def)

lemma wav_header_length [simp]: "length (wav_header n) = 44"
  by (simp add: wav_header_def)

lemma wav_header_not_Nil [simp]: "wav_header n \<noteq> []"
  using wav_header_length [of n] by (metis list.size(3) zero_neq_numeral)

text \<open>What a complete file of the bytes \<open>p\<close> holds.\<close>

definition wav_bytes :: "byte list \<Rightarrow> byte list" where
  "wav_bytes p = wav_header (length p) @ p"

lemma take_drop_header:
  "take 4 (wav_header m @ d) = utf8_bytes ''RIFF''" "take 32 (drop 8 (wav_header m @ d)) = format_chunk"
  "take 4 (drop 40 (wav_header m @ d)) = le_bytes 4 m" "drop 44 (wav_header m @ d) = d"
  by (simp_all add: wav_header_def)

lemma closed_wave_header:
  assumes "m < 2 ^ 32"
  shows "closed_wave (wav_header m @ d) =
    (if m \<noteq> length d \<and> 2 ^ 32 \<le> 36 + length d then Inl Struct_Error else Inr (wav_bytes d))"
proof -
  have m: "le_value (le_bytes 4 m) = m"
    using assms by (simp add: le_value_le_bytes)
  have rest: "length (wav_header m @ d) - 44 = length d" "wav_header m @ d \<noteq> []"
    by simp_all
  have "closed_wave (wav_header m @ d) =
    (if m = length d then Inr (wav_header m @ d)
     else if 2 ^ 32 \<le> 36 + length d then Inl Struct_Error else Inr (wav_header (length d) @ d))"
    unfolding closed_wave_def Let_def rest(1) take_drop_header if_not_P [OF rest(2)]
    by (simp only: m wav_header_def append_assoc)
  then show ?thesis by (auto simp: wav_bytes_def)
qed

text \<open>The bytes of a temporary file that held \<open>b\<close>, after the chunks of \<open>q\<close>.\<close>

definition copied :: "byte list \<Rightarrow> byte list \<Rightarrow> byte list" where
  "copied b q = (if q = [] then b else frames_written b (take CHUNK_BYTES q) @ drop CHUNK_BYTES q)"

lemma copied_step: "q \<noteq> [] \<Longrightarrow> copied (frames_written b (take CHUNK_BYTES q)) (drop CHUNK_BYTES q) = copied b q"
  by (auto simp: copied_def frames_written_def append_take_drop_id simp del: drop_drop)

lemma closed_wave_copied:
  "closed_wave (copied [] p) = (if 2 ^ 32 \<le> 36 + length p then Inl Struct_Error else Inr (wav_bytes p))"
proof (cases "p = []")
  case True
  then show ?thesis by (simp add: copied_def closed_wave_def wav_bytes_def)
next
  case False
  define m where "m = 2 * (length (take CHUNK_BYTES p) div 2)"
  have "copied [] p = wav_header m @ p"
    using False by (simp add: copied_def frames_written_def m_def OUTPUT_CHANNELS_def OUTPUT_SAMPLE_WIDTH_BYTES_def)
  moreover have m: "m \<le> 1048576"
    by (simp add: m_def CHUNK_BYTES_def)
  ultimately show ?thesis
    by (simp add: closed_wave_header)
qed

lemma copy_chunks_triple:
  assumes "hidden t"
  shows "io_triple (\<lambda>fs. agrees gs fs \<and> fs t = Some (Bytes b)) (copy_chunks t q)
    (\<lambda>_ fs. agrees gs fs \<and> fs t = Some (Bytes (copied b q))) (agrees gs)"
  using assms
proof (induction t q arbitrary: b rule: copy_chunks.induct)
  case (1 t q)
  have writes: "io_triple (\<lambda>fs. agrees gs fs \<and> fs t = Some (Bytes b)) (writeframesraw t chunk)
      (\<lambda>_ fs. agrees gs fs \<and> fs t = Some (Bytes (frames_written b chunk))) (agrees gs)" for chunk
    unfolding writeframesraw_def by (rule io_triple_syscall) (use 1 in auto)
  have "io_triple (\<lambda>fs. agrees gs fs \<and> fs t = Some (Bytes b))
      (if q = [] then io_return () else io_then (writeframesraw t (take CHUNK_BYTES q)) (copy_chunks t (drop CHUNK_BYTES q)))
      (\<lambda>_ fs. agrees gs fs \<and> fs t = Some (Bytes (copied b q))) (agrees gs)"
  proof (cases "q = []")
    case True
    then show ?thesis by (simp add: io_triple_return copied_def)
  next
    case False
    have "io_triple (\<lambda>fs. agrees gs fs \<and> fs t = Some (Bytes (frames_written b (take CHUNK_BYTES q)))) (copy_chunks t (drop CHUNK_BYTES q))
        (\<lambda>_ fs. agrees gs fs \<and> fs t = Some (Bytes (copied b q))) (agrees gs)"
      using 1(1) [OF False 1(2), of "frames_written b (take CHUNK_BYTES q)"] unfolding copied_step [OF False] .
    then show ?thesis
      using False by (simp add: io_triple_bind [OF writes])
  qed
  then show ?case
    unfolding copy_chunks.simps [of t q] by (intro io_triple_bind [OF handle_call_triple]) simp_all
qed

lemma close_wave_triple:
  assumes "hidden t"
  shows "io_triple (\<lambda>fs. agrees gs fs \<and> fs t = Some (Bytes (copied [] p))) (close_wave t)
    (\<lambda>_ fs. agrees gs fs \<and> fs t = Some (Bytes (wav_bytes p))) (agrees gs)"
  unfolding close_wave_def
  by (rule io_triple_syscall) (use assms in \<open>auto simp: closed_wave_copied split: if_splits\<close>)

lemma close_wave_keeps: "hidden t \<Longrightarrow> io_triple (agrees gs) (close_wave t) (\<lambda>_. agrees gs) (agrees gs)"
  unfolding close_wave_def
  by (rule io_triple_syscall) (auto split: option.splits content.splits sum.splits)

section \<open>Atomic installation\<close>

lemma temp_hidden [simp]: "hidden (temp_name name hex)"
  by (simp add: hidden_def temp_name_def)

lemma names_visible [simp]:
  "\<not> hidden PCM_PART_NAME" "\<not> hidden METADATA_PART_NAME" "\<not> hidden WAV_NAME" "\<not> hidden METADATA_NAME"
  by (simp_all add: hidden_def PCM_PART_NAME_def METADATA_PART_NAME_def WAV_NAME_def METADATA_NAME_def)

lemma names_distinct [simp]:
  "PCM_PART_NAME \<noteq> METADATA_PART_NAME" "PCM_PART_NAME \<noteq> WAV_NAME" "PCM_PART_NAME \<noteq> METADATA_NAME"
  "METADATA_PART_NAME \<noteq> PCM_PART_NAME" "METADATA_PART_NAME \<noteq> WAV_NAME" "METADATA_PART_NAME \<noteq> METADATA_NAME"
  "WAV_NAME \<noteq> PCM_PART_NAME" "WAV_NAME \<noteq> METADATA_PART_NAME" "WAV_NAME \<noteq> METADATA_NAME"
  "METADATA_NAME \<noteq> PCM_PART_NAME" "METADATA_NAME \<noteq> METADATA_PART_NAME" "METADATA_NAME \<noteq> WAV_NAME"
  by (simp_all add: PCM_PART_NAME_def METADATA_PART_NAME_def WAV_NAME_def METADATA_NAME_def)

abbreviation document :: "jdict \<Rightarrow> content" where
  "document d \<equiv> Doc (sort_keys (JObj d))"

lemma atomic_json_installs:
  assumes "\<not> hidden name"
  shows "installs (atomic_json hex name d) gs name (document d)"
proof -
  let ?t = "temp_name name hex"
  have "io_triple (agrees gs)
      (io_then (open_exclusive ?t) (io_then (write_json ?t (sort_keys (JObj d))) handle_call))
      (\<lambda>_ fs. agrees gs fs \<and> fs ?t = Some (document d)) (agrees gs)"
    by (intro io_triple_bind [OF open_exclusive_temp] io_triple_bind [OF write_json_temp] handle_call_triple) simp_all
  from installs_through_temp [OF _ assms this] show ?thesis
    by (simp add: atomic_json_def Let_def io_bind_assoc)
qed

text \<open>The bytes under a name, none when there is no such file of bytes.\<close>

definition bytes_at :: "files \<Rightarrow> string \<Rightarrow> byte list" where
  "bytes_at fs name = (case fs name of Some (Bytes b) \<Rightarrow> b | _ \<Rightarrow> [])"

lemma copy_part_triple:
  assumes "\<not> hidden pcm_name" "hidden t"
  shows "io_triple (\<lambda>fs. agrees gs fs \<and> fs t = Some (Bytes [])) (io_bind (read_bytes pcm_name) (copy_chunks t))
    (\<lambda>_ fs. agrees gs fs \<and> fs t = Some (Bytes (copied [] (bytes_at gs pcm_name)))) (agrees gs)"
proof (rule io_triple_bind [OF read_bytes_triple])
  fix q
  show "io_triple (\<lambda>fs. (agrees gs fs \<and> fs t = Some (Bytes [])) \<and> fs pcm_name = Some (Bytes q)) (copy_chunks t q)
      (\<lambda>_ fs. agrees gs fs \<and> fs t = Some (Bytes (copied [] (bytes_at gs pcm_name)))) (agrees gs)"
  proof (cases "gs pcm_name = Some (Bytes q)")
    case True
    then have "bytes_at gs pcm_name = q" by (simp add: bytes_at_def)
    then show ?thesis
      using assms(2) by (intro io_triple_weaken [OF copy_chunks_triple [of t gs "[]" q]]) auto
  next
    case False
    then show ?thesis
      using assms(1) by (auto simp: io_triple_def dest: agreesD)
  qed
qed simp

lemma write_wav_installs:
  assumes "\<not> hidden name" "\<not> hidden pcm_name"
  shows "installs (write_wav_atomic hex pcm_name name) gs name (Bytes (wav_bytes (bytes_at gs pcm_name)))"
proof -
  let ?t = "temp_name name hex" and ?p = "bytes_at gs pcm_name"
  have "io_triple (\<lambda>fs. agrees gs fs \<and> fs ?t = Some (Bytes []))
      (io_finally (io_bind (read_bytes pcm_name) (copy_chunks ?t)) (close_wave ?t))
      (\<lambda>_ fs. agrees gs fs \<and> fs ?t = Some (Bytes (wav_bytes ?p))) (agrees gs)"
    by (rule io_triple_finally [OF copy_part_triple [OF assms(2)]]) (simp_all add: close_wave_triple close_wave_keeps)
  then have "io_triple (agrees gs)
      (io_then (open_truncate ?t) (io_then (io_finally (io_bind (read_bytes pcm_name) (copy_chunks ?t)) (close_wave ?t)) handle_call))
      (\<lambda>_ fs. agrees gs fs \<and> fs ?t = Some (Bytes (wav_bytes ?p))) (agrees gs)"
    by (intro io_triple_bind [OF open_truncate_temp] io_triple_bind [OF _ handle_call_triple]) simp_all
  from installs_through_temp [OF _ assms(1) this] show ?thesis
    by (simp add: write_wav_atomic_def Let_def io_bind_assoc)
qed

text \<open>Audio whose length does not fit the header is not installed, whatever happens.\<close>

lemma write_wav_oversized:
  assumes "\<not> hidden pcm_name" "gs pcm_name = Some (Bytes p)" "2 ^ 32 \<le> 36 + length p"
  shows "io_triple (agrees gs) (write_wav_atomic hex pcm_name name) (\<lambda>_ _. False) (agrees gs)"
proof -
  let ?t = "temp_name name hex"
  have "bytes_at gs pcm_name = p" using assms(2) by (simp add: bytes_at_def)
  then have copy: "io_triple (\<lambda>fs. agrees gs fs \<and> fs ?t = Some (Bytes [])) (io_bind (read_bytes pcm_name) (copy_chunks ?t))
      (\<lambda>_ fs. agrees gs fs \<and> fs ?t = Some (Bytes (copied [] p))) (agrees gs)"
    using copy_part_triple [OF assms(1), of ?t gs] by simp
  have close: "io_triple (\<lambda>fs. agrees gs fs \<and> fs ?t = Some (Bytes (copied [] p))) (close_wave ?t) (\<lambda>_ _. False) (agrees gs)"
    unfolding close_wave_def by (rule io_triple_syscall) (use assms(3) in \<open>auto simp: closed_wave_copied\<close>)
  have "io_triple (\<lambda>fs. agrees gs fs \<and> fs ?t = Some (Bytes []))
      (io_finally (io_bind (read_bytes pcm_name) (copy_chunks ?t)) (close_wave ?t)) (\<lambda>_ _. False) (agrees gs)"
    by (rule io_triple_finally [OF copy close]) (simp_all add: close_wave_keeps)
  then have "io_triple (agrees gs) (io_then (open_truncate ?t) (io_then (io_finally (io_bind (read_bytes pcm_name) (copy_chunks ?t)) (close_wave ?t))
      (io_then handle_call (replace_file ?t name)))) (\<lambda>_ _. False) (agrees gs)"
    by (intro io_triple_bind [OF open_truncate_temp [OF temp_hidden]] io_triple_bind [where R = "\<lambda>_ _. False"]) (simp_all add: io_triple_def)
  then show ?thesis
    unfolding write_wav_atomic_def Let_def
    by (rule io_triple_finally) (simp_all add: unlink_temp, simp add: io_triple_def)
qed

interpretation capture: publication
  "write_wav_atomic hex1 PCM_PART_NAME WAV_NAME" "atomic_json hex2 METADATA_NAME d" gs
  WAV_NAME "Bytes (wav_bytes (bytes_at gs PCM_PART_NAME))" METADATA_NAME "document d" PCM_PART_NAME METADATA_PART_NAME
  for hex1 hex2 d gs
  by unfold_locales (rule write_wav_installs atomic_json_installs; simp)+

section \<open>Progress documents\<close>

lemma capture_metadata_keys: "distinct (map fst (capture_metadata sid st en co so f e n er status))"
  by (simp add: capture_metadata_def)

lemma capture_metadata_get:
  "dict_get (capture_metadata sid st en co so f e n er status) ''schema_version'' = JInt SCHEMA_VERSION"
  "dict_get (capture_metadata sid st en co so f e n er status) ''session_id'' = JStr sid"
  "dict_get (capture_metadata sid st en co so f e n er status) ''started_at'' = JStr st"
  "dict_get (capture_metadata sid st en co so f e n er status) ''source'' = JStr so"
  "dict_get (capture_metadata sid st en co so f e n er status) ''input'' =
     JObj [(''codec'', JStr co), (''sample_rate'', JInt (int OUTPUT_SAMPLE_RATE)), (''channels'', JInt (int OUTPUT_CHANNELS))]"
  "dict_get (capture_metadata sid st en co so f e n er status) ''frames_received'' = JInt f"
  "dict_get (capture_metadata sid st en co so f e n er status) ''encoded_bytes'' = JInt e"
  "dict_get (capture_metadata sid st en co so f e n er status) ''decoded_pcm_bytes'' = JInt (int n)"
  "dict_get (capture_metadata sid st en co so f e n er status) ''decode_errors'' = JInt er"
  "dict_get (capture_metadata sid st en co so f e n er status) ''status'' = JStr status"
  by (simp_all add: capture_metadata_def dict_get_def)

lemmas sorted_metadata_get = dict_get_sorted [OF capture_metadata_keys] capture_metadata_get

lemma dict_get_Cons: "dict_get ((k, v) # d) j = (if j = k then v else dict_get d j)"
  by (simp add: dict_get_def)

lemma supported_source: "input_format_supported so co \<Longrightarrow> so \<in> fst ` set INPUT_CODECS_BY_SOURCE"
  by (force simp: input_format_supported_def split: option.splits dest: map_of_SomeD)

text \<open>What the writer puts into a progress document passes the checks of the recovery.\<close>

lemma check_recovery_progress:
  assumes "input_format_supported so co"
  shows "check_recovery sid (sort_keys (JObj (capture_metadata sid st en co so f e n er status))) =
    Inr (sorted_members (capture_metadata sid st en co so f e n er status), so, co)"
  using assms supported_source [OF assms]
  by (simp add: check_recovery_def sorted_metadata_get dict_get_Cons)

lemma recovered_metadata_progress:
  "recovered_metadata repr sid ended (sorted_members (capture_metadata sid st en co so f e n er status)) so co m =
    Inr (capture_metadata sid (if st = '''' then ended else st) (Some ended) co so f e m er ''recovered'')"
  by (simp add: recovered_metadata_def counter_of_def sorted_metadata_get json_or_def)

section \<open>What a directory promises\<close>

text \<open>The directory of a session holds the bytes \<open>p\<close> in its part file and a progress document
  written by the session. Recovery publishes them when they are whole samples and fit a WAV file.\<close>

definition parts_held :: "string \<Rightarrow> byte list \<Rightarrow> files \<Rightarrow> bool" where
  "parts_held sid p fs \<longleftrightarrow>
     fs PCM_PART_NAME = Some (Bytes p) \<and>
     (\<exists>c ended status. oc_session_id c = sid \<and> input_format_supported (oc_source c) (oc_input_codec c) \<and>
        fs METADATA_PART_NAME = Some (document (metadata_of c ended status)))"

text \<open>The session's audio is published: the WAV file holds the bytes, and the metadata names the
  session and counts \<open>n\<close> of them, and the part file is gone.\<close>

definition published_audio :: "string \<Rightarrow> nat \<Rightarrow> byte list \<Rightarrow> files \<Rightarrow> bool" where
  "published_audio sid n p fs \<longleftrightarrow>
     fs PCM_PART_NAME = None \<and> fs WAV_NAME = Some (Bytes (wav_bytes p)) \<and>
     (\<exists>d. fs METADATA_NAME = Some (document d) \<and> dict_get d ''session_id'' = JStr sid \<and>
        dict_get d ''decoded_pcm_bytes'' = JInt (int n) \<and>
        dict_get d ''status'' \<in> {JStr ''completed'', JStr ''recovered''})"

text \<open>At every stage of a publication the parts are untouched or the audio is published.\<close>

lemma publication_stage_safe:
  assumes "g \<in> set (publication_stages gs WAV_NAME (Bytes (wav_bytes p)) METADATA_NAME (document d) PCM_PART_NAME)"
    and "agrees g fs"
  shows "fs PCM_PART_NAME = gs PCM_PART_NAME \<and> fs METADATA_PART_NAME = gs METADATA_PART_NAME \<or>
    fs PCM_PART_NAME = None \<and> fs WAV_NAME = Some (Bytes (wav_bytes p)) \<and> fs METADATA_NAME = Some (document d)"
proof -
  have fs: "fs PCM_PART_NAME = g PCM_PART_NAME" "fs METADATA_PART_NAME = g METADATA_PART_NAME"
    "fs WAV_NAME = g WAV_NAME" "fs METADATA_NAME = g METADATA_NAME"
    by (simp_all add: agreesD [OF assms(2)])
  show ?thesis
    using assms(1) unfolding fs by (auto simp: publication_stages_def)
qed

end
