(* ===== verification/Capture_Recovery.thy ===== *)
theory Capture_Recovery
  imports Offline_Capture
begin

text \<open>
  What the offline capture guarantees: whatever call fails and wherever the process is killed,
  the audio of a session is in its part file or in a published WAV file, and the next start of
  the server publishes what a crash left behind. The first section follows the operations
  under an arbitrary schedule of faults, the second runs them without faults, and the last
  ones put a session, a crash and the recovery together.
\<close>

section \<open>Under faults\<close>

definition parts_kept :: "files \<Rightarrow> files \<Rightarrow> bool" where
  "parts_kept fs fs' \<longleftrightarrow> fs' PCM_PART_NAME = fs PCM_PART_NAME \<and> fs' METADATA_PART_NAME = fs METADATA_PART_NAME"

lemma parts_kept_refl [simp]: "parts_kept fs fs"
  by (simp add: parts_kept_def)

definition metadata_for :: "string \<Rightarrow> nat \<Rightarrow> jdict \<Rightarrow> bool" where
  "metadata_for sid n d \<longleftrightarrow> dict_get d ''session_id'' = JStr sid \<and>
     dict_get d ''decoded_pcm_bytes'' = JInt (int n) \<and> dict_get d ''status'' \<in> {JStr ''completed'', JStr ''recovered''}"

lemma published_audioI:
  "fs PCM_PART_NAME = None \<Longrightarrow> fs WAV_NAME = Some (Bytes (wav_bytes p)) \<Longrightarrow> fs METADATA_NAME = Some (document d) \<Longrightarrow> metadata_for sid n d \<Longrightarrow>
    published_audio sid n p fs"
  by (auto simp: published_audio_def metadata_for_def)

lemma publish_triple:
  assumes "gs PCM_PART_NAME = Some (Bytes p)" "metadata_for sid n d"
  shows "io_triple (\<lambda>fs. fs = gs) (publish_capture hex1 hex2 d)
    (\<lambda>_ fs. published_audio sid n p fs) (\<lambda>fs. parts_kept gs fs \<or> published_audio sid n p fs)"
  unfolding publish_capture_def
proof (rule io_triple_weaken [OF capture.published [of gs hex1 hex2 d]], goal_cases)
  case (2 x fs)
  then have "fs WAV_NAME = Some (Bytes (wav_bytes (bytes_at gs PCM_PART_NAME)))" "fs METADATA_NAME = Some (document d)"
    "fs PCM_PART_NAME = None"
    by (auto dest: agreesD [where name = WAV_NAME] agreesD [where name = METADATA_NAME] agreesD [where name = PCM_PART_NAME])
  then show ?case
    using assms by (auto simp: bytes_at_def intro: published_audioI)
next
  case (3 fs)
  then obtain g where "g \<in> set (publication_stages gs WAV_NAME (Bytes (wav_bytes p)) METADATA_NAME (document d) PCM_PART_NAME)"
    "agrees g fs"
    using assms(1) by (auto simp: bytes_at_def)
  from publication_stage_safe [OF this] show ?case
    using assms(2) by (auto simp: parts_kept_def intro: published_audioI)
qed simp

lemma metadata_for_recovered: "recovered_metadata repr sid ended d so co n = Inr d' \<Longrightarrow> metadata_for sid n d'"
  by (auto simp: recovered_metadata_def metadata_for_def capture_metadata_get split: sum.splits)

lemma metadata_for_completed: "metadata_for (oc_session_id c) (oc_decoded_pcm_bytes c) (metadata_of c ended ''completed'')"
  by (simp add: metadata_for_def metadata_of_def capture_metadata_get)

text \<open>Before it publishes, a recovery only reads: what a publication guarantees it guarantees.\<close>

lemma recover_one_publishes:
  assumes part: "gs PCM_PART_NAME = Some (Bytes p)" and X: "X gs"
    and pub: "\<And>hex1 hex2 d. metadata_for (map lower_char dir) (length p) d \<Longrightarrow>
      io_triple (\<lambda>fs. fs = gs) (publish_capture hex1 hex2 d) Q X"
  shows "io_triple (\<lambda>fs. fs = gs) (recover_one env dir) Q X"
  unfolding recover_one_def
proof (intro io_triple_bind)
  show "io_triple (\<lambda>fs. fs = gs) (io_lift (validated_session_id dir)) (\<lambda>sid fs. fs = gs \<and> sid = map lower_char dir) X"
    by (rule io_triple_lift) (auto simp: X validated_session_id_def Let_def split: if_splits)
  fix sid
  let ?P = "\<lambda>fs. fs = gs \<and> sid = map lower_char dir"
  show "io_triple ?P (read_json METADATA_PART_NAME) (\<lambda>_. ?P) X"
    by (rule io_triple_weaken [OF read_json_triple [of ?P X]]) (auto simp: X)
  fix loaded
  show "io_triple ?P (io_lift (check_recovery sid loaded)) (\<lambda>_. ?P) X"
    by (rule io_triple_lift) (auto simp: X)
  fix checked :: "jdict \<times> string \<times> string"
  obtain d so co where checked: "checked = (d, so, co)" by (cases checked) auto
  let ?meta = "recovered_metadata (re_repr env) sid (utc_iso (max (re_mtime env) (re_now env))) d so co"
  have publish: "io_triple ?P (io_then handle_call (io_bind (io_lift (?meta (length q)))
      (publish_capture (re_hex1 env) (re_hex2 env)))) Q X" if "q = p" for q
  proof (intro io_triple_bind)
    show "io_triple ?P handle_call (\<lambda>_. ?P) X"
      by (rule handle_call_triple) (simp add: X)
    show "io_triple ?P (io_lift (?meta (length q))) (\<lambda>m fs. ?P fs \<and> metadata_for sid (length p) m) X"
      by (rule io_triple_lift) (auto intro: metadata_for_recovered simp: X \<open>q = p\<close>)
    show "io_triple (\<lambda>fs. ?P fs \<and> metadata_for sid (length p) m) (publish_capture (re_hex1 env) (re_hex2 env) m) Q X" for m
    proof (cases "sid = map lower_char dir \<and> metadata_for sid (length p) m")
      case True
      then show ?thesis
        by (intro io_triple_weaken [OF pub [of m]]) auto
    qed (auto simp: io_triple_def)
  qed
  have "io_triple ?P (io_bind (read_bytes PCM_PART_NAME) (\<lambda>q. if length q mod OUTPUT_SAMPLE_WIDTH_BYTES \<noteq> 0
        then io_raise (Value_Err ''offline capture PCM part is not sample-aligned'')
        else io_then handle_call (io_bind (io_lift (?meta (length q))) (publish_capture (re_hex1 env) (re_hex2 env))))) Q X"
  proof (rule io_triple_bind [OF read_bytes_triple])
    fix q
    show "io_triple (\<lambda>fs. ?P fs \<and> fs PCM_PART_NAME = Some (Bytes q)) (if length q mod OUTPUT_SAMPLE_WIDTH_BYTES \<noteq> 0
        then io_raise (Value_Err ''offline capture PCM part is not sample-aligned'')
        else io_then handle_call (io_bind (io_lift (?meta (length q))) (publish_capture (re_hex1 env) (re_hex2 env)))) Q X"
    proof (cases "q = p")
      case True
      then show ?thesis
        by (intro io_triple_if io_triple_raise io_triple_weaken [OF publish [OF True]]) (auto simp: X)
    qed (use part in \<open>auto simp: io_triple_def\<close>)
  qed (simp add: X)
  then show "io_triple ?P (case checked of (d, so, co) \<Rightarrow> io_bind (read_bytes PCM_PART_NAME)
      (\<lambda>q. if length q mod OUTPUT_SAMPLE_WIDTH_BYTES \<noteq> 0
        then io_raise (Value_Err ''offline capture PCM part is not sample-aligned'')
        else io_then handle_call (io_bind (io_lift (recovered_metadata (re_repr env) sid (utc_iso (max (re_mtime env) (re_now env))) d so co (length q)))
          (publish_capture (re_hex1 env) (re_hex2 env))))) Q X"
    by (simp add: checked)
qed

lemma recover_one_triple:
  assumes "gs PCM_PART_NAME = Some (Bytes p)"
  shows "io_triple (\<lambda>fs. fs = gs) (recover_one env dir)
    (\<lambda>_. published_audio (map lower_char dir) (length p) p)
    (\<lambda>fs. parts_kept gs fs \<or> published_audio (map lower_char dir) (length p) p fs)"
  by (rule recover_one_publishes [where p = p, OF assms _ publish_triple [where gs = gs, OF assms]]) simp_all

text \<open>An operation on a schedule, from the rule about it.\<close>

lemma io_triple_run:
  assumes "io_triple (\<lambda>fs. fs = gs) m Q X" "m (gs, ts) = (r, fs', ts')"
  shows "(\<exists>x. r = Done x \<and> Q x fs') \<or> (\<forall>x. r \<noteq> Done x) \<and> X fs'"
  using io_triple_DoneD [OF assms(1), of gs ts] io_triple_otherD [OF assms(1) _ assms(2)] assms(2)
  by (cases r) auto

lemma finalize_safe:
  assumes "fs PCM_PART_NAME = Some (Bytes p)" "\<not> oc_closed c"
    and "finalize_capture hex1 hex2 now c (fs, ts) = ((r, c'), fs', ts')"
  shows "parts_kept fs fs' \<or> published_audio (oc_session_id c) (oc_decoded_pcm_bytes c) p fs'"
    and "r = Done m \<Longrightarrow> published_audio (oc_session_id c) (oc_decoded_pcm_bytes c) p fs'"
    and "c' = c\<lparr>oc_closed := True\<rparr>"
proof -
  define d where "d = metadata_of (c\<lparr>oc_closed := True\<rparr>) (Some (utc_iso now)) ''completed''"
  let ?pub = "published_audio (oc_session_id c) (oc_decoded_pcm_bytes c) p"
  have meta: "metadata_for (oc_session_id c) (oc_decoded_pcm_bytes c) d"
    using metadata_for_completed [of "c\<lparr>oc_closed := True\<rparr>"] by (simp add: d_def)
  have tr: "io_triple (\<lambda>f. f = fs) (io_then handle_call (io_then handle_call (io_then (publish_capture hex1 hex2 d) (io_return d))))
      (\<lambda>_ f. ?pub f) (\<lambda>f. parts_kept fs f \<or> ?pub f)"
    by (intro io_triple_bind [OF handle_call_triple] io_triple_bind [OF publish_triple [where gs = fs, OF assms(1) meta]] io_triple_return) auto
  have run: "io_then handle_call (io_then handle_call (io_then (publish_capture hex1 hex2 d) (io_return d))) (fs, ts) = (r, fs', ts')"
    and c': "c' = c\<lparr>oc_closed := True\<rparr>"
    using assms(2,3) by (auto simp: finalize_capture_def d_def Let_def split: prod.splits)
  have "(\<exists>x. r = Done x \<and> ?pub fs') \<or> (\<forall>x. r \<noteq> Done x) \<and> (parts_kept fs fs' \<or> ?pub fs')"
    by (rule io_triple_run [OF tr run])
  then show "parts_kept fs fs' \<or> ?pub fs'" "r = Done m \<Longrightarrow> ?pub fs'" by auto
  show "c' = c\<lparr>oc_closed := True\<rparr>" by (rule c')
qed

text \<open>Rewriting the progress document.\<close>

lemma write_progress_safe:
  assumes "write_progress_metadata hex c (fs, ts) = (r, fs', ts')"
  shows "fs' PCM_PART_NAME = fs PCM_PART_NAME"
    and "fs' METADATA_PART_NAME \<in> {fs METADATA_PART_NAME, Some (document (metadata_of c None ''recording''))}"
proof -
  let ?doc = "document (metadata_of c None ''recording'')"
  have "installs (write_progress_metadata hex c) fs METADATA_PART_NAME ?doc"
    unfolding write_progress_metadata_def by (rule atomic_json_installs) simp
  then have "io_triple (\<lambda>f. f = fs) (write_progress_metadata hex c) (\<lambda>_. agrees (fs(METADATA_PART_NAME \<mapsto> ?doc)))
      (\<lambda>f. agrees fs f \<or> agrees (fs(METADATA_PART_NAME \<mapsto> ?doc)) f)"
    unfolding installs_def by (rule io_triple_weaken) auto
  from io_triple_run [OF this assms] have "agrees fs fs' \<or> agrees (fs(METADATA_PART_NAME \<mapsto> ?doc)) fs'" by auto
  then show "fs' PCM_PART_NAME = fs PCM_PART_NAME" "fs' METADATA_PART_NAME \<in> {fs METADATA_PART_NAME, Some ?doc}"
    by (auto dest: agreesD [where name = PCM_PART_NAME] agreesD [where name = METADATA_PART_NAME])
qed

lemma progress_keeps_parts:
  assumes "write_progress_metadata hex c (fs, ts) = (r, fs', ts')" "parts_held sid p fs"
    and "oc_session_id c = sid" "input_format_supported (oc_source c) (oc_input_codec c)"
  shows "parts_held sid p fs'"
proof (cases "fs' METADATA_PART_NAME = fs METADATA_PART_NAME")
  case True
  then show ?thesis
    using assms(2) write_progress_safe(1) [OF assms(1)] by (auto simp: parts_held_def)
next
  case False
  then have "fs' METADATA_PART_NAME = Some (document (metadata_of c None ''recording''))"
    using write_progress_safe(2) [OF assms(1)] by simp
  then show ?thesis
    using assms(2-4) write_progress_safe(1) [OF assms(1)] unfolding parts_held_def by fastforce
qed

text \<open>What the methods leave alone in the object.\<close>

definition same_session :: "offline_capture \<Rightarrow> offline_capture \<Rightarrow> bool" where
  "same_session c c' \<longleftrightarrow> oc_session_id c' = oc_session_id c \<and> oc_source c' = oc_source c \<and> oc_input_codec c' = oc_input_codec c"

lemma same_session_refl [simp]: "same_session c c" "same_session c (c\<lparr>oc_closed := b\<rparr>)"
  by (simp_all add: same_session_def)

lemma record_frame_safe:
  assumes "record_decoded_frame hex n pcm c (fs, ts) = ((r, c'), fs', ts')"
    and "parts_held (oc_session_id c) p fs" "input_format_supported (oc_source c) (oc_input_codec c)"
  shows "\<exists>k. parts_held (oc_session_id c) (p @ take k pcm) fs'"
    and "same_session c c' \<and> oc_closed c' = oc_closed c"
    and "oc_closed c \<Longrightarrow> fs' = fs"
proof -
  have part: "fs PCM_PART_NAME = Some (Bytes p)" using assms(2) by (simp add: parts_held_def)
  show "oc_closed c \<Longrightarrow> fs' = fs" using assms(1) by (simp add: record_decoded_frame_def)
  show c': "same_session c c' \<and> oc_closed c' = oc_closed c"
    using assms(1) by (auto simp: record_decoded_frame_def same_session_def Let_def split: if_splits prod.splits outcome.splits)
  show "\<exists>k. parts_held (oc_session_id c) (p @ take k pcm) fs'"
  proof (cases "oc_closed c \<or> length pcm mod OUTPUT_SAMPLE_WIDTH_BYTES \<noteq> 0")
    case True
    then have "fs' = fs" using assms(1) by (auto simp: record_decoded_frame_def split: if_splits)
    then show ?thesis using assms(2) by (intro exI [of _ 0]) simp
  next
    case False
    obtain q fs1 ts1 where app: "append_raw PCM_PART_NAME pcm (fs, ts) = (q, fs1, ts1)" by (cases "append_raw PCM_PART_NAME pcm (fs, ts)") auto
    obtain k where "fs1 = fs(PCM_PART_NAME \<mapsto> Bytes (p @ take k pcm))" by (rule append_raw_prefix [OF app part])
    then have rec1: "parts_held (oc_session_id c) (p @ take k pcm) fs1"
      using assms(2) by (simp add: parts_held_def)
    show ?thesis
    proof (cases q)
      case (Done x)
      then have "write_progress_metadata hex c' (fs1, ts1) = (r, fs', ts')"
        using assms(1) False app by (auto simp: record_decoded_frame_def Let_def split: prod.splits)
      from progress_keeps_parts [OF this rec1] show ?thesis
        using c' assms(3) by (auto simp: same_session_def)
    qed (use assms(1) False app rec1 in \<open>auto simp: record_decoded_frame_def\<close>)
  qed
qed

lemma record_error_safe:
  assumes "record_decode_error hex n c (fs, ts) = ((r, c'), fs', ts')"
    and "parts_held (oc_session_id c) p fs" "input_format_supported (oc_source c) (oc_input_codec c)"
  shows "parts_held (oc_session_id c) p fs'"
    and "same_session c c' \<and> oc_closed c' = oc_closed c"
    and "oc_closed c \<Longrightarrow> fs' = fs"
proof -
  show "oc_closed c \<Longrightarrow> fs' = fs" using assms(1) by (simp add: record_decode_error_def)
  show c': "same_session c c' \<and> oc_closed c' = oc_closed c"
    using assms(1) by (auto simp: record_decode_error_def same_session_def Let_def split: if_splits prod.splits)
  show "parts_held (oc_session_id c) p fs'"
  proof (cases "oc_closed c")
    case False
    then have "write_progress_metadata hex c' (fs, ts) = (r, fs', ts')"
      using assms(1) by (auto simp: record_decode_error_def Let_def split: prod.splits)
    from progress_keeps_parts [OF this assms(2)] show ?thesis
      using c' assms(3) by (auto simp: same_session_def)
  qed (use assms in \<open>simp add: record_decode_error_def\<close>)
qed

section \<open>The lives of a session\<close>

text \<open>A session is its directory and, while the server lives, its object. Its methods run under
  any faults; the process may die at any moment; without a process, a recovery may run, which
  may die too. The name of the directory is the session's.\<close>

type_synonym session = "offline_capture option \<times> files"

fun survivor :: "'a outcome \<Rightarrow> offline_capture \<Rightarrow> offline_capture option" where
  "survivor Killed c = None"
| "survivor _ c = Some c"

inductive session_step :: "string \<Rightarrow> session \<Rightarrow> session \<Rightarrow> bool" for sid where
  frame: "record_decoded_frame hex n pcm c (fs, ts) = ((r, c'), fs', ts') \<Longrightarrow> session_step sid (Some c, fs) (survivor r c', fs')"
| decode_error: "record_decode_error hex n c (fs, ts) = ((r, c'), fs', ts') \<Longrightarrow> session_step sid (Some c, fs) (survivor r c', fs')"
| close: "finalize_capture hex1 hex2 now c (fs, ts) = ((r, c'), fs', ts') \<Longrightarrow> session_step sid (Some c, fs) (survivor r c', fs')"
| die: "session_step sid (x, fs) (None, fs)"
| recover: "fs PCM_PART_NAME \<noteq> None \<Longrightarrow> recover_one env sid (fs, ts) = (r, fs', ts') \<Longrightarrow> session_step sid (None, fs) (None, fs')"

text \<open>The bytes \<open>p\<close> are safe: they begin what the part file of the directory holds, or
  what a published WAV file holds, and then no open object is left that could write.\<close>

definition audio_safe :: "string \<Rightarrow> byte list \<Rightarrow> session \<Rightarrow> bool" where
  "audio_safe sid p = (\<lambda>(x, fs).
     (\<forall>c. x = Some c \<longrightarrow> oc_session_id c = sid \<and> input_format_supported (oc_source c) (oc_input_codec c)) \<and>
     (\<exists>q. parts_held sid (p @ q) fs \<or> (\<exists>n. published_audio sid n (p @ q) fs) \<and> (\<forall>c. x = Some c \<longrightarrow> oc_closed c)))"

lemma survivor_SomeD: "survivor r c' = Some c \<Longrightarrow> c = c'"
  by (cases r) auto

lemma parts_kept_parts_held: "parts_kept fs fs' \<Longrightarrow> parts_held sid p fs \<Longrightarrow> parts_held sid p fs'"
  by (auto simp: parts_kept_def parts_held_def)

lemma canonical_uuid_lower: "canonical_uuid sid \<Longrightarrow> map lower_char sid = sid"
proof (rule map_idI)
  fix c
  assume "canonical_uuid sid" "c \<in> set sid"
  then have len: "length sid = 36"
    and all: "\<forall>i \<in> set [0..<36]. if i \<in> {8, 13, 18, 23} then sid ! i = CHR ''-'' else lower_hex (sid ! i)"
    unfolding canonical_uuid_def by blast+
  obtain i where i: "i < 36" "c = sid ! i"
    using \<open>c \<in> set sid\<close> len by (metis in_set_conv_nth)
  have "i \<in> set [0..<36]"
    using i(1) by (simp only: set_upt atLeastLessThan_iff) simp
  from bspec [OF all this] have "c = CHR ''-'' \<or> lower_hex c"
    unfolding i(2) by meson
  then show "lower_char c = c"
    by (auto simp: lower_hex_def lower_char_def Let_def)
qed


text \<open>With an open process, what is safe: the bytes of such a directory, or those of a
  published file when the object is closed.\<close>

lemma audio_safe_openD:
  assumes "audio_safe sid p (Some c, fs)"
  obtains q where "oc_session_id c = sid" "input_format_supported (oc_source c) (oc_input_codec c)"
    "parts_held sid (p @ q) fs \<or> (\<exists>n. published_audio sid n (p @ q) fs) \<and> oc_closed c"
  using assms by (auto simp: audio_safe_def)

lemma audio_safeI:
  assumes "parts_held sid (p @ q) fs' \<or> published_audio sid n (p @ q) fs' \<and> oc_closed c'"
    and "oc_session_id c = sid" "input_format_supported (oc_source c) (oc_input_codec c)" "same_session c c'"
  shows "audio_safe sid p (survivor r c', fs')"
  using assms by (cases r) (auto simp: audio_safe_def same_session_def)

lemma audio_safe_frame:
  assumes "record_decoded_frame hex n pcm c (fs, ts) = ((r, c'), fs', ts')" "audio_safe sid p (Some c, fs)"
  shows "audio_safe sid p (survivor r c', fs')"
  using assms(2)
proof (rule audio_safe_openD)
  fix q
  assume sid: "oc_session_id c = sid" and sup: "input_format_supported (oc_source c) (oc_input_codec c)"
    and q: "parts_held sid (p @ q) fs \<or> (\<exists>n. published_audio sid n (p @ q) fs) \<and> oc_closed c"
  show "audio_safe sid p (survivor r c', fs')"
  proof (cases "parts_held sid (p @ q) fs")
    case True
    then have "parts_held (oc_session_id c) (p @ q) fs" using sid by simp
    note safe = record_frame_safe [OF assms(1) this sup]
    obtain k where "parts_held sid (p @ (q @ take k pcm)) fs'" using safe(1) sid by auto
    then show ?thesis using sid sup safe(2) by (intro audio_safeI [where c = c]) auto
  next
    case False
    then obtain m where m: "published_audio sid m (p @ q) fs" and closed: "oc_closed c" using q by blast
    have "c' = c" "fs' = fs" using assms(1) closed by (simp_all add: record_decoded_frame_def)
    then show ?thesis using m closed sid sup by (intro audio_safeI [where q = q and n = m and c = c]) simp_all
  qed
qed

lemma audio_safe_error:
  assumes "record_decode_error hex n c (fs, ts) = ((r, c'), fs', ts')" "audio_safe sid p (Some c, fs)"
  shows "audio_safe sid p (survivor r c', fs')"
  using assms(2)
proof (rule audio_safe_openD)
  fix q
  assume sid: "oc_session_id c = sid" and sup: "input_format_supported (oc_source c) (oc_input_codec c)"
    and q: "parts_held sid (p @ q) fs \<or> (\<exists>n. published_audio sid n (p @ q) fs) \<and> oc_closed c"
  show "audio_safe sid p (survivor r c', fs')"
  proof (cases "parts_held sid (p @ q) fs")
    case True
    then have "parts_held (oc_session_id c) (p @ q) fs" using sid by simp
    from record_error_safe [OF assms(1) this sup] show ?thesis
      using sid sup by (intro audio_safeI [where c = c]) auto
  next
    case False
    then obtain m where m: "published_audio sid m (p @ q) fs" and closed: "oc_closed c" using q by blast
    have "c' = c" "fs' = fs" using assms(1) closed by (simp_all add: record_decode_error_def)
    then show ?thesis using m closed sid sup by (intro audio_safeI [where q = q and n = m and c = c]) simp_all
  qed
qed

lemma audio_safe_close:
  assumes "finalize_capture hex1 hex2 now c (fs, ts) = ((r, c'), fs', ts')" "audio_safe sid p (Some c, fs)"
  shows "audio_safe sid p (survivor r c', fs')"
  using assms(2)
proof (rule audio_safe_openD)
  fix q
  assume sid: "oc_session_id c = sid" and sup: "input_format_supported (oc_source c) (oc_input_codec c)"
    and q: "parts_held sid (p @ q) fs \<or> (\<exists>n. published_audio sid n (p @ q) fs) \<and> oc_closed c"
  show "audio_safe sid p (survivor r c', fs')"
  proof (cases "oc_closed c")
    case True
    then have "c' = c" "fs' = fs" using assms(1) by (auto simp: finalize_capture_def)
    then obtain m where "parts_held sid (p @ q) fs' \<or> published_audio sid m (p @ q) fs' \<and> oc_closed c'"
      using q by blast
    then show ?thesis using sid sup \<open>c' = c\<close> by (intro audio_safeI [where c = c]) auto
  next
    case False
    then have rec: "parts_held sid (p @ q) fs" "fs PCM_PART_NAME = Some (Bytes (p @ q))"
      using q by (auto simp: parts_held_def)
    note fin = finalize_safe [OF rec(2) False assms(1)]
    have "parts_held sid (p @ q) fs' \<or> published_audio sid (oc_decoded_pcm_bytes c) (p @ q) fs' \<and> oc_closed c'"
      using fin(1,3) rec(1) sid by (auto dest: parts_kept_parts_held)
    then show ?thesis using sid sup fin(3) by (intro audio_safeI [where c = c]) auto
  qed
qed

lemma audio_safe_recover:
  assumes "fs PCM_PART_NAME \<noteq> None" "recover_one env sid (fs, ts) = (r, fs', ts')" "canonical_uuid sid"
    and "audio_safe sid p (None, fs)"
  shows "audio_safe sid p (None, fs')"
proof -
  obtain q where q: "parts_held sid (p @ q) fs"
    using assms(1,4) by (auto simp: audio_safe_def published_audio_def)
  then have part: "fs PCM_PART_NAME = Some (Bytes (p @ q))" by (simp add: parts_held_def)
  from io_triple_run [OF recover_one_triple [of fs, OF part] assms(2)]
  have "parts_kept fs fs' \<or> published_audio sid (length (p @ q)) (p @ q) fs'"
    unfolding canonical_uuid_lower [OF assms(3)] by blast
  then show ?thesis
    using parts_kept_parts_held [OF _ q] unfolding audio_safe_def by blast
qed

lemma audio_safe_step:
  assumes "session_step sid s s'" "canonical_uuid sid" "audio_safe sid p s"
  shows "audio_safe sid p s'"
  using assms
proof (induction rule: session_step.induct)
  case (die x fs)
  then show ?case by (fastforce simp: audio_safe_def)
qed (blast intro: audio_safe_frame audio_safe_error audio_safe_close audio_safe_recover)+

section \<open>Without faults\<close>

lemma runs_copy_chunks:
  "fs t = Some (Bytes b) \<Longrightarrow> runs (copy_chunks t q) fs () (fs(t \<mapsto> Bytes (copied b q)))"
proof (induction t q arbitrary: b fs rule: copy_chunks.induct)
  case (1 t q)
  let ?chunk = "take CHUNK_BYTES q" and ?rest = "drop CHUNK_BYTES q"
  have "runs (if q = [] then io_return () else io_then (writeframesraw t ?chunk) (copy_chunks t ?rest)) fs () (fs(t \<mapsto> Bytes (copied b q)))"
  proof (cases "q = []")
    case True
    then show ?thesis
      using 1(2) by (simp add: runs_def copied_def fun_upd_idem)
  next
    case False
    let ?fs = "fs(t \<mapsto> Bytes (frames_written b ?chunk))"
    have "runs (writeframesraw t ?chunk) fs () ?fs"
      unfolding writeframesraw_def by (rule runs_syscall) (simp add: 1(2))
    moreover have "runs (copy_chunks t ?rest) ?fs () (?fs(t \<mapsto> Bytes (copied (frames_written b ?chunk) ?rest)))"
      by (rule 1(1) [OF False]) simp
    then have "runs (copy_chunks t ?rest) ?fs () (?fs(t \<mapsto> Bytes (copied b q)))"
      unfolding copied_step [OF False] .
    ultimately have "runs (io_then (writeframesraw t ?chunk) (copy_chunks t ?rest)) fs () (?fs(t \<mapsto> Bytes (copied b q)))"
      by (rule runs_bind)
    then show ?thesis using False by simp
  qed
  then show ?case
    unfolding copy_chunks.simps [of t q] by (rule runs_bind [OF runs_handle_call])
qed

text \<open>The length of a WAV file must fit the 32 bits of its header.\<close>

definition fits_wav :: "byte list \<Rightarrow> bool" where
  "fits_wav p \<longleftrightarrow> 36 + length p < 2 ^ 32"

lemma temp_name_distinct: "\<not> hidden name \<Longrightarrow> temp_name n hex \<noteq> name"
  by auto

lemmas temp_names_distinct [simp] =
  names_visible(1) [THEN temp_name_distinct] names_visible(2) [THEN temp_name_distinct]
  names_visible(3) [THEN temp_name_distinct] names_visible(4) [THEN temp_name_distinct]
  names_visible(1) [THEN temp_name_distinct, symmetric] names_visible(2) [THEN temp_name_distinct, symmetric]
  names_visible(3) [THEN temp_name_distinct, symmetric] names_visible(4) [THEN temp_name_distinct, symmetric]

lemma runs_copy_part:
  assumes "fs pcm_name = Some (Bytes p)" "hidden t" "\<not> hidden pcm_name"
  shows "runs (io_bind (read_bytes pcm_name) (copy_chunks t)) (fs(t \<mapsto> Bytes [])) () (fs(t \<mapsto> Bytes (copied [] p)))"
proof (rule runs_bind)
  have "pcm_name \<noteq> t" using assms(2,3) by auto
  then show "runs (read_bytes pcm_name) (fs(t \<mapsto> Bytes [])) p (fs(t \<mapsto> Bytes []))"
    using assms(1) by (intro runs_read_bytes) simp
  show "runs (copy_chunks t p) (fs(t \<mapsto> Bytes [])) () (fs(t \<mapsto> Bytes (copied [] p)))"
    using runs_copy_chunks [of "fs(t \<mapsto> Bytes [])" t "[]" p] by (simp only: fun_upd_same fun_upd_upd)
qed

lemma runs_write_wav:
  assumes "fs pcm_name = Some (Bytes p)" "\<not> hidden pcm_name" "\<not> hidden name" "fits_wav p"
  shows "runs (write_wav_atomic hex pcm_name name) fs () (fs(temp_name name hex := None, name \<mapsto> Bytes (wav_bytes p)))"
proof -
  let ?t = "temp_name name hex"
  have "runs (close_wave ?t) (fs(?t \<mapsto> Bytes (copied [] p))) () (fs(?t \<mapsto> Bytes (wav_bytes p)))"
    unfolding close_wave_def by (rule runs_syscall) (use assms(4) in \<open>simp add: closed_wave_copied fits_wav_def\<close>)
  then have "runs (io_finally (io_bind (read_bytes pcm_name) (copy_chunks ?t)) (close_wave ?t)) (fs(?t \<mapsto> Bytes [])) ()
      (fs(?t \<mapsto> Bytes (wav_bytes p)))"
    using assms(1,2) by (intro runs_finally [OF runs_copy_part]) simp_all
  then have "runs (io_then (open_truncate ?t) (io_then (io_finally (io_bind (read_bytes pcm_name) (copy_chunks ?t)) (close_wave ?t)) handle_call))
      fs () (fs(?t \<mapsto> Bytes (wav_bytes p)))"
    by (intro runs_bind [OF runs_open_truncate] runs_bind [OF _ runs_handle_call])
  from runs_through_temp [OF this, of ?t "Bytes (wav_bytes p)" name] temp_name_distinct [OF assms(3)]
  show ?thesis
    unfolding write_wav_atomic_def Let_def io_bind_assoc by (simp only: fun_upd_same fun_upd_upd simp_thms)
qed

lemma fails_write_wav:
  assumes "fs pcm_name = Some (Bytes p)" "\<not> hidden pcm_name" "\<not> fits_wav p"
  shows "fails (write_wav_atomic hex pcm_name name) fs Struct_Error (fs(temp_name name hex := None))"
proof -
  let ?t = "temp_name name hex"
  let ?copied = "fs(?t \<mapsto> Bytes (copied [] p))"
  have "fails (close_wave ?t) ?copied Struct_Error ?copied"
    unfolding close_wave_def by (rule fails_syscall) (use assms(3) in \<open>simp add: closed_wave_copied fits_wav_def\<close>)
  then have "fails (io_finally (io_bind (read_bytes pcm_name) (copy_chunks ?t)) (close_wave ?t)) (fs(?t \<mapsto> Bytes [])) Struct_Error ?copied"
    using assms(1,2) by (intro fails_finally2 [OF runs_copy_part]) simp_all
  moreover have "runs (unlink_file True ?t) ?copied () (fs(?t := None))"
    using runs_unlink_file [of True ?copied ?t] by simp
  ultimately show ?thesis
    unfolding write_wav_atomic_def Let_def
    by (blast intro: fails_finally fails_bind2 [OF runs_open_truncate] fails_bind)
qed

lemma runs_atomic_json:
  assumes "fs (temp_name name hex) = None" "\<not> hidden name"
  shows "runs (atomic_json hex name d) fs () (fs(name \<mapsto> document d))"
proof -
  let ?t = "temp_name name hex"
  have "runs (write_json ?t (sort_keys (JObj d))) (fs(?t \<mapsto> Bytes [])) () (fs(?t \<mapsto> document d))"
    using runs_write_json [of ?t "sort_keys (JObj d)" "fs(?t \<mapsto> Bytes [])"] by (simp only: fun_upd_upd)
  then have "runs (io_then (open_exclusive ?t) (io_then (write_json ?t (sort_keys (JObj d))) handle_call)) fs () (fs(?t \<mapsto> document d))"
    by (intro runs_bind [OF runs_open_exclusive [where fs = fs, OF assms(1)]] runs_bind [OF _ runs_handle_call])
  from runs_through_temp [OF this, of ?t "document d" name] temp_name_distinct [OF assms(2)]
  have "runs (atomic_json hex name d) fs () (fs(?t \<mapsto> document d, ?t := None, name \<mapsto> document d))"
    unfolding atomic_json_def Let_def io_bind_assoc by (simp only: fun_upd_same simp_thms)
  then show ?thesis
    unfolding fun_upd_upd fun_upd_idem [where f = fs, OF assms(1)] .
qed

text \<open>The WAV file's temporary name is truncated; the one of the metadata must be fresh.\<close>

lemma runs_publish:
  assumes "fs PCM_PART_NAME = Some (Bytes p)" "fs METADATA_PART_NAME \<noteq> None" "fits_wav p"
    and "fs (temp_name METADATA_NAME hex2) = None"
  shows "runs (publish_capture hex1 hex2 d) fs ()
    (fs(temp_name WAV_NAME hex1 := None, WAV_NAME \<mapsto> Bytes (wav_bytes p), METADATA_NAME \<mapsto> document d,
       PCM_PART_NAME := None, METADATA_PART_NAME := None))"
  unfolding publish_capture_def
proof (intro runs_bind)
  let ?f1 = "fs(temp_name WAV_NAME hex1 := None, WAV_NAME \<mapsto> Bytes (wav_bytes p))"
  show "runs (write_wav_atomic hex1 PCM_PART_NAME WAV_NAME) fs () ?f1"
    by (rule runs_write_wav) (simp_all add: assms)
  show "runs (atomic_json hex2 METADATA_NAME d) ?f1 () (?f1(METADATA_NAME \<mapsto> document d))"
    by (rule runs_atomic_json) (simp_all add: assms)
  show "runs (unlink_file False PCM_PART_NAME) (?f1(METADATA_NAME \<mapsto> document d)) ()
      (?f1(METADATA_NAME \<mapsto> document d, PCM_PART_NAME := None))"
    using assms(1) by (intro runs_unlink_file) simp
  show "runs (unlink_file False METADATA_PART_NAME) (?f1(METADATA_NAME \<mapsto> document d, PCM_PART_NAME := None)) ()
      (?f1(METADATA_NAME \<mapsto> document d, PCM_PART_NAME := None, METADATA_PART_NAME := None))"
    using assms(2) by (intro runs_unlink_file) simp
qed

lemma fails_publish:
  assumes "fs PCM_PART_NAME = Some (Bytes p)" "\<not> fits_wav p"
  shows "fails (publish_capture hex1 hex2 d) fs Struct_Error (fs(temp_name WAV_NAME hex1 := None))"
  unfolding publish_capture_def by (rule fails_bind, rule fails_write_wav [where p = p]) (simp_all add: assms)

section \<open>Recovery of one directory\<close>

lemma runs_recover_one:
  assumes "parts_held sid p fs" "canonical_uuid sid" "even (length p)" "fits_wav p"
    and "fs (temp_name METADATA_NAME (re_hex2 env)) = None"
  obtains fs' where "runs (recover_one env sid) fs () fs'" "published_audio sid (length p) p fs'"
proof -
  obtain c ended status where part: "fs PCM_PART_NAME = Some (Bytes p)" and c: "oc_session_id c = sid"
    and sup: "input_format_supported (oc_source c) (oc_input_codec c)"
    and doc: "fs METADATA_PART_NAME = Some (document (metadata_of c ended status))"
    using assms(1) by (auto simp: parts_held_def)
  let ?doc = "sorted_members (metadata_of c ended status)"
  have valid: "validated_session_id sid = Inr sid"
    using assms(2) by (simp add: validated_session_id_def canonical_uuid_lower)
  have check: "check_recovery sid (JObj ?doc) = Inr (?doc, oc_source c, oc_input_codec c)"
    using check_recovery_progress [OF sup, of sid] by (simp add: metadata_of_def c)
  obtain d where d: "recovered_metadata (re_repr env) sid (utc_iso (max (re_mtime env) (re_now env))) ?doc (oc_source c) (oc_input_codec c) (length p) = Inr d"
    unfolding metadata_of_def c recovered_metadata_progress by blast
  have "runs (publish_capture (re_hex1 env) (re_hex2 env) d) fs ()
    (fs(temp_name WAV_NAME (re_hex1 env) := None, WAV_NAME \<mapsto> Bytes (wav_bytes p), METADATA_NAME \<mapsto> document d,
       PCM_PART_NAME := None, METADATA_PART_NAME := None))" (is "runs _ fs () ?fs'")
    by (rule runs_publish) (use part doc assms(4,5) in simp_all)
  then have tail: "runs (io_then handle_call (io_bind (io_lift (recovered_metadata (re_repr env) sid
      (utc_iso (max (re_mtime env) (re_now env))) ?doc (oc_source c) (oc_input_codec c) (length p)))
      (publish_capture (re_hex1 env) (re_hex2 env)))) fs () ?fs'"
    by (intro runs_bind [OF runs_handle_call] runs_bind [OF runs_lift [OF d]])
  have "runs (recover_one env sid) fs () ?fs'"
    unfolding recover_one_def
  proof (intro runs_bind)
    show "runs (io_lift (validated_session_id sid)) fs sid fs" by (rule runs_lift) (rule valid)
    show "runs (read_json METADATA_PART_NAME) fs (JObj ?doc) fs" by (rule runs_read_json) (simp add: doc)
    show "runs (io_lift (check_recovery sid (JObj ?doc))) fs (?doc, oc_source c, oc_input_codec c) fs" by (rule runs_lift) (rule check)
    have "length p mod OUTPUT_SAMPLE_WIDTH_BYTES = 0" using assms(3) by (simp add: OUTPUT_SAMPLE_WIDTH_BYTES_def)
    then have aligned: "\<not> length p mod OUTPUT_SAMPLE_WIDTH_BYTES \<noteq> 0" by simp
    show "runs (case (?doc, oc_source c, oc_input_codec c) of (d, source, codec) \<Rightarrow>
        io_bind (read_bytes PCM_PART_NAME) (\<lambda>pcm. if length pcm mod OUTPUT_SAMPLE_WIDTH_BYTES \<noteq> 0
          then io_raise (Value_Err ''offline capture PCM part is not sample-aligned'')
          else io_then handle_call (io_bind (io_lift (recovered_metadata (re_repr env) sid
              (utc_iso (max (re_mtime env) (re_now env))) d source codec (length pcm)))
            (publish_capture (re_hex1 env) (re_hex2 env))))) fs () ?fs'"
      unfolding prod.case
      by (rule runs_bind, rule runs_read_bytes, rule part, unfold if_not_P [OF aligned], rule tail)
  qed
  moreover have "published_audio sid (length p) p ?fs'"
    by (rule published_audioI [OF _ _ _ metadata_for_recovered [OF d]]) simp_all
  ultimately show thesis by (rule that)
qed

text \<open>An operation that neither raises nor is killed by itself.\<close>

definition settles :: "'a io \<Rightarrow> bool" where
  "settles m \<longleftrightarrow> (\<forall>fs. (\<exists>x fs'. runs m fs x fs') \<or> (\<exists>e fs'. fails m fs e fs'))"

lemma settles_syscall: "settles (syscall full part)"
proof -
  have "(\<exists>x fs'. runs (syscall full part) fs x fs') \<or> (\<exists>e fs'. fails (syscall full part) fs e fs')" for fs
    using fails_syscall [of full fs] runs_syscall [of full fs] by (cases "full fs") (blast, force)
  then show ?thesis by (simp add: settles_def)
qed

lemma settles_bind: "settles m \<Longrightarrow> (\<And>x. settles (k x)) \<Longrightarrow> settles (io_bind m k)"
  unfolding settles_def by (meson runs_bind fails_bind fails_bind2)

lemma settles_finally: "settles m \<Longrightarrow> settles c \<Longrightarrow> settles (io_finally m c)"
proof -
  assume m: "settles m" and c: "settles c"
  have "(\<exists>x fs'. runs (io_finally m c) fs x fs') \<or> (\<exists>e fs'. fails (io_finally m c) fs e fs')" for fs
  proof -
    obtain r fs1 where r: "m (fs, []) = (r, fs1, [])" "r \<noteq> Killed"
      using m unfolding settles_def runs_def fails_def by blast
    obtain q fs2 where "c (fs1, []) = (q, fs2, [])" "q \<noteq> Killed"
      using c unfolding settles_def runs_def fails_def by blast
    then show ?thesis
      using r by (cases r; cases q) (auto simp: io_finally_def runs_def fails_def)
  qed
  then show ?thesis by (simp add: settles_def)
qed

lemma settles_lift: "settles (io_lift r)"
  by (cases r) (auto simp: settles_def runs_def fails_def)

lemma settles_raise: "settles (io_raise e)"
  by (auto simp: settles_def fails_def)

lemma settles_return: "settles (io_return x)"
  by (auto simp: settles_def runs_def)

lemma settles_if: "settles m \<Longrightarrow> settles k \<Longrightarrow> settles (if b then m else k)"
  by simp

lemma settles_copy_chunks: "settles (copy_chunks t q)"
proof (induction t q rule: copy_chunks.induct)
  case (1 t q)
  have "settles (if q = [] then io_return () else io_then (writeframesraw t (take CHUNK_BYTES q)) (copy_chunks t (drop CHUNK_BYTES q)))"
    using 1 by (auto simp: writeframesraw_def intro: settles_return settles_bind settles_syscall)
  then show ?case
    unfolding copy_chunks.simps [of t q] handle_call_def by (intro settles_bind settles_syscall)
qed

lemma settles_publish: "settles (publish_capture hex1 hex2 d)"
  unfolding publish_capture_def write_wav_atomic_def atomic_json_def Let_def open_truncate_def open_exclusive_def
    read_bytes_def close_wave_def handle_call_def replace_file_def unlink_file_def write_json_def
  by (intro settles_bind settles_finally settles_syscall settles_copy_chunks)

lemma settles_recover_one: "settles (recover_one env d)"
  unfolding recover_one_def read_json_def read_bytes_def handle_call_def
  by (intro settles_bind settles_lift settles_syscall settles_if settles_raise settles_publish | auto split: prod.split)+

end
