(* ===== verification/Capture_Sessions.thy ===== *)
theory Capture_Sessions
  imports Capture_Recovery
begin

text \<open>
  Whole sessions of the offline capture and the recovery pass at the start of the server: a
  recording without faults, what a pass does to every directory, and the properties that put
  recording, crash and recovery together.
\<close>

section \<open>Recording\<close>

text \<open>A recording session: the capture is created and frames are recorded one after the other,
  each with the random part of its temporary name and the size it had before decoding.\<close>

type_synonym frame = "string \<times> int \<times> byte list"

fun record_all :: "frame list \<Rightarrow> offline_capture \<Rightarrow> files \<times> tick list \<Rightarrow> (unit outcome \<times> offline_capture) \<times> files \<times> tick list" where
  "record_all [] c s = ((Done (), c), s)"
| "record_all ((hex, n, pcm) # frames) c s =
     (case record_decoded_frame hex n pcm c s of
        ((Done _, c'), s') \<Rightarrow> record_all frames c' s'
      | result \<Rightarrow> result)"

definition audio_of :: "frame list \<Rightarrow> byte list" where
  "audio_of frames = concat (map (\<lambda>(hex, n, pcm). pcm) frames)"

text \<open>No temporary name is taken.\<close>

definition no_temps :: "files \<Rightarrow> bool" where
  "no_temps fs \<longleftrightarrow> (\<forall>name hex. fs (temp_name name hex) = None)"

text \<open>The directory of an open capture that has recorded \<open>p\<close>.\<close>

definition recording :: "string \<Rightarrow> byte list \<Rightarrow> offline_capture \<Rightarrow> files \<Rightarrow> bool" where
  "recording sid p c fs \<longleftrightarrow> \<not> oc_closed c \<and> oc_session_id c = sid \<and> input_format_supported (oc_source c) (oc_input_codec c) \<and>
     oc_decoded_pcm_bytes c = length p \<and> fs PCM_PART_NAME = Some (Bytes p) \<and>
     fs METADATA_PART_NAME = Some (document (metadata_of c None ''recording'')) \<and> no_temps fs"

lemma recording_parts_held: "recording sid p c fs \<Longrightarrow> parts_held sid p fs"
  unfolding recording_def parts_held_def by blast


lemma runs_progress:
  assumes "no_temps fs"
  shows "runs (write_progress_metadata hex c) fs () (fs(METADATA_PART_NAME \<mapsto> document (metadata_of c None ''recording'')))"
  unfolding write_progress_metadata_def
  by (rule runs_atomic_json) (use assms in \<open>simp_all add: no_temps_def\<close>)

lemma no_temps_upd: "no_temps fs \<Longrightarrow> \<not> hidden name \<Longrightarrow> no_temps (fs(name := x))"
  by (auto simp: no_temps_def dest: temp_name_distinct)

lemma record_frame_runs:
  assumes "recording sid p c fs" "even (length pcm)"
  obtains c' fs' where "record_decoded_frame hex n pcm c (fs, []) = ((Done (), c'), fs', [])" "recording sid (p @ pcm) c' fs'"
proof -
  let ?c = "c\<lparr>oc_frames_received := oc_frames_received c + 1, oc_encoded_bytes := oc_encoded_bytes c + n,
      oc_decoded_pcm_bytes := oc_decoded_pcm_bytes c + length pcm\<rparr>"
  let ?f1 = "fs(PCM_PART_NAME \<mapsto> Bytes (p @ pcm))"
  let ?f2 = "?f1(METADATA_PART_NAME \<mapsto> document (metadata_of ?c None ''recording''))"
  have part: "fs PCM_PART_NAME = Some (Bytes p)" and temps: "no_temps fs" and open_: "\<not> oc_closed c"
    using assms(1) by (simp_all add: recording_def)
  have app: "append_raw PCM_PART_NAME pcm (fs, []) = (Done (), ?f1, [])"
    using runs_append_raw [of fs, OF part] by (simp add: runs_def)
  have temps1: "no_temps ?f1" using temps by (rule no_temps_upd) simp
  have prog: "write_progress_metadata hex ?c (?f1, []) = (Done (), ?f2, [])"
    using runs_progress [OF temps1] by (simp only: runs_def)
  have "record_decoded_frame hex n pcm c (fs, []) = ((Done (), ?c), ?f2, [])"
    using assms(2) open_ app prog by (simp add: record_decoded_frame_def OUTPUT_SAMPLE_WIDTH_BYTES_def Let_def del: fun_upd_apply)
  moreover have "recording sid (p @ pcm) ?c ?f2"
    using assms(1) no_temps_upd [OF temps1] by (simp add: recording_def)
  ultimately show thesis by (rule that)
qed

lemma record_all_runs:
  assumes "recording sid p c fs" "\<forall>(hex, n, pcm) \<in> set frames. even (length pcm)"
  obtains c' fs' where "record_all frames c (fs, []) = ((Done (), c'), fs', [])" "recording sid (p @ audio_of frames) c' fs'"
proof -
  have "\<exists>c' fs'. record_all frames c (fs, []) = ((Done (), c'), fs', []) \<and> recording sid (p @ audio_of frames) c' fs'"
    using assms
  proof (induction frames arbitrary: p c fs)
    case Nil
    then show ?case by (simp add: audio_of_def)
  next
    case (Cons f frames)
    obtain hex n pcm where f: "f = (hex, n, pcm)" by (cases f) auto
    have "even (length pcm)" using Cons.prems(2) f by simp
    obtain c1 fs1 where step: "record_decoded_frame hex n pcm c (fs, []) = ((Done (), c1), fs1, [])" and rec1: "recording sid (p @ pcm) c1 fs1"
      by (rule record_frame_runs [OF Cons.prems(1) \<open>even (length pcm)\<close>])
    from Cons.IH [OF rec1] Cons.prems(2) show ?case
      by (simp add: f step audio_of_def)
  qed
  then show thesis using that by blast
qed

text \<open>A new capture.\<close>

lemma new_capture_runs:
  assumes "canonical_uuid sid" "input_format_supported so co" "map_of cs sid = None"
  obtains c fs where "new_capture hex now sid co so (cs, []) = (Done c, cs @ [(sid, fs)], [])" "recording sid [] c fs"
proof -
  let ?c = "\<lparr>oc_session_id = sid, oc_input_codec = co, oc_source = so, oc_started_at = utc_iso now,
      oc_frames_received = 0, oc_encoded_bytes = 0, oc_decoded_pcm_bytes = 0, oc_decode_errors = 0, oc_closed = False\<rparr>"
  let ?f1 = "Map.empty(PCM_PART_NAME \<mapsto> Bytes [])"
  let ?f2 = "?f1(METADATA_PART_NAME \<mapsto> document (metadata_of ?c None ''recording''))"
  have valid: "validated_session_id sid = Inr sid"
    using assms(1) by (simp add: validated_session_id_def canonical_uuid_lower)
  have temps: "no_temps ?f1"
    by (rule no_temps_upd) (simp_all add: no_temps_def)
  have "runs (io_then (open_exclusive PCM_PART_NAME) (io_then (write_progress_metadata hex ?c) (io_return ?c))) Map.empty ?c ?f2"
    by (rule runs_bind [OF runs_open_exclusive], simp, rule runs_bind [OF runs_progress [OF temps] runs_return])
  moreover have "AList.update sid fs cs = cs @ [(sid, fs)]" for fs
    using assms(3) by (induction cs) (auto split: if_splits)
  ultimately have "new_capture hex now sid co so (cs, []) = (Done ?c, cs @ [(sid, ?f2)], [])"
    using assms by (simp add: new_capture_def valid in_dir_def runs_def Let_def del: fun_upd_apply)
  moreover have "recording sid [] ?c ?f2"
    using assms(2) no_temps_upd [OF temps] by (simp add: recording_def)
  ultimately show thesis by (rule that)
qed

section \<open>The pass at the start of the server\<close>

text \<open>A recovery that fails without a fault of the system leaves every file as it was.\<close>

lemma fails_recover_one_cases:
  assumes "fails (recover_one env dir) fs e fs'"
  shows "fs' = fs \<or> (\<exists>hex1 d. fails (publish_capture hex1 (re_hex2 env) d) fs e fs') \<and> fs METADATA_PART_NAME \<noteq> None"
  using assms
  by (auto simp: recover_one_def fails_def io_bind_def read_json_def read_bytes_def handle_call_def syscall_clean io_lift_def
      split: sum.splits option.splits content.splits prod.splits if_splits)

lemma failed_recovery_visible:
  assumes "fails (recover_one env dir) fs e fs'" "fs PCM_PART_NAME = Some (Bytes p)"
    and "fs (temp_name METADATA_NAME (re_hex2 env)) = None"
  shows "agrees fs fs'"
  using fails_recover_one_cases [OF assms(1)]
proof (elim disjE conjE exE)
  fix hex1 d
  assume failed: "fails (publish_capture hex1 (re_hex2 env) d) fs e fs'" and doc: "fs METADATA_PART_NAME \<noteq> None"
  show "agrees fs fs'"
  proof (cases "fits_wav p")
    case True
    have False
      using runs_publish [of fs, OF assms(2) doc True assms(3), of hex1 d] failed by (simp add: runs_def fails_def)
    then show ?thesis ..
  next
    case False
    then show ?thesis
      using fails_publish [of fs, OF assms(2) False, of hex1 "re_hex2 env" d] failed by (auto simp: fails_def)
  qed
qed simp

text \<open>What the recovery of one directory does in a pass: whether it succeeds, and the files.\<close>

definition files_of :: "captures \<Rightarrow> string \<Rightarrow> files" where
  "files_of cs d = (case map_of cs d of None \<Rightarrow> Map.empty | Some fs \<Rightarrow> fs)"

definition recovery_result :: "(string \<Rightarrow> recovery_env) \<Rightarrow> captures \<Rightarrow> string \<Rightarrow> bool \<times> files" where
  "recovery_result env cs d =
     (case recover_one (env d) d (files_of cs d, []) of (r, fs', _) \<Rightarrow> (r = Done (), fs'))"

abbreviation recovers :: "(string \<Rightarrow> recovery_env) \<Rightarrow> captures \<Rightarrow> string \<Rightarrow> bool" where
  "recovers env cs d \<equiv> fst (recovery_result env cs d)"

lemma recovery_result_cases:
  obtains fs' where "recovery_result env cs d = (True, fs')" "runs (recover_one (env d) d) (files_of cs d) () fs'"
  | e fs' where "recovery_result env cs d = (False, fs')" "fails (recover_one (env d) d) (files_of cs d) e fs'"
proof -
  have "(\<exists>x fs'. runs (recover_one (env d) d) (files_of cs d) x fs') \<or> (\<exists>e fs'. fails (recover_one (env d) d) (files_of cs d) e fs')"
    using settles_recover_one by (simp add: settles_def)
  then show thesis
  proof (elim disjE exE)
    fix x fs'
    assume "runs (recover_one (env d) d) (files_of cs d) x fs'"
    then show thesis by (intro that(1)) (simp_all add: recovery_result_def runs_def)
  next
    fix e fs'
    assume "fails (recover_one (env d) d) (files_of cs d) e fs'"
    then show thesis by (intro that(2)) (simp_all add: recovery_result_def fails_def)
  qed
qed

lemma in_dir_recover:
  "in_dir d (recover_one (env d) d) (cs, []) = (r, s) \<Longrightarrow>
    (if recovers env cs d then r = Done () else \<exists>e. r = Raised e) \<and> s = (AList.update d (snd (recovery_result env cs d)) cs, [])"
  by (rule recovery_result_cases [of env cs d]) (auto simp: in_dir_def files_of_def runs_def fails_def)

lemma recover_loop_runs:
  assumes "distinct ds"
  shows "\<exists>cs'. recover_loop env ds (r, f) (cs, []) =
      (Done (r + length (filter (recovers env cs) ds), f + length (filter (\<lambda>d. \<not> recovers env cs d) ds)), cs', []) \<and>
    (\<forall>d. map_of cs' d = (if d \<in> set ds then Some (snd (recovery_result env cs d)) else map_of cs d))"
  using assms
proof (induction ds arbitrary: r f cs)
  case (Cons d ds)
  let ?cs = "AList.update d (snd (recovery_result env cs d)) cs"
  have same: "recovery_result env ?cs d' = recovery_result env cs d'" if "d' \<in> set ds" for d'
    using that Cons.prems by (auto simp: recovery_result_def files_of_def update_conv')
  have same_filter: "filter (recovers env ?cs) ds = filter (recovers env cs) ds"
    "filter (\<lambda>d. \<not> recovers env ?cs d) ds = filter (\<lambda>d. \<not> recovers env cs d) ds"
    by (auto intro: filter_cong simp: same)
  obtain q s where step: "in_dir d (recover_one (env d) d) (cs, []) = (q, s)" by (cases "in_dir d (recover_one (env d) d) (cs, [])") auto
  note step' = in_dir_recover [of d env cs, OF step]
  let ?n = "if recovers env cs d then (Suc r, f) else (r, Suc f)"
  have loop: "recover_loop env (d # ds) (r, f) (cs, []) = recover_loop env ds ?n (?cs, [])"
    using step step' by (auto split: if_splits)
  obtain cs' where rest: "recover_loop env ds ?n (?cs, []) =
      (Done (fst ?n + length (filter (recovers env ?cs) ds), snd ?n + length (filter (\<lambda>d. \<not> recovers env ?cs d) ds)), cs', [])"
    and maps: "\<forall>d. map_of cs' d = (if d \<in> set ds then Some (snd (recovery_result env ?cs d)) else map_of ?cs d)"
    using Cons.IH [of "fst ?n" "snd ?n" ?cs] Cons.prems by (metis distinct.simps(2) prod.collapse)
  have "recover_loop env (d # ds) (r, f) (cs, []) =
      (Done (r + length (filter (recovers env cs) (d # ds)), f + length (filter (\<lambda>d. \<not> recovers env cs d) (d # ds))), cs', [])"
    unfolding loop rest same_filter by simp
  moreover have "map_of cs' d' = (if d' \<in> set (d # ds) then Some (snd (recovery_result env cs d')) else map_of cs d')" for d'
    using maps same Cons.prems by (auto simp: update_conv')
  ultimately show ?case by blast
qed simp

lemma leftover_parts_distinct: "distinct (leftover_parts cs)"
  by (simp add: leftover_parts_def)

lemma leftover_parts_set: "d \<in> set (leftover_parts cs) \<longleftrightarrow> (\<exists>fs. map_of cs d = Some fs \<and> fs PCM_PART_NAME \<noteq> None)"
  by (force simp: leftover_parts_def split: option.splits dest: map_of_SomeD)

section \<open>Reading a WAV file back\<close>

text \<open>A reader of the format, independent of the writer: the two chunk headers with their sizes,
  then channels, bytes per sample, rate and frames.\<close>

definition read_wav :: "byte list \<Rightarrow> (nat \<times> nat \<times> nat \<times> byte list) option" where
  "read_wav b =
     (let field = (\<lambda>i w. le_value (take w (drop i b))); tag = (\<lambda>i. take 4 (drop i b)) in
      if 44 \<le> length b \<and> tag 0 = utf8_bytes ''RIFF'' \<and> field 4 4 = length b - 8 \<and> tag 8 = utf8_bytes ''WAVE'' \<and>
         tag 12 = utf8_bytes ''fmt '' \<and> field 16 4 = 16 \<and> field 20 2 = 1 \<and> tag 36 = utf8_bytes ''data'' \<and>
         field 40 4 = length b - 44 \<and> field 28 4 = field 22 2 * field 24 4 * (field 34 2 div 8) \<and>
         field 32 2 = field 22 2 * (field 34 2 div 8)
      then Some (field 22 2, field 34 2 div 8, field 24 4, drop 44 b) else None)"

lemma take_drop_utf8 [simp]: "take n (utf8_bytes s) = utf8_bytes (take n s)" "drop n (utf8_bytes s) = utf8_bytes (drop n s)" "utf8_bytes [] = []"
  by (simp_all add: utf8_bytes_def take_map drop_map)

lemma read_wav_bytes:
  assumes "fits_wav p"
  shows "read_wav (wav_bytes p) = Some (OUTPUT_CHANNELS, OUTPUT_SAMPLE_WIDTH_BYTES, OUTPUT_SAMPLE_RATE, p)"
proof -
  have "length p < 2 ^ 32" "36 + length p < 2 ^ 32" using assms by (simp_all add: fits_wav_def)
  then show ?thesis
    by (simp add: read_wav_def wav_bytes_def wav_header_def format_chunk_def le_value_le_bytes Let_def
        OUTPUT_CHANNELS_def OUTPUT_SAMPLE_WIDTH_BYTES_def OUTPUT_SAMPLE_RATE_def)
qed

section \<open>Properties\<close>

lemma audio_safe_steps:
  "(session_step sid)\<^sup>*\<^sup>* s s' \<Longrightarrow> canonical_uuid sid \<Longrightarrow> audio_safe sid p s \<Longrightarrow> audio_safe sid p s'"
  by (induction rule: rtranclp_induct) (auto intro: audio_safe_step)

text \<open>A crash or an error while closing, then a start of the server: the audio is published.\<close>

lemma finalize_leaves_audio:
  assumes "recording sid p c fs" "finalize_capture h1 h2 t c (fs, ts) = ((r, c'), fs', ts')"
  shows "parts_held sid p fs' \<or> published_audio sid (length p) p fs'"
proof -
  have "fs PCM_PART_NAME = Some (Bytes p)" "\<not> oc_closed c" "oc_session_id c = sid" "oc_decoded_pcm_bytes c = length p"
    using assms(1) by (simp_all add: recording_def)
  then show ?thesis
    using finalize_safe(1) [where fs = fs, OF _ _ assms(2), of p] recording_parts_held [OF assms(1)]
    by (auto dest: parts_kept_parts_held)
qed

lemma pass_result:
  assumes "recover_offline_audio_captures True (Inr (Some ())) env (cs, []) = (r, cs', ts)"
  shows "r = Done (length (filter (recovers env cs) (leftover_parts cs)), length (filter (\<lambda>d. \<not> recovers env cs d) (leftover_parts cs)))"
    and "map_of cs' d = (if d \<in> set (leftover_parts cs) then Some (snd (recovery_result env cs d)) else map_of cs d)"
  using recover_loop_runs [where r = 0 and f = 0 and env = env and cs = cs, OF leftover_parts_distinct [of cs]] assms
  by (auto simp: recover_offline_audio_captures_def)

lemma pass_publishes:
  assumes "parts_held sid p fs \<or> published_audio sid n p fs" "n = length p" "map_of cs sid = Some fs"
    and "canonical_uuid sid" "even (length p)" "fits_wav p" "fs (temp_name METADATA_NAME (re_hex2 (env sid))) = None"
    and pass: "recover_offline_audio_captures True (Inr (Some ())) env (cs, []) = (r, cs', ts)"
  shows "published_audio sid (length p) p (files_of cs' sid)"
  using assms(1)
proof
  assume rec: "parts_held sid p fs"
  obtain fs' where run: "runs (recover_one (env sid) sid) fs () fs'" and pub: "published_audio sid (length p) p fs'"
    by (rule runs_recover_one [OF rec assms(4,5,6,7)])
  have "sid \<in> set (leftover_parts cs)"
    using rec assms(3) by (auto simp: leftover_parts_set parts_held_def)
  then have "map_of cs' sid = Some fs'"
    using pass_result(2) [OF pass, of sid] run assms(3) by (simp add: recovery_result_def files_of_def runs_def)
  then show ?thesis using pub by (simp add: files_of_def)
next
  assume pub: "published_audio sid n p fs"
  then have "sid \<notin> set (leftover_parts cs)"
    using assms(3) by (auto simp: leftover_parts_set published_audio_def)
  then show ?thesis
    using pub pass_result(2) [OF pass, of sid] assms(2,3) by (simp add: files_of_def)
qed

text \<open>C27: A crash while a capture is closed loses no audio. A capture is created for a canonical
  session id and a supported format, any frames of whole samples, less than 4 GiB in all, are
  recorded without a failing call, and closing it runs under an arbitrary schedule in which any
  call may fail or the process may be killed. After the next start of the server, whose recovery
  pass meets no failing call and draws an unused temporary name, the session's directory holds a WAV file that reads back as mono
  16-bit audio at 16 kHz of exactly the recorded bytes, and metadata that counts them.\<close>

theorem crash_loses_no_frame:
  assumes "canonical_uuid sid" "input_format_supported so co" "map_of cs sid = None"
    and "\<forall>(hex, n, pcm) \<in> set frames. even (length pcm)" "36 + length (audio_of frames) < 2 ^ 32"
    and "new_capture hex now sid co so (cs, []) = (Done c0, cs0, [])"
    and "record_all frames c0 (files_of cs0 sid, []) = ((Done (), c), fs, [])"
    and "finalize_capture hex1 hex2 t c (fs, ts) = (result, fs', ts')"
    and "fs' (temp_name METADATA_NAME (re_hex2 (env sid))) = None"
    and "recover_offline_audio_captures True (Inr (Some ())) env (AList.update sid fs' cs0, []) = (counts, cs', ts'')"
  shows "\<exists>b d. files_of cs' sid WAV_NAME = Some (Bytes b) \<and> read_wav b = Some (1, 2, 16000, audio_of frames) \<and>
    files_of cs' sid METADATA_NAME = Some (document d) \<and> dict_get d ''session_id'' = JStr sid \<and>
    dict_get d ''decoded_pcm_bytes'' = JInt (int (length (audio_of frames)))"
proof -
  obtain c1 fs1 where "new_capture hex now sid co so (cs, []) = (Done c1, cs @ [(sid, fs1)], [])" "recording sid [] c1 fs1"
    by (rule new_capture_runs [OF assms(1-3)])
  then have "recording sid [] c0 (files_of cs0 sid)"
    using assms(3,6) by (simp add: files_of_def map_add_def split: option.splits)
  then obtain c2 fs2 where "record_all frames c0 (files_of cs0 sid, []) = ((Done (), c2), fs2, [])" "recording sid ([] @ audio_of frames) c2 fs2"
    by (rule record_all_runs [OF _ assms(4)])
  then have "recording sid (audio_of frames) c fs" using assms(7) by simp
  moreover obtain r c' where "finalize_capture hex1 hex2 t c (fs, ts) = ((r, c'), fs', ts')"
    using assms(8) by (cases result) auto
  ultimately have after: "parts_held sid (audio_of frames) fs' \<or> published_audio sid (length (audio_of frames)) (audio_of frames) fs'"
    by (rule finalize_leaves_audio)
  have "even (length (audio_of frames))"
    using assms(4) by (induction frames) (auto simp: audio_of_def)
  moreover have fits: "fits_wav (audio_of frames)" using assms(5) by (simp add: fits_wav_def)
  ultimately have "published_audio sid (length (audio_of frames)) (audio_of frames) (files_of cs' sid)"
    by (intro pass_publishes [OF after refl _ assms(1) _ _ assms(9,10)]) (simp_all add: update_conv')
  then show ?thesis
    using read_wav_bytes [OF fits] unfolding published_audio_def
    by (auto simp: OUTPUT_CHANNELS_def OUTPUT_SAMPLE_WIDTH_BYTES_def OUTPUT_SAMPLE_RATE_def)
qed

text \<open>C28: What was written to the part file survives every later life of the session. From an open
  recording of some bytes, let frames and decode errors be recorded, the capture be closed,
  the process be killed and recoveries be run, any number of times, in any order and under any
  faults: the directory still holds, beside the session's progress document, a part file that begins
  with those bytes, or a published WAV file that does. A part file of whole samples and less than 4 GiB is
  published by every recovery whose system calls succeed and whose temporary name is unused; one that a short write left at an
  odd length, or a larger one, stays on the disk as it is.\<close>

theorem recorded_audio_survives:
  assumes "canonical_uuid sid" "recording sid p c fs" "(session_step sid)\<^sup>*\<^sup>* (Some c, fs) (x, fs')"
  shows "\<exists>q. parts_held sid (p @ q) fs' \<and>
      (\<forall>env. even (length (p @ q)) \<and> 36 + length (p @ q) < 2 ^ 32 \<and> fs' (temp_name METADATA_NAME (re_hex2 env)) = None \<longrightarrow>
         (\<exists>fs''. runs (recover_one env sid) fs' () fs'' \<and> published_audio sid (length (p @ q)) (p @ q) fs'')) \<or>
    (\<exists>n. published_audio sid n (p @ q) fs')"
proof -
  have "audio_safe sid p (Some c, fs)"
    using assms(2) recording_parts_held [OF assms(2)] unfolding audio_safe_def recording_def
    by (auto intro!: exI [of _ "[]"])
  from audio_safe_steps [OF assms(3,1) this]
  obtain q where "parts_held sid (p @ q) fs' \<or> (\<exists>n. published_audio sid n (p @ q) fs')"
    by (auto simp: audio_safe_def)
  moreover have "\<exists>fs''. runs (recover_one env sid) fs' () fs'' \<and> published_audio sid (length (p @ q)) (p @ q) fs''"
    if "parts_held sid (p @ q) fs'" "even (length (p @ q)) \<and> 36 + length (p @ q) < 2 ^ 32 \<and> fs' (temp_name METADATA_NAME (re_hex2 env)) = None" for env
    by (rule runs_recover_one [OF that(1) assms(1), where env = env]) (use that(2) in \<open>auto simp: fits_wav_def\<close>)
  ultimately show ?thesis by blast
qed

text \<open>C29: The pass at the start of the server, when no system call fails during it, counts every leftover
  part once, as recovered or as failed; the parts left over after it are as many as it counted
  as failed; and it either publishes the audio of a directory or leaves every file in it as it
  was, temporary files apart. (Parts fail then because their documents, names or sizes are not
  acceptable. With a failing call a directory can be published and counted as failed.)\<close>

theorem startup_pass_publishes_or_keeps:
  assumes "\<forall>d fs. map_of cs d = Some fs \<longrightarrow> fs PCM_PART_NAME \<noteq> None \<longrightarrow>
      (\<exists>p. fs PCM_PART_NAME = Some (Bytes p)) \<and> fs (temp_name METADATA_NAME (re_hex2 (env d))) = None"
    and "recover_offline_audio_captures True (Inr (Some ())) env (cs, []) = (r, cs', ts)"
  shows "\<exists>n f. r = Done (n, f) \<and> n + f = length (leftover_parts cs) \<and> f = length (leftover_parts cs') \<and>
    (\<forall>d fs. map_of cs d = Some fs \<longrightarrow>
       agrees fs (files_of cs' d) \<or>
       (\<exists>p. fs PCM_PART_NAME = Some (Bytes p) \<and> published_audio (map lower_char d) (length p) p (files_of cs' d)))"
proof -
  let ?parts = "leftover_parts cs" and ?failed = "\<lambda>d. \<not> recovers env cs d"
  note pass = pass_result [OF assms(2)]
  have result: "if recovers env cs d then \<exists>p. fs PCM_PART_NAME = Some (Bytes p) \<and> published_audio (map lower_char d) (length p) p (snd (recovery_result env cs d))
      else agrees fs (snd (recovery_result env cs d))"
    if d: "map_of cs d = Some fs" "fs PCM_PART_NAME \<noteq> None" for d fs
  proof -
    obtain p where p: "fs PCM_PART_NAME = Some (Bytes p)" and fresh: "fs (temp_name METADATA_NAME (re_hex2 (env d))) = None"
      using assms(1) d by blast
    have files: "files_of cs d = fs" using d(1) by (simp add: files_of_def)
    show ?thesis
    proof (rule recovery_result_cases [of env cs d])
      fix fs'
      assume "recovery_result env cs d = (True, fs')" "runs (recover_one (env d) d) (files_of cs d) () fs'"
      then show ?thesis
        using io_triple_DoneD [OF recover_one_triple [where gs = fs and env = "env d" and dir = d, OF p], where fs = fs and ts = "[]"] p by (simp add: files runs_def)
    next
      fix e fs'
      assume "recovery_result env cs d = (False, fs')" "fails (recover_one (env d) d) (files_of cs d) e fs'"
      then show ?thesis
        using failed_recovery_visible [of _ _ fs, OF _ p fresh] by (simp add: files)
    qed
  qed
  have "set (leftover_parts cs') = set (filter ?failed ?parts)"
  proof (rule set_eqI)
    fix d
    show "d \<in> set (leftover_parts cs') \<longleftrightarrow> d \<in> set (filter ?failed ?parts)"
    proof (cases "d \<in> set ?parts")
      case True
      then obtain fs where fs: "map_of cs d = Some fs" "fs PCM_PART_NAME \<noteq> None" by (auto simp: leftover_parts_set)
      from result [OF this] show ?thesis
        using True pass(2) [of d] fs(2)
        by (auto simp: leftover_parts_set [of d cs'] published_audio_def dest: agreesD [where name = PCM_PART_NAME] split: if_splits)
    next
      case False
      then show ?thesis using pass(2) [of d] by (auto simp: leftover_parts_set)
    qed
  qed
  then have "length (leftover_parts cs') = length (filter ?failed ?parts)"
    by (metis distinct_card distinct_filter leftover_parts_distinct)
  moreover have "length (filter (recovers env cs) ?parts) + length (filter ?failed ?parts) = length ?parts"
    by (rule sum_length_filter_compl)
  moreover have "agrees fs (files_of cs' d) \<or>
       (\<exists>p. fs PCM_PART_NAME = Some (Bytes p) \<and> published_audio (map lower_char d) (length p) p (files_of cs' d))"
    if "map_of cs d = Some fs" for d fs
    using result [OF that] pass(2) [of d] that by (auto simp: files_of_def leftover_parts_set split: if_splits)
  ultimately show ?thesis using pass(1) by auto
qed

text \<open>A part file whose length does not fit the 32-bit sizes of a WAV header is never published:
  under every schedule of faults the recovery ends with an error or a kill and leaves both parts
  as they were. At 32000 bytes a second this is reached after some 37 hours.\<close>

theorem oversized_capture_is_never_published:
  assumes "fs PCM_PART_NAME = Some (Bytes p)" "2 ^ 32 \<le> 36 + length p"
    and "recover_one env dir (fs, ts) = (r, fs', ts')"
  shows "r \<noteq> Done () \<and> agrees fs fs'"
proof -
  have "io_triple (\<lambda>f. f = fs) (publish_capture h1 h2 d) (\<lambda>_ _. False) (agrees fs)" for h1 h2 d
    unfolding publish_capture_def
    by (rule io_triple_bind [where R = "\<lambda>_ _. False"], rule io_triple_weaken, rule write_wav_oversized [where gs = fs and p = p])
      (use assms(1,2) in \<open>simp_all add: io_triple_def\<close>)
  then have "io_triple (\<lambda>f. f = fs) (recover_one env dir) (\<lambda>_ _. False) (agrees fs)"
    by (intro recover_one_publishes [where gs = fs and p = p, OF assms(1)]) simp_all
  from io_triple_run [OF this assms(3)] show ?thesis by auto
qed

text \<open>C30: Every progress document conforms to what the recovery demands of one: for an object of any
  counters, with a supported source and codec, the document as it is stored passes every check
  under the object's session id, yields its source and codec, and its counters and its start
  are taken over into the metadata of the recovery.\<close>

theorem progress_documents_are_well_formed:
  assumes "input_format_supported (oc_source c) (oc_input_codec c)"
  shows "\<exists>d. check_recovery (oc_session_id c) (sort_keys (JObj (metadata_of c ended status))) = Inr (d, oc_source c, oc_input_codec c) \<and>
    recovered_metadata repr (oc_session_id c) now d (oc_source c) (oc_input_codec c) n =
      Inr (capture_metadata (oc_session_id c) (str_or (Some (oc_started_at c)) now) (Some now) (oc_input_codec c) (oc_source c)
        (oc_frames_received c) (oc_encoded_bytes c) n (oc_decode_errors c) ''recovered'')"
  using check_recovery_progress [OF assms, of "oc_session_id c"]
  by (auto simp: metadata_of_def recovered_metadata_progress str_or_def)

section \<open>A sample session\<close>

definition sample_sid :: string where
  "sample_sid = ''0f8fad5b-d9cb-469f-a165-70867728950e''"

definition sample_frames :: "frame list" where
  "sample_frames = [(''a'', 23, [1, 0, 255, 255]), (''b'', 21, [2, 0])]"

definition sample_recovery :: recovery_env where
  "sample_recovery = \<lparr>re_hex1 = ''c'', re_hex2 = ''d'', re_mtime = 0, re_now = 1700000000000000, re_repr = (\<lambda>_. '''')\<rparr>"

lemma sample_sid_canonical: "canonical_uuid sample_sid"
  by code_simp

lemma sample_format: "input_format_supported ''omi'' ''opus''"
  by code_simp

lemma sample_absent: "map_of ([] :: captures) sample_sid = None"
  by simp

lemma sample_audio: "audio_of sample_frames = [1, 0, 255, 255, 2, 0]" "\<forall>(hex, n, pcm) \<in> set sample_frames. even (length pcm)"
  by (simp_all add: audio_of_def sample_frames_def)

lemma sample_recorded:
  obtains c0 fs0 c fs where "new_capture ''e'' 1700000000000000 sample_sid ''opus'' ''omi'' ([], []) = (Done c0, [(sample_sid, fs0)], [])"
    "record_all sample_frames c0 (fs0, []) = ((Done (), c), fs, [])" "recording sample_sid [1, 0, 255, 255, 2, 0] c fs"
proof -
  obtain c0 fs0 where new: "new_capture ''e'' 1700000000000000 sample_sid ''opus'' ''omi'' ([], []) = (Done c0, [] @ [(sample_sid, fs0)], [])"
    and rec0: "recording sample_sid [] c0 fs0"
    by (rule new_capture_runs [OF sample_sid_canonical sample_format sample_absent])
  obtain c fs where "record_all sample_frames c0 (fs0, []) = ((Done (), c), fs, [])" "recording sample_sid ([] @ audio_of sample_frames) c fs"
    by (rule record_all_runs [OF rec0 sample_audio(2)])
  then show thesis using that [of c0 fs0 c fs] new by (simp add: sample_audio)
qed

lemma sample_killed:
  "recording sid p c fs \<Longrightarrow> finalize_capture ''f'' ''g'' 1700000001000000 c (fs, [Dies 0]) = ((Killed, c\<lparr>oc_closed := True\<rparr>), fs, [])"
  by (simp add: finalize_capture_def io_bind_def handle_call_def syscall_def recording_def)

theorem crash_loses_no_frame_witness:
  "\<exists>cs' b. files_of cs' sample_sid WAV_NAME = Some (Bytes b) \<and> read_wav b = Some (1, 2, 16000, [1, 0, 255, 255, 2, 0])"
proof (rule sample_recorded)
  fix c0 fs0 c fs
  assume new: "new_capture ''e'' 1700000000000000 sample_sid ''opus'' ''omi'' ([], []) = (Done c0, [(sample_sid, fs0)], [])"
    and rec: "record_all sample_frames c0 (fs0, []) = ((Done (), c), fs, [])" "recording sample_sid [1, 0, 255, 255, 2, 0] c fs"
  have rec': "record_all sample_frames c0 (files_of [(sample_sid, fs0)] sample_sid, []) = ((Done (), c), fs, [])"
    using rec(1) by (simp add: files_of_def)
  have fresh: "fs (temp_name METADATA_NAME (re_hex2 ((\<lambda>_. sample_recovery) sample_sid))) = None"
    using rec(2) by (simp add: recording_def no_temps_def)
  obtain counts cs' ts where pass: "recover_offline_audio_captures True (Inr (Some ())) (\<lambda>_. sample_recovery)
      (AList.update sample_sid fs [(sample_sid, fs0)], []) = (counts, cs', ts)"
    by (metis prod.collapse)
  show ?thesis
    using crash_loses_no_frame [OF sample_sid_canonical sample_format sample_absent sample_audio(2) _ new rec' sample_killed [OF rec(2)] fresh pass]
    by (auto simp: sample_audio)
qed

theorem recorded_audio_survives_witness:
  "\<exists>fs' q. parts_held sample_sid ([1, 0, 255, 255, 2, 0] @ q) fs' \<or> (\<exists>n. published_audio sample_sid n ([1, 0, 255, 255, 2, 0] @ q) fs')"
proof (rule sample_recorded)
  fix c0 fs0 c fs
  assume rec: "recording sample_sid [1, 0, 255, 255, 2, 0] c fs"
  obtain r fs' ts' where run: "recover_one sample_recovery sample_sid (fs, [Good, Good, Fails 0]) = (r, fs', ts')"
    by (metis prod.collapse)
  have "session_step sample_sid (Some c, fs) (None, fs)" by (rule session_step.die)
  moreover have "session_step sample_sid (None, fs) (None, fs')"
    by (rule session_step.recover [OF _ run]) (use rec in \<open>simp add: recording_def\<close>)
  ultimately have "(session_step sample_sid)\<^sup>*\<^sup>* (Some c, fs) (None, fs')"
    by (rule converse_rtranclp_into_rtranclp [OF _ r_into_rtranclp])
  from recorded_audio_survives [OF sample_sid_canonical rec this] show ?thesis by blast
qed

definition sample_leftovers :: captures where
  "sample_leftovers = [(sample_sid, [PCM_PART_NAME \<mapsto> Bytes [1, 0, 255, 255], METADATA_PART_NAME \<mapsto> Torn]), (''other'', [WAV_NAME \<mapsto> Bytes []])]"

theorem startup_pass_publishes_or_keeps_witness:
  "\<exists>n f cs'. recover_offline_audio_captures True (Inr (Some ())) (\<lambda>_. sample_recovery) (sample_leftovers, []) = (Done (n, f), cs', []) \<and>
     n + f = 1 \<and> f = length (leftover_parts cs')"
proof -
  have start: "\<forall>d fs. map_of sample_leftovers d = Some fs \<longrightarrow> fs PCM_PART_NAME \<noteq> None \<longrightarrow>
      (\<exists>p. fs PCM_PART_NAME = Some (Bytes p)) \<and> fs (temp_name METADATA_NAME (re_hex2 ((\<lambda>_. sample_recovery) d))) = None"
    by (auto simp: sample_leftovers_def split: if_splits)
  obtain r cs' where pass: "recover_offline_audio_captures True (Inr (Some ())) (\<lambda>_. sample_recovery) (sample_leftovers, []) = (r, cs', [])"
    using recover_loop_runs [where r = 0 and f = 0 and env = "\<lambda>_. sample_recovery" and cs = sample_leftovers,
      OF leftover_parts_distinct [of sample_leftovers]]
    unfolding recover_offline_audio_captures_def by fastforce
  have "length (leftover_parts sample_leftovers) = 1"
    by (simp add: leftover_parts_def sample_leftovers_def sample_sid_def)
  then show ?thesis
    using startup_pass_publishes_or_keeps [OF start pass] pass by auto
qed

theorem oversized_capture_is_never_published_witness:
  "fst (recover_one sample_recovery sample_sid ([PCM_PART_NAME \<mapsto> Bytes (replicate (2 ^ 32) 0)], [])) \<noteq> Done ()"
  using oversized_capture_is_never_published [of "[PCM_PART_NAME \<mapsto> Bytes (replicate (2 ^ 32) 0)]" "replicate (2 ^ 32) 0" sample_recovery sample_sid "[]"]
  by (metis fun_upd_same le_add2 length_replicate prod.collapse)

theorem progress_documents_are_well_formed_witness:
  "\<exists>d. check_recovery sample_sid (sort_keys (JObj (capture_metadata sample_sid ''2026-01-01T00:00:00Z'' None ''opus'' ''omi'' 2 44 6 0 ''recording''))) =
    Inr (d, ''omi'', ''opus'')"
  using progress_documents_are_well_formed [of "\<lparr>oc_session_id = sample_sid, oc_input_codec = ''opus'', oc_source = ''omi'',
      oc_started_at = ''2026-01-01T00:00:00Z'', oc_frames_received = 2, oc_encoded_bytes = 44, oc_decoded_pcm_bytes = 6,
      oc_decode_errors = 0, oc_closed = False\<rparr>" None "''recording''" "\<lambda>_. ''''" "''''" 6] sample_format
  by (auto simp: metadata_of_def)

end
