(* ===== verification/Transcript_Segments.thy ===== *)
theory Transcript_Segments
  imports Prelude
begin

text \<open>
  The transcript of a live session (\<^verbatim>\<open>backend/models/transcript_segment.py\<close>): segments, how the
  segments of the recogniser are combined with those of the conversation, and their rendering
  as text. The text of a segment is its list of code points, since the code compares lengths
  in code points; names and identifiers are strings. Times are rationals, their arithmetic
  exact. \<^verbatim>\<open>str.isalpha\<close> and \<^verbatim>\<open>str.islower\<close> read the Unicode database, which is an argument.
\<close>

section \<open>Texts\<close>

type_synonym utext = "nat list"

definition points :: "string \<Rightarrow> utext" where
  "points s = map of_char s"

text \<open>\<^verbatim>\<open>str.isspace\<close>, which \<^verbatim>\<open>strip\<close> and the \<^verbatim>\<open>\s\<close> of a pattern share.\<close>

definition uspace :: "nat \<Rightarrow> bool" where
  "uspace c \<longleftrightarrow> 9 \<le> c \<and> c \<le> 13 \<or> 28 \<le> c \<and> c \<le> 32 \<or> c = 133 \<or> c = 160 \<or> c = 5760 \<or> 8192 \<le> c \<and> c \<le> 8202 \<or>
     c = 8232 \<or> c = 8233 \<or> c = 8239 \<or> c = 8287 \<or> c = 12288"

definition ustrip :: "utext \<Rightarrow> utext" where
  "ustrip s = rev (dropWhile uspace (rev (dropWhile uspace s)))"

text \<open>The enders are \<^verbatim>\<open>. ? !\<close>, the ideographic full stop, exclamation and question mark, the Arabic
  question mark and full stop, danda and double danda.\<close>

definition SENTENCE_ENDERS :: "nat list" where
  "SENTENCE_ENDERS = [46, 63, 33, 12290, 65281, 65311, 1567, 1748, 2404, 2405]"

abbreviation ender :: "nat \<Rightarrow> bool" where
  "ender c \<equiv> c \<in> set SENTENCE_ENDERS"

text \<open>\<^verbatim>\<open>[p for p in SENTENCE_SPLIT_RE.split(text) if p]\<close>: the text is cut after every ender, and
  the blanks that follow it are dropped.\<close>

function split_sentences :: "utext \<Rightarrow> utext list" where
  "split_sentences [] = [[]]"
| "split_sentences (c # s) =
     (if ender c then [c] # split_sentences (dropWhile uspace s)
      else (case split_sentences s of p # ps \<Rightarrow> (c # p) # ps | [] \<Rightarrow> [[c]]))"
  by pat_completeness auto
termination
  by (relation "measure length") (auto simp: le_imp_less_Suc length_dropWhile_le)

definition sentence_parts :: "utext \<Rightarrow> utext list" where
  "sentence_parts text = filter (\<lambda>p. p \<noteq> []) (split_sentences text)"

text \<open>\<^verbatim>\<open>" ".join(ps)\<close>.\<close>

fun join_spaced :: "utext list \<Rightarrow> utext" where
  "join_spaced [] = []"
| "join_spaced [p] = p"
| "join_spaced (p # q # ps) = p @ 32 # join_spaced (q # ps)"

text \<open>\<^verbatim>\<open>s.replace(pat, by)\<close> for a pattern that is not empty.\<close>

function replace_all :: "utext \<Rightarrow> utext \<Rightarrow> utext \<Rightarrow> utext" where
  "replace_all pat by [] = []"
| "replace_all pat by (c # s) =
     (if pat \<noteq> [] \<and> take (length pat) (c # s) = pat then by @ replace_all pat by (drop (length pat) (c # s))
      else c # replace_all pat by s)"
  by pat_completeness auto
termination
  by (relation "measure (\<lambda>(_, _, s). length s)") auto

section \<open>Segments\<close>

record transcript_segment =
  ts_id :: string
  ts_text :: utext
  ts_speaker :: "string option"
  ts_speaker_id :: int
  ts_is_user :: bool
  ts_person_id :: "string option"
  ts_start :: rat
  ts_end :: rat
  ts_translations :: "(string \<times> utext) list"
  ts_speech_profile_processed :: bool
  ts_stt_provider :: "string option"
  ts_speaker_id_scope :: "string option"
  ts_speaker_identity_status :: string

text \<open>What \<^verbatim>\<open>__init__\<close> fills in: an absent or empty id becomes a fresh one, an absent speaker id is
  read off the speaker's name, and the identity status follows \<^verbatim>\<open>is_user\<close> unless it is given.\<close>

definition init_speaker_id :: "string option \<Rightarrow> int option \<Rightarrow> int" where
  "init_speaker_id speaker speaker_id =
     (case speaker_id of
        Some i \<Rightarrow> i
      | None \<Rightarrow>
          (case nonempty_str speaker of
             None \<Rightarrow> 0
           | Some s \<Rightarrow>
               (case split_on (CHR ''_'') s of
                  _ # q # qs \<Rightarrow> (case py_int (drop (Suc (length (takeWhile (\<lambda>c. c \<noteq> CHR ''_'') s))) s) of Some i \<Rightarrow> i | None \<Rightarrow> 0)
                | _ \<Rightarrow> 0)))"

definition init_id :: "string \<Rightarrow> string option \<Rightarrow> string" where
  "init_id fresh given = str_or given fresh"

definition init_identity_status :: "string option \<Rightarrow> bool \<Rightarrow> string" where
  "init_identity_status given is_user =
     (case given of Some s \<Rightarrow> s | None \<Rightarrow> if is_user then ''user'' else ''unknown'')"

section \<open>Where a sentence may move\<close>

text \<open>\<^verbatim>\<open>_extract_last_incomplete_sentence\<close>: the incomplete last sentence, if any, and the text before
  it. The second component is used only together with the first.\<close>

definition extract_last_incomplete_sentence :: "utext \<Rightarrow> utext option \<times> utext" where
  "extract_last_incomplete_sentence text =
     (let t = ustrip text in
      if t = [] then (None, [])
      else
        let parts = sentence_parts t in
        if parts = [] then (None, t)
        else if \<not> ender (last (last parts))
        then (Some (last parts), if 1 < length parts then ustrip (join_spaced (butlast parts)) else [])
        else (None, t))"

definition split_first_sentence :: "utext \<Rightarrow> utext \<times> utext" where
  "split_first_sentence text =
     (let t = ustrip text in
      if t = [] then ([], [])
      else (case sentence_parts t of [] \<Rightarrow> ([], []) | first # rest \<Rightarrow> (first, ustrip (join_spaced rest))))"

text \<open>The Unicode database: which code points are letters and which are lower case.\<close>

record unicode =
  is_alpha :: "nat \<Rightarrow> bool"
  is_lower :: "nat \<Rightarrow> bool"

definition starts_with_lowercase_cased :: "unicode \<Rightarrow> utext \<Rightarrow> bool" where
  "starts_with_lowercase_cased u text \<longleftrightarrow>
     (case find (is_alpha u) (ustrip text) of None \<Rightarrow> False | Some c \<Rightarrow> is_lower u c)"

definition is_sentence_complete :: "unicode \<Rightarrow> utext \<Rightarrow> bool" where
  "is_sentence_complete u text \<longleftrightarrow>
     (let t = ustrip text in t \<noteq> [] \<and> ender (last t) \<and> \<not> starts_with_lowercase_cased u t)"

definition can_backward_merge_first_sentence :: "utext \<Rightarrow> utext \<Rightarrow> utext \<Rightarrow> bool" where
  "can_backward_merge_first_sentence first_sentence rest last_incomplete \<longleftrightarrow>
     (if rest = [] then False else if first_sentence = [] then False else length first_sentence < length last_incomplete)"

definition can_backward_merge_single_sentence :: "unicode \<Rightarrow> utext \<Rightarrow> utext \<Rightarrow> bool" where
  "can_backward_merge_single_sentence u first_sentence last_incomplete \<longleftrightarrow>
     (if first_sentence = [] then False else if is_sentence_complete u first_sentence then False
      else length first_sentence < length last_incomplete)"

definition same_voice :: "transcript_segment \<Rightarrow> transcript_segment \<Rightarrow> bool" where
  "same_voice a b \<longleftrightarrow> ts_speaker a = ts_speaker b \<or> ts_is_user a \<and> ts_is_user b"

definition should_merge_same_speaker :: "transcript_segment \<Rightarrow> transcript_segment \<Rightarrow> bool" where
  "should_merge_same_speaker a b \<longleftrightarrow>
     same_voice a b \<and> ts_speech_profile_processed a = ts_speech_profile_processed b \<and> ts_start b - ts_end a < 3 \<and>
     (length (ts_text a) < 125 \<or> \<not> ender (last (ts_text a)))"

definition should_merge_lowercase_continuation :: "unicode \<Rightarrow> transcript_segment \<Rightarrow> transcript_segment \<Rightarrow> bool" where
  "should_merge_lowercase_continuation u a b \<longleftrightarrow>
     ts_text a \<noteq> [] \<and> ts_text b \<noteq> [] \<and> same_voice a b \<and> \<not> ender (last (ts_text a)) \<and>
     starts_with_lowercase_cased u (ts_text b) \<and> ts_speech_profile_processed a = ts_speech_profile_processed b"

section \<open>Merging two segments\<close>

text \<open>\<^verbatim>\<open>f'{s} {t}'\<close>.\<close>

abbreviation spaced :: "utext \<Rightarrow> utext \<Rightarrow> utext" where
  "spaced s t \<equiv> s @ 32 # t"

text \<open>\<^verbatim>\<open>_merge\<close> on two segments: what it returns, and the first segment as it was left, which the
  caller still holds when the first result is \<^verbatim>\<open>None\<close>.\<close>

definition append_segment :: "transcript_segment \<Rightarrow> transcript_segment \<Rightarrow> transcript_segment" where
  "append_segment a b = a\<lparr>ts_text := spaced (ts_text a) (ts_text b), ts_end := ts_end b\<rparr>"

definition merge_continuation :: "unicode \<Rightarrow> transcript_segment \<Rightarrow> transcript_segment \<Rightarrow> transcript_segment option \<times> transcript_segment option \<times> transcript_segment" where
  "merge_continuation u a b =
     (if should_merge_same_speaker a b then (let a' = append_segment a b in (Some a', None, a'))
      else if should_merge_lowercase_continuation u a b then (let a' = append_segment a b in (Some a', None, a'))
      else (Some a, Some b, a))"

definition merge_segments :: "unicode \<Rightarrow> transcript_segment \<Rightarrow> transcript_segment \<Rightarrow> transcript_segment option \<times> transcript_segment option \<times> transcript_segment" where
  "merge_segments u a b =
     (if ts_stt_provider b \<noteq> ts_stt_provider a then (Some a, Some b, a)
      else if ts_speaker_id_scope b \<noteq> ts_speaker_id_scope a then (Some a, Some b, a)
      else if \<not> same_voice a b \<and> ts_text a \<noteq> [] \<and> ts_text b \<noteq> [] then
        (case extract_last_incomplete_sentence (ts_text a) of
           (None, _) \<Rightarrow> merge_continuation u a b
         | (Some last_incomplete, prefix) \<Rightarrow>
             (case split_first_sentence (ts_text b) of (first_sentence, rest) \<Rightarrow>
                if can_backward_merge_first_sentence first_sentence rest last_incomplete then
                  (let a' = a\<lparr>ts_text := ustrip (spaced (ts_text a) first_sentence)\<rparr> in (Some a', Some (b\<lparr>ts_text := rest\<rparr>), a'))
                else if can_backward_merge_single_sentence u first_sentence last_incomplete then
                  (let a' = a\<lparr>ts_text := ustrip (spaced (ts_text a) first_sentence)\<rparr> in (Some a', None, a'))
                else if length last_incomplete < length (ustrip (ts_text b)) then
                  (let b' = b\<lparr>ts_text := ustrip (spaced last_incomplete (ts_text b))\<rparr> in
                   if prefix \<noteq> [] then
                     (let a' = a\<lparr>ts_text := prefix, ts_end := min (ts_end a) (ts_start b)\<rparr> in (Some a', Some b', a'))
                   else (None, Some b', a\<lparr>ts_text := []\<rparr>))
                else merge_continuation u a b))
      else merge_continuation u a b)"

section \<open>Combining\<close>

text \<open>The state of the loop: the joined segments with the last one first, the removed ids, and
  whether the tail of the conversation was dropped. \<open>tail\<close> is the conversation's last segment.\<close>

definition join_step :: "unicode \<Rightarrow> transcript_segment option \<Rightarrow> int \<Rightarrow> transcript_segment \<Rightarrow> transcript_segment list \<times> string list \<times> bool
    \<Rightarrow> transcript_segment list \<times> string list \<times> bool" where
  "join_step u tail delta_seconds new = (\<lambda>(joined, removed, dropped).
     let b0 = (if 0 < delta_seconds then new\<lparr>ts_start := ts_start new + of_int delta_seconds, ts_end := ts_end new + of_int delta_seconds\<rparr>
               else new)
     in case joined of
          [] \<Rightarrow> ([b0], removed, dropped)
        | latest # earlier \<Rightarrow>
            (case merge_segments u latest b0 of (a, b, left) \<Rightarrow>
               let (joined', removed', dropped') =
                 (case a of
                    Some a' \<Rightarrow> (a' # earlier, removed, dropped)
                  | None \<Rightarrow>
                      if ts_text left = [] then
                        (case tail of
                           Some t \<Rightarrow> if ts_id left = ts_id t then (earlier, removed @ [ts_id t], True) else (earlier, removed, dropped)
                         | None \<Rightarrow> (earlier, removed, dropped))
                      else (left # earlier, removed, dropped))
               in (case b of Some b' \<Rightarrow> (b' # joined', removed', dropped') | None \<Rightarrow> (joined', removed', dropped'))))"

definition normalize_spacing :: "utext \<Rightarrow> utext" where
  "normalize_spacing text =
     replace_all (points '' ?'') (points ''?'')
       (replace_all (points '' .'') (points ''.'')
         (replace_all (points '' ,'') (points '','')
           (replace_all (points ''  '') (points '' '') (ustrip text))))"

definition normalize_segment :: "transcript_segment \<Rightarrow> transcript_segment" where
  "normalize_segment s = s\<lparr>ts_text := normalize_spacing (ts_text s)\<rparr>"

definition combine_segments :: "unicode \<Rightarrow> transcript_segment list \<Rightarrow> transcript_segment list \<Rightarrow> int \<Rightarrow> transcript_segment list \<times> transcript_segment list \<times> string list" where
  "combine_segments u segments new_segments delta_seconds =
     (if new_segments = [] then (segments, [], [])
      else
        let tail = (if segments = [] then None else Some (last segments));
            start = (case tail of None \<Rightarrow> [] | Some t \<Rightarrow> [t])
        in case fold (join_step u tail delta_seconds) new_segments (start, [], False) of
             (joined_rev, removed_ids, dropped_existing_tail) \<Rightarrow>
               let joined = rev joined_rev;
                   kept = (if dropped_existing_tail \<and> segments \<noteq> [] then butlast segments
                           else if segments \<noteq> [] \<and> joined \<noteq> [] \<and> ts_id (last segments) = ts_id (hd joined) then butlast segments
                           else segments)
               in (map normalize_segment (kept @ joined), map normalize_segment joined, removed_ids))"

section \<open>Rendering\<close>

text \<open>\<^verbatim>\<open>str(timedelta(seconds=int(t)))\<close>; \<^verbatim>\<open>int\<close> truncates towards zero.\<close>

definition timedelta_text :: "int \<Rightarrow> string" where
  "timedelta_text secs =
     (let d = secs div 86400; r = secs mod 86400 in
      (if d = 0 then [] else show_int d @ (if \<bar>d\<bar> = 1 then '' day, '' else '' days, '')) @
      show_int (r div 3600) @ '':'' @ show_02d (r div 60 mod 60) @ '':'' @ show_02d (r mod 60))"

definition whole_seconds :: "rat \<Rightarrow> int" where
  "whole_seconds t = (if t < 0 then \<lceil>t\<rceil> else \<lfloor>t\<rfloor>)"

definition get_timestamp_string :: "transcript_segment \<Rightarrow> string" where
  "get_timestamp_string s = timedelta_text (whole_seconds (ts_start s)) @ '' - '' @ timedelta_text (whole_seconds (ts_end s))"

text \<open>The two nested loops over \<open>i < j\<close>.\<close>

fun can_display_seconds :: "transcript_segment list \<Rightarrow> bool" where
  "can_display_seconds [] = True"
| "can_display_seconds (s # ss) =
     (list_all (\<lambda>t. \<not> (ts_start s > ts_end t \<or> ts_end s > ts_start t)) ss \<and> can_display_seconds ss)"

definition segments_as_string :: "transcript_segment list \<Rightarrow> bool \<Rightarrow> utext option \<Rightarrow> (string \<times> utext) list option \<Rightarrow> utext" where
  "segments_as_string segments include_timestamps user_name people =
     (let name = (case user_name of None \<Rightarrow> points ''User'' | Some n \<Rightarrow> if n = [] then points ''User'' else n);
          people_map = (case people of None \<Rightarrow> Map.empty | Some ps \<Rightarrow> map_of (rev ps));
          stamps = (include_timestamps \<and> can_display_seconds segments);
          line = (\<lambda>s.
            (if stamps then points (''['' @ get_timestamp_string s @ ''] '') else []) @
            (if ts_is_user s then name
             else case nonempty_str (ts_person_id s) of
                 None \<Rightarrow> points (''Speaker '' @ show_int (ts_speaker_id s))
               | Some p \<Rightarrow> (case people_map p of Some n \<Rightarrow> n | None \<Rightarrow> points (''Speaker '' @ show_int (ts_speaker_id s)))) @
            points '': '' @ ustrip (ts_text s) @ [10, 10])
      in ustrip (concat (map line segments)))"

section \<open>What is written, blanks apart\<close>

definition letters :: "utext \<Rightarrow> utext" where
  "letters s = filter (\<lambda>c. \<not> uspace c) s"

lemma letters_simps [simp]:
  "letters [] = []" "letters (s @ t) = letters s @ letters t" "letters (32 # s) = letters s"
  by (simp_all add: letters_def uspace_def)

lemma letters_dropWhile [simp]: "letters (dropWhile uspace s) = letters s"
  by (induction s) (auto simp: letters_def)

lemma letters_rev: "letters (rev s) = rev (letters s)"
  by (simp add: letters_def rev_filter)

lemma letters_ustrip [simp]: "letters (ustrip s) = letters s"
  by (simp add: ustrip_def letters_rev)

lemma letters_split: "letters (concat (split_sentences s)) = letters s"
proof (induction s rule: split_sentences.induct)
  case (2 c s)
  show ?case
  proof (cases "ender c")
    case True
    have "letters (c # concat (split_sentences (dropWhile uspace s))) = letters [c] @ letters (concat (split_sentences (dropWhile uspace s)))"
      by (simp add: letters_def)
    also have "\<dots> = letters (c # s)"
      using 2(1) [OF True] letters_dropWhile [of s] by (simp add: letters_def)
    finally show ?thesis using True by simp
  next
    case False
    then show ?thesis
      using 2(2) [OF False] by (cases "split_sentences s") (auto simp: letters_def)
  qed
qed simp

lemma concat_nonempty: "concat (filter (\<lambda>p. p \<noteq> []) ps) = concat ps"
  by (induction ps) auto

lemma letters_parts: "letters (concat (sentence_parts s)) = letters s"
  by (simp add: sentence_parts_def concat_nonempty letters_split)

lemma letters_join: "letters (join_spaced ps) = letters (concat ps)"
  by (induction ps rule: join_spaced.induct) auto

lemma letters_replace:
  "letters by = letters pat \<Longrightarrow> letters (replace_all pat by s) = letters s"
proof (induction pat "by" s rule: replace_all.induct)
  case (2 pat "by" c s)
  show ?case
  proof (cases "pat \<noteq> [] \<and> take (length pat) (c # s) = pat")
    case True
    have "letters (c # s) = letters pat @ letters (drop (length pat) (c # s))"
      using True by (metis append_take_drop_id letters_simps(2))
    then show ?thesis
      using True 2(1) [OF True 2(3)] 2(3) by simp
  next
    case False
    then have "replace_all pat by (c # s) = c # replace_all pat by s"
      by (simp only: replace_all.simps if_False)
    then show ?thesis
      using 2(2) [OF False 2(3)] by (simp add: letters_def)
  qed
qed simp

lemma letters_normalize [simp]: "letters (normalize_spacing s) = letters s"
proof -
  have "letters (points '' ?'') = letters (points ''?'')" "letters (points '' .'') = letters (points ''.'')"
    "letters (points '' ,'') = letters (points '','')" "letters (points ''  '') = letters (points '' '')"
    by (simp_all add: points_def)
  then show ?thesis
    by (simp add: normalize_spacing_def letters_replace)
qed

lemma sentence_parts_not_Nil: "p \<in> set (sentence_parts s) \<Longrightarrow> p \<noteq> []"
  by (simp add: sentence_parts_def)

text \<open>Taking the last sentence off a text, or the first, loses no letter.\<close>

lemma letters_extract:
  assumes "extract_last_incomplete_sentence s = (Some l, prefix)"
  shows "letters prefix @ letters l = letters s" and "l \<noteq> []"
proof -
  have parts: "sentence_parts (ustrip s) \<noteq> []" and l: "l = last (sentence_parts (ustrip s))"
    and prefix: "prefix = (if 1 < length (sentence_parts (ustrip s)) then ustrip (join_spaced (butlast (sentence_parts (ustrip s)))) else [])"
    using assms by (auto simp: extract_last_incomplete_sentence_def Let_def split: if_splits)
  have "letters prefix = letters (concat (butlast (sentence_parts (ustrip s))))"
    using parts unfolding prefix by (cases "sentence_parts (ustrip s)") (auto simp: letters_join)
  moreover have "concat (butlast (sentence_parts (ustrip s))) @ l = concat (sentence_parts (ustrip s))"
    using parts unfolding l by (metis append_butlast_last_id concat_append concat.simps append_Nil2)
  ultimately show "letters prefix @ letters l = letters s"
    by (metis letters_parts letters_simps(2) letters_ustrip)
  show "l \<noteq> []"
    unfolding l by (rule sentence_parts_not_Nil [OF last_in_set [OF parts]])
qed

lemma letters_split_first: "split_first_sentence s = (first, rest) \<Longrightarrow> letters first @ letters rest = letters s"
  using letters_parts [of "ustrip s"]
  by (auto simp: split_first_sentence_def Let_def letters_join split: if_splits list.splits)
    (metis letters_simps(1) letters_ustrip)+

section \<open>Merging loses no letter\<close>

text \<open>Text that different recognisers or different speaker numberings produced is kept apart.\<close>

definition origin :: "transcript_segment \<Rightarrow> string option \<times> string option" where
  "origin s = (ts_stt_provider s, ts_speaker_id_scope s)"

definition letters_from :: "(string option \<times> string option \<Rightarrow> bool) \<Rightarrow> transcript_segment list \<Rightarrow> utext" where
  "letters_from k ss = concat (map (\<lambda>s. letters (ts_text s)) (filter (\<lambda>s. k (origin s)) ss))"

lemma letters_from_simps [simp]:
  "letters_from k [] = []" "letters_from k (xs @ ys) = letters_from k xs @ letters_from k ys"
  "letters_from k (s # ss) = (if k (origin s) then letters (ts_text s) else []) @ letters_from k ss"
  by (simp_all add: letters_from_def)

definition held :: "transcript_segment option \<Rightarrow> transcript_segment list" where
  "held x = (case x of None \<Rightarrow> [] | Some s \<Rightarrow> [s])"

lemma held_simps [simp]: "held None = []" "held (Some s) = [s]"
  by (simp_all add: held_def)

lemma merge_continuation_letters:
  "merge_continuation u a b = (x, y, left) \<Longrightarrow> origin a = origin b \<Longrightarrow>
    letters_from k (held x @ held y) = letters_from k [a, b] \<and> x \<noteq> None \<and>
    (\<forall>a'. x = Some a' \<longrightarrow> ts_id a' = ts_id a) \<and> (\<forall>b'. y = Some b' \<longrightarrow> ts_id b' = ts_id b)"
  by (auto simp: merge_continuation_def Let_def append_segment_def origin_def split: if_splits)

lemma merge_segments_letters:
  assumes "merge_segments u a b = (x, y, left)"
  shows "letters_from k (held x @ held y) = letters_from k [a, b]"
    and "x = None \<Longrightarrow> ts_text left = [] \<and> ts_id left = ts_id a"
    and "x = Some a' \<Longrightarrow> ts_id a' = ts_id a" and "y = Some b' \<Longrightarrow> ts_id b' = ts_id b"
proof -
  have "letters_from k (held x @ held y) = letters_from k [a, b] \<and> (x = None \<longrightarrow> ts_text left = [] \<and> ts_id left = ts_id a) \<and>
      (\<forall>a'. x = Some a' \<longrightarrow> ts_id a' = ts_id a) \<and> (\<forall>b'. y = Some b' \<longrightarrow> ts_id b' = ts_id b)"
  proof (cases "origin a = origin b")
    case False
    then have "x = Some a \<and> y = Some b"
      using assms by (auto simp: merge_segments_def origin_def split: if_splits)
    then show ?thesis by simp
  next
    case same: True
    note cont = merge_continuation_letters [OF _ same, of u x y left k]
    show ?thesis
    proof (cases "\<not> same_voice a b \<and> ts_text a \<noteq> [] \<and> ts_text b \<noteq> []")
      case False
      have "merge_segments u a b = merge_continuation u a b"
        using same unfolding merge_segments_def if_not_P [OF False] by (simp add: origin_def)
      then have "merge_continuation u a b = (x, y, left)" using assms by simp
      from cont [OF this] show ?thesis by blast
    next
      case True
      obtain l pre where ext: "extract_last_incomplete_sentence (ts_text a) = (l, pre)" by force
      obtain first rest where split: "split_first_sentence (ts_text b) = (first, rest)" by force
      note whole = letters_split_first [OF split]
      show ?thesis
      proof (cases l)
        case None
        then have "merge_continuation u a b = (x, y, left)"
          using assms same True ext by (simp add: merge_segments_def origin_def)
        from cont [OF this] show ?thesis by blast
      next
        case (Some i)
        note part = letters_extract [OF ext [unfolded Some]]
        let ?joined = "a\<lparr>ts_text := ustrip (spaced (ts_text a) first)\<rparr>"
        let ?short = "a\<lparr>ts_text := pre, ts_end := min (ts_end a) (ts_start b)\<rparr>"
        let ?long = "b\<lparr>ts_text := ustrip (spaced i (ts_text b))\<rparr>"
        have keys: "origin ?joined = origin a" "origin (b\<lparr>ts_text := rest\<rparr>) = origin a" "origin ?short = origin a" "origin ?long = origin a"
          using same by (simp_all add: origin_def)
        have result: "(x, y, left) =
          (if can_backward_merge_first_sentence first rest i then (Some ?joined, Some (b\<lparr>ts_text := rest\<rparr>), ?joined)
           else if can_backward_merge_single_sentence u first i then (Some ?joined, None, ?joined)
           else if length i < length (ustrip (ts_text b)) then
             (if pre \<noteq> [] then (Some ?short, Some ?long, ?short) else (None, Some ?long, a\<lparr>ts_text := []\<rparr>))
           else merge_continuation u a b)"
          unfolding assms [symmetric] using same True ext split Some by (simp add: merge_segments_def origin_def Let_def)
        show ?thesis
        proof (cases "can_backward_merge_first_sentence first rest i")
          case True
          then show ?thesis using result keys same whole by simp
        next
          case no_first: False
          show ?thesis
          proof (cases "can_backward_merge_single_sentence u first i")
            case True
            then have "rest = []"
              using no_first by (auto simp: can_backward_merge_single_sentence_def can_backward_merge_first_sentence_def split: if_splits)
            then show ?thesis using result no_first True keys same whole by simp
          next
            case no_single: False
            show ?thesis
            proof (cases "length i < length (ustrip (ts_text b))")
              case True
              then show ?thesis
                using result no_first no_single keys same part(1) by (cases "pre = []") auto
            next
              case False
              then have "merge_continuation u a b = (x, y, left)" using result no_first no_single by simp
              from cont [OF this] show ?thesis by blast
            qed
          qed
        qed
      qed
    qed
  qed
  then show "letters_from k (held x @ held y) = letters_from k [a, b]" "x = None \<Longrightarrow> ts_text left = [] \<and> ts_id left = ts_id a"
    "x = Some a' \<Longrightarrow> ts_id a' = ts_id a" "y = Some b' \<Longrightarrow> ts_id b' = ts_id b" by blast+
qed

section \<open>The loop\<close>

text \<open>What one turn does to the joined segments: the last one is kept changed or given up, and the
  new one is kept changed or taken in. A given up segment has left all its text to the new one.\<close>

definition shifted :: "int \<Rightarrow> transcript_segment \<Rightarrow> transcript_segment" where
  "shifted delta_seconds new =
     (if 0 < delta_seconds then new\<lparr>ts_start := ts_start new + of_int delta_seconds, ts_end := ts_end new + of_int delta_seconds\<rparr>
      else new)"

lemma shifted_simps [simp]: "ts_id (shifted d s) = ts_id s" "ts_text (shifted d s) = ts_text s" "origin (shifted d s) = origin s"
  by (simp_all add: shifted_def origin_def)

lemma join_step_Nil: "join_step u tail d new ([], removed, dropped) = ([shifted d new], removed, dropped)"
  by (simp add: join_step_def shifted_def)

lemma join_step_Cons:
  assumes "merge_segments u latest (shifted d new) = (a, b, left)"
  shows "join_step u tail d new (latest # earlier, removed, dropped) =
    (held b @ held a @ earlier,
     if a = None \<and> map_option ts_id tail = Some (ts_id latest) then (removed @ [ts_id latest], True) else (removed, dropped))"
  using merge_segments_letters(2) [OF assms] assms
  by (cases a; cases b; cases tail) (auto simp: join_step_def shifted_def [symmetric] Let_def)

text \<open>The invariant of the loop, for the segments taken in so far: no letter of any origin is lost
  or moved past another; the ids are those of the tail and of the segments taken in; the oldest
  joined segment is the tail until the tail is given up, which is when its id is removed.\<close>

definition join_inv :: "transcript_segment option \<Rightarrow> transcript_segment list \<Rightarrow> transcript_segment list \<times> string list \<times> bool \<Rightarrow> bool" where
  "join_inv tail taken = (\<lambda>(joined, removed, dropped).
     (\<forall>k. letters_from k (rev joined) = letters_from k (held tail @ taken)) \<and>
     ts_id ` set joined \<subseteq> ts_id ` set (held tail @ taken) \<and>
     dropped = (removed \<noteq> []) \<and> ts_id ` set (held tail) \<supseteq> set removed \<and>
     (\<forall>t. tail = Some t \<longrightarrow> \<not> dropped \<longrightarrow> joined \<noteq> [] \<and> ts_id (last joined) = ts_id t) \<and>
     (\<forall>t. tail = Some t \<longrightarrow> ts_id t \<notin> ts_id ` set taken \<longrightarrow>
        ts_id t \<notin> ts_id ` set (if dropped then joined else butlast joined)))"

text \<open>The oldest joined segment through one turn that does not give it up.\<close>

lemma kept_tail:
  assumes "a = None \<or> (\<exists>a'. a = Some a' \<and> ts_id a' = ts_id latest)" "b = None \<or> (\<exists>b'. b = Some b' \<and> ts_id b' = ts_id new)"
    and "\<not> (a = None \<and> ts_id latest = i)" "ts_id (last (latest # earlier)) = i"
  shows "held b @ held a @ earlier \<noteq> [] \<and> ts_id (last (held b @ held a @ earlier)) = i"
  using assms by (cases "earlier = []") auto

lemma fresh_tail:
  assumes "a = None \<or> (\<exists>a'. a = Some a' \<and> ts_id a' = ts_id latest)" "b = None \<or> (\<exists>b'. b = Some b' \<and> ts_id b' = ts_id new)"
    and "\<not> (a = None \<and> ts_id latest = i)" "ts_id new \<noteq> i"
    and "i \<notin> ts_id ` set (if dropped then latest # earlier else butlast (latest # earlier))"
    and "\<not> dropped \<Longrightarrow> ts_id (last (latest # earlier)) = i"
  shows "i \<notin> ts_id ` set (if dropped then held b @ held a @ earlier else butlast (held b @ held a @ earlier))"
proof (cases "dropped \<or> earlier \<noteq> []")
  case True
  then show ?thesis using assms by (auto simp: butlast_append)
next
  case False
  then show ?thesis using assms by auto
qed

lemma join_inv_step:
  assumes "join_inv tail taken s"
  shows "join_inv tail (taken @ [new]) (join_step u tail d new s)"
proof -
  obtain joined removed dropped where s: "s = (joined, removed, dropped)" by (cases s) auto
  note inv = assms [unfolded s join_inv_def prod.case]
  show ?thesis
  proof (cases joined)
    case Nil
    then show ?thesis
      using inv unfolding s Nil join_step_Nil join_inv_def by auto
  next
    case (Cons latest earlier)
    obtain a b left where m: "merge_segments u latest (shifted d new) = (a, b, left)" by (cases "merge_segments u latest (shifted d new)") auto
    have ia: "a = None \<or> (\<exists>a'. a = Some a' \<and> ts_id a' = ts_id latest)"
      using merge_segments_letters(3) [OF m] by (cases a) blast+
    have ib: "b = None \<or> (\<exists>b'. b = Some b' \<and> ts_id b' = ts_id new)"
      using merge_segments_letters(4) [OF m] by (cases b) (simp_all only: shifted_simps, blast+)
    have "letters_from k (rev (held b @ held a @ earlier)) = letters_from k (rev joined) @ letters_from k [new]" for k
      using merge_segments_letters(1) [OF m, of k] unfolding Cons by (cases a; cases b) auto
    then have letters: "letters_from k (rev (held b @ held a @ earlier)) = letters_from k (held tail @ taken @ [new])" for k
      using inv by simp
    have set: "ts_id ` set (held b @ held a @ earlier) \<subseteq> insert (ts_id new) (ts_id ` set joined)"
      using ia ib unfolding Cons by auto
    have "insert (ts_id new) (ts_id ` set joined) \<subseteq> ts_id ` set (held tail @ taken @ [new])"
      using inv by auto
    with set have ids: "ts_id ` set (held b @ held a @ earlier) \<subseteq> ts_id ` set (held tail @ taken @ [new])"
      by (rule subset_trans)
    have step: "join_step u tail d new s =
      (held b @ held a @ earlier,
       if a = None \<and> map_option ts_id tail = Some (ts_id latest) then (removed @ [ts_id latest], True) else (removed, dropped))"
      unfolding s Cons by (rule join_step_Cons [OF m])
    show ?thesis
    proof (cases tail)
      case None
      then show ?thesis
        using letters ids inv unfolding step join_inv_def by simp
    next
      case (Some t)
      have open_: "\<not> dropped \<Longrightarrow> ts_id (last joined) = ts_id t"
        and fresh: "ts_id t \<notin> ts_id ` set taken \<Longrightarrow> ts_id t \<notin> ts_id ` set (if dropped then joined else butlast joined)"
        and flag: "dropped = (removed \<noteq> [])" and only: "set removed \<subseteq> {ts_id t}"
        and sub: "ts_id ` set joined \<subseteq> insert (ts_id t) (ts_id ` set taken)"
        using inv Some by auto
      show ?thesis
      proof (cases "a = None \<and> ts_id latest = ts_id t")
        case True
        have "ts_id t \<notin> ts_id ` set (held b @ held a @ earlier)" if "ts_id t \<notin> ts_id ` set (taken @ [new])"
        proof -
          have "earlier = [] \<and> \<not> dropped"
            using fresh that True unfolding Cons by (cases "earlier = []"; cases dropped) auto
          then show ?thesis using True that ib by auto
        qed
        then show ?thesis
          using letters ids True Some only unfolding step join_inv_def by simp
      next
        case False
        note kept = kept_tail [OF ia ib, where earlier = earlier, OF False] fresh_tail [OF ia ib, where earlier = earlier and dropped = dropped, OF False]
        have last: "\<not> dropped \<Longrightarrow> held b @ held a @ earlier \<noteq> [] \<and> ts_id (last (held b @ held a @ earlier)) = ts_id t"
          using kept(1) open_ unfolding Cons by blast
        have "ts_id t \<notin> ts_id ` set (if dropped then held b @ held a @ earlier else butlast (held b @ held a @ earlier))"
          if "ts_id t \<notin> ts_id ` set (taken @ [new])"
          using that kept(2) fresh open_ unfolding Cons by auto
        then show ?thesis
          using letters ids False Some only flag last unfolding step join_inv_def by auto
      qed
    qed
  qed
qed

lemma join_inv_fold: "join_inv tail taken s \<Longrightarrow> join_inv tail (taken @ news) (fold (join_step u tail d) news s)"
proof (induction news arbitrary: taken s)
  case (Cons new news)
  from Cons.IH [OF join_inv_step [OF Cons.prems]] show ?case by simp
qed simp

section \<open>Combining, as a whole\<close>

text \<open>The conversation keeps everything but its tail; the tail is the first of the joined segments
  or was given up.\<close>

lemma combine_segments_shape:
  assumes "new_segments \<noteq> []"
  obtains joined removed dropped where
    "combine_segments u segments new_segments d = (map normalize_segment (butlast segments @ joined), map normalize_segment joined, removed)"
    "join_inv (if segments = [] then None else Some (last segments)) new_segments (rev joined, removed, dropped)"
proof -
  let ?tail = "if segments = [] then None else Some (last segments)"
  obtain rjoined removed dropped where loop: "fold (join_step u ?tail d) new_segments (held ?tail, [], False) = (rjoined, removed, dropped)"
    by (metis prod_cases3)
  have "join_inv ?tail [] (held ?tail, [], False)"
    by (auto simp: join_inv_def)
  from join_inv_fold [OF this, of new_segments u d] have inv: "join_inv ?tail new_segments (rjoined, removed, dropped)"
    unfolding loop by simp
  have "segments \<noteq> [] \<Longrightarrow> dropped \<or> rjoined \<noteq> [] \<and> ts_id (last segments) = ts_id (hd (rev rjoined))"
    using inv by (auto simp: join_inv_def hd_rev)
  then have kept: "(if dropped \<and> segments \<noteq> [] then butlast segments
       else if segments \<noteq> [] \<and> rev rjoined \<noteq> [] \<and> ts_id (last segments) = ts_id (hd (rev rjoined)) then butlast segments
       else segments) = butlast segments"
    by (cases "segments = []") auto
  have "(case ?tail of None \<Rightarrow> [] | Some t \<Rightarrow> [t]) = held ?tail" by (simp add: held_def)
  then have "combine_segments u segments new_segments d =
      (map normalize_segment (butlast segments @ rev rjoined), map normalize_segment (rev rjoined), removed)"
    using assms unfolding combine_segments_def Let_def by (simp only: loop prod.case kept if_False)
  then show thesis
    using inv by (intro that [of "rev rjoined" removed dropped]) simp_all
qed

lemma normalize_segment_simps [simp]:
  "ts_id (normalize_segment s) = ts_id s" "origin (normalize_segment s) = origin s"
  "letters (ts_text (normalize_segment s)) = letters (ts_text s)"
  by (simp_all add: normalize_segment_def origin_def)

lemma letters_from_normalize [simp]: "letters_from k (map normalize_segment ss) = letters_from k ss"
  by (induction ss) auto

text \<open>C31: Combining new segments with a conversation loses, repeats and reorders nothing that was
  said. For every choice of recognisers and speaker numberings, the text of the segments that
  come from these, blanks apart and in order, is after the call what it was in the
  conversation followed by what the new segments bring. In particular text of one recogniser
  never ends up in a segment of another.\<close>

theorem transcript_text_is_conserved:
  "letters_from k (fst (combine_segments u segments new_segments delta_seconds)) = letters_from k (segments @ new_segments)"
proof (cases "new_segments = []")
  case True
  then show ?thesis by (simp add: combine_segments_def)
next
  case False
  obtain joined removed dropped where combine: "combine_segments u segments new_segments delta_seconds =
      (map normalize_segment (butlast segments @ joined), map normalize_segment joined, removed)"
    and inv: "join_inv (if segments = [] then None else Some (last segments)) new_segments (rev joined, removed, dropped)"
    by (rule combine_segments_shape [OF False])
  have "letters_from k joined = letters_from k (held (if segments = [] then None else Some (last segments)) @ new_segments)"
    using inv by (simp add: join_inv_def)
  moreover have "butlast segments @ held (if segments = [] then None else Some (last segments)) = segments"
    by simp
  ultimately have "letters_from k (butlast segments @ joined) = letters_from k (segments @ new_segments)"
    by (metis append_assoc letters_from_simps(2))
  then show ?thesis by (simp add: combine)
qed

section \<open>Clients\<close>

text \<open>A client of a live session keeps the segments it was shown by id. It deletes the removed ones
  and stores the updated ones.\<close>

definition view_of :: "transcript_segment list \<Rightarrow> string \<rightharpoonup> transcript_segment" where
  "view_of ss = map_of (map (\<lambda>s. (ts_id s, s)) ss)"

definition client_update :: "transcript_segment list \<Rightarrow> string list \<Rightarrow> (string \<rightharpoonup> transcript_segment) \<Rightarrow> string \<rightharpoonup> transcript_segment" where
  "client_update updated removed m = (m |` (- set removed)) ++ view_of updated"

lemma view_of_append: "view_of (xs @ ys) = view_of ys ++ view_of xs"
  by (simp add: view_of_def)

lemma dom_view_of: "dom (view_of ss) = ts_id ` set ss"
  by (force simp: view_of_def dom_map_of_conv_image_fst)

lemma view_of_None: "i \<notin> ts_id ` set ss \<Longrightarrow> view_of ss i = None"
  using dom_view_of [of ss] by blast

text \<open>What the loop reports about the open segment \<open>t\<close>: it is still there, or it is removed.\<close>

lemma joined_ids:
  assumes "join_inv (Some t) new_segments (rev joined, removed, dropped)" "ts_id t \<notin> ts_id ` set new_segments"
  shows "ts_id ` set joined \<subseteq> insert (ts_id t) (ts_id ` set new_segments)"
    and "set removed = {} \<and> ts_id t \<in> ts_id ` set joined \<or> set removed = {ts_id t} \<and> ts_id t \<notin> ts_id ` set joined"
proof -
  note loop = assms(1) [unfolded join_inv_def prod.case held_simps]
  show "ts_id ` set joined \<subseteq> insert (ts_id t) (ts_id ` set new_segments)"
    using loop by simp
  show "set removed = {} \<and> ts_id t \<in> ts_id ` set joined \<or> set removed = {ts_id t} \<and> ts_id t \<notin> ts_id ` set joined"
  proof (cases "removed = []")
    case True
    then have "joined \<noteq> [] \<and> ts_id (hd joined) = ts_id t" using loop by (simp add: last_rev)
    then show ?thesis using True by (metis empty_set image_eqI list.set_sel(1))
  next
    case False
    then have "set removed = {ts_id t}" using loop by (cases removed) auto
    moreover have "ts_id t \<notin> ts_id ` set joined" using loop False assms(2) by (cases dropped) auto
    ultimately show ?thesis by simp
  qed
qed

lemma view_of_snoc: "ts_id t \<notin> ts_id ` set old \<Longrightarrow> view_of (old @ [t]) i = (if i = ts_id t then Some t else view_of old i)"
  using view_of_None [of "ts_id t" old] by (auto simp: view_of_append map_add_def view_of_def [of "[t]"] split: option.splits)

lemma client_replaces_tail:
  assumes "ts_id ` set old \<inter> insert (ts_id t) N = {}" "ts_id ` set updated \<subseteq> insert (ts_id t) N"
    and "set removed = {} \<and> ts_id t \<in> ts_id ` set updated \<or> set removed = {ts_id t} \<and> ts_id t \<notin> ts_id ` set updated"
  shows "client_update updated removed (view_of (old @ [t])) = view_of (old @ updated)"
proof
  fix i
  have snoc: "view_of (old @ [t]) i = (if i = ts_id t then Some t else view_of old i)"
    using assms(1) by (intro view_of_snoc) auto
  show "client_update updated removed (view_of (old @ [t])) i = view_of (old @ updated) i"
  proof (cases "i \<in> ts_id ` set updated")
    case True
    then have "view_of old i = None" using assms(1,2) by (intro view_of_None) blast
    moreover obtain s where "view_of updated i = Some s" using True dom_view_of [of updated] by blast
    ultimately show ?thesis by (simp add: client_update_def view_of_append map_add_def)
  next
    case False
    then have "view_of updated i = None" by (rule view_of_None)
    moreover have "view_of old (ts_id t) = None" using assms(1) by (intro view_of_None) blast
    ultimately show ?thesis
      using assms(3) False snoc by (auto simp: client_update_def view_of_append map_add_def restrict_map_def split: option.splits)
  qed
qed

lemma view_of_normalize: "view_of (map normalize_segment ss) i = map_option normalize_segment (view_of ss i)"
  by (induction ss) (auto simp: view_of_def normalize_segment_def)

text \<open>C32: A client that applies what a call reports, the removed ids and the updated segments, to a
  copy of the conversation keeps in step with it: every segment that was reported is the one
  the conversation now has, and every other one is the conversation's, at most with its spacing
  not yet normalised. When the conversation before the call had normalised spacing the copy is
  exact. No two segments share an id. (A stored segment with a run of three or more blanks
  is changed by a later call that does not report it; then the client keeps the wider spacing.)\<close>

theorem clients_keep_in_step:
  assumes "distinct (map ts_id (segments @ new_segments))"
    and "combine_segments u segments new_segments delta_seconds = (segments', updated, removed)"
  defines "client \<equiv> client_update updated removed (view_of segments)"
  shows "(\<forall>i. view_of segments' i = client i \<or>
      i \<notin> ts_id ` set updated \<and> view_of segments' i = map_option normalize_segment (client i)) \<and>
    ((\<forall>s \<in> set segments. normalize_segment s = s) \<longrightarrow> client = view_of segments')"
proof (cases "new_segments = [] \<or> segments = []")
  case True
  then have "client = view_of segments'"
    using assms(2) combine_segments_shape [of new_segments u segments delta_seconds]
    by (cases "new_segments = []") (auto simp: client_def combine_segments_def client_update_def view_of_def restrict_map_def)
  then show ?thesis by simp
next
  case False
  then obtain joined removed' dropped where combine: "combine_segments u segments new_segments delta_seconds =
      (map normalize_segment (butlast segments @ joined), map normalize_segment joined, removed')"
    and inv: "join_inv (Some (last segments)) new_segments (rev joined, removed', dropped)"
    using combine_segments_shape [of new_segments u segments delta_seconds] by auto
  let ?t = "last segments" and ?old = "butlast segments"
  have split: "segments = ?old @ [?t]" using False by simp
  have result: "segments' = map normalize_segment ?old @ updated" "removed = removed'" "ts_id ` set updated = ts_id ` set joined"
    using assms(2) combine by (auto simp: image_image)
  have "distinct (map ts_id (?old @ [?t] @ new_segments))" using assms(1) split by (metis append_assoc)
  then have fresh: "ts_id ?t \<notin> ts_id ` set new_segments" "ts_id ` set ?old \<inter> insert (ts_id ?t) (ts_id ` set new_segments) = {}"
    by auto
  have client: "client = view_of (?old @ updated)"
    using client_replaces_tail [OF fresh(2), of updated removed] joined_ids [OF inv fresh(1)] split
    unfolding client_def result(2,3) by simp
  have "view_of segments' i = (if i \<in> ts_id ` set updated then client i else map_option normalize_segment (client i))" for i
  proof (cases "i \<in> ts_id ` set updated")
    case True
    then have "i \<in> insert (ts_id ?t) (ts_id ` set new_segments)"
      using joined_ids(1) [OF inv fresh(1)] unfolding result(3) by (rule subsetD [rotated])
    then have "view_of ?old i = None" using fresh(2) by (intro view_of_None) (metis IntI empty_iff)
    then show ?thesis using True by (simp add: client result(1) view_of_append view_of_normalize map_add_def)
  next
    case False
    then show ?thesis
      using view_of_None [OF False] by (simp add: client result(1) view_of_append view_of_normalize map_add_def split: option.split)
  qed
  moreover have "client = view_of segments'" if "\<forall>s \<in> set segments. normalize_segment s = s"
  proof -
    have "map normalize_segment ?old = ?old" using that by (simp add: map_idI in_set_butlastD)
    then show ?thesis by (simp add: client result(1))
  qed
  ultimately show ?thesis by auto
qed

text \<open>A sample: the tail of the conversation breaks off, and the next speaker's longer sentence takes
  it over, so that the tail is removed.\<close>

definition sample_unicode :: unicode where
  "sample_unicode = \<lparr>is_alpha = (\<lambda>c. 65 \<le> c \<and> c \<le> 90 \<or> 97 \<le> c \<and> c \<le> 122), is_lower = (\<lambda>c. 97 \<le> c \<and> c \<le> 122)\<rparr>"

definition sample_segment :: "string \<Rightarrow> string \<Rightarrow> string \<Rightarrow> rat \<Rightarrow> transcript_segment" where
  "sample_segment i speaker text begins =
     \<lparr>ts_id = i, ts_text = points text, ts_speaker = Some speaker, ts_speaker_id = init_speaker_id (Some speaker) None,
      ts_is_user = False, ts_person_id = None, ts_start = begins, ts_end = begins + 2, ts_translations = [],
      ts_speech_profile_processed = True, ts_stt_provider = None, ts_speaker_id_scope = None,
      ts_speaker_identity_status = init_identity_status None False\<rparr>"

definition sample_conversation :: "transcript_segment list" where
  "sample_conversation = [sample_segment ''a'' ''SPEAKER_00'' ''Hello.'' 0, sample_segment ''b'' ''SPEAKER_00'' ''I think'' 9]"

definition sample_new :: "transcript_segment list" where
  "sample_new = [sample_segment ''c'' ''SPEAKER_01'' ''that we go'' 11]"

lemmas sample_simps = sample_unicode_def sample_segment_def sample_conversation_def sample_new_def points_def uspace_def ustrip_def
  SENTENCE_ENDERS_def

lemma sample_extract: "extract_last_incomplete_sentence (points ''I think'') = (Some (points ''I think''), [])"
  by (simp add: sample_simps extract_last_incomplete_sentence_def sentence_parts_def)

lemma sample_split: "split_first_sentence (points ''that we go'') = (points ''that we go'', [])"
  by (simp add: sample_simps split_first_sentence_def sentence_parts_def)

lemma sample_normal: "normalize_spacing (points ''Hello.'') = points ''Hello.''" "normalize_spacing (points ''I think'') = points ''I think''"
  "normalize_spacing (points ''I think that we go'') = points ''I think that we go''"
  by (simp_all add: sample_simps normalize_spacing_def)

lemma sample_merge:
  "merge_segments sample_unicode (sample_segment ''b'' ''SPEAKER_00'' ''I think'' 9) (sample_segment ''c'' ''SPEAKER_01'' ''that we go'' 11) =
    (None, Some (sample_segment ''c'' ''SPEAKER_01'' ''I think that we go'' 11),
     (sample_segment ''b'' ''SPEAKER_00'' ''I think'' 9)\<lparr>ts_text := []\<rparr>)"
proof -
  have "ustrip (points ''I think'' @ 32 # points ''that we go'') = points ''I think that we go''" "ustrip (points ''that we go'') = points ''that we go''"
    by (simp_all add: points_def ustrip_def uspace_def)
  moreover have "length (points ''I think'') = 7" "length (points ''that we go'') = 10" "points ''I think'' \<noteq> []" "points ''that we go'' \<noteq> []"
    by (simp_all add: points_def)
  ultimately show ?thesis
    by (simp add: sample_segment_def merge_segments_def same_voice_def sample_extract sample_split
        can_backward_merge_first_sentence_def can_backward_merge_single_sentence_def)
qed

lemma sample_shifted: "shifted 0 s = s"
  by (simp add: shifted_def)

lemma sample_combine:
  "combine_segments sample_unicode sample_conversation sample_new 0 =
    (let new = sample_segment ''c'' ''SPEAKER_01'' ''I think that we go'' 11 in ([sample_segment ''a'' ''SPEAKER_00'' ''Hello.'' 0, new], [new], [''b'']))"
proof -
  have normal: "normalize_segment (sample_segment i s t begins) = sample_segment i s t begins"
    if "normalize_spacing (points t) = points t" for i s t begins
    using that by (simp add: normalize_segment_def sample_segment_def)
  have id: "ts_id (sample_segment i s t begins) = i" for i s t begins
    by (simp add: sample_segment_def)
  have "fold (join_step sample_unicode (Some (sample_segment ''b'' ''SPEAKER_00'' ''I think'' 9)) 0) sample_new
      ([sample_segment ''b'' ''SPEAKER_00'' ''I think'' 9], [], False) =
    ([sample_segment ''c'' ''SPEAKER_01'' ''I think that we go'' 11], [''b''], True)"
    using join_step_Cons [where d = 0 and new = "sample_segment ''c'' ''SPEAKER_01'' ''that we go'' 11", unfolded sample_shifted, OF sample_merge]
    by (simp add: sample_new_def id)
  moreover have "sample_new \<noteq> []" by (simp add: sample_new_def)
  ultimately show ?thesis
    by (simp add: combine_segments_def sample_conversation_def Let_def normal sample_normal)
qed

lemma clients_keep_in_step_witness:
  "client_update [sample_segment ''c'' ''SPEAKER_01'' ''I think that we go'' 11] [''b''] (view_of sample_conversation) =
    view_of [sample_segment ''a'' ''SPEAKER_00'' ''Hello.'' 0, sample_segment ''c'' ''SPEAKER_01'' ''I think that we go'' 11]"
proof -
  have "distinct (map ts_id (sample_conversation @ sample_new))"
    by (simp add: sample_conversation_def sample_new_def sample_segment_def)
  moreover have "\<forall>s \<in> set sample_conversation. normalize_segment s = s"
    using sample_normal by (simp add: sample_conversation_def normalize_segment_def sample_segment_def)
  ultimately show ?thesis
    using clients_keep_in_step [OF _ sample_combine [unfolded Let_def]] by blast
qed

text \<open>The difference in spacing is real: pairs of blanks are replaced in one pass, so a later call
  changes segments it does not report.\<close>

lemma normalize_spacing_is_not_idempotent:
  "normalize_spacing (points ''a    b'') = points ''a  b''" "normalize_spacing (points ''a  b'') = points ''a b''"
  by (simp_all add: points_def normalize_spacing_def ustrip_def uspace_def)

end
