(* ===== verification/Vad_Gate.thy ===== *)
theory Vad_Gate
  imports Hashing
begin

text \<open>
  The speech gate of a live session (\<^verbatim>\<open>backend/utils/stt/vad_gate.py\<close>): audio is forwarded to the
  recogniser only around speech, and the times of the recogniser, which count the audio it was
  sent, are mapped back to the wall clock. The neural detector and the resampling of audio are
  arguments, the two together a \<open>detector\<close>; an inference that raises is \<open>None\<close>. Times are
  rationals, their arithmetic exact; sample rate and number of channels are positive. Metrics and log lines are left out, and so are the files
  of \<^verbatim>\<open>VAD_GATE_AUDIO_CAPTURE_DIR\<close>.
\<close>

section \<open>Configuration\<close>

definition VAD_GATE_PRE_ROLL_MS :: rat where "VAD_GATE_PRE_ROLL_MS = 300"
definition VAD_GATE_HANGOVER_MS :: rat where "VAD_GATE_HANGOVER_MS = 4000"
definition VAD_GATE_SPEECH_THRESHOLD :: rat where "VAD_GATE_SPEECH_THRESHOLD = 65 / 100"
definition VAD_GATE_FINALIZE_SILENCE_MS :: rat where "VAD_GATE_FINALIZE_SILENCE_MS = 300"
definition VAD_GATE_KEEPALIVE_SEC :: rat where "VAD_GATE_KEEPALIVE_SEC = 5"
definition VAD_WINDOW_SAMPLES :: nat where "VAD_WINDOW_SAMPLES = 512"
definition VAD_SAMPLE_RATE :: nat where "VAD_SAMPLE_RATE = 16000"

definition is_gate_enabled :: "string \<Rightarrow> bool" where
  "is_gate_enabled gate_mode \<longleftrightarrow> gate_mode \<in> {''shadow'', ''active''}"

datatype gate_state = SILENCE | SPEECH | HANGOVER

record gate_output =
  audio_to_send :: "byte list"
  should_finalize :: bool
  output_state :: gate_state
  is_speech :: bool

section \<open>From the recogniser's time to the wall clock\<close>

record wall_mapper =
  checkpoints :: "(rat \<times> rat) list"
  provider_cursor_sec :: rat
  sending :: bool

definition MAX_CHECKPOINTS :: nat where "MAX_CHECKPOINTS = 500"

definition new_mapper :: wall_mapper where
  "new_mapper = \<lparr>checkpoints = [], provider_cursor_sec = 0, sending = False\<rparr>"

text \<open>The wall time of a new checkpoint: not before the wall time that the audio sent since the last
  checkpoint reaches.\<close>

definition checkpoint_wall :: "wall_mapper \<Rightarrow> rat \<Rightarrow> rat" where
  "checkpoint_wall m wall_rel =
     (if checkpoints m = [] then wall_rel
      else case last (checkpoints m) of (prev_dg, prev_wall) \<Rightarrow> max wall_rel (prev_wall + (provider_cursor_sec m - prev_dg)))"

definition compact_checkpoints :: "(rat \<times> rat) list \<Rightarrow> (rat \<times> rat) list" where
  "compact_checkpoints cps =
     (if MAX_CHECKPOINTS < length cps then
        (if MAX_CHECKPOINTS \<le> 1 then take 1 cps else hd cps # drop (length cps - (MAX_CHECKPOINTS - 1)) cps)
      else cps)"

definition on_audio_sent :: "rat \<Rightarrow> rat \<Rightarrow> wall_mapper \<Rightarrow> wall_mapper" where
  "on_audio_sent chunk_duration_sec chunk_wall_rel_sec m =
     (let m1 = (if sending m then m
                else m\<lparr>checkpoints := compact_checkpoints (checkpoints m @ [(provider_cursor_sec m, checkpoint_wall m chunk_wall_rel_sec)]),
                       sending := True\<rparr>)
      in m1\<lparr>provider_cursor_sec := provider_cursor_sec m1 + chunk_duration_sec\<rparr>)"

definition on_silence_skipped :: "wall_mapper \<Rightarrow> wall_mapper" where
  "on_silence_skipped m = m\<lparr>sending := False\<rparr>"

text \<open>\<^verbatim>\<open>bisect.bisect_right\<close> between two positions.\<close>

function bisect_right :: "rat list \<Rightarrow> rat \<Rightarrow> nat \<Rightarrow> nat \<Rightarrow> nat" where
  "bisect_right xs x lo hi =
     (if lo < hi then
        (let mid = (lo + hi) div 2 in if x < xs ! mid then bisect_right xs x lo mid else bisect_right xs x (Suc mid) hi)
      else lo)"
  by pat_completeness auto
termination
  by (relation "measure (\<lambda>(_, _, lo, hi). hi - lo)") auto

declare bisect_right.simps [simp del]

definition dg_to_wall_rel :: "wall_mapper \<Rightarrow> rat \<Rightarrow> rat" where
  "dg_to_wall_rel m dg_sec =
     (let cps = checkpoints m in
      if cps = [] then dg_sec
      else case cps ! (bisect_right (map fst cps) dg_sec 0 (length cps) - 1) of (cp_dg, cp_wall) \<Rightarrow> cp_wall + (dg_sec - cp_dg))"

section \<open>The gate\<close>

record 'v detector =
  make_fresh_state :: 'v
  run_vad_window :: "rat list \<Rightarrow> 'v \<Rightarrow> (rat \<times> 'v) option"
  resample_16k :: "nat \<Rightarrow> int list \<Rightarrow> int list"

record 'v vad_gate =
  g_sample_rate :: nat
  g_channels :: nat
  g_mode :: string
  g_vad_buffer :: "rat list"
  g_pcm_remainder :: "byte list"
  g_vad_state :: 'v
  g_state :: gate_state
  g_audio_cursor_ms :: rat
  g_last_speech_ms :: rat
  g_hangover_finalized :: bool
  g_pre_roll :: "byte list list"
  g_pre_roll_total_ms :: rat
  g_mapper :: wall_mapper
  g_chunks_total :: nat
  g_chunks_speech :: nat
  g_chunks_silence :: nat
  g_finalize_count :: nat
  g_finalize_errors :: nat
  g_bytes_received :: nat
  g_bytes_sent :: nat
  g_first_audio_wall_time :: "rat option"
  g_last_send_wall_time :: "rat option"
  g_keepalive_count :: nat
  g_speech_ms_total :: rat
  g_speech_ms_delta :: rat

definition new_gate :: "'v detector \<Rightarrow> nat \<Rightarrow> nat \<Rightarrow> string \<Rightarrow> 'v vad_gate" where
  "new_gate det sample_rate channels gate_mode =
     \<lparr>g_sample_rate = sample_rate, g_channels = channels, g_mode = gate_mode, g_vad_buffer = [], g_pcm_remainder = [],
      g_vad_state = make_fresh_state det, g_state = SILENCE, g_audio_cursor_ms = 0, g_last_speech_ms = 0,
      g_hangover_finalized = False, g_pre_roll = [], g_pre_roll_total_ms = 0, g_mapper = new_mapper,
      g_chunks_total = 0, g_chunks_speech = 0, g_chunks_silence = 0, g_finalize_count = 0, g_finalize_errors = 0,
      g_bytes_received = 0, g_bytes_sent = 0, g_first_audio_wall_time = None, g_last_send_wall_time = None,
      g_keepalive_count = 0, g_speech_ms_total = 0, g_speech_ms_delta = 0\<rparr>"

definition activate :: "'v detector \<Rightarrow> 'v vad_gate \<Rightarrow> 'v vad_gate" where
  "activate det g =
     (if g_mode g = ''shadow'' then
        g\<lparr>g_mode := ''active'', g_state := SILENCE, g_pre_roll := [], g_pre_roll_total_ms := 0, g_hangover_finalized := False,
          g_vad_state := make_fresh_state det, g_vad_buffer := [], g_pcm_remainder := [],
          g_mapper := (g_mapper g)\<lparr>provider_cursor_sec := g_audio_cursor_ms g / 1000\<rparr>\<rparr>
      else g)"

text \<open>\<^verbatim>\<open>a or b\<close> on optional times: zero counts as absent.\<close>

definition time_or :: "rat option \<Rightarrow> rat option \<Rightarrow> rat option" where
  "time_or a b = (case a of None \<Rightarrow> b | Some t \<Rightarrow> if t = 0 then b else Some t)"

definition needs_keepalive :: "'v vad_gate \<Rightarrow> rat \<Rightarrow> bool" where
  "needs_keepalive g wall_time \<longleftrightarrow>
     (if g_mode g \<noteq> ''active'' then False
      else case time_or (g_last_send_wall_time g) (g_first_audio_wall_time g) of
          None \<Rightarrow> False
        | Some ref_time \<Rightarrow> wall_time - ref_time \<ge> VAD_GATE_KEEPALIVE_SEC)"

definition record_keepalive :: "rat \<Rightarrow> 'v vad_gate \<Rightarrow> 'v vad_gate" where
  "record_keepalive wall_time g = g\<lparr>g_keepalive_count := g_keepalive_count g + 1, g_last_send_wall_time := Some wall_time\<rparr>"

section \<open>Detecting speech\<close>

text \<open>Little-endian signed 16-bit samples, and the mean of the two channels rounded down.\<close>

fun int16s :: "byte list \<Rightarrow> int list" where
  "int16s (a # b # s) = (let v = uint a + 256 * uint b in (if v < 32768 then v else v - 65536) # int16s s)"
| "int16s _ = []"

fun to_mono :: "int list \<Rightarrow> int list" where
  "to_mono (l # r # s) = (l + r) div 2 # to_mono s"
| "to_mono _ = []"

definition convert_for_vad :: "'v detector \<Rightarrow> byte list \<Rightarrow> 'v vad_gate \<Rightarrow> rat list \<times> 'v vad_gate" where
  "convert_for_vad det pcm_data g =
     (let all_data = g_pcm_remainder g @ pcm_data;
          leftover = length all_data mod (2 * g_channels g);
          whole = take (length all_data - leftover) all_data;
          g' = g\<lparr>g_pcm_remainder := drop (length all_data - leftover) all_data\<rparr>
      in if whole = [] then ([], g')
         else
           let samples = int16s whole;
               mono = (if g_channels g = 2 then to_mono samples else samples);
               at16k = (if g_sample_rate g \<noteq> VAD_SAMPLE_RATE then resample_16k det (g_sample_rate g) mono else mono)
           in (map (\<lambda>i. of_int i / 32768) at16k, g'))"

text \<open>The complete windows of the buffer, in order; the first inference that raises ends the loop.\<close>

function vad_windows :: "'v detector \<Rightarrow> rat list \<Rightarrow> 'v \<Rightarrow> bool \<Rightarrow> bool option \<times> rat list \<times> 'v" where
  "vad_windows det buffer st speech =
     (if VAD_WINDOW_SAMPLES \<le> length buffer then
        (case run_vad_window det (take VAD_WINDOW_SAMPLES buffer) st of
           None \<Rightarrow> (None, drop VAD_WINDOW_SAMPLES buffer, st)
         | Some (prob, st') \<Rightarrow>
             vad_windows det (drop VAD_WINDOW_SAMPLES buffer) st' (speech \<or> VAD_GATE_SPEECH_THRESHOLD < prob))
      else (Some speech, buffer, st))"
  by pat_completeness auto
termination
  by (relation "measure (\<lambda>(_, buffer, _, _). length buffer)") (auto simp: VAD_WINDOW_SAMPLES_def)

declare vad_windows.simps [simp del]

definition run_vad :: "'v detector \<Rightarrow> byte list \<Rightarrow> 'v vad_gate \<Rightarrow> bool option \<times> 'v vad_gate" where
  "run_vad det pcm_data g =
     (case convert_for_vad det pcm_data g of (floats, g1) \<Rightarrow>
        case vad_windows det (g_vad_buffer g1 @ floats) (g_vad_state g1) False of (speech, buffer, st) \<Rightarrow>
          let kept = (if speech \<noteq> None \<and> VAD_WINDOW_SAMPLES < length buffer then drop (length buffer - VAD_WINDOW_SAMPLES) buffer else buffer)
          in (speech, g1\<lparr>g_vad_buffer := kept, g_vad_state := st\<rparr>))"

section \<open>Forwarding\<close>

definition chunk_sec :: "'v vad_gate \<Rightarrow> byte list \<Rightarrow> rat" where
  "chunk_sec g pcm_data = of_nat (length pcm_data) / of_nat (2 * g_channels g * g_sample_rate g)"

definition samples_ms :: "'v vad_gate \<Rightarrow> byte list \<Rightarrow> rat" where
  "samples_ms g pcm_data = of_nat (length pcm_data div (2 * g_channels g)) * 1000 / of_nat (g_sample_rate g)"

definition wall_rel :: "'v vad_gate \<Rightarrow> rat \<Rightarrow> rat" where
  "wall_rel g wall_time = (case g_first_audio_wall_time g of None \<Rightarrow> 0 | Some t \<Rightarrow> if t = 0 then 0 else wall_time - t)"

text \<open>The oldest chunks leave the pre-roll until what is left is short enough or one chunk.\<close>

fun evict :: "'v vad_gate \<Rightarrow> byte list list \<Rightarrow> rat \<Rightarrow> byte list list \<times> rat" where
  "evict g (c # d # cs) total_ms =
     (if VAD_GATE_PRE_ROLL_MS < total_ms then evict g (d # cs) (total_ms - chunk_sec g c * 1000) else (c # d # cs, total_ms))"
| "evict g cs total_ms = (cs, total_ms)"

text \<open>What every branch that forwards audio records.\<close>

definition forward :: "byte list \<Rightarrow> rat \<Rightarrow> rat \<Rightarrow> 'v vad_gate \<Rightarrow> 'v vad_gate" where
  "forward audio wall wall_time g =
     g\<lparr>g_mapper := on_audio_sent (chunk_sec g audio) wall (g_mapper g), g_bytes_sent := g_bytes_sent g + length audio,
       g_last_send_wall_time := Some wall_time\<rparr>"

definition update_silence :: "byte list \<Rightarrow> bool \<Rightarrow> rat \<Rightarrow> 'v vad_gate \<Rightarrow> gate_output \<times> 'v vad_gate" where
  "update_silence pcm_data speech wall_time g =
     (case evict g (g_pre_roll g @ [pcm_data]) (g_pre_roll_total_ms g + chunk_sec g pcm_data * 1000) of (roll, total_ms) \<Rightarrow>
        if speech then
          (let audio = concat roll;
               wall = max 0 (wall_rel g wall_time - chunk_sec g audio + chunk_sec g pcm_data)
           in (\<lparr>audio_to_send = audio, should_finalize = False, output_state = SPEECH, is_speech = True\<rparr>,
               forward audio wall wall_time (g\<lparr>g_state := SPEECH, g_pre_roll := [], g_pre_roll_total_ms := 0\<rparr>)))
        else
          (\<lparr>audio_to_send = [], should_finalize = False, output_state = SILENCE, is_speech = False\<rparr>,
           g\<lparr>g_pre_roll := roll, g_pre_roll_total_ms := total_ms, g_mapper := on_silence_skipped (g_mapper g)\<rparr>))"

definition update_speech :: "byte list \<Rightarrow> bool \<Rightarrow> rat \<Rightarrow> 'v vad_gate \<Rightarrow> gate_output \<times> 'v vad_gate" where
  "update_speech pcm_data speech wall_time g =
     (let g1 = forward pcm_data (wall_rel g wall_time) wall_time g;
          g2 = (if speech then g1 else g1\<lparr>g_state := HANGOVER, g_hangover_finalized := False\<rparr>)
      in (\<lparr>audio_to_send = pcm_data, should_finalize = False, output_state = g_state g2, is_speech = speech\<rparr>, g2))"

definition update_hangover :: "byte list \<Rightarrow> bool \<Rightarrow> rat \<Rightarrow> 'v vad_gate \<Rightarrow> gate_output \<times> 'v vad_gate" where
  "update_hangover pcm_data speech wall_time g =
     (let time_since_speech_ms = g_audio_cursor_ms g - g_last_speech_ms g in
      if speech then
        (\<lparr>audio_to_send = pcm_data, should_finalize = False, output_state = SPEECH, is_speech = True\<rparr>,
         forward pcm_data (wall_rel g wall_time) wall_time (g\<lparr>g_state := SPEECH, g_hangover_finalized := False\<rparr>))
      else if VAD_GATE_HANGOVER_MS < time_since_speech_ms then
        (let need_finalize = \<not> g_hangover_finalized g in
         (\<lparr>audio_to_send = [], should_finalize = need_finalize, output_state = SILENCE, is_speech = False\<rparr>,
          g\<lparr>g_state := SILENCE, g_finalize_count := g_finalize_count g + (if need_finalize then 1 else 0),
            g_hangover_finalized := False, g_pre_roll := [pcm_data], g_pre_roll_total_ms := chunk_sec g pcm_data * 1000,
            g_mapper := on_silence_skipped (g_mapper g)\<rparr>))
      else
        (let finalize_now = (\<not> g_hangover_finalized g \<and> VAD_GATE_FINALIZE_SILENCE_MS \<le> time_since_speech_ms) in
         (\<lparr>audio_to_send = pcm_data, should_finalize = finalize_now, output_state = HANGOVER, is_speech = False\<rparr>,
          forward pcm_data (wall_rel g wall_time) wall_time
            (g\<lparr>g_hangover_finalized := g_hangover_finalized g \<or> finalize_now,
               g_finalize_count := g_finalize_count g + (if finalize_now then 1 else 0)\<rparr>))))"

definition update_state :: "byte list \<Rightarrow> bool \<Rightarrow> rat \<Rightarrow> 'v vad_gate \<Rightarrow> gate_output \<times> 'v vad_gate" where
  "update_state pcm_data speech wall_time g =
     (case g_state g of
        SILENCE \<Rightarrow> update_silence pcm_data speech wall_time g
      | SPEECH \<Rightarrow> update_speech pcm_data speech wall_time g
      | HANGOVER \<Rightarrow> update_hangover pcm_data speech wall_time g)"

text \<open>\<^verbatim>\<open>process_audio\<close> in two halves: what it counts before the detector runs, and after.\<close>

definition count_chunk :: "byte list \<Rightarrow> rat \<Rightarrow> 'v vad_gate \<Rightarrow> 'v vad_gate" where
  "count_chunk pcm_data wall_time g =
     g\<lparr>g_first_audio_wall_time := (case g_first_audio_wall_time g of None \<Rightarrow> Some wall_time | Some t \<Rightarrow> Some t),
       g_chunks_total := g_chunks_total g + 1, g_bytes_received := g_bytes_received g + length pcm_data,
       g_audio_cursor_ms := g_audio_cursor_ms g + samples_ms g pcm_data\<rparr>"

definition count_speech :: "byte list \<Rightarrow> bool \<Rightarrow> 'v vad_gate \<Rightarrow> 'v vad_gate" where
  "count_speech pcm_data speech g =
     (let g1 = (if speech then g\<lparr>g_last_speech_ms := g_audio_cursor_ms g, g_chunks_speech := g_chunks_speech g + 1\<rparr>
                else g\<lparr>g_chunks_silence := g_chunks_silence g + 1\<rparr>)
      in if speech \<and> g_mode g = ''active'' then
           g1\<lparr>g_speech_ms_total := g_speech_ms_total g1 + samples_ms g pcm_data,
              g_speech_ms_delta := g_speech_ms_delta g1 + samples_ms g pcm_data\<rparr>
         else g1)"

definition process_audio :: "'v detector \<Rightarrow> byte list \<Rightarrow> rat \<Rightarrow> 'v vad_gate \<Rightarrow> gate_output option \<times> 'v vad_gate" where
  "process_audio det pcm_data wall_time g =
     (case run_vad det pcm_data (count_chunk pcm_data wall_time g) of
        (None, g1) \<Rightarrow> (None, g1)
      | (Some speech, g1) \<Rightarrow>
          let g2 = count_speech pcm_data speech g1 in
          if g_mode g2 = ''shadow'' then
            (Some \<lparr>audio_to_send = pcm_data, should_finalize = False, output_state = g_state g2, is_speech = speech\<rparr>,
             g2\<lparr>g_bytes_sent := g_bytes_sent g2 + length pcm_data, g_last_send_wall_time := Some wall_time\<rparr>)
          else (case update_state pcm_data speech wall_time g2 of (out, g3) \<Rightarrow> (Some out, g3)))"

text \<open>\<^verbatim>\<open>int\<close> truncates towards zero.\<close>

definition consume_speech_ms_delta :: "'v vad_gate \<Rightarrow> int \<times> 'v vad_gate" where
  "consume_speech_ms_delta g =
     ((if g_speech_ms_delta g < 0 then \<lceil>g_speech_ms_delta g\<rceil> else \<lfloor>g_speech_ms_delta g\<rfloor>), g\<lparr>g_speech_ms_delta := 0\<rparr>)"

definition remap_segments :: "'v vad_gate \<Rightarrow> (rat \<times> rat) list \<Rightarrow> (rat \<times> rat) list" where
  "remap_segments g segments =
     (if g_mode g = ''active'' then
        map (\<lambda>(s, e). (dg_to_wall_rel (g_mapper g) s, dg_to_wall_rel (g_mapper g) e)) segments
      else segments)"

section \<open>The socket around a recogniser\<close>

text \<open>The recogniser's socket: whether it is dead, what a send answers (\<open>None\<close> when it raises), and
  whether a flush succeeds.\<close>

record 'c stt_socket =
  conn_dead :: "'c \<Rightarrow> bool"
  conn_send :: "byte list \<Rightarrow> 'c \<Rightarrow> bool option \<times> 'c"
  conn_finalize :: "'c \<Rightarrow> bool \<times> 'c"
  conn_finish :: "'c \<Rightarrow> bool \<times> 'c"

text \<open>The gate of a socket stays visible to the session when the socket stops using it.\<close>

record ('v, 'c) gated_socket =
  s_conn :: 'c
  s_gate :: "'v vad_gate"
  s_gated :: bool
  s_passthrough_audio :: bool

definition conn_step :: "('c \<Rightarrow> 'r \<times> 'c) \<Rightarrow> ('v, 'c) gated_socket \<Rightarrow> 'r \<times> ('v, 'c) gated_socket" where
  "conn_step f s = (case f (s_conn s) of (r, c) \<Rightarrow> (r, s\<lparr>s_conn := c\<rparr>))"

definition socket_send :: "'v detector \<Rightarrow> 'c stt_socket \<Rightarrow> byte list \<Rightarrow> rat option \<Rightarrow> rat \<Rightarrow> ('v, 'c) gated_socket
    \<Rightarrow> bool option \<times> ('v, 'c) gated_socket" where
  "socket_send det api pcm_data wall_time clock s =
     (if conn_dead api (s_conn s) then (Some False, s)
      else if \<not> s_gated s then conn_step (conn_send api pcm_data) s
      else
        let now = (case time_or wall_time None of None \<Rightarrow> clock | Some t \<Rightarrow> t) in
        case process_audio det pcm_data now (s_gate s) of
          (None, g) \<Rightarrow> conn_step (conn_send api pcm_data) (s\<lparr>s_gate := g\<lparr>g_mode := ''off''\<rparr>, s_gated := False\<rparr>)
        | (Some out, g) \<Rightarrow>
            let s1 = s\<lparr>s_gate := g\<rparr> in
            case (if s_passthrough_audio s then conn_step (conn_send api pcm_data) s1
                  else if audio_to_send out \<noteq> [] then conn_step (conn_send api (audio_to_send out)) s1
                  else (Some True, s1)) of
              (None, s2) \<Rightarrow> (None, s2)
            | (Some accepted, s2) \<Rightarrow>
                if should_finalize out then
                  (case conn_step (conn_finalize api) s2 of
                     (True, s3) \<Rightarrow> (Some accepted, s3)
                   | (False, s3) \<Rightarrow> (Some False, s3\<lparr>s_gate := (s_gate s3)\<lparr>g_finalize_errors := g_finalize_errors (s_gate s3) + 1\<rparr>\<rparr>))
                else (Some accepted, s2))"

definition socket_finish :: "'c stt_socket \<Rightarrow> ('v, 'c) gated_socket \<Rightarrow> bool \<times> ('v, 'c) gated_socket" where
  "socket_finish api s =
     (let s1 = (if s_gated s \<and> g_mode (s_gate s) = ''active'' then
                  (case conn_step (conn_finalize api) s of
                     (True, s2) \<Rightarrow> s2
                   | (False, s2) \<Rightarrow> s2\<lparr>s_gate := (s_gate s2)\<lparr>g_finalize_errors := g_finalize_errors (s_gate s2) + 1\<rparr>\<rparr>)
                else s)
      in conn_step (conn_finish api) s1)"

definition socket_remap_segments :: "('v, 'c) gated_socket \<Rightarrow> (rat \<times> rat) list \<Rightarrow> (rat \<times> rat) list" where
  "socket_remap_segments s segments = (if s_gated s then remap_segments (s_gate s) segments else segments)"

end
