(* ===== verification/Vad_Samples.thy ===== *)
theory Vad_Samples
  imports Vad_Gate
begin

text \<open>
  A small run of the speech gate, computed chunk by chunk: a detector that hears loud samples, on
  audio of eight samples a second that the resampling stretches to a window each.
\<close>

definition sample_detector :: "unit detector" where
  "sample_detector = \<lparr>make_fresh_state = (), run_vad_window = (\<lambda>w st. Some (hd w, st)),
     resample_16k = (\<lambda>_ samples. concat (map (replicate VAD_WINDOW_SAMPLES) samples))\<rparr>"

definition low :: "byte list" where "low = [0, 0]"
definition loud :: "byte list" where "loud = [0, 96]"

lemma sample_vad:
  assumes "g_vad_buffer g = []" "g_pcm_remainder g = []" "g_sample_rate g = 8" "g_channels g = 1" "pcm = low \<or> pcm = loud"
  shows "run_vad sample_detector pcm g = (Some (pcm = loud), g)"
proof -
  obtain v where v: "int16s pcm = [v]" "v = (if pcm = loud then 24576 else 0)" "length pcm = 2"
    using assms(5) by (auto simp: low_def loud_def)
  have conv: "convert_for_vad sample_detector pcm g = (replicate VAD_WINDOW_SAMPLES (of_int v / 32768), g)"
    using assms v(1,3) by (cases "pcm = []") (auto simp: convert_for_vad_def Let_def sample_detector_def VAD_SAMPLE_RATE_def)
  have "hd (replicate VAD_WINDOW_SAMPLES (of_int v / 32768 :: rat)) = of_int v / 32768"
    by (simp add: VAD_WINDOW_SAMPLES_def)
  then have "vad_windows sample_detector (replicate VAD_WINDOW_SAMPLES (of_int v / 32768)) () False = (Some (pcm = loud), [], ())"
    using v(2) by (subst vad_windows.simps, subst vad_windows.simps)
      (auto simp: sample_detector_def VAD_GATE_SPEECH_THRESHOLD_def VAD_WINDOW_SAMPLES_def)
  then show ?thesis
    using assms(1) by (simp add: run_vad_def conv VAD_WINDOW_SAMPLES_def Let_def)
qed

definition sample_gate :: "gate_state \<Rightarrow> rat \<Rightarrow> rat \<Rightarrow> bool \<Rightarrow> byte list list \<Rightarrow> rat \<Rightarrow> wall_mapper \<Rightarrow> nat \<Rightarrow> nat \<Rightarrow> nat \<Rightarrow> nat \<Rightarrow> nat \<Rightarrow> nat
    \<Rightarrow> rat option \<Rightarrow> rat option \<Rightarrow> rat \<Rightarrow> unit vad_gate" where
  "sample_gate st cursor last_speech finalized roll roll_ms m chunks speech_chunks silent_chunks flushes received sent first_wall last_send speech_ms =
     \<lparr>g_sample_rate = 8, g_channels = 1, g_mode = ''active'', g_vad_buffer = [], g_pcm_remainder = [], g_vad_state = (),
      g_state = st, g_audio_cursor_ms = cursor, g_last_speech_ms = last_speech, g_hangover_finalized = finalized, g_pre_roll = roll,
      g_pre_roll_total_ms = roll_ms, g_mapper = m, g_chunks_total = chunks, g_chunks_speech = speech_chunks, g_chunks_silence = silent_chunks,
      g_finalize_count = flushes, g_finalize_errors = 0, g_bytes_received = received, g_bytes_sent = sent, g_first_audio_wall_time = first_wall,
      g_last_send_wall_time = last_send, g_keepalive_count = 0, g_speech_ms_total = speech_ms, g_speech_ms_delta = speech_ms\<rparr>"

lemma sample_step:
  assumes "pcm = low \<or> pcm = loud" "g_vad_buffer g = []" "g_pcm_remainder g = []" "g_sample_rate g = 8" "g_channels g = 1" "g_mode g = ''active''"
    and "update_state pcm (pcm = loud) wall (count_speech pcm (pcm = loud) (count_chunk pcm wall g)) = (out, g')"
  shows "process_audio sample_detector pcm wall g = (Some out, g')"
proof -
  have "run_vad sample_detector pcm (count_chunk pcm wall g) = (Some (pcm = loud), count_chunk pcm wall g)"
    using assms(1-5) by (intro sample_vad) (simp_all add: count_chunk_def)
  moreover have "g_mode (count_speech pcm (pcm = loud) (count_chunk pcm wall g)) = ''active''"
    using assms(6) by (simp add: count_speech_def count_chunk_def Let_def)
  ultimately show ?thesis
    using assms(7) by (simp add: process_audio_def)
qed

lemma low_loud [simp]: "low \<noteq> loud" "loud \<noteq> low" "length low = 2" "length loud = 2"
  by (simp_all add: low_def loud_def)

lemmas sample_simps = sample_gate_def count_chunk_def count_speech_def samples_ms_def update_state_def update_silence_def update_speech_def
  update_hangover_def forward_def chunk_sec_def wall_rel_def on_audio_sent_def on_silence_skipped_def checkpoint_wall_def compact_checkpoints_def
  MAX_CHECKPOINTS_def VAD_GATE_PRE_ROLL_MS_def VAD_GATE_HANGOVER_MS_def VAD_GATE_FINALIZE_SILENCE_MS_def

lemma sample_step_0: "process_audio sample_detector low (1)
    (sample_gate SILENCE (0) (0) False [] (0) \<lparr>checkpoints = [], provider_cursor_sec = 0, sending = False\<rparr> 0 0 0 0 0 0 None None (0)) =
  (Some \<lparr>audio_to_send = [], should_finalize = False, output_state = SILENCE, is_speech = False\<rparr>,
    (sample_gate SILENCE (125) (0) False [low] (125) \<lparr>checkpoints = [], provider_cursor_sec = 0, sending = False\<rparr> 1 0 1 0 2 0 (Some (1)) None (0)))"
  by (rule sample_step) (simp_all add: sample_simps)

lemma sample_step_1: "process_audio sample_detector low (9 / 8)
    (sample_gate SILENCE (125) (0) False [low] (125) \<lparr>checkpoints = [], provider_cursor_sec = 0, sending = False\<rparr> 1 0 1 0 2 0 (Some (1)) None (0)) =
  (Some \<lparr>audio_to_send = [], should_finalize = False, output_state = SILENCE, is_speech = False\<rparr>,
    (sample_gate SILENCE (250) (0) False [low, low] (250) \<lparr>checkpoints = [], provider_cursor_sec = 0, sending = False\<rparr> 2 0 2 0 4 0 (Some (1)) None (0)))"
  by (rule sample_step) (simp_all add: sample_simps)

lemma sample_step_2: "process_audio sample_detector low (5 / 4)
    (sample_gate SILENCE (250) (0) False [low, low] (250) \<lparr>checkpoints = [], provider_cursor_sec = 0, sending = False\<rparr> 2 0 2 0 4 0 (Some (1)) None (0)) =
  (Some \<lparr>audio_to_send = [], should_finalize = False, output_state = SILENCE, is_speech = False\<rparr>,
    (sample_gate SILENCE (375) (0) False [low, low] (250) \<lparr>checkpoints = [], provider_cursor_sec = 0, sending = False\<rparr> 3 0 3 0 6 0 (Some (1)) None (0)))"
  by (rule sample_step) (simp_all add: sample_simps)

lemma sample_step_3: "process_audio sample_detector loud (11 / 8)
    (sample_gate SILENCE (375) (0) False [low, low] (250) \<lparr>checkpoints = [], provider_cursor_sec = 0, sending = False\<rparr> 3 0 3 0 6 0 (Some (1)) None (0)) =
  (Some \<lparr>audio_to_send = low @ loud, should_finalize = False, output_state = SPEECH, is_speech = True\<rparr>,
    (sample_gate SPEECH (500) (500) False [] (0) \<lparr>checkpoints = [(0, 1 / 4)], provider_cursor_sec = 1 / 4, sending = True\<rparr> 4 1 3 0 8 4 (Some (1)) (Some (11 / 8)) (125)))"
  by (rule sample_step) (simp_all add: sample_simps)

lemma sample_step_4: "process_audio sample_detector low (3 / 2)
    (sample_gate SPEECH (500) (500) False [] (0) \<lparr>checkpoints = [(0, 1 / 4)], provider_cursor_sec = 1 / 4, sending = True\<rparr> 4 1 3 0 8 4 (Some (1)) (Some (11 / 8)) (125)) =
  (Some \<lparr>audio_to_send = low, should_finalize = False, output_state = HANGOVER, is_speech = False\<rparr>,
    (sample_gate HANGOVER (625) (500) False [] (0) \<lparr>checkpoints = [(0, 1 / 4)], provider_cursor_sec = 3 / 8, sending = True\<rparr> 5 1 4 0 10 6 (Some (1)) (Some (3 / 2)) (125)))"
  by (rule sample_step) (simp_all add: sample_simps)

lemma sample_step_5: "process_audio sample_detector low (13 / 8)
    (sample_gate HANGOVER (625) (500) False [] (0) \<lparr>checkpoints = [(0, 1 / 4)], provider_cursor_sec = 3 / 8, sending = True\<rparr> 5 1 4 0 10 6 (Some (1)) (Some (3 / 2)) (125)) =
  (Some \<lparr>audio_to_send = low, should_finalize = False, output_state = HANGOVER, is_speech = False\<rparr>,
    (sample_gate HANGOVER (750) (500) False [] (0) \<lparr>checkpoints = [(0, 1 / 4)], provider_cursor_sec = 1 / 2, sending = True\<rparr> 6 1 5 0 12 8 (Some (1)) (Some (13 / 8)) (125)))"
  by (rule sample_step) (simp_all add: sample_simps)

lemma sample_step_6: "process_audio sample_detector low (7 / 4)
    (sample_gate HANGOVER (750) (500) False [] (0) \<lparr>checkpoints = [(0, 1 / 4)], provider_cursor_sec = 1 / 2, sending = True\<rparr> 6 1 5 0 12 8 (Some (1)) (Some (13 / 8)) (125)) =
  (Some \<lparr>audio_to_send = low, should_finalize = True, output_state = HANGOVER, is_speech = False\<rparr>,
    (sample_gate HANGOVER (875) (500) True [] (0) \<lparr>checkpoints = [(0, 1 / 4)], provider_cursor_sec = 5 / 8, sending = True\<rparr> 7 1 6 1 14 10 (Some (1)) (Some (7 / 4)) (125)))"
  by (rule sample_step) (simp_all add: sample_simps)

definition sample_chunks :: "(byte list \<times> rat) list" where
  "sample_chunks = [(low, 1), (low, 9 / 8), (low, 5 / 4), (loud, 11 / 8), (low, 3 / 2), (low, 13 / 8), (low, 7 / 4)]"

definition sample_outs :: "gate_output list" where
  "sample_outs =
    [\<lparr>audio_to_send = [], should_finalize = False, output_state = SILENCE, is_speech = False\<rparr>,
     \<lparr>audio_to_send = [], should_finalize = False, output_state = SILENCE, is_speech = False\<rparr>,
     \<lparr>audio_to_send = [], should_finalize = False, output_state = SILENCE, is_speech = False\<rparr>,
     \<lparr>audio_to_send = low @ loud, should_finalize = False, output_state = SPEECH, is_speech = True\<rparr>,
     \<lparr>audio_to_send = low, should_finalize = False, output_state = HANGOVER, is_speech = False\<rparr>,
     \<lparr>audio_to_send = low, should_finalize = False, output_state = HANGOVER, is_speech = False\<rparr>,
     \<lparr>audio_to_send = low, should_finalize = True, output_state = HANGOVER, is_speech = False\<rparr>]"

definition sample_before :: "unit vad_gate" where
  "sample_before = (sample_gate SILENCE (375) (0) False [low, low] (250) \<lparr>checkpoints = [], provider_cursor_sec = 0, sending = False\<rparr> 3 0 3 0 6 0 (Some (1)) None (0))"

definition sample_onset :: "unit vad_gate" where
  "sample_onset = (sample_gate SPEECH (500) (500) False [] (0) \<lparr>checkpoints = [(0, 1 / 4)], provider_cursor_sec = 1 / 4, sending = True\<rparr> 4 1 3 0 8 4 (Some (1)) (Some (11 / 8)) (125))"

definition sample_final :: "unit vad_gate" where
  "sample_final = (sample_gate HANGOVER (875) (500) True [] (0) \<lparr>checkpoints = [(0, 1 / 4)], provider_cursor_sec = 5 / 8, sending = True\<rparr> 7 1 6 1 14 10 (Some (1)) (Some (7 / 4)) (125))"

lemma sample_start: "new_gate sample_detector 8 1 ''active'' = (sample_gate SILENCE (0) (0) False [] (0) \<lparr>checkpoints = [], provider_cursor_sec = 0, sending = False\<rparr> 0 0 0 0 0 0 None None (0))"
  by (simp add: new_gate_def sample_gate_def sample_detector_def new_mapper_def)

lemmas sample_steps = sample_step_0 sample_step_1 sample_step_2 sample_step_3 sample_step_4 sample_step_5 sample_step_6

end
