(* ===== verification/Vad_Theorems.thy ===== *)
theory Vad_Theorems
  imports Vad_Samples
begin

text \<open>
  What the speech gate forwards, when it flushes the recogniser, and what its clock shows: a
  reference in terms of the received chunks and of which of them hold speech, the invariants
  of the gate against it, and the theorems.
\<close>

section \<open>Runs and the reference\<close>

fun gate_run :: "'v detector \<Rightarrow> (byte list \<times> rat) list \<Rightarrow> 'v vad_gate \<Rightarrow> (gate_output list \<times> 'v vad_gate) option" where
  "gate_run det [] g = Some ([], g)"
| "gate_run det ((pcm, wall) # cs) g =
     (case process_audio det pcm wall g of
        (None, _) \<Rightarrow> None
      | (Some out, g') \<Rightarrow> map_option (\<lambda>(outs, g''). (out # outs, g'')) (gate_run det cs g'))"

lemma sample_run: "gate_run sample_detector sample_chunks (new_gate sample_detector 8 1 ''active'') = Some (sample_outs, sample_final)"
  unfolding sample_start by (simp add: sample_chunks_def sample_outs_def sample_final_def sample_steps del: One_nat_def)

lemma sample_pause: "gate_run sample_detector (drop 4 sample_chunks) sample_onset = Some (drop 4 sample_outs, sample_final)"
  by (simp add: sample_chunks_def sample_outs_def sample_final_def sample_onset_def sample_steps del: One_nat_def)

text \<open>Received chunks with the verdict of the detector; the milliseconds of the first \<open>k\<close> of them,
  by bytes and by whole samples.\<close>

type_synonym heard = "(byte list \<times> bool) list"

definition pcm_ms :: "nat \<Rightarrow> nat \<Rightarrow> byte list \<Rightarrow> rat" where
  "pcm_ms rate channels pcm = of_nat (length pcm) / of_nat (2 * channels * rate) * 1000"

definition sample_ms :: "nat \<Rightarrow> nat \<Rightarrow> byte list \<Rightarrow> rat" where
  "sample_ms rate channels pcm = of_nat (length pcm div (2 * channels)) * 1000 / of_nat rate"

definition upto :: "(byte list \<Rightarrow> rat) \<Rightarrow> heard \<Rightarrow> nat \<Rightarrow> rat" where
  "upto ms xs k = sum_list (map (\<lambda>x. ms (fst x)) (take k xs))"

text \<open>The chunks that are worth hearing: a chunk with speech; the chunks that begin within the
  pre-roll before one; the chunk after one, and those that end within the hangover after one.\<close>

definition near :: "nat \<Rightarrow> nat \<Rightarrow> heard \<Rightarrow> nat \<Rightarrow> nat \<Rightarrow> bool" where
  "near rate channels xs i j \<longleftrightarrow>
     (if i \<le> j then i = j \<or> upto (pcm_ms rate channels) xs (Suc j) - upto (pcm_ms rate channels) xs i \<le> VAD_GATE_PRE_ROLL_MS
      else i = Suc j \<or> upto (sample_ms rate channels) xs (Suc i) - upto (sample_ms rate channels) xs (Suc j) \<le> VAD_GATE_HANGOVER_MS)"

definition worth_hearing :: "nat \<Rightarrow> nat \<Rightarrow> heard \<Rightarrow> nat \<Rightarrow> bool" where
  "worth_hearing rate channels xs i \<longleftrightarrow> (\<exists>j < length xs. snd (xs ! j) \<and> near rate channels xs i j)"

definition worthwhile_audio :: "nat \<Rightarrow> nat \<Rightarrow> heard \<Rightarrow> byte list" where
  "worthwhile_audio rate channels xs = concat (map (\<lambda>i. fst (xs ! i)) (filter (worth_hearing rate channels xs) [0..<length xs]))"

section \<open>The reference grows\<close>

lemma pcm_ms_nonneg [simp]: "0 \<le> pcm_ms rate ch pcm"
  by (simp add: pcm_ms_def)

lemma sample_ms_nonneg [simp]: "0 \<le> sample_ms rate ch pcm"
  by (simp add: sample_ms_def)

lemma upto_0 [simp]: "upto ms xs 0 = 0"
  by (simp add: upto_def)

lemma upto_append [simp]: "k \<le> length xs \<Longrightarrow> upto ms (xs @ ys) k = upto ms xs k"
  by (simp add: upto_def)

lemma upto_Suc: "k < length xs \<Longrightarrow> upto ms xs (Suc k) = upto ms xs k + ms (fst (xs ! k))"
  by (simp add: upto_def take_Suc_conv_app_nth)

lemma upto_snoc [simp]: "upto ms (xs @ [x]) (Suc (length xs)) = upto ms xs (length xs) + ms (fst x)"
  by (simp add: upto_def)

lemma upto_mono:
  assumes "\<And>pcm. 0 \<le> ms pcm" "i \<le> k"
  shows "upto ms xs i \<le> upto ms xs k"
proof -
  have "take k xs = take i xs @ take (k - i) (drop i xs)"
    using assms(2) by (simp add: take_add [symmetric])
  then have "upto ms xs k = upto ms xs i + sum_list (map (\<lambda>x. ms (fst x)) (take (k - i) (drop i xs)))"
    by (simp add: upto_def)
  moreover have "0 \<le> sum_list (map (\<lambda>x. ms (fst x)) (take (k - i) (drop i xs)))"
    using assms(1) by (intro sum_list_nonneg) auto
  ultimately show ?thesis by simp
qed

text \<open>How a further chunk changes what is worth hearing among the earlier ones, and whether it is.\<close>

lemma near_snoc:
  "i < length xs \<Longrightarrow> j < length xs \<Longrightarrow> near rate ch (xs @ [x]) i j = near rate ch xs i j"
  "i < length xs \<Longrightarrow> near rate ch (xs @ [x]) i (length xs) \<longleftrightarrow>
     upto (pcm_ms rate ch) xs (length xs) + pcm_ms rate ch (fst x) - upto (pcm_ms rate ch) xs i \<le> VAD_GATE_PRE_ROLL_MS"
  "j < length xs \<Longrightarrow> near rate ch (xs @ [x]) (length xs) j \<longleftrightarrow> length xs = Suc j \<or>
     upto (sample_ms rate ch) xs (length xs) + sample_ms rate ch (fst x) - upto (sample_ms rate ch) xs (Suc j) \<le> VAD_GATE_HANGOVER_MS"
  "near rate ch (xs @ [x]) (length xs) (length xs)"
  by (simp_all add: near_def)

lemma ex_less_Suc: "(\<exists>j < Suc n. P j) \<longleftrightarrow> (\<exists>j < n. P j) \<or> P n"
  using less_Suc_eq by auto

lemma worth_hearing_snoc_old:
  assumes "i < length xs"
  shows "worth_hearing rate ch (xs @ [x]) i \<longleftrightarrow> worth_hearing rate ch xs i \<or>
    snd x \<and> upto (pcm_ms rate ch) xs (length xs) + pcm_ms rate ch (fst x) - upto (pcm_ms rate ch) xs i \<le> VAD_GATE_PRE_ROLL_MS"
  using assms by (simp add: worth_hearing_def ex_less_Suc near_snoc nth_append cong: conj_cong)

lemma worth_hearing_snoc_new:
  "worth_hearing rate ch (xs @ [x]) (length xs) \<longleftrightarrow> snd x \<or>
    (\<exists>j < length xs. snd (xs ! j) \<and> (length xs = Suc j \<or>
       upto (sample_ms rate ch) xs (length xs) + sample_ms rate ch (fst x) - upto (sample_ms rate ch) xs (Suc j) \<le> VAD_GATE_HANGOVER_MS))"
  by (auto simp: worth_hearing_def ex_less_Suc near_snoc nth_append cong: conj_cong)

lemma worthwhile_audio_skip:
  assumes "\<And>i. i < length xs \<Longrightarrow> worth_hearing rate ch (xs @ [x]) i = worth_hearing rate ch xs i"
    and "\<not> worth_hearing rate ch (xs @ [x]) (length xs)"
  shows "worthwhile_audio rate ch (xs @ [x]) = worthwhile_audio rate ch xs"
proof -
  have "filter (worth_hearing rate ch (xs @ [x])) [0..<length xs] = filter (worth_hearing rate ch xs) [0..<length xs]"
    using assms(1) by (intro filter_cong) auto
  then show ?thesis
    using assms(2) by (auto simp: worthwhile_audio_def nth_append intro!: arg_cong [where f = concat] map_cong)
qed

lemma concat_drop: "concat (map fst (drop q ys)) = concat (map (\<lambda>i. fst (ys ! i)) [q..<length ys])"
proof -
  have "map fst (drop q ys) = map (\<lambda>i. fst (ys ! i)) [q..<length ys]"
    by (rule nth_equalityI) auto
  then show ?thesis by simp
qed

lemma worthwhile_audio_from:
  assumes "q \<le> length xs" "\<And>i. i < q \<Longrightarrow> worth_hearing rate ch (xs @ [x]) i = worth_hearing rate ch xs i"
    and "\<And>i. q \<le> i \<Longrightarrow> i < length xs \<Longrightarrow> \<not> worth_hearing rate ch xs i"
    and "\<And>i. q \<le> i \<Longrightarrow> i \<le> length xs \<Longrightarrow> worth_hearing rate ch (xs @ [x]) i"
  shows "worthwhile_audio rate ch (xs @ [x]) = worthwhile_audio rate ch xs @ concat (map fst (drop q (xs @ [x])))"
proof -
  have split: "[0..<length xs] = [0..<q] @ [q..<length xs]" "[0..<length (xs @ [x])] = [0..<q] @ [q..<length (xs @ [x])]"
    using assms(1) upt_add_eq_append [of 0 q] by (metis le_add_diff_inverse zero_le, metis le_SucI le_add_diff_inverse length_append_singleton zero_le)
  have "filter (worth_hearing rate ch (xs @ [x])) [0..<q] = filter (worth_hearing rate ch xs) [0..<q]"
    using assms(2) by (intro filter_cong) auto
  moreover have "filter (worth_hearing rate ch xs) [q..<length xs] = []"
    using assms(3) by (auto simp: filter_empty_conv)
  moreover have "filter (worth_hearing rate ch (xs @ [x])) [q..<length (xs @ [x])] = [q..<length (xs @ [x])]"
    using assms(4) by (auto simp: filter_id_conv)
  moreover have "map (\<lambda>i. fst ((xs @ [x]) ! i)) (filter (worth_hearing rate ch xs) [0..<q]) = map (\<lambda>i. fst (xs ! i)) (filter (worth_hearing rate ch xs) [0..<q])"
    using assms(1) by (intro map_cong) (auto simp: nth_append)
  ultimately show ?thesis
    unfolding worthwhile_audio_def split concat_drop map_append filter_append concat_append by (simp del: upt_Suc length_append map_eq_conv)
qed

section \<open>One chunk\<close>

lemma chunk_sec_eq: "chunk_sec g pcm * 1000 = pcm_ms (g_sample_rate g) (g_channels g) pcm"
  by (simp add: chunk_sec_def pcm_ms_def)

lemma samples_ms_eq: "samples_ms g pcm = sample_ms (g_sample_rate g) (g_channels g) pcm"
  by (simp add: samples_ms_def sample_ms_def)

lemma convert_for_vad_frame: "snd (convert_for_vad det pcm g) = g\<lparr>g_pcm_remainder := g_pcm_remainder (snd (convert_for_vad det pcm g))\<rparr>"
  by (simp add: convert_for_vad_def Let_def)

lemma run_vad_frame:
  assumes "run_vad det pcm g = (speech, g')"
  obtains b r st where "g' = g\<lparr>g_vad_buffer := b, g_pcm_remainder := r, g_vad_state := st\<rparr>"
proof -
  obtain floats g1 where c: "convert_for_vad det pcm g = (floats, g1)" by force
  obtain v buffer st where w: "vad_windows det (g_vad_buffer g1 @ floats) (g_vad_state g1) False = (v, buffer, st)"
    by (metis prod_cases3)
  have "\<exists>b. g' = g1\<lparr>g_vad_buffer := b, g_vad_state := st\<rparr>"
    using assms unfolding run_vad_def c w Let_def prod.case prod.inject by blast
  then obtain b where "g' = g1\<lparr>g_vad_buffer := b, g_vad_state := st\<rparr>" by blast
  moreover obtain r where "g1 = g\<lparr>g_pcm_remainder := r\<rparr>"
    using convert_for_vad_frame [of det pcm g] unfolding c snd_conv ..
  ultimately have "g' = g\<lparr>g_vad_buffer := b, g_pcm_remainder := r, g_vad_state := st\<rparr>"
    by simp
  then show thesis by (rule that)
qed

lemma update_state_verdict: "update_state pcm speech wall g = (out, g') \<Longrightarrow> is_speech out = speech"
  by (auto simp: update_state_def update_silence_def update_speech_def update_hangover_def Let_def
      split: gate_state.splits prod.splits if_splits)

text \<open>A gate that does not only observe: the verdict is counted, then the state machine runs.\<close>

lemma process_audio_active:
  assumes "process_audio det pcm wall g = (Some out, g')" "g_mode g = ''active''"
  obtains g1 where "update_state pcm (is_speech out) wall g1 = (out, g')"
    "g_sample_rate g1 = g_sample_rate g" "g_channels g1 = g_channels g" "g_mode g1 = ''active''" "g_state g1 = g_state g"
    "g_pre_roll g1 = g_pre_roll g" "g_pre_roll_total_ms g1 = g_pre_roll_total_ms g" "g_mapper g1 = g_mapper g"
    "g_hangover_finalized g1 = g_hangover_finalized g"
    "g_audio_cursor_ms g1 = g_audio_cursor_ms g + sample_ms (g_sample_rate g) (g_channels g) pcm"
    "g_last_speech_ms g1 = (if is_speech out then g_audio_cursor_ms g1 else g_last_speech_ms g)"
    "g_first_audio_wall_time g1 = (case g_first_audio_wall_time g of None \<Rightarrow> Some wall | Some t \<Rightarrow> Some t)"
proof -
  obtain speech g0 where vad: "run_vad det pcm (count_chunk pcm wall g) = (Some speech, g0)"
    and rest: "update_state pcm speech wall (count_speech pcm speech g0) = (out, g')"
  proof -
    obtain v g0 where vad: "run_vad det pcm (count_chunk pcm wall g) = (v, g0)" by force
    then obtain b r st where "g0 = (count_chunk pcm wall g)\<lparr>g_vad_buffer := b, g_pcm_remainder := r, g_vad_state := st\<rparr>"
      by (rule run_vad_frame)
    then have "g_mode (count_speech pcm s g0) = ''active''" for s
      using assms(2) by (simp add: count_speech_def count_chunk_def Let_def)
    then show thesis
      using assms(1) vad that by (auto simp: process_audio_def Let_def split: option.splits prod.splits)
  qed
  from vad obtain b r st where g0: "g0 = (count_chunk pcm wall g)\<lparr>g_vad_buffer := b, g_pcm_remainder := r, g_vad_state := st\<rparr>"
    by (rule run_vad_frame)
  have speech: "is_speech out = speech" using rest by (rule update_state_verdict)
  show thesis
    by (rule that [of "count_speech pcm speech g0"])
      (use rest speech assms(2) in \<open>simp_all add: g0 count_speech_def count_chunk_def Let_def samples_ms_eq [symmetric] samples_ms_def\<close>)
qed

lemma evict_suffix:
  fixes g :: "'v vad_gate" and ys :: heard
  defines "U \<equiv> upto (pcm_ms (g_sample_rate g) (g_channels g)) ys"
  assumes "p < length ys"
  shows "\<exists>q. p \<le> q \<and> q < length ys \<and> evict g (map fst (drop p ys)) (U (length ys) - U p) = (map fst (drop q ys), U (length ys) - U q) \<and>
    (\<forall>i. p \<le> i \<and> i < q \<longrightarrow> VAD_GATE_PRE_ROLL_MS < U (length ys) - U i) \<and>
    (Suc q = length ys \<or> U (length ys) - U q \<le> VAD_GATE_PRE_ROLL_MS)"
  using assms(2)
proof (induction "length ys - p" arbitrary: p)
  case (Suc n)
  show ?case
  proof (cases "Suc p = length ys")
    case True
    then have "drop p ys = [ys ! p]" by (simp add: Cons_nth_drop_Suc [symmetric])
    then show ?thesis
      using True by (intro exI [of _ p]) auto
  next
    case False
    then have drop: "drop p ys = ys ! p # ys ! Suc p # drop (Suc (Suc p)) ys" "drop (Suc p) ys = ys ! Suc p # drop (Suc (Suc p)) ys"
      using Suc.prems by (simp_all add: Cons_nth_drop_Suc)
    have step: "U (length ys) - U p - chunk_sec g (fst (ys ! p)) * 1000 = U (length ys) - U (Suc p)"
      using Suc.prems by (simp add: U_def upto_Suc chunk_sec_eq)
    show ?thesis
    proof (cases "VAD_GATE_PRE_ROLL_MS < U (length ys) - U p")
      case True
      then have "evict g (map fst (drop p ys)) (U (length ys) - U p) = evict g (map fst (drop (Suc p) ys)) (U (length ys) - U (Suc p))"
        unfolding drop by (simp add: step)
      moreover have "n = length ys - Suc p" "Suc p < length ys"
        using Suc.hyps(2) Suc.prems False by simp_all
      moreover note Suc.hyps(1) [OF this]
      moreover have "VAD_GATE_PRE_ROLL_MS < U (length ys) - U i" if "p \<le> i" "i < q"
        "\<forall>i. Suc p \<le> i \<and> i < q \<longrightarrow> VAD_GATE_PRE_ROLL_MS < U (length ys) - U i" for i q
        using that True by (cases "i = p") auto
      ultimately show ?thesis by (metis Suc_leD)
    next
      case False
      then show ?thesis
        using Suc.prems by (intro exI [of _ p]) (auto simp: drop)
    qed
  qed
qed simp

section \<open>The gate against the reference\<close>

text \<open>After the chunks \<open>xs\<close> the pre-roll holds those from position \<open>p\<close> on, which are the ones at
  the end that nothing made worth hearing; before \<open>p\<close>, whatever a speech chunk right now could
  reach with its pre-roll has been sent already.\<close>

abbreviation ms_upto :: "'v vad_gate \<Rightarrow> heard \<Rightarrow> nat \<Rightarrow> rat" where
  "ms_upto g \<equiv> upto (pcm_ms (g_sample_rate g) (g_channels g))"

abbreviation samples_upto :: "'v vad_gate \<Rightarrow> heard \<Rightarrow> nat \<Rightarrow> rat" where
  "samples_upto g \<equiv> upto (sample_ms (g_sample_rate g) (g_channels g))"

abbreviation worth :: "'v vad_gate \<Rightarrow> heard \<Rightarrow> nat \<Rightarrow> bool" where
  "worth g \<equiv> worth_hearing (g_sample_rate g) (g_channels g)"

definition state_inv :: "heard \<Rightarrow> 'v vad_gate \<Rightarrow> bool" where
  "state_inv xs g \<longleftrightarrow>
     (case g_state g of
        SILENCE \<Rightarrow> \<forall>j < length xs. snd (xs ! j) \<longrightarrow> Suc j < length xs \<and> VAD_GATE_HANGOVER_MS < samples_upto g xs (length xs) - samples_upto g xs (Suc j)
      | SPEECH \<Rightarrow> xs \<noteq> [] \<and> snd (last xs) \<and> g_last_speech_ms g = samples_upto g xs (length xs)
      | HANGOVER \<Rightarrow> \<exists>j. Suc j < length xs \<and> snd (xs ! j) \<and> (\<forall>k. j < k \<and> k < length xs \<longrightarrow> \<not> snd (xs ! k)) \<and>
          g_last_speech_ms g = samples_upto g xs (Suc j))"

definition gate_inv :: "heard \<Rightarrow> 'v vad_gate \<Rightarrow> nat \<Rightarrow> bool" where
  "gate_inv xs g p \<longleftrightarrow> p \<le> length xs \<and> g_pre_roll g = map fst (drop p xs) \<and>
     g_pre_roll_total_ms g = ms_upto g xs (length xs) - ms_upto g xs p \<and>
     g_audio_cursor_ms g = samples_upto g xs (length xs) \<and>
     (\<forall>i < p. ms_upto g xs (length xs) - ms_upto g xs i \<le> VAD_GATE_PRE_ROLL_MS \<longrightarrow> worth g xs i) \<and>
     (\<forall>i. p \<le> i \<and> i < length xs \<longrightarrow> \<not> worth g xs i) \<and>
     (g_state g \<noteq> SILENCE \<longrightarrow> p = length xs) \<and> state_inv xs g"

lemma less_without: "a + pcm_ms rate ch pcm - b \<le> c \<Longrightarrow> a - b \<le> c"
  using pcm_ms_nonneg [of rate ch pcm] by linarith

text \<open>A chunk that is sent on its own, when nothing waits in the pre-roll.\<close>

lemma sent_alone:
  assumes "worth g (xs @ [x]) (length xs)"
    and "\<And>i. i < length xs \<Longrightarrow> ms_upto g xs (length xs) - ms_upto g xs i \<le> VAD_GATE_PRE_ROLL_MS \<Longrightarrow> worth g xs i"
  shows "worthwhile_audio (g_sample_rate g) (g_channels g) (xs @ [x]) = worthwhile_audio (g_sample_rate g) (g_channels g) xs @ fst x"
    and "\<And>i. i < Suc (length xs) \<Longrightarrow> ms_upto g (xs @ [x]) (Suc (length xs)) - ms_upto g (xs @ [x]) i \<le> VAD_GATE_PRE_ROLL_MS \<Longrightarrow> worth g (xs @ [x]) i"
    and "\<And>i. i < length xs \<Longrightarrow> worth g (xs @ [x]) i = worth g xs i"
proof -
  have shorter: "ms_upto g xs (length xs) - ms_upto g xs i \<le> VAD_GATE_PRE_ROLL_MS"
    if "ms_upto g xs (length xs) + pcm_ms (g_sample_rate g) (g_channels g) (fst x) - ms_upto g xs i \<le> VAD_GATE_PRE_ROLL_MS" for i
    using that pcm_ms_nonneg [of "g_sample_rate g" "g_channels g" "fst x"] by linarith
  then show old: "worth g (xs @ [x]) i = worth g xs i" if "i < length xs" for i
    using assms(2) that by (auto simp: worth_hearing_snoc_old)
  show "worthwhile_audio (g_sample_rate g) (g_channels g) (xs @ [x]) = worthwhile_audio (g_sample_rate g) (g_channels g) xs @ fst x"
    using worthwhile_audio_from [of "length xs" xs "g_sample_rate g" "g_channels g" x] old assms(1) by simp
  show "worth g (xs @ [x]) i"
    if "i < Suc (length xs)" "ms_upto g (xs @ [x]) (Suc (length xs)) - ms_upto g (xs @ [x]) i \<le> VAD_GATE_PRE_ROLL_MS" for i
  proof (cases "i = length xs")
    case False
    then have "i < length xs" using that(1) by simp
    then show ?thesis
      using that(2) shorter assms(2) by (simp add: worth_hearing_snoc_old)
  qed (use assms(1) in simp)
qed

text \<open>The gate as it enters the state machine: the chunk is counted already.\<close>

definition counted :: "heard \<Rightarrow> byte list \<Rightarrow> bool \<Rightarrow> 'v vad_gate \<Rightarrow> 'v vad_gate \<Rightarrow> bool" where
  "counted xs pcm speech g g1 \<longleftrightarrow>
     g_sample_rate g1 = g_sample_rate g \<and> g_channels g1 = g_channels g \<and> g_state g1 = g_state g \<and>
     g_pre_roll g1 = g_pre_roll g \<and> g_pre_roll_total_ms g1 = g_pre_roll_total_ms g \<and>
     g_audio_cursor_ms g1 = samples_upto g xs (length xs) + sample_ms (g_sample_rate g) (g_channels g) pcm \<and>
     g_last_speech_ms g1 = (if speech then g_audio_cursor_ms g1 else g_last_speech_ms g)"

lemma evicted:
  assumes "gate_inv xs g p" "counted xs pcm speech g g1"
  obtains q where "p \<le> q" "q \<le> length xs"
    "evict g1 (g_pre_roll g1 @ [pcm]) (g_pre_roll_total_ms g1 + chunk_sec g1 pcm * 1000) =
       (map fst (drop q (xs @ [(pcm, speech)])), ms_upto g (xs @ [(pcm, speech)]) (Suc (length xs)) - ms_upto g (xs @ [(pcm, speech)]) q)"
    "\<And>i. p \<le> i \<Longrightarrow> i < q \<Longrightarrow> VAD_GATE_PRE_ROLL_MS < ms_upto g (xs @ [(pcm, speech)]) (Suc (length xs)) - ms_upto g (xs @ [(pcm, speech)]) i"
    "q = length xs \<or> ms_upto g (xs @ [(pcm, speech)]) (Suc (length xs)) - ms_upto g (xs @ [(pcm, speech)]) q \<le> VAD_GATE_PRE_ROLL_MS"
proof -
  let ?ys = "xs @ [(pcm, speech)]"
  have p: "p < length ?ys" and roll: "g_pre_roll g1 @ [pcm] = map fst (drop p ?ys)"
    and left: "g_pre_roll_total_ms g1 + chunk_sec g1 pcm * 1000 = ms_upto g1 ?ys (length ?ys) - ms_upto g1 ?ys p"
    using assms by (simp_all add: gate_inv_def counted_def chunk_sec_eq)
  have "ms_upto g1 = ms_upto g" using assms(2) by (simp add: counted_def)
  then show thesis
    using evict_suffix [OF p, of g1] that unfolding roll left by (auto simp: less_Suc_eq_le)
qed

lemma silence_speech_step:
  assumes "gate_inv xs g p" "counted xs pcm True g g1"
    and "p \<le> q" "q \<le> length xs"
    and "\<And>i. p \<le> i \<Longrightarrow> i < q \<Longrightarrow> VAD_GATE_PRE_ROLL_MS < ms_upto g (xs @ [(pcm, True)]) (Suc (length xs)) - ms_upto g (xs @ [(pcm, True)]) i"
    and "q = length xs \<or> ms_upto g (xs @ [(pcm, True)]) (Suc (length xs)) - ms_upto g (xs @ [(pcm, True)]) q \<le> VAD_GATE_PRE_ROLL_MS"
  shows "\<And>i. i < q \<Longrightarrow> worth g (xs @ [(pcm, True)]) i = worth g xs i"
    and "\<And>i. q \<le> i \<Longrightarrow> i \<le> length xs \<Longrightarrow> worth g (xs @ [(pcm, True)]) i"
    and "worthwhile_audio (g_sample_rate g) (g_channels g) (xs @ [(pcm, True)]) =
      worthwhile_audio (g_sample_rate g) (g_channels g) xs @ concat (map fst (drop q (xs @ [(pcm, True)])))"
    and "\<And>i. i < Suc (length xs) \<Longrightarrow> ms_upto g (xs @ [(pcm, True)]) (Suc (length xs)) - ms_upto g (xs @ [(pcm, True)]) i \<le> VAD_GATE_PRE_ROLL_MS \<Longrightarrow>
      worth g (xs @ [(pcm, True)]) i"
proof -
  let ?ys = "xs @ [(pcm, True)]" and ?ms = "pcm_ms (g_sample_rate g) (g_channels g)"
  have reach: "worth g xs i" if "i < p" "ms_upto g xs (length xs) - ms_upto g xs i \<le> VAD_GATE_PRE_ROLL_MS" for i
    using assms(1) that by (simp add: gate_inv_def)
  have silent: "\<not> worth g xs i" if "p \<le> i" "i < length xs" for i
    using assms(1) that by (simp add: gate_inv_def)
  show old: "worth g ?ys i = worth g xs i" if "i < q" for i
  proof (cases "i < p")
    case True
    then show ?thesis
      using reach [OF True less_without] that assms(4) by (auto simp: worth_hearing_snoc_old)
  next
    case False
    then show ?thesis
      using assms(5) [of i] that assms(4) by (auto simp: worth_hearing_snoc_old)
  qed
  show new: "worth g ?ys i" if "q \<le> i" "i \<le> length xs" for i
  proof (cases "i = length xs")
    case True
    then show ?thesis by (simp add: worth_hearing_snoc_new)
  next
    case False
    then have "ms_upto g ?ys (Suc (length xs)) - ms_upto g ?ys q \<le> VAD_GATE_PRE_ROLL_MS" "i < length xs"
      using assms(6) that by auto
    moreover have "ms_upto g ?ys q \<le> ms_upto g ?ys i" by (rule upto_mono [OF pcm_ms_nonneg that(1)])
    ultimately show ?thesis by (simp add: worth_hearing_snoc_old)
  qed
  show "worthwhile_audio (g_sample_rate g) (g_channels g) ?ys = worthwhile_audio (g_sample_rate g) (g_channels g) xs @ concat (map fst (drop q ?ys))"
    using assms(3,4) old new silent by (intro worthwhile_audio_from) auto
  show "worth g ?ys i" if "i < Suc (length xs)" "ms_upto g ?ys (Suc (length xs)) - ms_upto g ?ys i \<le> VAD_GATE_PRE_ROLL_MS" for i
  proof (cases "i = length xs")
    case True
    then show ?thesis by (simp add: worth_hearing_snoc_new)
  next
    case False
    then show ?thesis using that by (simp add: worth_hearing_snoc_old)
  qed
qed

text \<open>What the invariant says of the next chunk, by state.\<close>

definition quiet :: "heard \<Rightarrow> byte list \<Rightarrow> 'v vad_gate \<Rightarrow> bool" where
  "quiet xs pcm g \<longleftrightarrow> (\<forall>j < length xs. snd (xs ! j) \<longrightarrow> length xs \<noteq> Suc j \<and>
     VAD_GATE_HANGOVER_MS < samples_upto g xs (length xs) + sample_ms (g_sample_rate g) (g_channels g) pcm - samples_upto g xs (Suc j))"

lemma quiet_in_silence:
  assumes "gate_inv xs g p" "g_state g = SILENCE"
  shows "quiet xs pcm g"
  unfolding quiet_def
proof (intro allI impI)
  fix j assume j: "j < length xs" "snd (xs ! j)"
  then have "Suc j < length xs \<and> VAD_GATE_HANGOVER_MS < samples_upto g xs (length xs) - samples_upto g xs (Suc j)"
    using assms by (simp add: gate_inv_def state_inv_def)
  then show "length xs \<noteq> Suc j \<and>
    VAD_GATE_HANGOVER_MS < samples_upto g xs (length xs) + sample_ms (g_sample_rate g) (g_channels g) pcm - samples_upto g xs (Suc j)"
    using sample_ms_nonneg [of "g_sample_rate g" "g_channels g" pcm] by linarith
qed

lemma worth_in_speech:
  assumes "gate_inv xs g p" "g_state g = SPEECH"
  obtains j where "length xs = Suc j" "snd (xs ! j)" "g_last_speech_ms g = samples_upto g xs (length xs)"
    "worth g (xs @ [(pcm, speech)]) (length xs)"
proof -
  have last: "xs \<noteq> []" "snd (last xs)" "g_last_speech_ms g = samples_upto g xs (length xs)"
    using assms by (simp_all add: gate_inv_def state_inv_def)
  then obtain j where j: "length xs = Suc j" "snd (xs ! j)"
    by (cases xs rule: rev_cases) auto
  then have "worth g (xs @ [(pcm, speech)]) (length xs)"
    unfolding worth_hearing_snoc_new by auto
  with j last(3) show thesis by (rule that)
qed

lemma last_speech_in_hangover:
  assumes "gate_inv xs g p" "g_state g = HANGOVER"
  obtains j where "Suc j < length xs" "snd (xs ! j)" "\<And>k. j < k \<Longrightarrow> k < length xs \<Longrightarrow> \<not> snd (xs ! k)"
    "g_last_speech_ms g = samples_upto g xs (Suc j)"
  using assms by (auto simp: gate_inv_def state_inv_def)

lemma worth_in_hangover:
  assumes "gate_inv xs g p" "counted xs pcm speech g g1" "g_state g = HANGOVER"
    and "\<not> (\<not> speech \<and> VAD_GATE_HANGOVER_MS < g_audio_cursor_ms g1 - g_last_speech_ms g1)"
  shows "worth g (xs @ [(pcm, speech)]) (length xs)"
proof -
  obtain j where "Suc j < length xs" "snd (xs ! j)" "g_last_speech_ms g = samples_upto g xs (Suc j)"
    by (rule last_speech_in_hangover [OF assms(1,3)])
  then show ?thesis
    unfolding worth_hearing_snoc_new using assms(2,4) by (auto simp: counted_def intro!: exI [of _ j])
qed

lemma quiet_after_hangover:
  assumes "gate_inv xs g p" "counted xs pcm False g g1" "g_state g = HANGOVER"
    and "VAD_GATE_HANGOVER_MS < g_audio_cursor_ms g1 - g_last_speech_ms g1"
  shows "quiet xs pcm g"
  unfolding quiet_def
proof (intro allI impI)
  obtain j where j: "Suc j < length xs" "snd (xs ! j)" "\<And>k. j < k \<Longrightarrow> k < length xs \<Longrightarrow> \<not> snd (xs ! k)"
    "g_last_speech_ms g = samples_upto g xs (Suc j)"
    by (rule last_speech_in_hangover [OF assms(1,3)]) blast
  fix i assume i: "i < length xs" "snd (xs ! i)"
  then have "i \<le> j" using j(3) by (meson linorder_not_less)
  then have "samples_upto g xs (Suc i) \<le> samples_upto g xs (Suc j)" by (intro upto_mono) simp_all
  then show "length xs \<noteq> Suc i \<and>
    VAD_GATE_HANGOVER_MS < samples_upto g xs (length xs) + sample_ms (g_sample_rate g) (g_channels g) pcm - samples_upto g xs (Suc i)"
    using assms(2,4) j(1,4) \<open>i \<le> j\<close> by (auto simp: counted_def)
qed

lemma silent_now:
  assumes "quiet xs pcm g"
  shows "\<not> worth g (xs @ [(pcm, False)]) (length xs)" "\<And>i. i < length xs \<Longrightarrow> worth g (xs @ [(pcm, False)]) i = worth g xs i"
    and "worthwhile_audio (g_sample_rate g) (g_channels g) (xs @ [(pcm, False)]) = worthwhile_audio (g_sample_rate g) (g_channels g) xs"
proof -
  show new: "\<not> worth g (xs @ [(pcm, False)]) (length xs)"
    using assms by (fastforce simp: quiet_def worth_hearing_snoc_new)
  show old: "worth g (xs @ [(pcm, False)]) i = worth g xs i" if "i < length xs" for i
    using that by (simp add: worth_hearing_snoc_old)
  show "worthwhile_audio (g_sample_rate g) (g_channels g) (xs @ [(pcm, False)]) = worthwhile_audio (g_sample_rate g) (g_channels g) xs"
    using new old by (intro worthwhile_audio_skip)
qed

lemma gate_inv_silence:
  assumes inv: "gate_inv xs g p" and c: "counted xs pcm speech g g1" and silence: "g_state g = SILENCE"
    and step: "update_silence pcm speech wall g1 = (out, g')"
  shows "\<exists>p'. gate_inv (xs @ [(pcm, speech)]) g' p' \<and>
    worthwhile_audio (g_sample_rate g) (g_channels g) (xs @ [(pcm, speech)]) = worthwhile_audio (g_sample_rate g) (g_channels g) xs @ audio_to_send out"
proof (cases speech)
  case True
  have c': "counted xs pcm True g g1" using c True by simp
  obtain q where q: "p \<le> q" "q \<le> length xs"
    "evict g1 (g_pre_roll g1 @ [pcm]) (g_pre_roll_total_ms g1 + chunk_sec g1 pcm * 1000) =
       (map fst (drop q (xs @ [(pcm, True)])), ms_upto g (xs @ [(pcm, True)]) (Suc (length xs)) - ms_upto g (xs @ [(pcm, True)]) q)"
    "\<And>i. p \<le> i \<Longrightarrow> i < q \<Longrightarrow> VAD_GATE_PRE_ROLL_MS < ms_upto g (xs @ [(pcm, True)]) (Suc (length xs)) - ms_upto g (xs @ [(pcm, True)]) i"
    "q = length xs \<or> ms_upto g (xs @ [(pcm, True)]) (Suc (length xs)) - ms_upto g (xs @ [(pcm, True)]) q \<le> VAD_GATE_PRE_ROLL_MS"
    using evicted [OF inv c'] by blast
  note facts = silence_speech_step [OF inv c' q(1,2) q(4,5)]
  have g': "out = \<lparr>audio_to_send = concat (map fst (drop q (xs @ [(pcm, True)]))), should_finalize = False, output_state = SPEECH, is_speech = True\<rparr>"
    "g_sample_rate g' = g_sample_rate g" "g_channels g' = g_channels g" "g_state g' = SPEECH" "g_pre_roll g' = []" "g_pre_roll_total_ms g' = 0"
    "g_audio_cursor_ms g' = g_audio_cursor_ms g1" "g_last_speech_ms g' = g_last_speech_ms g1"
    using step c' True unfolding update_silence_def q(3) by (auto simp: Let_def forward_def counted_def)
  have "gate_inv (xs @ [(pcm, True)]) g' (Suc (length xs))"
    using facts(4) c' by (simp add: gate_inv_def state_inv_def g' counted_def)
  then show ?thesis
    using facts(3) True by (auto simp: g')
next
  case False
  have c': "counted xs pcm False g g1" using c False by simp
  obtain q where q: "p \<le> q" "q \<le> length xs"
    "evict g1 (g_pre_roll g1 @ [pcm]) (g_pre_roll_total_ms g1 + chunk_sec g1 pcm * 1000) =
       (map fst (drop q (xs @ [(pcm, False)])), ms_upto g (xs @ [(pcm, False)]) (Suc (length xs)) - ms_upto g (xs @ [(pcm, False)]) q)"
    "\<And>i. p \<le> i \<Longrightarrow> i < q \<Longrightarrow> VAD_GATE_PRE_ROLL_MS < ms_upto g (xs @ [(pcm, False)]) (Suc (length xs)) - ms_upto g (xs @ [(pcm, False)]) i"
    "q = length xs \<or> ms_upto g (xs @ [(pcm, False)]) (Suc (length xs)) - ms_upto g (xs @ [(pcm, False)]) q \<le> VAD_GATE_PRE_ROLL_MS"
    using evicted [OF inv c'] by blast
  have g': "out = \<lparr>audio_to_send = [], should_finalize = False, output_state = SILENCE, is_speech = False\<rparr>"
    "g_sample_rate g' = g_sample_rate g" "g_channels g' = g_channels g" "g_state g' = SILENCE" "g_pre_roll g' = map fst (drop q (xs @ [(pcm, False)]))"
    "g_pre_roll_total_ms g' = ms_upto g (xs @ [(pcm, False)]) (Suc (length xs)) - ms_upto g (xs @ [(pcm, False)]) q"
    "g_audio_cursor_ms g' = g_audio_cursor_ms g1" "g_last_speech_ms g' = g_last_speech_ms g1"
    using step c' False silence unfolding update_silence_def q(3) by (auto simp: counted_def)
  have quiet: "quiet xs pcm g" by (rule quiet_in_silence [OF inv silence])
  note facts = silent_now [OF quiet]
  have reach: "worth g (xs @ [(pcm, False)]) i"
    if "i < q" "ms_upto g (xs @ [(pcm, False)]) (Suc (length xs)) - ms_upto g (xs @ [(pcm, False)]) i \<le> VAD_GATE_PRE_ROLL_MS" for i
  proof -
    have "i < p" using q(4) [of i] that by (cases "i < p") auto
    moreover have "ms_upto g xs (length xs) + pcm_ms (g_sample_rate g) (g_channels g) pcm - ms_upto g xs i \<le> VAD_GATE_PRE_ROLL_MS"
      using that q(2) by simp
    then have "ms_upto g xs (length xs) - ms_upto g xs i \<le> VAD_GATE_PRE_ROLL_MS" by (rule less_without)
    ultimately have "worth g xs i" using inv by (simp add: gate_inv_def)
    then show ?thesis using facts(2) \<open>i < q\<close> q(2) by simp
  qed
  have away: "\<not> worth g (xs @ [(pcm, False)]) i" if "q \<le> i" "i < Suc (length xs)" for i
  proof (cases "i = length xs")
    case False
    then show ?thesis using that facts(2) inv q(1) by (simp add: gate_inv_def)
  qed (use facts(1) in simp)
  have "state_inv (xs @ [(pcm, False)]) g'"
    using quiet by (auto simp: quiet_def state_inv_def g' nth_append less_Suc_eq)
  then have "gate_inv (xs @ [(pcm, False)]) g' q"
    using q(2) reach away c' by (simp add: gate_inv_def g' counted_def)
  then show ?thesis
    using facts(3) False by (auto simp: g')
qed

lemma forward_simps [simp]:
  "g_sample_rate (forward a w t g) = g_sample_rate g" "g_channels (forward a w t g) = g_channels g" "g_state (forward a w t g) = g_state g"
  "g_pre_roll (forward a w t g) = g_pre_roll g" "g_pre_roll_total_ms (forward a w t g) = g_pre_roll_total_ms g"
  "g_audio_cursor_ms (forward a w t g) = g_audio_cursor_ms g" "g_last_speech_ms (forward a w t g) = g_last_speech_ms g"
  "g_mode (forward a w t g) = g_mode g" "g_first_audio_wall_time (forward a w t g) = g_first_audio_wall_time g"
  "g_hangover_finalized (forward a w t g) = g_hangover_finalized g"
  by (simp_all add: forward_def)

text \<open>A chunk that is sent at once, in the states that hold nothing back.\<close>

lemma gate_inv_sent:
  assumes inv: "gate_inv xs g p" and c: "counted xs pcm speech g g1" and busy: "g_state g \<noteq> SILENCE"
    and worth: "worth g (xs @ [(pcm, speech)]) (length xs)"
    and frame: "g_sample_rate g' = g_sample_rate g" "g_channels g' = g_channels g" "g_pre_roll g' = g_pre_roll g"
      "g_pre_roll_total_ms g' = g_pre_roll_total_ms g" "g_audio_cursor_ms g' = g_audio_cursor_ms g1"
    and state: "state_inv (xs @ [(pcm, speech)]) g'"
  shows "gate_inv (xs @ [(pcm, speech)]) g' (Suc (length xs))"
    and "worthwhile_audio (g_sample_rate g) (g_channels g) (xs @ [(pcm, speech)]) = worthwhile_audio (g_sample_rate g) (g_channels g) xs @ pcm"
proof -
  have reach: "worth g xs i" if "i < length xs" "ms_upto g xs (length xs) - ms_upto g xs i \<le> VAD_GATE_PRE_ROLL_MS" for i
    using inv busy that by (simp add: gate_inv_def)
  note alone = sent_alone [OF worth reach]
  show "worthwhile_audio (g_sample_rate g) (g_channels g) (xs @ [(pcm, speech)]) = worthwhile_audio (g_sample_rate g) (g_channels g) xs @ pcm"
    using alone(1) by simp
  show "gate_inv (xs @ [(pcm, speech)]) g' (Suc (length xs))"
    using inv busy c alone(2) state by (simp add: gate_inv_def frame counted_def)
qed

lemma gate_inv_speech:
  assumes inv: "gate_inv xs g p" and c: "counted xs pcm speech g g1" and speaking: "g_state g = SPEECH"
    and step: "update_speech pcm speech wall g1 = (out, g')"
  shows "gate_inv (xs @ [(pcm, speech)]) g' (Suc (length xs)) \<and>
    worthwhile_audio (g_sample_rate g) (g_channels g) (xs @ [(pcm, speech)]) = worthwhile_audio (g_sample_rate g) (g_channels g) xs @ audio_to_send out"
proof -
  obtain j where j: "length xs = Suc j" "snd (xs ! j)" and last: "g_last_speech_ms g = samples_upto g xs (length xs)"
    and worth: "worth g (xs @ [(pcm, speech)]) (length xs)"
    by (rule worth_in_speech [OF inv speaking])
  have g': "audio_to_send out = pcm" "g_sample_rate g' = g_sample_rate g" "g_channels g' = g_channels g" "g_pre_roll g' = g_pre_roll g"
    "g_pre_roll_total_ms g' = g_pre_roll_total_ms g" "g_audio_cursor_ms g' = g_audio_cursor_ms g1" "g_last_speech_ms g' = g_last_speech_ms g1"
    "g_state g' = (if speech then SPEECH else HANGOVER)"
    using step c speaking by (auto simp: update_speech_def counted_def Let_def)
  have "state_inv (xs @ [(pcm, speech)]) g'"
  proof (cases speech)
    case True
    then show ?thesis using c by (simp add: state_inv_def g' counted_def)
  next
    case False
    then have "g_last_speech_ms g' = samples_upto g xs (Suc j)"
      using c last j(1) by (simp add: g' counted_def)
    then show ?thesis
      using False j by (auto simp: state_inv_def g' nth_append intro!: exI [of _ j])
  qed
  then show ?thesis
    using gate_inv_sent [OF inv c _ worth, where g' = g'] speaking by (simp add: g')
qed

lemma gate_inv_hangover:
  assumes inv: "gate_inv xs g p" and c: "counted xs pcm speech g g1" and waiting: "g_state g = HANGOVER"
    and step: "update_hangover pcm speech wall g1 = (out, g')"
  shows "\<exists>p'. gate_inv (xs @ [(pcm, speech)]) g' p' \<and>
    worthwhile_audio (g_sample_rate g) (g_channels g) (xs @ [(pcm, speech)]) = worthwhile_audio (g_sample_rate g) (g_channels g) xs @ audio_to_send out"
proof -
  obtain j where j: "Suc j < length xs" "snd (xs ! j)" "\<And>k. j < k \<Longrightarrow> k < length xs \<Longrightarrow> \<not> snd (xs ! k)"
    "g_last_speech_ms g = samples_upto g xs (Suc j)"
    by (rule last_speech_in_hangover [OF inv waiting]) blast
  show ?thesis
  proof (cases "\<not> speech \<and> VAD_GATE_HANGOVER_MS < g_audio_cursor_ms g1 - g_last_speech_ms g1")
    case True
    then have g': "audio_to_send out = []" "g_sample_rate g' = g_sample_rate g" "g_channels g' = g_channels g" "g_pre_roll g' = [pcm]"
      "g_pre_roll_total_ms g' = pcm_ms (g_sample_rate g) (g_channels g) pcm" "g_audio_cursor_ms g' = g_audio_cursor_ms g1" "g_state g' = SILENCE"
      using step c by (auto simp: update_hangover_def counted_def Let_def chunk_sec_eq)
    have quiet: "quiet xs pcm g"
      using quiet_after_hangover [OF inv _ waiting] c True by simp
    note facts = silent_now [OF quiet]
    have "worth g (xs @ [(pcm, False)]) i"
      if "i < length xs" "ms_upto g (xs @ [(pcm, False)]) (Suc (length xs)) - ms_upto g (xs @ [(pcm, False)]) i \<le> VAD_GATE_PRE_ROLL_MS" for i
    proof -
      have "ms_upto g xs (length xs) + pcm_ms (g_sample_rate g) (g_channels g) pcm - ms_upto g xs i \<le> VAD_GATE_PRE_ROLL_MS"
        using that by simp
      then have "ms_upto g xs (length xs) - ms_upto g xs i \<le> VAD_GATE_PRE_ROLL_MS" by (rule less_without)
      then have "worth g xs i" using inv waiting that by (simp add: gate_inv_def)
      then show ?thesis using facts(2) that by simp
    qed
    moreover have "state_inv (xs @ [(pcm, False)]) g'"
      using quiet by (auto simp: quiet_def state_inv_def g' nth_append less_Suc_eq)
    moreover have "\<not> worth g (xs @ [(pcm, False)]) i" if "length xs \<le> i" "i < Suc (length xs)" for i
      using that facts(1) by (simp add: le_less_Suc_eq)
    ultimately have "gate_inv (xs @ [(pcm, False)]) g' (length xs)"
      using c by (simp add: gate_inv_def g' counted_def)
    then show ?thesis using facts(3) True by (auto simp: g')
  next
    case False
    then have g': "audio_to_send out = pcm" "g_sample_rate g' = g_sample_rate g" "g_channels g' = g_channels g" "g_pre_roll g' = g_pre_roll g"
      "g_pre_roll_total_ms g' = g_pre_roll_total_ms g" "g_audio_cursor_ms g' = g_audio_cursor_ms g1" "g_last_speech_ms g' = g_last_speech_ms g1"
      "g_state g' = (if speech then SPEECH else HANGOVER)"
      using step c waiting by (cases speech; auto simp: update_hangover_def counted_def Let_def)+
    have "worth g (xs @ [(pcm, speech)]) (length xs)"
      by (rule worth_in_hangover [OF inv c waiting False])
    moreover have "state_inv (xs @ [(pcm, speech)]) g'"
    proof (cases speech)
      case True
      then show ?thesis using c by (simp add: state_inv_def g' counted_def)
    next
      case False
      then show ?thesis
        using c j by (auto simp: state_inv_def g' counted_def nth_append less_Suc_eq intro!: exI [of _ j])
    qed
    ultimately have "gate_inv (xs @ [(pcm, speech)]) g' (Suc (length xs))"
      "worthwhile_audio (g_sample_rate g) (g_channels g) (xs @ [(pcm, speech)]) = worthwhile_audio (g_sample_rate g) (g_channels g) xs @ pcm"
      using gate_inv_sent [OF inv c, where g' = g'] waiting by (simp_all add: g')
    then show ?thesis by (auto simp: g')
  qed
qed

section \<open>Runs of an active gate\<close>

lemma update_state_frame:
  assumes "update_state pcm speech wall g = (out, g')"
  shows "g_sample_rate g' = g_sample_rate g" "g_channels g' = g_channels g" "g_mode g' = g_mode g"
    "g_first_audio_wall_time g' = g_first_audio_wall_time g"
  using assms by (auto simp: update_state_def update_silence_def update_speech_def update_hangover_def Let_def
      split: gate_state.splits prod.splits if_splits)

lemma gate_inv_step:
  assumes "process_audio det pcm wall g = (Some out, g')" "g_mode g = ''active''" "gate_inv xs g p"
  shows "\<exists>p'. gate_inv (xs @ [(pcm, is_speech out)]) g' p' \<and>
    worthwhile_audio (g_sample_rate g) (g_channels g) (xs @ [(pcm, is_speech out)]) = worthwhile_audio (g_sample_rate g) (g_channels g) xs @ audio_to_send out \<and>
    g_sample_rate g' = g_sample_rate g \<and> g_channels g' = g_channels g \<and> g_mode g' = ''active''"
proof -
  obtain g1 where g1: "update_state pcm (is_speech out) wall g1 = (out, g')"
    "g_sample_rate g1 = g_sample_rate g" "g_channels g1 = g_channels g" "g_mode g1 = ''active''" "g_state g1 = g_state g"
    "g_pre_roll g1 = g_pre_roll g" "g_pre_roll_total_ms g1 = g_pre_roll_total_ms g"
    "g_audio_cursor_ms g1 = g_audio_cursor_ms g + sample_ms (g_sample_rate g) (g_channels g) pcm"
    "g_last_speech_ms g1 = (if is_speech out then g_audio_cursor_ms g1 else g_last_speech_ms g)"
    by (rule process_audio_active [OF assms(1,2)])
  have c: "counted xs pcm (is_speech out) g g1"
    using g1 assms(3) by (simp add: counted_def gate_inv_def)
  have "\<exists>p'. gate_inv (xs @ [(pcm, is_speech out)]) g' p' \<and>
    worthwhile_audio (g_sample_rate g) (g_channels g) (xs @ [(pcm, is_speech out)]) = worthwhile_audio (g_sample_rate g) (g_channels g) xs @ audio_to_send out"
  proof (cases "g_state g")
    case SILENCE
    then show ?thesis
      using gate_inv_silence [OF assms(3) c] g1(1,5) by (simp add: update_state_def)
  next
    case SPEECH
    then show ?thesis
      using gate_inv_speech [OF assms(3) c] g1(1,5) by (auto simp: update_state_def)
  next
    case HANGOVER
    then show ?thesis
      using gate_inv_hangover [OF assms(3) c] g1(1,5) by (simp add: update_state_def)
  qed
  then show ?thesis
    using update_state_frame [OF g1(1)] g1 by auto
qed

definition heard_of :: "(byte list \<times> rat) list \<Rightarrow> gate_output list \<Rightarrow> heard" where
  "heard_of cs outs = zip (map fst cs) (map is_speech outs)"

lemma gate_run_Cons:
  assumes "gate_run det ((pcm, wall) # cs) g = Some (outs, g'')"
  obtains out rest g' where "outs = out # rest" "process_audio det pcm wall g = (Some out, g')" "gate_run det cs g' = Some (rest, g'')"
  using assms by (auto split: prod.splits option.splits)

lemma gate_run_worth:
  "gate_run det cs g = Some (outs, g') \<Longrightarrow> g_mode g = ''active'' \<Longrightarrow> gate_inv xs g p \<Longrightarrow>
    \<exists>p'. gate_inv (xs @ heard_of cs outs) g' p' \<and>
      worthwhile_audio (g_sample_rate g) (g_channels g) (xs @ heard_of cs outs) =
        worthwhile_audio (g_sample_rate g) (g_channels g) xs @ concat (map audio_to_send outs)"
proof (induction cs arbitrary: g outs xs p)
  case Nil
  then show ?case by (auto simp: heard_of_def)
next
  case (Cons c cs)
  obtain pcm wall where c: "c = (pcm, wall)" by force
  obtain out rest g1 where outs: "outs = out # rest" and one: "process_audio det pcm wall g = (Some out, g1)"
    and run: "gate_run det cs g1 = Some (rest, g')"
    by (rule gate_run_Cons [OF Cons.prems(1) [unfolded c]])
  obtain p1 where p1: "gate_inv (xs @ [(pcm, is_speech out)]) g1 p1"
    "worthwhile_audio (g_sample_rate g) (g_channels g) (xs @ [(pcm, is_speech out)]) = worthwhile_audio (g_sample_rate g) (g_channels g) xs @ audio_to_send out"
    "g_sample_rate g1 = g_sample_rate g" "g_channels g1 = g_channels g" "g_mode g1 = ''active''"
    using gate_inv_step [OF one Cons.prems(2,3)] by blast
  have "xs @ heard_of (c # cs) outs = (xs @ [(pcm, is_speech out)]) @ heard_of cs rest"
    by (simp add: heard_of_def c outs)
  then show ?case
    using Cons.IH [OF run p1(5,1)] p1(2-4) by (auto simp: outs)
qed

lemma gate_inv_new: "gate_inv [] (new_gate det rate ch m) 0"
  by (simp add: gate_inv_def state_inv_def new_gate_def)

text \<open>C33: An active gate forwards exactly the audio worth hearing, once and in the order in which it
  was received: every chunk with speech, the chunks within 300 ms before one, the chunk after
  one and the chunks within 4 s after. What a run sends is thus determined by the verdicts of
  the detector alone; no chunk with speech is lost to the state machine or to the bound on its
  buffer.\<close>

theorem gate_sends_what_is_worth_hearing:
  assumes "gate_run det cs (new_gate det rate channels ''active'') = Some (outs, g)"
  shows "concat (map audio_to_send outs) = worthwhile_audio rate channels (heard_of cs outs)"
proof -
  have start: "g_mode (new_gate det rate channels ''active'') = ''active''" "g_sample_rate (new_gate det rate channels ''active'') = rate"
    "g_channels (new_gate det rate channels ''active'') = channels"
    by (simp_all add: new_gate_def)
  show ?thesis
    using gate_run_worth [OF assms start(1) gate_inv_new] by (auto simp: start worthwhile_audio_def)
qed

lemma gate_sends_what_is_worth_hearing_witness:
  "worthwhile_audio 8 1 (heard_of sample_chunks sample_outs) = low @ loud @ low @ low @ low"
  unfolding gate_sends_what_is_worth_hearing [OF sample_run, symmetric] by (simp add: sample_outs_def)

section \<open>Flushing\<close>

text \<open>What a chunk without speech does to the flush, by state.\<close>

lemma silence_no_flush:
  assumes "update_silence pcm False wall g = (out, g')"
  shows "\<not> should_finalize out \<and> g_state g' = g_state g"
  using assms by (auto simp: update_silence_def Let_def split: prod.splits)

lemma gate_run_frame:
  assumes "process_audio det pcm wall g = (Some out, g')" "g_mode g = ''active''"
  shows "g_mode g' = ''active''" "g_sample_rate g' = g_sample_rate g" "g_channels g' = g_channels g"
proof -
  obtain g1 where g1: "update_state pcm (is_speech out) wall g1 = (out, g')" "g_sample_rate g1 = g_sample_rate g"
    "g_channels g1 = g_channels g" "g_mode g1 = ''active''"
    by (rule process_audio_active [OF assms])
  show "g_mode g' = ''active''" "g_sample_rate g' = g_sample_rate g" "g_channels g' = g_channels g"
    using update_state_frame [OF g1(1)] g1 by simp_all
qed

definition silent_ms :: "'v vad_gate \<Rightarrow> (byte list \<times> rat) list \<Rightarrow> rat" where
  "silent_ms g cs = sum_list (map (\<lambda>c. sample_ms (g_sample_rate g) (g_channels g) (fst c)) cs)"

lemma silent_ms_nonneg: "0 \<le> silent_ms g cs"
  unfolding silent_ms_def by (intro sum_list_nonneg) auto

lemma no_flush_in_silence:
  "gate_run det cs g = Some (outs, g') \<Longrightarrow> g_mode g = ''active'' \<Longrightarrow> g_state g = SILENCE \<Longrightarrow> \<forall>out \<in> set outs. \<not> is_speech out \<Longrightarrow>
    filter should_finalize outs = []"
proof (induction cs arbitrary: g outs)
  case (Cons c cs)
  obtain pcm wall where c: "c = (pcm, wall)" by force
  obtain out rest g1 where outs: "outs = out # rest" and one: "process_audio det pcm wall g = (Some out, g1)"
    and run: "gate_run det cs g1 = Some (rest, g')"
    by (rule gate_run_Cons [OF Cons.prems(1) [unfolded c]])
  obtain g0 where g0: "update_state pcm (is_speech out) wall g0 = (out, g1)" "g_state g0 = g_state g"
    by (rule process_audio_active [OF one Cons.prems(2)])
  have "\<not> should_finalize out \<and> g_state g1 = SILENCE"
    using silence_no_flush [of pcm wall g0 out g1] g0 Cons.prems(3,4) by (simp add: update_state_def outs)
  then show ?case
    using Cons.IH [OF run] gate_run_frame [OF one Cons.prems(2)] Cons.prems(4) by (simp add: outs)
qed simp

lemma flush_in_hangover:
  "gate_run det cs g = Some (outs, g') \<Longrightarrow> g_mode g = ''active'' \<Longrightarrow> g_state g = HANGOVER \<Longrightarrow> \<forall>out \<in> set outs. \<not> is_speech out \<Longrightarrow>
    length (filter should_finalize outs) =
      (if \<not> g_hangover_finalized g \<and> cs \<noteq> [] \<and> VAD_GATE_FINALIZE_SILENCE_MS \<le> g_audio_cursor_ms g - g_last_speech_ms g + silent_ms g cs then 1 else 0)"
proof (induction cs arbitrary: g outs)
  case (Cons c cs)
  obtain pcm wall where c: "c = (pcm, wall)" by force
  obtain out rest g1 where outs: "outs = out # rest" and one: "process_audio det pcm wall g = (Some out, g1)"
    and run: "gate_run det cs g1 = Some (rest, g')"
    by (rule gate_run_Cons [OF Cons.prems(1) [unfolded c]])
  obtain g0 where g0: "update_state pcm (is_speech out) wall g0 = (out, g1)" "g_state g0 = g_state g"
    "g_hangover_finalized g0 = g_hangover_finalized g"
    "g_audio_cursor_ms g0 = g_audio_cursor_ms g + sample_ms (g_sample_rate g) (g_channels g) pcm"
    "g_last_speech_ms g0 = (if is_speech out then g_audio_cursor_ms g0 else g_last_speech_ms g)"
    by (rule process_audio_active [OF one Cons.prems(2)])
  note frame = gate_run_frame [OF one Cons.prems(2)]
  let ?since = "g_audio_cursor_ms g + sample_ms (g_sample_rate g) (g_channels g) pcm - g_last_speech_ms g"
  have quiet: "\<not> is_speech out" "\<forall>out \<in> set rest. \<not> is_speech out" using Cons.prems(4) by (simp_all add: outs)
  have step: "update_hangover pcm False wall g0 = (out, g1)"
    using g0(1,2) quiet(1) Cons.prems(3) by (simp add: update_state_def)
  have total: "g_audio_cursor_ms g - g_last_speech_ms g + silent_ms g (c # cs) = ?since + silent_ms g cs"
    by (simp add: silent_ms_def c)
  show ?case
  proof (cases "VAD_GATE_HANGOVER_MS < ?since")
    case True
    then have "should_finalize out = (\<not> g_hangover_finalized g)" "g_state g1 = SILENCE"
      using step g0 quiet(1) by (auto simp: update_hangover_def Let_def)
    moreover have "VAD_GATE_FINALIZE_SILENCE_MS \<le> ?since + silent_ms g cs"
      using True silent_ms_nonneg [of g cs] by (simp add: VAD_GATE_HANGOVER_MS_def VAD_GATE_FINALIZE_SILENCE_MS_def)
    ultimately show ?thesis
      using no_flush_in_silence [OF run frame(1) _ quiet(2)] total by (simp add: outs)
  next
    case False
    then have g1: "should_finalize out = (\<not> g_hangover_finalized g \<and> VAD_GATE_FINALIZE_SILENCE_MS \<le> ?since)" "g_state g1 = HANGOVER"
      "g_hangover_finalized g1 = (g_hangover_finalized g \<or> VAD_GATE_FINALIZE_SILENCE_MS \<le> ?since)"
      "g_audio_cursor_ms g1 - g_last_speech_ms g1 = ?since"
      using step g0 quiet(1) Cons.prems(3) by (auto simp: update_hangover_def Let_def)
    have ms: "silent_ms g1 cs = silent_ms g cs" using frame by (simp add: silent_ms_def)
    have "VAD_GATE_FINALIZE_SILENCE_MS \<le> ?since \<Longrightarrow> VAD_GATE_FINALIZE_SILENCE_MS \<le> ?since + silent_ms g cs"
      using silent_ms_nonneg [of g cs] by linarith
    moreover have "cs = [] \<Longrightarrow> silent_ms g cs = 0" by (simp add: silent_ms_def)
    ultimately show ?thesis
      using Cons.IH [OF run frame(1) g1(2) quiet(2)] unfolding total g1(3,4) ms by (auto simp: outs g1(1))
  qed
qed simp

text \<open>C34: The recogniser is flushed exactly once in every pause that lasts. After a chunk with speech,
  a stretch of chunks without any makes the gate ask for one flush if it has at least two
  chunks and 300 ms of samples, also when it outlasts the hangover, and for none otherwise. The
  chunk with speech asks for none.\<close>

theorem pause_is_flushed_once:
  assumes "g_mode g = ''active''" "process_audio det pcm wall g = (Some out, g1)" "is_speech out"
    and "gate_run det cs g1 = Some (outs, g2)" "\<forall>out \<in> set outs. \<not> is_speech out"
  shows "\<not> should_finalize out \<and>
    length (filter should_finalize outs) = (if 2 \<le> length cs \<and> VAD_GATE_FINALIZE_SILENCE_MS \<le> silent_ms g cs then 1 else 0)"
proof -
  obtain g0 where g0: "update_state pcm (is_speech out) wall g0 = (out, g1)" "g_audio_cursor_ms g0 = g_last_speech_ms g0"
    by (rule process_audio_active [OF assms(2,1)]) (simp add: assms(3))
  note frame = gate_run_frame [OF assms(2,1)]
  have g1: "\<not> should_finalize out" "g_state g1 = SPEECH" "g_audio_cursor_ms g1 = g_last_speech_ms g1"
    using g0 assms(3) by (auto simp: update_state_def update_silence_def update_speech_def update_hangover_def Let_def
        split: gate_state.splits prod.splits)
  show ?thesis
  proof (cases cs)
    case Nil
    then show ?thesis using assms(4) g1(1) by simp
  next
    case (Cons c rest)
    obtain pcm' wall' where c: "c = (pcm', wall')" by force
    obtain o1 outs' g3 where outs: "outs = o1 # outs'" and one: "process_audio det pcm' wall' g1 = (Some o1, g3)"
      and run: "gate_run det rest g3 = Some (outs', g2)"
      by (rule gate_run_Cons [OF assms(4) [unfolded Cons c]])
    obtain g4 where g4: "update_state pcm' (is_speech o1) wall' g4 = (o1, g3)" "g_state g4 = g_state g1"
      "g_audio_cursor_ms g4 = g_audio_cursor_ms g1 + sample_ms (g_sample_rate g1) (g_channels g1) pcm'"
      "g_last_speech_ms g4 = (if is_speech o1 then g_audio_cursor_ms g4 else g_last_speech_ms g1)"
      by (rule process_audio_active [OF one frame(1)])
    have quiet: "\<not> is_speech o1" "\<forall>out \<in> set outs'. \<not> is_speech out" using assms(5) by (simp_all add: outs)
    have g3: "\<not> should_finalize o1" "g_state g3 = HANGOVER" "\<not> g_hangover_finalized g3"
      "g_audio_cursor_ms g3 - g_last_speech_ms g3 = sample_ms (g_sample_rate g) (g_channels g) pcm'"
      using g4 quiet(1) g1(2,3) frame by (auto simp: update_state_def update_speech_def Let_def)
    note frame' = gate_run_frame [OF one frame(1)]
    have "silent_ms g cs = sample_ms (g_sample_rate g) (g_channels g) pcm' + silent_ms g3 rest"
      using frame frame' by (simp add: silent_ms_def Cons c)
    then show ?thesis
      using flush_in_hangover [OF run frame'(1) g3(2) quiet(2)] g1(1) g3 by (auto simp: outs Cons Suc_le_eq)
  qed
qed


lemma pause_is_flushed_once_witness:
  "\<not> should_finalize (sample_outs ! 3) \<and> length (filter should_finalize (drop 4 sample_outs)) = 1"
proof -
  have "g_mode sample_before = ''active''"
    by (simp add: sample_before_def sample_gate_def)
  moreover have "process_audio sample_detector loud (11 / 8) sample_before = (Some (sample_outs ! 3), sample_onset)"
    by (simp add: sample_before_def sample_onset_def sample_outs_def sample_step_3 del: One_nat_def)
  moreover have "is_speech (sample_outs ! 3)" "\<forall>out \<in> set (drop 4 sample_outs). \<not> is_speech out"
    by (simp_all add: sample_outs_def)
  moreover have "silent_ms sample_before (drop 4 sample_chunks) = 375" "length (drop 4 sample_chunks) = 3"
    by (simp_all add: silent_ms_def sample_chunks_def sample_before_def sample_gate_def sample_ms_def)
  ultimately show ?thesis
    using pause_is_flushed_once [where g = sample_before and pcm = loud and wall = "11 / 8" and out = "sample_outs ! 3", OF _ _ _ sample_pause]
    by (simp add: VAD_GATE_FINALIZE_SILENCE_MS_def)
qed

section \<open>Behind the socket\<close>

text \<open>A detector that never raises never interrupts a run.\<close>

lemma vad_windows_total:
  "(\<And>w st. run_vad_window det w st \<noteq> None) \<Longrightarrow> fst (vad_windows det buffer st speech) \<noteq> None"
proof (induction det buffer st speech rule: vad_windows.induct)
  case (1 det buffer st speech)
  obtain p st' where w: "run_vad_window det (take VAD_WINDOW_SAMPLES buffer) st = Some (p, st')"
    using "1.prems" [of "take VAD_WINDOW_SAMPLES buffer" st] by auto
  show ?case
    using "1.IH" [OF _ w refl "1.prems"] by (subst vad_windows.simps) (simp add: w)
qed

lemma gate_run_total:
  assumes "\<And>w st. run_vad_window det w st \<noteq> None"
  shows "gate_run det cs g \<noteq> None"
proof (induction cs arbitrary: g)
  case (Cons c cs)
  obtain pcm wall where c: "c = (pcm, wall)" by force
  obtain floats g1 where conv: "convert_for_vad det pcm (count_chunk pcm wall g) = (floats, g1)" by force
  obtain v buffer st where win: "vad_windows det (g_vad_buffer g1 @ floats) (g_vad_state g1) False = (v, buffer, st)"
    by (metis prod_cases3)
  have "v \<noteq> None" using vad_windows_total [OF assms, of "g_vad_buffer g1 @ floats" "g_vad_state g1" False] by (simp add: win)
  then have "fst (run_vad det pcm (count_chunk pcm wall g)) \<noteq> None"
    by (simp add: run_vad_def conv win Let_def)
  then have "fst (process_audio det pcm wall g) \<noteq> None"
    by (auto simp: process_audio_def Let_def split: option.splits prod.splits)
  then obtain out g2 where "process_audio det pcm wall g = (Some out, g2)"
    by (cases "process_audio det pcm wall g") auto
  moreover obtain r where "gate_run det cs g2 = Some r" using Cons.IH [of g2] by blast
  ultimately show ?case by (simp add: c)
qed simp

text \<open>A recogniser that records what it is sent: behind the socket it receives exactly what the gate
  lets through, so by the first theorem the audio worth hearing.\<close>

definition recorder :: "byte list stt_socket" where
  "recorder = \<lparr>conn_dead = (\<lambda>_. False), conn_send = (\<lambda>audio heard. (Some True, heard @ audio)), conn_finalize = (\<lambda>heard. (True, heard)),
     conn_finish = (\<lambda>heard. (True, heard))\<rparr>"

lemma socket_send_recorded:
  assumes "process_audio det pcm wall (s_gate s) = (Some out, g)" "s_gated s" "\<not> s_passthrough_audio s" "wall \<noteq> 0"
  shows "socket_send det recorder pcm (Some wall) clock s = (Some True, s\<lparr>s_gate := g, s_conn := s_conn s @ audio_to_send out\<rparr>)"
  using assms by (cases "audio_to_send out = []") (simp_all add: socket_send_def recorder_def conn_step_def time_or_def Let_def)

fun socket_run :: "'v detector \<Rightarrow> (byte list \<times> rat) list \<Rightarrow> ('v, byte list) gated_socket \<Rightarrow> bool option list \<times> ('v, byte list) gated_socket" where
  "socket_run det [] s = ([], s)"
| "socket_run det ((pcm, wall) # cs) s =
     (case socket_send det recorder pcm (Some wall) 0 s of (answer, s') \<Rightarrow>
        case socket_run det cs s' of (answers, s'') \<Rightarrow> (answer # answers, s''))"

lemma socket_forwards_the_gate:
  "gate_run det cs (s_gate s) = Some (outs, g) \<Longrightarrow> s_gated s \<Longrightarrow> \<not> s_passthrough_audio s \<Longrightarrow> \<forall>c \<in> set cs. snd c \<noteq> 0 \<Longrightarrow>
    socket_run det cs s = (map (\<lambda>_. Some True) cs, s\<lparr>s_gate := g, s_conn := s_conn s @ concat (map audio_to_send outs)\<rparr>)"
proof (induction cs arbitrary: s outs)
  case (Cons c cs)
  obtain pcm wall where c: "c = (pcm, wall)" by force
  obtain out rest g1 where outs: "outs = out # rest" and one: "process_audio det pcm wall (s_gate s) = (Some out, g1)"
    and run: "gate_run det cs g1 = Some (rest, g)"
    by (rule gate_run_Cons [OF Cons.prems(1) [unfolded c]])
  have "wall \<noteq> 0" using Cons.prems(4) by (simp add: c)
  from socket_send_recorded [OF one Cons.prems(2,3) this]
  show ?case
    using Cons.IH [of "s\<lparr>s_gate := g1, s_conn := s_conn s @ audio_to_send out\<rparr>" rest] run Cons.prems(2-4)
    by (simp add: c outs)
qed simp

text \<open>When the detector raises, the socket sends the chunk at hand and stops gating; what waited in the
  pre-roll stays there.\<close>

lemma detector_failure_keeps_the_pre_roll:
  assumes "process_audio det pcm wall (s_gate s) = (None, g)" "s_gated s" "wall \<noteq> 0"
  shows "socket_send det recorder pcm (Some wall) clock s =
      (Some True, s\<lparr>s_gate := g\<lparr>g_mode := ''off''\<rparr>, s_gated := False, s_conn := s_conn s @ pcm\<rparr>)"
    and "g_pre_roll g = g_pre_roll (s_gate s)"
proof -
  show "socket_send det recorder pcm (Some wall) clock s =
      (Some True, s\<lparr>s_gate := g\<lparr>g_mode := ''off''\<rparr>, s_gated := False, s_conn := s_conn s @ pcm\<rparr>)"
    using assms by (simp add: socket_send_def recorder_def conn_step_def time_or_def Let_def)
  obtain v g0 where vad: "run_vad det pcm (count_chunk pcm wall (s_gate s)) = (v, g0)" by force
  then obtain b r st where "g0 = (count_chunk pcm wall (s_gate s))\<lparr>g_vad_buffer := b, g_pcm_remainder := r, g_vad_state := st\<rparr>"
    by (rule run_vad_frame)
  moreover have "g0 = g"
    using assms(1) vad by (auto simp: process_audio_def Let_def split: option.splits prod.splits if_splits)
  ultimately show "g_pre_roll g = g_pre_roll (s_gate s)" by (simp add: count_chunk_def)
qed

end
