(* ===== verification/Vad_Clock.thy ===== *)
theory Vad_Clock
  imports Vad_Theorems
begin

text \<open>
  The clock of the speech gate: looking up a recogniser's time, the checkpoints a gate keeps, and
  the theorem that the times of a stream in real time are mapped back exactly.
\<close>

section \<open>Looking up a time\<close>

definition lookup :: "(rat \<times> rat) list \<Rightarrow> rat \<Rightarrow> rat" where
  "lookup cps x = (case cps ! (length (takeWhile (\<lambda>d. d \<le> x) (map fst cps)) - 1) of (cp_dg, cp_wall) \<Rightarrow> cp_wall + (x - cp_dg))"

lemma nth_takeWhile_le:
  fixes xs :: "rat list"
  assumes "sorted xs" "k < length xs"
  shows "x < xs ! k \<longleftrightarrow> length (takeWhile (\<lambda>d. d \<le> x) xs) \<le> k"
proof
  assume less: "x < xs ! k"
  show "length (takeWhile (\<lambda>d. d \<le> x) xs) \<le> k"
  proof (rule ccontr)
    assume "\<not> length (takeWhile (\<lambda>d. d \<le> x) xs) \<le> k"
    then have "xs ! k \<in> set (takeWhile (\<lambda>d. d \<le> x) xs)"
      by (metis not_le nth_mem takeWhile_nth)
    then have "xs ! k \<le> x" by (auto dest: set_takeWhileD)
    then show False using less by simp
  qed
next
  let ?r = "length (takeWhile (\<lambda>d. d \<le> x) xs)"
  assume r: "?r \<le> k"
  then have "\<not> xs ! ?r \<le> x" using assms(2) nth_length_takeWhile [of "\<lambda>d. d \<le> x" xs] by simp
  moreover have "xs ! ?r \<le> xs ! k" using assms r by (simp add: sorted_nth_mono)
  ultimately show "x < xs ! k" by simp
qed

lemma bisect_right_eq:
  "sorted xs \<Longrightarrow> lo \<le> length (takeWhile (\<lambda>d. d \<le> x) xs) \<Longrightarrow> length (takeWhile (\<lambda>d. d \<le> x) xs) \<le> hi \<Longrightarrow> hi \<le> length xs \<Longrightarrow>
    bisect_right xs x lo hi = length (takeWhile (\<lambda>d. d \<le> x) xs)"
proof (induction xs x lo hi rule: bisect_right.induct)
  case (1 xs x lo hi)
  show ?case
  proof (cases "lo < hi")
    case True
    let ?mid = "(lo + hi) div 2"
    have mid: "lo \<le> ?mid" "?mid < hi" "?mid < length xs" using True 1(6) by linarith+
    note turn = nth_takeWhile_le [OF 1(3) mid(3), of x]
    show ?thesis
    proof (cases "x < xs ! ?mid")
      case less: True
      then have "bisect_right xs x lo hi = bisect_right xs x lo ?mid"
        using True by (subst bisect_right.simps) (simp add: Let_def)
      then show ?thesis
        using 1(1) [OF True refl less 1(3,4)] turn less mid 1(6) by simp
    next
      case more: False
      then have "bisect_right xs x lo hi = bisect_right xs x (Suc ?mid) hi"
        using True by (subst bisect_right.simps) (simp add: Let_def)
      then show ?thesis
        using 1(2) [OF True refl more 1(3) _ 1(5,6)] turn more by simp
    qed
  next
    case False
    then show ?thesis using 1(4,5) by (subst bisect_right.simps) simp
  qed
qed

lemma dg_to_wall_rel_lookup:
  assumes "sorted (map fst (checkpoints m))" "checkpoints m \<noteq> []"
  shows "dg_to_wall_rel m x = lookup (checkpoints m) x"
  using bisect_right_eq [OF assms(1), of 0 x "length (checkpoints m)"] assms(2) length_takeWhile_le [of "\<lambda>d. d \<le> x" "map fst (checkpoints m)"]
  by (simp add: dg_to_wall_rel_def lookup_def Let_def)

text \<open>A further checkpoint moves no time before it; from the last checkpoint on, times run in step.\<close>

lemma lookup_before:
  assumes "x < d" "cps \<noteq> []"
  shows "lookup (cps @ [(d, w)]) x = lookup cps x"
proof -
  have "takeWhile (\<lambda>d. d \<le> x) (map fst cps @ [d]) = takeWhile (\<lambda>d. d \<le> x) (map fst cps)"
    using assms(1) by (simp add: takeWhile_tail)
  moreover have "length (takeWhile (\<lambda>d. d \<le> x) (map fst cps)) - 1 < length cps"
    using length_takeWhile_le [of "\<lambda>d. d \<le> x" "map fst cps"] assms(2) by (cases cps) auto
  ultimately show ?thesis by (simp add: lookup_def nth_append)
qed

lemma lookup_last:
  assumes "sorted (map fst (cps @ [(d, w)]))" "d \<le> x"
  shows "lookup (cps @ [(d, w)]) x = w + (x - d)"
proof -
  have "takeWhile (\<lambda>d. d \<le> x) (map fst (cps @ [(d, w)])) = map fst (cps @ [(d, w)])"
    using assms by (auto simp: takeWhile_eq_all_conv sorted_append)
  then have "length (takeWhile (\<lambda>d. d \<le> x) (map fst (cps @ [(d, w)]))) = Suc (length cps)"
    by (metis length_append_singleton length_map)
  then show ?thesis unfolding lookup_def by (simp only: diff_Suc_1 nth_append_length prod.case)
qed

section \<open>The audio sent so far\<close>

definition sent_ms :: "nat \<Rightarrow> nat \<Rightarrow> heard \<Rightarrow> nat \<Rightarrow> rat" where
  "sent_ms rate channels xs i = sum_list (map (\<lambda>j. pcm_ms rate channels (fst (xs ! j))) (filter (worth_hearing rate channels xs) [0..<i]))"

lemma sent_ms_Suc: "sent_ms rate ch xs (Suc i) = sent_ms rate ch xs i + (if worth_hearing rate ch xs i then pcm_ms rate ch (fst (xs ! i)) else 0)"
  by (simp add: sent_ms_def)

lemma sent_ms_0 [simp]: "sent_ms rate ch xs 0 = 0"
  by (simp add: sent_ms_def)

lemma sent_ms_mono: "i \<le> k \<Longrightarrow> sent_ms rate ch xs i \<le> sent_ms rate ch xs k"
  by (induction k rule: dec_induct) (auto simp: sent_ms_Suc intro: add_increasing2)

lemma sent_ms_old:
  assumes "i \<le> length xs" "\<And>j. j < i \<Longrightarrow> worth_hearing rate ch (xs @ ys) j = worth_hearing rate ch xs j"
  shows "sent_ms rate ch (xs @ ys) i = sent_ms rate ch xs i"
  using assms by (induction i) (simp_all add: sent_ms_Suc nth_append)

lemma sent_ms_none:
  assumes "\<And>j. q \<le> j \<Longrightarrow> j < k \<Longrightarrow> \<not> worth_hearing rate ch xs j" "q \<le> k"
  shows "sent_ms rate ch xs k = sent_ms rate ch xs q"
  using assms(2,1) by (induction k rule: dec_induct) (simp_all add: sent_ms_Suc)

lemma sent_ms_all:
  assumes "\<And>j. q \<le> j \<Longrightarrow> j < k \<Longrightarrow> worth_hearing rate ch xs j" "q \<le> k" "k \<le> length xs"
  shows "sent_ms rate ch xs k = sent_ms rate ch xs q + (upto (pcm_ms rate ch) xs k - upto (pcm_ms rate ch) xs q)"
  using assms(2,1,3) by (induction k rule: dec_induct) (simp_all add: sent_ms_Suc upto_Suc)

section \<open>The checkpoints of a gate\<close>

text \<open>After the chunks \<open>xs\<close>, in milliseconds on the right: the cursor is the audio sent; the last
  checkpoint leads to the present while audio is sent, and not past the pre-roll while it is
  held back; and what was sent is mapped to when it was received.\<close>

definition clock_inv :: "heard \<Rightarrow> 'v vad_gate \<Rightarrow> bool" where
  "clock_inv xs g \<longleftrightarrow>
     (let rate = g_sample_rate g; ch = g_channels g; m = g_mapper g; cps = checkpoints m; now = ms_upto g xs (length xs) in
      provider_cursor_sec m * 1000 = sent_ms rate ch xs (length xs) \<and>
      sending m = (g_state g \<noteq> SILENCE) \<and>
      sorted (map fst cps @ [provider_cursor_sec m]) \<and>
      (cps = [] \<longrightarrow> g_state g = SILENCE \<and> (\<forall>i < length xs. \<not> worth g xs i)) \<and>
      (cps \<noteq> [] \<longrightarrow> (case last cps of (d, w) \<Rightarrow>
         if g_state g = SILENCE then (w + (provider_cursor_sec m - d)) * 1000 \<le> ms_upto g xs (length xs - length (g_pre_roll g))
         else (w + (provider_cursor_sec m - d)) * 1000 = now)) \<and>
      (\<forall>i < length xs. worth g xs i \<longrightarrow> (\<forall>t. 0 \<le> t \<and> t * 1000 < pcm_ms rate ch (fst (xs ! i)) \<longrightarrow>
         lookup cps (sent_ms rate ch xs i / 1000 + t) = ms_upto g xs i / 1000 + t)))"

text \<open>Audio that follows what was just sent: no checkpoint is added.\<close>

lemma clock_inv_sent:
  assumes inv: "clock_inv xs g" and busy: "g_state g \<noteq> SILENCE"
    and worth: "worth g (xs @ [(pcm, speech)]) (length xs)"
    and old: "\<And>i. i < length xs \<Longrightarrow> worth g (xs @ [(pcm, speech)]) i = worth g xs i"
    and frame: "g_sample_rate g' = g_sample_rate g" "g_channels g' = g_channels g" "g_state g' \<noteq> SILENCE"
    and mapper: "g_mapper g' = (g_mapper g)\<lparr>provider_cursor_sec := provider_cursor_sec (g_mapper g) + chunk_sec g pcm\<rparr>"
  shows "clock_inv (xs @ [(pcm, speech)]) g'"
proof -
  let ?rate = "g_sample_rate g" and ?ch = "g_channels g" and ?cps = "checkpoints (g_mapper g)" and ?ys = "xs @ [(pcm, speech)]"
  let ?cursor = "provider_cursor_sec (g_mapper g)"
  have facts: "?cursor * 1000 = sent_ms ?rate ?ch xs (length xs)" "sorted (map fst ?cps @ [?cursor])" "?cps \<noteq> []" "sending (g_mapper g)"
    "(case last ?cps of (d, w) \<Rightarrow> (w + (?cursor - d)) * 1000 = ms_upto g xs (length xs))"
    "\<And>i t. i < length xs \<Longrightarrow> worth g xs i \<Longrightarrow> 0 \<le> t \<Longrightarrow> t * 1000 < pcm_ms ?rate ?ch (fst (xs ! i)) \<Longrightarrow>
       lookup ?cps (sent_ms ?rate ?ch xs i / 1000 + t) = ms_upto g xs i / 1000 + t"
    using inv busy by (auto simp: clock_inv_def Let_def)
  obtain cps d w where cps: "?cps = cps @ [(d, w)]" using facts(3) by (metis append_butlast_last_id surj_pair)
  have sent: "sent_ms ?rate ?ch ?ys i = sent_ms ?rate ?ch xs i" if "i \<le> length xs" for i
    using that old by (intro sent_ms_old) auto
  have now: "(w + (?cursor - d)) * 1000 = ms_upto g xs (length xs)" using facts(5) by (simp add: cps)
  have sec: "chunk_sec g pcm * 1000 = pcm_ms ?rate ?ch pcm" by (rule chunk_sec_eq)
  have sec0: "0 \<le> chunk_sec g pcm" by (simp add: chunk_sec_def)
  have "lookup ?cps (sent_ms ?rate ?ch ?ys i / 1000 + t) = ms_upto g ?ys i / 1000 + t"
    if "i < Suc (length xs)" "worth g ?ys i" "0 \<le> t" "t * 1000 < pcm_ms ?rate ?ch (fst (?ys ! i))" for i t
  proof (cases "i = length xs")
    case True
    have "d \<le> ?cursor + t" using facts(2) that(3) by (simp add: cps sorted_append)
    moreover have "sorted (map fst (cps @ [(d, w)]))" using facts(2) by (simp add: cps sorted_append)
    ultimately have "lookup ?cps (?cursor + t) = w + (?cursor + t - d)" unfolding cps by (intro lookup_last)
    moreover have "sent_ms ?rate ?ch ?ys i / 1000 = ?cursor" "ms_upto g ?ys i / 1000 = w + (?cursor - d)"
      using True facts(1) now sent by auto
    ultimately show ?thesis by simp
  next
    case False
    then have "i < length xs" using that(1) by simp
    then show ?thesis using that old facts(6) sent by (simp add: nth_append)
  qed
  moreover have "sorted (map fst ?cps @ [?cursor + chunk_sec g pcm])"
    using facts(2) sec0 by (auto simp: sorted_append intro: order_trans)
  moreover have "(?cursor + chunk_sec g pcm) * 1000 = sent_ms ?rate ?ch ?ys (Suc (length xs))"
    using facts(1) sec worth sent by (simp add: sent_ms_Suc distrib_right)
  moreover have "(w + (?cursor + chunk_sec g pcm - d)) * 1000 = ms_upto g xs (length xs) + pcm_ms ?rate ?ch pcm"
    using now sec by (simp add: algebra_simps)
  ultimately show ?thesis
    using facts(3,4) frame by (simp add: clock_inv_def Let_def mapper cps)
qed

text \<open>Nothing is sent: the chunk is held back.\<close>

lemma clock_inv_held:
  assumes inv: "clock_inv xs g"
    and silent: "\<not> worth g (xs @ [(pcm, False)]) (length xs)"
    and old: "\<And>i. i < length xs \<Longrightarrow> worth g (xs @ [(pcm, False)]) i = worth g xs i"
    and frame: "g_sample_rate g' = g_sample_rate g" "g_channels g' = g_channels g" "g_state g' = SILENCE"
    and mapper: "g_mapper g' = on_silence_skipped (g_mapper g)"
    and roll: "(if g_state g = SILENCE then length xs - length (g_pre_roll g) else length xs) \<le> Suc (length xs) - length (g_pre_roll g')"
  shows "clock_inv (xs @ [(pcm, False)]) g'"
proof -
  let ?rate = "g_sample_rate g" and ?ch = "g_channels g" and ?cps = "checkpoints (g_mapper g)" and ?ys = "xs @ [(pcm, False)]"
  let ?cursor = "provider_cursor_sec (g_mapper g)"
  have facts: "?cursor * 1000 = sent_ms ?rate ?ch xs (length xs)" "sorted (map fst ?cps @ [?cursor])"
    "?cps = [] \<Longrightarrow> \<forall>i < length xs. \<not> worth g xs i"
    "\<And>i t. i < length xs \<Longrightarrow> worth g xs i \<Longrightarrow> 0 \<le> t \<Longrightarrow> t * 1000 < pcm_ms ?rate ?ch (fst (xs ! i)) \<Longrightarrow>
       lookup ?cps (sent_ms ?rate ?ch xs i / 1000 + t) = ms_upto g xs i / 1000 + t"
    using inv by (auto simp: clock_inv_def Let_def)
  let ?p = "if g_state g = SILENCE then length xs - length (g_pre_roll g) else length xs"
  have bound: "case last ?cps of (d, w) \<Rightarrow> (w + (?cursor - d)) * 1000 \<le> ms_upto g xs ?p" if "?cps \<noteq> []"
    using inv that by (auto simp: clock_inv_def Let_def split: if_splits)
  have "ms_upto g ?ys ?p \<le> ms_upto g ?ys (Suc (length xs) - length (g_pre_roll g'))"
    using roll by (rule upto_mono [OF pcm_ms_nonneg])
  moreover have "ms_upto g ?ys ?p = ms_upto g xs ?p" by (intro upto_append) simp
  ultimately have bound': "case last ?cps of (d, w) \<Rightarrow> (w + (?cursor - d)) * 1000 \<le> ms_upto g ?ys (Suc (length xs) - length (g_pre_roll g'))"
    if "?cps \<noteq> []"
    using bound [OF that] by (cases "last ?cps") (simp only: prod.case)
  have sent: "sent_ms ?rate ?ch ?ys i = sent_ms ?rate ?ch xs i" if "i \<le> length xs" for i
    using that old by (intro sent_ms_old) auto
  have worth: "worth g ?ys i \<longleftrightarrow> i \<noteq> length xs \<and> worth g xs i" if "i < Suc (length xs)" for i
    using that silent old by (cases "i = length xs") auto
  have mapped: "lookup ?cps (sent_ms ?rate ?ch ?ys i / 1000 + t) = ms_upto g ?ys i / 1000 + t"
    if "i < Suc (length xs)" "worth g ?ys i" "0 \<le> t" "t * 1000 < pcm_ms ?rate ?ch (fst (?ys ! i))" for i t
  proof -
    have "i < length xs" "worth g xs i" using worth that(1,2) by (auto simp: less_Suc_eq)
    then show ?thesis using that facts(4) sent by (simp add: nth_append)
  qed
  have sent': "sent_ms ?rate ?ch ?ys (Suc (length xs)) = sent_ms ?rate ?ch xs (length xs)"
    using silent sent by (simp add: sent_ms_Suc)
  have none: "\<not> worth g ?ys i" if "?cps = []" "i < Suc (length xs)" for i
    using worth [OF that(2)] facts(3) [OF that(1)] that(2) by (auto simp: less_Suc_eq)
  show ?thesis
    using facts(1,2) sent' none bound' mapped
    by (simp add: clock_inv_def Let_def mapper on_silence_skipped_def frame)
qed

text \<open>The pre-roll is sent with the chunk that brings speech, under a new checkpoint.\<close>

lemma chunk_sec_concat:
  assumes "q \<le> length ys"
  shows "chunk_sec g (concat (map fst (drop q ys))) * 1000 = ms_upto g ys (length ys) - ms_upto g ys q"
proof -
  have "of_nat (length (concat (map fst zs))) / k * (1000::rat) = sum_list (map (\<lambda>z. of_nat (length (fst z)) / k * 1000) zs)" for zs :: heard and k
    by (induction zs) (simp_all add: add_divide_distrib distrib_right)
  moreover have "sum_list (map f ys) = sum_list (map f (take q ys)) + sum_list (map f (drop q ys))" for f :: "byte list \<times> bool \<Rightarrow> rat"
    unfolding sum_list_append [symmetric] map_append [symmetric] append_take_drop_id ..
  then have "ms_upto g ys (length ys) = ms_upto g ys q + sum_list (map (\<lambda>z. pcm_ms (g_sample_rate g) (g_channels g) (fst z)) (drop q ys))"
    by (simp add: upto_def)
  ultimately show ?thesis by (simp add: chunk_sec_def pcm_ms_def)
qed

lemma not_compacted:
  assumes "length (compact_checkpoints cps) < MAX_CHECKPOINTS"
  shows "compact_checkpoints cps = cps"
  using assms by (auto simp: compact_checkpoints_def MAX_CHECKPOINTS_def)

lemma clock_inv_onset:
  assumes inv: "clock_inv xs g" and silence: "g_state g = SILENCE"
    and q: "length xs - length (g_pre_roll g) \<le> q" "q \<le> length xs"
    and old: "\<And>i. i < q \<Longrightarrow> worth g (xs @ [(pcm, True)]) i = worth g xs i"
    and new: "\<And>i. q \<le> i \<Longrightarrow> i \<le> length xs \<Longrightarrow> worth g (xs @ [(pcm, True)]) i"
    and silent: "\<And>i. q \<le> i \<Longrightarrow> i < length xs \<Longrightarrow> \<not> worth g xs i"
    and frame: "g_sample_rate g' = g_sample_rate g" "g_channels g' = g_channels g" "g_state g' = SPEECH"
    and mapper: "g_mapper g' = on_audio_sent (chunk_sec g (concat (map fst (drop q (xs @ [(pcm, True)])))))
        (max 0 (ms_upto g xs (length xs) / 1000 - chunk_sec g (concat (map fst (drop q (xs @ [(pcm, True)])))) + chunk_sec g pcm)) (g_mapper g)"
    and few: "length (checkpoints (g_mapper g')) < MAX_CHECKPOINTS"
  shows "clock_inv (xs @ [(pcm, True)]) g'"
proof -
  let ?rate = "g_sample_rate g" and ?ch = "g_channels g" and ?cps = "checkpoints (g_mapper g)" and ?ys = "xs @ [(pcm, True)]"
  let ?cursor = "provider_cursor_sec (g_mapper g)"
  define w where "w = ms_upto g ?ys q / 1000"
  let ?sec = "chunk_sec g (concat (map fst (drop q ?ys)))"
  have facts: "?cursor * 1000 = sent_ms ?rate ?ch xs (length xs)" "sorted (map fst ?cps @ [?cursor])" "\<not> sending (g_mapper g)"
    "?cps = [] \<Longrightarrow> \<forall>i < length xs. \<not> worth g xs i"
    "?cps \<noteq> [] \<Longrightarrow> (case last ?cps of (d, v) \<Rightarrow> (v + (?cursor - d)) * 1000 \<le> ms_upto g xs (length xs - length (g_pre_roll g)))"
    "\<And>i t. i < length xs \<Longrightarrow> worth g xs i \<Longrightarrow> 0 \<le> t \<Longrightarrow> t * 1000 < pcm_ms ?rate ?ch (fst (xs ! i)) \<Longrightarrow>
       lookup ?cps (sent_ms ?rate ?ch xs i / 1000 + t) = ms_upto g xs i / 1000 + t"
    using inv silence by (auto simp: clock_inv_def Let_def)
  have q': "ms_upto g ?ys q = ms_upto g xs q" using q(2) by simp
  have sec: "?sec * 1000 = ms_upto g xs (length xs) + pcm_ms ?rate ?ch pcm - ms_upto g xs q"
    using chunk_sec_concat [of q ?ys g] q(2) by simp
  have pcm: "chunk_sec g pcm * 1000 = pcm_ms ?rate ?ch pcm" by (rule chunk_sec_eq)
  have "0 \<le> ms_upto g xs q" using upto_mono [of "pcm_ms ?rate ?ch" 0 q xs] by simp
  then have wall: "max 0 (ms_upto g xs (length xs) / 1000 - ?sec + chunk_sec g pcm) = w"
    using sec pcm q' by (simp add: w_def max_def field_simps)
  have "checkpoint_wall (g_mapper g) w = w"
  proof (cases "?cps = []")
    case False
    obtain d v where last: "last ?cps = (d, v)" by force
    have "ms_upto g xs (length xs - length (g_pre_roll g)) \<le> ms_upto g xs q" using q(1) by (rule upto_mono [OF pcm_ms_nonneg])
    then have "v + (?cursor - d) \<le> w" using facts(5) [OF False] q' by (simp add: last w_def)
    then show ?thesis by (simp add: checkpoint_wall_def last)
  qed (simp add: checkpoint_wall_def)
  then have "g_mapper g' = (g_mapper g)\<lparr>checkpoints := compact_checkpoints (?cps @ [(?cursor, w)]), sending := True, provider_cursor_sec := ?cursor + ?sec\<rparr>"
    using facts(3) unfolding mapper wall by (simp add: on_audio_sent_def Let_def)
  then have cps: "checkpoints (g_mapper g') = ?cps @ [(?cursor, w)]" "provider_cursor_sec (g_mapper g') = ?cursor + ?sec" "sending (g_mapper g')"
    using few not_compacted [of "?cps @ [(?cursor, w)]"] by simp_all
  have sorted: "sorted (map fst (?cps @ [(?cursor, w)]))" using facts(2) by simp
  have sent_old: "sent_ms ?rate ?ch ?ys i = sent_ms ?rate ?ch xs i" if "i \<le> q" for i
    using that q(2) old by (intro sent_ms_old) auto
  have "sent_ms ?rate ?ch xs (length xs) = sent_ms ?rate ?ch xs q"
    using silent q(2) by (intro sent_ms_none) auto
  then have at_q: "sent_ms ?rate ?ch ?ys q = ?cursor * 1000" using sent_old facts(1) by simp
  have sent_new: "sent_ms ?rate ?ch ?ys i = ?cursor * 1000 + (ms_upto g ?ys i - ms_upto g ?ys q)" if "q \<le> i" "i \<le> Suc (length xs)" for i
    using sent_ms_all [of q i ?rate ?ch ?ys] that new by (simp add: at_q)
  have mapped: "lookup (?cps @ [(?cursor, w)]) (sent_ms ?rate ?ch ?ys i / 1000 + t) = ms_upto g ?ys i / 1000 + t"
    if i: "i < Suc (length xs)" "worth g ?ys i" "0 \<le> t" "t * 1000 < pcm_ms ?rate ?ch (fst (?ys ! i))" for i t
  proof (cases "i < q")
    case True
    then have i': "i < length xs" "worth g xs i" using q(2) old i(2) by simp_all
    have "sent_ms ?rate ?ch xs (Suc i) \<le> sent_ms ?rate ?ch xs q" using True by (intro sent_ms_mono) simp
    then have "sent_ms ?rate ?ch xs i + pcm_ms ?rate ?ch (fst (xs ! i)) \<le> ?cursor * 1000"
      using i'(2) at_q sent_old by (simp add: sent_ms_Suc)
    then have "sent_ms ?rate ?ch xs i / 1000 + t < ?cursor"
      using i(4) i'(1) by (simp add: nth_append field_simps)
    then have "lookup (?cps @ [(?cursor, w)]) (sent_ms ?rate ?ch xs i / 1000 + t) = lookup ?cps (sent_ms ?rate ?ch xs i / 1000 + t)"
      using facts(4) i' by (intro lookup_before) auto
    then show ?thesis
      using facts(6) [OF i' i(3)] i(4) i'(1) sent_old [of i] True by (simp add: nth_append)
  next
    case False
    have "ms_upto g ?ys q \<le> ms_upto g ?ys i" using False by (intro upto_mono) simp_all
    then have x: "sent_ms ?rate ?ch ?ys i / 1000 + t = ?cursor + (ms_upto g ?ys i - ms_upto g ?ys q) / 1000 + t" "?cursor \<le> sent_ms ?rate ?ch ?ys i / 1000 + t"
      using sent_new [of i] False i by (simp_all add: add_divide_distrib)
    have "lookup (?cps @ [(?cursor, w)]) (sent_ms ?rate ?ch ?ys i / 1000 + t) = w + (sent_ms ?rate ?ch ?ys i / 1000 + t - ?cursor)"
      by (rule lookup_last [OF sorted x(2)])
    also have "\<dots> = ms_upto g ?ys i / 1000 + t"
      unfolding x(1) by (simp add: w_def diff_divide_distrib)
    finally show ?thesis .
  qed
  have "(?cursor + ?sec) * 1000 = sent_ms ?rate ?ch ?ys (Suc (length xs))"
    using sent_new [of "Suc (length xs)"] q(2) sec by (simp add: distrib_right)
  moreover have "sorted (map fst (?cps @ [(?cursor, w)]) @ [?cursor + ?sec])"
    using sorted facts(2) by (auto simp: sorted_append chunk_sec_def intro: order_trans add_increasing2)
  moreover have "(w + ?sec) * 1000 = ms_upto g ?ys (Suc (length xs))"
    using sec q' by (simp add: w_def distrib_right)
  ultimately show ?thesis
    using mapped frame cps by (simp add: clock_inv_def Let_def)
qed

section \<open>A stream in real time\<close>

lemma forward_mapper: "g_mapper (forward a w t g) = on_audio_sent (chunk_sec g a) w (g_mapper g)"
  by (simp add: forward_def)

lemma on_audio_sent_sending:
  "sending m \<Longrightarrow> on_audio_sent d w m = m\<lparr>provider_cursor_sec := provider_cursor_sec m + d\<rparr>"
  by (simp add: on_audio_sent_def)

lemma checkpoints_grow:
  "length (checkpoints m) \<le> MAX_CHECKPOINTS \<Longrightarrow> length (checkpoints m) \<le> length (checkpoints (on_audio_sent d w m)) \<and>
    length (checkpoints (on_audio_sent d w m)) \<le> MAX_CHECKPOINTS"
  by (auto simp: on_audio_sent_def compact_checkpoints_def MAX_CHECKPOINTS_def Let_def)

lemma update_state_checkpoints:
  assumes "update_state pcm speech wall g = (out, g')" "length (checkpoints (g_mapper g)) \<le> MAX_CHECKPOINTS"
  shows "length (checkpoints (g_mapper g)) \<le> length (checkpoints (g_mapper g')) \<and> length (checkpoints (g_mapper g')) \<le> MAX_CHECKPOINTS"
  using assms checkpoints_grow [OF assms(2)]
  by (auto simp: update_state_def update_silence_def update_speech_def update_hangover_def Let_def forward_mapper on_silence_skipped_def
      split: gate_state.splits prod.splits if_splits)

text \<open>The clock through one chunk, by state.\<close>

lemma clock_inv_silence:
  assumes inv: "gate_inv xs g p" and clock: "clock_inv xs g" and c: "counted xs pcm speech g g1" and silence: "g_state g = SILENCE"
    and step: "update_silence pcm speech wall g1 = (out, g')" and mapper: "g_mapper g1 = g_mapper g"
    and rel: "wall_rel g1 wall = ms_upto g xs (length xs) / 1000"
    and few: "length (checkpoints (g_mapper g')) < MAX_CHECKPOINTS"
  shows "clock_inv (xs @ [(pcm, speech)]) g'"
proof -
  have p: "p = length xs - length (g_pre_roll g)" using inv by (auto simp: gate_inv_def)
  have sec: "chunk_sec g1 a = chunk_sec g a" for a using c by (simp add: chunk_sec_def counted_def)
  show ?thesis
  proof (cases speech)
    case True
    have c': "counted xs pcm True g g1" using c True by simp
    obtain q where q: "p \<le> q" "q \<le> length xs"
      "evict g1 (g_pre_roll g1 @ [pcm]) (g_pre_roll_total_ms g1 + chunk_sec g1 pcm * 1000) =
         (map fst (drop q (xs @ [(pcm, True)])), ms_upto g (xs @ [(pcm, True)]) (Suc (length xs)) - ms_upto g (xs @ [(pcm, True)]) q)"
      "\<And>i. p \<le> i \<Longrightarrow> i < q \<Longrightarrow> VAD_GATE_PRE_ROLL_MS < ms_upto g (xs @ [(pcm, True)]) (Suc (length xs)) - ms_upto g (xs @ [(pcm, True)]) i"
      "q = length xs \<or> ms_upto g (xs @ [(pcm, True)]) (Suc (length xs)) - ms_upto g (xs @ [(pcm, True)]) q \<le> VAD_GATE_PRE_ROLL_MS"
      using evicted [OF inv c'] by blast
    note facts = silence_speech_step [OF inv c' q(1,2) q(4,5)]
    have silent: "\<not> worth g xs i" if "q \<le> i" "i < length xs" for i
      using inv that q(1) by (simp add: gate_inv_def)
    have "g' = forward (concat (map fst (drop q (xs @ [(pcm, True)]))))
        (max 0 (ms_upto g xs (length xs) / 1000 - chunk_sec g (concat (map fst (drop q (xs @ [(pcm, True)])))) + chunk_sec g pcm)) wall
        (g1\<lparr>g_state := SPEECH, g_pre_roll := [], g_pre_roll_total_ms := 0\<rparr>)"
      using step True unfolding update_silence_def q(3) by (simp add: Let_def rel sec)
    then have g': "g_sample_rate g' = g_sample_rate g" "g_channels g' = g_channels g" "g_state g' = SPEECH"
      "g_mapper g' = on_audio_sent (chunk_sec g (concat (map fst (drop q (xs @ [(pcm, True)])))))
        (max 0 (ms_upto g xs (length xs) / 1000 - chunk_sec g (concat (map fst (drop q (xs @ [(pcm, True)])))) + chunk_sec g pcm)) (g_mapper g)"
      using c' mapper by (simp_all del: drop_append concat_append map_append add: forward_mapper counted_def) (simp_all add: chunk_sec_def)
    show ?thesis
      using clock_inv_onset [OF clock silence q(1) [unfolded p] q(2) facts(1,2) silent g' few] True by simp
  next
    case False
    have c': "counted xs pcm False g g1" using c False by simp
    obtain q where q: "p \<le> q" "q \<le> length xs"
      "evict g1 (g_pre_roll g1 @ [pcm]) (g_pre_roll_total_ms g1 + chunk_sec g1 pcm * 1000) =
         (map fst (drop q (xs @ [(pcm, False)])), ms_upto g (xs @ [(pcm, False)]) (Suc (length xs)) - ms_upto g (xs @ [(pcm, False)]) q)"
      using evicted [OF inv c'] by blast
    have g': "g_sample_rate g' = g_sample_rate g" "g_channels g' = g_channels g" "g_state g' = SILENCE"
      "g_mapper g' = on_silence_skipped (g_mapper g)" "length (g_pre_roll g') = Suc (length xs) - q"
      using step c' False silence mapper q(2) unfolding update_silence_def q(3) by (auto simp: counted_def)
    note held = silent_now [OF quiet_in_silence [OF inv silence]]
    have "clock_inv (xs @ [(pcm, False)]) g'"
      using held(2) q(1,2) by (intro clock_inv_held [OF clock held(1) _ g'(1-4)]) (simp_all add: g'(5) silence p)
    then show ?thesis using False by simp
  qed
qed

lemma clock_inv_busy:
  assumes inv: "gate_inv xs g p" and clock: "clock_inv xs g" and c: "counted xs pcm speech g g1" and busy: "g_state g \<noteq> SILENCE"
    and worth: "worth g (xs @ [(pcm, speech)]) (length xs)" and mapper: "g_mapper g1 = g_mapper g"
    and g': "g_sample_rate g' = g_sample_rate g" "g_channels g' = g_channels g" "g_state g' \<noteq> SILENCE"
      "g_mapper g' = on_audio_sent (chunk_sec g1 pcm) w (g_mapper g1)"
  shows "clock_inv (xs @ [(pcm, speech)]) g'"
proof -
  have reach: "worth g xs i" if "i < length xs" "ms_upto g xs (length xs) - ms_upto g xs i \<le> VAD_GATE_PRE_ROLL_MS" for i
    using inv busy that by (simp add: gate_inv_def)
  have "sending (g_mapper g)" using clock busy by (simp add: clock_inv_def Let_def)
  then have "g_mapper g' = (g_mapper g)\<lparr>provider_cursor_sec := provider_cursor_sec (g_mapper g) + chunk_sec g pcm\<rparr>"
    using c by (simp add: g' mapper on_audio_sent_sending counted_def chunk_sec_def)
  then show ?thesis
    using sent_alone(3) [OF worth reach] by (intro clock_inv_sent [OF clock busy worth _ g'(1-3)]) auto
qed

lemma clock_inv_hangover:
  assumes inv: "gate_inv xs g p" and clock: "clock_inv xs g" and c: "counted xs pcm speech g g1" and waiting: "g_state g = HANGOVER"
    and step: "update_hangover pcm speech wall g1 = (out, g')" and mapper: "g_mapper g1 = g_mapper g"
  shows "clock_inv (xs @ [(pcm, speech)]) g'"
proof (cases "\<not> speech \<and> VAD_GATE_HANGOVER_MS < g_audio_cursor_ms g1 - g_last_speech_ms g1")
  case True
  have g': "g_sample_rate g' = g_sample_rate g" "g_channels g' = g_channels g" "g_state g' = SILENCE"
    "g_mapper g' = on_silence_skipped (g_mapper g)" "g_pre_roll g' = [pcm]"
    using step c mapper True by (auto simp: update_hangover_def counted_def Let_def)
  have "quiet xs pcm g" using quiet_after_hangover [OF inv _ waiting] c True by simp
  note held = silent_now [OF this]
  have "clock_inv (xs @ [(pcm, False)]) g'"
    using held(2) by (intro clock_inv_held [OF clock held(1) _ g'(1-4)]) (simp_all add: g'(5) waiting)
  then show ?thesis using True by simp
next
  case False
  have "g_sample_rate g' = g_sample_rate g" "g_channels g' = g_channels g" "g_state g' \<noteq> SILENCE"
    "g_mapper g' = on_audio_sent (chunk_sec g1 pcm) (wall_rel g1 wall) (g_mapper g1)"
    using step c waiting False
    by (cases speech; auto simp: update_hangover_def counted_def Let_def forward_mapper chunk_sec_def)+
  then show ?thesis
    using clock_inv_busy [OF inv clock c _ worth_in_hangover [OF inv c waiting False] mapper] waiting by simp
qed

lemma clock_inv_step:
  assumes one: "process_audio det pcm wall g = (Some out, g')" and active: "g_mode g = ''active''"
    and inv: "gate_inv xs g p" and clock: "clock_inv xs g"
    and first: "g_first_audio_wall_time g = (if xs = [] then None else Some start)" "start \<noteq> 0"
    and wall: "wall = start + ms_upto g xs (length xs) / 1000"
    and few: "length (checkpoints (g_mapper g')) < MAX_CHECKPOINTS"
  shows "clock_inv (xs @ [(pcm, is_speech out)]) g'" "g_first_audio_wall_time g' = Some start"
proof -
  obtain g1 where g1: "update_state pcm (is_speech out) wall g1 = (out, g')"
    "g_sample_rate g1 = g_sample_rate g" "g_channels g1 = g_channels g" "g_state g1 = g_state g"
    "g_pre_roll g1 = g_pre_roll g" "g_pre_roll_total_ms g1 = g_pre_roll_total_ms g" "g_mapper g1 = g_mapper g"
    "g_audio_cursor_ms g1 = g_audio_cursor_ms g + sample_ms (g_sample_rate g) (g_channels g) pcm"
    "g_last_speech_ms g1 = (if is_speech out then g_audio_cursor_ms g1 else g_last_speech_ms g)"
    "g_first_audio_wall_time g1 = (case g_first_audio_wall_time g of None \<Rightarrow> Some wall | Some t \<Rightarrow> Some t)"
    by (rule process_audio_active [OF one active])
  have c: "counted xs pcm (is_speech out) g g1"
    using g1 inv by (simp add: counted_def gate_inv_def)
  have start: "g_first_audio_wall_time g1 = Some start" using g1(10) first wall by (cases "xs = []") simp_all
  then show "g_first_audio_wall_time g' = Some start" using update_state_frame(4) [OF g1(1)] by simp
  have rel: "wall_rel g1 wall = ms_upto g xs (length xs) / 1000"
    using first(2) wall by (simp add: wall_rel_def start)
  show "clock_inv (xs @ [(pcm, is_speech out)]) g'"
  proof (cases "g_state g")
    case SILENCE
    then show ?thesis
      using clock_inv_silence [OF inv clock c SILENCE _ g1(7) rel few] g1(1,4) by (simp add: update_state_def)
  next
    case SPEECH
    then have "update_speech pcm (is_speech out) wall g1 = (out, g')" using g1(1,4) by (simp add: update_state_def)
    then have "g_sample_rate g' = g_sample_rate g" "g_channels g' = g_channels g" "g_state g' \<noteq> SILENCE"
      "g_mapper g' = on_audio_sent (chunk_sec g1 pcm) (wall_rel g1 wall) (g_mapper g1)"
      using g1(2-4) SPEECH by (cases "is_speech out"; auto simp: update_speech_def Let_def forward_mapper)+
    moreover have "worth g (xs @ [(pcm, is_speech out)]) (length xs)" by (rule worth_in_speech [OF inv SPEECH])
    ultimately show ?thesis
      using clock_inv_busy [OF inv clock c _ _ g1(7)] SPEECH by simp
  next
    case HANGOVER
    then show ?thesis
      using clock_inv_hangover [OF inv clock c HANGOVER _ g1(7)] g1(1,4) by (simp add: update_state_def)
  qed
qed

lemma checkpoints_grow_run:
  "gate_run det cs g = Some (outs, g') \<Longrightarrow> g_mode g = ''active'' \<Longrightarrow> length (checkpoints (g_mapper g)) \<le> MAX_CHECKPOINTS \<Longrightarrow>
    length (checkpoints (g_mapper g)) \<le> length (checkpoints (g_mapper g'))"
proof (induction cs arbitrary: g outs)
  case (Cons c cs)
  obtain pcm wall where c: "c = (pcm, wall)" by force
  obtain out rest g1 where outs: "outs = out # rest" and one: "process_audio det pcm wall g = (Some out, g1)"
    and run: "gate_run det cs g1 = Some (rest, g')"
    by (rule gate_run_Cons [OF Cons.prems(1) [unfolded c]])
  obtain g0 where g0: "update_state pcm (is_speech out) wall g0 = (out, g1)" "g_mapper g0 = g_mapper g"
    by (rule process_audio_active [OF one Cons.prems(2)])
  show ?case
    using Cons.IH [OF run] gate_run_frame(1) [OF one Cons.prems(2)] update_state_checkpoints [OF g0(1)] g0(2) Cons.prems(3)
    by fastforce
qed simp

lemma clock_inv_run:
  "gate_run det cs g = Some (outs, g') \<Longrightarrow> g_mode g = ''active'' \<Longrightarrow> gate_inv xs g p \<Longrightarrow> clock_inv xs g \<Longrightarrow> start \<noteq> 0 \<Longrightarrow>
    g_first_audio_wall_time g = (if xs = [] then None else Some start) \<Longrightarrow>
    (\<And>k. k < length cs \<Longrightarrow> snd (cs ! k) = start + ms_upto g (xs @ heard_of cs outs) (length xs + k) / 1000) \<Longrightarrow>
    length (checkpoints (g_mapper g)) \<le> MAX_CHECKPOINTS \<Longrightarrow> length (checkpoints (g_mapper g')) < MAX_CHECKPOINTS \<Longrightarrow>
    clock_inv (xs @ heard_of cs outs) g' \<and> g_sample_rate g' = g_sample_rate g \<and> g_channels g' = g_channels g"
proof (induction cs arbitrary: g outs xs p)
  case Nil
  then show ?case by (simp add: heard_of_def)
next
  case (Cons c cs)
  obtain pcm wall where c: "c = (pcm, wall)" by force
  obtain out rest g1 where outs: "outs = out # rest" and one: "process_audio det pcm wall g = (Some out, g1)"
    and run: "gate_run det cs g1 = Some (rest, g')"
    by (rule gate_run_Cons [OF Cons.prems(1) [unfolded c]])
  let ?xs = "xs @ [(pcm, is_speech out)]"
  obtain p1 where p1: "gate_inv ?xs g1 p1" "g_sample_rate g1 = g_sample_rate g" "g_channels g1 = g_channels g" "g_mode g1 = ''active''"
    using gate_inv_step [OF one Cons.prems(2,3)] by blast
  have heard: "xs @ heard_of (c # cs) outs = ?xs @ heard_of cs rest"
    by (simp add: heard_of_def c outs)
  obtain g0 where g0: "update_state pcm (is_speech out) wall g0 = (out, g1)" "g_mapper g0 = g_mapper g"
    by (rule process_audio_active [OF one Cons.prems(2)])
  have bound: "length (checkpoints (g_mapper g1)) \<le> MAX_CHECKPOINTS"
    using update_state_checkpoints [OF g0(1)] g0(2) Cons.prems(8) by simp
  have few: "length (checkpoints (g_mapper g1)) < MAX_CHECKPOINTS"
    using checkpoints_grow_run [OF run p1(4) bound] Cons.prems(9) by simp
  have "wall = start + ms_upto g xs (length xs) / 1000"
    using Cons.prems(7) [of 0] by (simp add: c)
  note step = clock_inv_step [OF one Cons.prems(2-4,6,5) this few]
  have real: "snd (cs ! k) = start + ms_upto g1 (?xs @ heard_of cs rest) (length ?xs + k) / 1000" if "k < length cs" for k
    using Cons.prems(7) [of "Suc k"] that by (simp only: heard p1(2,3) nth_Cons_Suc) simp
  show ?case
    unfolding heard
    using Cons.IH [OF run p1(4,1) step(1) Cons.prems(5) _ real bound Cons.prems(9)] step(2) p1(2,3) by simp
qed

lemma clock_inv_new: "clock_inv [] (new_gate det rate ch m)"
  by (simp add: clock_inv_def new_gate_def new_mapper_def)

text \<open>C35: When audio arrives in real time, the gate's clock is exact. Whatever the detector lets through,
  a moment of audio that was sent, at the time the recogniser knows it by (the audio sent before
  it), is mapped back to the time since the start at which it was received, as long as fewer
  checkpoints were needed than the gate keeps.\<close>

theorem remapped_times_are_exact:
  assumes "gate_run det cs (new_gate det rate channels ''active'') = Some (outs, g)"
    and "start \<noteq> 0" "\<forall>k < length cs. snd (cs ! k) = start + upto (pcm_ms rate channels) (heard_of cs outs) k / 1000"
    and "length (checkpoints (g_mapper g)) < MAX_CHECKPOINTS"
    and "i < length cs" "worth_hearing rate channels (heard_of cs outs) i" "0 \<le> t" "t * 1000 < pcm_ms rate channels (fst (cs ! i))"
  shows "dg_to_wall_rel (g_mapper g) (sent_ms rate channels (heard_of cs outs) i / 1000 + t) =
    upto (pcm_ms rate channels) (heard_of cs outs) i / 1000 + t"
proof -
  let ?g = "new_gate det rate channels ''active''"
  have new: "g_mode ?g = ''active''" "g_sample_rate ?g = rate" "g_channels ?g = channels" "g_first_audio_wall_time ?g = None"
    "checkpoints (g_mapper ?g) = []"
    by (simp_all add: new_gate_def new_mapper_def)
  have inv: "clock_inv (heard_of cs outs) g" "g_sample_rate g = rate" "g_channels g = channels"
    using clock_inv_run [OF assms(1) new(1) gate_inv_new clock_inv_new assms(2)] assms(3,4) by (simp_all add: new)
  have len: "length (heard_of cs outs) = length cs" if "gate_run det cs h = Some (outs, h')" for cs outs h h'
    using that by (induction cs arbitrary: outs h) (auto simp: heard_of_def split: prod.splits option.splits)
  have i: "i < length (heard_of cs outs)" "fst (heard_of cs outs ! i) = fst (cs ! i)"
    using assms(5) len [OF assms(1)] by (simp_all add: heard_of_def)
  have "sorted (map fst (checkpoints (g_mapper g)))" "checkpoints (g_mapper g) \<noteq> []"
    using inv i(1) assms(6) by (auto simp: clock_inv_def Let_def sorted_append)
  moreover have "lookup (checkpoints (g_mapper g)) (sent_ms rate channels (heard_of cs outs) i / 1000 + t) =
      upto (pcm_ms rate channels) (heard_of cs outs) i / 1000 + t"
    using inv i assms(6-8) by (simp add: clock_inv_def Let_def)
  ultimately show ?thesis by (simp add: dg_to_wall_rel_lookup)
qed


lemma remapped_times_are_exact_witness:
  "dg_to_wall_rel (g_mapper sample_final) (sent_ms 8 1 (heard_of sample_chunks sample_outs) 3 / 1000 + 1 / 16) = 7 / 16"
proof -
  have real: "\<forall>k < length sample_chunks. snd (sample_chunks ! k) = 1 + upto (pcm_ms 8 1) (heard_of sample_chunks sample_outs) k / 1000"
    by (simp add: sample_chunks_def sample_outs_def heard_of_def upto_def pcm_ms_def All_less_Suc)
  have few: "length (checkpoints (g_mapper sample_final)) < MAX_CHECKPOINTS"
    by (simp add: sample_final_def sample_gate_def MAX_CHECKPOINTS_def)
  have "worth_hearing 8 1 (heard_of sample_chunks sample_outs) 3"
    unfolding worth_hearing_def by (rule exI [of _ 3]) (simp add: sample_chunks_def sample_outs_def heard_of_def near_def)
  moreover have "upto (pcm_ms 8 1) (heard_of sample_chunks sample_outs) 3 = 375" "fst (sample_chunks ! 3) = loud" "3 < length sample_chunks"
    by (simp_all add: sample_chunks_def sample_outs_def heard_of_def upto_def pcm_ms_def)
  ultimately show ?thesis
    using remapped_times_are_exact [OF sample_run _ real few, of 3 "1 / 16"] by (simp add: pcm_ms_def)
qed

end
