(* ===== verification/Spec2Isabelle.thy ===== *)
theory Spec2Isabelle
  imports Lifecycle Sync_Pipeline Sync_Segments Memory_Serving Capture_Manifest Capture_Sessions Transcript_Segments Vad_Clock
begin

text \<open>
  \<^bold>\<open>Conversation finalization and offline sync in the Omi backend, verified\<close>

  A device records a \<^emph>\<open>recording session\<close>, bound to one \<^emph>\<open>conversation\<close> document. When the
  session ends the conversation must be processed exactly once (summarised, fanned out to
  integrations), although workers crash, tasks are delivered twice, pods race each other, and
  some jobs need keys only a live session has. The backend does this with a durable outbox in
  Firestore. Audio recorded without a connection is uploaded later: a \<^emph>\<open>sync job\<close> in Redis is run
  by Cloud Tasks deliveries that may overlap or be repeated, and a ledger in Firestore makes the
  processing and charging of each upload happen once. What was learned from conversations, the
  \<^emph>\<open>memories\<close> of a user, lives in an old and a new collection that one merged list presents in
  pages. A server without its cloud services records audio into files that must survive a crash.
  During a live session a \<^emph>\<open>gate\<close> keeps silence from the speech recogniser, whose clock then runs
  slower than the wall clock.
  This library models the Python code of these paths and proves what it promises.

  \<^bold>\<open>Parts of the program and their theories\<close>

  \<^item> \<^verbatim>\<open>Prelude\<close>: reading absent Python values, decimal printing and parsing, time, and the shared
    locales: an invariant kept by a step relation, a view frozen once terminal, a counter that
    only grows, ownership by epoch, a compare-and-swap generation.
  \<^item> \<^verbatim>\<open>Hashing\<close>: SHA-256, UTF-8 and hexadecimal, from which \<^verbatim>\<open>backend/database/document_ids.py\<close>
    derives job ids and the outbox its counter shards. The round constants are computed from
    their definition, the fractional parts of roots of the first primes.
  \<^item> \<^verbatim>\<open>Documents\<close>: the Firestore documents as records with optional fields, and the database
    \<open>fstore\<close> as a record of maps; the content test of \<^verbatim>\<open>backend/database/conversations.py\<close>.
  \<^item> \<^verbatim>\<open>Finalization_Decision\<close>: the reducer \<^verbatim>\<open>decide_finalization\<close> of
    \<^verbatim>\<open>backend/utils/conversations/finalization_decision.py\<close>.
  \<^item> \<^verbatim>\<open>Finalization_Jobs\<close>: the transactions of
    \<^verbatim>\<open>backend/database/conversation_finalization_jobs.py\<close>: admission, resuming, claiming,
    completing, fencing, fanout, retry, dead letter, meeting receipts, replay, abandonment and
    the sharded summary.
  \<^item> \<^verbatim>\<open>Finalization_Machine\<close>: the abstract contract, a step relation on the view of a job with the
    counter changes of each step, and the invariants proved on it.
  \<^item> \<^verbatim>\<open>Finalization_Refinement\<close>: every transaction is a step of that machine or changes nothing it
    sees; executions of the whole component (\<open>fin_step\<close>, \<open>reachable\<close>).
  \<^item> \<^verbatim>\<open>Finalization_Theorems\<close>: the guarantees of the outbox over all executions.
  \<^item> \<^verbatim>\<open>Sweeps\<close>: the paged scans of the same file, their persisted cursors and the recovery
    transactions on stranded conversations.
  \<^item> \<^verbatim>\<open>Reconciliation\<close>: the bounded contention retry of
    \<^verbatim>\<open>backend/database/firestore_transaction_retry.py\<close> and the periodic passes of
    \<^verbatim>\<open>backend/services/conversation_finalization.py\<close>.
  \<^item> \<^verbatim>\<open>Recording_Sessions\<close>: the bindings of \<^verbatim>\<open>backend/database/recording_sessions.py\<close>.
  \<^item> \<^verbatim>\<open>Lifecycle\<close>: the lifecycle owner \<^verbatim>\<open>backend/utils/conversations/lifecycle.py\<close>, which ties the
    others together: status transitions, the heartbeat, session routing, the finalization
    request.
  \<^item> \<^verbatim>\<open>Json_Values\<close>: JSON values, Python dictionaries with their key order, and stored JSON text.
  \<^item> \<^verbatim>\<open>Sync_Ledger\<close>: the transactions of \<^verbatim>\<open>backend/database/sync_ledger.py\<close> on the claim of an upload's
    content.
  \<^item> \<^verbatim>\<open>Sync_Jobs\<close>: \<^verbatim>\<open>backend/database/sync_jobs.py\<close>, the job documents, compare-and-set scripts, run
    locks and epochs in Redis (\<open>redis\<close>), with the executions \<open>sync_run\<close> of any clients.
  \<^item> \<^verbatim>\<open>Sync_Admission\<close>: capture times, lanes and recovery budgets
    (\<^verbatim>\<open>backend/utils/request_validation.py\<close>, \<^verbatim>\<open>backend/utils/sync/lanes.py\<close>, \<^verbatim>\<open>backfill.py\<close>).
  \<^item> \<^verbatim>\<open>Sync_Worker\<close>: where a run meets both stores, the run wrappers of
    \<^verbatim>\<open>backend/utils/sync/pipeline.py\<close> and the status poll of \<^verbatim>\<open>backend/routers/sync.py\<close>.
  \<^item> \<^verbatim>\<open>Sync_Runner\<close>: the Cloud Tasks handler \<^verbatim>\<open>run_sync_job\<close> of \<^verbatim>\<open>backend/routers/sync.py\<close>.
    \<^verbatim>\<open>Sync_Pipeline\<close>: the coordinator \<^verbatim>\<open>_run_full_pipeline_background_async\<close> of \<^verbatim>\<open>pipeline.py\<close> that it
    runs, with decoding, budgets, chunks of segments, checkpoints and publication.
  \<^item> \<^verbatim>\<open>Sync_Segments\<close>: voiced stretches, repeated lines, audio slices and byte ranges
    (\<^verbatim>\<open>pipeline.py\<close>, \<^verbatim>\<open>merge_dedupe.py\<close>, \<^verbatim>\<open>merge_audio.py\<close>, \<^verbatim>\<open>playback.py\<close>).
  \<^item> \<^verbatim>\<open>Json_Syntax\<close>: JSON as text, printed and parsed, with the proof that printed values are read
    back; \<^verbatim>\<open>Signed_Tokens\<close>: URL-safe base64, HMAC-SHA-256 and the contract of a signed token.
  \<^item> \<^verbatim>\<open>List_Cursor\<close>: the signed continuation cursor of the memory list,
    \<^verbatim>\<open>backend/utils/memory/universal_list_cursor.py\<close>.
  \<^item> \<^verbatim>\<open>List_Budget\<close>: the budget of documents and seconds a list request may spend,
    \<^verbatim>\<open>backend/utils/other/list_budget.py\<close>.
  \<^item> \<^verbatim>\<open>Memory_Status\<close>: the canonical status of memory ids, read alone and in batches
    (\<^verbatim>\<open>_canonical_status\<close> and \<^verbatim>\<open>canonical_statuses\<close> of \<^verbatim>\<open>backend/utils/memory/memory_service.py\<close>).
  \<^item> \<^verbatim>\<open>Memory_List\<close>: the merged memory list, \<^verbatim>\<open>read_page\<close> of the same file with its streams and scan
    budget, and the scans of \<^verbatim>\<open>backend/database/memories.py\<close> and
    \<^verbatim>\<open>backend/utils/memory/canonical_memory_adapter.py\<close>. \<^verbatim>\<open>Memory_Streams\<close>: the contract of a stream and
    its interpretations; \<^verbatim>\<open>Memory_Paging\<close>: a page, a request, a client that follows the cursors;
    \<^verbatim>\<open>Memory_Serving\<close>: the loaders over fixed documents, and the theorems.
  \<^item> \<^verbatim>\<open>Capture_Manifest\<close>: the signed manifests that bind uploaded bytes to a conversation,
    \<^verbatim>\<open>backend/utils/sync/capture_manifest.py\<close>.
  \<^item> \<^verbatim>\<open>File_Io\<close>: the files of a directory, system calls that take one entry of a schedule of faults
    each, \<^verbatim>\<open>try ... finally\<close>, and triples over every schedule. \<^verbatim>\<open>Offline_Capture\<close>: the whole of
    \<^verbatim>\<open>backend/utils/offline_audio_capture.py\<close> on top of it; \<^verbatim>\<open>Capture_Recovery\<close>: the operations
    under faults and without, and the lives of a session (\<open>session_step\<close>);
    \<^verbatim>\<open>Capture_Sessions\<close>: recording, the pass at the start of the server, and the theorems.
  \<^item> \<^verbatim>\<open>Transcript_Segments\<close>: the segments of a live session, how those of the recogniser are combined
    with the conversation's, and their rendering, \<^verbatim>\<open>backend/models/transcript_segment.py\<close>.
  \<^item> \<^verbatim>\<open>Vad_Samples\<close>, \<^verbatim>\<open>Vad_Gate\<close>: the speech gate of \<^verbatim>\<open>backend/utils/stt/vad_gate.py\<close>, its samples,
    buffers and state machine, over any detector; \<^verbatim>\<open>Vad_Theorems\<close>: what it sends, as a function of
    what was heard; \<^verbatim>\<open>Vad_Clock\<close>: the mapping of the recogniser's time to the wall clock.

  \<^bold>\<open>How code is modelled\<close>

  A Firestore transaction is a total function from the database to its result and the next
  database: the service runs it atomically, so an execution is a sequence of transactions of
  any clients in any order. Code that reads in one call and writes in another takes the
  interference in between as an argument (\<open>between\<close>); a Redis script is atomic like a
  transaction. The wall clock is an argument \<open>now\<close>: integer microseconds for \<^verbatim>\<open>datetime\<close> values,
  rational seconds for \<^verbatim>\<open>time.time()\<close>. An exception is a value of an error type or an \<open>io\<close> flag saying which
  external calls raise. \<^verbatim>\<open>x or default\<close> is read by \<open>int_or\<close>, \<open>str_or\<close> and \<open>truthy\<close>, which treat
  zero, the empty string and absence alike, as Python does. A process may be killed inside any
  system call of the offline capture; a schedule of faults says where. Counters are unbounded
  integers, as in Python. Environment variables are a map from names to strings.

  \<^bold>\<open>Parameters and bounds\<close>

  The decryption of stored transcripts (\<open>segment_codec\<close>), the query service of a sweep (\<open>fetch\<close>,
  whose contract \<open>serves\<close> is that a page is the next rows in document order), the existence test
  of a cursor document and the result rows of a single-page query are arguments. The sweep loop
  terminates because every page that does not end it advances the scan count towards
  \<^verbatim>\<open>max_scan\<close>; a repeated sweep is run one time more than the collection has rows, which suffices
  because each sweep advances by at least one row or reaches the end. Compare-and-set retries are
  bounded by the code's own limit of three; the chunking loop of voiced stretches is a partial
  function, shown to return for a positive cap. In the coordinator of a sync job (\<open>run_full_pipeline\<close>)
  the leaves are arguments (\<open>pipeline_io\<close>): what decoding, voice detection, the transcription of
  each segment and the regeneration of a conversation come to. Every call to a store has a number,
  and at each the model takes what other clients did before it and whether it raises, before or
  after its effect, or is cancelled. The chunks of five segments end because each shortens the list.
  The handler and its theorem in \<^verbatim>\<open>Sync_Pipeline\<close> assume nothing of the coordinator. The speech
  detector and the resampling in front of it are arguments of the gate. A request for memories takes a \<open>backend\<close>:
  its clock readings and the answers of Firestore, of the visibility policy and of the lineage lookup,
  numbered by call; \<open>backend_serves\<close> says what answers the documents of the account give. The
  loop that passes over hidden rows ends because each row is charged to a budget.

  \<^bold>\<open>What the theorems show\<close>

  \<^item> C1--C8, the outbox: the sharded counters are the census of the jobs; terminal jobs are final
    and their outcomes true; a stale worker cannot write; stranded jobs are recovered; key-bound jobs
    are not replayed; admission is idempotent; fanout is granted exactly to the current holder of a
    job its conversation is still bound to. Besides: a replay invalidates the tasks before it, dead
    letters touch only what they own, abandonment is conservative, the summary balances, a running
    lease excludes claims, a completed fanout stays closed. C9, the reducer: a generation finalizes
    once.
  \<^item> C10--C11, sweeps: coverage by repeated sweeps, recovery against live work; besides, the exception
    to coverage, what a window reports, cursor races and deferred ownership.
  \<^item> C12--C13, reconciliation: the retry bound, and a pass as an execution of the outbox; the orphan
    and abandonment passes likewise.
  \<^item> C14, sessions: permanent bindings; besides, final phases and safe cleanup.
  \<^item> C15, lifecycle: one job per generation, over every continuation that leaves the conversation bound
    to it; besides, compare-and-swap transitions, two places where the checks are weaker, heartbeat
    against sweep, session routing.
  \<^item> C16--C17, the sync ledger: a valid completion is final, a side effect is charged once.
  \<^item> C18, sync jobs: a result is replaced at most by the failure of a status read that found the job
    stale, and what is terminal refuses writes; besides, fenced writes need the lock.
  \<^item> C19, the worker boundary: a run that was taken over is shut out of both stores; besides,
    convergence publishes what the ledger proves, a poll that strands a claim, and a failure frees
    only its own claim.
  \<^item> C20, the task handler with the coordinator: a task is consumed and its audio deleted only for a
    job that is over; besides, a finished job is not run again, and the run that loses audio when
    the budget gate fails.
  \<^item> C21, admission: the daily budgets hold for calls that do not straddle midnight; besides, what
    makes an upload fresh.
  \<^item> C22--C23, segments: merging again adds nothing, capping loses no voice and ends; besides, byte
    ranges.
  \<^item> C24--C25, the memory list: following the cursors gives the reference list, which is newest first
    and names no memory twice; besides, pages are bounded whatever the store answers, and the archive
    flag has no effect. C26: batched statuses agree with single ones but for deletion receipts.
    Besides, the accounting of a budget and the prefix a budgeted stream yields.
  \<^item> C27--C30, the offline capture: a crash loses no frame of a capture below 4 GiB, the bytes written
    survive every sequence of recordings, kills and recoveries, the pass at the start publishes a
    directory or leaves it as it was, and what it reads back is well formed; besides, the captures
    too long to be published.
  \<^item> C31--C32, transcript segments: combining conserves the text of every recogniser, and clients that
    apply what a call reports stay in step, up to spacing that a later call normalises unreported.
  \<^item> C33--C35, the gate: exactly the chunks with speech and their surroundings are sent, a pause is
    flushed once, and the times of what was sent are mapped back exactly while fewer checkpoints were
    needed than are kept.
  \<^item> C36--C38, list cursors: what was issued decodes for its authority only, what is accepted was
    signed for the request, and which refusals there are.
  \<^item> C39--C40, manifests: what was issued verifies for its upload only, and binds the bytes;
    besides, one content set per conversation.

  \<^bold>\<open>Not modelled\<close>

  Metrics, logging and the Cloud Tasks client (I/O without effect on the database), the whole
  document writes \<^verbatim>\<open>create_*\<close> and \<^verbatim>\<open>persist_*\<close> of the lifecycle owner, the meeting-receipt
  reconciliation pass, the coordinator's inline runs with their lease heartbeat, the leaves of the
  coordinator (decoding, voice detection, transcription and assignment of one segment), the upload
  endpoints, fair use, the other HTTP routers, the pusher, the language-model and memory services
  and the mobile application. The offset path of the memory list, the decisions of a live session,
  the local transcription watch and the local transport and offline policies are not modelled
  either.
\<close>

end
